(* ===== verification/Prelude.thy ===== *)
theory Prelude imports Main "HOL-Library.Word" "HOL-Library.Monad_Syntax" begin

text \<open>
  Shared vocabulary of the development.

  The C++ program keeps machine integers at fixed widths (\<open>unsigned\<close>, \<open>std::uint32_t\<close>,
  \<open>std::uint64_t\<close>); they are words here. A failed \<open>assert\<close>, an index past the end of a vector and a
  dereferenced empty pointer are undefined behaviour in a release build; a computation that can meet
  one returns an \<open>option\<close>, with \<open>None\<close> for the fault, and every theorem that says
  \<open>f x = Some y\<close> also says that none of them happens.
\<close>

unbundle bit_operations_syntax

type_synonym u8 = "8 word"
type_synonym u16 = "16 word"
type_synonym u32 = "32 word"
type_synonym u64 = "64 word"

named_theorems model_simps \<open>values of the model's operations on well-formed arguments\<close>
named_theorems inv_intros \<open>preservation of the components' invariants\<close>

lemma u32_of_nat [simp]: "n < 2 ^ 32 \<Longrightarrow> unat (of_nat n :: u32) = n"
  by (simp add: unat_of_nat)

lemma u32_of_nat_inj: "m < 2 ^ 32 \<Longrightarrow> n < 2 ^ 32 \<Longrightarrow> (of_nat m :: u32) = of_nat n \<longleftrightarrow> m = n"
  by (metis u32_of_nat)

subsection \<open>Checked access to vectors\<close>

definition vec_at :: "'a list \<Rightarrow> nat \<Rightarrow> 'a option" where
  "vec_at xs i = (if i < length xs then Some (xs ! i) else None)"

definition vec_set :: "'a list \<Rightarrow> nat \<Rightarrow> 'a \<Rightarrow> 'a list option" where
  "vec_set xs i v = (if i < length xs then Some (xs[i := v]) else None)"

lemma vec_at_Some [simp]: "i < length xs \<Longrightarrow> vec_at xs i = Some (xs ! i)"
  by (simp add: vec_at_def)

lemma vec_set_Some [simp]: "i < length xs \<Longrightarrow> vec_set xs i v = Some (xs[i := v])"
  by (simp add: vec_set_def)

subsection \<open>Loops that can fault\<close>

text \<open>A \<open>for\<close> loop over a fixed range whose body may fault: the state is threaded through the
  iterations and the first fault ends the loop.\<close>

fun loopM :: "('a \<Rightarrow> 's \<Rightarrow> 's option) \<Rightarrow> 'a list \<Rightarrow> 's \<Rightarrow> 's option" where
  "loopM f [] s = Some s"
| "loopM f (x # xs) s = (case f x s of None \<Rightarrow> None | Some s' \<Rightarrow> loopM f xs s')"

lemma loopM_append: "loopM f (xs @ ys) s = Option.bind (loopM f xs s) (loopM f ys)"
  by (induction xs arbitrary: s) (auto split: option.splits)

text \<open>The rule for such loops: an invariant indexed by the iterations already done.\<close>

lemma loopM_rule:
  assumes "I [] s"
    and "\<And>done x s. x \<in> set xs \<Longrightarrow> I done s \<Longrightarrow> \<exists>s'. f x s = Some s' \<and> I (done @ [x]) s'"
  shows "\<exists>s'. loopM f xs s = Some s' \<and> I xs s'"
proof -
  have "\<exists>s'. loopM f ys s = Some s' \<and> I (done @ ys) s'"
    if "set ys \<subseteq> set xs" and "I done s" for ys "done" s
    using that
  proof (induction ys arbitrary: "done" s)
    case Nil
    then show ?case by simp
  next
    case (Cons y ys)
    from assms(2) [of y "done" s] Cons.prems obtain s1
      where "f y s = Some s1" "I (done @ [y]) s1" by auto
    moreover from this(2) Cons.prems obtain s2
      where "loopM f ys s1 = Some s2" "I ((done @ [y]) @ ys) s2" using Cons.IH by fastforce
    ultimately show ?case by simp
  qed
  from this [of xs "[]" s] assms(1) show ?thesis by simp
qed

lemma loopM_frame:
  assumes "loopM f xs s = Some s'" and "\<And>x s s'. f x s = Some s' \<Longrightarrow> p s' = p s"
  shows "p s' = p s"
  using assms(1)
proof (induction xs arbitrary: s)
  case Nil
  then show ?case by simp
next
  case (Cons x xs)
  then obtain s1 where "f x s = Some s1" "loopM f xs s1 = Some s'" by (auto split: option.splits)
  then show ?case using Cons.IH assms(2) by metis
qed

lemma loopM_total:
  "(\<And>x s. x \<in> set xs \<Longrightarrow> f x s = Some (g x s)) \<Longrightarrow> loopM f xs s = Some (fold g xs s)"
  by (induction xs arbitrary: s) auto

text \<open>The same, for an iteration that needs to know how far the loop has come, and for a loop that ended.\<close>

lemma loopM_prefix:
  assumes "I [] s"
    and "\<And>done x rest s. xs = done @ x # rest \<Longrightarrow> I done s \<Longrightarrow> \<exists>s'. f x s = Some s' \<and> I (done @ [x]) s'"
  shows "\<exists>s'. loopM f xs s = Some s' \<and> I xs s'"
proof -
  have "\<exists>s'. loopM f ys s = Some s' \<and> I xs s'" if "xs = done @ ys" "I done s" for ys "done" s
    using that
  proof (induction ys arbitrary: "done" s)
    case (Cons y ys)
    from assms(2) [OF Cons.prems] obtain s1 where "f y s = Some s1" "I (done @ [y]) s1" by auto
    with Cons.IH [of "done @ [y]" s1] Cons.prems show ?case by simp
  qed simp
  from this [of "[]" xs s] assms(1) show ?thesis by simp
qed

lemma loopM_invariant:
  assumes "loopM f xs s = Some s'" "I s" "\<And>x s s'. x \<in> set xs \<Longrightarrow> I s \<Longrightarrow> f x s = Some s' \<Longrightarrow> I s'"
  shows "I s'"
  using assms
proof (induction xs arbitrary: s)
  case (Cons x xs)
  then obtain s1 where "f x s = Some s1" "loopM f xs s1 = Some s'" by (auto split: option.splits)
  with Cons show ?case by (metis list.set_intros)
qed simp

subsection \<open>Lists\<close>

lemma those_map:
  assumes "\<forall>x \<in> set xs. \<exists>y. f x = Some y \<and> P x y"
  shows "\<exists>ys. those (map f xs) = Some ys \<and> list_all2 P xs ys"
  using assms by (induction xs) (auto simp: list_all2_Cons1)

lemma those_map_ok:
  assumes "\<And>x. x \<in> set xs \<Longrightarrow> \<exists>y. f x = Some y \<and> P y"
  shows "\<exists>ys. those (map f xs) = Some ys \<and> (\<forall>y \<in> set ys. P y) \<and> length ys = length xs"
proof -
  have "\<forall>x \<in> set xs. \<exists>y. f x = Some y \<and> P y" using assms by blast
  from those_map [OF this] show ?thesis by (auto simp: list_all2_conv_all_nth in_set_conv_nth)
qed

lemma those_defined: "\<forall>x \<in> set xs. x \<noteq> None \<Longrightarrow> \<exists>ys. those xs = Some ys"
  by (induction xs) auto

lemma those_Some_set: "those xs = Some ys \<Longrightarrow> set xs = Some ` set ys"
proof (induction xs arbitrary: ys)
  case (Cons x xs)
  then obtain y zs where "x = Some y" "those xs = Some zs" "ys = y # zs" by (auto split: option.splits)
  with Cons.IH show ?case by simp
qed simp

lemma count_list_filter_neq: "k \<noteq> l \<Longrightarrow> count_list (filter (\<lambda>x. x \<noteq> l) xs) k = count_list xs k"
  by (induction xs) auto

lemma filter_neq_id: "l \<notin> set xs \<Longrightarrow> filter (\<lambda>x. x \<noteq> l) xs = xs"
  by (induction xs) auto

end
