(* ===== verification/Board_Model.thy ===== *)
theory Board_Model imports Prelude begin

text \<open>
  The library \<open>src/game/model\<close>: coordinates, players, stones, and the board with its checked access
  operations. Each operation begins with the \<open>assert\<close>s of the source; \<open>None\<close> is a failed assert or
  an access outside the vector.
\<close>

subsection \<open>Coordinates and players\<close>

record coord =
  coord_x :: u32
  coord_y :: u32

abbreviation Coord :: "u32 \<Rightarrow> u32 \<Rightarrow> coord" where
  "Coord a b \<equiv> \<lparr>coord_x = a, coord_y = b\<rparr>"

datatype player = PBlack | PWhite

definition opponent :: "player \<Rightarrow> player" where
  "opponent pl = (if pl = PWhite then PBlack else PWhite)"

datatype game_status = Idle | Ready | Active | Done

lemma opponent_simps [simp]:
  "opponent PBlack = PWhite" "opponent PWhite = PBlack" "opponent (opponent pl) = pl"
  by (cases pl; simp add: opponent_def)+

lemma opponent_neq [simp]: "opponent pl \<noteq> pl" "pl \<noteq> opponent pl"
  by (cases pl; simp)+

lemma opponent_eq_iff [simp]: "opponent pl = opponent q \<longleftrightarrow> pl = q"
  by (cases pl; cases q; simp)

subsection \<open>The board\<close>

datatype stone = Empty | Black | White

text \<open>The board: \<open>m_size\<close> is a \<open>size_t\<close>, \<open>m_board\<close> the row-major vector of \<open>m_size * m_size\<close> stones.\<close>

record board =
  m_size :: nat
  m_board :: "stone list"

definition toStone :: "player \<Rightarrow> stone" where
  "toStone pl = (if pl = PWhite then White else Black)"

definition board_new :: "nat \<Rightarrow> board" where
  "board_new n = \<lparr>m_size = n, m_board = replicate (n * n) Empty\<rparr>"

definition board_index :: "board \<Rightarrow> coord \<Rightarrow> nat" where
  "board_index b c = unat (coord_y c) * m_size b + unat (coord_x c)"

definition on_board :: "nat \<Rightarrow> coord \<Rightarrow> bool" where
  "on_board n c \<longleftrightarrow> unat (coord_x c) < n \<and> unat (coord_y c) < n"

definition board_get :: "board \<Rightarrow> coord \<Rightarrow> stone option" where
  "board_get b c =
     (if on_board (m_size b) c then vec_at (m_board b) (board_index b c) else None)"

definition board_isEmpty :: "board \<Rightarrow> coord \<Rightarrow> bool option" where
  "board_isEmpty b c =
     (if on_board (m_size b) c
      then do { s \<leftarrow> board_get b c; Some (s = Empty) }
      else None)"

definition board_place :: "board \<Rightarrow> coord \<Rightarrow> stone \<Rightarrow> (bool \<times> board) option" where
  "board_place b c v =
     (if on_board (m_size b) c \<and> v \<noteq> Empty
      then do {
        free \<leftarrow> board_isEmpty b c;
        if free
        then do {
          d \<leftarrow> vec_set (m_board b) (board_index b c) v;
          Some (True, b\<lparr>m_board := d\<rparr>)
        }
        else Some (False, b)
      }
      else None)"

definition board_remove :: "board \<Rightarrow> coord \<Rightarrow> (bool \<times> board) option" where
  "board_remove b c =
     (if on_board (m_size b) c
      then do {
        free \<leftarrow> board_isEmpty b c;
        if \<not> free
        then do {
          d \<leftarrow> vec_set (m_board b) (board_index b c) Empty;
          Some (True, b\<lparr>m_board := d\<rparr>)
        }
        else Some (False, b)
      }
      else None)"

subsection \<open>Well-formed boards and their contents\<close>

text \<open>
  \<open>board_ok\<close> is the class invariant: the vector has \<open>size * size\<close> entries. The bound on the size says
  that it converts to \<open>int\<close> unchanged; the program only plays on 9, 13 and 19.
\<close>

definition board_ok :: "board \<Rightarrow> bool" where
  "board_ok b \<longleftrightarrow> length (m_board b) = m_size b * m_size b \<and> m_size b < 2 ^ 31"

definition stone_at :: "board \<Rightarrow> coord \<Rightarrow> stone" where
  "stone_at b c = m_board b ! board_index b c"

lemma toStone_simps [simp]:
  "toStone PBlack = Black" "toStone PWhite = White" "toStone pl \<noteq> Empty" "Empty \<noteq> toStone pl"
  by (cases pl; simp add: toStone_def)+

lemma toStone_eq_iff [simp]: "toStone pl = toStone q \<longleftrightarrow> pl = q"
  by (cases pl; cases q; simp)

lemma stone_cases_player: "s = Empty \<or> s = toStone pl \<or> s = toStone (opponent pl)"
  by (cases s; cases pl; simp)

lemma board_index_lt:
  assumes "on_board (m_size b) c"
  shows "board_index b c < m_size b * m_size b"
proof -
  let ?x = "unat (coord_x c)" and ?y = "unat (coord_y c)"
  from assms have "?x < m_size b" "Suc ?y \<le> m_size b" by (auto simp: on_board_def)
  then have "?y * m_size b + ?x < Suc ?y * m_size b" by simp
  also have "\<dots> \<le> m_size b * m_size b"
    using \<open>Suc ?y \<le> m_size b\<close> by (rule mult_le_mono1)
  finally show ?thesis by (simp add: board_index_def)
qed

text \<open>Index arithmetic is done in \<open>size_t\<close>; on a well-formed board it never wraps.\<close>

lemma board_index_no_wrap:
  assumes "board_ok b" "on_board (m_size b) c"
  shows "board_index b c < 2 ^ 64"
proof -
  have "board_index b c < m_size b * m_size b" using assms(2) by (rule board_index_lt)
  also have "\<dots> \<le> 2 ^ 31 * 2 ^ 31" using assms(1) by (intro mult_le_mono) (auto simp: board_ok_def)
  finally show ?thesis by simp
qed

lemma board_index_inj:
  assumes "on_board (m_size b) c" "on_board (m_size b) d" "board_index b c = board_index b d"
  shows "c = d"
proof -
  let ?n = "m_size b"
  from assms have "unat (coord_x c) < ?n" "unat (coord_x d) < ?n" by (auto simp: on_board_def)
  then have "unat (coord_y c) = board_index b c div ?n" "unat (coord_x c) = board_index b c mod ?n"
    "unat (coord_y d) = board_index b d div ?n" "unat (coord_x d) = board_index b d mod ?n"
    by (auto simp: board_index_def)
  with assms(3) have "unat (coord_y c) = unat (coord_y d)" "unat (coord_x c) = unat (coord_x d)"
    by simp_all
  then show ?thesis by (simp add: coord.equality word_unat_eq_iff)
qed

lemma board_get_ok [model_simps]:
  assumes "board_ok b" "on_board (m_size b) c"
  shows "board_get b c = Some (stone_at b c)"
  using assms board_index_lt [of b c]
  by (simp add: board_get_def board_ok_def stone_at_def)

lemma board_isEmpty_ok [model_simps]:
  "board_ok b \<Longrightarrow> on_board (m_size b) c \<Longrightarrow> board_isEmpty b c = Some (stone_at b c = Empty)"
  by (simp add: board_isEmpty_def board_get_ok)

text \<open>Reading outside the board is a fault, whatever the rest of the board holds.\<close>

lemma board_get_off: "\<not> on_board (m_size b) c \<Longrightarrow> board_get b c = None"
  by (simp add: board_get_def)

definition board_put :: "board \<Rightarrow> coord \<Rightarrow> stone \<Rightarrow> board" where
  "board_put b c v = b\<lparr>m_board := (m_board b)[board_index b c := v]\<rparr>"

lemma board_put_size [simp]: "m_size (board_put b c v) = m_size b"
  by (simp add: board_put_def)

lemma board_put_ok [simp]: "board_ok (board_put b c v) = board_ok b"
  by (simp add: board_put_def board_ok_def)

lemma stone_at_put:
  assumes "board_ok b" "on_board (m_size b) c" "on_board (m_size b) d"
  shows "stone_at (board_put b c v) d = (if d = c then v else stone_at b d)"
proof -
  have "board_index (board_put b c v) d = board_index b d" by (simp add: board_index_def board_put_def)
  moreover have "board_index b c < length (m_board b)"
    using assms board_index_lt [of b c] by (simp add: board_ok_def)
  moreover have "d \<noteq> c \<Longrightarrow> board_index b c \<noteq> board_index b d"
    using board_index_inj [OF assms(2,3)] by auto
  ultimately show ?thesis by (simp add: stone_at_def board_put_def)
qed

lemma board_place_ok [model_simps]:
  assumes "board_ok b" "on_board (m_size b) c" "v \<noteq> Empty"
  shows "board_place b c v =
    Some (if stone_at b c = Empty then (True, board_put b c v) else (False, b))"
  using assms board_index_lt [of b c]
  by (simp add: board_place_def board_isEmpty_ok board_put_def board_ok_def)

lemma board_remove_ok [model_simps]:
  assumes "board_ok b" "on_board (m_size b) c"
  shows "board_remove b c =
    Some (if stone_at b c \<noteq> Empty then (True, board_put b c Empty) else (False, b))"
  using assms board_index_lt [of b c]
  by (simp add: board_remove_def board_isEmpty_ok board_put_def board_ok_def)

lemma board_new_simps [simp]: "m_size (board_new n) = n"
  by (simp add: board_new_def)

lemma board_new_ok [inv_intros]: "n < 2 ^ 31 \<Longrightarrow> board_ok (board_new n)"
  by (simp add: board_new_def board_ok_def)

lemma stone_at_new [simp]: "on_board n c \<Longrightarrow> stone_at (board_new n) c = Empty"
  using board_index_lt [of "board_new n" c] by (simp add: stone_at_def) (simp add: board_new_def)

text \<open>All coordinates, in the order of the source's nested loops: \<open>x\<close> outside, \<open>y\<close> inside.\<close>

definition all_coords :: "nat \<Rightarrow> coord list" where
  "all_coords n = concat (map (\<lambda>a. map (\<lambda>b. Coord (of_nat a) (of_nat b)) [0..<n]) [0..<n])"

lemma set_all_coords:
  assumes "n < 2 ^ 31"
  shows "set (all_coords n) = {c. on_board n c}"
proof (intro set_eqI iffI)
  fix c
  assume "c \<in> set (all_coords n)"
  then obtain a b where "c = Coord (of_nat a) (of_nat b)" "a < n" "b < n"
    by (auto simp: all_coords_def)
  then show "c \<in> {c. on_board n c}"
    using assms by (simp add: on_board_def)
next
  fix c
  assume "c \<in> {c. on_board n c}"
  then have "c = Coord (of_nat (unat (coord_x c))) (of_nat (unat (coord_y c)))"
    "unat (coord_x c) < n" "unat (coord_y c) < n" by (auto simp: on_board_def)
  then show "c \<in> set (all_coords n)" unfolding all_coords_def
    by (auto intro!: bexI [of _ "unat (coord_x c)"] image_eqI [of _ _ "unat (coord_y c)"])
qed

lemma distinct_all_coords:
  assumes "n < 2 ^ 31"
  shows "distinct (all_coords n)"
proof -
  have inj: "inj_on (\<lambda>k. of_nat k :: u32) {0..<n}"
    using assms by (intro inj_onI) (simp add: u32_of_nat_inj)
  show ?thesis
    unfolding all_coords_def
  proof (rule distinct_concat)
    show "distinct (map (\<lambda>a. map (\<lambda>b. Coord (of_nat a) (of_nat b)) [0..<n]) [0..<n])"
      unfolding distinct_map
    proof (intro conjI inj_onI)
      fix a a'
      assume "a \<in> set [0..<n]" "a' \<in> set [0..<n]"
        "map (\<lambda>b. Coord (of_nat a) (of_nat b)) [0..<n] = map (\<lambda>b. Coord (of_nat a') (of_nat b)) [0..<n]"
      then show "a = a'" using inj by (auto simp: inj_on_def)
    qed simp
  qed (use inj in \<open>auto simp: distinct_map inj_on_def\<close>)
qed

lemma finite_on_board: "finite {c. on_board n c}"
proof -
  have "{c. on_board n c} \<subseteq> (\<lambda>(a, b). Coord (of_nat a) (of_nat b)) ` ({..<n} \<times> {..<n})"
  proof
    fix c
    assume "c \<in> {c. on_board n c}"
    then show "c \<in> (\<lambda>(a, b). Coord (of_nat a) (of_nat b)) ` ({..<n} \<times> {..<n})"
      by (intro image_eqI [of _ _ "(unat (coord_x c), unat (coord_y c))"]) (auto simp: on_board_def)
  qed
  then show ?thesis by (rule finite_subset) simp
qed

lemma board_eqI:
  assumes "board_ok a" "board_ok b" "m_size a = m_size b"
    and "\<And>c. on_board (m_size a) c \<Longrightarrow> stone_at a c = stone_at b c"
  shows "a = b"
proof -
  have "m_board a ! i = m_board b ! i" if "i < m_size a * m_size a" for i
  proof -
    let ?n = "m_size a"
    let ?c = "Coord (of_nat (i mod ?n)) (of_nat (i div ?n))"
    have lt: "i mod ?n < ?n" "i div ?n < ?n" using that
      by (simp_all add: less_mult_imp_div_less) (cases ?n; simp)
    have n32: "?n < 2 ^ 32" using assms(1) by (simp add: board_ok_def)
    have un: "unat (of_nat (i mod ?n) :: u32) = i mod ?n"
      "unat (of_nat (i div ?n) :: u32) = i div ?n"
      by (intro u32_of_nat less_trans [OF lt(1) n32] less_trans [OF lt(2) n32])+
    with lt have on: "on_board ?n ?c" by (simp add: on_board_def)
    have "board_index a ?c = i" "board_index b ?c = i" using un assms(3) by (simp_all add: board_index_def)
    with assms(4) [OF on] show ?thesis by (simp add: stone_at_def)
  qed
  then have "m_board a = m_board b"
    using assms(1-3) by (intro nth_equalityI) (auto simp: board_ok_def)
  with assms(3) show ?thesis by simp
qed

end
