(* ===== verification/Zobrist.thy ===== *)
theory Zobrist imports Board_Model begin

text \<open>
  \<open>src/game/core/include/core/IZobristHash.hpp\<close> and \<open>src/game/core/zobristHash.hpp\<close>.

  The interface \<open>IZobristHash\<close> is the record \<open>hasher\<close> of its two virtual functions, and the contract
  its clients rely on is the locale \<open>zobrist_hash\<close>: on the squares of the board \<open>stone\<close> returns.
  The template \<open>ZobristHash<SIZE>\<close> is the table it is filled from. Its numbers come from
  \<open>std::uniform_int_distribution\<close>, whose algorithm the C++ standard leaves open, over a
  \<open>std::mt19937_64\<close>: the engine's constructor and the distribution's call are the parameters \<open>mk\<close>
  and \<open>draw\<close> of the model, and nothing is assumed about the numbers they yield.
\<close>

subsection \<open>The interface\<close>

record hasher =
  hash_stone :: "coord \<Rightarrow> player \<Rightarrow> u64 option"
  hash_toggle :: u64

locale zobrist_hash =
  fixes H :: hasher and n :: nat
  assumes stone_defined: "on_board n c \<Longrightarrow> \<exists>h. hash_stone H c pl = Some h"
begin

lemma hash_stone_the: "on_board n c \<Longrightarrow> hash_stone H c pl = Some (the (hash_stone H c pl))"
  using stone_defined [of c pl] by auto

text \<open>A loop that folds the stones of a list of squares into a hash returns their exclusive or.\<close>

lemma loopM_hash:
  assumes "\<forall>c \<in> set cs. on_board n c"
  shows "loopM (\<lambda>c h. do { k \<leftarrow> hash_stone H c pl; Some (h XOR k) }) cs h0 =
    Some (h0 XOR foldr (\<lambda>c acc. the (hash_stone H c pl) XOR acc) cs 0)"
  using assms
proof (induction cs arbitrary: h0)
  case Nil
  then show ?case by simp
next
  case (Cons c cs)
  then obtain k where "hash_stone H c pl = Some k" using stone_defined by fastforce
  with Cons show ?case by (simp add: xor.assoc)
qed

end

subsection \<open>The table\<close>

text \<open>Repeated draws: \<open>repeatM f k\<close> runs \<open>f\<close> \<open>k\<close> times and lists the results in order.\<close>

fun repeatM :: "('g \<Rightarrow> 'a \<times> 'g) \<Rightarrow> nat \<Rightarrow> 'g \<Rightarrow> 'a list \<times> 'g" where
  "repeatM f 0 g = ([], g)"
| "repeatM f (Suc k) g = (let (a, g1) = f g; (as, g2) = repeatM f k g1 in (a # as, g2))"

record zobrist =
  m_table :: "u64 list list list"
  m_playerToggle :: u64

definition initRandomTable :: "(u64 \<Rightarrow> 'g) \<Rightarrow> ('g \<Rightarrow> u64 \<times> 'g) \<Rightarrow> nat \<Rightarrow> zobrist" where
  "initRandomTable mk draw SIZE =
     (let rng = mk 0xA5F3C7E2B1D94;
          (table, rng1) = repeatM (repeatM (repeatM draw 2) SIZE) SIZE rng;
          (toggle, rng2) = draw rng1
      in \<lparr>m_table = table, m_playerToggle = toggle\<rparr>)"

text \<open>\<open>enum class Player { Black = 1, White = 2 }\<close>.\<close>

definition player_value :: "player \<Rightarrow> nat" where
  "player_value pl = (case pl of PBlack \<Rightarrow> 1 | PWhite \<Rightarrow> 2)"

definition zobrist_stone :: "nat \<Rightarrow> zobrist \<Rightarrow> coord \<Rightarrow> player \<Rightarrow> u64 option" where
  "zobrist_stone SIZE z c color =
     (if (player_value color = 1 \<or> player_value color = 2) \<and> on_board SIZE c
      then do {
        column \<leftarrow> vec_at (m_table z) (unat (coord_x c));
        cell \<leftarrow> vec_at column (unat (coord_y c));
        vec_at cell (player_value color - 1)
      }
      else None)"

definition ZobristHash :: "(u64 \<Rightarrow> 'g) \<Rightarrow> ('g \<Rightarrow> u64 \<times> 'g) \<Rightarrow> nat \<Rightarrow> hasher" where
  "ZobristHash mk draw SIZE =
     (let z = initRandomTable mk draw SIZE
      in \<lparr>hash_stone = zobrist_stone SIZE z, hash_toggle = m_playerToggle z\<rparr>)"

subsection \<open>The table has the shape \<open>SIZE\<close> by \<open>SIZE\<close> by 2\<close>

lemma length_repeatM [simp]: "length (fst (repeatM f k g)) = k"
proof (induction k arbitrary: g)
  case 0
  then show ?case by simp
next
  case (Suc k)
  from Suc.IH [of "snd (f g)"] show ?case by (simp add: Let_def split: prod.splits) fastforce
qed

lemma repeatM_elems: "a \<in> set (fst (repeatM f k g)) \<Longrightarrow> \<exists>g'. a = fst (f g')"
proof (induction k arbitrary: g)
  case 0
  then show ?case by simp
next
  case (Suc k)
  obtain a1 g1 where f: "f g = (a1, g1)" by fastforce
  obtain as g2 where r: "repeatM f k g1 = (as, g2)" by fastforce
  from Suc.prems f r have "a = a1 \<or> a \<in> set (fst (repeatM f k g1))" by auto
  then show ?case using Suc.IH f by (metis fst_conv)
qed

lemma initRandomTable_shape:
  "length (m_table (initRandomTable mk draw SIZE)) = SIZE"
  "column \<in> set (m_table (initRandomTable mk draw SIZE)) \<Longrightarrow> length column = SIZE"
  "column \<in> set (m_table (initRandomTable mk draw SIZE)) \<Longrightarrow> cell \<in> set column \<Longrightarrow> length cell = 2"
proof -
  let ?t = "fst (repeatM (repeatM (repeatM draw 2) SIZE) SIZE (mk 0xA5F3C7E2B1D94))"
  have t: "m_table (initRandomTable mk draw SIZE) = ?t"
    by (simp add: initRandomTable_def Let_def split: prod.splits)
  then show "length (m_table (initRandomTable mk draw SIZE)) = SIZE" by simp
  assume c: "column \<in> set (m_table (initRandomTable mk draw SIZE))"
  with t obtain g where g: "column = fst (repeatM (repeatM draw 2) SIZE g)"
    using repeatM_elems by metis
  then show "length column = SIZE" by simp
  assume "cell \<in> set column"
  with g show "length cell = 2" using repeatM_elems by (metis length_repeatM)
qed

lemma zobrist_stone_ok:
  assumes "on_board SIZE c"
  shows "zobrist_stone SIZE (initRandomTable mk draw SIZE) c pl =
    Some (m_table (initRandomTable mk draw SIZE) ! unat (coord_x c) ! unat (coord_y c) ! (player_value pl - 1))"
proof -
  let ?T = "m_table (initRandomTable mk draw SIZE)"
  let ?col = "?T ! unat (coord_x c)"
  from assms have x: "unat (coord_x c) < length ?T" and y: "unat (coord_y c) < SIZE"
    by (auto simp: on_board_def initRandomTable_shape)
  from x have col: "?col \<in> set ?T" by simp
  with y have "unat (coord_y c) < length ?col" by (simp add: initRandomTable_shape)
  moreover from this col have "length (?col ! unat (coord_y c)) = 2"
    using initRandomTable_shape(3) nth_mem by blast
  ultimately show ?thesis
    using assms x by (cases pl) (simp_all add: zobrist_stone_def player_value_def)
qed

interpretation zh: zobrist_hash "ZobristHash mk draw SIZE" SIZE for mk draw SIZE
  by unfold_locales (simp add: ZobristHash_def Let_def zobrist_stone_ok)

end
