(* ===== verification/Go_Position.thy ===== *)
theory Go_Position imports Zobrist begin

text \<open>
  \<open>src/game/core/position.cpp\<close>: the position of a game (board, player to move, hash, move number),
  and the hash a position should have: the exclusive or of the table entries of its stones, and of
  the toggle when White is to move.
\<close>

record game_position =
  gp_board :: board
  gp_currentPlayer :: player
  gp_hash :: u64
  gp_moveId :: u32

definition game_position_new :: "nat \<Rightarrow> game_position" where
  "game_position_new n =
     \<lparr>gp_board = board_new n, gp_currentPlayer = PBlack, gp_hash = 0, gp_moveId = 0\<rparr>"

definition position_putStone :: "game_position \<Rightarrow> coord \<Rightarrow> hasher \<Rightarrow> game_position option" where
  "position_putStone p c H = do {
     (placed, b) \<leftarrow> board_place (gp_board p) c (toStone (gp_currentPlayer p));
     k \<leftarrow> hash_stone H c (gp_currentPlayer p);
     Some \<lparr>gp_board = b,
           gp_currentPlayer = opponent (gp_currentPlayer p),
           gp_hash = (gp_hash p XOR k) XOR hash_toggle H,
           gp_moveId = gp_moveId p + 1\<rparr>
   }"

definition position_pass :: "game_position \<Rightarrow> hasher \<Rightarrow> game_position" where
  "position_pass p H =
     p\<lparr>gp_currentPlayer := opponent (gp_currentPlayer p),
       gp_hash := gp_hash p XOR hash_toggle H,
       gp_moveId := gp_moveId p + 1\<rparr>"

subsection \<open>Exclusive or over a list\<close>

definition xor_list :: "('a \<Rightarrow> u64) \<Rightarrow> 'a list \<Rightarrow> u64" where
  "xor_list f xs = foldr (\<lambda>a acc. f a XOR acc) xs 0"

lemma xor_list_simps [simp]:
  "xor_list f [] = 0" "xor_list f (x # xs) = f x XOR xor_list f xs"
  by (simp_all add: xor_list_def)

lemma xor_list_cong [cong]:
  "xs = ys \<Longrightarrow> (\<And>x. x \<in> set ys \<Longrightarrow> f x = g x) \<Longrightarrow> xor_list f xs = xor_list g ys"
  by (induction xs arbitrary: ys) auto

lemma xor_list_zero [simp]: "xor_list (\<lambda>_. 0) xs = 0"
  by (induction xs) auto

lemma xor_list_xor: "xor_list (\<lambda>a. f a XOR g a) xs = xor_list f xs XOR xor_list g xs"
  by (induction xs) (auto simp: ac_simps)

lemma xor_list_filter: "xor_list f (filter P xs) = xor_list (\<lambda>a. if P a then f a else 0) xs"
  by (induction xs) auto

lemma xor_list_single:
  assumes "distinct xs" "a \<in> set xs"
  shows "xor_list (\<lambda>b. if b = a then v else 0) xs = v"
  using assms
proof (induction xs)
  case Nil
  then show ?case by simp
next
  case (Cons x xs)
  show ?case
  proof (cases "x = a")
    case True
    with Cons.prems have "xor_list (\<lambda>b. if b = a then v else 0) xs = xor_list (\<lambda>_. 0) xs"
      by (intro xor_list_cong) auto
    with True show ?thesis by simp
  next
    case False
    with Cons show ?thesis by auto
  qed
qed

subsection \<open>The hash of a position\<close>

definition stone_hash :: "hasher \<Rightarrow> coord \<Rightarrow> stone \<Rightarrow> u64" where
  "stone_hash H c s =
     (case s of Empty \<Rightarrow> 0 | Black \<Rightarrow> the (hash_stone H c PBlack) | White \<Rightarrow> the (hash_stone H c PWhite))"

definition position_hash :: "hasher \<Rightarrow> board \<Rightarrow> player \<Rightarrow> u64" where
  "position_hash H b pl =
     xor_list (\<lambda>c. stone_hash H c (stone_at b c)) (all_coords (m_size b))
     XOR (if pl = PWhite then hash_toggle H else 0)"

lemma stone_hash_simps [simp]:
  "stone_hash H c Empty = 0" "stone_hash H c (toStone pl) = the (hash_stone H c pl)"
  by (simp add: stone_hash_def) (cases pl; simp add: stone_hash_def)

lemma position_hash_new [simp]:
  assumes "n < 2 ^ 31"
  shows "position_hash H (board_new n) PBlack = 0"
proof -
  have "xor_list (\<lambda>c. stone_hash H c (stone_at (board_new n) c)) (all_coords n) = xor_list (\<lambda>_. 0) (all_coords n)"
    using assms by (intro xor_list_cong) (simp_all add: set_all_coords)
  then show ?thesis by (simp add: position_hash_def)
qed

lemma position_hash_toggle:
  "position_hash H b (opponent pl) = position_hash H b pl XOR hash_toggle H"
  by (cases pl) (simp_all add: position_hash_def xor.assoc)

text \<open>Two boards of one size: the hashes differ by the exclusive or of what changed on each square.\<close>

lemma position_hash_diff:
  assumes "m_size b' = m_size b"
  shows "position_hash H b' (opponent pl) = position_hash H b pl XOR hash_toggle H XOR
    xor_list (\<lambda>c. stone_hash H c (stone_at b c) XOR stone_hash H c (stone_at b' c)) (all_coords (m_size b))"
  using assms by (simp add: position_hash_toggle xor_list_xor) (simp add: position_hash_def ac_simps)

text \<open>The running hash of a position agrees with the hash of its board and player.\<close>

definition hash_ok :: "hasher \<Rightarrow> game_position \<Rightarrow> bool" where
  "hash_ok H p \<longleftrightarrow> gp_hash p = position_hash H (gp_board p) (gp_currentPlayer p)"

lemma hash_ok_new [inv_intros]: "n < 2 ^ 31 \<Longrightarrow> hash_ok H (game_position_new n)"
  by (simp add: hash_ok_def game_position_new_def)

lemma hash_ok_pass [inv_intros]: "hash_ok H p \<Longrightarrow> hash_ok H (position_pass p H)"
  by (simp add: hash_ok_def position_pass_def position_hash_toggle)

end
