(* ===== verification/Move_Checker.thy ===== *)
theory Move_Checker imports Go_Position begin

text \<open>
  The definitions of \<open>src/game/core/moveChecker.cpp\<close>: the flood fill over a group of stones
  (\<open>groupAnalysis\<close>), capture and suicide tests, the simulation of a move, and the legality check with
  superko. The mark matrices are vectors of vectors of booleans, the stack of the flood fill is a
  list with its back at the head, and \<open>None\<close> is a failed assert or an access outside a vector.
\<close>

subsection \<open>Matrices of marks\<close>

type_synonym marks = "bool list list"

definition marks_new :: "nat \<Rightarrow> marks" where
  "marks_new n = replicate n (replicate n False)"

definition marks_at :: "marks \<Rightarrow> coord \<Rightarrow> bool option" where
  "marks_at m c = do { col \<leftarrow> vec_at m (unat (coord_x c)); vec_at col (unat (coord_y c)) }"

definition marks_set :: "marks \<Rightarrow> coord \<Rightarrow> marks option" where
  "marks_set m c = do {
     col \<leftarrow> vec_at m (unat (coord_x c));
     col' \<leftarrow> vec_set col (unat (coord_y c)) True;
     vec_set m (unat (coord_x c)) col'
   }"

definition marks_set_all :: "coord list \<Rightarrow> marks \<Rightarrow> marks option" where
  "marks_set_all cs m = loopM (\<lambda>c m. marks_set m c) cs m"

subsection \<open>Neighbours\<close>

text \<open>\<open>kDx\<close> and \<open>kDy\<close>, entry by entry.\<close>

definition kD :: "(int \<times> int) list" where
  "kD = [(1, 0), (-1, 0), (0, 1), (0, -1)]"

definition inBounds :: "board \<Rightarrow> coord \<Rightarrow> bool" where
  "inBounds b c \<longleftrightarrow> unat (coord_x c) < m_size b \<and> unat (coord_y c) < m_size b"

text \<open>
  The neighbour of a square in one direction, \<open>None\<close> where the loops of the source \<open>continue\<close>. The
  casts to \<open>int\<close> read 32 bits as two's complement. (The signed sum would overflow only at the
  coordinate \<open>INT_MAX\<close>, which no board of the program has.)
\<close>

definition neighbor :: "nat \<Rightarrow> coord \<Rightarrow> int \<times> int \<Rightarrow> coord option" where
  "neighbor boardSize c d =
     (let nx = sint (coord_x c) + fst d;
          ny = sint (coord_y c) + snd d;
          sz = sint (of_nat boardSize :: u32)
      in if nx < 0 \<or> ny < 0 \<or> nx \<ge> sz \<or> ny \<ge> sz then None
         else Some (Coord (of_int nx) (of_int ny)))"

subsection \<open>The flood fill\<close>

text \<open>The lambda \<open>isPlayerStone\<close> of \<open>groupAnalysis\<close>.\<close>

definition isPlayerStone :: "board \<Rightarrow> player \<Rightarrow> coord option \<Rightarrow> coord \<Rightarrow> bool option" where
  "isPlayerStone b pl pretendStone c =
     (if pretendStone = Some c then Some True
      else do { s \<leftarrow> board_get b c; Some (s = toStone pl) })"

record flood =
  fl_stack :: "coord list"
  fl_group :: "coord list"
  fl_visited :: marks
  fl_libertyVisited :: marks
  fl_liberties :: nat

text \<open>The body of the inner loop, for one direction.\<close>

definition flood_neighbor ::
  "board \<Rightarrow> player \<Rightarrow> coord option \<Rightarrow> coord option \<Rightarrow> coord \<Rightarrow> int \<times> int \<Rightarrow> flood \<Rightarrow> flood option" where
  "flood_neighbor b pl pretendStone blockedLiberty c d st =
     (case neighbor (m_size b) c d of
        None \<Rightarrow> Some st
      | Some nb \<Rightarrow> do {
          own \<leftarrow> isPlayerStone b pl pretendStone nb;
          if own
          then do {
            seen \<leftarrow> marks_at (fl_visited st) nb;
            Some (if seen then st
                  else st\<lparr>fl_stack := nb # fl_stack st, fl_group := fl_group st @ [nb]\<rparr>)
          }
          else do {
            s \<leftarrow> board_get b nb;
            if s = Empty \<and> blockedLiberty \<noteq> Some nb
            then do {
              seen \<leftarrow> marks_at (fl_libertyVisited st) nb;
              if seen then Some st
              else do {
                lv \<leftarrow> marks_set (fl_libertyVisited st) nb;
                Some (st\<lparr>fl_libertyVisited := lv, fl_liberties := fl_liberties st + 1\<rparr>)
              }
            }
            else Some st
          }
        })"

lemma flood_neighbor_visited:
  "flood_neighbor b pl ps bl c d st = Some st' \<Longrightarrow> fl_visited st' = fl_visited st"
  by (auto simp: flood_neighbor_def split: option.splits if_splits bind_splits)

text \<open>The number of squares not yet visited goes down with each square expanded; in between the
  stack shrinks.\<close>

definition unvisited :: "marks \<Rightarrow> nat" where
  "unvisited m = length (filter Not (concat m))"

lemma length_filter_update_True:
  "i < length xs \<Longrightarrow> \<not> xs ! i \<Longrightarrow> length (filter Not (xs[i := True])) < length (filter Not xs)"
proof (induction xs arbitrary: i)
  case Nil
  then show ?case by simp
next
  case (Cons x xs)
  then show ?case by (cases i) auto
qed

lemma unvisited_update:
  "i < length m \<Longrightarrow> length (filter Not col) < length (filter Not (m ! i)) \<Longrightarrow>
    unvisited (m[i := col]) < unvisited m"
proof (induction m arbitrary: i)
  case Nil
  then show ?case by simp
next
  case (Cons a m)
  then show ?case by (cases i) (auto simp: unvisited_def)
qed

lemma unvisited_marks_set:
  assumes "marks_at m c = Some False" "marks_set m c = Some m'"
  shows "unvisited m' < unvisited m"
  using assms
  by (auto simp: marks_at_def marks_set_def vec_at_def vec_set_def split: if_splits bind_splits
      intro!: unvisited_update length_filter_update_True)

text \<open>The outer loop: pop, skip a visited square, otherwise mark it and look in the four directions.\<close>

function flood_loop ::
  "board \<Rightarrow> player \<Rightarrow> coord option \<Rightarrow> coord option \<Rightarrow> flood \<Rightarrow> flood option" where
  "flood_loop b pl ps bl st =
     (case fl_stack st of
        [] \<Rightarrow> Some st
      | c # rest \<Rightarrow>
          (case marks_at (fl_visited st) c of
             None \<Rightarrow> None
           | Some True \<Rightarrow> flood_loop b pl ps bl (st\<lparr>fl_stack := rest\<rparr>)
           | Some False \<Rightarrow>
               (case marks_set (fl_visited st) c of
                  None \<Rightarrow> None
                | Some v \<Rightarrow>
                    (case loopM (flood_neighbor b pl ps bl c) kD
                            (st\<lparr>fl_stack := rest, fl_visited := v\<rparr>) of
                       None \<Rightarrow> None
                     | Some st' \<Rightarrow> flood_loop b pl ps bl st'))))"
  by pat_completeness auto
termination
  by (relation "measures [\<lambda>(b, pl, ps, bl, st). unvisited (fl_visited st),
                          \<lambda>(b, pl, ps, bl, st). length (fl_stack st)]")
     (auto simp: unvisited_marks_set
           dest!: loopM_frame [where p = fl_visited] dest: flood_neighbor_visited)

declare flood_loop.simps [simp del]

text \<open>\<open>groupAnalysis\<close> returns the number of liberties and appends the group to the caller's vector.\<close>

definition groupAnalysis ::
  "board \<Rightarrow> coord \<Rightarrow> player \<Rightarrow> coord list \<Rightarrow> coord option \<Rightarrow> coord option \<Rightarrow> (nat \<times> coord list) option" where
  "groupAnalysis b startCoord pl grp pretendStone blockedLiberty = do {
     own \<leftarrow> isPlayerStone b pl pretendStone startCoord;
     if own
     then do {
       st \<leftarrow> flood_loop b pl pretendStone blockedLiberty
         \<lparr>fl_stack = [startCoord], fl_group = grp @ [startCoord],
          fl_visited = marks_new (m_size b), fl_libertyVisited = marks_new (m_size b),
          fl_liberties = 0\<rparr>;
       Some (fl_liberties st, fl_group st)
     }
     else Some (0, grp)
   }"

definition computeGroupLiberties :: "board \<Rightarrow> coord \<Rightarrow> player \<Rightarrow> nat option" where
  "computeGroupLiberties b startCoord pl =
     (if \<not> inBounds b startCoord then Some 0
      else map_option fst (groupAnalysis b startCoord pl [] (Some startCoord) None))"

subsection \<open>Capture and suicide\<close>

text \<open>The loop of \<open>wouldCapture\<close> leaves early; its state is the matrix of visited squares.\<close>

fun wouldCapture_loop :: "board \<Rightarrow> coord \<Rightarrow> player \<Rightarrow> (int \<times> int) list \<Rightarrow> marks \<Rightarrow> bool option" where
  "wouldCapture_loop b c enemy [] visited = Some False"
| "wouldCapture_loop b c enemy (d # ds) visited =
     (case neighbor (m_size b) c d of
        None \<Rightarrow> wouldCapture_loop b c enemy ds visited
      | Some nb \<Rightarrow> do {
          s \<leftarrow> board_get b nb;
          seen \<leftarrow> (if s \<noteq> toStone enemy then Some True else marks_at visited nb);
          if seen then wouldCapture_loop b c enemy ds visited
          else do {
            (liberties, grp) \<leftarrow> groupAnalysis b nb enemy [] None (Some c);
            visited' \<leftarrow> marks_set_all grp visited;
            if liberties = 0 then Some True else wouldCapture_loop b c enemy ds visited'
          }
        })"

definition wouldCapture :: "board \<Rightarrow> coord \<Rightarrow> player \<Rightarrow> bool option" where
  "wouldCapture b c pl = wouldCapture_loop b c (opponent pl) kD (marks_new (m_size b))"

definition isSuicide :: "board \<Rightarrow> player \<Rightarrow> coord \<Rightarrow> bool option" where
  "isSuicide b pl c = do {
     libs \<leftarrow> computeGroupLiberties b c pl;
     if libs > 0 then Some False
     else map_option Not (wouldCapture b c pl)
   }"

definition isValidMove :: "board \<Rightarrow> player \<Rightarrow> coord \<Rightarrow> bool option" where
  "isValidMove b pl c =
     (if \<not> inBounds b c then Some False
      else do {
        s \<leftarrow> board_get b c;
        if s \<noteq> Empty then Some False else map_option Not (isSuicide b pl c)
      })"

subsection \<open>The position after a move\<close>

text \<open>The first loop of \<open>simulatePosition\<close>: the matrices \<open>visited\<close> and \<open>captured\<close>.\<close>

definition capture_neighbor ::
  "board \<Rightarrow> coord \<Rightarrow> player \<Rightarrow> int \<times> int \<Rightarrow> marks \<times> marks \<Rightarrow> (marks \<times> marks) option" where
  "capture_neighbor b move enemy d st =
     (case st of (visited, captured) \<Rightarrow>
        (case neighbor (m_size b) move d of
           None \<Rightarrow> Some st
         | Some nb \<Rightarrow> do {
             s \<leftarrow> board_get b nb;
             seen \<leftarrow> (if s \<noteq> toStone enemy then Some True else marks_at visited nb);
             if seen then Some st
             else do {
               (liberties, grp) \<leftarrow> groupAnalysis b nb enemy [] None (Some move);
               visited' \<leftarrow> marks_set_all grp visited;
               captured' \<leftarrow> (if liberties = 0 then marks_set_all grp captured else Some captured);
               Some (visited', captured')
             }
           }))"

text \<open>One iteration of the copy loop: keep the stones that are not captured.\<close>

definition copy_square :: "board \<Rightarrow> marks \<Rightarrow> coord \<Rightarrow> coord \<Rightarrow> board \<Rightarrow> board option" where
  "copy_square start captured move pos nextBoard = do {
     cap \<leftarrow> marks_at captured pos;
     if cap \<or> pos = move then Some nextBoard
     else do {
       value \<leftarrow> board_get start pos;
       if value \<noteq> Empty then map_option snd (board_place nextBoard pos value) else Some nextBoard
     }
   }"

definition collect_captured :: "marks \<Rightarrow> coord \<Rightarrow> coord list \<Rightarrow> coord list option" where
  "collect_captured captured pos out = do {
     cap \<leftarrow> marks_at captured pos;
     Some (if cap then out @ [pos] else out)
   }"

definition simulatePosition ::
  "game_position \<Rightarrow> coord \<Rightarrow> player \<Rightarrow> hasher \<Rightarrow> (game_position \<times> coord list) option" where
  "simulatePosition start move pl H = do {
     free \<leftarrow> board_isEmpty (gp_board start) move;
     if \<not> free then None
     else do {
       let n = m_size (gp_board start);
       let enemy = opponent pl;
       (visited, captured) \<leftarrow>
         loopM (capture_neighbor (gp_board start) move enemy) kD (marks_new n, marks_new n);
       copied \<leftarrow> loopM (copy_square (gp_board start) captured move) (all_coords n) (board_new n);
       (placed, nextBoard) \<leftarrow> board_place copied move (toStone pl);
       outCaptures \<leftarrow> loopM (collect_captured captured) (all_coords n) [];
       k \<leftarrow> hash_stone H move pl;
       h \<leftarrow> loopM (\<lambda>c h. do { k \<leftarrow> hash_stone H c enemy; Some (h XOR k) }) outCaptures
             (gp_hash start XOR k);
       Some (\<lparr>gp_board = nextBoard, gp_currentPlayer = opponent pl,
              gp_hash = h XOR hash_toggle H, gp_moveId = gp_moveId start + 1\<rparr>, outCaptures)
     }
   }"

text \<open>
  \<open>isNextPositionLegal\<close>: \<open>Some None\<close> is the result \<open>false\<close>, \<open>Some (Some (out, outCaptures))\<close> the
  result \<open>true\<close> with the two out parameters. (On a superko rejection the source has already filled
  \<open>outCaptures\<close>; its only caller drops the vector then.)
\<close>

definition isNextPositionLegal ::
  "game_position \<Rightarrow> player \<Rightarrow> coord \<Rightarrow> hasher \<Rightarrow> u64 set \<Rightarrow> (game_position \<times> coord list) option option" where
  "isNextPositionLegal current pl c H history = do {
     valid \<leftarrow> isValidMove (gp_board current) pl c;
     if \<not> valid then Some None
     else do {
       (simulated, caps) \<leftarrow> simulatePosition current c pl H;
       if gp_hash simulated \<in> history then Some None else Some (Some (simulated, caps))
     }
   }"

end
