(* ===== verification/Group_Analysis.thy ===== *)
theory Group_Analysis imports Move_Checker begin

text \<open>
  What \<open>groupAnalysis\<close> computes. The specification is the usual one of the game: the group of a
  square is everything connected to it through adjacent squares held by the same player, and its
  liberties are the free squares adjacent to the group. The flood fill is shown to return exactly
  these, without a fault, for every board, pretend stone and blocked liberty.
\<close>

subsection \<open>Marks as sets of squares\<close>

definition marks_ok :: "nat \<Rightarrow> marks \<Rightarrow> bool" where
  "marks_ok n m \<longleftrightarrow> length m = n \<and> (\<forall>col \<in> set m. length col = n)"

definition marked :: "nat \<Rightarrow> marks \<Rightarrow> coord set" where
  "marked n m = {c. on_board n c \<and> m ! unat (coord_x c) ! unat (coord_y c)}"

lemma marks_new_ok [simp]: "marks_ok n (marks_new n)"
  by (simp add: marks_ok_def marks_new_def)

lemma marked_new [simp]: "marked n (marks_new n) = {}"
  by (auto simp: marked_def marks_new_def on_board_def)

lemma marked_on_board: "c \<in> marked n m \<Longrightarrow> on_board n c"
  by (simp add: marked_def)

lemma finite_marked [simp]: "finite (marked n m)"
  by (rule finite_subset [OF _ finite_on_board]) (auto simp: marked_def)

lemma marks_at_ok [model_simps]:
  assumes "marks_ok n m" "on_board n c"
  shows "marks_at m c = Some (c \<in> marked n m)"
proof -
  from assms have "unat (coord_x c) < length m" by (simp add: marks_ok_def on_board_def)
  moreover from this assms have "unat (coord_y c) < length (m ! unat (coord_x c))"
    by (simp add: marks_ok_def on_board_def)
  ultimately show ?thesis using assms(2) by (simp add: marks_at_def marked_def)
qed

lemma marks_set_ok:
  assumes "marks_ok n m" "on_board n c"
  obtains m' where "marks_set m c = Some m'" "marks_ok n m'" "marked n m' = insert c (marked n m)"
proof -
  let ?x = "unat (coord_x c)" and ?y = "unat (coord_y c)"
  let ?m = "m[?x := (m ! ?x)[?y := True]]"
  from assms have x: "?x < length m" by (simp add: marks_ok_def on_board_def)
  with assms have y: "?y < length (m ! ?x)" by (simp add: marks_ok_def on_board_def)
  from x y have 1: "marks_set m c = Some ?m" by (simp add: marks_set_def)
  have 2: "marks_ok n ?m"
    using assms(1) x by (auto simp: marks_ok_def dest!: set_update_subset_insert [THEN subsetD])
  have "d \<in> marked n ?m \<longleftrightarrow> d = c \<or> d \<in> marked n m" for d
  proof (cases "coord_x d = coord_x c \<and> coord_y d = coord_y c")
    case True
    then have "d = c" by (simp add: coord.equality)
    with assms x y show ?thesis by (simp add: marked_def)
  next
    case False
    then have "d \<noteq> c" "unat (coord_x d) \<noteq> ?x \<or> unat (coord_y d) \<noteq> ?y"
      by (auto simp: word_unat_eq_iff)
    with x y show ?thesis by (auto simp: marked_def nth_list_update)
  qed
  then have "marked n ?m = insert c (marked n m)" by blast
  with 1 2 that show ?thesis by blast
qed

lemma marks_set_all_ok:
  assumes "marks_ok n m" "\<forall>c \<in> set cs. on_board n c"
  obtains m' where "marks_set_all cs m = Some m'" "marks_ok n m'" "marked n m' = marked n m \<union> set cs"
proof -
  have "\<exists>m'. marks_set_all cs m = Some m' \<and> marks_ok n m' \<and> marked n m' = marked n m \<union> set cs"
    using assms
  proof (induction cs arbitrary: m)
    case Nil
    then show ?case by (simp add: marks_set_all_def)
  next
    case (Cons c cs)
    then obtain m1 where "marks_set m c = Some m1" "marks_ok n m1" "marked n m1 = insert c (marked n m)"
      using marks_set_ok [of n m c] by auto
    with Cons.IH [of m1] Cons.prems show ?case by (auto simp: marks_set_all_def)
  qed
  with that show ?thesis by blast
qed

subsection \<open>Adjacent squares\<close>

definition adjacent :: "nat \<Rightarrow> coord \<Rightarrow> coord \<Rightarrow> bool" where
  "adjacent n c d \<longleftrightarrow> on_board n c \<and> on_board n d \<and>
     \<bar>uint (coord_x c) - uint (coord_x d)\<bar> + \<bar>uint (coord_y c) - uint (coord_y d)\<bar> = 1"

lemma adjacent_sym: "adjacent n c d \<longleftrightarrow> adjacent n d c"
  by (auto simp: adjacent_def abs_minus_commute)

lemma adjacent_on_board: "adjacent n c d \<Longrightarrow> on_board n c \<and> on_board n d"
  by (simp add: adjacent_def)

lemma adjacent_irrefl [simp]: "\<not> adjacent n c c"
  by (simp add: adjacent_def)

lemma on_board_uint: "on_board n c \<longleftrightarrow> uint (coord_x c) < int n \<and> uint (coord_y c) < int n"
  by (simp only: on_board_def uint_nat of_nat_less_iff)

lemma sint_u32_small:
  assumes "uint w < 2 ^ 31"
  shows "sint (w :: u32) = uint w"
proof -
  have "- (2 ^ 31) \<le> uint w" by (rule order_trans [OF _ uint_ge_0]) simp
  then have "signed_take_bit 31 (uint w) = uint w" using assms by (rule signed_take_bit_int_eq_self)
  then show ?thesis by (simp add: sint_uint)
qed

lemma sint_u32_of_nat:
  assumes "n < 2 ^ 31"
  shows "sint (of_nat n :: u32) = int n"
proof -
  have "uint (of_nat n :: u32) = int n" using assms by (simp only: uint_nat) simp
  then show ?thesis using assms by (subst sint_u32_small) simp_all
qed

lemma uint_u32_of_int: "0 \<le> k \<Longrightarrow> k < 2 ^ 32 \<Longrightarrow> uint (of_int k :: u32) = k"
  by (simp add: uint_word_of_int)

lemma neighbor_eq:
  assumes "n < 2 ^ 31" "on_board n c" "d \<in> set kD"
  shows "neighbor n c d = Some e \<longleftrightarrow> on_board n e \<and>
    uint (coord_x e) = uint (coord_x c) + fst d \<and> uint (coord_y e) = uint (coord_y c) + snd d"
proof -
  let ?nx = "uint (coord_x c) + fst d" and ?ny = "uint (coord_y c) + snd d"
  have small: "uint (coord_x c) < 2 ^ 31" "uint (coord_y c) < 2 ^ 31"
    using assms(1,2) by (auto simp: on_board_uint)
  have *: "neighbor n c d =
    (if ?nx < 0 \<or> ?ny < 0 \<or> ?nx \<ge> int n \<or> ?ny \<ge> int n then None
     else Some (Coord (of_int ?nx) (of_int ?ny)))"
    by (simp add: neighbor_def Let_def sint_u32_small [OF small(1)] sint_u32_small [OF small(2)]
        sint_u32_of_nat [OF assms(1)])
  show ?thesis
  proof (cases "?nx < 0 \<or> ?ny < 0 \<or> ?nx \<ge> int n \<or> ?ny \<ge> int n")
    case True
    then have "\<not> (on_board n e \<and> uint (coord_x e) = ?nx \<and> uint (coord_y e) = ?ny)"
      by (auto simp: on_board_uint) (metis not_le uint_ge_0)+
    with True * show ?thesis by simp
  next
    case False
    then have u: "uint (of_int ?nx :: u32) = ?nx" "uint (of_int ?ny :: u32) = ?ny"
      using assms(1) by (intro uint_u32_of_int; simp)+
    have "Coord (of_int ?nx) (of_int ?ny) = e \<longleftrightarrow>
      uint (of_int ?nx :: u32) = uint (coord_x e) \<and> uint (of_int ?ny :: u32) = uint (coord_y e)"
      by (cases e) (auto simp: word_uint_eq_iff)
    then show ?thesis using * False u by (auto simp: on_board_uint)
  qed
qed

text \<open>The four directions reach exactly the adjacent squares.\<close>

lemma neighbor_adjacent:
  assumes "n < 2 ^ 31" "on_board n c"
  shows "(\<exists>d \<in> set kD. neighbor n c d = Some e) \<longleftrightarrow> adjacent n c e"
proof -
  have "(\<exists>d \<in> set kD. neighbor n c d = Some e) \<longleftrightarrow> on_board n e \<and> (\<exists>d \<in> set kD.
    uint (coord_x e) = uint (coord_x c) + fst d \<and> uint (coord_y e) = uint (coord_y c) + snd d)"
    using neighbor_eq [OF assms] by auto
  also have "\<dots> \<longleftrightarrow> adjacent n c e"
    using assms(2) by (auto simp: kD_def adjacent_def)
  finally show ?thesis .
qed

lemma neighbor_adjacentD:
  "n < 2 ^ 31 \<Longrightarrow> on_board n c \<Longrightarrow> d \<in> set kD \<Longrightarrow> neighbor n c d = Some e \<Longrightarrow> adjacent n c e"
  using neighbor_adjacent by blast

lemma board_size_small: "board_ok b \<Longrightarrow> m_size b < 2 ^ 31"
  by (simp add: board_ok_def)

lemma neighbor_on_board:
  "board_ok b \<Longrightarrow> on_board (m_size b) c \<Longrightarrow> d \<in> set kD \<Longrightarrow> neighbor (m_size b) c d = Some e \<Longrightarrow>
    on_board (m_size b) e"
  using neighbor_adjacentD [OF board_size_small] adjacent_on_board by blast

subsection \<open>Groups and liberties\<close>

definition joined :: "nat \<Rightarrow> (coord \<Rightarrow> bool) \<Rightarrow> (coord \<times> coord) set" where
  "joined n own = {(c, d). adjacent n c d \<and> own c \<and> own d}"

definition group_of :: "nat \<Rightarrow> (coord \<Rightarrow> bool) \<Rightarrow> coord \<Rightarrow> coord set" where
  "group_of n own c = (if own c then (joined n own)\<^sup>* `` {c} else {})"

definition liberties_of :: "nat \<Rightarrow> (coord \<Rightarrow> bool) \<Rightarrow> coord set \<Rightarrow> coord set" where
  "liberties_of n free G = {d. free d \<and> (\<exists>c \<in> G. adjacent n c d)}"

definition own_stone :: "board \<Rightarrow> player \<Rightarrow> coord option \<Rightarrow> coord \<Rightarrow> bool" where
  "own_stone b pl pretend c \<longleftrightarrow> pretend = Some c \<or> stone_at b c = toStone pl"

definition free_square :: "board \<Rightarrow> player \<Rightarrow> coord option \<Rightarrow> coord option \<Rightarrow> coord \<Rightarrow> bool" where
  "free_square b pl pretend blocked c \<longleftrightarrow>
     \<not> own_stone b pl pretend c \<and> stone_at b c = Empty \<and> blocked \<noteq> Some c"

lemma group_of_self: "own c \<Longrightarrow> c \<in> group_of n own c"
  by (simp add: group_of_def)

lemma group_of_step:
  "d \<in> group_of n own c \<Longrightarrow> adjacent n d e \<Longrightarrow> own e \<Longrightarrow> e \<in> group_of n own c"
proof -
  assume d: "d \<in> group_of n own c" and "adjacent n d e" "own e"
  from d have c: "own c" "(c, d) \<in> (joined n own)\<^sup>*" by (auto simp: group_of_def split: if_splits)
  then have "own d" by (auto simp: joined_def elim: rtranclE)
  with \<open>adjacent n d e\<close> \<open>own e\<close> have "(d, e) \<in> joined n own" by (simp add: joined_def)
  with c show ?thesis by (auto simp: group_of_def intro: rtrancl_into_rtrancl)
qed

lemma group_of_own: "d \<in> group_of n own c \<Longrightarrow> own d"
  by (auto simp: group_of_def joined_def elim: rtranclE split: if_splits)

lemma group_of_on_board: "d \<in> group_of n own c \<Longrightarrow> on_board n c \<Longrightarrow> on_board n d"
  by (auto simp: group_of_def joined_def dest: adjacent_on_board elim: rtranclE split: if_splits)

lemma joined_sym: "sym (joined n own)"
  by (auto simp: joined_def sym_def adjacent_sym)

lemma group_of_sym: "d \<in> group_of n own c \<Longrightarrow> c \<in> group_of n own d"
  using group_of_own [of d n own c] joined_sym [THEN sym_rtrancl]
  by (auto simp: group_of_def split: if_splits dest: symD)

lemma group_of_trans: "d \<in> group_of n own c \<Longrightarrow> e \<in> group_of n own d \<Longrightarrow> e \<in> group_of n own c"
  by (auto simp: group_of_def split: if_splits intro: rtrancl_trans)

lemma group_of_eq: "d \<in> group_of n own c \<Longrightarrow> group_of n own d = group_of n own c"
  using group_of_sym group_of_trans by blast

text \<open>The least set that contains a square and is closed under joined neighbours is its group.\<close>

lemma group_of_least:
  assumes "c \<in> S" "own c" "\<And>d e. d \<in> S \<Longrightarrow> adjacent n d e \<Longrightarrow> own e \<Longrightarrow> e \<in> S"
  shows "group_of n own c \<subseteq> S"
proof -
  have "(joined n own)\<^sup>* `` {c} \<subseteq> S"
  proof
    fix d
    assume "d \<in> (joined n own)\<^sup>* `` {c}"
    then have "(c, d) \<in> (joined n own)\<^sup>*" by simp
    then show "d \<in> S" by induction (use assms in \<open>auto simp: joined_def\<close>)
  qed
  with assms(2) show ?thesis by (simp add: group_of_def)
qed

subsection \<open>The flood fill computes the group and its liberties\<close>

lemma isPlayerStone_ok [model_simps]:
  "board_ok b \<Longrightarrow> on_board (m_size b) c \<Longrightarrow> isPlayerStone b pl ps c = Some (own_stone b pl ps c)"
  by (auto simp: isPlayerStone_def own_stone_def board_get_ok)

text \<open>
  The invariant, without and with closure. \<open>V\<close> is the set of visited squares, \<open>S\<close> the stack, \<open>L\<close>
  the liberties counted so far. A visited square is closed when each of its neighbours has been
  dealt with: an own stone is visited or on the stack, a free square is counted.
\<close>

definition flood_shape ::
  "nat \<Rightarrow> (coord \<Rightarrow> bool) \<Rightarrow> coord set \<Rightarrow> flood \<Rightarrow> bool" where
  "flood_shape n free G st \<longleftrightarrow>
     marks_ok n (fl_visited st) \<and> marks_ok n (fl_libertyVisited st) \<and>
     set (fl_stack st) \<subseteq> G \<and> marked n (fl_visited st) \<subseteq> G \<and> set (fl_group st) \<subseteq> G \<and>
     marked n (fl_visited st) \<union> set (fl_stack st) \<subseteq> set (fl_group st) \<and>
     fl_liberties st = card (marked n (fl_libertyVisited st)) \<and>
     marked n (fl_libertyVisited st) \<subseteq> liberties_of n free (marked n (fl_visited st))"

definition handled :: "nat \<Rightarrow> (coord \<Rightarrow> bool) \<Rightarrow> (coord \<Rightarrow> bool) \<Rightarrow> flood \<Rightarrow> coord \<Rightarrow> bool" where
  "handled n own free st e \<longleftrightarrow>
     (own e \<longrightarrow> e \<in> marked n (fl_visited st) \<union> set (fl_stack st)) \<and>
     (free e \<longrightarrow> e \<in> marked n (fl_libertyVisited st))"

definition flood_closed :: "nat \<Rightarrow> (coord \<Rightarrow> bool) \<Rightarrow> (coord \<Rightarrow> bool) \<Rightarrow> flood \<Rightarrow> coord set \<Rightarrow> bool" where
  "flood_closed n own free st C \<longleftrightarrow> (\<forall>c \<in> C. \<forall>e. adjacent n c e \<longrightarrow> handled n own free st e)"

text \<open>The steps of the inner loop only grow the stack and the counted liberties.\<close>

definition flood_grows :: "nat \<Rightarrow> flood \<Rightarrow> flood \<Rightarrow> bool" where
  "flood_grows n st st' \<longleftrightarrow> fl_visited st' = fl_visited st \<and> set (fl_stack st) \<subseteq> set (fl_stack st') \<and>
     marked n (fl_libertyVisited st) \<subseteq> marked n (fl_libertyVisited st')"

lemma flood_grows_refl: "flood_grows n st st"
  by (simp add: flood_grows_def)

lemma flood_grows_trans: "flood_grows n st st' \<Longrightarrow> flood_grows n st' st'' \<Longrightarrow> flood_grows n st st''"
  by (auto simp: flood_grows_def)

lemma handled_grows: "handled n own free st e \<Longrightarrow> flood_grows n st st' \<Longrightarrow> handled n own free st' e"
  by (auto simp: handled_def flood_grows_def)

lemma flood_closed_grows:
  "flood_closed n own free st C \<Longrightarrow> flood_grows n st st' \<Longrightarrow> flood_closed n own free st' C"
  by (auto simp: flood_closed_def intro: handled_grows)

lemma flood_neighbor_step:
  fixes b pl ps bl G
  defines "n \<equiv> m_size b" and "own \<equiv> own_stone b pl ps" and "free \<equiv> free_square b pl ps bl"
  assumes b: "board_ok b" and d: "d \<in> set kD"
    and G: "\<forall>x \<in> G. \<forall>e. adjacent n x e \<longrightarrow> own e \<longrightarrow> e \<in> G" "\<forall>x \<in> G. on_board n x"
    and st: "flood_shape n free G st" "c \<in> marked n (fl_visited st)"
  shows "\<exists>st'. flood_neighbor b pl ps bl c d st = Some st' \<and> flood_shape n free G st' \<and>
    flood_grows n st st' \<and> (\<forall>e. neighbor n c d = Some e \<longrightarrow> handled n own free st' e)"
proof (cases "neighbor n c d")
  case None
  then show ?thesis using st by (simp add: flood_neighbor_def n_def flood_grows_refl)
next
  case (Some e)
  have n31: "n < 2 ^ 31" using b by (simp add: board_ok_def n_def)
  have cG: "c \<in> G" using st by (auto simp: flood_shape_def)
  then have "on_board n c" using G(2) by blast
  with Some n31 d have adj: "adjacent n c e" using neighbor_adjacentD by blast
  then have e: "on_board n e" by (simp add: adjacent_on_board)
  have V: "marks_ok n (fl_visited st)" and L: "marks_ok n (fl_libertyVisited st)"
    using st by (auto simp: flood_shape_def)
  show ?thesis
  proof (cases "own e")
    case True
    let ?st' = "if e \<in> marked n (fl_visited st) then st
      else st\<lparr>fl_stack := e # fl_stack st, fl_group := fl_group st @ [e]\<rparr>"
    have "flood_neighbor b pl ps bl c d st = Some ?st'"
      using Some True b e V by (simp add: flood_neighbor_def n_def own_def model_simps)
    moreover have "e \<in> G" using G(1) cG adj True by blast
    then have "flood_shape n free G ?st'" using st(1) by (auto simp: flood_shape_def)
    moreover have "flood_grows n st ?st'" by (auto simp: flood_grows_def)
    moreover have "handled n own free ?st' e"
      using True by (simp add: handled_def free_def free_square_def own_def)
    ultimately show ?thesis using Some by (intro exI [of _ ?st']) simp
  next
    case False
    show ?thesis
    proof (cases "free e \<and> e \<notin> marked n (fl_libertyVisited st)")
      case True
      from marks_set_ok [OF L e] obtain lv where lv: "marks_set (fl_libertyVisited st) e = Some lv"
        "marks_ok n lv" "marked n lv = insert e (marked n (fl_libertyVisited st))" .
      let ?st' = "st\<lparr>fl_libertyVisited := lv, fl_liberties := fl_liberties st + 1\<rparr>"
      have "flood_neighbor b pl ps bl c d st = Some ?st'"
        using Some True False b e L lv(1)
        by (auto simp: flood_neighbor_def n_def own_def free_def free_square_def model_simps)
      moreover have "flood_shape n free G ?st'"
        using st True adj lv(2,3) by (auto simp: flood_shape_def liberties_of_def)
      moreover have "flood_grows n st ?st'" using lv(3) by (auto simp: flood_grows_def)
      moreover have "handled n own free ?st' e" using False lv(3) by (simp add: handled_def)
      ultimately show ?thesis using Some by (intro exI [of _ ?st']) simp
    next
      case nfree: False
      have "flood_neighbor b pl ps bl c d st = Some st"
        using Some nfree False b e L
        by (auto simp: flood_neighbor_def n_def own_def free_def free_square_def model_simps)
      moreover have "handled n own free st e" using False nfree by (simp add: handled_def)
      ultimately show ?thesis using Some st flood_grows_refl by (intro exI [of _ st]) simp
    qed
  qed
qed

lemma flood_expand:
  fixes b pl ps bl G
  defines "n \<equiv> m_size b" and "own \<equiv> own_stone b pl ps" and "free \<equiv> free_square b pl ps bl"
  assumes b: "board_ok b"
    and G: "\<forall>x \<in> G. \<forall>e. adjacent n x e \<longrightarrow> own e \<longrightarrow> e \<in> G" "\<forall>x \<in> G. on_board n x"
    and st: "flood_shape n free G st" "c \<in> marked n (fl_visited st)"
  shows "\<exists>st'. loopM (flood_neighbor b pl ps bl c) kD st = Some st' \<and> flood_shape n free G st' \<and>
    flood_grows n st st' \<and> flood_closed n own free st' {c}"
proof -
  let ?I = "\<lambda>ds st'. flood_shape n free G st' \<and> flood_grows n st st' \<and>
    (\<forall>d \<in> set ds. \<forall>e. neighbor n c d = Some e \<longrightarrow> handled n own free st' e)"
  have "\<exists>st'. loopM (flood_neighbor b pl ps bl c) kD st = Some st' \<and> ?I kD st'"
  proof (rule loopM_rule)
    show "?I [] st" using st flood_grows_refl by simp
  next
    fix ds d s
    assume d: "d \<in> set kD" and I: "?I ds s"
    then have "c \<in> marked n (fl_visited s)" using st(2) by (simp add: flood_grows_def)
    with d I b G flood_neighbor_step [of b d G pl ps bl s c] obtain s' where
      "flood_neighbor b pl ps bl c d s = Some s'" "flood_shape n free G s'" "flood_grows n s s'"
      "\<forall>e. neighbor n c d = Some e \<longrightarrow> handled n own free s' e"
      unfolding n_def own_def free_def by blast
    with I show "\<exists>s'. flood_neighbor b pl ps bl c d s = Some s' \<and> ?I (ds @ [d]) s'"
      by (auto intro: flood_grows_trans handled_grows)
  qed
  then obtain st' where st': "loopM (flood_neighbor b pl ps bl c) kD st = Some st'" "?I kD st'" by blast
  have "n < 2 ^ 31" "on_board n c" using b st G by (auto simp: board_ok_def n_def marked_def)
  then have "flood_closed n own free st' {c}"
    using st'(2) neighbor_adjacent [of n c] by (auto simp: flood_closed_def)
  with st' show ?thesis by blast
qed

text \<open>Popping a square keeps the shape, and keeps the visited squares closed: the popped square is
  visited already or becomes visited.\<close>

lemma flood_pop:
  assumes "flood_shape n free G st" "fl_stack st = c # rest"
    and "marks_ok n v" "marked n v = insert c (marked n (fl_visited st))"
  shows "flood_shape n free G (st\<lparr>fl_stack := rest, fl_visited := v\<rparr>)"
proof -
  have "liberties_of n free (marked n (fl_visited st)) \<subseteq> liberties_of n free (marked n v)"
    using assms(4) by (auto simp: liberties_of_def)
  with assms show ?thesis unfolding flood_shape_def by simp blast
qed

lemma flood_closed_pop:
  assumes "flood_closed n own free st C" "fl_stack st = c # rest"
    and "marked n v = insert c (marked n (fl_visited st))"
  shows "flood_closed n own free (st\<lparr>fl_stack := rest, fl_visited := v\<rparr>) C"
  using assms by (auto simp: flood_closed_def handled_def)

lemma flood_loop_ok:
  fixes b pl ps bl G
  defines "n \<equiv> m_size b" and "own \<equiv> own_stone b pl ps" and "free \<equiv> free_square b pl ps bl"
  assumes b: "board_ok b"
    and G: "\<forall>x \<in> G. \<forall>e. adjacent n x e \<longrightarrow> own e \<longrightarrow> e \<in> G" "\<forall>x \<in> G. on_board n x"
    and st: "flood_shape n free G st" "flood_closed n own free st (marked n (fl_visited st))"
      "start \<in> marked n (fl_visited st) \<union> set (fl_stack st)"
  shows "\<exists>st'. flood_loop b pl ps bl st = Some st' \<and> flood_shape n free G st' \<and>
    flood_closed n own free st' (marked n (fl_visited st')) \<and> fl_stack st' = [] \<and>
    start \<in> marked n (fl_visited st')"
  using b G st unfolding n_def own_def free_def
proof (induction b pl ps bl st rule: flood_loop.induct)
  case (1 b pl ps bl st)
  let ?n = "m_size b" and ?own = "own_stone b pl ps" and ?free = "free_square b pl ps bl"
  note shape = "1.prems"(4) and closed = "1.prems"(5) and start = "1.prems"(6)
  show ?case
  proof (cases "fl_stack st")
    case Nil
    with "1.prems" show ?thesis by (simp add: flood_loop.simps [of _ _ _ _ st])
  next
    case (Cons c rest)
    have c: "on_board ?n c" and V: "marks_ok ?n (fl_visited st)"
      using shape Cons "1.prems"(3) by (auto simp: flood_shape_def)
    show ?thesis
    proof (cases "c \<in> marked ?n (fl_visited st)")
      case True
      have st1: "st\<lparr>fl_stack := rest\<rparr> = st\<lparr>fl_stack := rest, fl_visited := fl_visited st\<rparr>" by simp
      have "marked ?n (fl_visited st) = insert c (marked ?n (fl_visited st))" using True by blast
      note pop = flood_pop [OF shape Cons V this] and cl = flood_closed_pop [OF closed Cons this]
      have at: "marks_at (fl_visited st) c = Some True" using True V c by (simp add: marks_at_ok)
      from "1.IH"(1) [OF Cons at refl "1.prems"(1-3)] show ?thesis
        using pop cl start True at Cons by (auto simp: st1 [symmetric] flood_loop.simps [of _ _ _ _ st])
    next
      case False
      then have at: "marks_at (fl_visited st) c = Some False" using V c by (simp add: marks_at_ok)
      from marks_set_ok [OF V c] obtain v where v: "marks_set (fl_visited st) c = Some v"
        "marks_ok ?n v" "marked ?n v = insert c (marked ?n (fl_visited st))" .
      let ?st1 = "st\<lparr>fl_stack := rest, fl_visited := v\<rparr>"
      have shape1: "flood_shape ?n ?free G ?st1" using shape Cons v(2,3) by (rule flood_pop)
      have closed1: "flood_closed ?n ?own ?free ?st1 (marked ?n (fl_visited st))"
        using closed Cons v(3) by (rule flood_closed_pop)
      have "c \<in> marked ?n (fl_visited ?st1)" using v(3) by simp
      from flood_expand [OF "1.prems"(1-3) shape1 this] obtain st2 where
        st2: "loopM (flood_neighbor b pl ps bl c) kD ?st1 = Some st2" "flood_shape ?n ?free G st2"
          "flood_grows ?n ?st1 st2" "flood_closed ?n ?own ?free st2 {c}" by blast
      have "flood_closed ?n ?own ?free st2 (marked ?n (fl_visited st2))"
        using flood_closed_grows [OF closed1 st2(3)] st2(3,4) v(3)
        by (auto simp: flood_closed_def flood_grows_def)
      moreover have "start \<in> marked ?n (fl_visited st2) \<union> set (fl_stack st2)"
        using start st2(3) v(3) Cons by (auto simp: flood_grows_def)
      ultimately show ?thesis
        using "1.IH"(2) [OF Cons at refl v(1) st2(1) "1.prems"(1-3) st2(2)] Cons at v(1) st2(1)
        by (auto simp: flood_loop.simps [of _ _ _ _ st])
    qed
  qed
qed

theorem groupAnalysis_correct:
  assumes b: "board_ok b" and start: "on_board (m_size b) start"
  shows "\<exists>grp. groupAnalysis b start pl [] ps bl =
      Some (card (liberties_of (m_size b) (free_square b pl ps bl)
                   (group_of (m_size b) (own_stone b pl ps) start)), grp) \<and>
    set grp = group_of (m_size b) (own_stone b pl ps) start"
proof -
  let ?n = "m_size b" and ?own = "own_stone b pl ps" and ?free = "free_square b pl ps bl"
  let ?G = "group_of ?n ?own start"
  show ?thesis
  proof (cases "?own start")
    case False
    then show ?thesis
      using b start by (simp add: groupAnalysis_def model_simps group_of_def liberties_of_def)
  next
    case True
    let ?st = "\<lparr>fl_stack = [start], fl_group = [] @ [start], fl_visited = marks_new ?n,
      fl_libertyVisited = marks_new ?n, fl_liberties = 0\<rparr>"
    have "\<forall>x \<in> ?G. \<forall>e. adjacent ?n x e \<longrightarrow> ?own e \<longrightarrow> e \<in> ?G" by (blast intro: group_of_step)
    moreover have "\<forall>x \<in> ?G. on_board ?n x" using start by (blast intro: group_of_on_board)
    moreover have "flood_shape ?n ?free ?G ?st" using True
      by (simp add: flood_shape_def group_of_self)
    moreover have "flood_closed ?n ?own ?free ?st (marked ?n (fl_visited ?st))"
      by (simp add: flood_closed_def)
    ultimately obtain st' where st': "flood_loop b pl ps bl ?st = Some st'" "flood_shape ?n ?free ?G st'"
      "flood_closed ?n ?own ?free st' (marked ?n (fl_visited st'))" "fl_stack st' = []"
      "start \<in> marked ?n (fl_visited st')"
      using flood_loop_ok [OF b, of ?G pl ps bl ?st start] by auto
    let ?V = "marked ?n (fl_visited st')"
    have "?G \<subseteq> ?V"
      using st'(3,4,5) True by (intro group_of_least) (auto simp: flood_closed_def handled_def)
    with st'(2,4) have V: "?V = ?G" "set (fl_group st') = ?G" by (auto simp: flood_shape_def)
    have "marked ?n (fl_libertyVisited st') = liberties_of ?n ?free ?G"
      using st'(2,3) V(1) by (auto simp: flood_shape_def flood_closed_def handled_def liberties_of_def)
    with st'(2) have "fl_liberties st' = card (liberties_of ?n ?free ?G)" by (simp add: flood_shape_def)
    with True b start st'(1) V(2) show ?thesis by (simp add: groupAnalysis_def model_simps)
  qed
qed

end
