(* ===== verification/Move_Rules.thy ===== *)
theory Move_Rules imports Group_Analysis begin

text \<open>
  What a move does. \<open>captured_by\<close> states the rule of capture: an enemy group adjacent to the move
  whose only liberty is the move itself. The lemmas of this theory show that the loops of
  \<open>moveChecker.cpp\<close> compute it, that a legal move gives exactly the position the rule describes, with
  the hash of that position, and that legal moves never leave a group without liberties.
\<close>

subsection \<open>The rules\<close>

definition enemy_at :: "board \<Rightarrow> player \<Rightarrow> coord \<Rightarrow> bool" where
  "enemy_at b pl c \<longleftrightarrow> stone_at b c = toStone (opponent pl)"

definition dead_after :: "board \<Rightarrow> player \<Rightarrow> coord \<Rightarrow> coord \<Rightarrow> bool" where
  "dead_after b pl move s \<longleftrightarrow>
     liberties_of (m_size b) (\<lambda>d. stone_at b d = Empty \<and> d \<noteq> move)
       (group_of (m_size b) (enemy_at b pl) s) = {}"

definition captured_by :: "board \<Rightarrow> player \<Rightarrow> coord \<Rightarrow> coord set" where
  "captured_by b pl move =
     {c. \<exists>s. adjacent (m_size b) move s \<and> enemy_at b pl s \<and> dead_after b pl move s \<and>
        c \<in> group_of (m_size b) (enemy_at b pl) s}"

definition own_or_move :: "board \<Rightarrow> player \<Rightarrow> coord \<Rightarrow> coord \<Rightarrow> bool" where
  "own_or_move b pl move c \<longleftrightarrow> c = move \<or> stone_at b c = toStone pl"

definition lives :: "board \<Rightarrow> player \<Rightarrow> coord \<Rightarrow> bool" where
  "lives b pl move \<longleftrightarrow>
     liberties_of (m_size b) (\<lambda>d. stone_at b d = Empty \<and> d \<noteq> move)
       (group_of (m_size b) (own_or_move b pl move) move) \<noteq> {}"

definition valid_move :: "board \<Rightarrow> player \<Rightarrow> coord \<Rightarrow> bool" where
  "valid_move b pl move \<longleftrightarrow> on_board (m_size b) move \<and> stone_at b move = Empty \<and>
     (lives b pl move \<or> captured_by b pl move \<noteq> {})"

lemma own_stone_enemy: "own_stone b (opponent pl) None = enemy_at b pl"
  by (auto simp: own_stone_def enemy_at_def)

lemma free_square_enemy:
  "free_square b (opponent pl) None (Some move) = (\<lambda>d. stone_at b d = Empty \<and> d \<noteq> move)"
  by (auto simp: free_square_def own_stone_def)

lemma own_stone_pretend: "own_stone b pl (Some move) = own_or_move b pl move"
  by (auto simp: own_stone_def own_or_move_def)

lemma free_square_pretend:
  "free_square b pl (Some move) None = (\<lambda>d. stone_at b d = Empty \<and> d \<noteq> move)"
  by (auto simp: free_square_def own_stone_def)

lemma finite_liberties_of: "finite (liberties_of n free G)"
  by (rule finite_subset [OF _ finite_on_board [of n]]) (auto simp: liberties_of_def adjacent_def)

text \<open>The call \<open>groupAnalysis(board, s, enemy, group, nullopt, move)\<close> of the capture loops.\<close>

lemma groupAnalysis_enemy:
  assumes "board_ok b" "on_board (m_size b) s"
  obtains libs grp where "groupAnalysis b s (opponent pl) [] None (Some move) = Some (libs, grp)"
    "libs = 0 \<longleftrightarrow> dead_after b pl move s" "set grp = group_of (m_size b) (enemy_at b pl) s"
  using groupAnalysis_correct [OF assms, of "opponent pl" None "Some move"] finite_liberties_of
  by (auto simp: own_stone_enemy free_square_enemy dead_after_def)

lemma computeGroupLiberties_ok [model_simps]:
  assumes "board_ok b" "on_board (m_size b) c"
  shows "computeGroupLiberties b c pl = Some (card (liberties_of (m_size b)
    (\<lambda>d. stone_at b d = Empty \<and> d \<noteq> c) (group_of (m_size b) (own_or_move b pl c) c)))"
  using groupAnalysis_correct [OF assms, of pl "Some c" None] assms(2)
  by (auto simp: computeGroupLiberties_def inBounds_def on_board_def own_stone_pretend free_square_pretend)

subsection \<open>Capturing\<close>

lemma group_of_enemy_same:
  "s' \<in> group_of n (enemy_at b pl) s \<Longrightarrow> n = m_size b \<Longrightarrow> dead_after b pl move s' = dead_after b pl move s"
  by (simp add: dead_after_def group_of_eq)

lemma captured_by_enemy: "c \<in> captured_by b pl move \<Longrightarrow> enemy_at b pl c"
  by (auto simp: captured_by_def dest: group_of_own)

lemma captured_by_on_board: "c \<in> captured_by b pl move \<Longrightarrow> on_board (m_size b) c"
  by (auto simp: captured_by_def dest: adjacent_on_board intro: group_of_on_board)

text \<open>The enemy neighbours of the move in some of the directions, and those of them that die.\<close>

definition enemies_in :: "board \<Rightarrow> player \<Rightarrow> coord \<Rightarrow> (int \<times> int) list \<Rightarrow> coord set" where
  "enemies_in b pl move ds = {s. enemy_at b pl s \<and> (\<exists>d \<in> set ds. neighbor (m_size b) move d = Some s)}"

lemma enemies_in_kD:
  "board_ok b \<Longrightarrow> on_board (m_size b) move \<Longrightarrow>
    enemies_in b pl move kD = {s. enemy_at b pl s \<and> adjacent (m_size b) move s}"
  using neighbor_adjacent [of "m_size b" move] by (auto simp: enemies_in_def board_ok_def)

lemma wouldCapture_loop_ok:
  fixes b pl c
  defines "G \<equiv> group_of (m_size b) (enemy_at b pl)"
  assumes b: "board_ok b" and c: "on_board (m_size b) c" and ds: "set ds \<subseteq> set kD"
    and v: "marks_ok (m_size b) v" "\<forall>x \<in> marked (m_size b) v. \<not> dead_after b pl c x"
  shows "wouldCapture_loop b c (opponent pl) ds v = Some (\<exists>s \<in> enemies_in b pl c ds. dead_after b pl c s)"
  using ds v
proof (induction ds arbitrary: v)
  case Nil
  then show ?case by (simp add: enemies_in_def)
next
  case (Cons d ds)
  show ?case
  proof (cases "neighbor (m_size b) c d")
    case None
    then show ?thesis using Cons by (simp add: enemies_in_def)
  next
    case (Some s)
    then have s: "on_board (m_size b) s"
      using Cons.prems(1) b c by (auto intro: neighbor_on_board)
    have e: "enemies_in b pl c (d # ds) =
      (if enemy_at b pl s then insert s (enemies_in b pl c ds) else enemies_in b pl c ds)"
      using Some by (auto simp: enemies_in_def)
    show ?thesis
    proof (cases "enemy_at b pl s \<and> s \<notin> marked (m_size b) v")
      case False
      then have "enemy_at b pl s \<Longrightarrow> \<not> dead_after b pl c s" using Cons.prems(3) by blast
      with False show ?thesis
        using Cons b s Some e by (auto simp: model_simps enemy_at_def)
    next
      case True
      from groupAnalysis_enemy [OF b s, of pl c] obtain libs grp where
        ga: "groupAnalysis b s (opponent pl) [] None (Some c) = Some (libs, grp)"
          "libs = 0 \<longleftrightarrow> dead_after b pl c s" "set grp = G s" unfolding G_def .
      have "\<forall>x \<in> set grp. on_board (m_size b) x" using ga(3) s by (auto simp: G_def intro: group_of_on_board)
      from marks_set_all_ok [OF Cons.prems(2) this] obtain v' where v':
        "marks_set_all grp v = Some v'" "marks_ok (m_size b) v'"
        "marked (m_size b) v' = marked (m_size b) v \<union> set grp" .
      show ?thesis
      proof (cases "dead_after b pl c s")
        case dead: True
        then show ?thesis using True b s Some e ga v'(1) Cons.prems(2)
          by (simp add: model_simps enemy_at_def)
      next
        case alive: False
        then have "\<forall>x \<in> marked (m_size b) v'. \<not> dead_after b pl c x"
          using v'(3) ga(3) Cons.prems(3) by (auto simp: G_def dest: group_of_enemy_same)
        with Cons.IH [of v'] Cons.prems(1) v'(2) alive show ?thesis
          using True b s Some e ga v'(1) Cons.prems(2) by (simp add: model_simps enemy_at_def)
      qed
    qed
  qed
qed

lemma wouldCapture_ok [model_simps]:
  assumes "board_ok b" "on_board (m_size b) c"
  shows "wouldCapture b c pl = Some (captured_by b pl c \<noteq> {})"
proof -
  have "(\<exists>s \<in> enemies_in b pl c kD. dead_after b pl c s) \<longleftrightarrow> captured_by b pl c \<noteq> {}"
    by (auto simp: enemies_in_kD [OF assms] captured_by_def) (use group_of_self in fast)
  then show ?thesis
    using wouldCapture_loop_ok [OF assms, of kD "marks_new (m_size b)" pl] by (simp add: wouldCapture_def)
qed

lemma isSuicide_ok [model_simps]:
  "board_ok b \<Longrightarrow> on_board (m_size b) c \<Longrightarrow>
    isSuicide b pl c = Some (\<not> (lives b pl c \<or> captured_by b pl c \<noteq> {}))"
  by (simp add: isSuicide_def model_simps lives_def card_gt_0_iff finite_liberties_of)

theorem isValidMove_correct:
  "board_ok b \<Longrightarrow> isValidMove b pl c = Some (valid_move b pl c)"
  by (auto simp: isValidMove_def inBounds_def on_board_def [symmetric] valid_move_def model_simps)

subsection \<open>Simulating a move\<close>

text \<open>The capture loop: the squares visited and captured after some of the directions.\<close>

definition groups_of :: "board \<Rightarrow> player \<Rightarrow> coord set \<Rightarrow> coord set" where
  "groups_of b pl S = \<Union> (group_of (m_size b) (enemy_at b pl) ` S)"

lemma groups_of_enemy_mem:
  "x \<in> groups_of b pl S \<Longrightarrow> group_of (m_size b) (enemy_at b pl) x \<subseteq> groups_of b pl S"
  by (auto simp: groups_of_def dest: group_of_eq)

lemma capture_neighbor_ok:
  fixes b pl move
  defines "E \<equiv> enemies_in b pl move" and "dead \<equiv> dead_after b pl move"
  assumes b: "board_ok b" and mv: "on_board (m_size b) move" and d: "d \<in> set kD"
    and v: "marks_ok (m_size b) v" "marked (m_size b) v = groups_of b pl (E ds)"
    and cp: "marks_ok (m_size b) cp" "marked (m_size b) cp = groups_of b pl {s \<in> E ds. dead s}"
  shows "\<exists>v' cp'. capture_neighbor b move (opponent pl) d (v, cp) = Some (v', cp') \<and>
    marks_ok (m_size b) v' \<and> marked (m_size b) v' = groups_of b pl (E (ds @ [d])) \<and>
    marks_ok (m_size b) cp' \<and> marked (m_size b) cp' = groups_of b pl {s \<in> E (ds @ [d]). dead s}"
proof (cases "neighbor (m_size b) move d")
  case None
  then have "E (ds @ [d]) = E ds" by (auto simp: E_def enemies_in_def)
  with None v cp show ?thesis by (simp add: capture_neighbor_def)
next
  case (Some s)
  then have s: "on_board (m_size b) s" using b mv d by (auto intro: neighbor_on_board)
  have E: "E (ds @ [d]) = (if enemy_at b pl s then insert s (E ds) else E ds)"
    using Some by (auto simp: E_def enemies_in_def)
  show ?thesis
  proof (cases "enemy_at b pl s \<and> s \<notin> marked (m_size b) v")
    case False
    have "groups_of b pl (E (ds @ [d])) = groups_of b pl (E ds)"
      "groups_of b pl {s \<in> E (ds @ [d]). dead s} = groups_of b pl {s \<in> E ds. dead s}"
    proof -
      have "s \<in> groups_of b pl (E ds)" if "enemy_at b pl s" using False that v by blast
      moreover have "s \<in> groups_of b pl {s \<in> E ds. dead s}" if "enemy_at b pl s" "dead s"
      proof -
        from False that v obtain s' where s': "s' \<in> E ds" "s \<in> group_of (m_size b) (enemy_at b pl) s'"
          by (auto simp: groups_of_def)
        with that have "dead s'" by (simp add: dead_def group_of_enemy_same)
        with s' show ?thesis by (auto simp: groups_of_def)
      qed
      ultimately show "groups_of b pl (E (ds @ [d])) = groups_of b pl (E ds)"
        "groups_of b pl {s \<in> E (ds @ [d]). dead s} = groups_of b pl {s \<in> E ds. dead s}"
        using E groups_of_enemy_mem by (auto simp: groups_of_def) blast+
    qed
    with False v cp b s Some show ?thesis
      by (auto simp: capture_neighbor_def model_simps enemy_at_def)
  next
    case True
    from groupAnalysis_enemy [OF b s, of pl move] obtain libs grp where
      ga: "groupAnalysis b s (opponent pl) [] None (Some move) = Some (libs, grp)"
        "libs = 0 \<longleftrightarrow> dead s" "set grp = group_of (m_size b) (enemy_at b pl) s" unfolding dead_def .
    have on: "\<forall>x \<in> set grp. on_board (m_size b) x" using ga(3) s by (auto intro: group_of_on_board)
    from marks_set_all_ok [OF v(1) on] obtain v' where v':
      "marks_set_all grp v = Some v'" "marks_ok (m_size b) v'"
      "marked (m_size b) v' = marked (m_size b) v \<union> set grp" .
    from marks_set_all_ok [OF cp(1) on] obtain cp' where cp':
      "marks_set_all grp cp = Some cp'" "marks_ok (m_size b) cp'"
      "marked (m_size b) cp' = marked (m_size b) cp \<union> set grp" .
    have G: "groups_of b pl (E (ds @ [d])) = marked (m_size b) v'"
      "groups_of b pl {s \<in> E (ds @ [d]). dead s} = (if dead s then marked (m_size b) cp' else marked (m_size b) cp)"
      using True E v(2) v'(3) cp(2) cp'(3) ga(3) by (auto simp: groups_of_def)
    have "capture_neighbor b move (opponent pl) d (v, cp) = Some (v', if dead s then cp' else cp)"
      using True Some b s v(1) ga(1,2) v'(1) cp'(1) by (auto simp: capture_neighbor_def model_simps enemy_at_def)
    with G v'(2) cp'(2) cp(1) show ?thesis by simp
  qed
qed

lemma capture_loop_ok:
  assumes b: "board_ok b" and mv: "on_board (m_size b) move"
  obtains v cp where
    "loopM (capture_neighbor b move (opponent pl)) kD (marks_new (m_size b), marks_new (m_size b)) = Some (v, cp)"
    "marks_ok (m_size b) cp" "marked (m_size b) cp = captured_by b pl move"
proof -
  let ?I = "\<lambda>ds (v, cp). marks_ok (m_size b) v \<and> marked (m_size b) v = groups_of b pl (enemies_in b pl move ds) \<and>
    marks_ok (m_size b) cp \<and>
    marked (m_size b) cp = groups_of b pl {s \<in> enemies_in b pl move ds. dead_after b pl move s}"
  have "\<exists>st. loopM (capture_neighbor b move (opponent pl)) kD (marks_new (m_size b), marks_new (m_size b)) =
    Some st \<and> ?I kD st"
  proof (rule loopM_rule)
    show "?I [] (marks_new (m_size b), marks_new (m_size b))" by (simp add: groups_of_def enemies_in_def)
  next
    fix ds d st
    assume "d \<in> set kD" "?I ds st"
    then show "\<exists>st'. capture_neighbor b move (opponent pl) d st = Some st' \<and> ?I (ds @ [d]) st'"
      using capture_neighbor_ok [OF b mv, of d _ pl ds] by (cases st) fastforce
  qed
  then obtain v cp where vc:
    "loopM (capture_neighbor b move (opponent pl)) kD (marks_new (m_size b), marks_new (m_size b)) = Some (v, cp)"
    "?I kD (v, cp)" by auto
  moreover have "groups_of b pl {s \<in> enemies_in b pl move kD. dead_after b pl move s} = captured_by b pl move"
    by (auto simp: enemies_in_kD [OF assms] groups_of_def captured_by_def)
  ultimately show ?thesis using that by simp
qed

text \<open>The copy loop and the list of captured stones.\<close>

lemma copy_loop_ok:
  fixes b move cap
  defines "keep \<equiv> \<lambda>c. c \<notin> marked (m_size b) cap \<and> c \<noteq> move"
  assumes b: "board_ok b" and cap: "marks_ok (m_size b) cap"
  obtains b' where "loopM (copy_square b cap move) (all_coords (m_size b)) (board_new (m_size b)) = Some b'"
    "board_ok b'" "m_size b' = m_size b"
    "\<And>c. on_board (m_size b) c \<Longrightarrow> stone_at b' c = (if keep c then stone_at b c else Empty)"
proof -
  note [simp] = set_all_coords [OF board_size_small [OF b]]
  let ?I = "\<lambda>cs b'. board_ok b' \<and> m_size b' = m_size b \<and> (\<forall>c. on_board (m_size b) c \<longrightarrow>
    stone_at b' c = (if c \<in> set cs \<and> keep c then stone_at b c else Empty))"
  have "\<exists>b'. loopM (copy_square b cap move) (all_coords (m_size b)) (board_new (m_size b)) = Some b' \<and>
    ?I (all_coords (m_size b)) b'"
  proof (rule loopM_rule)
    show "?I [] (board_new (m_size b))" using board_new_ok [OF board_size_small [OF b]] by simp
  next
    fix cs c b'
    assume "c \<in> set (all_coords (m_size b))" and I: "?I cs b'"
    then have c: "on_board (m_size b) c" by simp
    show "\<exists>b''. copy_square b cap move c b' = Some b'' \<and> ?I (cs @ [c]) b''"
    proof (cases "keep c \<and> stone_at b c \<noteq> Empty \<and> stone_at b' c = Empty")
      case True
      then have "copy_square b cap move c b' = Some (board_put b' c (stone_at b c))"
        using I b c cap by (auto simp: copy_square_def model_simps keep_def)
      then show ?thesis using I True c by (auto simp: stone_at_put)
    next
      case False
      then have "copy_square b cap move c b' = Some b'"
        using I b c cap by (auto simp: copy_square_def model_simps keep_def)
      then show ?thesis using I False c by auto
    qed
  qed
  with that show ?thesis by force
qed

lemma collect_loop_ok:
  assumes "board_ok b" "marks_ok (m_size b) cap"
  shows "loopM (collect_captured cap) (all_coords (m_size b)) [] =
    Some (filter (\<lambda>c. c \<in> marked (m_size b) cap) (all_coords (m_size b)))"
proof -
  have "loopM (collect_captured cap) cs out = Some (out @ filter (\<lambda>c. c \<in> marked (m_size b) cap) cs)"
    if "\<forall>c \<in> set cs. on_board (m_size b) c" for cs out
    using that
    by (induction cs arbitrary: out) (simp_all add: collect_captured_def marks_at_ok [OF assms(2)])
  then show ?thesis using set_all_coords [OF board_size_small [OF assms(1)]] by simp
qed

text \<open>
  The position the rules prescribe: the move is on the board, the captured stones are off it, every
  other square is as before, the opponent is to move and the move number is one higher.
\<close>

definition position_after :: "game_position \<Rightarrow> coord \<Rightarrow> player \<Rightarrow> game_position \<Rightarrow> bool" where
  "position_after p move pl p' \<longleftrightarrow>
     board_ok (gp_board p') \<and> m_size (gp_board p') = m_size (gp_board p) \<and>
     (\<forall>c. on_board (m_size (gp_board p)) c \<longrightarrow> stone_at (gp_board p') c =
        (if c = move then toStone pl
         else if c \<in> captured_by (gp_board p) pl move then Empty
         else stone_at (gp_board p) c)) \<and>
     gp_currentPlayer p' = opponent pl \<and> gp_moveId p' = gp_moveId p + 1"

context zobrist_hash
begin

lemma simulate_hash:
  assumes p: "board_ok (gp_board p)" "m_size (gp_board p) = n" "hash_ok H p" "gp_currentPlayer p = pl"
    and mv: "on_board n move" "stone_at (gp_board p) move = Empty"
    and p': "position_after p move pl p'"
  shows "position_hash H (gp_board p') (opponent pl) =
    ((gp_hash p XOR the (hash_stone H move pl)) XOR
     foldr (\<lambda>c acc. the (hash_stone H c (opponent pl)) XOR acc)
       (filter (\<lambda>c. c \<in> captured_by (gp_board p) pl move) (all_coords n)) 0) XOR hash_toggle H"
proof -
  let ?cap = "\<lambda>c. c \<in> captured_by (gp_board p) pl move"
  let ?mine = "the (hash_stone H move pl)" and ?his = "\<lambda>c. the (hash_stone H c (opponent pl))"
  have n: "n < 2 ^ 31" using p(1,2) by (simp add: board_ok_def)
  have "\<not> ?cap move" using mv(2) captured_by_enemy by (fastforce simp: enemy_at_def)
  then have "stone_hash H c (stone_at (gp_board p) c) XOR stone_hash H c (stone_at (gp_board p') c) =
      (if c = move then ?mine else 0) XOR (if ?cap c then ?his c else 0)" if "on_board n c" for c
    using that mv p' p(2) captured_by_enemy [of c] by (auto simp: position_after_def enemy_at_def)
  then have "xor_list (\<lambda>c. stone_hash H c (stone_at (gp_board p) c) XOR stone_hash H c (stone_at (gp_board p') c))
      (all_coords n) =
    xor_list (\<lambda>c. (if c = move then ?mine else 0) XOR (if ?cap c then ?his c else 0)) (all_coords n)"
    using n by (intro xor_list_cong) (simp_all add: set_all_coords)
  also have "\<dots> = ?mine XOR xor_list ?his (filter ?cap (all_coords n))"
    using n mv(1) by (simp add: xor_list_xor xor_list_filter xor_list_single distinct_all_coords set_all_coords)
  finally show ?thesis
    using position_hash_diff [of "gp_board p'" "gp_board p" H pl] p p'
    by (simp add: position_after_def hash_ok_def xor_list_def ac_simps)
qed

lemma simulatePosition_correct:
  assumes p: "board_ok (gp_board p)" "m_size (gp_board p) = n" "hash_ok H p" "gp_currentPlayer p = pl"
    and mv: "on_board n move" "stone_at (gp_board p) move = Empty"
  obtains p' where
    "simulatePosition p move pl H =
       Some (p', filter (\<lambda>c. c \<in> captured_by (gp_board p) pl move) (all_coords n))"
    "position_after p move pl p'" "hash_ok H p'"
proof -
  let ?b = "gp_board p" and ?caps = "filter (\<lambda>c. c \<in> captured_by (gp_board p) pl move) (all_coords n)"
  from capture_loop_ok [OF p(1)] mv(1) p(2) obtain v cp where cp:
    "loopM (capture_neighbor ?b move (opponent pl)) kD (marks_new n, marks_new n) = Some (v, cp)"
    "marks_ok n cp" "marked n cp = captured_by ?b pl move" by blast
  from copy_loop_ok [OF p(1)] cp(2) p(2) obtain b1 where b1:
    "loopM (copy_square ?b cp move) (all_coords n) (board_new n) = Some b1" "board_ok b1" "m_size b1 = n"
    "\<And>c. on_board n c \<Longrightarrow> stone_at b1 c = (if c \<notin> marked n cp \<and> c \<noteq> move then stone_at ?b c else Empty)"
    by metis
  have b2: "board_place b1 move (toStone pl) = Some (True, board_put b1 move (toStone pl))"
    using b1 mv(1) by (simp add: board_place_ok)
  have caps: "loopM (collect_captured cp) (all_coords n) [] = Some ?caps"
    using collect_loop_ok [OF p(1)] cp(2,3) p(2) by metis
  obtain k where k: "hash_stone H move pl = Some k" using stone_defined [OF mv(1)] by blast
  have "\<forall>c \<in> set ?caps. on_board n c" using captured_by_on_board p(2) by auto
  note h = loopM_hash [OF this, of "opponent pl" "gp_hash p XOR the (hash_stone H move pl)"]
  let ?p' = "\<lparr>gp_board = board_put b1 move (toStone pl), gp_currentPlayer = opponent pl,
    gp_hash = ((gp_hash p XOR the (hash_stone H move pl)) XOR
      foldr (\<lambda>c acc. the (hash_stone H c (opponent pl)) XOR acc) ?caps 0) XOR hash_toggle H,
    gp_moveId = gp_moveId p + 1\<rparr>"
  have sim: "simulatePosition p move pl H = Some (?p', ?caps)"
    unfolding simulatePosition_def
    using p mv cp(1) b1(1) b2 caps k h
    by (simp add: board_isEmpty_ok Let_def)
  have after: "position_after p move pl ?p'"
    using b1 mv p(2) cp(3) by (auto simp: position_after_def stone_at_put)
  moreover have "hash_ok H ?p'" using simulate_hash [OF p mv after] by (simp add: hash_ok_def)
  ultimately show ?thesis using sim that by blast
qed

lemma isNextPositionLegal_correct:
  assumes p: "board_ok (gp_board p)" "m_size (gp_board p) = n" "hash_ok H p" "gp_currentPlayer p = pl"
  shows "isNextPositionLegal p pl move H history = Some None \<and>
      \<not> (valid_move (gp_board p) pl move \<and>
         (\<exists>p'. position_after p move pl p' \<and> hash_ok H p' \<and> gp_hash p' \<notin> history)) \<or>
    (\<exists>p'. isNextPositionLegal p pl move H history =
        Some (Some (p', filter (\<lambda>c. c \<in> captured_by (gp_board p) pl move) (all_coords n))) \<and>
      valid_move (gp_board p) pl move \<and> position_after p move pl p' \<and> hash_ok H p' \<and> gp_hash p' \<notin> history)"
proof (cases "valid_move (gp_board p) pl move")
  case False
  with p(1) show ?thesis by (simp add: isNextPositionLegal_def isValidMove_correct)
next
  case True
  then have mv: "on_board n move" "stone_at (gp_board p) move = Empty"
    using p(2) by (auto simp: valid_move_def)
  from simulatePosition_correct [OF p mv] obtain p' where p':
    "simulatePosition p move pl H = Some (p', filter (\<lambda>c. c \<in> captured_by (gp_board p) pl move) (all_coords n))"
    "position_after p move pl p'" "hash_ok H p'" .
  have "gp_hash q = gp_hash p'" if "position_after p move pl q" "hash_ok H q" for q
  proof -
    have "gp_board q = gp_board p'" using that(1) p'(2)
      by (intro board_eqI) (auto simp: position_after_def)
    with that p' show ?thesis by (simp add: hash_ok_def position_after_def)
  qed
  note same = this
  have res: "isNextPositionLegal p pl move H history = (if gp_hash p' \<in> history then Some None
    else Some (Some (p', filter (\<lambda>c. c \<in> captured_by (gp_board p) pl move) (all_coords n))))"
    using True p(1) p'(1) by (simp add: isNextPositionLegal_def isValidMove_correct)
  show ?thesis
  proof (cases "gp_hash p' \<in> history")
    case seen: True
    then have "\<not> (\<exists>q. position_after p move pl q \<and> hash_ok H q \<and> gp_hash q \<notin> history)"
      using same by metis
    with seen res show ?thesis by simp
  next
    case False
    with True res p'(2,3) show ?thesis by simp
  qed
qed

end

end
