(* ===== verification/Group_Life.thy ===== *)
theory Group_Life imports Move_Rules begin

text \<open>
  Legal play never leaves a stone without a liberty: the invariant \<open>all_alive\<close> (every group on the
  board has a liberty) holds on the empty board and is kept by every valid move. This is what makes
  the suicide rule and the order of captures in \<open>simulatePosition\<close> right.
\<close>

definition has_liberty :: "board \<Rightarrow> coord \<Rightarrow> bool" where
  "has_liberty b c \<longleftrightarrow> liberties_of (m_size b) (\<lambda>d. stone_at b d = Empty)
     (group_of (m_size b) (\<lambda>x. stone_at b x = stone_at b c) c) \<noteq> {}"

definition all_alive :: "board \<Rightarrow> bool" where
  "all_alive b \<longleftrightarrow> (\<forall>c. on_board (m_size b) c \<longrightarrow> stone_at b c \<noteq> Empty \<longrightarrow> has_liberty b c)"

lemma all_alive_new [inv_intros]: "all_alive (board_new n)"
  by (simp add: all_alive_def)

lemma group_of_mono_on:
  assumes "on_board n c" "\<And>x. on_board n x \<Longrightarrow> P x \<Longrightarrow> Q x"
  shows "group_of n P c \<subseteq> group_of n Q c"
proof (cases "P c")
  case True
  with assms have "Q c" by blast
  have "group_of n P c \<subseteq> group_of n Q c \<inter> {x. on_board n x}"
  proof (rule group_of_least)
    show "c \<in> group_of n Q c \<inter> {x. on_board n x}" using assms(1) \<open>Q c\<close> by (simp add: group_of_self)
    show "P c" by fact
    show "e \<in> group_of n Q c \<inter> {x. on_board n x}"
      if "d \<in> group_of n Q c \<inter> {x. on_board n x}" "adjacent n d e" "P e" for d e
      using that assms(2) adjacent_on_board by (blast intro: group_of_step)
  qed
  then show ?thesis by blast
qed (simp add: group_of_def)

lemma has_libertyI:
  assumes "s \<in> group_of (m_size b) P c" "adjacent (m_size b) s d" "stone_at b d = Empty"
    and "on_board (m_size b) c" "\<And>x. on_board (m_size b) x \<Longrightarrow> P x \<Longrightarrow> stone_at b x = stone_at b c"
  shows "has_liberty b c"
  using group_of_mono_on [OF assms(4), of P "\<lambda>x. stone_at b x = stone_at b c"] assms
  by (auto simp: has_liberty_def liberties_of_def)

lemma has_libertyE:
  assumes "has_liberty b c"
  obtains s d where "s \<in> group_of (m_size b) (\<lambda>x. stone_at b x = stone_at b c) c"
    "adjacent (m_size b) s d" "stone_at b d = Empty"
  using assms by (auto simp: has_liberty_def liberties_of_def)

lemma captured_by_group:
  "x \<in> captured_by b pl move \<Longrightarrow> group_of (m_size b) (enemy_at b pl) x \<subseteq> captured_by b pl move"
  using group_of_eq by (fastforce simp: captured_by_def)

text \<open>An enemy group that is not captured keeps a liberty other than the move.\<close>

lemma enemy_keeps_liberty:
  assumes "all_alive b" "on_board (m_size b) c" "enemy_at b pl c" "c \<notin> captured_by b pl move"
  shows "\<not> dead_after b pl move c"
proof
  assume dead: "dead_after b pl move c"
  have same: "(\<lambda>x. stone_at b x = stone_at b c) = enemy_at b pl" using assms(3) by (auto simp: enemy_at_def)
  have "has_liberty b c" using assms by (auto simp: all_alive_def enemy_at_def)
  then obtain s d where s: "s \<in> group_of (m_size b) (enemy_at b pl) c" "adjacent (m_size b) s d"
    "stone_at b d = Empty" unfolding same [symmetric] by (rule has_libertyE)
  with dead have "d = move" by (auto simp: dead_after_def liberties_of_def)
  with s have "adjacent (m_size b) move s" by (simp add: adjacent_sym)
  moreover have "dead_after b pl move s" using dead s(1) by (simp add: group_of_enemy_same)
  moreover have "enemy_at b pl s" "c \<in> group_of (m_size b) (enemy_at b pl) s"
    using s(1) group_of_own group_of_sym by blast+
  ultimately have "c \<in> captured_by b pl move" by (auto simp: captured_by_def)
  with assms(4) show False by blast
qed

text \<open>The new stone itself has a liberty: one it had, or the square of a captured stone.\<close>

lemma move_has_liberty:
  assumes "valid_move b pl move"
  obtains s d where "s \<in> group_of (m_size b) (own_or_move b pl move) move" "adjacent (m_size b) s d"
    "d \<in> captured_by b pl move \<or> stone_at b d = Empty \<and> d \<noteq> move"
proof (cases "lives b pl move")
  case True
  with that show ?thesis by (auto simp: lives_def liberties_of_def)
next
  case False
  with assms obtain c where "c \<in> captured_by b pl move" by (auto simp: valid_move_def)
  then obtain s where s: "adjacent (m_size b) move s" "enemy_at b pl s" "dead_after b pl move s"
    by (auto simp: captured_by_def)
  then have "s \<in> captured_by b pl move" by (auto simp: captured_by_def intro: group_of_self)
  moreover have "move \<in> group_of (m_size b) (own_or_move b pl move) move"
    by (simp add: group_of_self own_or_move_def)
  ultimately show ?thesis using that s(1) by blast
qed

text \<open>What is on the squares after the move.\<close>

lemma after_stone:
  "position_after p move pl p' \<Longrightarrow> on_board (m_size (gp_board p)) c \<Longrightarrow>
    stone_at (gp_board p') c = (if c = move then toStone pl
      else if c \<in> captured_by (gp_board p) pl move then Empty else stone_at (gp_board p) c)"
  by (simp add: position_after_def)

lemma after_free:
  assumes "position_after p move pl p'" "valid_move (gp_board p) pl move"
    and "on_board (m_size (gp_board p)) d"
    and "d \<in> captured_by (gp_board p) pl move \<or> stone_at (gp_board p) d = Empty \<and> d \<noteq> move"
  shows "stone_at (gp_board p') d = Empty"
  using assms captured_by_enemy by (fastforce simp: after_stone valid_move_def enemy_at_def)

lemma after_own:
  assumes "position_after p move pl p'" "on_board (m_size (gp_board p)) x" "own_or_move (gp_board p) pl move x"
  shows "stone_at (gp_board p') x = toStone pl"
  using assms captured_by_enemy by (fastforce simp: after_stone own_or_move_def enemy_at_def)

lemma enemy_group_survives:
  assumes alive: "all_alive (gp_board p)" and valid: "valid_move (gp_board p) pl move"
    and after: "position_after p move pl p'" and c: "on_board (m_size (gp_board p)) c"
    and e: "enemy_at (gp_board p) pl c" "c \<notin> captured_by (gp_board p) pl move"
  shows "has_liberty (gp_board p') c"
proof -
  let ?b = "gp_board p" and ?b' = "gp_board p'"
  let ?n = "m_size ?b" and ?cap = "captured_by ?b pl move"
  let ?P = "\<lambda>x. enemy_at ?b pl x \<and> x \<notin> ?cap" and ?G = "group_of ?n (enemy_at ?b pl) c"
  have n: "m_size ?b' = ?n" using after by (simp add: position_after_def)
  have enemy: "stone_at ?b' x = toStone (opponent pl)" if "on_board ?n x" "?P x" for x
    using that valid by (auto simp: after_stone [OF after] enemy_at_def valid_move_def)
  from enemy_keeps_liberty [OF alive c e] obtain s d where s: "s \<in> ?G" "adjacent ?n s d"
    "stone_at ?b d = Empty" "d \<noteq> move" by (auto simp: dead_after_def liberties_of_def)
  have "?G \<inter> ?cap = {}" using captured_by_group group_of_sym e(2) by blast
  then have "?G \<subseteq> group_of ?n ?P c \<inter> ?G"
    using e by (intro group_of_least) (auto simp: group_of_self intro: group_of_step)
  with s(1) have "s \<in> group_of ?n ?P c" by blast
  moreover have "stone_at ?b' d = Empty"
    using s after_free [OF after valid] adjacent_on_board by blast
  ultimately show ?thesis using s(2) c e n enemy
    by (intro has_libertyI [of s ?b' ?P c d]) auto
qed

lemma own_group_survives:
  assumes alive: "all_alive (gp_board p)" and valid: "valid_move (gp_board p) pl move"
    and after: "position_after p move pl p'" and c: "on_board (m_size (gp_board p)) c"
    and own: "own_or_move (gp_board p) pl move c"
  shows "has_liberty (gp_board p') c"
proof -
  let ?b = "gp_board p" and ?b' = "gp_board p'"
  let ?n = "m_size ?b" and ?cap = "captured_by ?b pl move" and ?P = "own_or_move ?b pl move"
  have "\<exists>s d. s \<in> group_of ?n ?P c \<and> adjacent ?n s d \<and>
    (d \<in> ?cap \<or> stone_at ?b d = Empty \<and> d \<noteq> move)"
  proof (cases "move \<in> group_of ?n ?P c")
    case True
    with valid show ?thesis by (metis group_of_eq move_has_liberty)
  next
    case False
    with own have pl: "c \<noteq> move" "stone_at ?b c = toStone pl" by (auto simp: own_or_move_def group_of_self)
    with alive c have "has_liberty ?b c" by (simp add: all_alive_def)
    then obtain s d where s: "s \<in> group_of ?n (\<lambda>x. stone_at ?b x = stone_at ?b c) c"
      "adjacent ?n s d" "stone_at ?b d = Empty" by (rule has_libertyE)
    with pl group_of_mono_on [OF c, of "\<lambda>x. stone_at ?b x = stone_at ?b c" ?P]
    have "s \<in> group_of ?n ?P c" by (auto simp: own_or_move_def)
    moreover from this s(2) False have "d \<noteq> move"
      using group_of_step [of s ?n ?P c d] by (auto simp: own_or_move_def)
    ultimately show ?thesis using s by blast
  qed
  then obtain s d where s: "s \<in> group_of ?n ?P c" "adjacent ?n s d"
    "d \<in> ?cap \<or> stone_at ?b d = Empty \<and> d \<noteq> move" by blast
  then have "stone_at ?b' d = Empty" using after_free [OF after valid] adjacent_on_board by blast
  with s(1,2) c own after after_own [OF after] show ?thesis
    by (intro has_libertyI [of s ?b' ?P c d]) (auto simp: position_after_def)
qed

lemma valid_move_alive [inv_intros]:
  assumes "all_alive (gp_board p)" "valid_move (gp_board p) pl move" "position_after p move pl p'"
  shows "all_alive (gp_board p')"
  unfolding all_alive_def
proof (intro allI impI)
  fix c
  assume c: "on_board (m_size (gp_board p')) c" and ne: "stone_at (gp_board p') c \<noteq> Empty"
  then have c': "on_board (m_size (gp_board p)) c" using assms(3) by (simp add: position_after_def)
  then have "own_or_move (gp_board p) pl move c \<or>
      enemy_at (gp_board p) pl c \<and> c \<notin> captured_by (gp_board p) pl move"
    using ne stone_cases_player [of "stone_at (gp_board p) c" pl]
    by (auto simp: after_stone [OF assms(3)] own_or_move_def enemy_at_def split: if_splits)
  with assms c' show "has_liberty (gp_board p') c"
    by (blast intro: own_group_survives enemy_group_survives)
qed

end
