(* ===== verification/Safe_Queue.thy ===== *)
theory Safe_Queue imports Prelude begin

text \<open>
  The thread-safe queue with a blocking \<open>Pop\<close>. The repository holds the same template twice,
  \<open>src/game/core/include/core/SafeQueue.hpp\<close> and \<open>src/net/network/SafeQueue.hpp\<close>; both are modelled, and both
  are shown to meet the contract \<open>blocking_queue\<close> that the game loop and the server loop rely on.
  The accesses to the queue are made under the mutex, so each operation is one atomic step on the state; a
  \<open>Pop\<close> that the condition variable makes wait is the value \<open>Blocked\<close>, the state unchanged, and is enabled
  as soon as the state allows it. (The waking up itself is outside the model: \<open>Push\<close> notifies after it has
  unlocked, and \<open>Release\<close> stores its atomic flag without the mutex, so that a waiter between its test and its
  wait can miss that notification.)
\<close>

datatype ('e, 'q) pop_result = Blocked | Thrown | Popped 'e 'q

subsection \<open>The contract\<close>

locale blocking_queue =
  fixes new_queue :: "'q"
    and push :: "'q \<Rightarrow> 'e \<Rightarrow> 'q"
    and pop :: "'q \<Rightarrow> ('e, 'q) pop_result"
    and is_empty :: "'q \<Rightarrow> bool"
    and release :: "'q \<Rightarrow> 'q"
    and elems :: "'q \<Rightarrow> 'e list"
    and blocking :: "'q \<Rightarrow> bool"
  assumes elems_new: "elems new_queue = []" "blocking new_queue"
    and elems_push: "elems (push q e) = elems q @ [e]" "blocking (push q e) = blocking q"
    and elems_release: "elems (release q) = elems q" "\<not> blocking (release q)"
    and empty_iff: "is_empty q \<longleftrightarrow> elems q = []"
    and pop_empty: "elems q = [] \<Longrightarrow> pop q = (if blocking q then Blocked else Thrown)"
    and pop_cons: "elems q = e # es \<Longrightarrow> \<exists>q'. pop q = Popped e q' \<and> elems q' = es \<and> blocking q' = blocking q"
begin

lemma pop_not_empty: "elems q \<noteq> [] \<Longrightarrow> \<exists>q'. pop q = Popped (hd (elems q)) q' \<and> elems q' = tl (elems q)"
  using pop_cons [of q "hd (elems q)" "tl (elems q)"] by (cases "elems q") auto

lemma poppedE:
  assumes "pop q = Popped e q'"
  obtains "elems q = e # elems q'" "blocking q' = blocking q"
proof (cases "elems q")
  case Nil
  with assms pop_empty [of q] show ?thesis by (simp split: if_splits)
next
  case (Cons x xs)
  with assms pop_cons [of q x xs] that show ?thesis by auto
qed

text \<open>No element is invented, lost or reordered: draining a queue returns what it holds, in order.\<close>

fun drain :: "nat \<Rightarrow> 'q \<Rightarrow> 'e list" where
  "drain 0 q = []"
| "drain (Suc k) q = (case pop q of Popped e q' \<Rightarrow> e # drain k q' | _ \<Rightarrow> [])"

lemma drain_take: "drain k q = take k (elems q)"
proof (induction k arbitrary: q)
  case 0
  then show ?case by simp
next
  case (Suc k)
  show ?case
  proof (cases "elems q")
    case Nil
    then show ?thesis using pop_empty [of q] by simp
  next
    case (Cons e es)
    then show ?thesis using pop_cons [of q e es] Suc by auto
  qed
qed

lemma elems_pushes: "elems (foldl push q es) = elems q @ es"
  by (induction es arbitrary: q) (simp_all add: elems_push)

lemma fifo: "drain (length es) (foldl push new_queue es) = es"
  by (simp add: drain_take elems_pushes elems_new)

lemma released_never_blocks: "pop (release q) \<noteq> Blocked"
  using pop_empty [of "release q"] pop_cons [of "release q"] elems_release by (cases "elems q") fastforce+

end

subsection \<open>The queue of the game core\<close>

record 'e safe_queue =
  sq_queue :: "'e list"
  sq_blockThreads :: bool

definition SafeQueue_new :: "'e safe_queue" where
  "SafeQueue_new = \<lparr>sq_queue = [], sq_blockThreads = True\<rparr>"

definition SafeQueue_Push :: "'e safe_queue \<Rightarrow> 'e \<Rightarrow> 'e safe_queue" where
  "SafeQueue_Push q v = q\<lparr>sq_queue := sq_queue q @ [v]\<rparr>"

definition SafeQueue_Pop :: "'e safe_queue \<Rightarrow> ('e, 'e safe_queue) pop_result" where
  "SafeQueue_Pop q =
     (if sq_queue q = [] \<and> sq_blockThreads q then Blocked
      else case sq_queue q of
             [] \<Rightarrow> Thrown
           | e # rest \<Rightarrow> Popped e (q\<lparr>sq_queue := rest\<rparr>))"

definition SafeQueue_Empty :: "'e safe_queue \<Rightarrow> bool" where
  "SafeQueue_Empty q \<longleftrightarrow> sq_queue q = []"

definition SafeQueue_Release :: "'e safe_queue \<Rightarrow> 'e safe_queue" where
  "SafeQueue_Release q = q\<lparr>sq_blockThreads := False\<rparr>"

lemmas SafeQueue_defs = SafeQueue_new_def SafeQueue_Push_def SafeQueue_Pop_def SafeQueue_Empty_def
  SafeQueue_Release_def

interpretation game_queue: blocking_queue SafeQueue_new SafeQueue_Push SafeQueue_Pop SafeQueue_Empty
  SafeQueue_Release sq_queue sq_blockThreads
  by unfold_locales (auto simp: SafeQueue_defs)

subsection \<open>The queue of the network library\<close>

record 'e net_queue =
  nq_queue :: "'e list"
  nq_blockThreads :: bool

definition NetQueue_new :: "'e net_queue" where
  "NetQueue_new = \<lparr>nq_queue = [], nq_blockThreads = True\<rparr>"

definition NetQueue_Push :: "'e net_queue \<Rightarrow> 'e \<Rightarrow> 'e net_queue" where
  "NetQueue_Push q v = q\<lparr>nq_queue := nq_queue q @ [v]\<rparr>"

definition NetQueue_Pop :: "'e net_queue \<Rightarrow> ('e, 'e net_queue) pop_result" where
  "NetQueue_Pop q =
     (if nq_queue q = [] \<and> nq_blockThreads q then Blocked
      else case nq_queue q of
             [] \<Rightarrow> Thrown
           | e # rest \<Rightarrow> Popped e (q\<lparr>nq_queue := rest\<rparr>))"

definition NetQueue_Empty :: "'e net_queue \<Rightarrow> bool" where
  "NetQueue_Empty q \<longleftrightarrow> nq_queue q = []"

definition NetQueue_Release :: "'e net_queue \<Rightarrow> 'e net_queue" where
  "NetQueue_Release q = q\<lparr>nq_blockThreads := False\<rparr>"

lemmas NetQueue_defs = NetQueue_new_def NetQueue_Push_def NetQueue_Pop_def NetQueue_Empty_def
  NetQueue_Release_def

interpretation server_queue: blocking_queue NetQueue_new NetQueue_Push NetQueue_Pop NetQueue_Empty
  NetQueue_Release nq_queue nq_blockThreads
  by unfold_locales (auto simp: NetQueue_defs)

end
