(* ===== verification/Signal_Hub.thy ===== *)
theory Signal_Hub imports Prelude begin

text \<open>
  The contract shared by the two event hubs of the program, \<open>tengen::EventHub\<close> (game core) and
  \<open>tengen::app::EventHub\<close> (application): listeners subscribe with a mask of signals, and a signal is
  delivered, in the order of subscription, to each entry whose mask has one of its bits.
\<close>

type_synonym listener = nat \<comment> \<open>the identity of a listener: its address\<close>

lemma filter_fst_neq:
  "map fst (filter (\<lambda>e. fst e \<noteq> l \<and> P e) xs) = filter (\<lambda>k. k \<noteq> l) (map fst (filter P xs))"
  by (induction xs) auto

locale signal_hub =
  fixes subscribe :: "'h \<Rightarrow> listener \<Rightarrow> u64 \<Rightarrow> 'h"
    and unsubscribe :: "'h \<Rightarrow> listener \<Rightarrow> 'h"
    and notified :: "'h \<Rightarrow> u64 \<Rightarrow> listener list"
  assumes notified_subscribe:
      "notified (subscribe h l m) s = notified h s @ (if m AND s \<noteq> 0 then [l] else [])"
    and notified_unsubscribe:
      "notified (unsubscribe h l) s = filter (\<lambda>k. k \<noteq> l) (notified h s)"
begin

lemma unsubscribed_silent: "l \<notin> set (notified (unsubscribe h l) s)"
  by (simp add: notified_unsubscribe)

lemma unsubscribe_others:
  "k \<noteq> l \<Longrightarrow> count_list (notified (unsubscribe h l) s) k = count_list (notified h s) k"
  by (simp add: notified_unsubscribe count_list_filter_neq)

lemma subscribed_notified: "m AND s \<noteq> 0 \<Longrightarrow> l \<in> set (notified (subscribe h l m) s)"
  by (simp add: notified_subscribe)

lemma masked_not_notified:
  "m AND s = 0 \<Longrightarrow> notified (subscribe h l m) s = notified h s"
  by (simp add: notified_subscribe)

lemma unsubscribe_undoes_subscribe:
  "l \<notin> set (notified h s) \<Longrightarrow> notified (unsubscribe (subscribe h l m) l) s = notified h s"
  by (simp add: notified_unsubscribe notified_subscribe filter_neq_id)

end

end
