(* ===== verification/Core_Event_Hub.thy ===== *)
theory Core_Event_Hub imports Board_Model Signal_Hub begin

text \<open>
  \<open>src/game/core/include/core/gameEvent.hpp\<close> (events, signals, deltas) and
  \<open>src/game/core/eventHub.cpp\<close>. Every operation of the hub holds its mutex. The callbacks run on the
  caller's thread; the hub's two \<open>signal\<close> operations return the calls they make, in order.
\<close>

subsection \<open>Events, signals and deltas\<close>

datatype game_event = PutStoneEvent player coord | PassEvent player | ResignEvent | ShutdownEvent

datatype game_signal = GS_None | GS_BoardChange | GS_PlayerChange | GS_StateChange

definition signal_bits :: "game_signal \<Rightarrow> u64" where
  "signal_bits s = (case s of GS_None \<Rightarrow> 0 | GS_BoardChange \<Rightarrow> push_bit 0 1
     | GS_PlayerChange \<Rightarrow> push_bit 1 1 | GS_StateChange \<Rightarrow> push_bit 2 1)"

datatype game_action = Place | Pass | Resign

record game_delta =
  gd_moveId :: u32
  gd_action :: game_action
  gd_player :: player
  gd_coord :: "coord option"
  gd_captures :: "coord list"
  gd_nextPlayer :: player
  gd_gameActive :: bool

subsection \<open>The hub\<close>

record event_hub =
  eh_signalListeners :: "(listener \<times> u64) list"
  eh_stateListeners :: "listener list"

definition event_hub_new :: event_hub where
  "event_hub_new = \<lparr>eh_signalListeners = [], eh_stateListeners = []\<rparr>"

definition hub_subscribe_signal :: "event_hub \<Rightarrow> listener \<Rightarrow> u64 \<Rightarrow> event_hub" where
  "hub_subscribe_signal h l m = h\<lparr>eh_signalListeners := eh_signalListeners h @ [(l, m)]\<rparr>"

definition hub_unsubscribe_signal :: "event_hub \<Rightarrow> listener \<Rightarrow> event_hub" where
  "hub_unsubscribe_signal h l =
     h\<lparr>eh_signalListeners := filter (\<lambda>e. fst e \<noteq> l) (eh_signalListeners h)\<rparr>"

definition hub_subscribe_state :: "event_hub \<Rightarrow> listener \<Rightarrow> event_hub" where
  "hub_subscribe_state h l = h\<lparr>eh_stateListeners := eh_stateListeners h @ [l]\<rparr>"

definition hub_unsubscribe_state :: "event_hub \<Rightarrow> listener \<Rightarrow> event_hub" where
  "hub_unsubscribe_state h l = h\<lparr>eh_stateListeners := filter (\<lambda>e. e \<noteq> l) (eh_stateListeners h)\<rparr>"

text \<open>The calls to listeners: \<open>onGameEvent(signal)\<close> and \<open>onGameDelta(delta)\<close>.\<close>

datatype game_call = OnGameEvent listener game_signal | OnGameDelta listener game_delta

definition hub_signal :: "event_hub \<Rightarrow> game_signal \<Rightarrow> game_call list" where
  "hub_signal h s =
     map (\<lambda>e. OnGameEvent (fst e) s)
       (filter (\<lambda>e. snd e AND signal_bits s \<noteq> 0) (eh_signalListeners h))"

definition hub_signalDelta :: "event_hub \<Rightarrow> game_delta \<Rightarrow> game_call list" where
  "hub_signalDelta h d = map (\<lambda>l. OnGameDelta l d) (eh_stateListeners h)"

text \<open>The listeners a signal with the given bits reaches; \<open>hub_signal\<close> calls exactly these.\<close>

definition hub_notified :: "event_hub \<Rightarrow> u64 \<Rightarrow> listener list" where
  "hub_notified h s = map fst (filter (\<lambda>e. snd e AND s \<noteq> 0) (eh_signalListeners h))"

lemma hub_signal_notified: "hub_signal h s = map (\<lambda>l. OnGameEvent l s) (hub_notified h (signal_bits s))"
  by (simp add: hub_signal_def hub_notified_def)

interpretation core_hub: signal_hub hub_subscribe_signal hub_unsubscribe_signal hub_notified
  by unfold_locales
     (simp_all add: hub_notified_def hub_subscribe_signal_def hub_unsubscribe_signal_def filter_fst_neq)

subsection \<open>Deltas\<close>

fun deltas_of :: "game_call list \<Rightarrow> listener \<Rightarrow> game_delta list" where
  "deltas_of [] l = []"
| "deltas_of (OnGameDelta k d # cs) l = (if k = l then d # deltas_of cs l else deltas_of cs l)"
| "deltas_of (OnGameEvent k s # cs) l = deltas_of cs l"

lemma deltas_of_append [simp]: "deltas_of (cs @ cs') l = deltas_of cs l @ deltas_of cs' l"
  by (induction cs l rule: deltas_of.induct) auto

lemma deltas_of_signal [simp]: "deltas_of (hub_signal h s) l = []"
proof -
  have "deltas_of (map (\<lambda>k. OnGameEvent k s) ks) l = []" for ks by (induction ks) auto
  then show ?thesis by (simp add: hub_signal_notified)
qed

lemma deltas_of_signalDelta [simp]:
  "deltas_of (hub_signalDelta h d) l = replicate (count_list (eh_stateListeners h) l) d"
proof -
  have "deltas_of (map (\<lambda>k. OnGameDelta k d) ks) l = replicate (count_list ks l) d" for ks
    by (induction ks) auto
  then show ?thesis by (simp add: hub_signalDelta_def)
qed

end
