(* ===== verification/Game.thy ===== *)
theory Game imports Group_Life Safe_Queue Core_Event_Hub begin

text \<open>
  \<open>src/game/core/game.cpp\<close>: the state of a game, its four event handlers and the event loop. A
  handler returns the new state and the calls it makes to listeners, in order; \<open>None\<close> is a failed
  assert or an access outside a vector, as in the operations it calls. Handlers run on the game
  thread; other threads only push events and (un)subscribe.
\<close>

record game =
  g_gameActive :: bool
  g_consecutivePasses :: u32
  g_position :: game_position
  g_eventQueue :: "game_event safe_queue"
  g_eventHub :: event_hub
  g_seenHashes :: "u64 set"
  g_hasher :: "hasher option"

text \<open>The constructor picks the table of the three supported sizes and asserts on any other.\<close>

definition game_new :: "(u64 \<Rightarrow> 'g) \<Rightarrow> ('g \<Rightarrow> u64 \<times> 'g) \<Rightarrow> nat \<Rightarrow> game option" where
  "game_new mk draw boardSize =
     (let p = game_position_new boardSize;
          g = (\<lambda>H. \<lparr>g_gameActive = False, g_consecutivePasses = 0, g_position = p,
                     g_eventQueue = SafeQueue_new, g_eventHub = event_hub_new,
                     g_seenHashes = {gp_hash p}, g_hasher = Some H\<rparr>)
      in if boardSize = 9 then Some (g (ZobristHash mk draw 9))
         else if boardSize = 13 then Some (g (ZobristHash mk draw 13))
         else if boardSize = 19 then Some (g (ZobristHash mk draw 19))
         else None)"

definition game_pushEvent :: "game \<Rightarrow> game_event \<Rightarrow> game" where
  "game_pushEvent g e = g\<lparr>g_eventQueue := SafeQueue_Push (g_eventQueue g) e\<rparr>"

definition game_boardSize :: "game \<Rightarrow> nat" where
  "game_boardSize g = m_size (gp_board (g_position g))"

definition game_isActive :: "game \<Rightarrow> bool" where
  "game_isActive g = g_gameActive g"

definition game_subscribeSignals :: "game \<Rightarrow> listener \<Rightarrow> u64 \<Rightarrow> game" where
  "game_subscribeSignals g l m = g\<lparr>g_eventHub := hub_subscribe_signal (g_eventHub g) l m\<rparr>"

definition game_unsubscribeSignals :: "game \<Rightarrow> listener \<Rightarrow> game" where
  "game_unsubscribeSignals g l = g\<lparr>g_eventHub := hub_unsubscribe_signal (g_eventHub g) l\<rparr>"

definition game_subscribeState :: "game \<Rightarrow> listener \<Rightarrow> game" where
  "game_subscribeState g l = g\<lparr>g_eventHub := hub_subscribe_state (g_eventHub g) l\<rparr>"

definition game_unsubscribeState :: "game \<Rightarrow> listener \<Rightarrow> game" where
  "game_unsubscribeState g l = g\<lparr>g_eventHub := hub_unsubscribe_state (g_eventHub g) l\<rparr>"

subsection \<open>The handlers\<close>

definition handle_put :: "game \<Rightarrow> player \<Rightarrow> coord \<Rightarrow> (game \<times> game_call list) option" where
  "handle_put g pl c =
     (case g_hasher g of
        None \<Rightarrow> None
      | Some H \<Rightarrow>
          if pl \<noteq> gp_currentPlayer (g_position g) then Some (g, [])
          else do {
            legal \<leftarrow> isNextPositionLegal (g_position g) (gp_currentPlayer (g_position g)) c H
              (g_seenHashes g);
            case legal of
              None \<Rightarrow> Some (g, [])
            | Some (next, captures) \<Rightarrow>
                let g' = g\<lparr>g_consecutivePasses := 0, g_position := next,
                           g_seenHashes := insert (gp_hash next) (g_seenHashes g)\<rparr>;
                    delta = \<lparr>gd_moveId = gp_moveId next, gd_action = Place, gd_player = pl,
                             gd_coord = Some c, gd_captures = captures,
                             gd_nextPlayer = gp_currentPlayer next, gd_gameActive = g_gameActive g\<rparr>
                in Some (g', hub_signal (g_eventHub g) GS_BoardChange @
                             hub_signal (g_eventHub g) GS_PlayerChange @
                             hub_signalDelta (g_eventHub g) delta)
          })"

definition handle_pass :: "game \<Rightarrow> player \<Rightarrow> (game \<times> game_call list) option" where
  "handle_pass g pl =
     (case g_hasher g of
        None \<Rightarrow> None
      | Some H \<Rightarrow>
          if pl \<noteq> gp_currentPlayer (g_position g) then Some (g, [])
          else
            let g1 = g\<lparr>g_consecutivePasses := g_consecutivePasses g + 1\<rparr> in
            if g_consecutivePasses g1 = 2 then
              let g2 = g1\<lparr>g_gameActive := False\<rparr>;
                  delta = \<lparr>gd_moveId = gp_moveId (g_position g) + 1, gd_action = Pass, gd_player = pl,
                           gd_coord = None, gd_captures = [], gd_nextPlayer = opponent pl,
                           gd_gameActive = False\<rparr>
              in Some (g2, hub_signalDelta (g_eventHub g) delta @ hub_signal (g_eventHub g) GS_StateChange)
            else
              let next = position_pass (g_position g) H in
              if gp_hash next \<in> g_seenHashes g then Some (g1, [])
              else
                let g2 = g1\<lparr>g_position := next,
                            g_seenHashes := insert (gp_hash next) (g_seenHashes g)\<rparr>;
                    delta = \<lparr>gd_moveId = gp_moveId next, gd_action = Pass, gd_player = pl,
                             gd_coord = None, gd_captures = [], gd_nextPlayer = gp_currentPlayer next,
                             gd_gameActive = g_gameActive g\<rparr>
                in Some (g2, hub_signal (g_eventHub g) GS_PlayerChange @
                             hub_signalDelta (g_eventHub g) delta))"

definition handle_resign :: "game \<Rightarrow> game \<times> game_call list" where
  "handle_resign g =
     (let delta = \<lparr>gd_moveId = gp_moveId (g_position g) + 1, gd_action = Resign,
                   gd_player = gp_currentPlayer (g_position g), gd_coord = None, gd_captures = [],
                   gd_nextPlayer = opponent (gp_currentPlayer (g_position g)), gd_gameActive = False\<rparr>
      in (g\<lparr>g_gameActive := False\<rparr>,
          hub_signal (g_eventHub g) GS_StateChange @ hub_signalDelta (g_eventHub g) delta))"

definition handle_shutdown :: "game \<Rightarrow> game \<times> game_call list" where
  "handle_shutdown g = (g\<lparr>g_gameActive := False\<rparr>, [])"

fun handleEvent :: "game \<Rightarrow> game_event \<Rightarrow> (game \<times> game_call list) option" where
  "handleEvent g (PutStoneEvent pl c) = handle_put g pl c"
| "handleEvent g (PassEvent pl) = handle_pass g pl"
| "handleEvent g ResignEvent = Some (handle_resign g)"
| "handleEvent g ShutdownEvent = Some (handle_shutdown g)"

subsection \<open>The loop\<close>

text \<open>
  \<open>run\<close> sets the game active and then pops and handles events while it is active. On the events
  already in the queue it ends with the game over, waiting in \<open>Pop\<close>, or with \<open>Pop\<close>'s exception (which the
  theorems rule out: the game never releases its queue).
\<close>

datatype run_end = GameOver | WaitsInPop | PopThrows

lemma handleEvent_queue: "handleEvent g e = Some (g', out) \<Longrightarrow> g_eventQueue g' = g_eventQueue g"
  by (cases e) (auto simp: handle_put_def handle_pass_def handle_resign_def handle_shutdown_def Let_def
      split: option.splits if_splits bind_splits)

lemma pop_shorter: "SafeQueue_Pop q = Popped e q' \<Longrightarrow> length (sq_queue q') < length (sq_queue q)"
  by (auto elim: game_queue.poppedE)

function run_loop :: "game \<Rightarrow> (run_end \<times> game \<times> game_call list) option" where
  "run_loop g =
     (if \<not> g_gameActive g then Some (GameOver, g, [])
      else case SafeQueue_Pop (g_eventQueue g) of
             Blocked \<Rightarrow> Some (WaitsInPop, g, [])
           | Thrown \<Rightarrow> Some (PopThrows, g, [])
           | Popped e q \<Rightarrow>
               (case handleEvent (g\<lparr>g_eventQueue := q\<rparr>) e of
                  None \<Rightarrow> None
                | Some (g', out) \<Rightarrow>
                    map_option (\<lambda>(r, g'', out'). (r, g'', out @ out')) (run_loop g')))"
  by pat_completeness auto
termination
  by (relation "measure (\<lambda>g. length (sq_queue (g_eventQueue g)))")
     (auto dest!: handleEvent_queue dest: pop_shorter)

declare run_loop.simps [simp del]

definition game_run :: "game \<Rightarrow> (run_end \<times> game \<times> game_call list) option" where
  "game_run g = run_loop (g\<lparr>g_gameActive := True\<rparr>)"

subsection \<open>The threads\<close>

text \<open>
  One step of the whole: the game thread enters \<open>run\<close> or handles one event, or another thread pushes
  an event or changes the subscriptions. The label is the list of calls to listeners.
\<close>

inductive game_step :: "game \<Rightarrow> game_call list \<Rightarrow> game \<Rightarrow> bool" where
  enter_run: "game_step g [] (g\<lparr>g_gameActive := True\<rparr>)"
| push: "game_step g [] (game_pushEvent g e)"
| subscribe_signals: "game_step g [] (game_subscribeSignals g l m)"
| unsubscribe_signals: "game_step g [] (game_unsubscribeSignals g l)"
| subscribe_state: "game_step g [] (game_subscribeState g l)"
| unsubscribe_state: "game_step g [] (game_unsubscribeState g l)"
| handle: "g_gameActive g \<Longrightarrow> SafeQueue_Pop (g_eventQueue g) = Popped e q \<Longrightarrow>
     handleEvent (g\<lparr>g_eventQueue := q\<rparr>) e = Some (g', out) \<Longrightarrow> game_step g out g'"

text \<open>Reachable games, with the positions they went through, the newest first.\<close>

inductive game_reach ::
  "(u64 \<Rightarrow> 'g) \<Rightarrow> ('g \<Rightarrow> u64 \<times> 'g) \<Rightarrow> nat \<Rightarrow> game \<Rightarrow> game_position list \<Rightarrow> bool"
  for mk draw n where
  init: "game_new mk draw n = Some g \<Longrightarrow> game_reach mk draw n g [g_position g]"
| step: "game_reach mk draw n g hs \<Longrightarrow> game_step g out g' \<Longrightarrow>
     game_reach mk draw n g' (if g_position g' = g_position g then hs else g_position g' # hs)"

end
