(* ===== verification/Game_Invariants.thy ===== *)
theory Game_Invariants imports Game begin

text \<open>
  The invariant of a game and what it gives: handlers never fault, the board stays within the rules,
  the running hash stays the hash of the position, and no position comes up twice.
\<close>

definition game_ok :: "(u64 \<Rightarrow> 'g) \<Rightarrow> ('g \<Rightarrow> u64 \<times> 'g) \<Rightarrow> nat \<Rightarrow> game \<Rightarrow> bool" where
  "game_ok mk draw n g \<longleftrightarrow> n \<in> {9, 13, 19} \<and> g_hasher g = Some (ZobristHash mk draw n) \<and>
     board_ok (gp_board (g_position g)) \<and> m_size (gp_board (g_position g)) = n \<and>
     hash_ok (ZobristHash mk draw n) (g_position g) \<and> all_alive (gp_board (g_position g)) \<and>
     gp_hash (g_position g) \<in> g_seenHashes g"

lemma game_new_ok:
  "game_new mk draw n = Some g \<Longrightarrow> game_ok mk draw n g \<and> g_seenHashes g = {gp_hash (g_position g)} \<and>
    gp_hash (g_position g) = 0 \<and> gp_moveId (g_position g) = 0 \<and> gp_currentPlayer (g_position g) = PBlack \<and>
    \<not> g_gameActive g \<and> g_consecutivePasses g = 0 \<and> gp_board (g_position g) = board_new n"
  by (auto simp: game_new_def game_ok_def Let_def game_position_new_def board_new_ok all_alive_new
      hash_ok_new [unfolded game_position_new_def] split: if_splits)

lemma game_new_sizes: "game_new mk draw n = None \<longleftrightarrow> n \<notin> {9, 13, 19}"
  by (auto simp: game_new_def Let_def)

text \<open>Everything but the position, the hashes and the hasher may change freely.\<close>

lemma game_ok_frame [simp]:
  "game_ok mk draw n (g\<lparr>g_gameActive := b\<rparr>) = game_ok mk draw n g"
  "game_ok mk draw n (g\<lparr>g_consecutivePasses := k\<rparr>) = game_ok mk draw n g"
  "game_ok mk draw n (g\<lparr>g_eventQueue := q\<rparr>) = game_ok mk draw n g"
  "game_ok mk draw n (g\<lparr>g_eventHub := h\<rparr>) = game_ok mk draw n g"
  by (simp_all add: game_ok_def)

subsection \<open>What a handler does\<close>

text \<open>The move is legal: it is the player's turn, the move is valid, and the position is new.\<close>

definition legal_put :: "hasher \<Rightarrow> game \<Rightarrow> player \<Rightarrow> coord \<Rightarrow> game_position \<Rightarrow> bool" where
  "legal_put H g pl c nxt \<longleftrightarrow> pl = gp_currentPlayer (g_position g) \<and>
     valid_move (gp_board (g_position g)) pl c \<and> position_after (g_position g) c pl nxt \<and>
     hash_ok H nxt \<and> gp_hash nxt \<notin> g_seenHashes g"

definition accept_put :: "game \<Rightarrow> game_position \<Rightarrow> game" where
  "accept_put g nxt = g\<lparr>g_consecutivePasses := 0, g_position := nxt,
     g_seenHashes := insert (gp_hash nxt) (g_seenHashes g)\<rparr>"

definition put_delta :: "game \<Rightarrow> player \<Rightarrow> coord \<Rightarrow> game_position \<Rightarrow> game_delta" where
  "put_delta g pl c nxt =
     \<lparr>gd_moveId = gp_moveId nxt, gd_action = Place, gd_player = pl, gd_coord = Some c,
      gd_captures = filter (\<lambda>x. x \<in> captured_by (gp_board (g_position g)) pl c)
        (all_coords (m_size (gp_board (g_position g)))),
      gd_nextPlayer = gp_currentPlayer nxt, gd_gameActive = g_gameActive g\<rparr>"

definition put_calls :: "game \<Rightarrow> player \<Rightarrow> coord \<Rightarrow> game_position \<Rightarrow> game_call list" where
  "put_calls g pl c nxt =
     hub_signal (g_eventHub g) GS_BoardChange @ hub_signal (g_eventHub g) GS_PlayerChange @
     hub_signalDelta (g_eventHub g) (put_delta g pl c nxt)"

lemma handle_put_cases:
  assumes ok: "game_ok mk draw n g"
  shows "handle_put g pl c = Some (g, []) \<and> \<not> (\<exists>nxt. legal_put (ZobristHash mk draw n) g pl c nxt) \<or>
    (\<exists>nxt. legal_put (ZobristHash mk draw n) g pl c nxt \<and>
       handle_put g pl c = Some (accept_put g nxt, put_calls g pl c nxt))"
proof (cases "pl = gp_currentPlayer (g_position g)")
  case False
  with ok show ?thesis by (simp add: handle_put_def game_ok_def legal_put_def)
next
  case True
  let ?p = "g_position g" and ?H = "ZobristHash mk draw n"
  from ok have p: "board_ok (gp_board ?p)" "m_size (gp_board ?p) = n" "hash_ok ?H ?p" "g_hasher g = Some ?H"
    by (auto simp: game_ok_def)
  note legal = zh.isNextPositionLegal_correct [OF p(1-3) True [symmetric], of c "g_seenHashes g"]
  show ?thesis
  proof (cases "isNextPositionLegal ?p pl c ?H (g_seenHashes g) = Some None")
    case none: True
    with legal have "\<not> (\<exists>nxt. legal_put ?H g pl c nxt)" by (auto simp: legal_put_def)
    moreover have "handle_put g pl c = Some (g, [])"
      using True p(4) none by (simp add: handle_put_def)
    ultimately show ?thesis by blast
  next
    case False
    with legal obtain nxt where nx: "isNextPositionLegal ?p pl c ?H (g_seenHashes g) =
        Some (Some (nxt, filter (\<lambda>x. x \<in> captured_by (gp_board ?p) pl c) (all_coords n)))"
      "legal_put ?H g pl c nxt" using True by (auto simp: legal_put_def)
    have "handle_put g pl c = Some (accept_put g nxt, put_calls g pl c nxt)"
      using True p(2,4) nx(1) by (simp add: handle_put_def accept_put_def put_calls_def put_delta_def Let_def)
    with nx(2) show ?thesis by blast
  qed
qed

lemma accept_put_ok [inv_intros]:
  assumes "game_ok mk draw n g" "legal_put (ZobristHash mk draw n) g pl c nxt"
  shows "game_ok mk draw n (accept_put g nxt)"
proof -
  have "all_alive (gp_board nxt)"
    using assms by (auto simp: game_ok_def legal_put_def intro: valid_move_alive)
  with assms show ?thesis by (simp add: game_ok_def legal_put_def accept_put_def position_after_def)
qed

text \<open>The three outcomes of a pass: out of turn, the end of the game, or refused or accepted.\<close>

definition pass_delta :: "game \<Rightarrow> player \<Rightarrow> game_position \<Rightarrow> game_delta" where
  "pass_delta g pl nxt =
     \<lparr>gd_moveId = gp_moveId nxt, gd_action = Pass, gd_player = pl, gd_coord = None, gd_captures = [],
      gd_nextPlayer = gp_currentPlayer nxt, gd_gameActive = g_gameActive g\<rparr>"

definition pass_calls :: "game \<Rightarrow> player \<Rightarrow> game_position \<Rightarrow> game_call list" where
  "pass_calls g pl nxt = hub_signal (g_eventHub g) GS_PlayerChange @
     hub_signalDelta (g_eventHub g) (pass_delta g pl nxt)"

text \<open>The delta that ends a game, by the second pass or by resignation.\<close>

definition end_delta :: "game \<Rightarrow> game_action \<Rightarrow> player \<Rightarrow> game_delta" where
  "end_delta g act pl =
     \<lparr>gd_moveId = gp_moveId (g_position g) + 1, gd_action = act, gd_player = pl, gd_coord = None,
      gd_captures = [], gd_nextPlayer = opponent pl, gd_gameActive = False\<rparr>"

definition end_calls :: "game \<Rightarrow> player \<Rightarrow> game_call list" where
  "end_calls g pl = hub_signalDelta (g_eventHub g) (end_delta g Pass pl) @
     hub_signal (g_eventHub g) GS_StateChange"

lemma handle_pass_eq:
  assumes "g_hasher g = Some H"
  shows "handle_pass g pl =
    (if pl \<noteq> gp_currentPlayer (g_position g) then Some (g, [])
     else if g_consecutivePasses g + 1 = 2
     then Some (g\<lparr>g_consecutivePasses := 2, g_gameActive := False\<rparr>, end_calls g pl)
     else if gp_hash (position_pass (g_position g) H) \<in> g_seenHashes g
     then Some (g\<lparr>g_consecutivePasses := g_consecutivePasses g + 1\<rparr>, [])
     else Some (g\<lparr>g_consecutivePasses := g_consecutivePasses g + 1,
                  g_position := position_pass (g_position g) H,
                  g_seenHashes := insert (gp_hash (position_pass (g_position g) H)) (g_seenHashes g)\<rparr>,
                pass_calls g pl (position_pass (g_position g) H)))"
  using assms
  by (simp add: handle_pass_def Let_def end_calls_def pass_calls_def end_delta_def pass_delta_def)

lemma handle_resign_eq:
  "handle_resign g = (g\<lparr>g_gameActive := False\<rparr>, hub_signal (g_eventHub g) GS_StateChange @
     hub_signalDelta (g_eventHub g) (end_delta g Resign (gp_currentPlayer (g_position g))))"
  by (simp add: handle_resign_def end_delta_def)

lemma handle_pass_ok [inv_intros]:
  assumes ok: "game_ok mk draw n g" and "handle_pass g pl = Some (g', out)"
  shows "game_ok mk draw n g'"
proof -
  let ?H = "ZobristHash mk draw n"
  from ok have H: "g_hasher g = Some ?H" by (simp add: game_ok_def)
  have "game_ok mk draw n (g\<lparr>g_consecutivePasses := k, g_position := position_pass (g_position g) ?H,
    g_seenHashes := insert (gp_hash (position_pass (g_position g) ?H)) (g_seenHashes g)\<rparr>)" for k
    using ok hash_ok_pass by (auto simp: game_ok_def position_pass_def)
  then show ?thesis using assms by (auto simp: handle_pass_eq [OF H] split: if_splits)
qed

subsection \<open>No handler faults, and every step keeps the invariant\<close>

lemma handleEvent_no_fault:
  assumes "game_ok mk draw n g"
  shows "\<exists>g' out. handleEvent g e = Some (g', out) \<and> game_ok mk draw n g'"
proof (cases e)
  case (PutStoneEvent pl c)
  with handle_put_cases [OF assms, of pl c] assms show ?thesis by (auto intro: accept_put_ok)
next
  case (PassEvent pl)
  from assms have "g_hasher g = Some (ZobristHash mk draw n)" by (simp add: game_ok_def)
  then have "\<exists>g' out. handle_pass g pl = Some (g', out)" by (simp add: handle_pass_eq)
  with PassEvent assms show ?thesis by (auto intro: handle_pass_ok)
qed (use assms in \<open>auto simp: handle_resign_def handle_shutdown_def Let_def\<close>)

lemma game_step_ok [inv_intros]:
  assumes "game_step g out g'" "game_ok mk draw n g"
  shows "game_ok mk draw n g'"
  using assms
proof (induction rule: game_step.induct)
  case (handle g e q g' out)
  then have "game_ok mk draw n (g\<lparr>g_eventQueue := q\<rparr>)" by (simp add: game_ok_def)
  from handleEvent_no_fault [OF this, of e] handle show ?case by auto
qed (simp_all add: game_ok_def game_pushEvent_def game_subscribeSignals_def game_unsubscribeSignals_def
    game_subscribeState_def game_unsubscribeState_def)

subsection \<open>How one step moves the position\<close>

text \<open>A step either leaves position and history alone, or moves to a position with a new hash and
  records it.\<close>

definition advances :: "hasher \<Rightarrow> game \<Rightarrow> game \<Rightarrow> bool" where
  "advances H g g' \<longleftrightarrow>
     gp_hash (g_position g') \<notin> g_seenHashes g \<and>
     g_seenHashes g' = insert (gp_hash (g_position g')) (g_seenHashes g) \<and>
     gp_moveId (g_position g') = gp_moveId (g_position g) + 1 \<and>
     gp_currentPlayer (g_position g') = opponent (gp_currentPlayer (g_position g))"

definition stays :: "game \<Rightarrow> game \<Rightarrow> bool" where
  "stays g g' \<longleftrightarrow> g_position g' = g_position g \<and> g_seenHashes g' = g_seenHashes g"

lemma advances_new_position: "advances H g g' \<Longrightarrow> g_position g' \<noteq> g_position g"
  by (auto simp: advances_def)

lemma handleEvent_moves:
  assumes ok: "game_ok mk draw n g" and h: "handleEvent g e = Some (g', out)"
  shows "stays g g' \<or> advances (ZobristHash mk draw n) g g'"
proof (cases e)
  case (PutStoneEvent pl c)
  with handle_put_cases [OF ok, of pl c] h show ?thesis
    by (auto simp: stays_def advances_def legal_put_def accept_put_def position_after_def)
next
  case (PassEvent pl)
  from ok have "g_hasher g = Some (ZobristHash mk draw n)" by (simp add: game_ok_def)
  with PassEvent h show ?thesis
    by (auto simp: stays_def advances_def handle_pass_eq position_pass_def split: if_splits)
qed (use h in \<open>auto simp: stays_def handle_resign_def handle_shutdown_def Let_def\<close>)

lemma game_step_moves:
  assumes "game_step g out g'" "game_ok mk draw n g"
  shows "stays g g' \<or> advances (ZobristHash mk draw n) g g'"
  using assms
proof (induction rule: game_step.induct)
  case (handle g e q g' out)
  then have "game_ok mk draw n (g\<lparr>g_eventQueue := q\<rparr>)" by (simp add: game_ok_def)
  from handleEvent_moves [OF this handle(3)] show ?case by (simp add: stays_def advances_def)
qed (simp_all add: stays_def game_pushEvent_def game_subscribeSignals_def game_unsubscribeSignals_def
    game_subscribeState_def game_unsubscribeState_def)

subsection \<open>Reachable games\<close>

definition history_ok :: "hasher \<Rightarrow> nat \<Rightarrow> game \<Rightarrow> game_position list \<Rightarrow> bool" where
  "history_ok H n g hs \<longleftrightarrow> hs \<noteq> [] \<and> hd hs = g_position g \<and> g_seenHashes g = gp_hash ` set hs \<and>
     distinct (map gp_hash hs) \<and> (\<forall>p \<in> set hs. hash_ok H p) \<and>
     map gp_moveId (rev hs) = map of_nat [0..<length hs] \<and>
     (\<forall>p \<in> set hs. gp_currentPlayer p = PBlack \<longleftrightarrow> even (gp_moveId p))"

lemma game_reach_inv:
  "game_reach mk draw n g hs \<Longrightarrow> game_ok mk draw n g \<and> history_ok (ZobristHash mk draw n) n g hs"
proof (induction rule: game_reach.induct)
  case (init g)
  from game_new_ok [OF init] have ok: "game_ok mk draw n g" by (rule conjunct1)
  then have "hash_ok (ZobristHash mk draw n) (g_position g)" by (simp add: game_ok_def)
  with ok game_new_ok [OF init] show ?case by (simp add: history_ok_def)
next
  case (step g hs out g')
  let ?H = "ZobristHash mk draw n"
  from step have ok: "game_ok mk draw n g" "game_ok mk draw n g'" and h: "history_ok ?H n g hs"
    by (auto intro: game_step_ok)
  from game_step_moves [OF step(2) ok(1)] show ?case
  proof
    assume "stays g g'"
    with h ok show ?thesis by (simp add: history_ok_def stays_def)
  next
    assume adv: "advances ?H g g'"
    from h obtain hs' where hs: "hs = g_position g # hs'" by (cases hs) (auto simp: history_ok_def)
    have "gp_moveId (g_position g) = of_nat (length hs')"
      using h hs by (simp add: history_ok_def)
    then have "gp_moveId (g_position g') = of_nat (length hs)"
      using adv hs by (simp add: advances_def)
    moreover have "gp_currentPlayer (g_position g') = PBlack \<longleftrightarrow> even (gp_moveId (g_position g'))"
      using adv h hs by (cases "gp_currentPlayer (g_position g)") (auto simp: advances_def history_ok_def)
    moreover have "hash_ok ?H (g_position g')" using ok(2) by (simp add: game_ok_def)
    moreover have "gp_hash (g_position g') \<notin> g_seenHashes g"
      "g_seenHashes g' = insert (gp_hash (g_position g')) (g_seenHashes g)"
      using adv by (simp_all add: advances_def)
    ultimately show ?thesis using h ok advances_new_position [OF adv]
      by (simp add: history_ok_def)
  qed
qed

end
