(* ===== verification/Game_Runs.thy ===== *)
theory Game_Runs imports Game_Invariants begin

text \<open>
  What the listeners of a game are told, and what a run of its loop does: every event that changes the
  game is announced by one delta that describes the change, and the loop always returns or waits.
\<close>

subsection \<open>The deltas of an event\<close>

text \<open>\<open>delta_for g d g'\<close>: the delta \<open>d\<close> tells a client what happened from \<open>g\<close> to \<open>g'\<close>.\<close>

definition delta_for :: "game \<Rightarrow> game_delta \<Rightarrow> game \<Rightarrow> bool" where
  "delta_for g d g' \<longleftrightarrow>
     gd_moveId d = gp_moveId (g_position g) + 1 \<and>
     gd_player d = gp_currentPlayer (g_position g) \<and>
     gd_nextPlayer d = opponent (gp_currentPlayer (g_position g)) \<and>
     gd_gameActive d = g_gameActive g' \<and>
     (case gd_action d of
        Place \<Rightarrow> g_gameActive g' = g_gameActive g \<and>
          (\<exists>c. gd_coord d = Some c \<and>
            position_after (g_position g) c (gd_player d) (g_position g') \<and>
            valid_move (gp_board (g_position g)) (gd_player d) c \<and>
            gd_captures d = filter (\<lambda>x. x \<in> captured_by (gp_board (g_position g)) (gd_player d) c)
              (all_coords (m_size (gp_board (g_position g)))))
      | Pass \<Rightarrow> gd_coord d = None \<and> gd_captures d = [] \<and>
          gp_board (g_position g') = gp_board (g_position g) \<and>
          (g_position g' = g_position g \<and> \<not> g_gameActive g' \<or>
           gp_currentPlayer (g_position g') = gd_nextPlayer d \<and>
           gp_moveId (g_position g') = gd_moveId d \<and> g_gameActive g' = g_gameActive g)
      | Resign \<Rightarrow> gd_coord d = None \<and> gd_captures d = [] \<and> g_position g' = g_position g \<and>
          \<not> g_gameActive g')"

lemmas handler_deltas = put_delta_def pass_delta_def end_delta_def

lemma handleEvent_deltas:
  assumes ok: "game_ok mk draw n g" and h: "handleEvent g e = Some (g', out)"
  shows "(\<forall>l. deltas_of out l = []) \<and> g_position g' = g_position g \<or>
    (\<exists>d. delta_for g d g' \<and>
      (\<forall>l. deltas_of out l = replicate (count_list (eh_stateListeners (g_eventHub g)) l) d))"
proof (cases e)
  case (PutStoneEvent pl c)
  show ?thesis
  proof (cases "handle_put g pl c = Some (g, [])")
    case False
    with handle_put_cases [OF ok, of pl c] obtain nxt
      where l: "legal_put (ZobristHash mk draw n) g pl c nxt"
        and g': "g' = accept_put g nxt" "out = put_calls g pl c nxt" using h PutStoneEvent by auto
    from l have "delta_for g (put_delta g pl c nxt) g'"
      by (simp add: delta_for_def legal_put_def accept_put_def put_delta_def g'(1))
         (auto simp: position_after_def)
    then show ?thesis using g'(2) by (intro disjI2 exI [of _ "put_delta g pl c nxt"]) (simp add: put_calls_def)
  qed (use h PutStoneEvent in auto)
next
  case (PassEvent pl)
  from ok have H: "g_hasher g = Some (ZobristHash mk draw n)" by (simp add: game_ok_def)
  let ?p = "position_pass (g_position g) (ZobristHash mk draw n)"
  from PassEvent h consider "g' = g" "out = []"
    | "pl = gp_currentPlayer (g_position g)" "g_position g' = g_position g" "\<not> g_gameActive g'" "out = end_calls g pl"
    | "g_position g' = g_position g" "out = []"
    | "pl = gp_currentPlayer (g_position g)" "g_position g' = ?p" "g_gameActive g' = g_gameActive g"
      "out = pass_calls g pl ?p"
    by (auto simp: handle_pass_eq [OF H] split: if_splits)
  then show ?thesis
  proof cases
    case 2
    then have "delta_for g (end_delta g Pass pl) g'" by (simp add: delta_for_def end_delta_def)
    with 2(4) show ?thesis by (intro disjI2 exI [of _ "end_delta g Pass pl"]) (simp add: end_calls_def)
  next
    case 4
    then have "delta_for g (pass_delta g pl ?p) g'"
      by (simp add: delta_for_def pass_delta_def position_pass_def)
    with 4(4) show ?thesis by (intro disjI2 exI [of _ "pass_delta g pl ?p"]) (simp add: pass_calls_def)
  qed auto
next
  case ResignEvent
  let ?d = "end_delta g Resign (gp_currentPlayer (g_position g))"
  from ResignEvent h have g': "g' = g\<lparr>g_gameActive := False\<rparr>"
    "out = hub_signal (g_eventHub g) GS_StateChange @ hub_signalDelta (g_eventHub g) ?d"
    by (auto simp: handle_resign_eq)
  then have "delta_for g ?d g'" by (simp add: delta_for_def end_delta_def)
  with g'(2) show ?thesis by (intro disjI2 exI [of _ ?d]) simp
next
  case ShutdownEvent
  with h show ?thesis by (auto simp: handle_shutdown_def)
qed

subsection \<open>Runs of the loop\<close>

lemma run_loop_step:
  assumes "g_gameActive g" "SafeQueue_Pop (g_eventQueue g) = Popped e q"
    and "handleEvent (g\<lparr>g_eventQueue := q\<rparr>) e = Some (g1, out1)"
  shows "run_loop g = map_option (\<lambda>(r, g', out). (r, g', out1 @ out)) (run_loop g1)"
  using assms by (subst run_loop.simps) simp

text \<open>Where the loop stops: the game is over, or the queue is empty.\<close>

lemma run_loop_stop:
  assumes "\<not> (\<exists>e q. g_gameActive g \<and> SafeQueue_Pop (g_eventQueue g) = Popped e q)"
  obtains r where "run_loop g = Some (r, g, [])" "r = GameOver \<longleftrightarrow> \<not> g_gameActive g"
    "r = WaitsInPop \<longleftrightarrow> g_gameActive g \<and> sq_blockThreads (g_eventQueue g)"
    "g_gameActive g \<Longrightarrow> sq_queue (g_eventQueue g) = []"
proof (cases "g_gameActive g")
  case False
  then have "run_loop g = Some (GameOver, g, [])" by (subst run_loop.simps) simp
  with False that show ?thesis by blast
next
  case True
  with assms have e: "sq_queue (g_eventQueue g) = []"
    by (cases "sq_queue (g_eventQueue g)") (auto simp: SafeQueue_Pop_def)
  then have "run_loop g = Some (if sq_blockThreads (g_eventQueue g) then WaitsInPop else PopThrows, g, [])"
    using True by (subst run_loop.simps) (simp add: SafeQueue_Pop_def)
  with True e that show ?thesis by (metis run_end.distinct(1,3,5))
qed

lemma game_reach_extends:
  assumes "game_reach mk draw n g hs" "game_step g out g'"
  shows "\<exists>hs'. game_reach mk draw n g' (hs' @ hs)"
proof -
  have "game_reach mk draw n g' ((if g_position g' = g_position g then [] else [g_position g']) @ hs)"
    using game_reach.step [OF assms] by (auto split: if_splits)
  then show ?thesis by blast
qed

lemma run_loop_reach:
  "run_loop g = Some (r, g', out) \<Longrightarrow> game_reach mk draw n g hs \<Longrightarrow> \<exists>hs'. game_reach mk draw n g' (hs' @ hs)"
proof (induction g arbitrary: r g' out hs rule: run_loop.induct)
  case (1 g)
  show ?case
  proof (cases "\<exists>e q. g_gameActive g \<and> SafeQueue_Pop (g_eventQueue g) = Popped e q")
    case True
    then obtain e q where act: "g_gameActive g" and pop: "SafeQueue_Pop (g_eventQueue g) = Popped e q"
      by blast
    show ?thesis
    proof (cases "handleEvent (g\<lparr>g_eventQueue := q\<rparr>) e")
      case None
      with "1.prems"(1) act pop show ?thesis by (subst (asm) run_loop.simps) simp
    next
      case (Some r1)
      obtain g1 out1 where h: "handleEvent (g\<lparr>g_eventQueue := q\<rparr>) e = Some (g1, out1)"
        using Some by (cases r1) simp
      from run_loop_step [OF act pop h] "1.prems"(1) obtain out2
        where r: "run_loop g1 = Some (r, g', out2)" by (cases "run_loop g1") auto
      obtain hs1 where hs1: "game_reach mk draw n g1 (hs1 @ hs)"
        using game_reach_extends [OF "1.prems"(2) game_step.handle [OF act pop h]] by blast
      from "1.IH" [OF _ pop h refl r hs1] act obtain hs2 where "game_reach mk draw n g' (hs2 @ hs1 @ hs)"
        by blast
      then have "game_reach mk draw n g' ((hs2 @ hs1) @ hs)" by simp
      then show ?thesis by blast
    qed
  next
    case False
    then show ?thesis
    proof (rule run_loop_stop)
      fix r' assume "run_loop g = Some (r', g, [])"
      with "1.prems" have "game_reach mk draw n g' ([] @ hs)" by simp
      then show ?thesis by blast
    qed
  qed
qed

lemma game_run_reach:
  assumes "game_run g = Some (r, g', out)" "game_reach mk draw n g hs"
  shows "\<exists>hs'. game_reach mk draw n g' (hs' @ hs)"
  using run_loop_reach [OF assms(1) [unfolded game_run_def]
      game_reach.step [OF assms(2) game_step.enter_run]] by simp

text \<open>The queue is never released: nothing a game does, or that is done to it, takes back the flag that makes
  \<open>Pop\<close> wait.\<close>

lemma game_step_blocks: "game_step g out g' \<Longrightarrow> sq_blockThreads (g_eventQueue g) \<Longrightarrow> sq_blockThreads (g_eventQueue g')"
  by (induction rule: game_step.induct)
     (auto simp: game_pushEvent_def game_queue.elems_push game_subscribeSignals_def
       game_unsubscribeSignals_def game_subscribeState_def game_unsubscribeState_def
       dest!: handleEvent_queue elim: game_queue.poppedE)

lemma game_reach_blocks: "game_reach mk draw n g hs \<Longrightarrow> sq_blockThreads (g_eventQueue g)"
proof (induction rule: game_reach.induct)
  case (init g)
  then show ?case by (auto simp: game_new_def Let_def game_queue.elems_new split: if_splits)
qed (rule game_step_blocks)

lemma run_loop_ends:
  "game_ok mk draw n g \<Longrightarrow> sq_blockThreads (g_eventQueue g) \<Longrightarrow>
   \<exists>r g' out. run_loop g = Some (r, g', out) \<and> r = (if g_gameActive g' then WaitsInPop else GameOver) \<and>
     (g_gameActive g' \<longrightarrow> sq_queue (g_eventQueue g') = [] \<and> sq_blockThreads (g_eventQueue g')) \<and>
     (ShutdownEvent \<in> set (sq_queue (g_eventQueue g)) \<longrightarrow> r = GameOver)"
proof (induction g rule: run_loop.induct)
  case (1 g)
  show ?case
  proof (cases "\<exists>e q. g_gameActive g \<and> SafeQueue_Pop (g_eventQueue g) = Popped e q")
    case True
    then obtain e q where act: "g_gameActive g" and pop: "SafeQueue_Pop (g_eventQueue g) = Popped e q"
      by blast
    from pop have q: "sq_queue (g_eventQueue g) = e # sq_queue q"
      "sq_blockThreads q = sq_blockThreads (g_eventQueue g)" by (auto elim: game_queue.poppedE)
    from "1.prems" have "game_ok mk draw n (g\<lparr>g_eventQueue := q\<rparr>)" by simp
    from handleEvent_no_fault [OF this, of e] obtain g1 o1
      where h: "handleEvent (g\<lparr>g_eventQueue := q\<rparr>) e = Some (g1, o1)" "game_ok mk draw n g1" by blast
    from handleEvent_queue [OF h(1)] have q1: "g_eventQueue g1 = q" by simp
    from "1.IH" [OF _ pop h(1) refl h(2)] act q1 q(2) "1.prems"(2) obtain r g' o2
      where r: "run_loop g1 = Some (r, g', o2)" "r = (if g_gameActive g' then WaitsInPop else GameOver)"
      "g_gameActive g' \<longrightarrow> sq_queue (g_eventQueue g') = [] \<and> sq_blockThreads (g_eventQueue g')"
      "ShutdownEvent \<in> set (sq_queue q) \<longrightarrow> r = GameOver" by metis
    have run: "run_loop g = Some (r, g', o1 @ o2)"
      using run_loop_step [OF act pop h(1)] r(1) by simp
    have "r = GameOver" if "ShutdownEvent \<in> set (sq_queue (g_eventQueue g))"
    proof (cases "e = ShutdownEvent")
      case True
      then have "\<not> g_gameActive g1" using h(1) by (auto simp: handle_shutdown_def)
      then obtain r' where "run_loop g1 = Some (r', g1, [])" "r' = GameOver" using run_loop_stop [of g1] by metis
      with r(1) show ?thesis by simp
    next
      case False
      then show ?thesis using that r(4) q(1) by simp
    qed
    with run r show ?thesis by blast
  next
    case False
    then show ?thesis
    proof (rule run_loop_stop)
      fix r assume "run_loop g = Some (r, g, [])" "r = GameOver \<longleftrightarrow> \<not> g_gameActive g"
        "r = WaitsInPop \<longleftrightarrow> g_gameActive g \<and> sq_blockThreads (g_eventQueue g)"
        "g_gameActive g \<Longrightarrow> sq_queue (g_eventQueue g) = []"
      with "1.prems" show ?thesis by (cases "g_gameActive g") auto
    qed
  qed
qed

end
