(* ===== verification/Sample_Games.thy ===== *)
theory Sample_Games imports Game_Runs begin

text \<open>
  A concrete game for the witnesses: the 9 by 9 table drawn from a generator that counts upwards, and
  the events of a short game with a capture, a suicide that is refused, and the two passes that end
  it. Values are computed by the simplifier from the code equations.
\<close>

subsection \<open>The table\<close>

definition ex_mk :: "u64 \<Rightarrow> nat" where
  "ex_mk seed = 0"

definition ex_draw :: "nat \<Rightarrow> u64 \<times> nat" where
  "ex_draw k = (of_nat (Suc k), Suc k)"

definition ex_hasher :: hasher where
  "ex_hasher =
     \<lparr>hash_stone = (\<lambda>c pl. if on_board 9 c
        then Some (of_nat (unat (coord_x c) * 18 + unat (coord_y c) * 2 + player_value pl)) else None),
      hash_toggle = 163\<rparr>"

lemma repeatM_counting:
  assumes "\<And>k. f k = (F k, k + m)"
  shows "repeatM f j k = (map (\<lambda>i. F (k + i * m)) [0..<j], k + j * m)"
proof (induction j arbitrary: k)
  case 0
  then show ?case by simp
next
  case (Suc j)
  have "map (\<lambda>i. F (k + i * m)) [0..<Suc j] = F k # map (\<lambda>i. F (k + m + i * m)) [0..<j]"
    by (simp add: upt_conv_Cons map_Suc_upt [symmetric] add.assoc del: upt_Suc)
  with Suc assms show ?case by (simp add: ac_simps del: upt_Suc)
qed

lemma ex_table: "initRandomTable ex_mk ex_draw 9 =
  \<lparr>m_table = map (\<lambda>a. map (\<lambda>b. map (\<lambda>i. of_nat (Suc (a * 18 + b * 2 + i))) [0..<2]) [0..<9]) [0..<9],
   m_playerToggle = 163\<rparr>"
proof -
  have 1: "repeatM ex_draw 2 k = (map (\<lambda>i. of_nat (Suc (k + i))) [0..<2], k + 2)" for k
    by (subst repeatM_counting [where m = 1 and F = "\<lambda>k. of_nat (Suc k)"]) (simp_all add: ex_draw_def)
  have 2: "repeatM (repeatM ex_draw 2) 9 k =
    (map (\<lambda>b. map (\<lambda>i. of_nat (Suc (k + b * 2 + i))) [0..<2]) [0..<9], k + 18)" for k
    by (subst repeatM_counting [OF 1]) simp
  show ?thesis unfolding initRandomTable_def
    by (subst repeatM_counting [OF 2]) (simp add: ex_mk_def ex_draw_def Let_def)
qed

lemma ex_hasher_eq: "ZobristHash ex_mk ex_draw 9 = ex_hasher"
proof -
  have "zobrist_stone 9 (initRandomTable ex_mk ex_draw 9) = hash_stone ex_hasher"
  proof (intro ext)
    fix c pl
    show "zobrist_stone 9 (initRandomTable ex_mk ex_draw 9) c pl = hash_stone ex_hasher c pl"
    proof (cases "on_board 9 c")
      case True
      then have "unat (coord_x c) < 9" "unat (coord_y c) < 9" by (auto simp: on_board_def)
      with zobrist_stone_ok [OF True, of ex_mk ex_draw pl] True show ?thesis
        by (cases pl) (simp_all add: ex_table ex_hasher_def player_value_def del: upt_Suc upt_rec_numeral)
    next
      case False
      then show ?thesis by (simp add: zobrist_stone_def ex_hasher_def)
    qed
  qed
  then show ?thesis by (simp add: ZobristHash_def Let_def ex_table) (simp add: ex_hasher_def ex_table)
qed

subsection \<open>The game\<close>

definition ex_game :: "game_event list \<Rightarrow> game" where
  "ex_game es = foldl game_pushEvent (game_subscribeState
     \<lparr>g_gameActive = False, g_consecutivePasses = 0, g_position = game_position_new 9,
      g_eventQueue = SafeQueue_new, g_eventHub = event_hub_new, g_seenHashes = {0},
      g_hasher = Some ex_hasher\<rparr> 7) es"

definition ex_events :: "game_event list" where
  "ex_events = [PutStoneEvent PBlack (Coord 1 0), PutStoneEvent PWhite (Coord 0 0),
     PutStoneEvent PBlack (Coord 0 1), PutStoneEvent PWhite (Coord 0 0), PassEvent PWhite,
     PassEvent PBlack]"

definition ex_final :: game where
  "ex_final = (case game_run (ex_game ex_events) of Some (r, g, out) \<Rightarrow> g | None \<Rightarrow> ex_game [])"

lemma ex_run: "map_option (\<lambda>(r, g, out). (r, gp_moveId (g_position g), map gd_captures (deltas_of out 7)))
    (game_run (ex_game ex_events)) = Some (GameOver, 4, [[], [], [Coord 0 0], [], []])"
  by code_simp

lemma ex_new: "game_new ex_mk ex_draw 9 = Some (game_unsubscribeState (ex_game []) 7)"
  by (simp add: game_new_def Let_def ex_hasher_eq ex_game_def game_position_new_def
      game_subscribeState_def game_unsubscribeState_def hub_subscribe_state_def
      hub_unsubscribe_state_def event_hub_new_def)

lemma ex_reach: "game_reach ex_mk ex_draw 9 (ex_game es) [game_position_new 9]"
proof (induction es rule: rev_induct)
  case Nil
  let ?g = "game_unsubscribeState (ex_game []) 7"
  have "game_reach ex_mk ex_draw 9 ?g [g_position ?g]" using ex_new by (rule game_reach.init)
  from game_reach.step [OF this game_step.subscribe_state [of _ 7]] show ?case
    by (simp add: ex_game_def game_subscribeState_def game_unsubscribeState_def
        hub_subscribe_state_def hub_unsubscribe_state_def event_hub_new_def)
next
  case (snoc e es)
  from game_reach.step [OF snoc game_step.push [of _ e]] show ?case
    by (simp add: ex_game_def game_pushEvent_def)
qed

lemma ex_final_reach: "\<exists>hs. game_reach ex_mk ex_draw 9 ex_final hs"
proof -
  from ex_run obtain r g out where run: "game_run (ex_game ex_events) = Some (r, g, out)"
    by (cases "game_run (ex_game ex_events)") auto
  from game_run_reach [OF run ex_reach] run show ?thesis by (auto simp: ex_final_def)
qed

subsection \<open>A pass that repeats a position\<close>

text \<open>White sends two stones in the corner and takes one back, which restores the board with Black to
  move; a pass of Black would now repeat the position.\<close>

definition ex_ko_events :: "game_event list" where
  "ex_ko_events =
     [PutStoneEvent PBlack (Coord 0 1), PutStoneEvent PWhite (Coord 1 0), PutStoneEvent PBlack (Coord 1 1),
      PutStoneEvent PWhite (Coord 2 1), PassEvent PBlack, PutStoneEvent PWhite (Coord 3 0),
      PutStoneEvent PBlack (Coord 8 8), PutStoneEvent PWhite (Coord 0 0), PutStoneEvent PBlack (Coord 2 0),
      PutStoneEvent PWhite (Coord 1 0)]"

definition ex_ko :: game where
  "ex_ko = (case game_run (ex_game ex_ko_events) of Some (r, g, out) \<Rightarrow> g | None \<Rightarrow> ex_game [])"

lemma ex_ko_run:
  "map_option (\<lambda>(r, g, out). (r, g_gameActive g, g_consecutivePasses g, gp_currentPlayer (g_position g),
      gp_hash (position_pass (g_position g) ex_hasher) \<in> g_seenHashes g)) (game_run (ex_game ex_ko_events)) =
    Some (WaitsInPop, True, 0, PBlack, True)"
  by code_simp

lemma ex_ko_facts:
  "g_gameActive ex_ko" "g_consecutivePasses ex_ko = 0" "PBlack = gp_currentPlayer (g_position ex_ko)"
  "gp_hash (position_pass (g_position ex_ko) ex_hasher) \<in> g_seenHashes ex_ko"
  using ex_ko_run by (auto simp: ex_ko_def split: option.splits)

lemma ex_ko_reach: "\<exists>hs. game_reach ex_mk ex_draw 9 ex_ko hs"
proof -
  from ex_ko_run obtain r g out where run: "game_run (ex_game ex_ko_events) = Some (r, g, out)"
    by (cases "game_run (ex_game ex_ko_events)") auto
  from game_run_reach [OF run ex_reach] run show ?thesis by (auto simp: ex_ko_def)
qed

end
