(* ===== verification/Game_Properties.thy ===== *)
theory Game_Properties imports Sample_Games begin

text \<open>
  The properties of the game core: the rules decided by the move checker, and what holds of every
  game that can be reached by pushing events and running the loop. The proofs are in the components'
  theories; each witness applies its property to a concrete board or to the game of \<open>Sample_Games\<close>.
\<close>

subsection \<open>The move checker\<close>

text \<open>C1: \<open>groupAnalysis\<close> never faults on a board and computes the group of a square and the number of
  its liberties as the rules define them, for any pretended stone and any blocked liberty.\<close>

theorem group_analysis_exact:
  assumes "board_ok b" "on_board (m_size b) start"
  shows "\<exists>grp. groupAnalysis b start pl [] ps bl =
      Some (card (liberties_of (m_size b) (free_square b pl ps bl)
                   (group_of (m_size b) (own_stone b pl ps) start)), grp) \<and>
    set grp = group_of (m_size b) (own_stone b pl ps) start"
  using assms by (rule groupAnalysis_correct)

theorem group_analysis_exact_witness:
  "\<exists>grp. groupAnalysis (board_new 3) (Coord 1 1) PBlack [] (Some (Coord 1 1)) None = Some (4, grp) \<and>
    4 = card (liberties_of 3 (free_square (board_new 3) PBlack (Some (Coord 1 1)) None)
          (group_of 3 (own_stone (board_new 3) PBlack (Some (Coord 1 1))) (Coord 1 1)))"
proof -
  have "map_option fst (groupAnalysis (board_new 3) (Coord 1 1) PBlack [] (Some (Coord 1 1)) None) = Some 4"
    by code_simp
  with group_analysis_exact [of "board_new 3" "Coord 1 1" PBlack "Some (Coord 1 1)" None] show ?thesis
    by (auto simp: board_new_ok on_board_def)
qed

text \<open>C2: \<open>isValidMove\<close> never faults and decides the rules: the square is on the board and empty, and the
  stone would have a liberty in its group or capture an enemy group. (The superko rule is separate.)\<close>

theorem is_valid_move_decides:
  assumes "board_ok b"
  shows "isValidMove b pl c = Some (on_board (m_size b) c \<and> stone_at b c = Empty \<and>
    (liberties_of (m_size b) (\<lambda>d. stone_at b d = Empty \<and> d \<noteq> c)
       (group_of (m_size b) (\<lambda>d. d = c \<or> stone_at b d = toStone pl) c) \<noteq> {} \<or>
     (\<exists>s. adjacent (m_size b) c s \<and> stone_at b s = toStone (opponent pl) \<and>
        liberties_of (m_size b) (\<lambda>d. stone_at b d = Empty \<and> d \<noteq> c)
          (group_of (m_size b) (\<lambda>d. stone_at b d = toStone (opponent pl)) s) = {})))"
proof -
  have "captured_by b pl c \<noteq> {} \<longleftrightarrow>
      (\<exists>s. adjacent (m_size b) c s \<and> enemy_at b pl s \<and> dead_after b pl c s)"
    by (auto simp: captured_by_def dest: adjacent_on_board intro: group_of_self)
  then show ?thesis
    using isValidMove_correct [OF assms, of pl c]
    by (simp add: valid_move_def lives_def own_or_move_def [abs_def] enemy_at_def [abs_def] dead_after_def)
qed

theorem is_valid_move_decides_witness:
  "isValidMove (board_new 3) PBlack (Coord 3 1) = Some False \<and>
   liberties_of 3 (\<lambda>d. stone_at (board_new 3) d = Empty \<and> d \<noteq> Coord 1 1)
     (group_of 3 (\<lambda>d. d = Coord 1 1 \<or> stone_at (board_new 3) d = Black) (Coord 1 1)) \<noteq> {}"
proof -
  have v: "isValidMove (board_new 3) PBlack (Coord 1 1) = Some True"
    "isValidMove (board_new 3) PBlack (Coord 3 1) = Some False" by code_simp+
  have e: "stone_at (board_new 3) s = Empty" if "adjacent 3 (Coord 1 1) s" for s
    using adjacent_on_board [OF that] by simp
  from is_valid_move_decides [OF board_new_ok, of 3 PBlack "Coord 1 1"] v show ?thesis
    by (auto dest: e)
qed

text \<open>C3: on a legal move \<open>isNextPositionLegal\<close> yields the position the rules prescribe (the stone placed,
  exactly the captured stones removed, the other player to move, the move number one up), the captured
  squares in board order, and the incremental hash is the hash computed from scratch; the move is
  refused just when it is against the rules or that hash has been seen.\<close>

theorem next_position_legal_decides:
  assumes "board_ok (gp_board p)" "m_size (gp_board p) = n" "gp_currentPlayer p = pl"
    and "gp_hash p = position_hash (ZobristHash mk draw n) (gp_board p) pl"
  shows "(isNextPositionLegal p pl move (ZobristHash mk draw n) history = Some None \<and>
      \<not> (valid_move (gp_board p) pl move \<and>
         (\<exists>p'. position_after p move pl p' \<and> hash_ok (ZobristHash mk draw n) p' \<and> gp_hash p' \<notin> history))) \<or>
    (\<exists>p'. isNextPositionLegal p pl move (ZobristHash mk draw n) history =
        Some (Some (p', filter (\<lambda>c. c \<in> captured_by (gp_board p) pl move) (all_coords n))) \<and>
      valid_move (gp_board p) pl move \<and> position_after p move pl p' \<and>
      gp_hash p' = position_hash (ZobristHash mk draw n) (gp_board p') (opponent pl) \<and>
      gp_hash p' \<notin> history)"
proof -
  let ?H = "ZobristHash mk draw n"
  from assms(3,4) have ok: "hash_ok ?H p" by (simp add: hash_ok_def)
  have hash: "gp_hash p' = position_hash ?H (gp_board p') (opponent pl)"
    if "position_after p move pl p'" "hash_ok ?H p'" for p'
    using that by (simp add: hash_ok_def position_after_def)
  from zh.isNextPositionLegal_correct [OF assms(1,2) ok assms(3), of move history] hash show ?thesis
    by (elim disjE exE) blast+
qed

theorem next_position_legal_decides_witness:
  "\<exists>p'. position_after (game_position_new 9) (Coord 4 4) PBlack p' \<and>
     gp_hash p' = position_hash (ZobristHash ex_mk ex_draw 9) (gp_board p') PWhite"
proof -
  have "map_option (map_option snd) (isNextPositionLegal (game_position_new 9) PBlack (Coord 4 4) ex_hasher {0})
      = Some (Some [])" by code_simp
  with next_position_legal_decides [of "game_position_new 9" 9 PBlack ex_mk ex_draw "Coord 4 4" "{0}"]
  show ?thesis by (auto simp: ex_hasher_eq game_position_new_def board_new_ok)
qed

text \<open>C4: after a legal move on a board where every group has a liberty, every group has a liberty: the
  captures leave no dead stones and the suicide rule lets none appear.\<close>

theorem legal_move_keeps_groups_alive:
  assumes "board_ok (gp_board p)" "all_alive (gp_board p)"
    and "isValidMove (gp_board p) pl c = Some True" "position_after p c pl p'"
  shows "all_alive (gp_board p')"
  using assms valid_move_alive [of p pl c p'] isValidMove_correct [of "gp_board p" pl c] by simp

theorem legal_move_keeps_groups_alive_witness:
  "\<exists>p'. position_after (game_position_new 9) (Coord 4 4) PBlack p' \<and> all_alive (gp_board p')"
proof -
  have v: "isValidMove (board_new 9) PBlack (Coord 4 4) = Some True" by code_simp
  obtain p' where "position_after (game_position_new 9) (Coord 4 4) PBlack p'"
    using zh.simulatePosition_correct [of "game_position_new 9" 9 ex_mk ex_draw PBlack "Coord 4 4"]
      hash_ok_new [of 9] by (auto simp: game_position_new_def board_new_ok on_board_def)
  with legal_move_keeps_groups_alive [of "game_position_new 9" PBlack "Coord 4 4" p'] v show ?thesis
    by (auto simp: game_position_new_def board_new_ok all_alive_new)
qed

subsection \<open>Reachable games\<close>

text \<open>C5: superko. Whatever events arrive, no position (board and player to move) of a game occurs
  twice.\<close>

theorem no_position_repeats:
  assumes "game_reach mk draw n g hs"
  shows "distinct (map (\<lambda>p. (gp_board p, gp_currentPlayer p)) hs) \<and> g_position g \<in> set hs"
proof -
  have "history_ok (ZobristHash mk draw n) n g hs" using game_reach_inv [OF assms] by simp
  then have d: "distinct (map gp_hash hs)" "\<forall>p \<in> set hs. hash_ok (ZobristHash mk draw n) p"
    "hs \<noteq> []" "hd hs = g_position g" by (auto simp: history_ok_def)
  have "inj_on (\<lambda>p. (gp_board p, gp_currentPlayer p)) (set hs)"
  proof (rule inj_onI)
    fix p q
    assume pq: "p \<in> set hs" "q \<in> set hs"
      and "(gp_board p, gp_currentPlayer p) = (gp_board q, gp_currentPlayer q)"
    then have "gp_hash p = gp_hash q" using d(2) by (simp add: hash_ok_def)
    with d(1) pq show "p = q" by (auto simp: distinct_map dest: inj_onD)
  qed
  with d(1) show ?thesis using hd_in_set [OF d(3)] d(4) by (simp add: distinct_map)
qed

theorem no_position_repeats_witness:
  "\<exists>hs. g_position ex_final \<in> set hs \<and> distinct (map (\<lambda>p. (gp_board p, gp_currentPlayer p)) hs)"
  using ex_final_reach no_position_repeats by blast

text \<open>C6: in every reachable game the board has the size asked for, every group on it has a liberty, the
  running hash is the hash of the position, and Black moves on even move numbers.\<close>

theorem reachable_games_obey_rules:
  assumes "game_reach mk draw n g hs"
  shows "m_size (gp_board (g_position g)) = n \<and> n \<in> {9, 13, 19} \<and> board_ok (gp_board (g_position g)) \<and>
    all_alive (gp_board (g_position g)) \<and>
    gp_hash (g_position g) =
      position_hash (ZobristHash mk draw n) (gp_board (g_position g)) (gp_currentPlayer (g_position g)) \<and>
    (gp_currentPlayer (g_position g) = PBlack \<longleftrightarrow> even (gp_moveId (g_position g)))"
proof -
  from game_reach_inv [OF assms]
  have 1: "game_ok mk draw n g" and 2: "history_ok (ZobristHash mk draw n) n g hs" by simp_all
  from 2 have "g_position g \<in> set hs" using hd_in_set [of hs] by (simp add: history_ok_def)
  with 2 have "gp_currentPlayer (g_position g) = PBlack \<longleftrightarrow> even (gp_moveId (g_position g))"
    by (simp add: history_ok_def)
  with 1 show ?thesis by (simp add: game_ok_def hash_ok_def)
qed

theorem reachable_games_obey_rules_witness:
  "all_alive (gp_board (g_position ex_final)) \<and> m_size (gp_board (g_position ex_final)) = 9"
  using ex_final_reach reachable_games_obey_rules by blast

text \<open>C7: in a reachable game no event makes a handler fault: no failed assert, no access outside the
  board, the marks or the hash table.\<close>

theorem handlers_never_fault:
  assumes "game_reach mk draw n g hs"
  shows "\<exists>g' out. handleEvent g e = Some (g', out)"
  using game_reach_inv [OF assms] handleEvent_no_fault by blast

theorem handlers_never_fault_witness:
  "\<exists>g' out. handleEvent ex_final (PutStoneEvent PWhite (Coord 100 4294967295)) = Some (g', out)"
  using ex_final_reach handlers_never_fault by blast

text \<open>C8: an event of a reachable game either leaves the position as it is and sends no delta, or sends
  each state listener exactly one delta per subscription, the same to all, and the delta describes the
  change: the next move number, the player who moved and the one to move, and on a placement the legal
  move, its captures and the board after it.\<close>

theorem deltas_describe_the_game:
  assumes "game_reach mk draw n g hs" "handleEvent g e = Some (g', out)"
  shows "((\<forall>l. deltas_of out l = []) \<and> g_position g' = g_position g) \<or>
    (\<exists>d. delta_for g d g' \<and>
      (\<forall>l. deltas_of out l = replicate (count_list (eh_stateListeners (g_eventHub g)) l) d))"
  using game_reach_inv [OF assms(1)] handleEvent_deltas [OF _ assms(2)] by blast

theorem deltas_describe_the_game_witness:
  "\<exists>g' out d. handleEvent (ex_game []) (PutStoneEvent PBlack (Coord 4 4)) = Some (g', out) \<and>
    delta_for (ex_game []) d g' \<and> deltas_of out 7 = [d] \<and> gd_coord d = Some (Coord 4 4)"
proof -
  have c: "map_option (\<lambda>(g, out). map gd_coord (deltas_of out 7))
      (handleEvent (ex_game []) (PutStoneEvent PBlack (Coord 4 4))) = Some [Some (Coord 4 4)]"
    by code_simp
  have l: "count_list (eh_stateListeners (g_eventHub (ex_game []))) 7 = 1" by code_simp
  from c obtain g' out where h: "handleEvent (ex_game []) (PutStoneEvent PBlack (Coord 4 4)) = Some (g', out)"
    "map gd_coord (deltas_of out 7) = [Some (Coord 4 4)]" by auto
  from deltas_describe_the_game [OF ex_reach h(1)] h(2) obtain d where d: "delta_for (ex_game []) d g'"
    "deltas_of out 7 = replicate 1 d" unfolding l [symmetric] by auto
  with h show ?thesis by auto
qed

text \<open>C9: two passes in a row end the game: when no pass is pending, a pass of the player to move that
  is accepted hands the turn over, a second pass then ends the game without a move, and a stone played
  in between clears the count.\<close>

theorem two_passes_end_the_game:
  assumes "game_reach mk draw n g hs" "g_consecutivePasses g = 0"
    and "handleEvent g (PassEvent pl) = Some (g1, out1)" "g_position g1 \<noteq> g_position g"
  shows "pl = gp_currentPlayer (g_position g) \<and> gp_currentPlayer (g_position g1) = opponent pl \<and>
    (\<exists>out2. handleEvent g1 (PassEvent (opponent pl)) =
       Some (g1\<lparr>g_consecutivePasses := 2, g_gameActive := False\<rparr>, out2)) \<and>
    (\<forall>c g2 out2. handleEvent g1 (PutStoneEvent (opponent pl) c) = Some (g2, out2) \<longrightarrow>
       g2 = g1 \<and> out2 = [] \<or> g_consecutivePasses g2 = 0 \<and> g_gameActive g2 = g_gameActive g1)"
proof -
  let ?H = "ZobristHash mk draw n"
  from game_reach_inv [OF assms(1)] have ok: "game_ok mk draw n g" by simp
  then have H: "g_hasher g = Some ?H" by (simp add: game_ok_def)
  from assms(2-4) have g1: "pl = gp_currentPlayer (g_position g)"
    "g1 = g\<lparr>g_consecutivePasses := 1, g_position := position_pass (g_position g) ?H,
       g_seenHashes := insert (gp_hash (position_pass (g_position g) ?H)) (g_seenHashes g)\<rparr>"
    by (auto simp: handle_pass_eq [OF H] split: if_splits)
  then have H1: "g_hasher g1 = Some ?H" and pl1: "gp_currentPlayer (g_position g1) = opponent pl"
    "g_consecutivePasses g1 = 1" using H by (simp_all add: position_pass_def)
  have "handleEvent g1 (PassEvent (opponent pl)) =
      Some (g1\<lparr>g_consecutivePasses := 2, g_gameActive := False\<rparr>, end_calls g1 (opponent pl))"
    using pl1 by (simp add: handle_pass_eq [OF H1])
  moreover have ok1: "game_ok mk draw n g1" using ok assms(3) by (auto intro: handle_pass_ok)
  have "g2 = g1 \<and> out2 = [] \<or> g_consecutivePasses g2 = 0 \<and> g_gameActive g2 = g_gameActive g1"
    if "handleEvent g1 (PutStoneEvent (opponent pl) c) = Some (g2, out2)" for c g2 out2
    using that handle_put_cases [OF ok1, of "opponent pl" c] by (auto simp: accept_put_def)
  ultimately show ?thesis using g1(1) pl1(1) by blast
qed

theorem two_passes_end_the_game_witness:
  "\<exists>g1 out2. handleEvent g1 (PassEvent PWhite) =
     Some (g1\<lparr>g_consecutivePasses := 2, g_gameActive := False\<rparr>, out2)"
proof -
  have c: "map_option (\<lambda>(g, out). gp_moveId (g_position g)) (handleEvent (ex_game []) (PassEvent PBlack)) = Some 1"
    "gp_moveId (g_position (ex_game [])) = 0" "g_consecutivePasses (ex_game []) = 0" by code_simp+
  then obtain g1 out1 where h: "handleEvent (ex_game []) (PassEvent PBlack) = Some (g1, out1)"
    "gp_moveId (g_position g1) = 1" by auto
  with c(2) have "g_position g1 \<noteq> g_position (ex_game [])" by auto
  from two_passes_end_the_game [OF ex_reach c(3) h(1) this] show ?thesis by auto
qed

text \<open>C10: \<open>run\<close> on the events in the queue always comes to an end without a fault. If the game is no
  longer active it returned; if the game is still active it waits in \<open>Pop\<close>, on a queue that is empty and
  still makes its readers wait. \<open>Pop\<close> never throws out of it, and when a shutdown is queued it returns.\<close>

theorem run_ends:
  assumes "game_reach mk draw n g hs"
  shows "\<exists>r g' out. game_run g = Some (r, g', out) \<and>
    r = (if g_gameActive g' then WaitsInPop else GameOver) \<and>
    (g_gameActive g' \<longrightarrow> sq_queue (g_eventQueue g') = [] \<and> sq_blockThreads (g_eventQueue g')) \<and>
    (ShutdownEvent \<in> set (sq_queue (g_eventQueue g)) \<longrightarrow> r = GameOver)"
  using run_loop_ends [of mk draw n "g\<lparr>g_gameActive := True\<rparr>"] game_reach_inv [OF assms]
    game_reach_blocks [OF assms]
  by (simp add: game_run_def)

theorem run_ends_witness:
  "\<exists>g' out. game_run (ex_game [PassEvent PBlack, ShutdownEvent]) = Some (GameOver, g', out)"
proof -
  have "ShutdownEvent \<in> set (sq_queue (g_eventQueue (ex_game [PassEvent PBlack, ShutdownEvent])))"
    by code_simp
  with run_ends [OF ex_reach, of "[PassEvent PBlack, ShutdownEvent]"] show ?thesis by metis
qed

text \<open>A pass that the superko rule refuses changes nothing a listener sees, but it counts: the same
  player's next pass, with no move of the opponent in between, ends the game.\<close>

theorem refused_pass_counts:
  assumes "game_reach mk draw n g hs" "g_consecutivePasses g = 0" "pl = gp_currentPlayer (g_position g)"
    and "gp_hash (position_pass (g_position g) (ZobristHash mk draw n)) \<in> g_seenHashes g"
  shows "\<exists>g1. handleEvent g (PassEvent pl) = Some (g1, []) \<and> g_position g1 = g_position g \<and>
    g_gameActive g1 = g_gameActive g \<and>
    (\<exists>g2 out. handleEvent g1 (PassEvent pl) = Some (g2, out) \<and> \<not> g_gameActive g2)"
proof -
  let ?g1 = "g\<lparr>g_consecutivePasses := 1\<rparr>"
  from game_reach_inv [OF assms(1)] have H: "g_hasher g = Some (ZobristHash mk draw n)"
    by (simp add: game_ok_def)
  then have H1: "g_hasher ?g1 = Some (ZobristHash mk draw n)" by simp
  from assms(2-4) have "handleEvent g (PassEvent pl) = Some (?g1, [])" by (simp add: handle_pass_eq [OF H])
  moreover have "\<exists>g2 out. handleEvent ?g1 (PassEvent pl) = Some (g2, out) \<and> \<not> g_gameActive g2"
    using assms(3) by (simp add: handle_pass_eq [OF H1])
  ultimately show ?thesis by (intro exI [of _ ?g1]) simp
qed

theorem refused_pass_counts_witness:
  "\<exists>g1. handleEvent ex_ko (PassEvent PBlack) = Some (g1, []) \<and> g_gameActive g1 \<and>
    (\<exists>g2 out. handleEvent g1 (PassEvent PBlack) = Some (g2, out) \<and> \<not> g_gameActive g2)"
proof -
  from ex_ko_reach obtain hs where "game_reach ex_mk ex_draw 9 ex_ko hs" ..
  from refused_pass_counts [OF this ex_ko_facts(2,3)] ex_ko_facts(1,4) show ?thesis
    unfolding ex_hasher_eq by metis
qed

end
