(* ===== verification/Net_Types.thy ===== *)
theory Net_Types imports Board_Model begin

text \<open>
  \<open>src/net/network/include/network/types.hpp\<close>: the enumerations of the network layer. All three have the
  underlying type \<open>std::uint8_t\<close>, so a cast from \<open>unsigned\<close> keeps the low eight bits; \<open>None\<close> is a value
  that names no enumerator.
\<close>

datatype seat = SeatNone | SeatBlack | SeatWhite | SeatObserver

datatype server_action = SA_Place | SA_Pass | SA_Resign | SA_Count

datatype net_status = NS_Active | NS_BlackWin | NS_WhiteWin | NS_Draw | NS_Count

definition isPlayer :: "seat \<Rightarrow> bool" where
  "isPlayer s \<longleftrightarrow> s = SeatBlack \<or> s = SeatWhite"

definition seat_value :: "seat \<Rightarrow> u8" where
  "seat_value s = (case s of SeatNone \<Rightarrow> 0 | SeatBlack \<Rightarrow> push_bit 1 1 | SeatWhite \<Rightarrow> push_bit 2 1
     | SeatObserver \<Rightarrow> push_bit 3 1)"

definition action_value :: "server_action \<Rightarrow> u8" where
  "action_value a = (case a of SA_Place \<Rightarrow> 0 | SA_Pass \<Rightarrow> 1 | SA_Resign \<Rightarrow> 2 | SA_Count \<Rightarrow> 3)"

definition status_value :: "net_status \<Rightarrow> u8" where
  "status_value s = (case s of NS_Active \<Rightarrow> 0 | NS_BlackWin \<Rightarrow> 1 | NS_WhiteWin \<Rightarrow> 2 | NS_Draw \<Rightarrow> 3
     | NS_Count \<Rightarrow> 4)"

definition cast_seat :: "u32 \<Rightarrow> seat option" where
  "cast_seat v = find (\<lambda>s. seat_value s = ucast v) [SeatNone, SeatBlack, SeatWhite, SeatObserver]"

definition cast_action :: "u32 \<Rightarrow> server_action option" where
  "cast_action v = find (\<lambda>a. action_value a = ucast v) [SA_Place, SA_Pass, SA_Resign, SA_Count]"

definition cast_status :: "u32 \<Rightarrow> net_status option" where
  "cast_status v = find (\<lambda>s. status_value s = ucast v) [NS_Active, NS_BlackWin, NS_WhiteWin, NS_Draw, NS_Count]"

lemma cast_value [simp]:
  "cast_seat (ucast (seat_value s)) = Some s"
  "cast_action (ucast (action_value a)) = Some a"
  "cast_status (ucast (status_value t)) = Some t"
proof -
  show "cast_seat (ucast (seat_value s)) = Some s" by (cases s; hypsubst; code_simp)
  show "cast_action (ucast (action_value a)) = Some a" by (cases a; hypsubst; code_simp)
  show "cast_status (ucast (status_value t)) = Some t" by (cases t; hypsubst; code_simp)
qed

end
