(* ===== verification/Net_Session_Manager.thy ===== *)
theory Net_Session_Manager imports Net_Types "HOL-Library.Multiset" begin

text \<open>
  \<open>src/net/network/sessionManager.cpp\<close>: the sessions of the server. The map of sessions is a list of its
  entries in the order an iteration visits them. Where an insertion puts the new entry, and how it
  reorders the others, is left open by the standard: it is the parameter \<open>ins\<close>, and \<open>inserts ins\<close> says
  that it adds the entry and keeps the rest. The file's static \<open>nextSessionId\<close> is part of the state.
\<close>

subsection \<open>The maps\<close>

record session_context =
  sc_connectionId :: u32
  sc_sessionId :: u32
  sc_seat :: seat
  sc_isActive :: bool

type_synonym session_entry = "u32 \<times> session_context"
type_synonym inserter = "session_entry \<Rightarrow> session_entry list \<Rightarrow> session_entry list"

definition inserts :: "inserter \<Rightarrow> bool" where
  "inserts ins \<longleftrightarrow> (\<forall>e es. mset (ins e es) = add_mset e (mset es))"

record session_manager =
  sm_sessions :: "session_entry list"
  sm_connectionToSession :: "u32 \<rightharpoonup> u32"
  sm_nextSessionId :: u32

definition session_manager_new :: session_manager where
  "session_manager_new = \<lparr>sm_sessions = [], sm_connectionToSession = Map.empty, sm_nextSessionId = 1\<rparr>"

text \<open>Updating one entry in place.\<close>

definition update_session ::
  "u32 \<Rightarrow> (session_context \<Rightarrow> session_context) \<Rightarrow> session_manager \<Rightarrow> session_manager" where
  "update_session i f m =
     m\<lparr>sm_sessions := map (\<lambda>(k, c). (k, if k = i then f c else c)) (sm_sessions m)\<rparr>"

subsection \<open>The operations\<close>

text \<open>The loop of \<open>generateSessionId\<close>; it does not end when every identifier but 0 is taken.\<close>

partial_function (option) freeCandidate :: "session_entry list \<Rightarrow> u32 \<Rightarrow> u32 option" where
  "freeCandidate es candidate =
     (if map_of es candidate \<noteq> None
      then let c1 = candidate + 1;
               c2 = (if c1 = 0 then c1 + 1 else c1)
           in freeCandidate es c2
      else Some candidate)"

declare freeCandidate.simps [code]

definition generateSessionId :: "session_manager \<Rightarrow> (u32 \<times> session_manager) option" where
  "generateSessionId m =
     (let candidate = (if sm_nextSessionId m = 0 then 1 else sm_nextSessionId m)
      in do {
        c \<leftarrow> freeCandidate (sm_sessions m) candidate;
        let next = c + 1;
        Some (c, m\<lparr>sm_nextSessionId := (if next = 0 then 1 else next)\<rparr>)
      })"

definition sessions_add :: "inserter \<Rightarrow> session_manager \<Rightarrow> u32 \<Rightarrow> (u32 \<times> session_manager) option" where
  "sessions_add ins m connectionId =
     (let fresh = (\<lambda>m. do {
            (sessionId, m1) \<leftarrow> generateSessionId m;
            let context = \<lparr>sc_connectionId = connectionId, sc_sessionId = sessionId,
                           sc_seat = SeatNone, sc_isActive = True\<rparr>;
            Some (sessionId, m1\<lparr>sm_sessions := ins (sessionId, context) (sm_sessions m1),
              sm_connectionToSession := (sm_connectionToSession m1)(connectionId \<mapsto> sessionId)\<rparr>)
          })
      in case sm_connectionToSession m connectionId of
           Some existing \<Rightarrow>
             (case map_of (sm_sessions m) existing of
                Some context \<Rightarrow>
                  Some (sc_sessionId context, update_session existing (\<lambda>c. c\<lparr>sc_isActive := True\<rparr>) m)
              | None \<Rightarrow>
                  fresh (m\<lparr>sm_connectionToSession := (sm_connectionToSession m)(connectionId := None)\<rparr>))
         | None \<Rightarrow> fresh m)"

definition sessions_remove :: "session_manager \<Rightarrow> u32 \<Rightarrow> session_manager" where
  "sessions_remove m sessionId =
     (case map_of (sm_sessions m) sessionId of
        None \<Rightarrow> m
      | Some context \<Rightarrow>
          m\<lparr>sm_connectionToSession := (sm_connectionToSession m)(sc_connectionId context := None),
            sm_sessions := filter (\<lambda>e. fst e \<noteq> sessionId) (sm_sessions m)\<rparr>)"

definition getSessionId :: "session_manager \<Rightarrow> u32 \<Rightarrow> u32" where
  "getSessionId m connectionId =
     (case sm_connectionToSession m connectionId of None \<Rightarrow> 0 | Some s \<Rightarrow> s)"

definition getConnectionId :: "session_manager \<Rightarrow> u32 \<Rightarrow> u32" where
  "getConnectionId m sessionId =
     (case map_of (sm_sessions m) sessionId of None \<Rightarrow> 0 | Some c \<Rightarrow> sc_connectionId c)"

text \<open>The assert on the seat comes first; then the first active entry with the seat.\<close>

definition getConnectionIdBySeat :: "session_manager \<Rightarrow> seat \<Rightarrow> u32 option" where
  "getConnectionIdBySeat m seat =
     (if seat = SeatBlack \<or> seat = SeatWhite
      then Some (case find (\<lambda>e. sc_isActive (snd e) \<and> sc_seat (snd e) = seat) (sm_sessions m) of
                   None \<Rightarrow> 0 | Some e \<Rightarrow> sc_connectionId (snd e))
      else None)"

definition getSeat :: "session_manager \<Rightarrow> u32 \<Rightarrow> seat" where
  "getSeat m sessionId =
     (case map_of (sm_sessions m) sessionId of None \<Rightarrow> SeatNone | Some c \<Rightarrow> sc_seat c)"

definition setSeat :: "session_manager \<Rightarrow> u32 \<Rightarrow> seat \<Rightarrow> session_manager" where
  "setSeat m sessionId seat =
     (case map_of (sm_sessions m) sessionId of
        None \<Rightarrow> m
      | Some _ \<Rightarrow> update_session sessionId (\<lambda>c. c\<lparr>sc_seat := seat\<rparr>) m)"

definition setDisconnected :: "session_manager \<Rightarrow> u32 \<Rightarrow> session_manager" where
  "setDisconnected m sessionId =
     (case map_of (sm_sessions m) sessionId of
        None \<Rightarrow> m
      | Some _ \<Rightarrow> update_session sessionId (\<lambda>c. c\<lparr>sc_isActive := False\<rparr>) m)"

text \<open>\<open>forEachSession\<close> runs a visitor over the contexts in iteration order; here on a state it threads.\<close>

definition forEachSession :: "session_manager \<Rightarrow> (session_context \<Rightarrow> 's \<Rightarrow> 's) \<Rightarrow> 's \<Rightarrow> 's" where
  "forEachSession m visitor s = fold visitor (map snd (sm_sessions m)) s"

subsection \<open>A free identifier is found\<close>

lemma closer_u32:
  fixes t d :: u32
  assumes "d \<noteq> t"
  shows "unat (t - (d + 1)) < unat (t - d)"
proof -
  have "t - d \<noteq> 0" using assms by simp
  then have "0 < unat (t - d)" by (metis neq0_conv unat_eq_zero)
  moreover have "unat (t - d - 1) = unat (t - d) - 1"
    using \<open>t - d \<noteq> 0\<close> by (rule unat_minus_one)
  ultimately show ?thesis by (simp only: diff_diff_add)
qed

text \<open>If some identifier other than 0 is free, the loop reaches a free one, and it is never 0.\<close>

lemma freeCandidate_total:
  assumes "map_of es t = None" "t \<noteq> 0" "c \<noteq> 0"
  shows "\<exists>d. freeCandidate es c = Some d \<and> d \<noteq> 0 \<and> map_of es d = None"
  using assms(3)
proof (induction "unat (t - c)" arbitrary: c rule: less_induct)
  case less
  show ?case
  proof (cases "map_of es c = None")
    case True
    with less.prems show ?thesis by (subst freeCandidate.simps) simp
  next
    case False
    with assms(1) have "c \<noteq> t" by auto
    define c2 where "c2 = (if c + 1 = 0 then c + 1 + 1 else c + 1)"
    have "c2 \<noteq> 0" by (simp add: c2_def)
    have "unat (t - (c + 1)) < unat (t - c)" using \<open>c \<noteq> t\<close> by (rule closer_u32)
    moreover have "unat (t - (c + 1 + 1)) < unat (t - (c + 1))" if "c + 1 = 0"
      using that assms(2) by (intro closer_u32) auto
    ultimately have "unat (t - c2) < unat (t - c)" unfolding c2_def by (cases "c + 1 = 0") simp_all
    from less.hyps [OF this \<open>c2 \<noteq> 0\<close>] False show ?thesis
      by (subst freeCandidate.simps) (simp add: c2_def Let_def)
  qed
qed

lemma free_id_exists:
  assumes "length es < 2 ^ 32 - 1"
  shows "\<exists>t :: u32. t \<noteq> 0 \<and> map_of es t = None"
proof (rule ccontr)
  assume "\<not> ?thesis"
  then have "UNIV = insert 0 (fst ` set es)" by (auto simp: map_of_eq_None_iff)
  then have "card (UNIV :: u32 set) \<le> Suc (card (fst ` set es))"
    by (metis card_insert_le_m1 card.insert_remove card_insert_if finite_imageI finite_set le_SucI le_refl)
  also have "\<dots> \<le> Suc (length es)" using card_image_le card_length by (metis Suc_le_mono finite_set order_trans)
  finally show False using assms by (simp add: card_word)
qed

subsection \<open>The operations as map updates\<close>

lemma inserts_set: "inserts ins \<Longrightarrow> set (ins e es) = insert e (set es)"
  by (metis inserts_def set_mset_add_mset_insert set_mset_mset)

lemma inserts_length: "inserts ins \<Longrightarrow> length (ins e es) = Suc (length es)"
  by (metis inserts_def size_add_mset size_mset)

lemma inserts_distinct:
  "inserts ins \<Longrightarrow> distinct (map fst (ins (k, c) es)) \<longleftrightarrow> k \<notin> fst ` set es \<and> distinct (map fst es)"
proof -
  assume "inserts ins"
  then have "mset (map fst (ins (k, c) es)) = mset (map fst ((k, c) # es))" by (simp add: inserts_def)
  then have "distinct (map fst (ins (k, c) es)) \<longleftrightarrow> distinct (map fst ((k, c) # es))"
    by (rule mset_eq_imp_distinct_iff)
  then show ?thesis by simp
qed

lemma map_of_ins:
  assumes "inserts ins" "distinct (map fst es)" "map_of es k = None"
  shows "map_of (ins (k, c) es) = (map_of es)(k \<mapsto> c)"
proof -
  have "map_of (ins (k, c) es) = map_of ((k, c) # es)"
    using assms inserts_set [OF assms(1)] inserts_distinct [OF assms(1), of k c es]
    by (subst map_of_inject_set) (auto simp: map_of_eq_None_iff)
  then show ?thesis by simp
qed

lemma map_of_update [simp]:
  "map_of (sm_sessions (update_session i f m)) k =
     (if k = i then map_option f (map_of (sm_sessions m) k) else map_of (sm_sessions m) k)"
proof -
  have "map_of (map (\<lambda>(k, c). (k, if k = i then f c else c)) es) k =
      (if k = i then map_option f (map_of es k) else map_of es k)" for es :: "session_entry list"
    by (induction es) auto
  then show ?thesis by (simp add: update_session_def)
qed

lemma update_session_simps [simp]:
  "sm_connectionToSession (update_session i f m) = sm_connectionToSession m"
  "map fst (sm_sessions (update_session i f m)) = map fst (sm_sessions m)"
  "length (sm_sessions (update_session i f m)) = length (sm_sessions m)"
  by (simp_all add: update_session_def comp_def case_prod_beta')

lemma map_of_setSeat [simp]:
  "map_of (sm_sessions (setSeat m i s)) k =
     (if k = i then map_option (\<lambda>c. c\<lparr>sc_seat := s\<rparr>) (map_of (sm_sessions m) k) else map_of (sm_sessions m) k)"
  by (auto simp: setSeat_def split: option.splits)

lemma map_of_setDisconnected [simp]:
  "map_of (sm_sessions (setDisconnected m i)) k =
     (if k = i then map_option (\<lambda>c. c\<lparr>sc_isActive := False\<rparr>) (map_of (sm_sessions m) k)
      else map_of (sm_sessions m) k)"
  by (auto simp: setDisconnected_def split: option.splits)

lemma map_of_filter_key [simp]:
  "map_of (filter (\<lambda>e. fst e \<noteq> i) es) k = (if k = i then None else map_of es k)"
  by (induction es) auto

subsection \<open>The invariant\<close>

text \<open>Keys are the sessions' own identifiers, never 0, and the two maps are inverse to each other.\<close>

definition sessions_ok :: "session_manager \<Rightarrow> bool" where
  "sessions_ok m \<longleftrightarrow> distinct (map fst (sm_sessions m)) \<and>
     (\<forall>k c. map_of (sm_sessions m) k = Some c \<longrightarrow> k \<noteq> 0 \<and> sc_sessionId c = k) \<and>
     (\<forall>k i. sm_connectionToSession m i = Some k \<longleftrightarrow>
        (\<exists>c. map_of (sm_sessions m) k = Some c \<and> sc_connectionId c = i))"

lemma sessions_new_ok [inv_intros]: "sessions_ok session_manager_new"
  by (simp add: sessions_ok_def session_manager_new_def)

lemma update_session_ok:
  assumes "sessions_ok m" "\<And>c. sc_sessionId (f c) = sc_sessionId c" "\<And>c. sc_connectionId (f c) = sc_connectionId c"
  shows "sessions_ok (update_session i f m)"
  using assms unfolding sessions_ok_def by (auto split: if_splits) blast+

lemma setSeat_ok [inv_intros]: "sessions_ok m \<Longrightarrow> sessions_ok (setSeat m i s)"
  by (auto simp: setSeat_def intro!: update_session_ok split: option.splits)

lemma setDisconnected_ok [inv_intros]: "sessions_ok m \<Longrightarrow> sessions_ok (setDisconnected m i)"
  by (auto simp: setDisconnected_def intro!: update_session_ok split: option.splits)

lemma remove_ok [inv_intros]: "sessions_ok m \<Longrightarrow> sessions_ok (sessions_remove m i)"
proof -
  assume ok: "sessions_ok m"
  show ?thesis
  proof (cases "map_of (sm_sessions m) i")
    case None
    with ok show ?thesis by (simp add: sessions_remove_def)
  next
    case (Some c)
    define m' where "m' = sessions_remove m i"
    have m': "map_of (sm_sessions m') k = (if k = i then None else map_of (sm_sessions m) k)"
      "sm_connectionToSession m' = (sm_connectionToSession m)(sc_connectionId c := None)"
      "distinct (map fst (sm_sessions m'))" for k
      using ok Some by (simp_all add: m'_def sessions_remove_def sessions_ok_def distinct_map_filter)
    from ok have inv: "sm_connectionToSession m j = Some k \<longleftrightarrow>
      (\<exists>c. map_of (sm_sessions m) k = Some c \<and> sc_connectionId c = j)" for j k
      unfolding sessions_ok_def by blast
    have c: "sm_connectionToSession m (sc_connectionId c) = Some i" using Some inv by blast
    have "sm_connectionToSession m' j = Some k \<longleftrightarrow>
      (\<exists>c. map_of (sm_sessions m') k = Some c \<and> sc_connectionId c = j)" for j k
    proof (cases "j = sc_connectionId c")
      case True
      with c inv [of j k] show ?thesis by (auto simp: m')
    next
      case False
      with Some inv [of j k] show ?thesis by (auto simp: m')
    qed
    moreover have "map_of (sm_sessions m') k = Some d \<Longrightarrow> k \<noteq> 0 \<and> sc_sessionId d = k" for k d
      using ok by (auto simp: m' sessions_ok_def split: if_splits)
    ultimately show ?thesis using m'(3) unfolding sessions_ok_def m'_def by blast
  qed
qed

text \<open>What \<open>add\<close> does: the session of a known connection is active again, with its seat; an unknown
  connection gets a session with a fresh identifier.\<close>

lemma add_spec:
  assumes ok: "sessions_ok m" and ins: "inserts ins" and room: "length (sm_sessions m) < 2 ^ 32 - 1"
  obtains k m' where "sessions_add ins m i = Some (k, m')" "sessions_ok m'" "k \<noteq> 0"
    "getSessionId m' i = k" "getConnectionId m' k = i"
    "sm_connectionToSession m' = (sm_connectionToSession m)(i \<mapsto> k)"
    "\<And>j. j \<noteq> k \<Longrightarrow> map_of (sm_sessions m') j = map_of (sm_sessions m) j"
    "case sm_connectionToSession m i of
       Some k' \<Rightarrow> k' = k \<and> map_of (sm_sessions m') k = map_option (\<lambda>c. c\<lparr>sc_isActive := True\<rparr>) (map_of (sm_sessions m) k)
     | None \<Rightarrow> map_of (sm_sessions m) k = None \<and> map_of (sm_sessions m') k =
         Some \<lparr>sc_connectionId = i, sc_sessionId = k, sc_seat = SeatNone, sc_isActive = True\<rparr>"
proof (cases "sm_connectionToSession m i")
  case (Some k)
  with ok obtain c where c: "map_of (sm_sessions m) k = Some c" "sc_connectionId c = i" "sc_sessionId c = k" "k \<noteq> 0"
    unfolding sessions_ok_def by metis
  let ?m = "update_session k (\<lambda>c. c\<lparr>sc_isActive := True\<rparr>) m"
  show ?thesis
  proof (rule that [of k ?m])
    show "sessions_add ins m i = Some (k, ?m)" using Some c by (simp add: sessions_add_def)
    show "sessions_ok ?m" using ok by (intro update_session_ok) simp_all
  qed (use Some c in \<open>simp_all add: getSessionId_def getConnectionId_def fun_upd_idem\<close>)
next
  case None
  define c0 where "c0 = (if sm_nextSessionId m = 0 then 1 else sm_nextSessionId m)"
  obtain t where t: "t \<noteq> 0" "map_of (sm_sessions m) t = None" using free_id_exists [OF room] by blast
  have "c0 \<noteq> 0" by (simp add: c0_def)
  from freeCandidate_total [OF t(2,1) this] obtain k where
    k: "freeCandidate (sm_sessions m) c0 = Some k" "k \<noteq> 0" "map_of (sm_sessions m) k = None" by blast
  define ctx where "ctx = \<lparr>sc_connectionId = i, sc_sessionId = k, sc_seat = SeatNone, sc_isActive = True\<rparr>"
  define m' where "m' = m\<lparr>sm_nextSessionId := (if k + 1 = 0 then 1 else k + 1),
    sm_sessions := ins (k, ctx) (sm_sessions m), sm_connectionToSession := (sm_connectionToSession m)(i \<mapsto> k)\<rparr>"
  have d: "distinct (map fst (sm_sessions m))" using ok by (simp add: sessions_ok_def)
  have s: "sm_sessions m' = ins (k, ctx) (sm_sessions m)" "sm_connectionToSession m' = (sm_connectionToSession m)(i \<mapsto> k)"
    by (simp_all add: m'_def)
  have m: "map_of (sm_sessions m') = (map_of (sm_sessions m))(k \<mapsto> ctx)"
    unfolding s using ins d k(3) by (rule map_of_ins)
  have "distinct (map fst (sm_sessions m'))"
    using d k(3) unfolding s by (simp add: inserts_distinct [OF ins] map_of_eq_None_iff)
  moreover have "sm_connectionToSession m' j = Some l \<longleftrightarrow>
      (\<exists>c. map_of (sm_sessions m') l = Some c \<and> sc_connectionId c = j)" for j l
  proof -
    from ok have inv: "sm_connectionToSession m j = Some l \<longleftrightarrow>
      (\<exists>c. map_of (sm_sessions m) l = Some c \<and> sc_connectionId c = j)"
      "\<And>c. map_of (sm_sessions m) l = Some c \<Longrightarrow> sm_connectionToSession m (sc_connectionId c) = Some l"
      unfolding sessions_ok_def by blast+
    show ?thesis
    proof (cases "j = i")
      case True
      with None inv k(3) show ?thesis unfolding m s(2) by (auto simp: ctx_def)
    next
      case False
      with inv k(3) show ?thesis unfolding m s(2) by (auto simp: ctx_def)
    qed
  qed
  moreover have "map_of (sm_sessions m') l = Some c \<Longrightarrow> l \<noteq> 0 \<and> sc_sessionId c = l" for l c
    using ok k(2) unfolding m by (auto simp: sessions_ok_def ctx_def split: if_splits)
  ultimately have ok': "sessions_ok m'" unfolding sessions_ok_def by blast
  show ?thesis
  proof (rule that [of k m'])
    show "sessions_add ins m i = Some (k, m')"
      using None k(1) by (simp add: sessions_add_def generateSessionId_def Let_def c0_def m'_def ctx_def)
  qed (use ok' k None in \<open>simp_all add: getSessionId_def getConnectionId_def m s(2) ctx_def\<close>)
qed

end
