(* ===== verification/Protocol.thy ===== *)
theory Protocol imports Prelude "HOL-Library.Sublist" begin

text \<open>
  \<open>src/net/core/include/network/core/protocol.hpp\<close>: message framing. A message travels as a four byte
  header holding its size in network byte order, then its bytes. The header struct is written to and
  read from memory, so its bytes are those of the native byte order of the machine; \<open>big\<close> says whether
  that is big endian (\<open>std::endian::native\<close>).
\<close>

type_synonym message = string

definition MAX_PLAYERS :: nat where "MAX_PLAYERS = 2"
definition DEFAULT_PORT :: u16 where "DEFAULT_PORT = 12345"
definition MAX_PAYLOAD_BYTES :: u32 where "MAX_PAYLOAD_BYTES = 4 * 1024"

definition byteswap_u32 :: "u32 \<Rightarrow> u32" where
  "byteswap_u32 value =
     (push_bit 24 (value AND 0x000000FF) OR push_bit 8 (value AND 0x0000FF00) OR
      drop_bit 8 (value AND 0x00FF0000)) OR drop_bit 24 (value AND 0xFF000000)"

definition to_network_u32 :: "bool \<Rightarrow> u32 \<Rightarrow> u32" where
  "to_network_u32 big value = (if big then value else byteswap_u32 value)"

definition from_network_u32 :: "bool \<Rightarrow> u32 \<Rightarrow> u32" where
  "from_network_u32 big value = to_network_u32 big value"

lemma byteswap_masks:
  "byteswap_u32 v =
     (push_bit 24 (v AND mask 8) OR push_bit 8 (v AND push_bit 8 (mask 8)) OR
      drop_bit 8 (v AND push_bit 16 (mask 8))) OR drop_bit 24 (v AND push_bit 24 (mask 8))"
proof -
  have "push_bit 8 (mask 8) = (0xFF00 :: u32)" "push_bit 16 (mask 8) = (0xFF0000 :: u32)"
    "push_bit 24 (mask 8) = (0xFF000000 :: u32)" "mask 8 = (0xFF :: u32)"
    by (simp_all add: mask_eq_exp_minus_1 push_bit_eq_mult)
  then show ?thesis by (simp only: byteswap_u32_def)
qed

text \<open>Where each bit goes: byte \<open>k\<close> becomes byte \<open>3 - k\<close>.\<close>

lemma bit_byteswap:
  "bit (byteswap_u32 v) n \<longleftrightarrow>
     (if n < 8 then bit v (n + 24) else if n < 16 then bit v (n + 8)
      else if n < 24 then bit v (n - 8) else n < 32 \<and> bit v (n - 24))"
proof -
  consider "n < 8" | "8 \<le> n" "n < 16" | "16 \<le> n" "n < 24" | "24 \<le> n" "n < 32" | "32 \<le> n" by linarith
  then show ?thesis
  proof cases
    case 5
    then have "\<not> bit (byteswap_u32 v) n" by (intro impossible_bit) simp
    with 5 show ?thesis by simp
  qed (auto simp: byteswap_masks bit_simps add.commute)
qed

lemma byteswap_involution [simp]: "byteswap_u32 (byteswap_u32 v) = v"
  by (rule bit_word_eqI) (auto simp: bit_byteswap)

lemma from_to_network [simp]: "from_network_u32 big (to_network_u32 big v) = v"
  by (simp add: from_network_u32_def to_network_u32_def)

subsection \<open>The bytes of a header\<close>

definition byte_of :: "u32 \<Rightarrow> nat \<Rightarrow> char" where
  "byte_of v k = char_of (unat (drop_bit (8 * k) v))"

definition header_bytes :: "bool \<Rightarrow> u32 \<Rightarrow> string" where
  "header_bytes big v =
     (if big then [byte_of v 3, byte_of v 2, byte_of v 1, byte_of v 0]
      else [byte_of v 0, byte_of v 1, byte_of v 2, byte_of v 3])"

fun bytes_value :: "string \<Rightarrow> nat" where
  "bytes_value [] = 0"
| "bytes_value (c # cs) = of_char c + 256 * bytes_value cs"

definition header_of_bytes :: "bool \<Rightarrow> string \<Rightarrow> u32" where
  "header_of_bytes big bs = of_nat (bytes_value (if big then rev bs else bs))"

lemma bytes_value_word: "bytes_value [byte_of v 0, byte_of v 1, byte_of v 2, byte_of v 3] = unat v"
proof -
  define m where "m = unat v"
  have byte: "of_char (byte_of v k) = (m div 2 ^ (8 * k)) mod 256" for k
    by (simp only: byte_of_def m_def unat_drop_bit_eq of_char_of) (simp only: drop_bit_eq_div)
  have lt: "m < 256 * (256 * (256 * 256))" using unsigned_less [of v, where 'a = nat] by (simp add: m_def)
  then have top: "m div 16777216 < 256" by (simp add: less_mult_imp_div_less)
  from lt have "m = m mod (256 * (256 * (256 * 256)))" by (rule mod_less [symmetric])
  also have "\<dots> = m mod 256 + 256 * (m div 256 mod 256 + 256 * (m div 65536 mod 256 + 256 * (m div 16777216 mod 256)))"
    by (simp only: mod_mult2_eq div_mult2_eq [symmetric]) simp
  finally have "bytes_value [byte_of v 0, byte_of v 1, byte_of v 2, byte_of v 3] = m" using top by (simp add: byte)
  then show ?thesis by (simp only: m_def)
qed

lemma header_roundtrip [simp]: "header_of_bytes big (header_bytes big v) = v"
  using bytes_value_word [of v] by (simp add: header_of_bytes_def header_bytes_def del: bytes_value.simps)

text \<open>On every machine the size goes over the wire most significant byte first.\<close>

lemma byte_of_take: "byte_of v k = char_of (unat (take_bit 8 (drop_bit (8 * k) v)))"
  by (simp only: byte_of_def unsigned_take_bit_eq take_bit_eq_mod [where 'a = nat]) simp

lemma byte_of_byteswap:
  assumes "k < 4"
  shows "byte_of (byteswap_u32 v) k = byte_of v (3 - k)"
proof -
  have "take_bit 8 (drop_bit (8 * k) (byteswap_u32 v)) = take_bit 8 (drop_bit (8 * (3 - k)) v)"
  proof (rule bit_word_eqI)
    fix i
    consider "k = 0" | "k = 1" | "k = 2" | "k = 3" using assms by linarith
    then show "bit (take_bit 8 (drop_bit (8 * k) (byteswap_u32 v))) i =
      bit (take_bit 8 (drop_bit (8 * (3 - k)) v)) i"
      by cases (auto simp: bit_simps bit_byteswap add.commute)
  qed
  then show ?thesis by (simp only: byte_of_take)
qed

lemma header_wire_order: "header_bytes big (to_network_u32 big v) = header_bytes True v"
  by (simp add: header_bytes_def to_network_u32_def byte_of_byteswap)

text \<open>Reading four bytes and writing them back changes nothing.\<close>

lemma bytes_value_lt: "bytes_value cs < 256 ^ length cs"
proof (induction cs)
  case Nil
  then show ?case by simp
next
  case (Cons c cs)
  then have "256 * bytes_value cs + 256 \<le> 256 * 256 ^ length cs" by simp
  moreover have "of_char c < (256 :: nat)" by simp
  ultimately have "of_char c + 256 * bytes_value cs < 256 * 256 ^ length cs" by linarith
  then show ?case by simp
qed

lemma bytes_value_Cons: "bytes_value (c # cs) div 256 = bytes_value cs" "bytes_value (c # cs) mod 256 = of_char c"
proof -
  have "(of_char c + 256 * n) div 256 = n" "(of_char c + 256 * n) mod 256 = of_char c" for n :: nat by simp_all
  then show "bytes_value (c # cs) div 256 = bytes_value cs" "bytes_value (c # cs) mod 256 = of_char c"
    by (simp_all only: bytes_value.simps)
qed

lemma byte_of_value:
  assumes "length cs = 4" "k < 4"
  shows "byte_of (of_nat (bytes_value cs)) k = cs ! k"
proof -
  have v: "unat (of_nat (bytes_value cs) :: u32) = bytes_value cs"
    using bytes_value_lt [of cs] assms(1) by (intro u32_of_nat) simp
  obtain a b c d where cs: "cs = [a, b, c, d]"
    using assms(1) by (auto simp: length_Suc_conv numeral_eq_Suc)
  have byte: "byte_of (of_nat (bytes_value cs)) j = char_of (bytes_value cs div 2 ^ (8 * j) mod 256)" for j
    by (simp only: byte_of_def unat_drop_bit_eq v char_of_mod_256) (simp only: drop_bit_eq_div)
  have d2: "m div 65536 = m div 256 div 256" "m div 16777216 = m div 256 div 256 div 256" for m :: nat
    by (simp_all add: div_mult2_eq [symmetric])
  have q: "bytes_value cs div 256 = bytes_value [b, c, d]" "bytes_value cs div 65536 = bytes_value [c, d]"
    "bytes_value cs div 16777216 = bytes_value [d]"
    by (simp_all only: d2 cs bytes_value_Cons)
  have "bytes_value cs div 2 ^ (8 * k) mod 256 = of_char (cs ! k)"
  proof -
    consider "k = 0" | "k = 1" | "k = 2" | "k = 3" using assms(2) by linarith
    then show ?thesis
      by cases (simp_all add: q [unfolded cs] bytes_value_Cons cs del: bytes_value.simps)
  qed
  then show ?thesis by (simp only: byte char_of_char)
qed

lemma header_bytes_of_bytes:
  assumes "length h = 4"
  shows "header_bytes big (header_of_bytes big h) = h"
proof -
  obtain a b c d where h: "h = [a, b, c, d]"
    using assms by (auto simp: length_Suc_conv numeral_eq_Suc)
  show ?thesis
    using byte_of_value [of "[a, b, c, d]"] byte_of_value [of "[d, c, b, a]"]
    by (cases big) (simp_all add: h header_bytes_def header_of_bytes_def del: bytes_value.simps)
qed

subsection \<open>Frames\<close>

text \<open>A frame as the senders of the program put it on the wire: header, then payload.\<close>

definition frame_header :: "bool \<Rightarrow> message \<Rightarrow> string" where
  "frame_header big m = header_bytes big (to_network_u32 big (of_nat (length m)))"

definition frame :: "message \<Rightarrow> string" where
  "frame m = frame_header True m @ m"

definition fits :: "message \<Rightarrow> bool" where
  "fits m \<longleftrightarrow> length m \<le> unat MAX_PAYLOAD_BYTES"

lemma MAX_PAYLOAD_unat [simp]: "unat MAX_PAYLOAD_BYTES = 4096"
  by (simp add: MAX_PAYLOAD_BYTES_def)

lemma frame_header_any: "frame_header big m = frame_header True m"
  by (simp only: frame_header_def header_wire_order)

lemma length_frame_header [simp]: "length (frame_header big m) = 4"
  by (simp add: frame_header_def header_bytes_def)

lemma length_header_bytes [simp]: "length (header_bytes big v) = 4"
  by (simp add: header_bytes_def)

text \<open>What a reader of either endianness makes of the header of a frame.\<close>

lemma frame_header_value:
  "from_network_u32 big (header_of_bytes big (frame_header big' m)) = of_nat (length m)"
proof -
  have "frame_header big' m = frame_header big m" using frame_header_any [of big' m] frame_header_any [of big m] by simp
  then have "header_of_bytes big (frame_header big' m) = to_network_u32 big (of_nat (length m))"
    by (simp only: frame_header_def header_roundtrip)
  then show ?thesis by simp
qed

text \<open>Conversely four bytes that read as the length of a message are its header.\<close>

lemma header_read_frame:
  assumes "length h = 4" "from_network_u32 big (header_of_bytes big h) = of_nat (length m)"
  shows "h @ m = frame m"
proof -
  have "to_network_u32 big (from_network_u32 big (header_of_bytes big h)) = header_of_bytes big h"
    by (simp add: from_network_u32_def to_network_u32_def)
  then have "header_of_bytes big h = to_network_u32 big (of_nat (length m))" by (simp only: assms(2))
  then have "h = frame_header big m"
    using header_bytes_of_bytes [OF assms(1), of big] by (simp only: frame_header_def)
  then show ?thesis using frame_header_any [of big m] by (simp add: frame_def)
qed

lemma fits_length:
  assumes "fits m"
  shows "unat (of_nat (length m) :: u32) = length m" "(of_nat (length m) :: u32) \<le> MAX_PAYLOAD_BYTES"
proof -
  have "length m < 2 ^ 32" using assms by (simp add: fits_def)
  then show l: "unat (of_nat (length m) :: u32) = length m" by (rule u32_of_nat)
  show "(of_nat (length m) :: u32) \<le> MAX_PAYLOAD_BYTES"
    unfolding word_le_nat_alt l using assms by (simp add: fits_def)
qed

lemma frame_eq_iff:
  assumes "fits m" "fits m'" "frame m @ r = frame m' @ r'"
  shows "m = m' \<and> r = r'"
proof -
  from assms(3) have h: "frame_header True m = frame_header True m'" and b: "m @ r = m' @ r'"
    by (auto simp: frame_def append_eq_append_conv)
  have "(of_nat (length m) :: u32) = of_nat (length m')"
    by (rule box_equals [OF _ frame_header_value [of True True] frame_header_value [of True True]])
      (simp only: h)
  then have "length m = length m'" using fits_length(1) [OF assms(1)] fits_length(1) [OF assms(2)] by metis
  with b show ?thesis by simp
qed

text \<open>A stream of frames reads in only one way: messages whose frames begin a stream begin its messages.\<close>

lemma frames_prefix:
  assumes "\<forall>m \<in> set ms. fits m" "\<forall>d \<in> set ds. fits d"
    and "prefix (concat (map frame ds)) (concat (map frame ms))"
  shows "prefix ds ms"
  using assms
proof (induction ds arbitrary: ms)
  case Nil
  then show ?case by simp
next
  case (Cons d ds)
  from Cons.prems(3) obtain z where z: "concat (map frame ms) = frame d @ concat (map frame ds) @ z"
    by (auto simp: prefix_def)
  show ?case
  proof (cases ms)
    case Nil
    with z have "length (frame d) = 0" by simp
    then show ?thesis by (simp add: frame_def)
  next
    case (Cons m ms')
    with z have "frame d @ (concat (map frame ds) @ z) = frame m @ concat (map frame ms')" by simp
    from frame_eq_iff [OF _ _ this] Cons.prems(1,2) Cons
    have "d = m" "concat (map frame ds) @ z = concat (map frame ms')" by auto
    moreover from this(2) have "prefix (concat (map frame ds)) (concat (map frame ms'))"
      by (metis prefixI)
    ultimately show ?thesis using Cons.IH [of ms'] Cons.prems(1,2) Cons by simp
  qed
qed

end
