(* ===== verification/Nw_Events.thy ===== *)
theory Nw_Events imports Net_Types Protocol begin

text \<open>
  \<open>src/net/network/nwEvents.cpp\<close> and \<open>nwEvents.hpp\<close>: the events exchanged by client and server, and their
  translation to and from JSON messages. The library nlohmann::json is a parameter, the record
  \<open>json_api\<close> of the calls the file makes; what its documentation promises is the predicate
  \<open>json_laws\<close>. In the model \<open>None\<close> is an exception of the library, a call outside its contract, or the
  failed assert of the file; an absent \<open>std::optional\<close> is \<open>Some None\<close>.
\<close>

subsection \<open>The events\<close>

type_synonym double_bits = u64 \<comment> \<open>a \<open>double\<close>, by its representation\<close>

datatype client_event = ClientPutStone coord | ClientPass | ClientResign | ClientChat string

record server_game_config =
  sg_boardSize :: u32
  sg_komi :: double_bits
  sg_timeSeconds :: u32

record server_delta =
  sd_turn :: u32
  sd_seat :: seat
  sd_action :: server_action
  sd_coord :: "coord option"
  sd_captures :: "coord list"
  sd_next :: seat
  sd_status :: net_status

record server_chat =
  sh_player :: player
  sh_messageId :: u32
  sh_message :: string

datatype server_event = ServerSessionAssign u32 | ServerGameConfig server_game_config
  | ServerDelta server_delta | ServerChat server_chat

definition isValid_action :: "server_action \<Rightarrow> bool" where
  "isValid_action a = (case a of SA_Place \<Rightarrow> True | SA_Pass \<Rightarrow> True | SA_Resign \<Rightarrow> True | SA_Count \<Rightarrow> False)"

definition isValid_status :: "net_status \<Rightarrow> bool" where
  "isValid_status s = (case s of NS_Active \<Rightarrow> True | NS_BlackWin \<Rightarrow> True | NS_WhiteWin \<Rightarrow> True
     | NS_Draw \<Rightarrow> True | NS_Count \<Rightarrow> False)"

subsection \<open>The JSON library\<close>

text \<open>
  Building: \<open>j[key] = v\<close> on an object or on the null value a \<open>json\<close> starts as, the conversions from
  \<open>unsigned\<close> (kept in 64 bits), \<open>double\<close> and \<open>std::string\<close>, \<open>json::array()\<close>, \<open>push_back\<close>, and the list of
  two numbers. Text: \<open>dump\<close>, and \<open>parse\<close> without exceptions, whose result on malformed text is a
  discarded value. Reading: the type tests, \<open>contains\<close>, \<open>operator[]\<close>, \<open>get\<close>, and the elements of an
  array in order.
\<close>

record 'j json_api =
  js_null :: 'j
  js_set :: "'j \<Rightarrow> string \<Rightarrow> 'j \<Rightarrow> 'j"
  js_unsigned :: "u64 \<Rightarrow> 'j"
  js_double :: "double_bits \<Rightarrow> 'j"
  js_string :: "string \<Rightarrow> 'j"
  js_array :: 'j
  js_push :: "'j \<Rightarrow> 'j \<Rightarrow> 'j"
  js_pair :: "'j \<Rightarrow> 'j \<Rightarrow> 'j"
  js_dump :: "'j \<Rightarrow> string option"
  js_parse :: "string \<Rightarrow> 'j"
  js_is_object :: "'j \<Rightarrow> bool"
  js_is_array :: "'j \<Rightarrow> bool"
  js_is_string :: "'j \<Rightarrow> bool"
  js_is_number :: "'j \<Rightarrow> bool"
  js_is_number_unsigned :: "'j \<Rightarrow> bool"
  js_contains :: "'j \<Rightarrow> string \<Rightarrow> bool"
  js_member :: "'j \<Rightarrow> string \<Rightarrow> 'j option"
  js_get_string :: "'j \<Rightarrow> string option"
  js_get_u64 :: "'j \<Rightarrow> u64 option"
  js_get_double :: "'j \<Rightarrow> double_bits option"
  js_elems :: "'j \<Rightarrow> 'j list option"

text \<open>The values that text can carry: strings must be well-formed UTF-8 and numbers finite.\<close>

inductive json_doc :: "'j json_api \<Rightarrow> (string \<Rightarrow> bool) \<Rightarrow> (double_bits \<Rightarrow> bool) \<Rightarrow> 'j \<Rightarrow> bool"
  for J utf8 fin where
  null: "json_doc J utf8 fin (js_null J)"
| set: "json_doc J utf8 fin j \<Longrightarrow> utf8 k \<Longrightarrow> json_doc J utf8 fin v \<Longrightarrow> json_doc J utf8 fin (js_set J j k v)"
| unsigned: "json_doc J utf8 fin (js_unsigned J n)"
| double: "fin d \<Longrightarrow> json_doc J utf8 fin (js_double J d)"
| string: "utf8 s \<Longrightarrow> json_doc J utf8 fin (js_string J s)"
| array: "json_doc J utf8 fin (js_array J)"
| push: "json_doc J utf8 fin j \<Longrightarrow> json_doc J utf8 fin v \<Longrightarrow> json_doc J utf8 fin (js_push J j v)"
| pair: "json_doc J utf8 fin a \<Longrightarrow> json_doc J utf8 fin b \<Longrightarrow> json_doc J utf8 fin (js_pair J a b)"

definition is_doc :: "'j json_api \<Rightarrow> 'j \<Rightarrow> bool" where
  "is_doc J j \<longleftrightarrow> j = js_null J \<or> js_is_object J j"

definition json_laws :: "'j json_api \<Rightarrow> (string \<Rightarrow> bool) \<Rightarrow> (double_bits \<Rightarrow> bool) \<Rightarrow> bool" where
  "json_laws J utf8 fin \<longleftrightarrow>
     (\<forall>k. \<not> js_contains J (js_null J) k) \<and>
     (\<forall>j k v. is_doc J j \<longrightarrow> js_is_object J (js_set J j k v) \<and>
        (\<forall>l. js_contains J (js_set J j k v) l \<longleftrightarrow> l = k \<or> js_contains J j l) \<and>
        (\<forall>l. js_member J (js_set J j k v) l = (if l = k then Some v else js_member J j l))) \<and>
     (\<forall>j k. js_contains J j k \<longrightarrow> js_member J j k \<noteq> None) \<and>
     (\<forall>s. js_is_string J (js_string J s) \<and> js_get_string J (js_string J s) = Some s) \<and>
     (\<forall>n. js_is_number_unsigned J (js_unsigned J n) \<and> js_get_u64 J (js_unsigned J n) = Some n) \<and>
     (\<forall>d. js_is_number J (js_double J d) \<and> js_get_double J (js_double J d) = Some d) \<and>
     js_is_array J (js_array J) \<and> js_elems J (js_array J) = Some [] \<and>
     (\<forall>j v es. js_is_array J j \<longrightarrow> js_elems J j = Some es \<longrightarrow>
        js_is_array J (js_push J j v) \<and> js_elems J (js_push J j v) = Some (es @ [v])) \<and>
     (\<forall>m n. js_is_array J (js_pair J (js_unsigned J m) (js_unsigned J n)) \<and>
        js_elems J (js_pair J (js_unsigned J m) (js_unsigned J n)) = Some [js_unsigned J m, js_unsigned J n]) \<and>
     (\<forall>j. js_is_string J j \<longrightarrow> js_get_string J j \<noteq> None) \<and>
     (\<forall>j. js_is_number_unsigned J j \<longrightarrow> js_get_u64 J j \<noteq> None) \<and>
     (\<forall>j. js_is_number J j \<longrightarrow> js_get_double J j \<noteq> None) \<and>
     (\<forall>j. js_is_array J j \<longrightarrow> js_elems J j \<noteq> None) \<and>
     (\<forall>s. (\<forall>c \<in> set s. of_char c < (128::nat)) \<longrightarrow> utf8 s) \<and>
     \<not> js_is_object J (js_parse J []) \<and>
     (\<forall>s k v t. js_member J (js_parse J s) k = Some v \<longrightarrow> js_get_string J v = Some t \<longrightarrow> utf8 t) \<and>
     (\<forall>j. json_doc J utf8 fin j \<longrightarrow> (\<exists>s. js_dump J j = Some s \<and> s \<noteq> [] \<and> js_parse J s = j))"

subsection \<open>Writing\<close>

definition js_u32 :: "'j json_api \<Rightarrow> u32 \<Rightarrow> 'j" where
  "js_u32 J n = js_unsigned J (ucast n)"

definition toMessage_client :: "'j json_api \<Rightarrow> client_event \<Rightarrow> message option" where
  "toMessage_client J e =
     (case e of
        ClientPutStone c \<Rightarrow>
          (let j = js_set J (js_null J) ''type'' (js_string J ''put'');
               j = js_set J j ''x'' (js_u32 J (coord_x c));
               j = js_set J j ''y'' (js_u32 J (coord_y c))
           in js_dump J j)
      | ClientPass \<Rightarrow> js_dump J (js_set J (js_null J) ''type'' (js_string J ''pass''))
      | ClientResign \<Rightarrow> js_dump J (js_set J (js_null J) ''type'' (js_string J ''resign''))
      | ClientChat m \<Rightarrow>
          (let j = js_set J (js_null J) ''type'' (js_string J ''chat'');
               j = js_set J j ''message'' (js_string J m)
           in js_dump J j))"

definition message_SessionAssign :: "'j json_api \<Rightarrow> u32 \<Rightarrow> message option" where
  "message_SessionAssign J sessionId =
     (let j = js_set J (js_null J) ''type'' (js_string J ''session'');
          j = js_set J j ''sessionId'' (js_u32 J sessionId)
      in js_dump J j)"

definition message_GameConfig :: "'j json_api \<Rightarrow> server_game_config \<Rightarrow> message option" where
  "message_GameConfig J e =
     (let j = js_set J (js_null J) ''type'' (js_string J ''config'');
          j = js_set J j ''boardSize'' (js_u32 J (sg_boardSize e));
          j = js_set J j ''komi'' (js_double J (sg_komi e));
          j = js_set J j ''time'' (js_u32 J (sg_timeSeconds e))
      in js_dump J j)"

definition message_Delta :: "'j json_api \<Rightarrow> server_delta \<Rightarrow> message option" where
  "message_Delta J e =
     (let j = js_set J (js_null J) ''type'' (js_string J ''delta'');
          j = js_set J j ''turn'' (js_u32 J (sd_turn e));
          j = js_set J j ''seat'' (js_u32 J (ucast (seat_value (sd_seat e))));
          j = js_set J j ''action'' (js_u32 J (ucast (action_value (sd_action e))));
          j = js_set J j ''next'' (js_u32 J (ucast (seat_value (sd_next e))));
          j = js_set J j ''status'' (js_u32 J (ucast (status_value (sd_status e))))
      in if sd_action e = SA_Place
         then (case sd_coord e of
                 None \<Rightarrow> None
               | Some c \<Rightarrow>
                   (let j = js_set J j ''x'' (js_u32 J (coord_x c));
                        j = js_set J j ''y'' (js_u32 J (coord_y c));
                        j = (if sd_captures e \<noteq> []
                             then let caps = fold (\<lambda>cap a. js_push J a
                                               (js_pair J (js_u32 J (coord_x cap)) (js_u32 J (coord_y cap))))
                                             (sd_captures e) (js_array J)
                                  in js_set J j ''captures'' caps
                             else j)
                    in js_dump J j))
         else js_dump J j)"

definition message_Chat :: "'j json_api \<Rightarrow> server_chat \<Rightarrow> message option" where
  "message_Chat J e =
     (let j = js_set J (js_null J) ''type'' (js_string J ''chat'');
          j = js_set J j ''player'' (js_u32 J (case sh_player e of PBlack \<Rightarrow> 1 | PWhite \<Rightarrow> 2));
          j = js_set J j ''messageId'' (js_u32 J (sh_messageId e));
          j = js_set J j ''message'' (js_string J (sh_message e))
      in js_dump J j)"

definition toMessage_server :: "'j json_api \<Rightarrow> server_event \<Rightarrow> message option" where
  "toMessage_server J e =
     (case e of ServerSessionAssign i \<Rightarrow> message_SessionAssign J i
      | ServerGameConfig c \<Rightarrow> message_GameConfig J c
      | ServerDelta d \<Rightarrow> message_Delta J d
      | ServerChat c \<Rightarrow> message_Chat J c)"

subsection \<open>Reading\<close>

text \<open>\<open>j.contains(k) && j[k].is_...()\<close>, and the value \<open>j[k].get<unsigned>()\<close>, which drops the high bits of a
  number beyond 32 bits.\<close>

definition has :: "'j json_api \<Rightarrow> ('j \<Rightarrow> bool) \<Rightarrow> 'j \<Rightarrow> string \<Rightarrow> bool option" where
  "has J is_kind j k = (if js_contains J j k then map_option is_kind (js_member J j k) else Some False)"

fun has_all :: "'j json_api \<Rightarrow> ('j \<Rightarrow> bool) \<Rightarrow> 'j \<Rightarrow> string list \<Rightarrow> bool option" where
  "has_all J is_kind j [] = Some True"
| "has_all J is_kind j (k # ks) = do {
     ok \<leftarrow> has J is_kind j k;
     if ok then has_all J is_kind j ks else Some False
   }"

definition get_u32 :: "'j json_api \<Rightarrow> 'j \<Rightarrow> u32 option" where
  "get_u32 J v = map_option ucast (js_get_u64 J v)"

definition member_u32 :: "'j json_api \<Rightarrow> 'j \<Rightarrow> string \<Rightarrow> u32 option" where
  "member_u32 J j k = do { v \<leftarrow> js_member J j k; get_u32 J v }"

definition member_string :: "'j json_api \<Rightarrow> 'j \<Rightarrow> string \<Rightarrow> string option" where
  "member_string J j k = do { v \<leftarrow> js_member J j k; js_get_string J v }"

definition fromClientMessage :: "'j json_api \<Rightarrow> message \<Rightarrow> client_event option option" where
  "fromClientMessage J msg =
     (let j = js_parse J msg
      in if \<not> js_is_object J j then Some None
         else do {
           typed \<leftarrow> has J (js_is_string J) j ''type'';
           if \<not> typed then Some None
           else do {
             type \<leftarrow> member_string J j ''type'';
             if type = ''put'' then do {
               ok \<leftarrow> has_all J (js_is_number_unsigned J) j [''x'', ''y''];
               if \<not> ok then Some None
               else do {
                 cx \<leftarrow> member_u32 J j ''x'';
                 cy \<leftarrow> member_u32 J j ''y'';
                 Some (Some (ClientPutStone (Coord cx cy)))
               }
             }
             else if type = ''pass'' then Some (Some ClientPass)
             else if type = ''resign'' then Some (Some ClientResign)
             else if type = ''chat'' then do {
               ok \<leftarrow> has J (js_is_string J) j ''message'';
               if \<not> ok then Some None
               else do { m \<leftarrow> member_string J j ''message''; Some (Some (ClientChat m)) }
             }
             else Some None
           }
         })"

text \<open>The loop over \<open>captures\<close>.\<close>

definition capture_ok :: "'j json_api \<Rightarrow> 'j \<Rightarrow> bool option" where
  "capture_ok J cap =
     (if \<not> js_is_array J cap then Some False
      else do {
        es \<leftarrow> js_elems J cap;
        Some (length es = 2 \<and> js_is_number_unsigned J (es ! 0) \<and> js_is_number_unsigned J (es ! 1))
      })"

fun read_captures :: "'j json_api \<Rightarrow> 'j list \<Rightarrow> coord list \<Rightarrow> coord list option option" where
  "read_captures J [] acc = Some (Some acc)"
| "read_captures J (cap # caps) acc = do {
     ok \<leftarrow> capture_ok J cap;
     if \<not> ok then Some None
     else do {
       es \<leftarrow> js_elems J cap;
       cx \<leftarrow> get_u32 J (es ! 0);
       cy \<leftarrow> get_u32 J (es ! 1);
       read_captures J caps (acc @ [Coord cx cy])
     }
   }"

definition fromServerDeltaMessage :: "'j json_api \<Rightarrow> 'j \<Rightarrow> server_event option option" where
  "fromServerDeltaMessage J j = do {
     ok \<leftarrow> has_all J (js_is_number_unsigned J) j [''turn'', ''seat'', ''action'', ''next'', ''status''];
     if \<not> ok then Some None
     else do {
       actionValue \<leftarrow> member_u32 J j ''action'';
       statusValue \<leftarrow> member_u32 J j ''status'';
       case (cast_action actionValue, cast_status statusValue) of
         (Some action, Some status) \<Rightarrow>
           if \<not> isValid_action action \<or> \<not> isValid_status status then Some None
           else do {
             turn \<leftarrow> member_u32 J j ''turn'';
             seatValue \<leftarrow> member_u32 J j ''seat'';
             nextValue \<leftarrow> member_u32 J j ''next'';
             case (cast_seat seatValue, cast_seat nextValue) of
               (Some st, Some nx) \<Rightarrow>
                 if \<not> isPlayer st \<or> \<not> isPlayer nx then Some None
                 else
                   let delta = \<lparr>sd_turn = turn, sd_seat = st, sd_action = action, sd_coord = None,
                                sd_captures = [], sd_next = nx, sd_status = status\<rparr>
                   in if action = SA_Place
                      then do {
                        ok \<leftarrow> has_all J (js_is_number_unsigned J) j [''x'', ''y''];
                        if \<not> ok then Some None
                        else do {
                          cx \<leftarrow> member_u32 J j ''x'';
                          cy \<leftarrow> member_u32 J j ''y'';
                          let delta = delta\<lparr>sd_coord := Some (Coord cx cy)\<rparr>;
                          if js_contains J j ''captures''
                          then do {
                            arr \<leftarrow> js_member J j ''captures'';
                            if \<not> js_is_array J arr then Some None
                            else do {
                              es \<leftarrow> js_elems J arr;
                              caps \<leftarrow> read_captures J es [];
                              Some (map_option (\<lambda>cs. ServerDelta (delta\<lparr>sd_captures := cs\<rparr>)) caps)
                            }
                          }
                          else Some (Some (ServerDelta delta))
                        }
                      }
                      else if js_contains J j ''x'' \<or> js_contains J j ''y'' \<or> js_contains J j ''captures''
                      then Some None
                      else Some (Some (ServerDelta delta))
             | _ \<Rightarrow> Some None
           }
       | _ \<Rightarrow> Some None
     }
   }"

definition fromServerMessage :: "'j json_api \<Rightarrow> message \<Rightarrow> server_event option option" where
  "fromServerMessage J msg =
     (let j = js_parse J msg
      in if \<not> js_is_object J j then Some None
         else do {
           typed \<leftarrow> has J (js_is_string J) j ''type'';
           if \<not> typed then Some None
           else do {
             type \<leftarrow> member_string J j ''type'';
             if type = ''session'' then do {
               ok \<leftarrow> has J (js_is_number_unsigned J) j ''sessionId'';
               if \<not> ok then Some None
               else do { i \<leftarrow> member_u32 J j ''sessionId''; Some (Some (ServerSessionAssign i)) }
             }
             else if type = ''config'' then do {
               ok1 \<leftarrow> has_all J (js_is_number_unsigned J) j [''boardSize'', ''time''];
               ok2 \<leftarrow> has J (js_is_number J) j ''komi'';
               if \<not> ok1 \<or> \<not> ok2 then Some None
               else do {
                 size \<leftarrow> member_u32 J j ''boardSize'';
                 kv \<leftarrow> js_member J j ''komi'';
                 komi \<leftarrow> js_get_double J kv;
                 time \<leftarrow> member_u32 J j ''time'';
                 Some (Some (ServerGameConfig \<lparr>sg_boardSize = size, sg_komi = komi, sg_timeSeconds = time\<rparr>))
               }
             }
             else if type = ''delta'' then fromServerDeltaMessage J j
             else if type = ''chat'' then do {
               ok1 \<leftarrow> has_all J (js_is_number_unsigned J) j [''player'', ''messageId''];
               ok2 \<leftarrow> has J (js_is_string J) j ''message'';
               if \<not> ok1 \<or> \<not> ok2 then Some None
               else do {
                 pl \<leftarrow> member_u32 J j ''player'';
                 if pl \<noteq> 1 \<and> pl \<noteq> 2 then Some None
                 else do {
                   i \<leftarrow> member_u32 J j ''messageId'';
                   m \<leftarrow> member_string J j ''message'';
                   Some (Some (ServerChat \<lparr>sh_player = (if pl = 1 then PBlack else PWhite),
                     sh_messageId = i, sh_message = m\<rparr>))
                 }
               }
             }
             else Some None
           }
         })"

subsection \<open>Reading never faults\<close>

lemma empty_message:
  "json_laws J utf8 fin \<Longrightarrow> fromServerMessage J [] = Some None"
  "json_laws J utf8 fin \<Longrightarrow> fromClientMessage J [] = Some None"
  by (simp_all add: json_laws_def fromServerMessage_def fromClientMessage_def)

lemma member_defined:
  assumes "json_laws J utf8 fin" "js_contains J j k"
  shows "js_member J j k \<noteq> None"
  using assms by (simp add: json_laws_def)

text \<open>A computation returns when its parts do.\<close>

lemma total_bind: "x \<noteq> None \<Longrightarrow> (\<And>a. x = Some a \<Longrightarrow> f a \<noteq> None) \<Longrightarrow> Option.bind x f \<noteq> None"
  by (cases x) auto

lemma total_if: "(P \<Longrightarrow> x \<noteq> None) \<Longrightarrow> (\<not> P \<Longrightarrow> y \<noteq> None) \<Longrightarrow> (if P then x else y) \<noteq> None"
  by simp

lemma total_case:
  "(\<And>a. x = Some a \<Longrightarrow> f a \<noteq> None) \<Longrightarrow> z \<noteq> None \<Longrightarrow> (case x of None \<Rightarrow> z | Some a \<Rightarrow> f a) \<noteq> None"
  by (cases x) auto

lemmas total_intros = total_bind total_if total_case option.distinct(2)

lemma total_has: "json_laws J utf8 fin \<Longrightarrow> has J p j k \<noteq> None"
  using member_defined [of J utf8 fin j k] by (auto simp: has_def)

lemma total_has_all: "json_laws J utf8 fin \<Longrightarrow> has_all J p j ks \<noteq> None"
proof (induction ks)
  case (Cons k ks)
  show ?case unfolding has_all.simps
    by (intro total_intros total_has [OF Cons.prems] Cons.IH [OF Cons.prems])
qed simp

lemma has_True: "has J p j k = Some True \<Longrightarrow> \<exists>v. js_contains J j k \<and> js_member J j k = Some v \<and> p v"
  by (auto simp: has_def split: if_splits)

lemma has_all_True: "has_all J p j ks = Some True \<Longrightarrow> k \<in> set ks \<Longrightarrow> has J p j k = Some True"
  by (induction ks) (auto split: bind_splits if_splits)

lemma total_u32: "json_laws J utf8 fin \<Longrightarrow> js_is_number_unsigned J v \<Longrightarrow> get_u32 J v \<noteq> None"
  by (simp add: json_laws_def get_u32_def)

lemma total_member_u32:
  "json_laws J utf8 fin \<Longrightarrow> has J (js_is_number_unsigned J) j k = Some True \<Longrightarrow> member_u32 J j k \<noteq> None"
  using total_u32 by (fastforce dest!: has_True simp: member_u32_def)

lemma total_members_u32:
  "json_laws J utf8 fin \<Longrightarrow> has_all J (js_is_number_unsigned J) j ks = Some True \<Longrightarrow> k \<in> set ks \<Longrightarrow>
    member_u32 J j k \<noteq> None"
  by (rule total_member_u32 [OF _ has_all_True])

lemma total_member_string:
  "json_laws J utf8 fin \<Longrightarrow> has J (js_is_string J) j k = Some True \<Longrightarrow> member_string J j k \<noteq> None"
  by (auto dest!: has_True simp: member_string_def json_laws_def)

lemma total_member_double:
  "json_laws J utf8 fin \<Longrightarrow> has J (js_is_number J) j k = Some True \<Longrightarrow> js_member J j k = Some v \<Longrightarrow>
    js_get_double J v \<noteq> None"
  by (auto dest!: has_True simp: json_laws_def)

lemma fromClientMessage_total:
  assumes laws: "json_laws J utf8 fin"
  shows "fromClientMessage J msg \<noteq> None"
  unfolding fromClientMessage_def Let_def
  by (intro total_intros total_has [OF laws] total_has_all [OF laws])
     (simp_all add: total_members_u32 [OF laws] total_member_string [OF laws] del: has_all.simps not_None_eq)

lemma read_captures_total:
  assumes laws: "json_laws J utf8 fin"
  shows "read_captures J caps acc \<noteq> None"
proof (induction caps arbitrary: acc)
  case (Cons cap caps)
  have ok: "capture_ok J cap \<noteq> None" using laws by (auto simp: capture_ok_def json_laws_def)
  have yes: "js_is_array J cap \<and> (\<forall>es. js_elems J cap = Some es \<longrightarrow>
      js_is_number_unsigned J (es ! 0) \<and> js_is_number_unsigned J (es ! 1))"
    if "capture_ok J cap = Some True"
    using that by (auto simp: capture_ok_def split: if_splits bind_splits)
  have els: "js_is_array J cap \<Longrightarrow> js_elems J cap \<noteq> None" using laws by (simp add: json_laws_def)
  show ?case unfolding read_captures.simps
    by (intro total_intros ok Cons.IH) (use yes els total_u32 [OF laws] in \<open>auto simp del: not_None_eq\<close>)
qed simp

lemma fromServerDeltaMessage_total:
  assumes laws: "json_laws J utf8 fin"
  shows "fromServerDeltaMessage J j \<noteq> None"
  unfolding fromServerDeltaMessage_def Let_def prod.case
  by (intro total_intros total_has [OF laws] total_has_all [OF laws] read_captures_total [OF laws])
     (simp_all add: total_members_u32 [OF laws] member_defined [OF laws] del: has_all.simps not_None_eq,
      (insert laws, simp_all add: json_laws_def del: not_None_eq)?)

lemma fromServerMessage_total:
  assumes laws: "json_laws J utf8 fin"
  shows "fromServerMessage J msg \<noteq> None"
  unfolding fromServerMessage_def Let_def
  by (intro total_intros total_has [OF laws] total_has_all [OF laws] fromServerDeltaMessage_total [OF laws])
     (auto simp: total_members_u32 [OF laws] total_member_u32 [OF laws] total_member_string [OF laws]
       total_member_double [OF laws] simp del: has_all.simps not_None_eq dest!: has_True)

subsection \<open>Round trips\<close>

text \<open>What the readers see of an object built by assignments.\<close>

lemma doc_set:
  assumes "json_laws J utf8 fin" "is_doc J j"
  shows "is_doc J (js_set J j k v)" "js_is_object J (js_set J j k v)"
    "js_contains J (js_set J j k v) l \<longleftrightarrow> l = k \<or> js_contains J j l"
    "has J p (js_set J j k v) l = (if l = k then Some (p v) else has J p j l)"
    "member_u32 J (js_set J j k v) l = (if l = k then get_u32 J v else member_u32 J j l)"
    "member_string J (js_set J j k v) l = (if l = k then js_get_string J v else member_string J j l)"
    "js_member J (js_set J j k v) l = (if l = k then Some v else js_member J j l)"
proof -
  have 1: "js_is_object J (js_set J j k v)" "js_contains J (js_set J j k v) l \<longleftrightarrow> l = k \<or> js_contains J j l"
    "js_member J (js_set J j k v) l = (if l = k then Some v else js_member J j l)" for l
    using assms by (simp_all add: json_laws_def)
  then show "is_doc J (js_set J j k v)" "js_is_object J (js_set J j k v)"
    "js_contains J (js_set J j k v) l \<longleftrightarrow> l = k \<or> js_contains J j l"
    "has J p (js_set J j k v) l = (if l = k then Some (p v) else has J p j l)"
    "member_u32 J (js_set J j k v) l = (if l = k then get_u32 J v else member_u32 J j l)"
    "member_string J (js_set J j k v) l = (if l = k then js_get_string J v else member_string J j l)"
    "js_member J (js_set J j k v) l = (if l = k then Some v else js_member J j l)"
    by (simp_all add: is_doc_def has_def member_u32_def member_string_def)
qed

lemma doc_null:
  assumes "json_laws J utf8 fin"
  shows "is_doc J (js_null J)" "\<not> js_contains J (js_null J) k" "has J p (js_null J) k = Some False"
  using assms by (simp_all add: json_laws_def is_doc_def has_def)

lemma ucast_back [simp]: "(ucast (ucast (n :: u32) :: u64) :: u32) = n"
  by (rule bit_word_eqI) (auto simp: bit_simps)

lemma doc_values:
  assumes "json_laws J utf8 fin"
  shows "js_is_number_unsigned J (js_u32 J n)" "get_u32 J (js_u32 J n) = Some n"
    "js_is_string J (js_string J s)" "js_get_string J (js_string J s) = Some s"
    "js_is_number J (js_double J d)" "js_get_double J (js_double J d) = Some d"
  using assms by (simp_all add: json_laws_def js_u32_def get_u32_def)

lemma doc_text:
  assumes "json_laws J utf8 fin" "json_doc J utf8 fin j"
  obtains s where "js_dump J j = Some s" "s \<noteq> []" "js_parse J s = j"
  using assms by (auto simp: json_laws_def)

lemma utf8_ascii: "json_laws J utf8 fin \<Longrightarrow> \<forall>c \<in> set s. of_char c < (128::nat) \<Longrightarrow> utf8 s"
  by (simp add: json_laws_def)

lemma doc_u32: "json_doc J utf8 fin (js_u32 J n)"
  by (simp add: js_u32_def json_doc.unsigned)

lemma doc_key:
  "json_laws J utf8 fin \<Longrightarrow> json_doc J utf8 fin j \<Longrightarrow> json_doc J utf8 fin v \<Longrightarrow>
    \<forall>c \<in> set k. of_char c < (128::nat) \<Longrightarrow> json_doc J utf8 fin (js_set J j k v)"
  using json_doc.set [of J utf8 fin j k v] utf8_ascii [of J utf8 fin k] by blast

lemma doc_ascii_string:
  "json_laws J utf8 fin \<Longrightarrow> \<forall>c \<in> set s. of_char c < (128::nat) \<Longrightarrow> json_doc J utf8 fin (js_string J s)"
  using json_doc.string [of utf8 s J fin] utf8_ascii [of J utf8 fin s] by blast

lemmas doc_intros = doc_key doc_ascii_string json_doc.null doc_u32

fun client_event_ok :: "(string \<Rightarrow> bool) \<Rightarrow> client_event \<Rightarrow> bool" where
  "client_event_ok utf8 (ClientChat m) = utf8 m"
| "client_event_ok utf8 _ = True"

lemma client_roundtrip:
  assumes laws: "json_laws J utf8 fin" and ok: "client_event_ok utf8 e"
  shows "\<exists>s. toMessage_client J e = Some s \<and> s \<noteq> [] \<and> fromClientMessage J s = Some (Some e)"
proof -
  note rules = doc_set [OF laws] doc_null [OF laws] doc_values [OF laws]
  show ?thesis
  proof (cases e)
    case (ClientPutStone c)
    let ?j = "js_set J (js_set J (js_set J (js_null J) ''type'' (js_string J ''put''))
      ''x'' (js_u32 J (coord_x c))) ''y'' (js_u32 J (coord_y c))"
    have "json_doc J utf8 fin ?j" using laws by (intro doc_intros) simp_all
    with laws obtain s where s: "js_dump J ?j = Some s" "s \<noteq> []" "js_parse J s = ?j" by (rule doc_text)
    have "fromClientMessage J s = Some (Some e)"
      by (simp add: fromClientMessage_def s(3) ClientPutStone rules Let_def)
    with s show ?thesis by (simp add: toMessage_client_def ClientPutStone Let_def)
  next
    case ClientPass
    let ?j = "js_set J (js_null J) ''type'' (js_string J ''pass'')"
    have "json_doc J utf8 fin ?j" using laws by (intro doc_intros) simp_all
    with laws obtain s where s: "js_dump J ?j = Some s" "s \<noteq> []" "js_parse J s = ?j" by (rule doc_text)
    have "fromClientMessage J s = Some (Some e)"
      by (simp add: fromClientMessage_def s(3) ClientPass rules Let_def)
    with s show ?thesis by (simp add: toMessage_client_def ClientPass)
  next
    case ClientResign
    let ?j = "js_set J (js_null J) ''type'' (js_string J ''resign'')"
    have "json_doc J utf8 fin ?j" using laws by (intro doc_intros) simp_all
    with laws obtain s where s: "js_dump J ?j = Some s" "s \<noteq> []" "js_parse J s = ?j" by (rule doc_text)
    have "fromClientMessage J s = Some (Some e)"
      by (simp add: fromClientMessage_def s(3) ClientResign rules Let_def)
    with s show ?thesis by (simp add: toMessage_client_def ClientResign)
  next
    case (ClientChat m)
    let ?j = "js_set J (js_set J (js_null J) ''type'' (js_string J ''chat'')) ''message'' (js_string J m)"
    have m: "json_doc J utf8 fin (js_string J m)" using ok ClientChat by (simp add: json_doc.string)
    have i: "json_doc J utf8 fin (js_set J (js_null J) ''type'' (js_string J ''chat''))"
      using laws by (intro doc_intros) simp_all
    have "json_doc J utf8 fin ?j" using doc_key [OF laws i m, of "''message''"] by simp
    with laws obtain s where s: "js_dump J ?j = Some s" "s \<noteq> []" "js_parse J s = ?j" by (rule doc_text)
    have "fromClientMessage J s = Some (Some e)"
      by (simp add: fromClientMessage_def s(3) ClientChat rules Let_def)
    with s show ?thesis by (simp add: toMessage_client_def ClientChat Let_def)
  qed
qed

text \<open>The array of captures.\<close>

definition js_captures :: "'j json_api \<Rightarrow> coord list \<Rightarrow> 'j" where
  "js_captures J cs = fold (\<lambda>cap a. js_push J a (js_pair J (js_u32 J (coord_x cap)) (js_u32 J (coord_y cap))))
     cs (js_array J)"

lemma js_captures_elems:
  assumes laws: "json_laws J utf8 fin"
  shows "json_doc J utf8 fin (js_captures J cs) \<and> js_is_array J (js_captures J cs) \<and>
    js_elems J (js_captures J cs) = Some (map (\<lambda>c. js_pair J (js_u32 J (coord_x c)) (js_u32 J (coord_y c))) cs)"
proof (induction cs rule: rev_induct)
  case Nil
  with laws show ?case by (simp add: js_captures_def json_laws_def json_doc.array)
next
  case (snoc c cs)
  let ?p = "js_pair J (js_u32 J (coord_x c)) (js_u32 J (coord_y c))"
  have "js_captures J (cs @ [c]) = js_push J (js_captures J cs) ?p" by (simp add: js_captures_def)
  moreover have "json_doc J utf8 fin ?p" by (intro json_doc.pair doc_u32)
  ultimately show ?case using snoc laws by (simp add: json_laws_def json_doc.push)
qed

lemma read_captures_back:
  assumes laws: "json_laws J utf8 fin"
  shows "read_captures J (map (\<lambda>c. js_pair J (js_u32 J (coord_x c)) (js_u32 J (coord_y c))) cs) acc =
    Some (Some (acc @ cs))"
proof (induction cs arbitrary: acc)
  case (Cons c cs)
  have "js_is_array J (js_pair J (js_u32 J (coord_x c)) (js_u32 J (coord_y c)))"
    "js_elems J (js_pair J (js_u32 J (coord_x c)) (js_u32 J (coord_y c))) =
      Some [js_u32 J (coord_x c), js_u32 J (coord_y c)]"
    using laws by (simp_all add: json_laws_def js_u32_def)
  with Cons show ?case by (simp add: capture_ok_def doc_values [OF laws])
qed simp

text \<open>A delta that the server sends: real players, a real action and status, and a coordinate just for a
  placement.\<close>

definition delta_ok :: "server_delta \<Rightarrow> bool" where
  "delta_ok d \<longleftrightarrow> isPlayer (sd_seat d) \<and> isPlayer (sd_next d) \<and> isValid_action (sd_action d) \<and>
     isValid_status (sd_status d) \<and>
     (if sd_action d = SA_Place then sd_coord d \<noteq> None else sd_coord d = None \<and> sd_captures d = [])"

fun server_event_ok :: "(string \<Rightarrow> bool) \<Rightarrow> (double_bits \<Rightarrow> bool) \<Rightarrow> server_event \<Rightarrow> bool" where
  "server_event_ok utf8 fin (ServerSessionAssign i) = True"
| "server_event_ok utf8 fin (ServerGameConfig c) = fin (sg_komi c)"
| "server_event_ok utf8 fin (ServerDelta d) = delta_ok d"
| "server_event_ok utf8 fin (ServerChat c) = utf8 (sh_message c)"

lemma session_roundtrip:
  assumes laws: "json_laws J utf8 fin"
  shows "\<exists>s. message_SessionAssign J i = Some s \<and> s \<noteq> [] \<and>
    fromServerMessage J s = Some (Some (ServerSessionAssign i))"
proof -
  note rules = doc_set [OF laws] doc_null [OF laws] doc_values [OF laws]
  let ?j = "js_set J (js_set J (js_null J) ''type'' (js_string J ''session'')) ''sessionId'' (js_u32 J i)"
  have "json_doc J utf8 fin ?j" using laws by (intro doc_intros) simp_all
  with laws obtain s where s: "js_dump J ?j = Some s" "s \<noteq> []" "js_parse J s = ?j" by (rule doc_text)
  have "fromServerMessage J s = Some (Some (ServerSessionAssign i))"
    by (simp add: fromServerMessage_def s(3) rules Let_def)
  with s show ?thesis by (simp add: message_SessionAssign_def Let_def)
qed

lemma config_roundtrip:
  assumes laws: "json_laws J utf8 fin" and "fin (sg_komi e)"
  shows "\<exists>s. message_GameConfig J e = Some s \<and> s \<noteq> [] \<and>
    fromServerMessage J s = Some (Some (ServerGameConfig e))"
proof -
  note rules = doc_set [OF laws] doc_null [OF laws] doc_values [OF laws]
  let ?b = "js_set J (js_set J (js_null J) ''type'' (js_string J ''config'')) ''boardSize'' (js_u32 J (sg_boardSize e))"
  let ?j = "js_set J (js_set J ?b ''komi'' (js_double J (sg_komi e))) ''time'' (js_u32 J (sg_timeSeconds e))"
  have b: "json_doc J utf8 fin ?b" using laws by (intro doc_intros) simp_all
  have k: "json_doc J utf8 fin (js_double J (sg_komi e))" using assms(2) by (rule json_doc.double)
  have "json_doc J utf8 fin (js_set J ?b ''komi'' (js_double J (sg_komi e)))"
    using doc_key [OF laws b k, of "''komi''"] by simp
  from doc_key [OF laws this doc_u32, of "''time''"] have "json_doc J utf8 fin ?j" by simp
  with laws obtain s where s: "js_dump J ?j = Some s" "s \<noteq> []" "js_parse J s = ?j" by (rule doc_text)
  have "fromServerMessage J s = Some (Some (ServerGameConfig e))"
    by (simp add: fromServerMessage_def s(3) rules Let_def)
  with s show ?thesis by (simp add: message_GameConfig_def Let_def)
qed

lemma chat_roundtrip:
  assumes laws: "json_laws J utf8 fin" and "utf8 (sh_message e)"
  shows "\<exists>s. message_Chat J e = Some s \<and> s \<noteq> [] \<and> fromServerMessage J s = Some (Some (ServerChat e))"
proof -
  note rules = doc_set [OF laws] doc_null [OF laws] doc_values [OF laws]
  let ?p = "js_u32 J (case sh_player e of PBlack \<Rightarrow> 1 | PWhite \<Rightarrow> 2)"
  let ?b = "js_set J (js_set J (js_set J (js_null J) ''type'' (js_string J ''chat'')) ''player'' ?p)
    ''messageId'' (js_u32 J (sh_messageId e))"
  let ?j = "js_set J ?b ''message'' (js_string J (sh_message e))"
  have b: "json_doc J utf8 fin ?b" using laws by (intro doc_intros) simp_all
  have m: "json_doc J utf8 fin (js_string J (sh_message e))" using assms(2) by (rule json_doc.string)
  from doc_key [OF laws b m, of "''message''"] have "json_doc J utf8 fin ?j" by simp
  with laws obtain s where s: "js_dump J ?j = Some s" "s \<noteq> []" "js_parse J s = ?j" by (rule doc_text)
  have "fromServerMessage J s = Some (Some (ServerChat e))"
    by (cases "sh_player e") (simp_all add: fromServerMessage_def s(3) rules Let_def)
  with s show ?thesis by (simp add: message_Chat_def Let_def)
qed

text \<open>The part of a delta message that all actions have.\<close>

definition js_delta_head :: "'j json_api \<Rightarrow> server_delta \<Rightarrow> 'j" where
  "js_delta_head J e =
     (let j = js_set J (js_null J) ''type'' (js_string J ''delta'');
          j = js_set J j ''turn'' (js_u32 J (sd_turn e));
          j = js_set J j ''seat'' (js_u32 J (ucast (seat_value (sd_seat e))));
          j = js_set J j ''action'' (js_u32 J (ucast (action_value (sd_action e))));
          j = js_set J j ''next'' (js_u32 J (ucast (seat_value (sd_next e))))
      in js_set J j ''status'' (js_u32 J (ucast (status_value (sd_status e)))))"

lemma message_Delta_head:
  "message_Delta J e = (let j = js_delta_head J e in
     if sd_action e = SA_Place
     then (case sd_coord e of
             None \<Rightarrow> None
           | Some c \<Rightarrow>
               (let j = js_set J (js_set J j ''x'' (js_u32 J (coord_x c))) ''y'' (js_u32 J (coord_y c))
                in js_dump J (if sd_captures e \<noteq> [] then js_set J j ''captures'' (js_captures J (sd_captures e)) else j)))
     else js_dump J j)"
  by (auto simp: message_Delta_def js_delta_head_def js_captures_def Let_def split: option.splits)

lemma delta_head:
  assumes laws: "json_laws J utf8 fin"
  shows "json_doc J utf8 fin (js_delta_head J e)" "is_doc J (js_delta_head J e)"
    "js_is_object J (js_delta_head J e)"
    "has J p (js_delta_head J e) ''type'' = Some (p (js_string J ''delta''))"
    "member_string J (js_delta_head J e) ''type'' = Some ''delta''"
    "has J (js_is_number_unsigned J) (js_delta_head J e) ''turn'' = Some True"
    "has J (js_is_number_unsigned J) (js_delta_head J e) ''seat'' = Some True"
    "has J (js_is_number_unsigned J) (js_delta_head J e) ''action'' = Some True"
    "has J (js_is_number_unsigned J) (js_delta_head J e) ''next'' = Some True"
    "has J (js_is_number_unsigned J) (js_delta_head J e) ''status'' = Some True"
    "member_u32 J (js_delta_head J e) ''turn'' = Some (sd_turn e)"
    "member_u32 J (js_delta_head J e) ''seat'' = Some (ucast (seat_value (sd_seat e)))"
    "member_u32 J (js_delta_head J e) ''action'' = Some (ucast (action_value (sd_action e)))"
    "member_u32 J (js_delta_head J e) ''next'' = Some (ucast (seat_value (sd_next e)))"
    "member_u32 J (js_delta_head J e) ''status'' = Some (ucast (status_value (sd_status e)))"
    "\<not> js_contains J (js_delta_head J e) ''x''" "\<not> js_contains J (js_delta_head J e) ''y''"
    "\<not> js_contains J (js_delta_head J e) ''captures''"
proof -
  note rules = doc_set [OF laws] doc_null [OF laws] doc_values [OF laws]
  show "json_doc J utf8 fin (js_delta_head J e)"
    unfolding js_delta_head_def Let_def using laws by (intro doc_intros) simp_all
qed (simp_all add: js_delta_head_def Let_def doc_set [OF laws] doc_null [OF laws] doc_values [OF laws])

text \<open>A delta parsed from an object with the common part and a given rest.\<close>

lemma delta_players: "isPlayer s \<Longrightarrow> s = SeatBlack \<or> s = SeatWhite"
  by (simp add: isPlayer_def)

lemma delta_roundtrip:
  assumes laws: "json_laws J utf8 fin" and ok: "delta_ok e"
  shows "\<exists>s. message_Delta J e = Some s \<and> s \<noteq> [] \<and> fromServerMessage J s = Some (Some (ServerDelta e))"
proof (cases "sd_action e = SA_Place")
  case False
  let ?j = "js_delta_head J e"
  obtain s where s: "js_dump J ?j = Some s" "s \<noteq> []" "js_parse J s = ?j"
    using laws delta_head(1) [OF laws] by (rule doc_text)
  have "fromServerDeltaMessage J ?j = Some (Some (ServerDelta e))"
    using False ok by (simp add: fromServerDeltaMessage_def delta_head [OF laws] delta_ok_def)
  then have "fromServerMessage J s = Some (Some (ServerDelta e))"
    by (simp add: fromServerMessage_def s(3) delta_head [OF laws] doc_values [OF laws] Let_def)
  with s False show ?thesis by (simp add: message_Delta_head Let_def)
next
  case True
  with ok obtain c where c: "sd_coord e = Some c" by (auto simp: delta_ok_def)
  note rules = doc_set [OF laws] doc_values [OF laws] delta_head [OF laws]
  let ?b = "js_set J (js_set J (js_delta_head J e) ''x'' (js_u32 J (coord_x c))) ''y'' (js_u32 J (coord_y c))"
  let ?j = "if sd_captures e \<noteq> [] then js_set J ?b ''captures'' (js_captures J (sd_captures e)) else ?b"
  from doc_key [OF laws delta_head(1) [OF laws] doc_u32, of "''x''"]
  have x: "json_doc J utf8 fin (js_set J (js_delta_head J e) ''x'' (js_u32 J (coord_x c)))" by simp
  from doc_key [OF laws x doc_u32, of "''y''"] have b: "json_doc J utf8 fin ?b" by simp
  have caps: "json_doc J utf8 fin (js_captures J (sd_captures e))" "js_is_array J (js_captures J (sd_captures e))"
    using js_captures_elems [OF laws] by auto
  from doc_key [OF laws b caps(1), of "''captures''"] b have "json_doc J utf8 fin ?j" by simp
  with laws obtain s where s: "js_dump J ?j = Some s" "s \<noteq> []" "js_parse J s = ?j" by (rule doc_text)
  have "fromServerDeltaMessage J ?j = Some (Some (ServerDelta e))"
  proof (cases "sd_captures e = []")
    case True
    then show ?thesis using \<open>sd_action e = SA_Place\<close> c ok
      by (simp add: fromServerDeltaMessage_def rules delta_ok_def)
  next
    case False
    then show ?thesis using \<open>sd_action e = SA_Place\<close> c ok caps(2) js_captures_elems [OF laws, of "sd_captures e"]
      by (simp add: fromServerDeltaMessage_def rules delta_ok_def read_captures_back [OF laws])
  qed
  moreover have "fromServerMessage J s = fromServerDeltaMessage J ?j"
    by (cases "sd_captures e = []") (simp_all add: fromServerMessage_def s(3) rules Let_def)
  ultimately show ?thesis using s True c by (simp add: message_Delta_head Let_def)
qed

lemma server_roundtrip:
  assumes laws: "json_laws J utf8 fin" and ok: "server_event_ok utf8 fin e"
  shows "\<exists>s. toMessage_server J e = Some s \<and> s \<noteq> [] \<and> fromServerMessage J s = Some (Some e)"
proof (cases e)
  case (ServerSessionAssign i)
  then show ?thesis using session_roundtrip [OF laws] by (simp add: toMessage_server_def)
next
  case (ServerGameConfig c)
  with ok show ?thesis using config_roundtrip [OF laws] by (simp add: toMessage_server_def)
next
  case (ServerDelta d)
  with ok show ?thesis using delta_roundtrip [OF laws] by (simp add: toMessage_server_def)
next
  case (ServerChat c)
  with ok show ?thesis using chat_roundtrip [OF laws] by (simp add: toMessage_server_def)
qed

subsection \<open>What a parsed delta can be\<close>

definition post :: "('e \<Rightarrow> bool) \<Rightarrow> 'e option option \<Rightarrow> bool" where
  "post Q r \<longleftrightarrow> (\<forall>e. r = Some (Some e) \<longrightarrow> Q e)"

lemma post_intros:
  "(\<And>a. x = Some a \<Longrightarrow> post Q (f a)) \<Longrightarrow> post Q (Option.bind x f)"
  "(P \<Longrightarrow> post Q r) \<Longrightarrow> (\<not> P \<Longrightarrow> post Q r') \<Longrightarrow> post Q (if P then r else r')"
  "(\<And>a. y = Some a \<Longrightarrow> post Q (g a)) \<Longrightarrow> post Q z \<Longrightarrow> post Q (case y of None \<Rightarrow> z | Some a \<Rightarrow> g a)"
  "post Q (Some None)"
  "(\<And>a. w = Some a \<Longrightarrow> Q (h a)) \<Longrightarrow> post Q (Some (map_option h w))"
  "Q e \<Longrightarrow> post Q (Some (Some e))"
  by (auto simp: post_def split: option.splits bind_splits)

text \<open>A chat message read from the wire is well-formed text, so it can be sent on.\<close>

lemma fromClientMessage_utf8:
  assumes laws: "json_laws J utf8 fin"
  shows "post (client_event_ok utf8) (fromClientMessage J msg)"
proof -
  have u: "utf8 t" if "member_string J (js_parse J msg) k = Some t" for k t
    using that laws by (auto simp: member_string_def bind_eq_Some_conv json_laws_def)
  show ?thesis unfolding fromClientMessage_def Let_def
    by (intro post_intros) (simp_all add: u)
qed

lemma fromServerDelta_ok: "post (\<lambda>e. \<exists>d. e = ServerDelta d \<and> delta_ok d) (fromServerDeltaMessage J j)"
  unfolding fromServerDeltaMessage_def Let_def prod.case
  by (intro post_intros) (simp_all add: delta_ok_def)

lemma fromServerMessage_delta_ok: "post (\<lambda>e. \<forall>d. e = ServerDelta d \<longrightarrow> delta_ok d) (fromServerMessage J msg)"
proof -
  have d: "post (\<lambda>e. \<forall>d. e = ServerDelta d \<longrightarrow> delta_ok d) (fromServerDeltaMessage J j)" for j
    using fromServerDelta_ok [of J j] by (auto simp: post_def)
  show ?thesis unfolding fromServerMessage_def Let_def
    by (intro post_intros d) simp_all
qed

text \<open>Numbers beyond 32 bits are accepted, without their high bits.\<close>

lemma put_truncates:
  assumes laws: "json_laws J utf8 fin"
  shows "\<exists>msg. fromClientMessage J msg = Some (Some (ClientPutStone (Coord (ucast m) (ucast n)))) \<and>
    js_dump J (js_set J (js_set J (js_set J (js_null J) ''type'' (js_string J ''put''))
      ''x'' (js_unsigned J m)) ''y'' (js_unsigned J n)) = Some msg"
proof -
  note rules = doc_set [OF laws] doc_null [OF laws] doc_values [OF laws]
  have u: "js_is_number_unsigned J (js_unsigned J k)" "get_u32 J (js_unsigned J k) = Some (ucast k)"
    "json_doc J utf8 fin (js_unsigned J k)" for k
    using laws by (simp_all add: json_laws_def get_u32_def json_doc.unsigned)
  let ?j = "js_set J (js_set J (js_set J (js_null J) ''type'' (js_string J ''put''))
      ''x'' (js_unsigned J m)) ''y'' (js_unsigned J n)"
  have "json_doc J utf8 fin ?j" using laws by (intro doc_intros u(3)) simp_all
  with laws obtain s where s: "js_dump J ?j = Some s" "s \<noteq> []" "js_parse J s = ?j" by (rule doc_text)
  have "fromClientMessage J s = Some (Some (ClientPutStone (Coord (ucast m) (ucast n))))"
    by (simp add: fromClientMessage_def s(3) rules u Let_def)
  with s(1) show ?thesis by blast
qed

end
