(* ===== verification/Tcp_Connection.thy ===== *)
theory Tcp_Connection imports Protocol begin

text \<open>
  \<open>src/net/core/connection.cpp\<close>: one connection of the server. Its operations and completion handlers
  return the new state and the requests they make, in order: calls of the three callbacks, work posted
  to the strand, asynchronous reads and writes, and the closing of the socket. The transition relation
  \<open>conn_step\<close> puts them together with asio as documented: handlers of the strand run one at a time,
  posted work runs in the order of the posts, an \<open>async_read\<close> or \<open>async_write\<close> completes once, either
  with exactly the bytes asked for or with an error. \<open>None\<close> is a \<open>pop_front\<close> on an empty queue.
\<close>

record connection =
  c_running :: bool
  c_connectionId :: u32
  c_writeQueue :: "message list"
  c_writeInProgress :: bool

datatype conn_io = CB_Connect u32 | CB_Message u32 message | CB_Disconnect u32
  | IO_Close | IO_Post message | IO_Write string message | IO_ReadHeader | IO_ReadPayload u32

definition connection_new :: "u32 \<Rightarrow> connection" where
  "connection_new i =
     \<lparr>c_running = False, c_connectionId = i, c_writeQueue = [], c_writeInProgress = False\<rparr>"

definition conn_startRead :: "connection \<Rightarrow> connection \<times> conn_io list" where
  "conn_startRead c = (c, [IO_ReadHeader])"

definition conn_start :: "connection \<Rightarrow> connection \<times> conn_io list" where
  "conn_start c =
     (if c_running c then (c, [])
      else let (c1, io) = conn_startRead (c\<lparr>c_running := True\<rparr>)
           in (c1, CB_Connect (c_connectionId c) # io))"

definition conn_stop :: "connection \<Rightarrow> connection \<times> conn_io list" where
  "conn_stop c = (if c_running c then (c\<lparr>c_running := False\<rparr>, [IO_Close]) else (c, []))"

definition conn_send :: "connection \<Rightarrow> message \<Rightarrow> connection \<times> conn_io list" where
  "conn_send c msg =
     (if \<not> c_running c \<or> length msg > unat MAX_PAYLOAD_BYTES then (c, []) else (c, [IO_Post msg]))"

definition conn_startWrite :: "bool \<Rightarrow> connection \<Rightarrow> connection \<times> conn_io list" where
  "conn_startWrite big c =
     (if \<not> c_running c \<or> c_writeQueue c = [] then (c\<lparr>c_writeInProgress := False\<rparr>, [])
      else let front = hd (c_writeQueue c)
           in (c\<lparr>c_writeInProgress := True\<rparr>,
               [IO_Write (header_bytes big (to_network_u32 big (of_nat (length front)))) front]))"

text \<open>The work that \<open>send\<close> posts to the strand.\<close>

definition conn_posted :: "bool \<Rightarrow> connection \<Rightarrow> message \<Rightarrow> connection \<times> conn_io list" where
  "conn_posted big c msg =
     (let idle = (c_writeQueue c = []);
          c1 = c\<lparr>c_writeQueue := c_writeQueue c @ [msg]\<rparr>
      in if idle \<and> \<not> c_writeInProgress c1 then conn_startWrite big c1 else (c1, []))"

definition conn_doDisconnect :: "connection \<Rightarrow> connection \<times> conn_io list" where
  "conn_doDisconnect c =
     (if \<not> c_running c then (c, [])
      else (c\<lparr>c_running := False\<rparr>, [IO_Close, CB_Disconnect (c_connectionId c)]))"

definition conn_onWritten :: "bool \<Rightarrow> bool \<Rightarrow> connection \<Rightarrow> (connection \<times> conn_io list) option" where
  "conn_onWritten big ec c =
     (if ec \<or> \<not> c_running c then Some (conn_doDisconnect c)
      else case c_writeQueue c of
             [] \<Rightarrow> None
           | m # rest \<Rightarrow>
               (let c1 = c\<lparr>c_writeQueue := rest\<rparr>
                in Some (if c_writeQueue c1 \<noteq> [] then conn_startWrite big c1
                         else (c1\<lparr>c_writeInProgress := False\<rparr>, []))))"

definition conn_onHeader :: "bool \<Rightarrow> bool \<Rightarrow> string \<Rightarrow> connection \<Rightarrow> connection \<times> conn_io list" where
  "conn_onHeader big ec header c =
     (if ec \<or> \<not> c_running c then conn_doDisconnect c
      else let payloadSize = from_network_u32 big (header_of_bytes big header)
           in if payloadSize > MAX_PAYLOAD_BYTES then conn_doDisconnect c
              else if payloadSize = 0
              then let (c1, io) = conn_startRead c in (c1, CB_Message (c_connectionId c) [] # io)
              else (c, [IO_ReadPayload payloadSize]))"

definition conn_onPayload :: "bool \<Rightarrow> message \<Rightarrow> connection \<Rightarrow> connection \<times> conn_io list" where
  "conn_onPayload ec payload c =
     (if ec \<or> \<not> c_running c then conn_doDisconnect c
      else let (c1, io) = conn_startRead c in (c1, CB_Message (c_connectionId c) payload # io))"

subsection \<open>The connection at work\<close>

text \<open>
  The connection with its environment: work posted but not yet run, writes and reads in flight, the
  bytes received and not yet read, and, for the statements, what was ever received and sent.
\<close>

datatype reading = RHeader | RPayload u32

record conn_world =
  w_conn :: connection
  w_posted :: "message list"
  w_writing :: "(string \<times> message) list"
  w_reading :: "reading list"
  w_unread :: string
  w_received :: string
  w_out :: string
  w_accepted :: "message list"
  w_calls :: "conn_io list"

definition conn_world_new :: "u32 \<Rightarrow> conn_world" where
  "conn_world_new i = \<lparr>w_conn = connection_new i, w_posted = [], w_writing = [], w_reading = [],
     w_unread = [], w_received = [], w_out = [], w_accepted = [], w_calls = []\<rparr>"

fun perform :: "conn_io \<Rightarrow> conn_world \<Rightarrow> conn_world" where
  "perform (IO_Post m) w = w\<lparr>w_posted := w_posted w @ [m], w_accepted := w_accepted w @ [m]\<rparr>"
| "perform (IO_Write h m) w = w\<lparr>w_writing := w_writing w @ [(h, m)]\<rparr>"
| "perform IO_ReadHeader w = w\<lparr>w_reading := w_reading w @ [RHeader]\<rparr>"
| "perform (IO_ReadPayload k) w = w\<lparr>w_reading := w_reading w @ [RPayload k]\<rparr>"
| "perform IO_Close w = w"
| "perform (CB_Connect i) w = w\<lparr>w_calls := w_calls w @ [CB_Connect i]\<rparr>"
| "perform (CB_Message i m) w = w\<lparr>w_calls := w_calls w @ [CB_Message i m]\<rparr>"
| "perform (CB_Disconnect i) w = w\<lparr>w_calls := w_calls w @ [CB_Disconnect i]\<rparr>"

definition enact :: "connection \<times> conn_io list \<Rightarrow> conn_world \<Rightarrow> conn_world" where
  "enact r w = fold perform (snd r) (w\<lparr>w_conn := fst r\<rparr>)"

inductive conn_step :: "bool \<Rightarrow> conn_world \<Rightarrow> conn_world \<Rightarrow> bool" for big where
  start: "w_calls w = [] \<Longrightarrow> conn_step big w (enact (conn_start (w_conn w)) w)"
| stop: "conn_step big w (enact (conn_stop (w_conn w)) w)"
| send: "conn_step big w (enact (conn_send (w_conn w) m) w)"
| posted: "w_posted w = m # ms \<Longrightarrow>
     conn_step big w (enact (conn_posted big (w_conn w) m) (w\<lparr>w_posted := ms\<rparr>))"
| written: "w_writing w = (h, m) # ws \<Longrightarrow> conn_onWritten big False (w_conn w) = Some r \<Longrightarrow>
     conn_step big w (enact r (w\<lparr>w_writing := ws, w_out := w_out w @ h @ m\<rparr>))"
| write_fails: "w_writing w = (h, m) # ws \<Longrightarrow> conn_onWritten big True (w_conn w) = Some r \<Longrightarrow>
     conn_step big w (enact r (w\<lparr>w_writing := ws, w_out := w_out w @ take k (h @ m)\<rparr>))"
| bytes_arrive: "conn_step big w (w\<lparr>w_unread := w_unread w @ bs, w_received := w_received w @ bs\<rparr>)"
| header_read: "w_reading w = RHeader # rs \<Longrightarrow> 4 \<le> length (w_unread w) \<Longrightarrow>
     conn_step big w (enact (conn_onHeader big False (take 4 (w_unread w)) (w_conn w))
       (w\<lparr>w_reading := rs, w_unread := drop 4 (w_unread w)\<rparr>))"
| payload_read: "w_reading w = RPayload k # rs \<Longrightarrow> unat k \<le> length (w_unread w) \<Longrightarrow>
     conn_step big w (enact (conn_onPayload False (take (unat k) (w_unread w)) (w_conn w))
       (w\<lparr>w_reading := rs, w_unread := drop (unat k) (w_unread w)\<rparr>))"
| header_fails: "w_reading w = RHeader # rs \<Longrightarrow>
     conn_step big w (enact (conn_onHeader big True h (w_conn w)) (w\<lparr>w_reading := rs\<rparr>))"
| payload_fails: "w_reading w = RPayload k # rs \<Longrightarrow>
     conn_step big w (enact (conn_onPayload True p (w_conn w)) (w\<lparr>w_reading := rs\<rparr>))"

inductive conn_reach :: "bool \<Rightarrow> u32 \<Rightarrow> conn_world \<Rightarrow> bool" for big i where
  init: "conn_reach big i (conn_world_new i)"
| step: "conn_reach big i w \<Longrightarrow> conn_step big w w' \<Longrightarrow> conn_reach big i w'"

subsection \<open>The invariant\<close>

abbreviation frames :: "message list \<Rightarrow> string" where
  "frames ms \<equiv> concat (map frame ms)"

lemma enact_simps [simp]:
  "w_conn (enact r w) = fst r"
  "w_unread (enact r w) = w_unread w" "w_received (enact r w) = w_received w" "w_out (enact r w) = w_out w"
proof -
  have "w_conn (fold perform io w) = w_conn w \<and> w_unread (fold perform io w) = w_unread w \<and>
      w_received (fold perform io w) = w_received w \<and> w_out (fold perform io w) = w_out w" for io w
  proof (induction io arbitrary: w)
    case (Cons i io)
    then show ?case by (cases i) auto
  qed simp
  then show "w_conn (enact r w) = fst r"
    "w_unread (enact r w) = w_unread w" "w_received (enact r w) = w_received w" "w_out (enact r w) = w_out w"
    by (simp_all add: enact_def)
qed

text \<open>The writer: \<open>ws\<close> are the messages completely written. While the connection runs the queue is not
  empty just when a write is in flight, and it is the write of the message in front.\<close>

definition writer_ok :: "conn_world \<Rightarrow> bool" where
  "writer_ok w \<longleftrightarrow>
     (\<forall>m \<in> set (w_accepted w). fits m) \<and>
     (\<exists>ws tail. w_accepted w = ws @ c_writeQueue (w_conn w) @ w_posted w \<and>
        w_out w = frames ws @ tail \<and> prefix tail (frames (c_writeQueue (w_conn w))) \<and>
        (w_writing w \<noteq> [] \<or> c_running (w_conn w) \<longrightarrow> tail = [])) \<and>
     (w_writing w \<noteq> [] \<longrightarrow> (\<exists>m q. c_writeQueue (w_conn w) = m # q \<and> w_writing w = [(frame_header True m, m)])) \<and>
     (w_writing w \<noteq> [] \<longrightarrow> c_writeInProgress (w_conn w)) \<and>
     (c_running (w_conn w) \<longrightarrow> (c_writeQueue (w_conn w) \<noteq> [] \<longleftrightarrow> w_writing w \<noteq> []) \<and>
        (c_writeInProgress (w_conn w) \<longleftrightarrow> w_writing w \<noteq> [])) \<and>
     (w_calls w = [] \<longrightarrow> \<not> c_running (w_conn w) \<and> w_accepted w = [] \<and> w_out w = [] \<and>
        w_writing w = [] \<and> \<not> c_writeInProgress (w_conn w))"

text \<open>The reader: the callbacks so far, and the bytes received as the frames of the messages delivered,
  then the header being completed by a payload, then the bytes not yet read.\<close>

definition reader_ok :: "bool \<Rightarrow> u32 \<Rightarrow> conn_world \<Rightarrow> bool" where
  "reader_ok big i w \<longleftrightarrow> c_connectionId (w_conn w) = i \<and>
     (w_calls w = [] \<longrightarrow> \<not> c_running (w_conn w) \<and> w_received w = w_unread w \<and> w_reading w = []) \<and>
     (w_calls w \<noteq> [] \<longrightarrow>
        (\<exists>ds z rest. w_calls w = CB_Connect i # map (CB_Message i) ds @ z \<and>
           (\<forall>d \<in> set ds. fits d) \<and> (z = [] \<or> z = [CB_Disconnect i] \<and> \<not> c_running (w_conn w)) \<and>
           w_received w = frames ds @ rest @ w_unread w \<and>
           (c_running (w_conn w) \<longrightarrow>
              w_reading w = [RHeader] \<and> rest = [] \<or>
              (\<exists>k. w_reading w = [RPayload k] \<and> k \<noteq> 0 \<and> k \<le> MAX_PAYLOAD_BYTES \<and> length rest = 4 \<and>
                 from_network_u32 big (header_of_bytes big rest) = k))))"

lemma conn_startWrite_eq:
  "conn_startWrite big c =
     (if \<not> c_running c \<or> c_writeQueue c = [] then (c\<lparr>c_writeInProgress := False\<rparr>, [])
      else (c\<lparr>c_writeInProgress := True\<rparr>,
            [IO_Write (frame_header True (hd (c_writeQueue c))) (hd (c_writeQueue c))]))"
  using frame_header_any [of big] by (simp add: conn_startWrite_def Let_def frame_header_def)

lemma writer_ok_start:
  "writer_ok w \<Longrightarrow> w_calls w = [] \<Longrightarrow> writer_ok (enact (conn_start (w_conn w)) w)"
  by (auto simp: writer_ok_def conn_start_def conn_startRead_def enact_def)

lemma writer_ok_send:
  "writer_ok w \<Longrightarrow> writer_ok (enact (conn_send (w_conn w) m) w)"
  by (auto simp: writer_ok_def conn_send_def enact_def fits_def)

text \<open>Stopping, disconnecting and the reader's requests leave the writer as it is.\<close>

lemma writer_ok_frame:
  assumes "writer_ok w" "w_writing w' = w_writing w" "w_out w' = w_out w" "w_accepted w' = w_accepted w"
    "w_posted w' = w_posted w" "c_writeQueue (w_conn w') = c_writeQueue (w_conn w)"
    "c_writeInProgress (w_conn w') = c_writeInProgress (w_conn w)"
    "c_running (w_conn w') \<longrightarrow> c_running (w_conn w)" "w_calls w' = [] \<longrightarrow> w_calls w = []"
  shows "writer_ok w'"
  using assms unfolding writer_ok_def by (auto 0 4)

lemma writer_ok_posted:
  assumes ok: "writer_ok w" and post: "w_posted w = m # ms"
  shows "writer_ok (enact (conn_posted big (w_conn w) m) (w\<lparr>w_posted := ms\<rparr>))"
proof -
  let ?c = "w_conn w"
  from ok post obtain ws tail where acc: "w_accepted w = ws @ c_writeQueue ?c @ m # ms"
    and out: "w_out w = frames ws @ tail" "prefix tail (frames (c_writeQueue ?c))"
      "w_writing w \<noteq> [] \<or> c_running ?c \<longrightarrow> tail = []" and call: "w_calls w \<noteq> []"
    by (auto simp: writer_ok_def)
  let ?q = "c_writeQueue ?c @ [m]"
  have pre: "w_accepted w = ws @ ?q @ ms" "prefix tail (frames ?q)"
    using acc out(2) by (auto intro: prefix_order.trans)
  show ?thesis
  proof (cases "c_writeQueue ?c = [] \<and> \<not> c_writeInProgress ?c \<and> c_running ?c")
    case True
    with ok pre acc out call show ?thesis
      by (auto simp: writer_ok_def enact_def conn_posted_def conn_startWrite_eq Let_def)
  next
    case False
    then have "enact (conn_posted big ?c m) (w\<lparr>w_posted := ms\<rparr>) =
        w\<lparr>w_posted := ms, w_conn := ?c\<lparr>c_writeQueue := ?q\<rparr>\<rparr>"
      by (auto simp: enact_def conn_posted_def conn_startWrite_eq Let_def)
    moreover have "writer_ok (w\<lparr>w_posted := ms, w_conn := ?c\<lparr>c_writeQueue := ?q\<rparr>\<rparr>)"
      using ok pre out call False by (auto simp: writer_ok_def)
    ultimately show ?thesis by simp
  qed
qed

lemma writer_ok_written:
  assumes ok: "writer_ok w" and wr: "w_writing w = (h, m) # rest"
    and r: "conn_onWritten big False (w_conn w) = Some r"
  shows "writer_ok (enact r (w\<lparr>w_writing := rest, w_out := w_out w @ h @ m\<rparr>))"
proof -
  let ?c = "w_conn w"
  from ok wr obtain q where q: "c_writeQueue ?c = m # q" "rest = []" "h = frame_header True m"
    by (auto simp: writer_ok_def)
  from ok wr q obtain ws where acc: "w_accepted w = ws @ m # q @ w_posted w" "w_out w = frames ws"
    and call: "w_calls w \<noteq> []" by (auto simp: writer_ok_def)
  have hm: "h @ m = frame m" using q(3) by (simp add: frame_def)
  show ?thesis
  proof (cases "c_running ?c")
    case True
    have acc': "w_accepted w = (ws @ [m]) @ q @ w_posted w" "w_out w @ h @ m = frames (ws @ [m])"
      using acc hm by simp_all
    from True r q have "r = (if q \<noteq> [] then conn_startWrite big (?c\<lparr>c_writeQueue := q\<rparr>)
        else (?c\<lparr>c_writeQueue := q, c_writeInProgress := False\<rparr>, []))"
      by (simp add: conn_onWritten_def Let_def)
    with ok call True q acc' show ?thesis
      by (cases q) (auto simp: writer_ok_def enact_def conn_startWrite_eq simp del: append_assoc concat_append map_append)
  next
    case False
    with r have "r = (?c, [])" by (simp add: conn_onWritten_def conn_doDisconnect_def)
    moreover have "writer_ok (w\<lparr>w_writing := rest, w_out := w_out w @ h @ m\<rparr>)"
      using ok False q acc call hm by (auto simp: writer_ok_def intro!: exI [of _ ws] exI [of _ "frame m"])
    ultimately show ?thesis by (simp add: enact_def)
  qed
qed

lemma writer_ok_write_fails:
  assumes ok: "writer_ok w" and wr: "w_writing w = (h, m) # rest"
    and r: "conn_onWritten big True (w_conn w) = Some r"
  shows "writer_ok (enact r (w\<lparr>w_writing := rest, w_out := w_out w @ take k (h @ m)\<rparr>))"
proof -
  let ?c = "w_conn w"
  from ok wr obtain q where q: "c_writeQueue ?c = m # q" "rest = []" "h = frame_header True m"
    by (auto simp: writer_ok_def)
  from ok wr q obtain ws where acc: "w_accepted w = ws @ c_writeQueue ?c @ w_posted w" "w_out w = frames ws"
    and call: "w_calls w \<noteq> []" by (auto simp: writer_ok_def)
  have tail: "prefix (take k (h @ m)) (frames (c_writeQueue ?c))"
  proof -
    have "frames (c_writeQueue ?c) = (h @ m) @ frames q" using q by (simp add: frame_def)
    then show ?thesis using prefix_prefix [OF take_is_prefix [of k "h @ m"]] by (simp only:)
  qed
  from r have "r = conn_doDisconnect ?c" by (simp add: conn_onWritten_def)
  then show ?thesis using ok acc call tail q(2)
    by (auto simp: writer_ok_def enact_def conn_doDisconnect_def)
qed

lemma writer_ok_step:
  assumes "conn_step big w w'" "writer_ok w"
  shows "writer_ok w'"
  using assms
proof (induction rule: conn_step.induct)
  case (start w)
  then show ?case by (intro writer_ok_start)
next
  case (send w m)
  then show ?case by (intro writer_ok_send)
next
  case (posted w m ms)
  then show ?case by (intro writer_ok_posted)
next
  case (written w h m ws r)
  then show ?case by (intro writer_ok_written)
next
  case (write_fails w h m ws r k)
  then show ?case by (intro writer_ok_write_fails)
qed (erule writer_ok_frame; simp add: enact_def conn_stop_def conn_onHeader_def conn_onPayload_def
    conn_doDisconnect_def conn_startRead_def Let_def; fail)+

text \<open>The reader.\<close>

lemma reader_ok_frame:
  assumes "reader_ok big i w" "w_reading w' = w_reading w" "w_unread w' = w_unread w"
    "w_received w' = w_received w" "w_calls w' = w_calls w"
    "c_connectionId (w_conn w') = c_connectionId (w_conn w)" "c_running (w_conn w') = c_running (w_conn w)"
  shows "reader_ok big i w'"
  using assms unfolding reader_ok_def by simp

lemma reader_ok_disconnect:
  assumes ok: "reader_ok big i w" and call: "w_calls w \<noteq> []"
    and w': "w_unread w' = w_unread w" "w_received w' = w_received w" "w_calls w' = w_calls w" "w_conn w' = w_conn w"
  shows "reader_ok big i (enact (conn_doDisconnect (w_conn w)) w')"
proof -
  from ok call obtain ds z rest where 1: "w_calls w = CB_Connect i # map (CB_Message i) ds @ z"
    "\<forall>d \<in> set ds. fits d" "z = [] \<or> z = [CB_Disconnect i] \<and> \<not> c_running (w_conn w)"
    "w_received w = frames ds @ rest @ w_unread w" and i: "c_connectionId (w_conn w) = i"
    by (auto simp: reader_ok_def)
  show ?thesis
  proof (cases "c_running (w_conn w)")
    case True
    with 1 i w' show ?thesis
      by (auto simp: reader_ok_def enact_def conn_doDisconnect_def intro!: exI [of _ ds] exI [of _ rest])
  next
    case False
    with 1 i w' show ?thesis
      by (auto simp: reader_ok_def enact_def conn_doDisconnect_def intro!: exI [of _ ds] exI [of _ rest])
  qed
qed

lemma reader_ok_stop:
  "reader_ok big i w \<Longrightarrow> reader_ok big i (enact (conn_stop (w_conn w)) w)"
  by (auto simp: reader_ok_def enact_def conn_stop_def)

lemma reader_ok_write_disconnect:
  assumes "reader_ok big i w" "w_writing w \<noteq> []" "writer_ok w" "w' = w\<lparr>w_writing := a, w_out := b\<rparr>"
  shows "reader_ok big i (enact (conn_doDisconnect (w_conn w)) w')"
  using assms by (intro reader_ok_disconnect) (auto simp: writer_ok_def)

lemma reader_ok_header:
  assumes ok: "reader_ok big i w" and rd: "w_reading w = RHeader # rs" and len: "4 \<le> length (w_unread w)"
  shows "reader_ok big i (enact (conn_onHeader big False (take 4 (w_unread w)) (w_conn w))
       (w\<lparr>w_reading := rs, w_unread := drop 4 (w_unread w)\<rparr>))" (is "reader_ok big i (enact (?r) ?w)")
proof -
  let ?h = "take 4 (w_unread w)"
  have call: "w_calls w \<noteq> []" using ok rd by (auto simp: reader_ok_def)
  with ok obtain ds z rest where 1: "w_calls w = CB_Connect i # map (CB_Message i) ds @ z"
    "\<forall>d \<in> set ds. fits d" "z = [] \<or> z = [CB_Disconnect i] \<and> \<not> c_running (w_conn w)"
    "w_received w = frames ds @ rest @ w_unread w" and i: "c_connectionId (w_conn w) = i"
    and run: "c_running (w_conn w) \<longrightarrow> rest = [] \<and> rs = []"
    using rd by (auto simp: reader_ok_def)
  have split: "w_unread w = ?h @ drop 4 (w_unread w)" "length ?h = 4" using len by simp_all
  have rec: "w_received w = frames ds @ (rest @ ?h) @ drop 4 (w_unread w)" using 1(4) by simp
  define k where "k = from_network_u32 big (header_of_bytes big ?h)"
  show ?thesis
  proof (cases "c_running (w_conn w) \<and> \<not> k > MAX_PAYLOAD_BYTES")
    case False
    then have "?r = conn_doDisconnect (w_conn w)" by (auto simp: conn_onHeader_def k_def Let_def)
    with 1(1-3) i rec show ?thesis
      by (auto simp: reader_ok_def enact_def conn_doDisconnect_def
          intro!: exI [of _ ds] exI [of _ "rest @ ?h"])
  next
    case True
    with 1(3) run have z: "z = []" "rest = []" "rs = []" by auto
    show ?thesis
    proof (cases "k = 0")
      case True
      have r: "?r = (w_conn w, [CB_Message i [], IO_ReadHeader])"
        using True \<open>c_running (w_conn w) \<and> \<not> k > MAX_PAYLOAD_BYTES\<close> i
        by (simp add: conn_onHeader_def conn_startRead_def k_def)
      have "?h @ [] = frame []"
        using True by (intro header_read_frame [OF split(2), of big]) (simp add: k_def)
      then have rec': "w_received w = frames (ds @ [[]]) @ [] @ drop 4 (w_unread w)" using rec z by simp
      show ?thesis unfolding r using 1(1,2) i z rec'
        by (auto simp: reader_ok_def enact_def fits_def intro!: exI [of _ "ds @ [[]]"])
    next
      case nz: False
      have r: "?r = (w_conn w, [IO_ReadPayload k])"
        using nz \<open>c_running (w_conn w) \<and> \<not> k > MAX_PAYLOAD_BYTES\<close> i
        by (simp add: conn_onHeader_def k_def)
      show ?thesis unfolding r
        using 1(1,2) i z rec True nz split(2) k_def
        by (auto simp: reader_ok_def enact_def intro!: exI [of _ ds] exI [of _ ?h])
    qed
  qed
qed

lemma reader_ok_payload:
  assumes ok: "reader_ok big i w" and rd: "w_reading w = RPayload k # rs" and len: "unat k \<le> length (w_unread w)"
  shows "reader_ok big i (enact (conn_onPayload False (take (unat k) (w_unread w)) (w_conn w))
       (w\<lparr>w_reading := rs, w_unread := drop (unat k) (w_unread w)\<rparr>))" (is "reader_ok big i (enact (?r) ?w)")
proof -
  let ?m = "take (unat k) (w_unread w)"
  have call: "w_calls w \<noteq> []" using ok rd by (auto simp: reader_ok_def)
  with ok obtain ds z rest where 1: "w_calls w = CB_Connect i # map (CB_Message i) ds @ z"
    "\<forall>d \<in> set ds. fits d" "z = [] \<or> z = [CB_Disconnect i] \<and> \<not> c_running (w_conn w)"
    "w_received w = frames ds @ rest @ w_unread w" and i: "c_connectionId (w_conn w) = i"
    and run: "c_running (w_conn w) \<longrightarrow> rs = [] \<and> k \<le> MAX_PAYLOAD_BYTES \<and> length rest = 4 \<and>
      from_network_u32 big (header_of_bytes big rest) = k"
    using rd by (auto simp: reader_ok_def)
  have rec: "w_received w = frames ds @ (rest @ ?m) @ drop (unat k) (w_unread w)" using 1(4) by simp
  show ?thesis
  proof (cases "c_running (w_conn w)")
    case False
    then have "?r = conn_doDisconnect (w_conn w)" by (auto simp: conn_onPayload_def)
    with False 1(1-3) i rec show ?thesis
      by (auto simp: reader_ok_def enact_def conn_doDisconnect_def
          intro!: exI [of _ ds] exI [of _ "rest @ ?m"])
  next
    case True
    with 1(3) run have z: "z = []" "rs = []" and h: "length rest = 4"
      "from_network_u32 big (header_of_bytes big rest) = k" "unat k \<le> unat MAX_PAYLOAD_BYTES"
      by (auto simp: word_le_nat_alt)
    have m: "length ?m = unat k" using len by simp
    then have "(of_nat (length ?m) :: u32) = of_nat (unat k)" by (rule arg_cong)
    with h(2) have "from_network_u32 big (header_of_bytes big rest) = of_nat (length ?m)" by simp
    with h(1) have "rest @ ?m = frame ?m" by (rule header_read_frame)
    then have rec': "w_received w = frames (ds @ [?m]) @ [] @ drop (unat k) (w_unread w)" using rec by simp
    have r: "?r = (w_conn w, [CB_Message i ?m, IO_ReadHeader])"
      using True i by (simp add: conn_onPayload_def conn_startRead_def)
    have "fits ?m" using m h(3) by (simp add: fits_def)
    then show ?thesis unfolding r using 1(1,2) i z rec'
      by (auto simp: reader_ok_def enact_def intro!: exI [of _ "ds @ [?m]"])
  qed
qed

lemma reading_called: "reader_ok big i w \<Longrightarrow> w_reading w \<noteq> [] \<Longrightarrow> w_calls w \<noteq> []"
  by (auto simp: reader_ok_def)

lemma reader_ok_step:
  assumes "conn_step big w w'" "reader_ok big i w" "writer_ok w"
  shows "reader_ok big i w'"
  using assms
proof (induction rule: conn_step.induct)
  case (start w)
  then show ?case
    by (auto simp: reader_ok_def enact_def conn_start_def conn_startRead_def intro!: exI [of _ "[]"])
next
  case (stop w)
  then show ?case by (intro reader_ok_stop)
next
  case (send w m)
  then show ?case by (elim reader_ok_frame) (auto simp: enact_def conn_send_def)
next
  case (posted w m ms)
  then show ?case
    by (elim reader_ok_frame) (auto simp: enact_def conn_posted_def conn_startWrite_eq Let_def)
next
  case (written w h m ws r)
  show ?case
  proof (cases "c_running (w_conn w)")
    case True
    with written show ?thesis
      by (elim reader_ok_frame)
         (auto simp: enact_def conn_onWritten_def conn_startWrite_eq Let_def split: list.splits)
  next
    case False
    with written show ?thesis by (elim reader_ok_frame) (auto simp: enact_def conn_onWritten_def conn_doDisconnect_def)
  qed
next
  case (write_fails w h m ws r k)
  then show ?case
    by (auto simp: conn_onWritten_def writer_ok_def intro!: reader_ok_disconnect [of big i w])
next
  case (bytes_arrive w bs)
  then show ?case by (auto simp: reader_ok_def)
next
  case (header_read w rs)
  then show ?case by (intro reader_ok_header)
next
  case (payload_read w k rs)
  then show ?case by (intro reader_ok_payload)
next
  case (header_fails w rs h)
  moreover have "w_calls w \<noteq> []" using header_fails by (intro reading_called) auto
  ultimately show ?case by (auto simp: conn_onHeader_def intro!: reader_ok_disconnect [of big i w])
next
  case (payload_fails w k rs p)
  moreover have "w_calls w \<noteq> []" using payload_fails by (intro reading_called) auto
  ultimately show ?case by (auto simp: conn_onPayload_def intro!: reader_ok_disconnect [of big i w])
qed

lemma conn_reach_inv: "conn_reach big i w \<Longrightarrow> writer_ok w \<and> reader_ok big i w"
proof (induction rule: conn_reach.induct)
  case init
  show ?case by (simp add: writer_ok_def reader_ok_def conn_world_new_def connection_new_def)
next
  case (step w w')
  then show ?case using writer_ok_step reader_ok_step by blast
qed

subsection \<open>Progress\<close>

text \<open>Progress: a running connection that waits for a header can hand over every message whose frame
  arrives, and then waits for the next header.\<close>

definition waiting :: "conn_world \<Rightarrow> bool" where
  "waiting w \<longleftrightarrow> c_running (w_conn w) \<and> w_reading w = [RHeader] \<and> w_unread w = []"

definition got :: "u32 \<Rightarrow> message list \<Rightarrow> conn_world \<Rightarrow> conn_world" where
  "got i ms w = w\<lparr>w_reading := [RHeader], w_unread := [], w_received := w_received w @ frames ms,
     w_calls := w_calls w @ map (CB_Message i) ms\<rparr>"

lemma got_simps [simp]:
  "waiting (got i ms w) = c_running (w_conn w)" "w_conn (got i ms w) = w_conn w"
  "got i ns (got i ms w) = got i (ms @ ns) w" "waiting w \<Longrightarrow> got i [] w = w"
  by (simp_all add: waiting_def got_def)

lemma frame_delivered:
  assumes r: "conn_reach big i w" and w: "waiting w" and i: "c_connectionId (w_conn w) = i" and m: "fits m"
  shows "conn_reach big i (got i [m] w)"
proof -
  let ?h = "frame_header True m" and ?k = "of_nat (length m) :: u32"
  have w: "c_running (w_conn w)" "w_reading w = [RHeader]" "w_unread w = []" using w by (simp_all add: waiting_def)
  let ?w1 = "w\<lparr>w_unread := ?h @ m, w_received := w_received w @ ?h @ m\<rparr>"
  have r1: "conn_reach big i ?w1"
    using conn_reach.step [OF r conn_step.bytes_arrive, of "?h @ m"] w(3) by simp
  have v: "from_network_u32 big (header_of_bytes big ?h) = ?k" by (rule frame_header_value)
  have le: "\<not> ?k > MAX_PAYLOAD_BYTES" using fits_length(2) [OF m] by simp
  have l: "unat ?k = length m" by (rule fits_length(1) [OF m])
  note read = conn_reach.step [OF r1 conn_step.header_read [of ?w1 "[]" big]]
  show ?thesis
  proof (cases "m = []")
    case True
    then have "conn_onHeader big False ?h (w_conn w) = (w_conn w, [CB_Message i [], IO_ReadHeader])"
      using v le w(1) i by (simp add: conn_onHeader_def conn_startRead_def Let_def)
    with read w(2) True show ?thesis
      by (cases w) (simp add: enact_def got_def frame_def w(3))
  next
    case False
    then have "?k \<noteq> 0" using l by (metis length_0_conv unsigned_0)
    then have "conn_onHeader big False ?h (w_conn w) = (w_conn w, [IO_ReadPayload ?k])"
      using v le w(1) by (simp add: conn_onHeader_def Let_def)
    with read w(2) have r2: "conn_reach big i (w\<lparr>w_unread := m, w_received := w_received w @ ?h @ m, w_reading := [RPayload ?k]\<rparr>)"
      by (cases w) (simp add: enact_def)
    have p: "conn_onPayload False m (w_conn w) = (w_conn w, [CB_Message i m, IO_ReadHeader])"
      using w(1) i by (simp add: conn_onPayload_def conn_startRead_def)
    from conn_reach.step [OF r2 conn_step.payload_read [of _ ?k "[]"]] l p
    have "conn_reach big i (w\<lparr>w_unread := [], w_received := w_received w @ ?h @ m, w_reading := [RHeader],
        w_calls := w_calls w @ [CB_Message i m]\<rparr>)"
      by (cases w) (simp add: enact_def)
    then show ?thesis by (cases w) (simp add: got_def frame_def)
  qed
qed

lemma frames_delivered:
  assumes "conn_reach big i w" "waiting w" "c_connectionId (w_conn w) = i" "\<forall>m \<in> set ms. fits m"
  shows "conn_reach big i (got i ms w)"
  using assms
proof (induction ms arbitrary: w)
  case Nil
  then show ?case by simp
next
  case (Cons m ms)
  then have "conn_reach big i (got i [m] w)" by (intro frame_delivered) simp_all
  moreover have "waiting (got i [m] w)" using Cons.prems(2) unfolding got_simps(1) by (simp add: waiting_def)
  ultimately have "conn_reach big i (got i ms (got i [m] w))" using Cons.prems by (intro Cons.IH) simp_all
  then show ?case by simp
qed

text \<open>A connection that has just been started.\<close>

definition started :: "u32 \<Rightarrow> conn_world" where
  "started i = enact (conn_start (connection_new i)) (conn_world_new i)"

lemma started_reach: "conn_reach big i (started i)" "waiting (started i)" "c_connectionId (w_conn (started i)) = i"
  "w_calls (started i) = [CB_Connect i]" "w_received (started i) = []"
  using conn_reach.step [OF conn_reach.init conn_step.start, of i big]
  by (simp_all add: started_def conn_world_new_def waiting_def conn_start_def conn_startRead_def
      connection_new_def enact_def)

end
