(* ===== verification/Tcp_Server.thy ===== *)
theory Tcp_Server imports Tcp_Connection begin

text \<open>
  \<open>src/net/core/tcpServer.cpp\<close>: the connections of the server and the accept loop. The operations that
  take the connections' mutex are single steps. asio's answers are arguments: the error of each call on
  the acceptor, and of each accept. The outputs are the three callbacks to the user of the class and
  the requests of the connections, in order. The static \<open>CONN_ID\<close> is part of the state.
\<close>

record tcp_server =
  ts_acceptorReady :: bool
  ts_acceptorOpen :: bool
  ts_running :: bool
  ts_connections :: "(u32 \<times> connection) list"
  ts_CONN_ID :: u32

datatype ts_out = TS_Connect u32 | TS_Message u32 message | TS_Disconnect u32 | TS_IO u32 conn_io

text \<open>The constructor: open, set the option, bind, listen, giving up at the first error.\<close>

definition tcp_server_new :: "bool \<Rightarrow> bool \<Rightarrow> bool \<Rightarrow> bool \<Rightarrow> tcp_server" where
  "tcp_server_new ec_open ec_option ec_bind ec_listen =
     (let s = \<lparr>ts_acceptorReady = False, ts_acceptorOpen = \<not> ec_open, ts_running = False,
               ts_connections = [], ts_CONN_ID = 1\<rparr>
      in if ec_open then s else if ec_option then s else if ec_bind then s else if ec_listen then s
         else s\<lparr>ts_acceptorReady := True\<rparr>)"

text \<open>\<open>start\<close> ends by waiting for the first accept and starting the thread.\<close>

definition tcp_server_start :: "tcp_server \<Rightarrow> tcp_server" where
  "tcp_server_start s =
     (if ts_running s then s
      else let s1 = s\<lparr>ts_running := True\<rparr>
           in if \<not> ts_acceptorReady s1 then s1\<lparr>ts_running := False\<rparr> else s1)"

text \<open>A callback of a connection becomes one of the server; a disconnect first drops the connection.\<close>

fun relay :: "conn_io \<Rightarrow> tcp_server \<Rightarrow> tcp_server \<times> ts_out list" where
  "relay (CB_Connect i) s = (s, [TS_Connect i])"
| "relay (CB_Message i m) s = (s, [TS_Message i m])"
| "relay (CB_Disconnect i) s =
     (s\<lparr>ts_connections := filter (\<lambda>e. fst e \<noteq> i) (ts_connections s)\<rparr>, [TS_Disconnect i])"
| "relay IO_Close s = (s, [])"
| "relay (IO_Post m) s = (s, [])"
| "relay (IO_Write h m) s = (s, [])"
| "relay IO_ReadHeader s = (s, [])"
| "relay (IO_ReadPayload k) s = (s, [])"

fun relay_all :: "u32 \<Rightarrow> conn_io list \<Rightarrow> tcp_server \<Rightarrow> tcp_server \<times> ts_out list" where
  "relay_all i [] s = (s, [])"
| "relay_all i (io # ios) s =
     (let (s1, out) = relay io s; (s2, out') = relay_all i ios s1
      in (s2, (if out = [] then [TS_IO i io] else out) @ out'))"

text \<open>Run an operation of the connection with the given identifier, if the server still has it. (One that
  was dropped has been stopped, and its pending handlers then call nothing: \<open>stopped_silent\<close>.)\<close>

definition on_connection ::
  "tcp_server \<Rightarrow> u32 \<Rightarrow> (connection \<Rightarrow> connection \<times> conn_io list) \<Rightarrow> tcp_server \<times> ts_out list" where
  "on_connection s i f =
     (case map_of (ts_connections s) i of
        None \<Rightarrow> (s, [])
      | Some c \<Rightarrow>
          let (c', io) = f c
          in relay_all i io
               (s\<lparr>ts_connections := map (\<lambda>(k, d). (k, if k = i then c' else d)) (ts_connections s)\<rparr>))"

definition createConnection :: "tcp_server \<Rightarrow> u32 \<Rightarrow> bool \<times> tcp_server" where
  "createConnection s connectionId =
     (if map_of (ts_connections s) connectionId \<noteq> None then (False, s)
      else (True, s\<lparr>ts_connections := (connectionId, connection_new connectionId) # ts_connections s\<rparr>))"

text \<open>The handler of an accept. The flag says whether another accept is requested.\<close>

definition tcp_server_onAccept :: "tcp_server \<Rightarrow> bool \<Rightarrow> tcp_server \<times> ts_out list \<times> bool" where
  "tcp_server_onAccept s ec =
     (if \<not> ts_running s then (s, [], False)
      else if ec then (s, [], ts_running s)
      else let connectionId = ts_CONN_ID s;
               s1 = s\<lparr>ts_CONN_ID := ts_CONN_ID s + 1\<rparr>;
               (created, s2) = createConnection s1 connectionId
           in if created
              then let (s3, out) = on_connection s2 connectionId conn_start in (s3, out, ts_running s3)
              else (s2, [], ts_running s2))"

definition tcp_server_stop :: "tcp_server \<Rightarrow> tcp_server \<times> ts_out list" where
  "tcp_server_stop s =
     (if \<not> ts_running s then (s, [])
      else (s\<lparr>ts_running := False, ts_acceptorOpen := False, ts_connections := []\<rparr>,
            concat (map (\<lambda>(i, c). map (TS_IO i) (snd (conn_stop c))) (ts_connections s))))"

definition tcp_server_send :: "tcp_server \<Rightarrow> u32 \<Rightarrow> message \<Rightarrow> bool \<times> tcp_server \<times> ts_out list" where
  "tcp_server_send s connectionId msg =
     (if map_of (ts_connections s) connectionId \<noteq> None
      then (True, on_connection s connectionId (\<lambda>c. conn_send c msg))
      else (False, s, []))"

definition tcp_server_reject :: "tcp_server \<Rightarrow> u32 \<Rightarrow> tcp_server \<times> ts_out list" where
  "tcp_server_reject s connectionId =
     (if map_of (ts_connections s) connectionId \<noteq> None
      then let (s1, out) = on_connection s connectionId conn_stop
           in (s1\<lparr>ts_connections := filter (\<lambda>e. fst e \<noteq> connectionId) (ts_connections s1)\<rparr>, out)
      else (s, []))"

subsection \<open>The handlers of the connections\<close>

text \<open>What the strand of a connection runs next, with asio's results.\<close>

datatype conn_event = Posted message | Written bool | HeaderRead bool string | PayloadRead bool message

fun conn_handler :: "bool \<Rightarrow> conn_event \<Rightarrow> connection \<Rightarrow> (connection \<times> conn_io list) option" where
  "conn_handler big (Posted m) c = Some (conn_posted big c m)"
| "conn_handler big (Written ec) c = conn_onWritten big ec c"
| "conn_handler big (HeaderRead ec h) c = Some (conn_onHeader big ec h c)"
| "conn_handler big (PayloadRead ec p) c = Some (conn_onPayload ec p c)"

fun is_callback :: "conn_io \<Rightarrow> bool" where
  "is_callback (CB_Connect i) = True"
| "is_callback (CB_Message i m) = True"
| "is_callback (CB_Disconnect i) = True"
| "is_callback _ = False"

lemma stopped_silent:
  assumes "\<not> c_running c" "conn_handler big e c = Some (c', io)"
  shows "\<not> c_running c' \<and> (\<forall>x \<in> set io. \<not> is_callback x)"
  using assms
  by (cases e) (auto simp: conn_posted_def conn_startWrite_def conn_onWritten_def conn_onHeader_def
      conn_onPayload_def conn_doDisconnect_def Let_def split: if_splits)

subsection \<open>The transitions\<close>

inductive ts_step :: "bool \<Rightarrow> tcp_server \<Rightarrow> ts_out list \<Rightarrow> tcp_server \<Rightarrow> bool" for big where
  start: "ts_step big s [] (tcp_server_start s)"
| stop: "tcp_server_stop s = (s', out) \<Longrightarrow> ts_step big s out s'"
| accept: "tcp_server_onAccept s ec = (s', out, again) \<Longrightarrow> (ts_acceptorOpen s \<or> ec) \<Longrightarrow> ts_step big s out s'"
| send: "tcp_server_send s i m = (r, s', out) \<Longrightarrow> ts_step big s out s'"
| reject: "tcp_server_reject s i = (s', out) \<Longrightarrow> ts_step big s out s'"
| handler: "map_of (ts_connections s) i = Some c \<Longrightarrow> conn_handler big e c = Some r \<Longrightarrow>
     on_connection s i (\<lambda>c. r) = (s', out) \<Longrightarrow> ts_step big s out s'"

inductive ts_reach :: "bool \<Rightarrow> tcp_server \<Rightarrow> ts_out list \<Rightarrow> bool" for big where
  init: "ts_reach big (tcp_server_new a b c d) []"
| step: "ts_reach big s outs \<Longrightarrow> ts_step big s out s' \<Longrightarrow> ts_reach big s' (outs @ out)"

subsection \<open>The invariant\<close>

text \<open>Every connection held runs, under its own identifier; a stopped server holds none.\<close>

definition server_ok :: "tcp_server \<Rightarrow> bool" where
  "server_ok s \<longleftrightarrow> distinct (map fst (ts_connections s)) \<and>
     (\<forall>(i, c) \<in> set (ts_connections s). c_connectionId c = i \<and> c_running c) \<and>
     (\<not> ts_running s \<longrightarrow> ts_connections s = [])"

definition set_connection :: "tcp_server \<Rightarrow> u32 \<Rightarrow> connection \<Rightarrow> tcp_server" where
  "set_connection s i c =
     s\<lparr>ts_connections := map (\<lambda>(k, d). (k, if k = i then c else d)) (ts_connections s)\<rparr>"

definition drop_connection :: "tcp_server \<Rightarrow> u32 \<Rightarrow> tcp_server" where
  "drop_connection s i = s\<lparr>ts_connections := filter (\<lambda>e. fst e \<noteq> i) (ts_connections s)\<rparr>"

lemma keys_set_connection [simp]:
  "map fst (ts_connections (set_connection s i c)) = map fst (ts_connections s)"
  by (simp add: set_connection_def comp_def case_prod_beta')

lemma server_simps [simp]:
  "ts_running (set_connection s i c) = ts_running s" "ts_running (drop_connection s i) = ts_running s"
  "ts_acceptorOpen (set_connection s i c) = ts_acceptorOpen s"
  "ts_acceptorOpen (drop_connection s i) = ts_acceptorOpen s"
  "ts_acceptorReady (set_connection s i c) = ts_acceptorReady s"
  "ts_acceptorReady (drop_connection s i) = ts_acceptorReady s"
  by (simp_all add: set_connection_def drop_connection_def)

lemma drop_ok: "server_ok s \<Longrightarrow> server_ok (drop_connection s i)"
  by (auto simp: server_ok_def drop_connection_def distinct_map_filter)

lemma set_ok: "server_ok s \<Longrightarrow> c_connectionId c = i \<Longrightarrow> c_running c \<Longrightarrow> server_ok (set_connection s i c)"
  using keys_set_connection [of s i c] by (auto simp: server_ok_def) (auto simp: set_connection_def)

lemma drop_set [simp]: "drop_connection (set_connection s i c) i = drop_connection s i"
proof -
  have "filter (\<lambda>e. fst e \<noteq> i) (map (\<lambda>(k, d). (k, if k = i then c else d)) cs) = filter (\<lambda>e. fst e \<noteq> i) cs"
    for cs :: "(u32 \<times> connection) list" by (induction cs) auto
  then show ?thesis by (simp add: drop_connection_def set_connection_def)
qed

text \<open>The outputs of a connection's operation that does not disconnect, and of one that does.\<close>

fun out_of :: "u32 \<Rightarrow> conn_io \<Rightarrow> ts_out" where
  "out_of i (CB_Connect j) = TS_Connect j"
| "out_of i (CB_Message j m) = TS_Message j m"
| "out_of i (CB_Disconnect j) = TS_Disconnect j"
| "out_of i io = TS_IO i io"

lemma relay_all_quiet:
  "\<forall>j. CB_Disconnect j \<notin> set io \<Longrightarrow> relay_all i io s = (s, map (out_of i) io)"
proof (induction io)
  case (Cons x io)
  then show ?case by (cases x) auto
qed simp

lemma relay_all_disconnect:
  "relay_all i [IO_Close, CB_Disconnect i] s = (drop_connection s i, [TS_IO i IO_Close, TS_Disconnect i])"
  by (simp add: drop_connection_def)

lemma on_connection_eq:
  "map_of (ts_connections s) i = Some c \<Longrightarrow> f c = (c', io) \<Longrightarrow>
    on_connection s i f = relay_all i io (set_connection s i c')"
  by (simp add: on_connection_def set_connection_def)

text \<open>A handler of a running connection keeps it running and makes no disconnect callback, or
  disconnects.\<close>

lemma conn_handler_cases:
  assumes "c_running c" "conn_handler big e c = Some (c', io)"
  shows "c_running c' \<and> c_connectionId c' = c_connectionId c \<and> (\<forall>j. CB_Disconnect j \<notin> set io) \<and>
      (\<forall>j. CB_Connect j \<notin> set io) \<and> (\<forall>j m. CB_Message j m \<in> set io \<longrightarrow> j = c_connectionId c) \<or>
    \<not> c_running c' \<and> io = [IO_Close, CB_Disconnect (c_connectionId c)]"
  using assms
  by (cases e) (auto simp: conn_posted_def conn_startWrite_def conn_onWritten_def conn_onHeader_def
      conn_onPayload_def conn_doDisconnect_def conn_startRead_def Let_def split: if_splits list.splits)

definition callbacks_of :: "u32 \<Rightarrow> ts_out list \<Rightarrow> ts_out list" where
  "callbacks_of i outs = filter (\<lambda>x. x = TS_Connect i \<or> x = TS_Disconnect i \<or> (\<exists>m. x = TS_Message i m)) outs"

text \<open>One step as seen by one identifier: what it is told, and whether the server has the connection
  before and after.\<close>

definition held :: "tcp_server \<Rightarrow> u32 \<Rightarrow> bool" where
  "held s i \<longleftrightarrow> i \<in> fst ` set (ts_connections s)"

definition told :: "bool \<Rightarrow> ts_out list \<Rightarrow> bool \<Rightarrow> u32 \<Rightarrow> bool" where
  "told before cbs after i \<longleftrightarrow>
     (if before
      then (after \<and> (\<exists>ms. cbs = map (TS_Message i) ms)) \<or> (\<not> after \<and> (cbs = [] \<or> cbs = [TS_Disconnect i]))
      else (if after then cbs = [TS_Connect i] else cbs = []))"

lemma told_nil [simp]: "told b [] b i"
  by (auto simp: told_def)

lemma held_simps [simp]:
  "held (set_connection s i c) j = held s j" "held (drop_connection s i) j \<longleftrightarrow> j \<noteq> i \<and> held s j"
  by (auto simp: held_def set_connection_def drop_connection_def image_iff case_prod_beta' intro!: bexI)

lemma held_map_of: "held s i \<longleftrightarrow> map_of (ts_connections s) i \<noteq> None"
  by (simp add: held_def map_of_eq_None_iff)

lemma callbacks_of_messages:
  "\<forall>x \<in> set io. (\<forall>j. x \<noteq> CB_Disconnect j) \<and> (\<forall>j. x \<noteq> CB_Connect j) \<and> (\<forall>j m. x = CB_Message j m \<longrightarrow> j = i) \<Longrightarrow>
    \<exists>ms. callbacks_of i (map (out_of i) io) = map (TS_Message i) ms"
proof (induction io)
  case Nil
  then show ?case by (simp add: callbacks_of_def)
next
  case (Cons x io)
  from Cons.IH Cons.prems obtain ms where ms: "callbacks_of i (map (out_of i) io) = map (TS_Message i) ms"
    by auto
  show ?case
  proof (cases x)
    case (CB_Message k m)
    with Cons.prems ms show ?thesis by (auto simp: callbacks_of_def intro!: exI [of _ "m # ms"])
  qed (use ms Cons.prems in \<open>auto simp: callbacks_of_def\<close>)
qed

lemma handler_step:
  assumes ok: "server_ok s" and c: "map_of (ts_connections s) i = Some c"
    and h: "conn_handler big e c = Some r" and s': "on_connection s i (\<lambda>c. r) = (s', out)"
  shows "server_ok s' \<and> told (held s j) (callbacks_of j out) (held s' j) j"
proof -
  obtain c' io where r: "r = (c', io)" by (cases r)
  from ok c have c1: "c_running c" "c_connectionId c = i" "held s i"
    by (auto simp: server_ok_def held_map_of dest: map_of_SomeD)
  from s' have s'': "relay_all i io (set_connection s i c') = (s', out)"
    using on_connection_eq [OF c, of "\<lambda>c. r"] r by simp
  from conn_handler_cases [OF c1(1) h [unfolded r]] show ?thesis
  proof
    assume q: "c_running c' \<and> c_connectionId c' = c_connectionId c \<and> (\<forall>j. CB_Disconnect j \<notin> set io) \<and>
      (\<forall>j. CB_Connect j \<notin> set io) \<and> (\<forall>j m. CB_Message j m \<in> set io \<longrightarrow> j = c_connectionId c)"
    then have e: "s' = set_connection s i c'" "out = map (out_of i) io"
      using s'' by (auto simp: relay_all_quiet)
    have "server_ok s'" using ok q c1 e by (simp add: set_ok)
    moreover have "\<exists>ms. callbacks_of i (map (out_of i) io) = map (TS_Message i) ms"
      using q c1(2) by (intro callbacks_of_messages) auto
    moreover have "callbacks_of j (map (out_of i) io) = []" if "j \<noteq> i"
      using that q c1(2) by (auto simp: callbacks_of_def filter_empty_conv elim!: out_of.elims)
    ultimately show ?thesis using q c1 e by (cases "j = i") (simp_all add: told_def)
  next
    assume q: "\<not> c_running c' \<and> io = [IO_Close, CB_Disconnect (c_connectionId c)]"
    then have e: "s' = drop_connection s i" "out = [TS_IO i IO_Close, TS_Disconnect i]"
      using s'' c1 relay_all_disconnect [of i "set_connection s i c'"] by auto
    with ok c1 show ?thesis by (auto simp: drop_ok told_def callbacks_of_def)
  qed
qed

subsection \<open>The other operations\<close>

lemma accept_step:
  assumes ok: "server_ok s" and a: "tcp_server_onAccept s ec = (s', out, again)"
  shows "server_ok s' \<and> told (held s j) (callbacks_of j out) (held s' j) j"
proof (cases "ts_running s \<and> \<not> ec \<and> map_of (ts_connections s) (ts_CONN_ID s) = None")
  case True
  let ?i = "ts_CONN_ID s" and ?c = "connection_new (ts_CONN_ID s)"
  let ?s2 = "s\<lparr>ts_CONN_ID := ?i + 1, ts_connections := (?i, ?c) # ts_connections s\<rparr>"
  let ?c' = "?c\<lparr>c_running := True\<rparr>"
  have st: "conn_start ?c = (?c', [CB_Connect ?i, IO_ReadHeader])"
    by (simp add: conn_start_def conn_startRead_def connection_new_def)
  have m: "map_of (ts_connections ?s2) ?i = Some ?c" by simp
  have "on_connection ?s2 ?i conn_start = relay_all ?i [CB_Connect ?i, IO_ReadHeader] (set_connection ?s2 ?i ?c')"
    using m st by (rule on_connection_eq)
  then have "on_connection ?s2 ?i conn_start = (set_connection ?s2 ?i ?c', [TS_Connect ?i, TS_IO ?i IO_ReadHeader])"
    by simp
  with a True have e: "s' = set_connection ?s2 ?i ?c'" "out = [TS_Connect ?i, TS_IO ?i IO_ReadHeader]"
    by (auto simp: tcp_server_onAccept_def createConnection_def Let_def)
  have new: "?i \<notin> fst ` set (ts_connections s)" using True by (simp add: map_of_eq_None_iff)
  then have "ts_connections s' = (?i, ?c') # ts_connections s"
    by (auto simp: e set_connection_def intro!: map_idI) (metis fst_conv image_eqI)
  with ok new True have "server_ok s'" by (auto simp: server_ok_def e connection_new_def)
  moreover have "held s' j \<longleftrightarrow> j = ?i \<or> held s j" unfolding e(1) held_simps by (auto simp: held_def)
  ultimately show ?thesis using new by (auto simp: told_def callbacks_of_def e(2) held_def [of s])
next
  case False
  with a have "out = []" "s' = s \<or> s' = s\<lparr>ts_CONN_ID := ts_CONN_ID s + 1\<rparr>"
    by (auto simp: tcp_server_onAccept_def createConnection_def Let_def split: if_splits)
  with ok show ?thesis by (auto simp: server_ok_def told_def callbacks_of_def held_def)
qed

lemma stop_step:
  assumes "server_ok s" "tcp_server_stop s = (s', out)"
  shows "server_ok s' \<and> (\<forall>j. callbacks_of j out = [] \<and> \<not> held s' j)"
  using assms by (auto simp: tcp_server_stop_def server_ok_def held_def callbacks_of_def filter_empty_conv
      split: if_splits)

lemma send_step:
  assumes ok: "server_ok s" and a: "tcp_server_send s i m = (r, s', out)"
  shows "server_ok s' \<and> told (held s j) (callbacks_of j out) (held s' j) j \<and> (r \<longleftrightarrow> held s i) \<and>
    (held s i \<longrightarrow> out = (if fits m then [TS_IO i (IO_Post m)] else []))"
proof (cases "map_of (ts_connections s) i")
  case None
  with ok a show ?thesis
    by (auto simp: tcp_server_send_def told_def callbacks_of_def held_map_of)
next
  case (Some c)
  with ok have c: "c_running c" "c_connectionId c = i" "held s i"
    by (auto simp: server_ok_def held_map_of dest: map_of_SomeD)
  have cs: "conn_send c m = (c, if fits m then [IO_Post m] else [])"
    using c(1) by (simp add: conn_send_def fits_def)
  have "on_connection s i (\<lambda>c. conn_send c m) =
      relay_all i (if fits m then [IO_Post m] else []) (set_connection s i c)"
    using Some cs by (rule on_connection_eq)
  with a Some have "s' = set_connection s i c" "out = (if fits m then [TS_IO i (IO_Post m)] else [])" "r"
    by (auto simp: tcp_server_send_def split: if_splits)
  with ok c set_ok [OF ok c(2,1)] show ?thesis
    by (auto simp: told_def callbacks_of_def)
qed

lemma reject_step:
  assumes ok: "server_ok s" and a: "tcp_server_reject s i = (s', out)"
  shows "server_ok s' \<and> told (held s j) (callbacks_of j out) (held s' j) j \<and> \<not> held s' i"
proof (cases "map_of (ts_connections s) i")
  case None
  with ok a show ?thesis
    by (auto simp: tcp_server_reject_def told_def callbacks_of_def held_map_of)
next
  case (Some c)
  with ok have c: "c_running c" "held s i" by (auto simp: server_ok_def held_map_of dest: map_of_SomeD)
  let ?c' = "c\<lparr>c_running := False\<rparr>"
  have "on_connection s i conn_stop = relay_all i [IO_Close] (set_connection s i ?c')"
    using Some by (rule on_connection_eq) (simp add: conn_stop_def c(1))
  with a Some have "s' = drop_connection (set_connection s i ?c') i" "out = [TS_IO i IO_Close]"
    by (auto simp: tcp_server_reject_def drop_connection_def)
  with drop_ok [OF ok, of i] c show ?thesis
    by (auto simp: told_def callbacks_of_def)
qed

text \<open>One step keeps the invariant and tells each identifier the truth.\<close>

lemma ts_step_ok:
  assumes "ts_step big s out s'" "server_ok s"
  shows "server_ok s' \<and> told (held s j) (callbacks_of j out) (held s' j) j"
  using assms
proof (induction rule: ts_step.induct)
  case (start s)
  then show ?case
    by (auto simp: tcp_server_start_def server_ok_def callbacks_of_def held_def Let_def told_def)
next
  case (stop s s' out)
  then show ?case using stop_step by (auto simp: told_def)
next
  case (accept s ec s' out again)
  then show ?case using accept_step by blast
next
  case (send s i m r s' out)
  then show ?case using send_step by blast
next
  case (reject s i s' out)
  then show ?case using reject_step by blast
next
  case (handler s i c e r s' out)
  then show ?case using handler_step by blast
qed

lemma ts_reach_ok: "ts_reach big s outs \<Longrightarrow> server_ok s"
proof (induction rule: ts_reach.induct)
  case (init a b c d)
  show ?case by (simp add: tcp_server_new_def server_ok_def Let_def)
next
  case (step s outs out s')
  then show ?case using ts_step_ok by blast
qed

text \<open>Only an accept takes a new identifier.\<close>

lemma relay_CONN_ID: "relay_all i io s = (s', out) \<Longrightarrow> ts_CONN_ID s' = ts_CONN_ID s"
proof (induction io arbitrary: s s' out)
  case (Cons x io)
  then show ?case by (cases x) (auto split: prod.splits)
qed simp

lemma on_connection_CONN_ID: "on_connection s i f = (s', out) \<Longrightarrow> ts_CONN_ID s' = ts_CONN_ID s"
  by (auto simp: on_connection_def split: option.splits prod.splits dest: relay_CONN_ID)

lemma tcp_send_CONN_ID: "tcp_server_send s i m = (r, s', out) \<Longrightarrow> ts_CONN_ID s' = ts_CONN_ID s"
  by (auto simp: tcp_server_send_def split: if_splits prod.splits dest: on_connection_CONN_ID)

end
