(* ===== verification/Net_Server.thy ===== *)
theory Net_Server imports Net_Session_Manager Nw_Events Tcp_Server Safe_Queue begin

text \<open>
  \<open>src/net/network/server.cpp\<close>: the server of the game. Its network callbacks queue events; the server
  thread takes them from the queue, keeps the sessions and calls the handler. A call of the handler is
  always the last thing an event's processing does, so it is an output here, and what the handler then
  does to the server comes after. \<open>None\<close> is a fault, an exception of the JSON library, or the loop of
  \<open>generateSessionId\<close> that finds no free identifier.
\<close>

datatype server_queue_event_type = SQ_ClientConnected | SQ_ClientDisconnected | SQ_ClientMessage | SQ_Shutdown

record server_queue_event =
  sqe_type :: server_queue_event_type
  sqe_connectionId :: u32
  sqe_payload :: message

record net_server =
  sv_isRunning :: bool
  sv_threadJoinable :: bool
  sv_sessionManager :: session_manager
  sv_network :: tcp_server
  sv_handler :: bool
  sv_eventQueue :: "server_queue_event net_queue"

datatype server_out = SO_ClientConnected u32 seat | SO_ClientDisconnected u32
  | SO_NetworkEvent u32 client_event | SO_Net ts_out

definition net_server_new :: "tcp_server \<Rightarrow> net_server" where
  "net_server_new network =
     \<lparr>sv_isRunning = False, sv_threadJoinable = False, sv_sessionManager = session_manager_new,
      sv_network = network, sv_handler = False, sv_eventQueue = NetQueue_new\<rparr>"

subsection \<open>The network callbacks\<close>

definition server_push :: "net_server \<Rightarrow> server_queue_event \<Rightarrow> net_server" where
  "server_push sv e = sv\<lparr>sv_eventQueue := NetQueue_Push (sv_eventQueue sv) e\<rparr>"

definition server_onClientConnected :: "net_server \<Rightarrow> u32 \<Rightarrow> net_server" where
  "server_onClientConnected sv i =
     server_push sv \<lparr>sqe_type = SQ_ClientConnected, sqe_connectionId = i, sqe_payload = []\<rparr>"

definition server_onClientMessage :: "net_server \<Rightarrow> u32 \<Rightarrow> message \<Rightarrow> net_server" where
  "server_onClientMessage sv i m =
     server_push sv \<lparr>sqe_type = SQ_ClientMessage, sqe_connectionId = i, sqe_payload = m\<rparr>"

definition server_onClientDisconnected :: "net_server \<Rightarrow> u32 \<Rightarrow> net_server" where
  "server_onClientDisconnected sv i =
     server_push sv \<lparr>sqe_type = SQ_ClientDisconnected, sqe_connectionId = i, sqe_payload = []\<rparr>"

text \<open>The wiring of the constructor: which callback of the network calls which method.\<close>

fun server_callback :: "net_server \<Rightarrow> ts_out \<Rightarrow> net_server" where
  "server_callback sv (TS_Connect i) = server_onClientConnected sv i"
| "server_callback sv (TS_Message i m) = server_onClientMessage sv i m"
| "server_callback sv (TS_Disconnect i) = server_onClientDisconnected sv i"
| "server_callback sv (TS_IO i io) = sv"

subsection \<open>Starting and stopping\<close>

definition server_start :: "net_server \<Rightarrow> net_server" where
  "server_start sv =
     (if sv_isRunning sv then sv
      else sv\<lparr>sv_isRunning := True, sv_network := tcp_server_start (sv_network sv), sv_threadJoinable := True\<rparr>)"

text \<open>\<open>stop\<close> up to the join of the server thread.\<close>

definition server_stop :: "net_server \<Rightarrow> net_server \<times> server_out list" where
  "server_stop sv =
     (let sv1 = (if sv_isRunning sv
                 then server_push (sv\<lparr>sv_isRunning := False\<rparr>)
                        \<lparr>sqe_type = SQ_Shutdown, sqe_connectionId = 0, sqe_payload = []\<rparr>
                 else sv\<lparr>sv_isRunning := False\<rparr>);
          (net, out) = tcp_server_stop (sv_network sv1)
      in (sv1\<lparr>sv_network := net, sv_eventQueue := NetQueue_Release (sv_eventQueue sv1)\<rparr>, map SO_Net out))"

definition server_registerHandler :: "net_server \<Rightarrow> bool \<times> net_server" where
  "server_registerHandler sv = (if sv_handler sv then (False, sv) else (True, sv\<lparr>sv_handler := True\<rparr>))"

subsection \<open>Sending\<close>

definition server_net_send :: "u32 \<Rightarrow> message \<Rightarrow> net_server \<Rightarrow> bool \<times> net_server \<times> server_out list" where
  "server_net_send connectionId msg sv =
     (let (sent, net, out) = tcp_server_send (sv_network sv) connectionId msg
      in (sent, sv\<lparr>sv_network := net\<rparr>, map SO_Net out))"

definition server_send ::
  "'j json_api \<Rightarrow> u32 \<Rightarrow> server_event \<Rightarrow> net_server \<Rightarrow> (bool \<times> net_server \<times> server_out list) option" where
  "server_send J sessionId event sv =
     (let connectionId = getConnectionId (sv_sessionManager sv) sessionId
      in if connectionId = 0 then Some (False, sv, [])
         else do {
           message \<leftarrow> toMessage_server J event;
           Some (if message = [] then (False, sv, []) else server_net_send connectionId message sv)
         })"

definition broadcast_visitor ::
  "message \<Rightarrow> session_context \<Rightarrow> bool \<times> net_server \<times> server_out list \<Rightarrow> bool \<times> net_server \<times> server_out list" where
  "broadcast_visitor message context st =
     (case st of (anySent, sv, outs) \<Rightarrow>
        if \<not> sc_isActive context \<or> sc_seat context = SeatNone then st
        else let (sent, sv', out) = server_net_send (sc_connectionId context) message sv
             in (anySent \<or> sent, sv', outs @ out))"

definition server_broadcast ::
  "'j json_api \<Rightarrow> server_event \<Rightarrow> net_server \<Rightarrow> (bool \<times> net_server \<times> server_out list) option" where
  "server_broadcast J event sv = do {
     message \<leftarrow> toMessage_server J event;
     Some (if message = [] then (False, sv, [])
           else forEachSession (sv_sessionManager sv) (broadcast_visitor message) (False, sv, []))
   }"

definition server_getSeat :: "net_server \<Rightarrow> u32 \<Rightarrow> seat" where
  "server_getSeat sv sessionId = getSeat (sv_sessionManager sv) sessionId"

subsection \<open>Processing an event\<close>

definition freeSeat :: "session_manager \<Rightarrow> seat option" where
  "freeSeat m = do {
     black \<leftarrow> getConnectionIdBySeat m SeatBlack;
     if black = 0 then Some SeatBlack
     else do {
       white \<leftarrow> getConnectionIdBySeat m SeatWhite;
       if white = 0 then Some SeatWhite else Some SeatObserver
     }
   }"

definition processClientConnect ::
  "'j json_api \<Rightarrow> inserter \<Rightarrow> net_server \<Rightarrow> server_queue_event \<Rightarrow> (net_server \<times> server_out list) option" where
  "processClientConnect J ins sv e = do {
     (sessionId, m) \<leftarrow> sessions_add ins (sv_sessionManager sv) (sqe_connectionId e);
     st \<leftarrow> freeSeat m;
     let sv1 = sv\<lparr>sv_sessionManager := setSeat m sessionId st\<rparr>;
     (sent, sv2, out) \<leftarrow> server_send J sessionId (ServerSessionAssign sessionId) sv1;
     Some (sv2, out @ (if sv_handler sv2 then [SO_ClientConnected sessionId st] else []))
   }"

definition processClientMessage ::
  "'j json_api \<Rightarrow> net_server \<Rightarrow> server_queue_event \<Rightarrow> (net_server \<times> server_out list) option" where
  "processClientMessage J sv e =
     (let sessionId = getSessionId (sv_sessionManager sv) (sqe_connectionId e)
      in if sessionId = 0 then Some (sv, [])
         else if \<not> isPlayer (getSeat (sv_sessionManager sv) sessionId) then Some (sv, [])
         else do {
           networkEvent \<leftarrow> fromClientMessage J (sqe_payload e);
           case networkEvent of
             None \<Rightarrow> Some (sv, [])
           | Some ev \<Rightarrow> Some (sv, if sv_handler sv then [SO_NetworkEvent sessionId ev] else [])
         })"

definition processClientDisconnect :: "net_server \<Rightarrow> server_queue_event \<Rightarrow> net_server \<times> server_out list" where
  "processClientDisconnect sv e =
     (let sessionId = getSessionId (sv_sessionManager sv) (sqe_connectionId e)
      in if sessionId = 0 then (sv, [])
         else let st = getSeat (sv_sessionManager sv) sessionId;
                  sv1 = sv\<lparr>sv_sessionManager := setDisconnected (sv_sessionManager sv) sessionId\<rparr>
              in (sv1, if sv_handler sv1 \<and> isPlayer st then [SO_ClientDisconnected sessionId] else []))"

definition processShutdown :: "net_server \<Rightarrow> net_server" where
  "processShutdown sv = sv\<lparr>sv_isRunning := False\<rparr>"

definition processEvent ::
  "'j json_api \<Rightarrow> inserter \<Rightarrow> net_server \<Rightarrow> server_queue_event \<Rightarrow> (net_server \<times> server_out list) option" where
  "processEvent J ins sv e =
     (case sqe_type e of
        SQ_ClientConnected \<Rightarrow> processClientConnect J ins sv e
      | SQ_ClientDisconnected \<Rightarrow> Some (processClientDisconnect sv e)
      | SQ_ClientMessage \<Rightarrow> processClientMessage J sv e
      | SQ_Shutdown \<Rightarrow> Some (processShutdown sv, []))"

text \<open>One pass through \<open>serverLoop\<close>: it waits in \<open>Pop\<close>, leaves, or goes on. An exception thrown by \<open>Pop\<close>
  is caught: it ends the loop when the server has been stopped and is ignored otherwise.\<close>

datatype loop_pass = LoopWaits | LoopLeaves | LoopGoesOn net_server "server_out list"

definition serverLoop_pass :: "'j json_api \<Rightarrow> inserter \<Rightarrow> net_server \<Rightarrow> loop_pass option" where
  "serverLoop_pass J ins sv =
     (if \<not> sv_isRunning sv then Some LoopLeaves
      else case NetQueue_Pop (sv_eventQueue sv) of
             Blocked \<Rightarrow> Some LoopWaits
           | Thrown \<Rightarrow> Some (LoopGoesOn sv [])
           | Popped e q \<Rightarrow>
               map_option (\<lambda>(sv', out). LoopGoesOn sv' out) (processEvent J ins (sv\<lparr>sv_eventQueue := q\<rparr>) e))"

subsection \<open>The invariant\<close>

text \<open>At most one active session sits at each player's seat.\<close>

definition one_per_seat :: "session_manager \<Rightarrow> bool" where
  "one_per_seat m \<longleftrightarrow> (\<forall>i j c d. map_of (sm_sessions m) i = Some c \<longrightarrow> map_of (sm_sessions m) j = Some d \<longrightarrow>
     sc_isActive c \<longrightarrow> sc_isActive d \<longrightarrow> isPlayer (sc_seat c) \<longrightarrow> sc_seat c = sc_seat d \<longrightarrow> i = j)"

definition no_zero :: "session_manager \<Rightarrow> bool" where
  "no_zero m \<longleftrightarrow> sm_connectionToSession m 0 = None"

definition seats_ok :: "session_manager \<Rightarrow> bool" where
  "seats_ok m \<longleftrightarrow> sessions_ok m \<and> one_per_seat m \<and> no_zero m"

lemma find_seat:
  assumes ok: "sessions_ok m" and z: "no_zero m" and st: "isPlayer st"
  shows "\<exists>i. getConnectionIdBySeat m st = Some i \<and>
    (i = 0 \<longleftrightarrow> \<not> (\<exists>k c. map_of (sm_sessions m) k = Some c \<and> sc_isActive c \<and> sc_seat c = st))"
proof (cases "find (\<lambda>e. sc_isActive (snd e) \<and> sc_seat (snd e) = st) (sm_sessions m)")
  case None
  then have "\<not> (\<exists>k c. map_of (sm_sessions m) k = Some c \<and> sc_isActive c \<and> sc_seat c = st)"
    by (auto simp: find_None_iff dest!: map_of_SomeD)
  with None st show ?thesis by (auto simp: getConnectionIdBySeat_def isPlayer_def)
next
  case (Some e)
  then have "e \<in> set (sm_sessions m) \<and> sc_isActive (snd e) \<and> sc_seat (snd e) = st"
    by (auto simp: find_Some_iff)
  then obtain k c where e: "e = (k, c)" "(k, c) \<in> set (sm_sessions m)" "sc_isActive c" "sc_seat c = st"
    by (cases e) auto
  with ok have k: "map_of (sm_sessions m) k = Some c" by (simp add: sessions_ok_def)
  then have "sm_connectionToSession m (sc_connectionId c) = Some k" using ok by (auto simp: sessions_ok_def)
  with z have "sc_connectionId c \<noteq> 0" by (auto simp: no_zero_def)
  with Some e k st show ?thesis by (auto simp: getConnectionIdBySeat_def isPlayer_def)
qed

text \<open>The seat given out: Black if free, else White if free, else that of an observer.\<close>

definition taken :: "session_manager \<Rightarrow> seat \<Rightarrow> bool" where
  "taken m st \<longleftrightarrow> (\<exists>k c. map_of (sm_sessions m) k = Some c \<and> sc_isActive c \<and> sc_seat c = st)"

lemma freeSeat_eq:
  assumes "sessions_ok m" "no_zero m"
  shows "freeSeat m = Some (if \<not> taken m SeatBlack then SeatBlack else if \<not> taken m SeatWhite then SeatWhite else SeatObserver)"
proof -
  obtain b w where b: "getConnectionIdBySeat m SeatBlack = Some b" "b = 0 \<longleftrightarrow> \<not> taken m SeatBlack"
    and w: "getConnectionIdBySeat m SeatWhite = Some w" "w = 0 \<longleftrightarrow> \<not> taken m SeatWhite"
    using find_seat [OF assms, of SeatBlack] find_seat [OF assms, of SeatWhite]
    by (auto simp: isPlayer_def taken_def)
  then show ?thesis by (simp add: freeSeat_def)
qed

lemma setSeat_free_ok:
  assumes ok: "sessions_ok m" and others: "\<And>i j c d. i \<noteq> k \<Longrightarrow> j \<noteq> k \<Longrightarrow> map_of (sm_sessions m) i = Some c \<Longrightarrow>
      map_of (sm_sessions m) j = Some d \<Longrightarrow> sc_isActive c \<Longrightarrow> sc_isActive d \<Longrightarrow> isPlayer (sc_seat c) \<Longrightarrow>
      sc_seat c = sc_seat d \<Longrightarrow> i = j"
    and free: "isPlayer st \<Longrightarrow> \<not> taken m st"
  shows "one_per_seat (setSeat m k st)"
  unfolding one_per_seat_def
proof (intro allI impI)
  fix i j c d
  assume a: "map_of (sm_sessions (setSeat m k st)) i = Some c" "map_of (sm_sessions (setSeat m k st)) j = Some d"
    "sc_isActive c" "sc_isActive d" "isPlayer (sc_seat c)" "sc_seat c = sc_seat d"
  show "i = j"
  proof (cases "i = k \<or> j = k")
    case False
    with a others show ?thesis by auto
  next
    case True
    show ?thesis
    proof (rule ccontr)
      assume "i \<noteq> j"
      from True show False
      proof
        assume "i = k"
        with a \<open>i \<noteq> j\<close> have "map_of (sm_sessions m) j = Some d" "sc_seat d = st" "isPlayer st" by auto
        with a(4) free show False by (auto simp: taken_def)
      next
        assume "j = k"
        with a \<open>i \<noteq> j\<close> have "map_of (sm_sessions m) i = Some c" "sc_seat c = st" "isPlayer st" by auto
        with a(3) free show False by (auto simp: taken_def)
      qed
    qed
  qed
qed

lemma session_message:
  "json_laws J utf8 fin \<Longrightarrow> \<exists>msg. toMessage_server J (ServerSessionAssign k) = Some msg \<and> msg \<noteq> []"
  using session_roundtrip [of J utf8 fin k] by (auto simp: toMessage_server_def)

lemma server_net_send_sessions [simp]:
  "server_net_send i m sv = (r, sv', out) \<Longrightarrow> sv_sessionManager sv' = sv_sessionManager sv \<and>
    sv_handler sv' = sv_handler sv \<and> sv_isRunning sv' = sv_isRunning sv \<and> sv_eventQueue sv' = sv_eventQueue sv"
  by (auto simp: server_net_send_def split: prod.splits)

text \<open>Outputs that call no handler.\<close>

definition net_only :: "server_out list \<Rightarrow> bool" where
  "net_only outs \<longleftrightarrow> (\<forall>x \<in> set outs. \<exists>y. x = SO_Net y)"

lemma net_only_simps [simp]:
  "net_only []" "net_only (map SO_Net ys)" "net_only (outs @ outs') \<longleftrightarrow> net_only outs \<and> net_only outs'"
  by (auto simp: net_only_def)

lemma server_net_send_network:
  assumes "server_net_send i m sv = (r, sv', out)"
  shows "ts_CONN_ID (sv_network sv') = ts_CONN_ID (sv_network sv)" "net_only out"
    "server_ok (sv_network sv) \<Longrightarrow> server_ok (sv_network sv')"
proof -
  obtain r1 net o1 where t: "tcp_server_send (sv_network sv) i m = (r1, net, o1)" by (metis prod_cases3)
  with assms have e: "sv' = sv\<lparr>sv_network := net\<rparr>" "out = map SO_Net o1"
    by (auto simp: server_net_send_def)
  from tcp_send_CONN_ID [OF t] e show "ts_CONN_ID (sv_network sv') = ts_CONN_ID (sv_network sv)" "net_only out"
    by simp_all
  show "server_ok (sv_network sv')" if "server_ok (sv_network sv)" using send_step [OF that t] e by simp
qed

text \<open>What a server keeps when it only sends.\<close>

definition sends_only :: "net_server \<Rightarrow> net_server \<Rightarrow> bool" where
  "sends_only sv sv' \<longleftrightarrow> sv_sessionManager sv' = sv_sessionManager sv \<and> sv_handler sv' = sv_handler sv \<and>
     sv_isRunning sv' = sv_isRunning sv \<and> sv_eventQueue sv' = sv_eventQueue sv \<and>
     ts_CONN_ID (sv_network sv') = ts_CONN_ID (sv_network sv) \<and>
     (server_ok (sv_network sv) \<longrightarrow> server_ok (sv_network sv'))"

lemma sends_only_refl [simp]: "sends_only sv sv"
  by (simp add: sends_only_def)

lemma sends_only_trans: "sends_only a b \<Longrightarrow> sends_only b c \<Longrightarrow> sends_only a c"
  by (simp add: sends_only_def)

lemma net_send_only:
  "server_net_send i m sv = (r, sv', out) \<Longrightarrow> sends_only sv sv' \<and> net_only out"
  using server_net_send_network [of i m sv r sv' out] server_net_send_sessions [of i m sv r sv' out]
  by (simp add: sends_only_def)

lemma server_send_session:
  assumes "json_laws J utf8 fin"
  obtains r sv' out where "server_send J i (ServerSessionAssign k) sv = Some (r, sv', out)"
    "sends_only sv sv'" "net_only out"
proof -
  from session_message [OF assms, of k] obtain msg where "toMessage_server J (ServerSessionAssign k) = Some msg" "msg \<noteq> []"
    by blast
  then have s: "server_send J i (ServerSessionAssign k) sv =
      Some (if getConnectionId (sv_sessionManager sv) i = 0 then (False, sv, [])
            else server_net_send (getConnectionId (sv_sessionManager sv) i) msg sv)"
    by (simp add: server_send_def Let_def)
  obtain r sv' out where n: "server_net_send (getConnectionId (sv_sessionManager sv) i) msg sv = (r, sv', out)"
    by (metis prod_cases3)
  show ?thesis
  proof (cases "getConnectionId (sv_sessionManager sv) i = 0")
    case True
    with s that [of False sv "[]"] show ?thesis by simp
  next
    case False
    with s n that [of r sv' out] net_send_only [OF n] show ?thesis by simp
  qed
qed

text \<open>Connecting: the seat of the session is free, and the invariant is kept.\<close>

lemma processClientConnect_ok:
  assumes ok: "seats_ok (sv_sessionManager sv)" and ins: "inserts ins" and laws: "json_laws J utf8 fin"
    and room: "length (sm_sessions (sv_sessionManager sv)) < 2 ^ 32 - 1" and i: "sqe_connectionId e \<noteq> 0"
  obtains k m1 sv' out where "sessions_add ins (sv_sessionManager sv) (sqe_connectionId e) = Some (k, m1)"
    "processClientConnect J ins sv e = Some (sv', out @ (if sv_handler sv
      then [SO_ClientConnected k (getSeat (sv_sessionManager sv') k)] else []))"
    "seats_ok (sv_sessionManager sv')"
    "getSeat (sv_sessionManager sv') k =
      (if \<not> taken m1 SeatBlack then SeatBlack else if \<not> taken m1 SeatWhite then SeatWhite else SeatObserver)"
    "getSessionId (sv_sessionManager sv') (sqe_connectionId e) = k" "k \<noteq> 0"
    "\<exists>c. map_of (sm_sessions (sv_sessionManager sv')) k = Some c \<and> sc_isActive c"
    "sm_connectionToSession (sv_sessionManager sv) (sqe_connectionId e) = None \<Longrightarrow>
      map_of (sm_sessions (sv_sessionManager sv)) k = None"
    "sm_connectionToSession (sv_sessionManager sv') =
      (sm_connectionToSession (sv_sessionManager sv))(sqe_connectionId e \<mapsto> k)"
    "sends_only (sv\<lparr>sv_sessionManager := sv_sessionManager sv'\<rparr>) sv'" "net_only out"
    "\<And>j. j \<noteq> k \<Longrightarrow> map_of (sm_sessions (sv_sessionManager sv')) j = map_of (sm_sessions (sv_sessionManager sv)) j"
proof -
  let ?m = "sv_sessionManager sv" and ?i = "sqe_connectionId e"
  from ok have m: "sessions_ok ?m" "one_per_seat ?m" "no_zero ?m" by (auto simp: seats_ok_def)
  obtain k m1 where
    add: "sessions_add ins ?m ?i = Some (k, m1)" and m1: "sessions_ok m1" and k: "k \<noteq> 0"
    and gs: "getSessionId m1 ?i = k" and gc: "getConnectionId m1 k = ?i"
    and cs: "sm_connectionToSession m1 = (sm_connectionToSession ?m)(?i \<mapsto> k)"
    and same: "\<And>j. j \<noteq> k \<Longrightarrow> map_of (sm_sessions m1) j = map_of (sm_sessions ?m) j"
    and kind: "case sm_connectionToSession ?m ?i of
       Some k' \<Rightarrow> k' = k \<and> map_of (sm_sessions m1) k = map_option (\<lambda>c. c\<lparr>sc_isActive := True\<rparr>) (map_of (sm_sessions ?m) k)
     | None \<Rightarrow> map_of (sm_sessions ?m) k = None \<and> map_of (sm_sessions m1) k =
         Some \<lparr>sc_connectionId = ?i, sc_sessionId = k, sc_seat = SeatNone, sc_isActive = True\<rparr>"
    by (rule add_spec [OF m(1) ins room, of ?i]) blast
  have ck: "\<exists>c. map_of (sm_sessions m1) k = Some c \<and> sc_connectionId c = ?i"
    using gc i by (auto simp: getConnectionId_def split: option.splits)
  have nz: "no_zero m1"
  proof (rule ccontr)
    assume "\<not> no_zero m1"
    then obtain l where "sm_connectionToSession m1 0 = Some l" by (auto simp: no_zero_def)
    with m1 obtain c where c: "map_of (sm_sessions m1) l = Some c" "sc_connectionId c = 0"
      by (auto simp: sessions_ok_def)
    then have "l \<noteq> k" using ck i by auto
    with c same have "map_of (sm_sessions ?m) l = Some c" by simp
    with c(2) m(1) have "sm_connectionToSession ?m 0 = Some l" by (auto simp: sessions_ok_def)
    with m(3) show False by (simp add: no_zero_def)
  qed
  define st where "st = (if \<not> taken m1 SeatBlack then SeatBlack else if \<not> taken m1 SeatWhite then SeatWhite else SeatObserver)"
  have free: "freeSeat m1 = Some st" unfolding st_def using m1 nz by (rule freeSeat_eq)
  let ?m2 = "setSeat m1 k st"
  have "one_per_seat ?m2"
  proof (rule setSeat_free_ok [OF m1])
    show "isPlayer st \<Longrightarrow> \<not> taken m1 st" by (auto simp: st_def isPlayer_def split: if_splits)
  next
    fix i j c d
    assume "i \<noteq> k" "j \<noteq> k" "map_of (sm_sessions m1) i = Some c" "map_of (sm_sessions m1) j = Some d"
      "sc_isActive c" "sc_isActive d" "isPlayer (sc_seat c)" "sc_seat c = sc_seat d"
    with m(2) same show "i = j" unfolding one_per_seat_def by metis
  qed
  moreover have "sm_connectionToSession ?m2 = sm_connectionToSession m1"
    by (simp add: setSeat_def split: option.splits)
  ultimately have ok2: "seats_ok ?m2" using setSeat_ok [OF m1] nz
    by (simp add: seats_ok_def no_zero_def)
  obtain r sv2 out where sent: "server_send J k (ServerSessionAssign k) (sv\<lparr>sv_sessionManager := ?m2\<rparr>) = Some (r, sv2, out)"
    and only: "sends_only (sv\<lparr>sv_sessionManager := ?m2\<rparr>) sv2" "net_only out"
    by (rule server_send_session [OF laws])
  from sent only(1) have send: "server_send J k (ServerSessionAssign k) (sv\<lparr>sv_sessionManager := ?m2\<rparr>) = Some (r, sv2, out)"
    "sv_sessionManager sv2 = ?m2" "sv_handler sv2 = sv_handler sv"
    by (simp_all add: sends_only_def)
  have seat: "getSeat ?m2 k = st" using ck by (auto simp: getSeat_def)
  have pc: "processClientConnect J ins sv e =
      Some (sv2, out @ (if sv_handler sv then [SO_ClientConnected k st] else []))"
    using add free send by (simp add: processClientConnect_def Let_def)
  show ?thesis
  proof (rule that [of k m1 sv2 out])
    show "getSessionId (sv_sessionManager sv2) (sqe_connectionId e) = k"
      using gs send(2) \<open>sm_connectionToSession ?m2 = sm_connectionToSession m1\<close> by (simp add: getSessionId_def)
    show "\<And>j. j \<noteq> k \<Longrightarrow> map_of (sm_sessions (sv_sessionManager sv2)) j = map_of (sm_sessions ?m) j"
      using same send(2) by simp
    show "\<exists>c. map_of (sm_sessions (sv_sessionManager sv2)) k = Some c \<and> sc_isActive c"
      using kind ck send(2) by (auto split: option.splits)
    show "sm_connectionToSession ?m ?i = None \<Longrightarrow> map_of (sm_sessions ?m) k = None" using kind by simp
    show "sm_connectionToSession (sv_sessionManager sv2) = (sm_connectionToSession ?m)(?i \<mapsto> k)"
      using cs send(2) \<open>sm_connectionToSession ?m2 = sm_connectionToSession m1\<close> by simp
    show "sends_only (sv\<lparr>sv_sessionManager := sv_sessionManager sv2\<rparr>) sv2" using only(1) send(2) by simp
  qed (use add pc ok2 send(2) seat st_def k only(2) in simp_all)
qed

lemma disconnect_seats_ok:
  assumes "seats_ok m"
  shows "seats_ok (setDisconnected m k)"
proof -
  have "sm_connectionToSession (setDisconnected m k) = sm_connectionToSession m"
    by (simp add: setDisconnected_def split: option.splits)
  moreover have "one_per_seat (setDisconnected m k)"
    using assms unfolding seats_ok_def one_per_seat_def by (auto split: if_splits)
  ultimately show ?thesis using assms by (simp add: seats_ok_def no_zero_def setDisconnected_ok)
qed

lemma processEvent_ok:
  assumes ok: "seats_ok (sv_sessionManager sv)" and ins: "inserts ins" and laws: "json_laws J utf8 fin"
    and room: "length (sm_sessions (sv_sessionManager sv)) < 2 ^ 32 - 1"
    and i: "sqe_type e = SQ_ClientConnected \<longrightarrow> sqe_connectionId e \<noteq> 0"
  shows "\<exists>sv' out. processEvent J ins sv e = Some (sv', out) \<and> seats_ok (sv_sessionManager sv')"
proof (cases "sqe_type e")
  case SQ_ClientConnected
  with i have "sqe_connectionId e \<noteq> 0" by simp
  from processClientConnect_ok [OF ok ins laws room this] show ?thesis
    by (metis SQ_ClientConnected processEvent_def server_queue_event_type.simps(13))
next
  case SQ_ClientDisconnected
  with ok show ?thesis
    by (simp add: processEvent_def processClientDisconnect_def Let_def disconnect_seats_ok)
next
  case SQ_ClientMessage
  obtain r where "fromClientMessage J (sqe_payload e) = Some r"
    using fromClientMessage_total [OF laws, of "sqe_payload e"] by auto
  with SQ_ClientMessage ok show ?thesis
    by (simp add: processEvent_def processClientMessage_def Let_def split: option.split)
next
  case SQ_Shutdown
  with ok show ?thesis by (simp add: processEvent_def processShutdown_def)
qed

subsection \<open>Runs of the server thread\<close>

text \<open>The number of sessions grows by one at most.\<close>

lemma sessions_length:
  assumes "sessions_ok m" "sessions_ok m'"
    and same: "\<And>j. j \<noteq> k \<Longrightarrow> map_of (sm_sessions m') j = map_of (sm_sessions m) j"
  shows "length (sm_sessions m') \<le> Suc (length (sm_sessions m))"
proof -
  have keys: "card (dom (map_of (sm_sessions n))) = length (sm_sessions n)" if "sessions_ok n" for n
    using that distinct_card [of "map fst (sm_sessions n)"] by (simp add: sessions_ok_def dom_map_of_conv_image_fst)
  have "dom (map_of (sm_sessions m')) \<subseteq> insert k (dom (map_of (sm_sessions m)))"
    using same by (auto simp: dom_def)
  from card_mono [OF _ this] have "card (dom (map_of (sm_sessions m'))) \<le> Suc (card (dom (map_of (sm_sessions m))))"
    by (simp add: finite_dom_map_of card_insert_if split: if_splits)
  then show ?thesis using keys assms(1,2) by simp
qed

text \<open>What an event does to the sessions, and what it hands to the handler.\<close>

definition event_ok :: "server_queue_event \<Rightarrow> bool" where
  "event_ok e \<longleftrightarrow> (sqe_type e = SQ_ClientConnected \<longrightarrow> sqe_connectionId e \<noteq> 0)"

lemma setDisconnected_length [simp]: "length (sm_sessions (setDisconnected m k)) = length (sm_sessions m)"
  by (simp add: setDisconnected_def split: option.split)

lemma processEvent_grows:
  assumes "seats_ok (sv_sessionManager sv)" "inserts ins" "json_laws J utf8 fin"
    and "length (sm_sessions (sv_sessionManager sv)) < 2 ^ 32 - 1" "event_ok e"
    and p: "processEvent J ins sv e = Some (sv', out)"
  shows "length (sm_sessions (sv_sessionManager sv')) \<le> Suc (length (sm_sessions (sv_sessionManager sv)))"
proof (cases "sqe_type e")
  case SQ_ClientConnected
  with assms(5) have "sqe_connectionId e \<noteq> 0" by (simp add: event_ok_def)
  from processClientConnect_ok [OF assms(1-4) this] obtain k sv1 out1 where
    c: "processClientConnect J ins sv e = Some (sv1, out1)" and ok: "seats_ok (sv_sessionManager sv1)"
    and same: "\<And>j. j \<noteq> k \<Longrightarrow> map_of (sm_sessions (sv_sessionManager sv1)) j = map_of (sm_sessions (sv_sessionManager sv)) j"
    by metis
  from c p SQ_ClientConnected have "sv' = sv1" by (simp add: processEvent_def)
  with sessions_length [of "sv_sessionManager sv" "sv_sessionManager sv1" k] assms(1) ok same
  show ?thesis by (simp add: seats_ok_def)
next
  case SQ_ClientMessage
  with p show ?thesis
    by (auto simp: processEvent_def processClientMessage_def Let_def bind_eq_Some_conv split: if_splits option.splits)
qed (use p in \<open>auto simp: processEvent_def processClientDisconnect_def processShutdown_def Let_def split: if_splits\<close>)

text \<open>The events the server thread takes from its queue, one after the other.\<close>

fun server_events ::
  "'j json_api \<Rightarrow> inserter \<Rightarrow> net_server \<Rightarrow> server_queue_event list \<Rightarrow> (net_server \<times> server_out list) option" where
  "server_events J ins sv [] = Some (sv, [])"
| "server_events J ins sv (e # es) = do {
     (sv1, out) \<leftarrow> processEvent J ins sv e;
     (sv2, out') \<leftarrow> server_events J ins sv1 es;
     Some (sv2, out @ out')
   }"

lemma server_events_ok:
  assumes "seats_ok (sv_sessionManager sv)" "inserts ins" "json_laws J utf8 fin" "\<forall>e \<in> set es. event_ok e"
    and "length (sm_sessions (sv_sessionManager sv)) + length es < 2 ^ 32"
  shows "\<exists>sv' out. server_events J ins sv es = Some (sv', out) \<and> seats_ok (sv_sessionManager sv')"
  using assms(1,4,5)
proof (induction es arbitrary: sv)
  case Nil
  then show ?case by simp
next
  case (Cons e es)
  then have r: "length (sm_sessions (sv_sessionManager sv)) < 2 ^ 32 - 1" "event_ok e" by simp_all
  then obtain sv1 out where 1: "processEvent J ins sv e = Some (sv1, out)" "seats_ok (sv_sessionManager sv1)"
    using processEvent_ok [OF Cons.prems(1) assms(2,3), of e] unfolding event_ok_def by blast
  from processEvent_grows [OF Cons.prems(1) assms(2,3) r 1(1)] Cons.prems(3)
  have "length (sm_sessions (sv_sessionManager sv1)) + length es < 2 ^ 32" by simp
  from Cons.IH [OF 1(2) _ this] Cons.prems(2) obtain sv2 out2 where
    "server_events J ins sv1 es = Some (sv2, out2)" "seats_ok (sv_sessionManager sv2)" by auto
  with 1(1) show ?case by simp
qed

lemma new_seats_ok: "seats_ok (sv_sessionManager (net_server_new net))"
  using sessions_new_ok by (simp add: net_server_new_def seats_ok_def one_per_seat_def no_zero_def session_manager_new_def)

text \<open>What reaches the handler as a client's event comes from a session with a player's seat, and is what
  the message says.\<close>

lemma server_send_net_only: "server_send J i ev sv = Some (r, sv', out) \<Longrightarrow> net_only out"
  by (auto simp: server_send_def Let_def bind_eq_Some_conv split: if_splits dest: net_send_only)

lemma connect_outputs:
  assumes "processClientConnect J ins sv e = Some (sv', out)"
  obtains out1 k st where "net_only out1" "out = out1 @ (if sv_handler sv' then [SO_ClientConnected k st] else [])"
  using assms by (auto simp: processClientConnect_def Let_def bind_eq_Some_conv dest: server_send_net_only)

lemma network_event_source:
  assumes p: "processEvent J ins sv e = Some (sv', out)" and i: "SO_NetworkEvent k ev \<in> set out"
  shows "sqe_type e = SQ_ClientMessage \<and> k = getSessionId (sv_sessionManager sv) (sqe_connectionId e) \<and> k \<noteq> 0 \<and>
    isPlayer (getSeat (sv_sessionManager sv) k) \<and> fromClientMessage J (sqe_payload e) = Some (Some ev)"
proof (cases "sqe_type e")
  case SQ_ClientConnected
  with p have "processClientConnect J ins sv e = Some (sv', out)" by (simp add: processEvent_def)
  then obtain out1 j st where "net_only out1" "out = out1 @ (if sv_handler sv' then [SO_ClientConnected j st] else [])"
    by (rule connect_outputs)
  with i have False by (auto simp: net_only_def split: if_splits)
  then show ?thesis ..
next
  case SQ_ClientMessage
  with p i show ?thesis
    by (auto simp: processEvent_def processClientMessage_def Let_def bind_eq_Some_conv split: if_splits option.splits)
next
  case SQ_ClientDisconnected
  with p i show ?thesis by (auto simp: processEvent_def processClientDisconnect_def Let_def split: if_splits)
next
  case SQ_Shutdown
  with p i show ?thesis by (simp add: processEvent_def)
qed

subsection \<open>Broadcasting\<close>

lemma tcp_send_held: "tcp_server_send s i m = (r, s', out) \<Longrightarrow> held s' j = held s j"
proof -
  assume a: "tcp_server_send s i m = (r, s', out)"
  show ?thesis
  proof (cases "map_of (ts_connections s) i")
    case None
    with a show ?thesis by (simp add: tcp_server_send_def)
  next
    case (Some c)
    define io where "io = snd (conn_send c m)"
    have io: "conn_send c m = (c, io)" "\<forall>j. CB_Disconnect j \<notin> set io" by (simp_all add: conn_send_def io_def)
    have "on_connection s i (\<lambda>c. conn_send c m) = relay_all i io (set_connection s i c)"
      using Some io(1) by (rule on_connection_eq)
    with a Some io(2) have "s' = set_connection s i c" by (auto simp: tcp_server_send_def relay_all_quiet)
    then show ?thesis by simp
  qed
qed

lemma broadcast_visitor_only:
  "broadcast_visitor msg c (any, sv, outs) = (r, sv', out) \<Longrightarrow> net_only outs \<Longrightarrow> sends_only sv sv' \<and> net_only out"
  by (auto simp: broadcast_visitor_def split: if_splits prod.splits dest: net_send_only)

lemma broadcast_only:
  "fold (broadcast_visitor msg) cs (any, sv, outs) = (r, sv', out) \<Longrightarrow> net_only outs \<Longrightarrow>
    sends_only sv sv' \<and> net_only out"
proof (induction cs arbitrary: any sv outs)
  case (Cons c cs)
  obtain any1 sv1 outs1 where v: "broadcast_visitor msg c (any, sv, outs) = (any1, sv1, outs1)"
    by (metis prod_cases3)
  from broadcast_visitor_only [OF this Cons.prems(2)] have 1: "sends_only sv sv1" "net_only outs1" by simp_all
  from Cons.prems(1) v have "fold (broadcast_visitor msg) cs (any1, sv1, outs1) = (r, sv', out)" by simp
  from Cons.IH [OF this 1(2)] 1(1) show ?case by (auto intro: sends_only_trans)
qed simp

lemma server_broadcast_only:
  "server_broadcast J ev sv = Some (r, sv', out) \<Longrightarrow> sends_only sv sv' \<and> net_only out"
  by (auto simp: server_broadcast_def forEachSession_def bind_eq_Some_conv split: if_splits dest: broadcast_only)

definition recipients :: "session_manager \<Rightarrow> u32 list" where
  "recipients m = map sc_connectionId
     (filter (\<lambda>c. sc_isActive c \<and> sc_seat c \<noteq> SeatNone) (map snd (sm_sessions m)))"

definition posts :: "tcp_server \<Rightarrow> message \<Rightarrow> u32 list \<Rightarrow> server_out list" where
  "posts net msg is = map (\<lambda>i. SO_Net (TS_IO i (IO_Post msg))) (filter (\<lambda>i. held net i \<and> fits msg) is)"

lemma broadcast_fold:
  assumes "server_ok (sv_network sv)"
  shows "\<exists>sv'. fold (broadcast_visitor msg) cs (any, sv, outs) =
      (any \<or> (\<exists>i \<in> set (map sc_connectionId (filter (\<lambda>c. sc_isActive c \<and> sc_seat c \<noteq> SeatNone) cs)). held (sv_network sv) i),
       sv', outs @ posts (sv_network sv) msg (map sc_connectionId (filter (\<lambda>c. sc_isActive c \<and> sc_seat c \<noteq> SeatNone) cs))) \<and>
    sv_sessionManager sv' = sv_sessionManager sv \<and> sv_handler sv' = sv_handler sv \<and>
    server_ok (sv_network sv') \<and> (\<forall>j. held (sv_network sv') j = held (sv_network sv) j)"
  using assms
proof (induction cs arbitrary: any sv outs)
  case Nil
  then show ?case by (simp add: posts_def)
next
  case (Cons c cs)
  show ?case
  proof (cases "sc_isActive c \<and> sc_seat c \<noteq> SeatNone")
    case False
    with Cons show ?thesis by (auto simp: broadcast_visitor_def)
  next
    case True
    let ?i = "sc_connectionId c"
    obtain r net out where t: "tcp_server_send (sv_network sv) ?i msg = (r, net, out)" by (metis prod_cases3)
    from send_step [OF Cons.prems t] have s: "server_ok net" "r \<longleftrightarrow> held (sv_network sv) ?i"
      "held (sv_network sv) ?i \<Longrightarrow> out = (if fits msg then [TS_IO ?i (IO_Post msg)] else [])" by auto
    have o: "\<not> held (sv_network sv) ?i \<Longrightarrow> out = []"
      using t by (auto simp: tcp_server_send_def held_map_of)
    have h: "held net j = held (sv_network sv) j" for j using t by (rule tcp_send_held)
    let ?sv1 = "sv\<lparr>sv_network := net\<rparr>"
    have v: "broadcast_visitor msg c (any, sv, outs) = (any \<or> r, ?sv1, outs @ map SO_Net out)"
      using True t by (simp add: broadcast_visitor_def server_net_send_def)
    have "server_ok (sv_network ?sv1)" using s(1) by simp
    from Cons.IH [OF this, of "any \<or> r" "outs @ map SO_Net out"] show ?thesis
      using True s o h by (cases "held (sv_network sv) ?i") (auto simp: v posts_def)
  qed
qed

lemma server_broadcast_eq:
  assumes "server_ok (sv_network sv)" "toMessage_server J ev = Some msg" "msg \<noteq> []"
  shows "\<exists>sv'. server_broadcast J ev sv =
      Some (\<exists>i \<in> set (recipients (sv_sessionManager sv)). held (sv_network sv) i, sv',
            posts (sv_network sv) msg (recipients (sv_sessionManager sv))) \<and>
    sv_sessionManager sv' = sv_sessionManager sv \<and> sv_handler sv' = sv_handler sv \<and>
    server_ok (sv_network sv') \<and> (\<forall>j. held (sv_network sv') j = held (sv_network sv) j)"
  using assms broadcast_fold [OF assms(1), of msg "map snd (sm_sessions (sv_sessionManager sv))" False "[]"]
  by (simp add: server_broadcast_def forEachSession_def recipients_def)

end
