(* ===== verification/Tcp_Client.thy ===== *)
theory Tcp_Client imports Protocol begin

text \<open>
  \<open>src/net/core/tcpClient.cpp\<close>: the blocking client. The resolver and the socket of asio are the
  parameter \<open>socket_api\<close> over a state of their own; an error code and an exception are both the result
  that the code treats the same way. \<open>reads_stream\<close> is the documented behaviour of \<open>asio::read\<close>: exactly
  the bytes asked for, in the order they arrived, or an error.
\<close>

record ('s, 'e) socket_api =
  sk_resolve :: "string \<Rightarrow> u16 \<Rightarrow> 's \<Rightarrow> 'e option \<times> 's"
  sk_connect :: "'e \<Rightarrow> 's \<Rightarrow> bool \<times> 's"
  sk_close :: "'s \<Rightarrow> 's"
  sk_write :: "string \<Rightarrow> 's \<Rightarrow> bool \<times> 's"
  sk_read :: "nat \<Rightarrow> 's \<Rightarrow> string option \<times> 's"

definition reads_stream :: "('s, 'e) socket_api \<Rightarrow> ('s \<Rightarrow> string) \<Rightarrow> bool" where
  "reads_stream S inp \<longleftrightarrow> (\<forall>n s. if n \<le> length (inp s)
     then fst (sk_read S n s) = Some (take n (inp s)) \<and> inp (snd (sk_read S n s)) = drop n (inp s)
     else fst (sk_read S n s) = None)"

record 's tcp_client =
  tc_socket :: 's
  tc_isConnected :: bool

definition tcp_client_new :: "'s \<Rightarrow> 's tcp_client" where
  "tcp_client_new s = \<lparr>tc_socket = s, tc_isConnected = False\<rparr>"

definition tcp_client_connect ::
  "('s, 'e) socket_api \<Rightarrow> string \<Rightarrow> u16 \<Rightarrow> 's tcp_client \<Rightarrow> bool \<times> 's tcp_client" where
  "tcp_client_connect S host port c =
     (if tc_isConnected c then (False, c)
      else case sk_resolve S host port (tc_socket c) of
             (None, s1) \<Rightarrow> (False, c\<lparr>tc_socket := s1\<rparr>)
           | (Some endpoints, s1) \<Rightarrow>
               (case sk_connect S endpoints s1 of
                  (False, s2) \<Rightarrow> (False, c\<lparr>tc_socket := s2\<rparr>)
                | (True, s2) \<Rightarrow> (True, c\<lparr>tc_socket := s2, tc_isConnected := True\<rparr>)))"

definition tcp_client_disconnect :: "('s, 'e) socket_api \<Rightarrow> 's tcp_client \<Rightarrow> 's tcp_client" where
  "tcp_client_disconnect S c = c\<lparr>tc_socket := sk_close S (tc_socket c), tc_isConnected := False\<rparr>"

definition tcp_client_send ::
  "bool \<Rightarrow> ('s, 'e) socket_api \<Rightarrow> message \<Rightarrow> 's tcp_client \<Rightarrow> bool \<times> 's tcp_client" where
  "tcp_client_send big S msg c =
     (if \<not> tc_isConnected c then (False, c)
      else if length msg > unat MAX_PAYLOAD_BYTES then (False, c)
      else let header = header_bytes big (to_network_u32 big (of_nat (length msg)))
           in case sk_write S (header @ msg) (tc_socket c) of
                (False, s) \<Rightarrow> (False, tcp_client_disconnect S (c\<lparr>tc_socket := s\<rparr>))
              | (True, s) \<Rightarrow> (True, c\<lparr>tc_socket := s\<rparr>))"

definition read_header ::
  "bool \<Rightarrow> ('s, 'e) socket_api \<Rightarrow> 's tcp_client \<Rightarrow> u32 option \<times> 's tcp_client" where
  "read_header big S c =
     (case sk_read S 4 (tc_socket c) of
        (None, s) \<Rightarrow> (None, tcp_client_disconnect S (c\<lparr>tc_socket := s\<rparr>))
      | (Some h, s) \<Rightarrow> (Some (header_of_bytes big h), c\<lparr>tc_socket := s\<rparr>))"

definition read_payload ::
  "('s, 'e) socket_api \<Rightarrow> u32 \<Rightarrow> 's tcp_client \<Rightarrow> message option \<times> 's tcp_client" where
  "read_payload S expected_bytes c =
     (if expected_bytes = 0 then (Some [], c)
      else case sk_read S (unat expected_bytes) (tc_socket c) of
             (None, s) \<Rightarrow> (None, tcp_client_disconnect S (c\<lparr>tc_socket := s\<rparr>))
           | (Some p, s) \<Rightarrow> (Some p, c\<lparr>tc_socket := s\<rparr>))"

definition tcp_client_read ::
  "bool \<Rightarrow> ('s, 'e) socket_api \<Rightarrow> 's tcp_client \<Rightarrow> message \<times> 's tcp_client" where
  "tcp_client_read big S c =
     (case read_header big S c of
        (None, c1) \<Rightarrow> ([], c1)
      | (Some header, c1) \<Rightarrow>
          (let payload_size = from_network_u32 big header
           in if payload_size > MAX_PAYLOAD_BYTES then ([], tcp_client_disconnect S c1)
              else case read_payload S payload_size c1 of
                     (None, c2) \<Rightarrow> ([], c2)
                   | (Some payload, c2) \<Rightarrow> (payload, c2)))"

subsection \<open>Reading frames\<close>

lemma sk_read_ok:
  "reads_stream S inp \<Longrightarrow> n \<le> length (inp s) \<Longrightarrow> \<exists>s'. sk_read S n s = (Some (take n (inp s)), s') \<and> inp s' = drop n (inp s)"
proof -
  assume "reads_stream S inp" "n \<le> length (inp s)"
  then have "fst (sk_read S n s) = Some (take n (inp s))" "inp (snd (sk_read S n s)) = drop n (inp s)"
    unfolding reads_stream_def by presburger+
  then show ?thesis by (metis prod.collapse)
qed

lemma sk_read_short:
  "reads_stream S inp \<Longrightarrow> length (inp s) < n \<Longrightarrow> \<exists>s'. sk_read S n s = (None, s')"
  by (cases "sk_read S n s") (metis fst_conv leD reads_stream_def)

text \<open>A frame in the stream is read as its message, whoever wrote it, and the rest stays.\<close>

lemma tcp_client_read_frame:
  assumes S: "reads_stream S inp" and inp: "inp (tc_socket c) = frame m @ rest" and m: "fits m"
  shows "\<exists>c'. tcp_client_read big S c = (m, c') \<and> inp (tc_socket c') = rest \<and>
    tc_isConnected c' = tc_isConnected c"
proof -
  let ?h = "frame_header True m"
  have i: "inp (tc_socket c) = ?h @ m @ rest" using inp by (simp add: frame_def)
  from sk_read_ok [OF S, of 4 "tc_socket c"] i obtain s1 where s1: "sk_read S 4 (tc_socket c) = (Some ?h, s1)"
    "inp s1 = m @ rest" by auto
  let ?c1 = "c\<lparr>tc_socket := s1\<rparr>"
  have rh: "read_header big S c = (Some (header_of_bytes big ?h), ?c1)" by (simp add: read_header_def s1(1))
  have size: "from_network_u32 big (header_of_bytes big ?h) = of_nat (length m)" by (rule frame_header_value)
  have le: "\<not> (of_nat (length m) :: u32) > MAX_PAYLOAD_BYTES" using fits_length(2) [OF m] by simp
  show ?thesis
  proof (cases "m = []")
    case True
    then have "read_payload S (of_nat (length m)) ?c1 = (Some m, ?c1)" by (simp add: read_payload_def)
    with True le rh size s1(2) show ?thesis by (simp add: tcp_client_read_def Let_def)
  next
    case False
    then have nz: "(of_nat (length m) :: u32) \<noteq> 0" using fits_length(1) [OF m] by (metis length_0_conv unsigned_0)
    from sk_read_ok [OF S, of "length m" s1] s1(2) obtain s2 where s2: "sk_read S (length m) s1 = (Some m, s2)"
      "inp s2 = rest" by auto
    have "read_payload S (of_nat (length m)) ?c1 = (Some m, ?c1\<lparr>tc_socket := s2\<rparr>)"
      using nz s2(1) fits_length(1) [OF m] by (simp only: read_payload_def) simp
    with le rh size s2(2) show ?thesis by (simp add: tcp_client_read_def Let_def)
  qed
qed

text \<open>At the end of the stream the client disconnects and returns the empty message.\<close>

lemma tcp_client_read_end:
  assumes "reads_stream S inp" "length (inp (tc_socket c)) < 4"
  shows "\<exists>c'. tcp_client_read big S c = ([], c') \<and> \<not> tc_isConnected c'"
  using sk_read_short [OF assms] by (auto simp: tcp_client_read_def read_header_def tcp_client_disconnect_def)

end
