(* ===== verification/Net_Client.thy ===== *)
theory Net_Client imports Tcp_Client Nw_Events begin

text \<open>
  \<open>src/net/network/client.cpp\<close>: the client of the game. A thread reads messages and hands them to the
  handler; the other operations run on the caller's thread. \<open>None\<close> is \<open>std::terminate\<close> (a thread
  assigned over a joinable one) or an exception of the JSON library that leaves \<open>send\<close>; the loop catches
  every exception. The pass through the loop of
  \<open>readLoop\<close> is one step; a \<open>join\<close> is the step that is enabled once the thread has finished.
\<close>

datatype read_thread = NoThread | ThreadRuns | ThreadFinished

record 's net_client =
  cl_client :: "'s tcp_client"
  cl_running :: bool
  cl_readThread :: read_thread
  cl_handler :: bool
  cl_sessionId :: u32

datatype client_call = OnGameConfig server_game_config | OnGameUpdate server_delta
  | OnChatMessage server_chat | OnDisconnected

definition net_client_new :: "'s \<Rightarrow> 's net_client" where
  "net_client_new s = \<lparr>cl_client = tcp_client_new s, cl_running = False, cl_readThread = NoThread,
     cl_handler = False, cl_sessionId = 0\<rparr>"

definition client_registerHandler :: "'s net_client \<Rightarrow> bool \<times> 's net_client" where
  "client_registerHandler c = (if cl_handler c then (False, c) else (True, c\<lparr>cl_handler := True\<rparr>))"

definition client_startReadLoop :: "'s net_client \<Rightarrow> 's net_client option" where
  "client_startReadLoop c =
     (if cl_running c then Some c
      else if cl_readThread c \<noteq> NoThread then None
      else Some (c\<lparr>cl_running := True, cl_readThread := ThreadRuns\<rparr>))"

definition client_connect ::
  "('s, 'e) socket_api \<Rightarrow> string \<Rightarrow> u16 \<Rightarrow> 's net_client \<Rightarrow> (bool \<times> 's net_client) option" where
  "client_connect S host port c =
     (if tc_isConnected (cl_client c) then Some (False, c)
      else let (ok, tcp) = tcp_client_connect S host port (cl_client c);
               c1 = c\<lparr>cl_client := tcp\<rparr>
           in if ok then map_option (\<lambda>c2. (True, c2)) (client_startReadLoop c1) else Some (False, c1))"

text \<open>\<open>disconnect\<close> up to the join of the read thread; the flag says whether there is one to join.\<close>

definition client_disconnect :: "('s, 'e) socket_api \<Rightarrow> 's net_client \<Rightarrow> 's net_client \<times> bool" where
  "client_disconnect S c =
     (let c1 = c\<lparr>cl_client := tcp_client_disconnect S (cl_client c)\<rparr>
      in if \<not> cl_running c1 then (c1, False)
         else (c1\<lparr>cl_running := False\<rparr>, cl_readThread c1 \<noteq> NoThread))"

definition client_joined :: "'s net_client \<Rightarrow> 's net_client" where
  "client_joined c = c\<lparr>cl_readThread := NoThread\<rparr>"

text \<open>Called by the handler on the read thread itself, \<open>stopReadLoop\<close> detaches instead.\<close>

definition client_disconnect_from_reader :: "('s, 'e) socket_api \<Rightarrow> 's net_client \<Rightarrow> 's net_client" where
  "client_disconnect_from_reader S c =
     (let (c1, joinable) = client_disconnect S c
      in if joinable then c1\<lparr>cl_readThread := NoThread\<rparr> else c1)"

definition client_isConnected :: "'s net_client \<Rightarrow> bool" where
  "client_isConnected c = tc_isConnected (cl_client c)"

definition client_send ::
  "bool \<Rightarrow> ('s, 'e) socket_api \<Rightarrow> 'j json_api \<Rightarrow> client_event \<Rightarrow> 's net_client \<Rightarrow> (bool \<times> 's net_client) option" where
  "client_send big S J e c = do {
     msg \<leftarrow> toMessage_client J e;
     let (ok, tcp) = tcp_client_send big S msg (cl_client c);
     Some (ok, c\<lparr>cl_client := tcp\<rparr>)
   }"

definition client_handleNetworkEvent :: "server_event \<Rightarrow> 's net_client \<Rightarrow> 's net_client \<times> client_call list" where
  "client_handleNetworkEvent e c =
     (case e of
        ServerSessionAssign i \<Rightarrow> (c\<lparr>cl_sessionId := i\<rparr>, [])
      | ServerGameConfig g \<Rightarrow> (c, if cl_handler c then [OnGameConfig g] else [])
      | ServerDelta d \<Rightarrow> (c, if cl_handler c then [OnGameUpdate d] else [])
      | ServerChat m \<Rightarrow> (c, if cl_handler c then [OnChatMessage m] else []))"

text \<open>One pass through the loop of \<open>readLoop\<close>; \<open>False\<close> when the loop is left.\<close>

definition client_pass ::
  "bool \<Rightarrow> ('s, 'e) socket_api \<Rightarrow> 'j json_api \<Rightarrow> 's net_client \<Rightarrow> 's net_client \<times> client_call list \<times> bool" where
  "client_pass big S J c =
     (if \<not> cl_running c then (c, [], False)
      else if \<not> tc_isConnected (cl_client c) then (c, [], False)
      else let (msg, tcp) = tcp_client_read big S (cl_client c);
               c1 = c\<lparr>cl_client := tcp\<rparr>
           in case fromServerMessage J msg of
                None \<Rightarrow> (c1, [], False)
              | Some None \<Rightarrow> (c1, [], True)
              | Some (Some e) \<Rightarrow> (let (c2, calls) = client_handleNetworkEvent e c1 in (c2, calls, True)))"

text \<open>\<open>readLoop\<close> with at most the given number of passes; \<open>None\<close> when they do not suffice.\<close>

fun client_readLoop ::
  "nat \<Rightarrow> bool \<Rightarrow> ('s, 'e) socket_api \<Rightarrow> 'j json_api \<Rightarrow> 's net_client \<Rightarrow> ('s net_client \<times> client_call list) option" where
  "client_readLoop 0 big S J c = None"
| "client_readLoop (Suc k) big S J c =
     (let (c1, calls, goes_on) = client_pass big S J c
      in if goes_on
         then do { (c2, calls') \<leftarrow> client_readLoop k big S J c1; Some (c2, calls @ calls') }
         else Some (c1\<lparr>cl_readThread := ThreadFinished\<rparr>, if cl_handler c1 then [OnDisconnected] else []))"

subsection \<open>What the loop delivers\<close>

fun calls_of_event :: "server_event \<Rightarrow> client_call list" where
  "calls_of_event (ServerSessionAssign i) = []"
| "calls_of_event (ServerGameConfig g) = [OnGameConfig g]"
| "calls_of_event (ServerDelta d) = [OnGameUpdate d]"
| "calls_of_event (ServerChat m) = [OnChatMessage m]"

definition event_of :: "'j json_api \<Rightarrow> message \<Rightarrow> server_event option" where
  "event_of J m = the (fromServerMessage J m)"

definition calls_of_message :: "'j json_api \<Rightarrow> message \<Rightarrow> client_call list" where
  "calls_of_message J m = (case event_of J m of None \<Rightarrow> [] | Some e \<Rightarrow> calls_of_event e)"

definition reading :: "'s net_client \<Rightarrow> bool" where
  "reading c \<longleftrightarrow> cl_running c \<and> tc_isConnected (cl_client c) \<and> cl_handler c"

lemma client_pass_frame:
  assumes S: "reads_stream S inp" and laws: "json_laws J utf8 fin" and c: "reading c"
    and inp: "inp (tc_socket (cl_client c)) = frame m @ rest" and m: "fits m"
  shows "\<exists>c'. client_pass big S J c = (c', calls_of_message J m, True) \<and> reading c' \<and>
    inp (tc_socket (cl_client c')) = rest"
proof -
  from tcp_client_read_frame [OF S inp m] obtain tcp where tcp: "tcp_client_read big S (cl_client c) = (m, tcp)"
    "inp (tc_socket tcp) = rest" "tc_isConnected tcp = tc_isConnected (cl_client c)" by blast
  from fromServerMessage_total [OF laws, of m] obtain r where r: "fromServerMessage J m = Some r" by auto
  show ?thesis
    using c tcp r
    by (auto simp: client_pass_def reading_def Let_def calls_of_message_def event_of_def
        client_handleNetworkEvent_def split: option.split server_event.split)
qed

text \<open>When the peer has sent complete messages and then nothing more (fewer than four bytes, the end of
  the stream), the loop hands over exactly these messages, in order, then reports the disconnect once,
  and returns.\<close>

lemma client_readLoop_delivers:
  assumes S: "reads_stream S inp" and laws: "json_laws J utf8 fin" and "reading c"
    and "inp (tc_socket (cl_client c)) = concat (map frame ms) @ tail" and "\<forall>m \<in> set ms. fits m"
    and tail: "length tail < 4"
  shows "\<exists>c'. client_readLoop (length ms + 2) big S J c =
      Some (c', concat (map (calls_of_message J) ms) @ [OnDisconnected]) \<and>
    cl_readThread c' = ThreadFinished \<and> cl_running c' \<and> \<not> client_isConnected c'"
  using assms(3-5)
proof (induction ms arbitrary: c)
  case Nil
  then have "length (inp (tc_socket (cl_client c))) < 4" using tail by simp
  from tcp_client_read_end [OF S this] obtain tcp where tcp: "tcp_client_read big S (cl_client c) = ([], tcp)"
    "\<not> tc_isConnected tcp" by blast
  let ?c1 = "c\<lparr>cl_client := tcp\<rparr>"
  have 1: "client_pass big S J c = (?c1, [], True)"
    using Nil.prems(1) tcp(1) empty_message(1) [OF laws] by (simp add: client_pass_def reading_def)
  have 2: "client_pass big S J ?c1 = (?c1, [], False)"
    using Nil.prems(1) tcp(2) by (simp add: client_pass_def reading_def)
  show ?case using 1 2 Nil.prems(1) tcp(2)
    by (simp add: reading_def client_isConnected_def numeral_2_eq_2)
next
  case (Cons m ms)
  then have "inp (tc_socket (cl_client c)) = frame m @ (concat (map frame ms) @ tail)" "fits m" by simp_all
  from client_pass_frame [OF S laws Cons.prems(1) this] obtain c1 where
    c1: "client_pass big S J c = (c1, calls_of_message J m, True)" "reading c1"
    "inp (tc_socket (cl_client c1)) = concat (map frame ms) @ tail" by blast
  from Cons.IH [OF c1(2,3)] Cons.prems(3) obtain c' where
    "client_readLoop (length ms + 2) big S J c1 =
      Some (c', concat (map (calls_of_message J) ms) @ [OnDisconnected])"
    "cl_readThread c' = ThreadFinished \<and> cl_running c' \<and> \<not> client_isConnected c'" by auto
  with c1(1) show ?case by simp
qed

subsection \<open>Threads\<close>

text \<open>
  The steps of the two threads. The flag of the state is \<open>True\<close> between \<open>disconnect\<close> and its join; the
  caller's thread does nothing else meanwhile.
\<close>

inductive client_step ::
  "bool \<Rightarrow> ('s, 'e) socket_api \<Rightarrow> 'j json_api \<Rightarrow> 's net_client \<times> bool \<Rightarrow> client_call list \<Rightarrow> 's net_client \<times> bool \<Rightarrow> bool"
  for big S J where
  register: "client_registerHandler c = (ok, c') \<Longrightarrow> client_step big S J (c, False) [] (c', False)"
| connect: "client_connect S host port c = Some (ok, c') \<Longrightarrow> client_step big S J (c, False) [] (c', False)"
| disconnect: "client_disconnect S c = (c', j) \<Longrightarrow> client_step big S J (c, False) [] (c', j)"
| join: "cl_readThread c = ThreadFinished \<Longrightarrow> client_step big S J (c, True) [] (client_joined c, False)"
| send: "client_send big S J e c = Some (ok, c') \<Longrightarrow> client_step big S J (c, False) [] (c', False)"
| pass: "cl_readThread c = ThreadRuns \<Longrightarrow> client_pass big S J c = (c', calls, True) \<Longrightarrow>
     client_step big S J (c, w) calls (c', w)"
| leave: "cl_readThread c = ThreadRuns \<Longrightarrow> client_pass big S J c = (c', calls, False) \<Longrightarrow>
     client_step big S J (c, w) (if cl_handler c' then [OnDisconnected] else [])
       (c'\<lparr>cl_readThread := ThreadFinished\<rparr>, w)"

inductive client_reach ::
  "bool \<Rightarrow> ('s, 'e) socket_api \<Rightarrow> 'j json_api \<Rightarrow> 's net_client \<times> bool \<Rightarrow> client_call list \<Rightarrow> bool" for big S J where
  init: "client_reach big S J (net_client_new s, False) []"
| step: "client_reach big S J w calls \<Longrightarrow> client_step big S J w out w' \<Longrightarrow> client_reach big S J w' (calls @ out)"

text \<open>The running flag is set just while there is a thread object, or its join is awaited.\<close>

definition threads_ok :: "'s net_client \<times> bool \<Rightarrow> bool" where
  "threads_ok w \<longleftrightarrow> (case w of (c, joining) \<Rightarrow>
     if joining then \<not> cl_running c \<and> cl_readThread c \<noteq> NoThread
     else cl_running c \<longleftrightarrow> cl_readThread c \<noteq> NoThread)"

lemma handleNetworkEvent_vars [simp]:
  "cl_running (fst (client_handleNetworkEvent e c)) = cl_running c"
  "cl_readThread (fst (client_handleNetworkEvent e c)) = cl_readThread c"
  "cl_handler (fst (client_handleNetworkEvent e c)) = cl_handler c"
  by (cases e; simp add: client_handleNetworkEvent_def)+

lemma client_pass_frame_vars:
  assumes "client_pass big S J c = (c', calls, b)"
  shows "cl_running c' = cl_running c" "cl_readThread c' = cl_readThread c" "cl_handler c' = cl_handler c"
  using assms
  by (auto simp: client_pass_def Let_def case_prod_beta split: if_splits option.splits)

lemma threads_ok_step:
  assumes "client_step big S J w out w'" "threads_ok w"
  shows "threads_ok w'"
  using assms
proof (induction rule: client_step.induct)
  case (register c ok c')
  then show ?case by (auto simp: threads_ok_def client_registerHandler_def split: if_splits)
next
  case (connect host port c ok c')
  then show ?case
    by (auto simp: threads_ok_def client_connect_def client_startReadLoop_def Let_def split: if_splits prod.splits)
next
  case (disconnect c c' j)
  then show ?case by (auto simp: threads_ok_def client_disconnect_def Let_def split: if_splits)
next
  case (join c)
  then show ?case by (simp add: threads_ok_def client_joined_def)
next
  case (send e c ok c')
  then show ?case
    by (auto simp: threads_ok_def client_send_def bind_eq_Some_conv case_prod_beta)
next
  case (pass c c' calls w)
  then show ?case using client_pass_frame_vars [OF pass(2)] by (simp add: threads_ok_def)
next
  case (leave c c' calls w)
  then show ?case using client_pass_frame_vars [OF leave(2)] by (simp add: threads_ok_def split: if_splits)
qed

lemma client_reach_ok: "client_reach big S J w calls \<Longrightarrow> threads_ok w"
proof (induction rule: client_reach.induct)
  case (init s)
  show ?case by (simp add: threads_ok_def net_client_new_def)
next
  case (step w calls out w')
  then show ?case by (blast intro: threads_ok_step)
qed

end
