(* ===== verification/Json_Instance.thy ===== *)
theory Json_Instance imports Nw_Events begin

text \<open>
  A concrete library that meets \<open>json_laws\<close>, for the witnesses: values as a tree, text as a prefix code of
  the tree, both executable. It stands for no code of the repository.
\<close>

datatype jv = JNull | JUnsigned int | JDouble int | JString string | JArray "jv list" | JObject "(string \<times> jv) list"

subsection \<open>The text of a value\<close>

text \<open>A number is its binary digits, the lowest first, and a full stop; a string has its length before it;
  a list is written cell by cell.\<close>

function enc_int :: "int \<Rightarrow> string" where
  "enc_int n = (if n \<le> 0 then ''.'' else (if even n then CHR ''0'' else CHR ''1'') # enc_int (n div 2))"
  by pat_completeness auto
termination by (relation "measure nat") auto

declare enc_int.simps [simp del]

fun dec_int :: "string \<Rightarrow> (int \<times> string) option" where
  "dec_int [] = None"
| "dec_int (c # s) = (if c = CHR ''.'' then Some (0, s)
     else map_option (\<lambda>(n, r). ((if c = CHR ''0'' then 2 * n else 2 * n + 1), r)) (dec_int s))"

lemma dec_enc_int [simp]: "0 \<le> n \<Longrightarrow> dec_int (enc_int n @ r) = Some (n, r)"
  by (induction n rule: enc_int.induct) (subst enc_int.simps, auto)

definition enc_str :: "string \<Rightarrow> string" where
  "enc_str s = enc_int (int (length s)) @ s"

definition dec_str :: "string \<Rightarrow> (string \<times> string) option" where
  "dec_str t = map_option (\<lambda>(n, r). (take (nat n) r, drop (nat n) r)) (dec_int t)"

lemma dec_enc_str [simp]: "dec_str (enc_str s @ r) = Some (s, r)"
  by (simp add: dec_str_def enc_str_def)

fun jv_ok :: "jv \<Rightarrow> bool" where
  "jv_ok (JUnsigned n) \<longleftrightarrow> 0 \<le> n"
| "jv_ok (JDouble n) \<longleftrightarrow> 0 \<le> n"
| "jv_ok (JArray es) \<longleftrightarrow> (\<forall>e \<in> set es. jv_ok e)"
| "jv_ok (JObject kvs) \<longleftrightarrow> (\<forall>(k, v) \<in> set kvs. jv_ok v)"
| "jv_ok _ \<longleftrightarrow> True"

fun jv_enc :: "jv \<Rightarrow> string" where
  "jv_enc JNull = ''n''"
| "jv_enc (JUnsigned k) = CHR ''u'' # enc_int k"
| "jv_enc (JDouble k) = CHR ''d'' # enc_int k"
| "jv_enc (JString s) = CHR ''s'' # enc_str s"
| "jv_enc (JArray []) = ''a''"
| "jv_enc (JArray (e # es)) = CHR ''c'' # jv_enc e @ jv_enc (JArray es)"
| "jv_enc (JObject []) = ''o''"
| "jv_enc (JObject ((k, v) # kvs)) = CHR ''m'' # enc_str k @ jv_enc v @ jv_enc (JObject kvs)"

fun jv_dec :: "nat \<Rightarrow> string \<Rightarrow> (jv \<times> string) option" where
  "jv_dec 0 s = None"
| "jv_dec (Suc f) [] = None"
| "jv_dec (Suc f) (c # s) =
     (if c = CHR ''n'' then Some (JNull, s)
      else if c = CHR ''u'' then map_option (\<lambda>(k, r). (JUnsigned k, r)) (dec_int s)
      else if c = CHR ''d'' then map_option (\<lambda>(k, r). (JDouble k, r)) (dec_int s)
      else if c = CHR ''s'' then map_option (\<lambda>(t, r). (JString t, r)) (dec_str s)
      else if c = CHR ''a'' then Some (JArray [], s)
      else if c = CHR ''c'' then do {
        (e, r) \<leftarrow> jv_dec f s;
        (t, r') \<leftarrow> jv_dec f r;
        case t of JArray es \<Rightarrow> Some (JArray (e # es), r') | _ \<Rightarrow> None
      }
      else if c = CHR ''o'' then Some (JObject [], s)
      else do {
        (k, q) \<leftarrow> dec_str s;
        (v, r) \<leftarrow> jv_dec f q;
        (t, r') \<leftarrow> jv_dec f r;
        case t of JObject kvs \<Rightarrow> Some (JObject ((k, v) # kvs), r') | _ \<Rightarrow> None
      })"

lemma jv_dec_enc: "jv_ok j \<Longrightarrow> length (jv_enc j) \<le> f \<Longrightarrow> jv_dec f (jv_enc j @ r) = Some (j, r)"
proof (induction j arbitrary: f r rule: jv_enc.induct)
  case (6 e es)
  then obtain g where "f = Suc g" "length (jv_enc e) \<le> g" "length (jv_enc (JArray es)) \<le> g" by (cases f) auto
  with 6 show ?case by simp
next
  case (8 k v kvs)
  then obtain g where "f = Suc g" "length (jv_enc v) \<le> g" "length (jv_enc (JObject kvs)) \<le> g" by (cases f) auto
  with 8 show ?case by simp
next
  case 1
  then show ?case by (cases f) simp_all
next
  case (2 k)
  then show ?case by (cases f) simp_all
next
  case (3 k)
  then show ?case by (cases f) simp_all
next
  case (4 s)
  then show ?case by (cases f) simp_all
next
  case 5
  then show ?case by (cases f) simp_all
next
  case 7
  then show ?case by (cases f) simp_all
qed

definition jv_parse :: "string \<Rightarrow> jv" where
  "jv_parse s = (case jv_dec (length s) s of Some (j, []) \<Rightarrow> j | _ \<Rightarrow> JNull)"

lemma jv_parse_jv_enc: "jv_ok j \<Longrightarrow> jv_parse (jv_enc j) = j"
  using jv_dec_enc [of j "length (jv_enc j)" "[]"] by (simp add: jv_parse_def)

lemma jv_enc_not_empty: "jv_enc j \<noteq> []"
  by (cases j rule: jv_enc.cases) simp_all

lemma jv_parse_empty: "jv_parse [] = JNull"
  by (simp add: jv_parse_def)

definition jv_api :: "jv json_api" where
  "jv_api =
     \<lparr>js_null = JNull,
      js_set = (\<lambda>j k v. case j of JObject kvs \<Rightarrow> JObject ((k, v) # kvs) | _ \<Rightarrow> JObject [(k, v)]),
      js_unsigned = (\<lambda>n. JUnsigned (uint n)),
      js_double = (\<lambda>d. JDouble (uint d)),
      js_string = JString,
      js_array = JArray [],
      js_push = (\<lambda>j v. case j of JArray es \<Rightarrow> JArray (es @ [v]) | _ \<Rightarrow> j),
      js_pair = (\<lambda>a b. JArray [a, b]),
      js_dump = (\<lambda>j. Some (jv_enc j)),
      js_parse = jv_parse,
      js_is_object = (\<lambda>j. case j of JObject _ \<Rightarrow> True | _ \<Rightarrow> False),
      js_is_array = (\<lambda>j. case j of JArray _ \<Rightarrow> True | _ \<Rightarrow> False),
      js_is_string = (\<lambda>j. case j of JString _ \<Rightarrow> True | _ \<Rightarrow> False),
      js_is_number = (\<lambda>j. case j of JDouble _ \<Rightarrow> True | JUnsigned _ \<Rightarrow> True | _ \<Rightarrow> False),
      js_is_number_unsigned = (\<lambda>j. case j of JUnsigned _ \<Rightarrow> True | _ \<Rightarrow> False),
      js_contains = (\<lambda>j k. case j of JObject kvs \<Rightarrow> map_of kvs k \<noteq> None | _ \<Rightarrow> False),
      js_member = (\<lambda>j k. case j of JObject kvs \<Rightarrow> map_of kvs k | _ \<Rightarrow> None),
      js_get_string = (\<lambda>j. case j of JString s \<Rightarrow> Some s | _ \<Rightarrow> None),
      js_get_u64 = (\<lambda>j. case j of JUnsigned n \<Rightarrow> Some (of_int n) | _ \<Rightarrow> None),
      js_get_double = (\<lambda>j. case j of JDouble n \<Rightarrow> Some (of_int n) | JUnsigned n \<Rightarrow> Some (of_int n) | _ \<Rightarrow> None),
      js_elems = (\<lambda>j. case j of JArray es \<Rightarrow> Some es | _ \<Rightarrow> None)\<rparr>"

lemma jv_doc_ok: "json_doc jv_api utf8 fin j \<Longrightarrow> jv_ok j"
proof (induction rule: json_doc.induct)
  case (set j k v)
  then show ?case by (cases j) (simp_all add: jv_api_def)
next
  case (push j v)
  then show ?case by (cases j) (auto simp: jv_api_def)
qed (simp_all add: jv_api_def)

lemma jv_laws: "json_laws jv_api (\<lambda>s. True) (\<lambda>d. True)"
proof -
  have "js_parse jv_api (jv_enc j) = j" if "json_doc jv_api (\<lambda>s. True) (\<lambda>d. True) j" for j
    using jv_parse_jv_enc [OF jv_doc_ok [OF that]] by (simp add: jv_api_def)
  moreover have "js_dump jv_api j = Some (jv_enc j)" for j by (simp add: jv_api_def)
  ultimately have "\<forall>j. json_doc jv_api (\<lambda>s. True) (\<lambda>d. True) j \<longrightarrow>
      (\<exists>s. js_dump jv_api j = Some s \<and> s \<noteq> [] \<and> js_parse jv_api s = j)"
    using jv_enc_not_empty by simp
  then show ?thesis
    unfolding json_laws_def
    by (intro conjI) (auto simp: jv_api_def is_doc_def jv_parse_empty split: jv.splits)
qed

end
