(* ===== verification/Net_Properties.thy ===== *)
theory Net_Properties imports Net_Server Net_Client Json_Instance begin

text \<open>
  The properties of the network library: framing and connections, the accept loop, the JSON messages,
  the client's read loop and the server's sessions. The proofs are in the components' theories.
\<close>

subsection \<open>Frames and connections\<close>

text \<open>C11: the length header goes over the wire with its most significant byte first whatever the host's
  byte order, and a host of either byte order reads back the value it stands for.\<close>

theorem header_any_byte_order:
  "header_bytes big (to_network_u32 big v) = rev (header_bytes False v) \<and>
   from_network_u32 big' (header_of_bytes big' (header_bytes big (to_network_u32 big v))) = v"
proof (rule conjI)
  show "header_bytes big (to_network_u32 big v) = rev (header_bytes False v)"
    by (subst header_wire_order) (simp add: header_bytes_def)
  have "header_bytes big (to_network_u32 big v) = header_bytes big' (to_network_u32 big' v)"
    by (simp only: header_wire_order)
  then show "from_network_u32 big' (header_of_bytes big' (header_bytes big (to_network_u32 big v))) = v"
    by (simp only: header_roundtrip from_to_network)
qed

text \<open>C12: a connection calls back \<open>onConnect\<close> once, then \<open>onMessage\<close> for messages, then at most once
  \<open>onDisconnect\<close>; when the bytes that came in are the beginning of the frames of some messages, the messages
  handed over are the first of them, in order, none altered, lost or doubled.\<close>

theorem connection_delivers_in_order:
  assumes "conn_reach big i w" "w_calls w \<noteq> []"
  shows "\<exists>ds z. w_calls w = CB_Connect i # map (CB_Message i) ds @ z \<and> (z = [] \<or> z = [CB_Disconnect i]) \<and>
    (\<forall>ms. (\<forall>m \<in> set ms. fits m) \<and> prefix (w_received w) (frames ms) \<longrightarrow> prefix ds ms)"
proof -
  from conn_reach_inv [OF assms(1)] assms(2) obtain ds z rest where
    c: "w_calls w = CB_Connect i # map (CB_Message i) ds @ z" "z = [] \<or> z = [CB_Disconnect i]"
    and ds: "\<forall>d \<in> set ds. fits d" and r: "w_received w = frames ds @ rest @ w_unread w"
    unfolding reader_ok_def by blast
  have "prefix ds ms" if "\<forall>m \<in> set ms. fits m" "prefix (w_received w) (frames ms)" for ms
  proof (rule frames_prefix [OF that(1) ds])
    have "prefix (frames ds) (w_received w)" by (simp add: r)
    with that(2) show "prefix (frames ds) (frames ms)" by (rule prefix_order.trans [rotated])
  qed
  with c show ?thesis by blast
qed

text \<open>A started connection that has received one message.\<close>

definition ex_link :: conn_world where
  "ex_link = got 7 [''hi''] (started 7)"

lemma ex_link_reach: "conn_reach False 7 ex_link"
  unfolding ex_link_def using started_reach by (intro frames_delivered) (simp_all add: fits_def)

lemma ex_link_facts:
  "w_calls ex_link = [CB_Connect 7, CB_Message 7 ''hi'']" "w_received ex_link = frame ''hi''"
  "c_running (w_conn ex_link)" "w_posted ex_link = []" "w_writing ex_link = []"
  using started_reach(2-5) [of 7]
  by (simp_all add: ex_link_def got_def waiting_def) (simp_all add: started_def enact_def conn_start_def
      conn_startRead_def connection_new_def conn_world_new_def)

theorem connection_delivers_in_order_witness:
  "w_calls ex_link = [CB_Connect 7, CB_Message 7 ''hi''] \<and>
   (\<exists>ds. [CB_Connect 7, CB_Message 7 ''hi''] = CB_Connect 7 # map (CB_Message 7) ds \<and> prefix ds [''hi'', ''you''])"
proof -
  note c = ex_link_facts(1) and r = ex_link_facts(2)
  have f: "fits ''hi''" "fits ''you''" by (simp_all add: fits_def)
  from connection_delivers_in_order [OF ex_link_reach] c obtain ds z where
    d: "w_calls ex_link = CB_Connect 7 # map (CB_Message 7) ds @ z" "z = [] \<or> z = [CB_Disconnect 7]"
    "\<forall>ms. (\<forall>m \<in> set ms. fits m) \<and> prefix (w_received ex_link) (frames ms) \<longrightarrow> prefix ds ms" by auto
  from d(3) r f have "prefix ds [''hi'', ''you'']" by simp
  moreover from d(1,2) c have "z = []" by auto
  ultimately show ?thesis using c d(1) by (intro conjI exI [of _ ds]) simp_all
qed

text \<open>C13: what goes out on a connection are the frames of the messages accepted by \<open>send\<close>, in order, the
  last perhaps cut short; while the connection runs nothing accepted is lost, and with no work posted and no
  write in flight all of it has been written.\<close>

theorem connection_writes_in_order:
  assumes "conn_reach big i w"
  shows "\<exists>ws rest tail. w_accepted w = ws @ rest \<and> w_out w = frames ws @ tail \<and> prefix tail (frames rest) \<and>
    (\<forall>m \<in> set (w_accepted w). fits m) \<and>
    (c_running (w_conn w) \<and> w_posted w = [] \<and> w_writing w = [] \<longrightarrow> w_out w = frames (w_accepted w))"
proof -
  from conn_reach_inv [OF assms] have ok: "writer_ok w" ..
  then obtain ws tail where w: "w_accepted w = ws @ c_writeQueue (w_conn w) @ w_posted w"
    "w_out w = frames ws @ tail" "prefix tail (frames (c_writeQueue (w_conn w)))"
    "w_writing w \<noteq> [] \<or> c_running (w_conn w) \<longrightarrow> tail = []" "\<forall>m \<in> set (w_accepted w). fits m"
    "c_running (w_conn w) \<longrightarrow> (c_writeQueue (w_conn w) \<noteq> [] \<longleftrightarrow> w_writing w \<noteq> [])"
    unfolding writer_ok_def by blast
  from w(3) have "prefix tail (frames (c_writeQueue (w_conn w) @ w_posted w))"
    by (metis concat_append map_append prefix_prefix)
  with w show ?thesis by (intro exI [of _ ws] exI [of _ "c_writeQueue (w_conn w) @ w_posted w"] exI [of _ tail]) auto
qed

theorem connection_writes_in_order_witness:
  "\<exists>ws rest tail. w_accepted ex_link = ws @ rest \<and> w_out ex_link = frames ws @ tail \<and>
    c_running (w_conn ex_link) \<and> w_out ex_link = frames (w_accepted ex_link)"
  using connection_writes_in_order [OF ex_link_reach] ex_link_facts(3-5) by blast

subsection \<open>The server's connections\<close>

text \<open>C14: what the server tells its user of a connection is true: in each step of a reachable server an
  identifier it does not hold gets \<open>onConnect\<close> exactly when it is taken up, one it holds gets its messages
  and stays, or is dropped with at most one \<open>onDisconnect\<close> and nothing after it; and no identifier is held
  twice.\<close>

theorem server_callbacks_tell_the_truth:
  assumes "ts_reach big s outs" "ts_step big s out s'"
  shows "distinct (map fst (ts_connections s')) \<and>
    (if held s i
     then held s' i \<and> (\<exists>ms. callbacks_of i out = map (TS_Message i) ms) \<or>
       \<not> held s' i \<and> (callbacks_of i out = [] \<or> callbacks_of i out = [TS_Disconnect i])
     else callbacks_of i out = (if held s' i then [TS_Connect i] else []))"
  using ts_step_ok [OF assms(2) ts_reach_ok [OF assms(1)], of i]
  by (auto simp: told_def server_ok_def)

definition ex_server :: tcp_server where
  "ex_server = tcp_server_start (tcp_server_new False False False False)"

lemma ex_server_reach: "ts_reach False ex_server []"
  using ts_reach.step [OF ts_reach.init ts_step.start, of False False False False False] by (simp add: ex_server_def)

theorem server_callbacks_tell_the_truth_witness:
  "\<exists>s' out. ts_step False ex_server out s' \<and> callbacks_of 1 out = [TS_Connect 1] \<and> held s' 1 \<and> \<not> held ex_server 1"
proof -
  obtain s' out again where a: "tcp_server_onAccept ex_server False = (s', out, again)" by (metis prod_cases3)
  have h: "held (fst (tcp_server_onAccept ex_server False)) 1" "\<not> held ex_server 1" by code_simp+
  have "ts_acceptorOpen ex_server" by code_simp
  with ts_step.accept [OF a] have st: "ts_step False ex_server out s'" by simp
  from server_callbacks_tell_the_truth [OF ex_server_reach st, of 1] h a st show ?thesis by auto
qed

text \<open>A server that has been stopped never takes up a connection again: \<open>stop\<close> closes the acceptor for
  good, and although a new \<open>start\<close> succeeds, whatever happens afterwards no client is connected.\<close>

theorem restart_accepts_nobody:
  assumes "ts_reach big s outs" "ts_running s" "tcp_server_stop s = (s1, out1)"
    and "(\<lambda>a b. \<exists>out. ts_step big a out b)\<^sup>*\<^sup>* (tcp_server_start s1) s2"
  shows "\<not> held s2 i"
proof -
  have p: "\<not> ts_acceptorOpen b \<and> ts_connections b = []"
    if "ts_step big a out b" "\<not> ts_acceptorOpen a \<and> ts_connections a = []" for a out b
    using that
  proof (induction rule: ts_step.induct)
    case (stop s s' out)
    then show ?case by (auto simp: tcp_server_stop_def split: if_splits)
  next
    case (accept s ec s' out again)
    then show ?case by (auto simp: tcp_server_onAccept_def split: if_splits)
  next
    case (send s i m r s' out)
    then show ?case by (auto simp: tcp_server_send_def)
  next
    case (reject s i s' out)
    then show ?case by (auto simp: tcp_server_reject_def)
  qed (auto simp: tcp_server_start_def Let_def)
  from assms(2,3) have "\<not> ts_acceptorOpen (tcp_server_start s1) \<and> ts_connections (tcp_server_start s1) = []"
    by (auto simp: tcp_server_stop_def tcp_server_start_def Let_def)
  with assms(4) have "\<not> ts_acceptorOpen s2 \<and> ts_connections s2 = []"
    by (induction rule: rtranclp_induct) (use p in blast)+
  then show ?thesis by (simp add: held_def)
qed

theorem restart_accepts_nobody_witness:
  "ts_running (tcp_server_start (fst (tcp_server_stop ex_server))) \<and>
   \<not> held (fst (tcp_server_onAccept (tcp_server_start (fst (tcp_server_stop ex_server))) True)) 1"
proof -
  let ?s1 = "fst (tcp_server_stop ex_server)"
  obtain s2 out again where a: "tcp_server_onAccept (tcp_server_start ?s1) True = (s2, out, again)"
    by (metis prod_cases3)
  then have "ts_step False (tcp_server_start ?s1) out s2" by (rule ts_step.accept) simp
  then have "(\<lambda>a b. \<exists>out. ts_step False a out b)\<^sup>*\<^sup>* (tcp_server_start ?s1) s2" by blast
  moreover have r: "ts_running ex_server" "ts_running (tcp_server_start ?s1)" by code_simp+
  moreover have "tcp_server_stop ex_server = (?s1, snd (tcp_server_stop ex_server))" by simp
  ultimately have "\<not> held s2 1" by (intro restart_accepts_nobody [OF ex_server_reach])
  with a r(2) show ?thesis by simp
qed

subsection \<open>The JSON messages\<close>

text \<open>The JSON library is a parameter here; what its documentation promises is \<open>json_laws\<close>.\<close>

text \<open>C15: every event a client can send, a chat message being well-formed UTF-8, is written as a message
  that the server reads back as the same event.\<close>

theorem client_event_round_trip:
  assumes "json_laws J utf8 fin" "client_event_ok utf8 e"
  shows "\<exists>msg. toMessage_client J e = Some msg \<and> fromClientMessage J msg = Some (Some e)"
  using client_roundtrip [OF assms] by blast

theorem client_event_round_trip_witness:
  "\<exists>msg. toMessage_client jv_api (ClientPutStone (Coord 3 4)) = Some msg \<and>
    fromClientMessage jv_api msg = Some (Some (ClientPutStone (Coord 3 4)))"
  using client_event_round_trip [OF jv_laws, of "ClientPutStone (Coord 3 4)"] by simp

text \<open>C16: every event of the server (session, configuration, delta, chat) is written as a message that the
  client reads back as the same event; for a delta with both seats players, a coordinate just for a placement
  and captures only for one, whatever the number of captures.\<close>

theorem server_event_round_trip:
  assumes "json_laws J utf8 fin" "server_event_ok utf8 fin e"
  shows "\<exists>msg. toMessage_server J e = Some msg \<and> fromServerMessage J msg = Some (Some e)"
  using server_roundtrip [OF assms] by blast

definition ex_delta :: server_delta where
  "ex_delta = \<lparr>sd_turn = 12, sd_seat = SeatWhite, sd_action = SA_Place, sd_coord = Some (Coord 2 5),
     sd_captures = [Coord 2 4, Coord 3 4], sd_next = SeatBlack, sd_status = NS_Active\<rparr>"

theorem server_event_round_trip_witness:
  "\<exists>msg. toMessage_server jv_api (ServerDelta ex_delta) = Some msg \<and>
    fromServerMessage jv_api msg = Some (Some (ServerDelta ex_delta))"
  using server_event_round_trip [OF jv_laws, of "ServerDelta ex_delta"]
  by (simp add: ex_delta_def delta_ok_def isPlayer_def isValid_action_def isValid_status_def)

text \<open>No message, however malformed, makes either parser throw or fault: it is read as an event or
  refused, and a delta that is accepted has real players, a real action and status, a coordinate just for a
  placement and captures only for one.\<close>

theorem parsers_are_total:
  assumes "json_laws J utf8 fin"
  shows "fromClientMessage J msg \<noteq> None \<and> fromServerMessage J msg \<noteq> None \<and>
    (\<forall>d. fromServerMessage J msg = Some (Some (ServerDelta d)) \<longrightarrow> delta_ok d)"
  using fromClientMessage_total [OF assms] fromServerMessage_total [OF assms]
    fromServerMessage_delta_ok [of J msg] by (simp add: post_def)

theorem parsers_are_total_witness:
  "fromClientMessage jv_api ''{'' \<noteq> None \<and> fromServerMessage jv_api ''garbage'' \<noteq> None"
  using parsers_are_total [OF jv_laws] by blast

text \<open>A placement whose coordinates exceed 32 bits is not refused: it is read with their low 32 bits, so
  that a request for column 2^32 is a request for column 0.\<close>

theorem large_coordinates_wrap:
  assumes "json_laws J utf8 fin"
  shows "\<exists>msg. js_dump J (js_set J (js_set J (js_set J (js_null J) ''type'' (js_string J ''put''))
      ''x'' (js_unsigned J m)) ''y'' (js_unsigned J n)) = Some msg \<and>
    fromClientMessage J msg = Some (Some (ClientPutStone (Coord (ucast m) (ucast n))))"
  using put_truncates [OF assms] by blast

theorem large_coordinates_wrap_witness:
  "\<exists>msg. fromClientMessage jv_api msg = Some (Some (ClientPutStone (Coord 0 7))) \<and>
    js_dump jv_api (js_set jv_api (js_set jv_api (js_set jv_api (js_null jv_api) ''type'' (js_string jv_api ''put''))
      ''x'' (js_unsigned jv_api (2 ^ 32))) ''y'' (js_unsigned jv_api 7)) = Some msg"
proof -
  have "(ucast (2 ^ 32 :: u64) :: u32) = 0" "(ucast (7 :: u64) :: u32) = 7" by simp_all
  with large_coordinates_wrap [OF jv_laws, of "2 ^ 32" 7] show ?thesis by auto
qed

subsection \<open>The client's read loop\<close>

text \<open>C17: when the server has sent complete messages and then the stream ends (fewer than four bytes
  follow), the read loop returns after a bounded number of passes; it has handed each message that parses to
  its handler, in order and once, and at the end reported the disconnect once.\<close>

theorem read_loop_delivers:
  assumes "reads_stream S inp" "json_laws J utf8 fin" "reading c"
    and "inp (tc_socket (cl_client c)) = frames ms @ tail" "\<forall>m \<in> set ms. fits m" "length tail < 4"
  shows "\<exists>c'. client_readLoop (length ms + 2) big S J c =
      Some (c', concat (map (calls_of_message J) ms) @ [OnDisconnected]) \<and>
    cl_readThread c' = ThreadFinished \<and> \<not> client_isConnected c'"
  using client_readLoop_delivers [OF assms] by blast

text \<open>A socket for the witnesses: a list of the bytes still to come, refusing nobody.\<close>

definition ex_socket :: "(string, unit) socket_api" where
  "ex_socket = \<lparr>sk_resolve = (\<lambda>h p s. (Some (), s)), sk_connect = (\<lambda>e s. (True, s)), sk_close = (\<lambda>s. s),
     sk_write = (\<lambda>b s. (True, s)), sk_read = (\<lambda>n s. if n \<le> length s then (Some (take n s), drop n s) else (None, []))\<rparr>"

lemma ex_socket_reads: "reads_stream ex_socket (\<lambda>s. s)"
  by (simp add: reads_stream_def ex_socket_def)

definition ex_client :: "string \<Rightarrow> string net_client" where
  "ex_client s = \<lparr>cl_client = \<lparr>tc_socket = s, tc_isConnected = True\<rparr>, cl_running = True,
     cl_readThread = ThreadRuns, cl_handler = True, cl_sessionId = 0\<rparr>"

lemma ex_client_reading: "reading (ex_client s)"
  by (simp add: reading_def ex_client_def)

theorem read_loop_delivers_witness:
  "\<exists>c'. client_readLoop 3 True ex_socket jv_api (ex_client (frame [])) = Some (c', [OnDisconnected]) \<and>
    \<not> client_isConnected c'"
proof -
  have "calls_of_message jv_api [] = []" by (simp add: calls_of_message_def event_of_def empty_message(1) [OF jv_laws])
  with read_loop_delivers [OF ex_socket_reads jv_laws ex_client_reading, of _ "[[]]" "[]" True]
  show ?thesis by (auto simp: ex_client_def fits_def eval_nat_numeral)
qed

text \<open>A client that lost its connection by itself cannot listen again: after the read loop has ended at
  the end of the stream, \<open>connect\<close> succeeds and the client is connected, but no thread reads from the new
  connection, and further calls of \<open>connect\<close> are refused.\<close>

theorem reconnect_is_deaf:
  assumes "reads_stream S inp" "json_laws J utf8 fin" "reading c"
    and "inp (tc_socket (cl_client c)) = frames ms @ tail" "\<forall>m \<in> set ms. fits m" "length tail < 4"
    and "client_readLoop (length ms + 2) big S J c = Some (c1, calls)"
    and "tcp_client_connect S host port (cl_client c1) = (True, tcp)"
  shows "\<exists>c2. client_connect S host port c1 = Some (True, c2) \<and> client_isConnected c2 \<and>
    cl_readThread c2 = ThreadFinished \<and> (\<forall>h p. client_connect S h p c2 = Some (False, c2))"
proof -
  from client_readLoop_delivers [OF assms(1-6), of big] assms(7)
  have c1: "cl_readThread c1 = ThreadFinished" "cl_running c1" "\<not> tc_isConnected (cl_client c1)"
    by (auto simp: client_isConnected_def)
  from assms(8) have "tc_isConnected tcp"
    using c1(3) by (auto simp: tcp_client_connect_def split: option.splits prod.splits bool.splits)
  with c1 assms(8) show ?thesis
    by (simp add: client_connect_def client_startReadLoop_def client_isConnected_def)
qed

theorem reconnect_is_deaf_witness:
  "\<exists>c1 calls c2. client_readLoop 2 True ex_socket jv_api (ex_client []) = Some (c1, calls) \<and>
    client_connect ex_socket ''host'' DEFAULT_PORT c1 = Some (True, c2) \<and> client_isConnected c2 \<and>
    cl_readThread c2 = ThreadFinished"
proof -
  from client_readLoop_delivers [OF ex_socket_reads jv_laws ex_client_reading, of "[]" "[]" "[]" True]
  obtain c1 calls where r: "client_readLoop (length ([] :: message list) + 2) True ex_socket jv_api (ex_client []) = Some (c1, calls)"
    "\<not> client_isConnected c1" by (auto simp: ex_client_def)
  then obtain tcp where "tcp_client_connect ex_socket ''host'' DEFAULT_PORT (cl_client c1) = (True, tcp)"
    by (simp add: tcp_client_connect_def ex_socket_def client_isConnected_def)
  from reconnect_is_deaf [where ms = "[]" and tail = "[]", OF ex_socket_reads jv_laws ex_client_reading _ _ _ r(1) this] r(1)
  show ?thesis by (auto simp: ex_client_def numeral_2_eq_2 simp del: client_readLoop.simps)
qed

text \<open>Whatever the caller's thread and the read thread do, \<open>connect\<close> never assigns a new thread over a
  joinable one (which would end the process).\<close>

theorem connect_never_terminates:
  assumes "client_reach big S J (c, False) calls"
  shows "client_connect S host port c \<noteq> None"
  using client_reach_ok [OF assms]
  by (auto simp: threads_ok_def client_connect_def client_startReadLoop_def Let_def split: prod.splits)

theorem connect_never_terminates_witness:
  "client_connect ex_socket ''host'' DEFAULT_PORT (net_client_new []) \<noteq> None"
  using connect_never_terminates [OF client_reach.init [of True ex_socket jv_api "[]"]] by blast

subsection \<open>The server's sessions\<close>

text \<open>C18: the server thread, on any connects (with identifiers other than 0), messages and disconnects, never
  faults, and at any time at most one connected session has the black seat and at most one the white one.\<close>

theorem one_session_per_seat:
  assumes "inserts ins" "json_laws J utf8 fin" "length es < 2 ^ 32"
    and "\<forall>e \<in> set es. sqe_type e = SQ_ClientConnected \<longrightarrow> sqe_connectionId e \<noteq> 0"
  shows "\<exists>sv out. server_events J ins (net_server_new net) es = Some (sv, out) \<and>
    (\<forall>i j c d. map_of (sm_sessions (sv_sessionManager sv)) i = Some c \<longrightarrow>
       map_of (sm_sessions (sv_sessionManager sv)) j = Some d \<longrightarrow> sc_isActive c \<longrightarrow> sc_isActive d \<longrightarrow>
       isPlayer (sc_seat c) \<longrightarrow> sc_seat c = sc_seat d \<longrightarrow> i = j)"
proof -
  have "\<forall>e \<in> set es. event_ok e" using assms(4) by (simp add: event_ok_def)
  moreover have "length (sm_sessions (sv_sessionManager (net_server_new net))) = 0"
    by (simp add: net_server_new_def session_manager_new_def)
  ultimately obtain sv out where "server_events J ins (net_server_new net) es = Some (sv, out)"
    "seats_ok (sv_sessionManager sv)"
    using server_events_ok [OF new_seats_ok assms(1,2), of es net] assms(3) by auto
  then show ?thesis unfolding seats_ok_def one_per_seat_def by blast
qed

definition ex_connect :: "u32 \<Rightarrow> server_queue_event" where
  "ex_connect i = \<lparr>sqe_type = SQ_ClientConnected, sqe_connectionId = i, sqe_payload = []\<rparr>"

lemma cons_inserts: "inserts (#)"
  by (simp add: inserts_def)

theorem one_session_per_seat_witness:
  "\<exists>sv out. server_events jv_api (#) (net_server_new ex_server) [ex_connect 1, ex_connect 2, ex_connect 3] = Some (sv, out)"
  using one_session_per_seat [OF cons_inserts jv_laws, of "[ex_connect 1, ex_connect 2, ex_connect 3]" ex_server]
  by (simp add: ex_connect_def) blast

text \<open>C19: a client's event reaches the handler only from a message of a connection whose session has a
  player's seat, under that session's identifier, and as what the message says; spectators are not heard.\<close>

theorem only_players_are_heard:
  assumes "processEvent J ins sv e = Some (sv', out)" "SO_NetworkEvent k ev \<in> set out"
  shows "sqe_type e = SQ_ClientMessage \<and> k = getSessionId (sv_sessionManager sv) (sqe_connectionId e) \<and> k \<noteq> 0 \<and>
    isPlayer (getSeat (sv_sessionManager sv) k) \<and> fromClientMessage J (sqe_payload e) = Some (Some ev)"
  using assms by (rule network_event_source)

text \<open>The server of the witnesses: connection 1 has been given the black seat, connection 2 the white one.\<close>

definition ex_sessions :: session_manager where
  "ex_sessions = \<lparr>sm_sessions =
       [(2, \<lparr>sc_connectionId = 2, sc_sessionId = 2, sc_seat = SeatWhite, sc_isActive = True\<rparr>),
        (1, \<lparr>sc_connectionId = 1, sc_sessionId = 1, sc_seat = SeatBlack, sc_isActive = True\<rparr>)],
     sm_connectionToSession = [1 \<mapsto> 1, 2 \<mapsto> 2], sm_nextSessionId = 3\<rparr>"

definition ex_net_server :: net_server where
  "ex_net_server = (net_server_new ex_server)\<lparr>sv_sessionManager := ex_sessions, sv_handler := True\<rparr>"

theorem only_players_are_heard_witness:
  "\<exists>msg. processEvent jv_api (#) ex_net_server \<lparr>sqe_type = SQ_ClientMessage, sqe_connectionId = 2, sqe_payload = msg\<rparr> =
      Some (ex_net_server, [SO_NetworkEvent 2 ClientPass]) \<and>
    isPlayer (getSeat ex_sessions 2)"
proof -
  obtain msg where m: "fromClientMessage jv_api msg = Some (Some ClientPass)"
    using client_roundtrip [OF jv_laws, of ClientPass] by auto
  let ?e = "\<lparr>sqe_type = SQ_ClientMessage, sqe_connectionId = 2, sqe_payload = msg\<rparr>"
  have p: "processEvent jv_api (#) ex_net_server ?e = Some (ex_net_server, [SO_NetworkEvent 2 ClientPass])"
    using m by (simp add: processEvent_def processClientMessage_def ex_net_server_def ex_sessions_def
        getSessionId_def getSeat_def isPlayer_def)
  from only_players_are_heard [OF p, of 2 ClientPass] p show ?thesis by (auto simp: ex_net_server_def)
qed

text \<open>C20: a broadcast goes to the connections of the active sessions that have a seat, in the order of the
  sessions, once each, if the network still holds the connection; the result says whether there was one. A
  message longer than 4096 bytes is sent to nobody, and the result is the same.\<close>

theorem broadcast_recipients:
  assumes "server_ok (sv_network sv)" "toMessage_server J ev = Some msg" "msg \<noteq> []"
  shows "\<exists>sv' sent out. server_broadcast J ev sv = Some (sent, sv', out) \<and>
    out = map (\<lambda>i. SO_Net (TS_IO i (IO_Post msg))) (filter (\<lambda>i. held (sv_network sv) i \<and> fits msg)
      (map sc_connectionId (filter (\<lambda>c. sc_isActive c \<and> sc_seat c \<noteq> SeatNone)
         (map snd (sm_sessions (sv_sessionManager sv)))))) \<and>
    (sent \<longleftrightarrow> (\<exists>c \<in> set (map snd (sm_sessions (sv_sessionManager sv))). sc_isActive c \<and> sc_seat c \<noteq> SeatNone \<and>
       held (sv_network sv) (sc_connectionId c))) \<and>
    sv_sessionManager sv' = sv_sessionManager sv"
proof -
  from server_broadcast_eq [OF assms] obtain sv' where b: "server_broadcast J ev sv =
      Some (\<exists>i \<in> set (recipients (sv_sessionManager sv)). held (sv_network sv) i, sv',
            posts (sv_network sv) msg (recipients (sv_sessionManager sv)))"
    "sv_sessionManager sv' = sv_sessionManager sv" by blast
  show ?thesis
    by (rule exI [of _ sv'], rule exI, rule exI, intro conjI, rule b(1))
       (auto simp: posts_def recipients_def b(2))
qed

theorem broadcast_recipients_witness:
  "\<exists>msg sv' sent. toMessage_server jv_api (ServerDelta ex_delta) = Some msg \<and>
    server_broadcast jv_api (ServerDelta ex_delta) ex_net_server = Some (sent, sv', []) \<and> \<not> sent"
proof -
  obtain msg where m: "toMessage_server jv_api (ServerDelta ex_delta) = Some msg" "msg \<noteq> []"
    using server_roundtrip [OF jv_laws, of "ServerDelta ex_delta"]
    by (auto simp: ex_delta_def delta_ok_def isPlayer_def isValid_action_def isValid_status_def)
  have ok: "server_ok (sv_network ex_net_server)" "\<And>i. \<not> held (sv_network ex_net_server) i"
    using ts_reach_ok [OF ex_server_reach]
    by (simp_all add: ex_net_server_def net_server_new_def held_def ex_server_def tcp_server_start_def
        tcp_server_new_def Let_def)
  from broadcast_recipients [OF ok(1) m] ok(2) m(1) show ?thesis by auto
qed

end
