(* ===== verification/App_Position.thy ===== *)
theory App_Position imports Nw_Events Prelude begin

text \<open>
  \<open>src/apps/runtime/position.cpp\<close>: the client's copy of the game, built from the server's messages.
  \<open>None\<close> is a failed assert of the board or an access outside it.
\<close>

record app_position =
  ap_moveId :: u32
  ap_status :: game_status
  ap_player :: player
  ap_board :: board

definition app_position_new :: app_position where
  "app_position_new = \<lparr>ap_moveId = 0, ap_status = Idle, ap_player = PBlack, ap_board = board_new 9\<rparr>"

definition position_reset :: "nat \<Rightarrow> app_position" where
  "position_reset boardSize =
     \<lparr>ap_moveId = 0, ap_status = Idle, ap_player = PBlack, ap_board = board_new boardSize\<rparr>"

text \<open>
  The size of the new board comes from the server. \<open>room k\<close>: \<open>std::vector\<close> can hold \<open>k\<close> stones and the
  allocator has the memory for them; otherwise its constructor throws, which is \<open>None\<close>. (\<open>reset\<close> is only called
  with 9 and with a size whose game the caller then creates, and \<open>Game\<close> refuses all but 9, 13 and 19.)
\<close>

definition position_init :: "(nat \<Rightarrow> bool) \<Rightarrow> app_position \<Rightarrow> server_game_config \<Rightarrow> (bool \<times> app_position) option" where
  "position_init room p e =
     (if ap_status p = Active then Some (False, p)
      else let n = unat (sg_boardSize e)
           in if room (n * n)
              then Some (True, \<lparr>ap_moveId = 0, ap_status = Active, ap_player = PBlack, ap_board = board_new n\<rparr>)
              else None)"

definition position_setStatus :: "app_position \<Rightarrow> game_status \<Rightarrow> app_position" where
  "position_setStatus p s = p\<lparr>ap_status := s\<rparr>"

definition position_getBoard :: "app_position \<Rightarrow> board" where
  "position_getBoard p = ap_board p"

definition position_getStatus :: "app_position \<Rightarrow> game_status" where
  "position_getStatus p = ap_status p"

definition position_getPlayer :: "app_position \<Rightarrow> player" where
  "position_getPlayer p = ap_player p"

definition isDeltaApplicable :: "app_position \<Rightarrow> server_delta \<Rightarrow> bool" where
  "isDeltaApplicable p d =
     (if ap_status p \<noteq> Active then False
      else if sd_turn d \<le> ap_moveId p then False
      else if sd_turn d > ap_moveId p + 1 then False
      else if \<not> isPlayer (sd_seat d) \<or> \<not> isPlayer (sd_next d) then False
      else True)"

definition remove_capture :: "coord \<Rightarrow> board \<Rightarrow> board option" where
  "remove_capture c b = map_option snd (board_remove b (Coord (coord_x c) (coord_y c)))"

definition position_apply :: "app_position \<Rightarrow> server_delta \<Rightarrow> (bool \<times> app_position) option" where
  "position_apply p d =
     (if \<not> isDeltaApplicable p d then Some (False, p)
      else let p1 = p\<lparr>ap_moveId := sd_turn d,
                      ap_status := (if sd_status d = NS_Active then Active else Done),
                      ap_player := (if sd_next d = SeatBlack then PBlack else PWhite)\<rparr>
           in if sd_action d = SA_Place
              then (case sd_coord d of
                      None \<Rightarrow> Some (True, p1)
                    | Some c \<Rightarrow> do {
                        (placed, b) \<leftarrow> board_place (ap_board p1) (Coord (coord_x c) (coord_y c))
                          (if sd_seat d = SeatBlack then Black else White);
                        b' \<leftarrow> loopM remove_capture (sd_captures d) b;
                        Some (True, p1\<lparr>ap_board := b'\<rparr>)
                      })
              else Some (True, p1))"

subsection \<open>What a delta does\<close>

lemma coord_eta [simp]: "Coord (coord_x c) (coord_y c) = (c :: coord)"
  by simp

text \<open>The captures are removed, whatever their order.\<close>

lemma remove_captures:
  assumes "board_ok b" "\<forall>c \<in> set cs. on_board (m_size b) c"
  shows "\<exists>b'. loopM remove_capture cs b = Some b' \<and> board_ok b' \<and> m_size b' = m_size b \<and>
    (\<forall>c. on_board (m_size b) c \<longrightarrow> stone_at b' c = (if c \<in> set cs then Empty else stone_at b c))"
  using assms
proof (induction cs arbitrary: b)
  case Nil
  then show ?case by simp
next
  case (Cons c cs)
  let ?b1 = "if stone_at b c \<noteq> Empty then board_put b c Empty else b"
  have r: "remove_capture c b = Some ?b1" using Cons.prems by (simp add: remove_capture_def board_remove_ok)
  have b1: "board_ok ?b1" "m_size ?b1 = m_size b"
    "\<And>x. on_board (m_size b) x \<Longrightarrow> stone_at ?b1 x = (if x = c then Empty else stone_at b x)"
    using Cons.prems by (auto simp: stone_at_put)
  from Cons.IH [OF b1(1)] Cons.prems(2) b1(2) obtain b' where b': "loopM remove_capture cs ?b1 = Some b'" "board_ok b'"
    "m_size b' = m_size b" "\<forall>x. on_board (m_size b) x \<longrightarrow> stone_at b' x = (if x \<in> set cs then Empty else stone_at ?b1 x)"
    by (auto simp del: if_split)
  show ?case
  proof (intro exI conjI allI impI)
    show "loopM remove_capture (c # cs) b = Some b'" using r b'(1) by simp
    fix x assume x: "on_board (m_size b) x"
    then show "stone_at b' x = (if x \<in> set (c # cs) then Empty else stone_at b x)"
      using b'(4) b1(3) [OF x] by auto
  qed (use b' in auto)
qed

lemma apply_place:
  assumes b: "board_ok (ap_board p)" and app: "isDeltaApplicable p d" and act: "sd_action d = SA_Place"
    and c: "sd_coord d = Some c" "on_board (m_size (ap_board p)) c" "stone_at (ap_board p) c = Empty"
    and caps: "\<forall>x \<in> set (sd_captures d). on_board (m_size (ap_board p)) x"
  shows "\<exists>b'. position_apply p d = Some (True, \<lparr>ap_moveId = sd_turn d,
      ap_status = (if sd_status d = NS_Active then Active else Done),
      ap_player = (if sd_next d = SeatBlack then PBlack else PWhite), ap_board = b'\<rparr>) \<and>
    board_ok b' \<and> m_size b' = m_size (ap_board p) \<and>
    (\<forall>x. on_board (m_size (ap_board p)) x \<longrightarrow> stone_at b' x =
       (if x \<in> set (sd_captures d) then Empty
        else if x = c then (if sd_seat d = SeatBlack then Black else White) else stone_at (ap_board p) x))"
proof -
  let ?s = "if sd_seat d = SeatBlack then Black else White"
  let ?b1 = "board_put (ap_board p) c ?s"
  have place: "board_place (ap_board p) c ?s = Some (True, ?b1)" using b c by (simp add: board_place_ok)
  from remove_captures [of ?b1 "sd_captures d"] b caps obtain b' where b': "loopM remove_capture (sd_captures d) ?b1 = Some b'"
    "board_ok b'" "m_size b' = m_size (ap_board p)"
    "\<forall>x. on_board (m_size (ap_board p)) x \<longrightarrow> stone_at b' x = (if x \<in> set (sd_captures d) then Empty else stone_at ?b1 x)"
    by auto
  show ?thesis
    using place b' app act c b by (intro exI [of _ b']) (auto simp: position_apply_def Let_def stone_at_put)
qed

lemma apply_other:
  assumes "isDeltaApplicable p d" "sd_action d \<noteq> SA_Place"
  shows "position_apply p d = Some (True, p\<lparr>ap_moveId := sd_turn d,
    ap_status := (if sd_status d = NS_Active then Active else Done),
    ap_player := (if sd_next d = SeatBlack then PBlack else PWhite)\<rparr>)"
  using assms by (simp add: position_apply_def)

text \<open>A delta is applied at most once: after it, its number is not applicable any more.\<close>

lemma apply_once:
  assumes "position_apply p d = Some (True, p')"
  shows "ap_moveId p' = sd_turn d" "sd_turn d = ap_moveId p + 1 \<and> ap_moveId p < sd_turn d"
    "\<not> isDeltaApplicable p' d"
proof -
  from assms have app: "isDeltaApplicable p d" by (auto simp: position_apply_def split: if_splits)
  with assms show m: "ap_moveId p' = sd_turn d"
    by (auto simp: position_apply_def Let_def bind_eq_Some_conv split: if_splits option.splits)
  then show "\<not> isDeltaApplicable p' d" by (simp add: isDeltaApplicable_def)
  from app have "ap_moveId p < sd_turn d" "sd_turn d \<le> ap_moveId p + 1"
    by (auto simp: isDeltaApplicable_def not_le split: if_splits)
  then show "sd_turn d = ap_moveId p + 1 \<and> ap_moveId p < sd_turn d"
    by (metis inc_le order_antisym_conv)
qed

end
