(* ===== verification/App_Event_Hub.thy ===== *)
theory App_Event_Hub imports Signal_Hub begin

text \<open>
  \<open>src/apps/runtime/eventHub.cpp\<close> and \<open>IAppSignalListener.hpp\<close>: the hub that tells the user interface
  what changed. It meets the same contract as the hub of the game core.
\<close>

datatype app_signal = AS_None | AS_BoardChange | AS_PlayerChange | AS_StateChange | AS_NewChat

definition app_signal_bits :: "app_signal \<Rightarrow> u64" where
  "app_signal_bits s = (case s of AS_None \<Rightarrow> 0 | AS_BoardChange \<Rightarrow> push_bit 0 1
     | AS_PlayerChange \<Rightarrow> push_bit 1 1 | AS_StateChange \<Rightarrow> push_bit 2 1 | AS_NewChat \<Rightarrow> push_bit 3 1)"

record app_hub =
  ah_signalListeners :: "(listener \<times> u64) list"

definition app_hub_new :: app_hub where
  "app_hub_new = \<lparr>ah_signalListeners = []\<rparr>"

definition app_subscribe :: "app_hub \<Rightarrow> listener \<Rightarrow> u64 \<Rightarrow> app_hub" where
  "app_subscribe h l m = h\<lparr>ah_signalListeners := ah_signalListeners h @ [(l, m)]\<rparr>"

definition app_unsubscribe :: "app_hub \<Rightarrow> listener \<Rightarrow> app_hub" where
  "app_unsubscribe h l = h\<lparr>ah_signalListeners := filter (\<lambda>e. fst e \<noteq> l) (ah_signalListeners h)\<rparr>"

text \<open>The calls \<open>onAppEvent(signal)\<close>, in order.\<close>

datatype app_call = OnAppEvent listener app_signal

definition app_hub_signal :: "app_hub \<Rightarrow> app_signal \<Rightarrow> app_call list" where
  "app_hub_signal h s = map (\<lambda>e. OnAppEvent (fst e) s)
     (filter (\<lambda>e. snd e AND app_signal_bits s \<noteq> 0) (ah_signalListeners h))"

definition app_notified :: "app_hub \<Rightarrow> u64 \<Rightarrow> listener list" where
  "app_notified h s = map fst (filter (\<lambda>e. snd e AND s \<noteq> 0) (ah_signalListeners h))"

lemma app_signal_notified: "app_hub_signal h s = map (\<lambda>l. OnAppEvent l s) (app_notified h (app_signal_bits s))"
  by (simp add: app_hub_signal_def app_notified_def)

interpretation ui_hub: signal_hub app_subscribe app_unsubscribe app_notified
  by unfold_locales
     (simp_all add: app_notified_def app_subscribe_def app_unsubscribe_def filter_fst_neq)

text \<open>A listener that asked for a signal is told, and one that has left never is.\<close>

lemma app_signal_reaches:
  "m AND app_signal_bits s \<noteq> 0 \<Longrightarrow> OnAppEvent l s \<in> set (app_hub_signal (app_subscribe h l m) s)"
  using ui_hub.subscribed_notified [of m "app_signal_bits s" l h] by (auto simp: app_signal_notified)

lemma app_signal_silent: "OnAppEvent l s \<notin> set (app_hub_signal (app_unsubscribe h l) s)"
  using ui_hub.unsubscribed_silent [of l h "app_signal_bits s"] by (auto simp: app_signal_notified)

end
