(* ===== verification/Game_Server.thy ===== *)
theory Game_Server imports Net_Server Game_Runs begin

text \<open>
  \<open>src/apps/runtime/gameServer.cpp\<close>: the server application. It owns the game and the network server,
  gives the two player seats to the game, passes the players' events on to the game loop and
  broadcasts what the game announces. Its handlers run on the server thread, \<open>onGameDelta\<close> on the game
  thread; each is one atomic step here. (The program itself reads \<open>m_gameActive\<close> and the sessions on both
  threads without a lock.) \<open>None\<close> is a fault or an exception of the JSON library.
\<close>

text \<open>The thread of the game: \<open>std::thread\<close> is joinable from its creation until it is joined.\<close>

datatype thread_state = NotStarted | Starting | InLoop | LoopLeft

definition joinable :: "thread_state \<Rightarrow> bool" where
  "joinable t \<longleftrightarrow> t \<noteq> NotStarted"

record chat_entry =
  ce_player :: player
  ce_message :: string

text \<open>\<open>m_players\<close> is a hash map; which of two entries an iteration meets first is not specified, and the
  list has them in the order of insertion. The order shows only when two players have the same
  session, and they never do (\<open>players_ok\<close>).\<close>

record game_server =
  gs_game :: game
  gs_gameThread :: thread_state
  gs_players :: "(player \<times> u32) list"
  gs_chatHistory :: "chat_entry list"
  gs_server :: net_server

definition game_server_new ::
  "(u64 \<Rightarrow> 'g) \<Rightarrow> ('g \<Rightarrow> u64 \<times> 'g) \<Rightarrow> nat \<Rightarrow> tcp_server \<Rightarrow> game_server option" where
  "game_server_new mk draw boardSize network =
     map_option (\<lambda>g. \<lparr>gs_game = g, gs_gameThread = NotStarted, gs_players = [], gs_chatHistory = [],
                       gs_server = net_server_new network\<rparr>)
       (game_new mk draw boardSize)"

subsection \<open>Starting and stopping\<close>

text \<open>\<open>self\<close> is the address of the object, as a listener of the game.\<close>

definition gs_start :: "listener \<Rightarrow> game_server \<Rightarrow> game_server" where
  "gs_start self gs =
     (let (registered, sv) = server_registerHandler (gs_server gs)
      in if \<not> registered then gs\<lparr>gs_server := sv\<rparr>
         else gs\<lparr>gs_server := server_start sv, gs_game := game_subscribeState (gs_game gs) self\<rparr>)"

text \<open>\<open>stop\<close> up to the join of the game thread, which waits until \<open>run\<close> has returned; then the rest.\<close>

definition gs_stop :: "listener \<Rightarrow> game_server \<Rightarrow> game_server \<times> server_out list" where
  "gs_stop self gs =
     (let g = (if joinable (gs_gameThread gs) then game_pushEvent (gs_game gs) ShutdownEvent else gs_game gs);
          (sv, out) = server_stop (gs_server gs)
      in (gs\<lparr>gs_game := game_unsubscribeState g self, gs_server := sv\<rparr>, out))"

definition gs_stop_joined :: "game_server \<Rightarrow> game_server" where
  "gs_stop_joined gs = gs\<lparr>gs_gameThread := NotStarted, gs_players := []\<rparr>"

subsection \<open>Calls of the network server\<close>

definition gs_broadcast :: "'j json_api \<Rightarrow> server_event \<Rightarrow> game_server \<Rightarrow> (game_server \<times> server_out list) option" where
  "gs_broadcast J ev gs = do {
     (sent, sv, out) \<leftarrow> server_broadcast J ev (gs_server gs);
     Some (gs\<lparr>gs_server := sv\<rparr>, out)
   }"

definition komi_6_5 :: double_bits where
  "komi_6_5 = 0x401A000000000000"

definition seat_player :: "seat \<Rightarrow> player" where
  "seat_player st = (if st = SeatBlack then PBlack else PWhite)"

definition gs_onClientConnected ::
  "'j json_api \<Rightarrow> u32 \<Rightarrow> seat \<Rightarrow> game_server \<Rightarrow> (game_server \<times> server_out list) option" where
  "gs_onClientConnected J sessionId seat gs =
     (if \<not> isPlayer seat then Some (gs, [])
      else let player = seat_player seat
           in if game_isActive (gs_game gs) then Some (gs, [])
              else if player \<in> fst ` set (gs_players gs) then Some (gs, [])
              else let gs1 = gs\<lparr>gs_players := gs_players gs @ [(player, sessionId)]\<rparr>
                   in if length (gs_players gs1) = 2 \<and> \<not> joinable (gs_gameThread gs1)
                      then gs_broadcast J
                             (ServerGameConfig \<lparr>sg_boardSize = of_nat (game_boardSize (gs_game gs1)),
                                sg_komi = komi_6_5, sg_timeSeconds = 0\<rparr>)
                             (gs1\<lparr>gs_gameThread := Starting\<rparr>)
                      else Some (gs1, []))"

fun erase_player :: "u32 \<Rightarrow> (player \<times> u32) list \<Rightarrow> (player \<times> u32) list" where
  "erase_player i [] = []"
| "erase_player i ((p, k) # ps) = (if k = i then ps else (p, k) # erase_player i ps)"

definition gs_onClientDisconnected :: "u32 \<Rightarrow> game_server \<Rightarrow> game_server" where
  "gs_onClientDisconnected sessionId gs = gs\<lparr>gs_players := erase_player sessionId (gs_players gs)\<rparr>"

subsection \<open>The players' events\<close>

definition gs_pushEvent :: "game_event \<Rightarrow> game_server \<Rightarrow> game_server" where
  "gs_pushEvent e gs = gs\<lparr>gs_game := game_pushEvent (gs_game gs) e\<rparr>"

fun gs_handleNetworkEvent ::
  "'j json_api \<Rightarrow> player \<Rightarrow> client_event \<Rightarrow> game_server \<Rightarrow> (game_server \<times> server_out list) option" where
  "gs_handleNetworkEvent J player (ClientPutStone c) gs =
     (if \<not> game_isActive (gs_game gs) then Some (gs, [])
      else Some (gs_pushEvent (PutStoneEvent player (Coord (coord_x c) (coord_y c))) gs, []))"
| "gs_handleNetworkEvent J player ClientPass gs =
     (if \<not> game_isActive (gs_game gs) then Some (gs, [])
      else Some (gs_pushEvent (PassEvent player) gs, []))"
| "gs_handleNetworkEvent J player ClientResign gs =
     (if \<not> game_isActive (gs_game gs) then Some (gs, [])
      else Some (gs_pushEvent ResignEvent gs, []))"
| "gs_handleNetworkEvent J player (ClientChat m) gs =
     (let gs1 = gs\<lparr>gs_chatHistory := gs_chatHistory gs @ [\<lparr>ce_player = player, ce_message = m\<rparr>]\<rparr>
      in gs_broadcast J (ServerChat \<lparr>sh_player = player,
           sh_messageId = of_nat (length (gs_chatHistory gs1)), sh_message = m\<rparr>) gs1)"

definition gs_onNetworkEvent ::
  "'j json_api \<Rightarrow> u32 \<Rightarrow> client_event \<Rightarrow> game_server \<Rightarrow> (game_server \<times> server_out list) option" where
  "gs_onNetworkEvent J sessionId e gs =
     (let seat = server_getSeat (gs_server gs) sessionId
      in if \<not> isPlayer seat then Some (gs, [])
         else gs_handleNetworkEvent J (seat_player seat) e gs)"

subsection \<open>The deltas of the game\<close>

definition player_seat :: "player \<Rightarrow> seat" where
  "player_seat p = (if p = PBlack then SeatBlack else SeatWhite)"

definition delta_to_net :: "game_delta \<Rightarrow> server_delta" where
  "delta_to_net d =
     \<lparr>sd_turn = gd_moveId d, sd_seat = player_seat (gd_player d),
      sd_action = (case gd_action d of Place \<Rightarrow> SA_Place | Pass \<Rightarrow> SA_Pass | Resign \<Rightarrow> SA_Resign),
      sd_coord = gd_coord d, sd_captures = gd_captures d, sd_next = player_seat (gd_nextPlayer d),
      sd_status = (if gd_gameActive d then NS_Active else NS_Draw)\<rparr>"

definition gs_onGameDelta :: "'j json_api \<Rightarrow> game_delta \<Rightarrow> game_server \<Rightarrow> (game_server \<times> server_out list) option" where
  "gs_onGameDelta J d gs = gs_broadcast J (ServerDelta (delta_to_net d)) gs"

subsection \<open>The two threads\<close>

text \<open>The server thread: the calls of the handler that processing an event ends with.\<close>

fun gs_dispatch :: "'j json_api \<Rightarrow> server_out list \<Rightarrow> game_server \<Rightarrow> (game_server \<times> server_out list) option" where
  "gs_dispatch J [] gs = Some (gs, [])"
| "gs_dispatch J (o1 # os) gs = do {
     (gs1, out) \<leftarrow> (case o1 of
        SO_ClientConnected i st \<Rightarrow> gs_onClientConnected J i st gs
      | SO_ClientDisconnected i \<Rightarrow> Some (gs_onClientDisconnected i gs, [])
      | SO_NetworkEvent i e \<Rightarrow> gs_onNetworkEvent J i e gs
      | SO_Net x \<Rightarrow> Some (gs, [SO_Net x]));
     (gs2, out') \<leftarrow> gs_dispatch J os gs1;
     Some (gs2, out @ out')
   }"

definition gs_server_event ::
  "'j json_api \<Rightarrow> inserter \<Rightarrow> server_queue_event \<Rightarrow> game_server \<Rightarrow> (game_server \<times> server_out list) option" where
  "gs_server_event J ins e gs = do {
     (sv, out) \<leftarrow> processEvent J ins (gs_server gs) e;
     gs_dispatch J out (gs\<lparr>gs_server := sv\<rparr>)
   }"

text \<open>The game thread: the calls of one event to this listener.\<close>

fun gs_deliver :: "'j json_api \<Rightarrow> listener \<Rightarrow> game_call list \<Rightarrow> game_server \<Rightarrow> (game_server \<times> server_out list) option" where
  "gs_deliver J self [] gs = Some (gs, [])"
| "gs_deliver J self (OnGameDelta l d # cs) gs =
     (if l = self
      then do {
        (gs1, out) \<leftarrow> gs_onGameDelta J d gs;
        (gs2, out') \<leftarrow> gs_deliver J self cs gs1;
        Some (gs2, out @ out')
      }
      else gs_deliver J self cs gs)"
| "gs_deliver J self (OnGameEvent l s # cs) gs = gs_deliver J self cs gs"

definition gs_game_event ::
  "'j json_api \<Rightarrow> listener \<Rightarrow> game_event \<Rightarrow> game_server \<Rightarrow> (game_server \<times> server_out list) option" where
  "gs_game_event J self e gs = do {
     (g, calls) \<leftarrow> handleEvent (gs_game gs) e;
     gs_deliver J self calls (gs\<lparr>gs_game := g\<rparr>)
   }"

text \<open>
  The application as a whole: the two threads, and the network, whose callbacks only queue events. A
  label is what is sent. Starting and stopping are steps of the main thread.
\<close>

inductive gs_step :: "'j json_api \<Rightarrow> inserter \<Rightarrow> listener \<Rightarrow> bool \<Rightarrow> game_server \<Rightarrow> server_out list \<Rightarrow> game_server \<Rightarrow> bool"
  for J ins self big where
  start: "gs_step J ins self big gs [] (gs_start self gs)"
| stop: "gs_stop self gs = (gs', out) \<Longrightarrow> gs_step J ins self big gs out gs'"
| joined: "gs_gameThread gs = LoopLeft \<or> gs_gameThread gs = NotStarted \<Longrightarrow>
     \<not> sv_isRunning (gs_server gs) \<Longrightarrow> gs_step J ins self big gs [] (gs_stop_joined gs)"
| network: "ts_step big (sv_network (gs_server gs)) out net \<Longrightarrow>
     gs_step J ins self big gs (map SO_Net out)
       (gs\<lparr>gs_server := foldl server_callback ((gs_server gs)\<lparr>sv_network := net\<rparr>) out\<rparr>)"
| server_thread: "sv_isRunning (gs_server gs) \<Longrightarrow> NetQueue_Pop (sv_eventQueue (gs_server gs)) = Popped e q \<Longrightarrow>
     gs_server_event J ins e (gs\<lparr>gs_server := (gs_server gs)\<lparr>sv_eventQueue := q\<rparr>\<rparr>) = Some (gs', out) \<Longrightarrow>
     gs_step J ins self big gs out gs'"
| game_enters: "gs_gameThread gs = Starting \<Longrightarrow>
     gs_step J ins self big gs []
       (gs\<lparr>gs_gameThread := InLoop, gs_game := (gs_game gs)\<lparr>g_gameActive := True\<rparr>\<rparr>)"
| game_thread: "gs_gameThread gs = InLoop \<Longrightarrow> g_gameActive (gs_game gs) \<Longrightarrow>
     SafeQueue_Pop (g_eventQueue (gs_game gs)) = Popped e q \<Longrightarrow>
     gs_game_event J self e (gs\<lparr>gs_game := (gs_game gs)\<lparr>g_eventQueue := q\<rparr>\<rparr>) = Some (gs', out) \<Longrightarrow>
     gs_step J ins self big gs out gs'"
| game_leaves: "gs_gameThread gs = InLoop \<Longrightarrow> \<not> g_gameActive (gs_game gs) \<Longrightarrow>
     gs_step J ins self big gs [] (gs\<lparr>gs_gameThread := LoopLeft\<rparr>)"

subsection \<open>Broadcasting\<close>

text \<open>A broadcast touches nothing but the network, and an event that can be written never fails.\<close>

lemma gs_broadcast_frame:
  assumes "gs_broadcast J ev gs = Some (gs', out)"
  obtains sv where "gs' = gs\<lparr>gs_server := sv\<rparr>" "sends_only (gs_server gs) sv" "net_only out"
  using assms by (auto simp: gs_broadcast_def bind_eq_Some_conv dest: server_broadcast_only)

lemma gs_broadcast_total:
  assumes "json_laws J utf8 fin" "server_event_ok utf8 fin ev"
  shows "\<exists>gs' out. gs_broadcast J ev gs = Some (gs', out)"
proof -
  from server_roundtrip [OF assms] obtain msg where "toMessage_server J ev = Some msg" by auto
  then show ?thesis by (simp add: gs_broadcast_def server_broadcast_def split: prod.split)
qed

subsection \<open>What the handlers change\<close>

text \<open>Everything but the game, the chat and what the network sends stays.\<close>

definition keeps :: "game_server \<Rightarrow> game_server \<Rightarrow> bool" where
  "keeps gs gs' \<longleftrightarrow> gs_players gs' = gs_players gs \<and> gs_gameThread gs' = gs_gameThread gs \<and>
     sends_only (gs_server gs) (gs_server gs')"

lemma keeps_refl [simp]: "keeps gs gs"
  by (simp add: keeps_def)

lemma keeps_trans: "keeps a b \<Longrightarrow> keeps b c \<Longrightarrow> keeps a c"
  by (auto simp: keeps_def intro: sends_only_trans)

lemma gs_broadcast_keeps:
  "gs_broadcast J ev gs = Some (gs', out) \<Longrightarrow>
    keeps gs gs' \<and> gs_game gs' = gs_game gs \<and> gs_chatHistory gs' = gs_chatHistory gs \<and> net_only out"
  by (erule gs_broadcast_frame) (simp add: keeps_def)

text \<open>The game is left alone or gets one event pushed.\<close>

lemma network_event_effect:
  assumes "gs_onNetworkEvent J k ev gs = Some (gs', out)"
  shows "keeps gs gs'" "net_only out"
    "gs_game gs' = gs_game gs \<or> (\<exists>e. gs_game gs' = game_pushEvent (gs_game gs) e)"
proof -
  have "keeps gs gs' \<and> net_only out \<and>
      (gs_game gs' = gs_game gs \<or> (\<exists>e. gs_game gs' = game_pushEvent (gs_game gs) e))"
  proof (cases ev)
    case (ClientChat m)
    let ?p = "seat_player (server_getSeat (gs_server gs) k)"
    let ?gs1 = "gs\<lparr>gs_chatHistory := gs_chatHistory gs @ [\<lparr>ce_player = ?p, ce_message = m\<rparr>]\<rparr>"
    show ?thesis
    proof (cases "isPlayer (server_getSeat (gs_server gs) k)")
      case True
      with assms ClientChat have "gs_broadcast J (ServerChat \<lparr>sh_player = ?p,
          sh_messageId = of_nat (Suc (length (gs_chatHistory gs))), sh_message = m\<rparr>) ?gs1 = Some (gs', out)"
        by (simp only: gs_onNetworkEvent_def Let_def gs_handleNetworkEvent.simps) simp
      from gs_broadcast_keeps [OF this] show ?thesis by (simp add: keeps_def)
    qed (use assms ClientChat in \<open>simp add: gs_onNetworkEvent_def\<close>)
  qed (use assms in \<open>auto simp: gs_onNetworkEvent_def gs_pushEvent_def Let_def keeps_def split: if_splits\<close>)
  then show "keeps gs gs'" "net_only out"
    "gs_game gs' = gs_game gs \<or> (\<exists>e. gs_game gs' = game_pushEvent (gs_game gs) e)" by simp_all
qed

lemma deliver_effect:
  "gs_deliver J self calls gs = Some (gs', out) \<Longrightarrow>
    keeps gs gs' \<and> gs_game gs' = gs_game gs \<and> gs_chatHistory gs' = gs_chatHistory gs \<and> net_only out"
proof (induction J self calls gs arbitrary: gs' out rule: gs_deliver.induct)
  case (2 J self l d cs gs)
  show ?case
  proof (cases "l = self")
    case True
    with "2.prems" obtain gs1 o1 o2 where 1: "gs_onGameDelta J d gs = Some (gs1, o1)"
      and 2: "gs_deliver J self cs gs1 = Some (gs', o2)" and out: "out = o1 @ o2"
      by (auto simp: bind_eq_Some_conv)
    from gs_broadcast_keeps [OF 1 [unfolded gs_onGameDelta_def]] have k1: "keeps gs gs1"
      "gs_game gs1 = gs_game gs" "gs_chatHistory gs1 = gs_chatHistory gs" "net_only o1" by simp_all
    from "2.IH"(1) [OF True 1 refl 2] have k2: "keeps gs1 gs'" "gs_game gs' = gs_game gs1"
      "gs_chatHistory gs' = gs_chatHistory gs1" "net_only o2" by simp_all
    from keeps_trans [OF k1(1) k2(1)] k1 k2 out show ?thesis by simp
  qed (use 2 in simp)
qed simp_all

text \<open>A new client is entered as a player, or not.\<close>

lemma connected_effect:
  assumes "gs_onClientConnected J k st gs = Some (gs', out)"
  shows "gs_game gs' = gs_game gs" "gs_chatHistory gs' = gs_chatHistory gs" "net_only out"
    "sends_only (gs_server gs) (gs_server gs')"
    "gs_players gs' = gs_players gs \<or> isPlayer st \<and> seat_player st \<notin> fst ` set (gs_players gs) \<and>
       gs_players gs' = gs_players gs @ [(seat_player st, k)]"
    "gs_gameThread gs' = gs_gameThread gs \<or> gs_gameThread gs = NotStarted \<and> gs_gameThread gs' = Starting \<and>
       length (gs_players gs') = 2"
proof -
  have "gs_game gs' = gs_game gs \<and> gs_chatHistory gs' = gs_chatHistory gs \<and> net_only out \<and>
    sends_only (gs_server gs) (gs_server gs') \<and>
    (gs_players gs' = gs_players gs \<or> isPlayer st \<and> seat_player st \<notin> fst ` set (gs_players gs) \<and>
       gs_players gs' = gs_players gs @ [(seat_player st, k)]) \<and>
    (gs_gameThread gs' = gs_gameThread gs \<or> gs_gameThread gs = NotStarted \<and> gs_gameThread gs' = Starting \<and>
       length (gs_players gs') = 2)"
  proof (cases "isPlayer st \<and> \<not> game_isActive (gs_game gs) \<and> seat_player st \<notin> fst ` set (gs_players gs)")
    case False
    with assms have "gs' = gs" "out = []" by (auto simp: gs_onClientConnected_def Let_def split: if_splits)
    then show ?thesis by simp
  next
    case True
    let ?gs1 = "gs\<lparr>gs_players := gs_players gs @ [(seat_player st, k)]\<rparr>"
    show ?thesis
    proof (cases "length (gs_players ?gs1) = 2 \<and> \<not> joinable (gs_gameThread ?gs1)")
      case False
      with assms True have "gs' = ?gs1" "out = []" by (auto simp: gs_onClientConnected_def Let_def)
      with True show ?thesis by simp
    next
      case len: True
      with assms True obtain e where "gs_broadcast J e (?gs1\<lparr>gs_gameThread := Starting\<rparr>) = Some (gs', out)"
        by (auto simp: gs_onClientConnected_def Let_def)
      from gs_broadcast_keeps [OF this] True len show ?thesis by (simp add: keeps_def joinable_def)
    qed
  qed
  then show "gs_game gs' = gs_game gs" "gs_chatHistory gs' = gs_chatHistory gs" "net_only out"
    "sends_only (gs_server gs) (gs_server gs')"
    "gs_players gs' = gs_players gs \<or> isPlayer st \<and> seat_player st \<notin> fst ` set (gs_players gs) \<and>
       gs_players gs' = gs_players gs @ [(seat_player st, k)]"
    "gs_gameThread gs' = gs_gameThread gs \<or> gs_gameThread gs = NotStarted \<and> gs_gameThread gs' = Starting \<and>
       length (gs_players gs') = 2" by simp_all
qed

lemma dispatch_net:
  "net_only o1 \<Longrightarrow> gs_dispatch J (o1 @ os) gs = map_option (\<lambda>(gs', out). (gs', o1 @ out)) (gs_dispatch J os gs)"
proof (induction o1)
  case (Cons x o1)
  then obtain y where "x = SO_Net y" "net_only o1" by (auto simp: net_only_def)
  with Cons.IH show ?case by (cases "gs_dispatch J os gs") auto
qed (simp add: option.map_ident case_prod_beta')

end
