(* ===== verification/Game_Server_Invariants.thy ===== *)
theory Game_Server_Invariants imports Game_Server begin

text \<open>
  The invariant of the server application: the players it knows are the sessions seated for them, the
  identifiers of the connections are fresh when they arrive, its game is a reachable game; and no event
  on either thread faults.
\<close>

subsection \<open>Players and their sessions\<close>

definition seated :: "session_manager \<Rightarrow> player \<Rightarrow> u32 \<Rightarrow> bool" where
  "seated m p i \<longleftrightarrow> (\<exists>c. map_of (sm_sessions m) i = Some c \<and> sc_isActive c \<and> sc_seat c = player_seat p)"

definition players_ok :: "session_manager \<Rightarrow> (player \<times> u32) list \<Rightarrow> bool" where
  "players_ok m ps \<longleftrightarrow> distinct (map fst ps) \<and> (\<forall>(p, i) \<in> set ps. seated m p i)"

lemma player_seat_simps [simp]:
  "player_seat p = player_seat q \<longleftrightarrow> p = q" "isPlayer (player_seat p)" "seat_player (player_seat p) = p"
  by (cases p; cases q; simp add: player_seat_def isPlayer_def seat_player_def)+

lemma player_seat_back: "isPlayer st \<Longrightarrow> player_seat (seat_player st) = st"
  by (auto simp: isPlayer_def player_seat_def seat_player_def)

lemma players_unique:
  assumes "players_ok m ps" "(p, i) \<in> set ps" "(q, j) \<in> set ps"
  shows "p = q \<longleftrightarrow> i = j"
proof -
  from assms have "seated m p i" "seated m q j" by (auto simp: players_ok_def)
  moreover from assms have "p = q \<Longrightarrow> i = j" by (auto simp: players_ok_def dest: eq_key_imp_eq_value)
  ultimately show ?thesis by (auto simp: seated_def)
qed

lemma erase_player_filter: "distinct (map snd ps) \<Longrightarrow> erase_player k ps = filter (\<lambda>e. snd e \<noteq> k) ps"
  by (induction k ps rule: erase_player.induct) (auto intro!: filter_True [symmetric])

lemma erase_players_ok:
  assumes "players_ok m ps"
  shows "players_ok (setDisconnected m k) (erase_player k ps)"
proof -
  have "inj_on snd (set ps)"
  proof (rule inj_onI)
    fix x y assume xy: "x \<in> set ps" "y \<in> set ps" "snd x = snd y"
    obtain p i q j where "x = (p, i)" "y = (q, j)" by (metis surj_pair)
    with xy players_unique [OF assms, of p i q j] show "x = y" by simp
  qed
  then have "distinct (map snd ps)" using assms by (auto simp: players_ok_def distinct_map)
  from erase_player_filter [OF this, of k] assms show ?thesis
    by (auto simp: players_ok_def seated_def distinct_map_filter)
qed

text \<open>Sessions other than the one that changes keep their players.\<close>

lemma players_ok_other:
  assumes "players_ok m ps" "\<And>p. (p, k) \<notin> set ps"
    and same: "\<And>j. j \<noteq> k \<Longrightarrow> map_of (sm_sessions m') j = map_of (sm_sessions m) j"
  shows "players_ok m' ps"
proof -
  have "seated m' p i" if "(p, i) \<in> set ps" for p i
  proof -
    from that assms(2) have "i \<noteq> k" by auto
    with that assms(1) same show ?thesis by (auto simp: players_ok_def seated_def)
  qed
  with assms(1) show ?thesis by (auto simp: players_ok_def)
qed

subsection \<open>Identifiers of connections\<close>

definition connects :: "ts_out list \<Rightarrow> u32 list" where
  "connects outs = concat (map (\<lambda>x. case x of TS_Connect i \<Rightarrow> [i] | _ \<Rightarrow> []) outs)"

definition queued :: "net_server \<Rightarrow> u32 list" where
  "queued sv = map sqe_connectionId (filter (\<lambda>e. sqe_type e = SQ_ClientConnected) (nq_queue (sv_eventQueue sv)))"

definition ids_ok :: "net_server \<Rightarrow> bool" where
  "ids_ok sv \<longleftrightarrow> distinct (queued sv) \<and>
     (\<forall>i \<in> set (queued sv). sm_connectionToSession (sv_sessionManager sv) i = None) \<and>
     (\<forall>i \<in> set (queued sv) \<union> dom (sm_connectionToSession (sv_sessionManager sv)).
        i \<noteq> 0 \<and> i < ts_CONN_ID (sv_network sv))"

definition sv_ok :: "net_server \<Rightarrow> bool" where
  "sv_ok sv \<longleftrightarrow> seats_ok (sv_sessionManager sv) \<and> server_ok (sv_network sv) \<and> ids_ok sv"

lemma sends_only_ok: "sends_only sv sv' \<Longrightarrow> sv_ok sv \<Longrightarrow> sv_ok sv'"
  by (simp add: sv_ok_def sends_only_def ids_ok_def queued_def)

text \<open>With fewer than \<open>2 ^ 32\<close> connections there is always room for another session.\<close>

lemma sv_ok_room:
  assumes ok: "sv_ok sv" and c: "ts_CONN_ID (sv_network sv) \<noteq> 0"
  shows "length (sm_sessions (sv_sessionManager sv)) < 2 ^ 32 - 1"
proof -
  let ?m = "sv_sessionManager sv" and ?c = "ts_CONN_ID (sv_network sv)"
  from ok have s: "sessions_ok ?m" by (simp add: sv_ok_def seats_ok_def)
  have u: "unat ?c < 2 ^ LENGTH(32)" by (rule unsigned_less)
  have "dom (map_of (sm_sessions ?m)) \<subseteq> (\<lambda>i. the (sm_connectionToSession ?m i)) ` dom (sm_connectionToSession ?m)"
  proof
    fix k assume "k \<in> dom (map_of (sm_sessions ?m))"
    then obtain c where "map_of (sm_sessions ?m) k = Some c" by auto
    with s have "sm_connectionToSession ?m (sc_connectionId c) = Some k" by (auto simp: sessions_ok_def)
    then show "k \<in> (\<lambda>i. the (sm_connectionToSession ?m i)) ` dom (sm_connectionToSession ?m)"
      by (metis domI image_eqI option.sel)
  qed
  moreover have d: "dom (sm_connectionToSession ?m) \<subseteq> {0<..<?c}"
    using ok by (auto simp: sv_ok_def ids_ok_def word_neq_0_conv)
  moreover have fin: "finite {0<..<?c}" by simp
  ultimately have "card (dom (map_of (sm_sessions ?m))) \<le> card {0<..<?c}"
    by (meson card_image_le card_mono finite_imageI finite_subset le_trans)
  also have "card {0<..<?c} \<le> card {0<..<unat ?c}"
  proof (rule card_inj_on_le [where f = unat])
    show "inj_on unat {0<..<?c}" by (rule inj_onI) (rule word_unat_eq_iff [THEN iffD2])
  qed (auto simp: word_less_nat_alt)
  also have "card {0<..<unat ?c} < 2 ^ 32 - 1"
    using c u by (simp add: word_neq_0_conv word_less_nat_alt)
  also have "card (dom (map_of (sm_sessions ?m))) = length (sm_sessions ?m)"
    using s distinct_card [of "map fst (sm_sessions ?m)"] by (simp add: sessions_ok_def dom_map_of_conv_image_fst)
  finally show ?thesis .
qed

subsection \<open>The network callbacks\<close>

lemma connects_simps [simp]:
  "connects [] = []" "connects (TS_Connect i # out) = i # connects out"
  "connects (TS_Message i m # out) = connects out" "connects (TS_Disconnect i # out) = connects out"
  "connects (TS_IO i io # out) = connects out"
  by (simp_all add: connects_def)

lemma connects_Nil: "\<forall>i. TS_Connect i \<notin> set out \<Longrightarrow> connects out = []"
  by (auto simp: connects_def split: ts_out.split)

lemma callbacks_queue:
  "sv' = foldl server_callback sv out \<Longrightarrow> sv_sessionManager sv' = sv_sessionManager sv \<and>
    sv_network sv' = sv_network sv \<and> sv_handler sv' = sv_handler sv \<and> sv_isRunning sv' = sv_isRunning sv \<and>
    queued sv' = queued sv @ connects out"
proof (induction out arbitrary: sv)
  case (Cons x out)
  then have "sv' = foldl server_callback (server_callback sv x) out" by simp
  from Cons.IH [OF this] show ?case
    by (cases x) (simp_all add: queued_def server_push_def server_onClientConnected_def
        server_onClientMessage_def server_onClientDisconnected_def NetQueue_Push_def)
qed simp

text \<open>A step of the network announces at most one new connection, under the next identifier.\<close>

lemma relay_all_connects: "relay_all i io s = (s', out) \<Longrightarrow> \<forall>j. CB_Connect j \<notin> set io \<Longrightarrow> connects out = []"
proof (induction io arbitrary: s out)
  case (Cons x io)
  obtain s1 o1 where r: "relay x s = (s1, o1)" by (cases "relay x s")
  obtain o2 where o2: "relay_all i io s1 = (s', o2)" "out = (if o1 = [] then [TS_IO i x] else o1) @ o2"
    using Cons.prems(1) r by (auto split: prod.splits)
  from Cons.IH [OF o2(1)] Cons.prems(2) r have "connects o2 = []" by simp
  moreover have "connects o1 = []" using r Cons.prems(2) by (cases x) auto
  ultimately show ?case using o2(2) by (simp add: connects_def)
qed simp

lemma on_connection_connects:
  "on_connection s i f = (s', out) \<Longrightarrow> (\<And>c. map_of (ts_connections s) i = Some c \<Longrightarrow> \<forall>j. CB_Connect j \<notin> set (snd (f c))) \<Longrightarrow>
    connects out = []"
  by (auto simp: on_connection_def split: option.splits prod.splits dest: relay_all_connects)

lemma conn_handler_no_connect: "conn_handler big e c = Some (c', io) \<Longrightarrow> CB_Connect j \<notin> set io"
  by (cases e) (auto simp: conn_posted_def conn_startWrite_def conn_onWritten_def conn_onHeader_def
      conn_onPayload_def conn_doDisconnect_def conn_startRead_def Let_def split: if_splits list.splits)

lemma ts_step_connects:
  assumes "ts_step big s out s'"
  shows "connects out = [] \<and> ts_CONN_ID s' = ts_CONN_ID s \<or>
    (connects out = [] \<or> connects out = [ts_CONN_ID s]) \<and> ts_CONN_ID s' = ts_CONN_ID s + 1"
  using assms
proof (induction rule: ts_step.induct)
  case (start s)
  show ?case by (simp add: tcp_server_start_def Let_def)
next
  case (stop s s' out)
  then have "ts_CONN_ID s' = ts_CONN_ID s" "\<forall>i. TS_Connect i \<notin> set out"
    by (auto simp: tcp_server_stop_def conn_stop_def split: if_splits)
  then show ?case by (simp add: connects_Nil)
next
  case (accept s ec s' out again)
  show ?case
  proof (cases "ts_running s \<and> \<not> ec \<and> map_of (ts_connections s) (ts_CONN_ID s) = None")
    case False
    with accept show ?thesis
      by (auto simp: tcp_server_onAccept_def createConnection_def Let_def split: if_splits)
  next
    case True
    let ?i = "ts_CONN_ID s"
    let ?s2 = "s\<lparr>ts_CONN_ID := ?i + 1, ts_connections := (?i, connection_new ?i) # ts_connections s\<rparr>"
    from True accept(1) have o: "on_connection ?s2 ?i conn_start = (s', out)"
      by (auto simp: tcp_server_onAccept_def createConnection_def Let_def split: prod.splits)
    have "conn_start (connection_new ?i) =
        (connection_new ?i\<lparr>c_running := True\<rparr>, [CB_Connect ?i, IO_ReadHeader])"
      by (simp add: conn_start_def conn_startRead_def connection_new_def)
    with o have "connects out = [?i]" by (auto simp: on_connection_def)
    with on_connection_CONN_ID [OF o] show ?thesis by simp
  qed
next
  case (send s i m r s' out)
  then have "connects out = []"
    by (auto simp: tcp_server_send_def conn_send_def split: if_splits elim!: on_connection_connects)
  with tcp_send_CONN_ID [OF send] show ?case by simp
next
  case (reject s i s' out)
  then have "connects out = []" "ts_CONN_ID s' = ts_CONN_ID s"
    by (auto simp: tcp_server_reject_def conn_stop_def split: if_splits prod.splits
        elim!: on_connection_connects dest: on_connection_CONN_ID)
  then show ?case by simp
next
  case (handler s i c e r s' out)
  have "connects out = []"
    using handler(3) by (rule on_connection_connects) (use handler(2) conn_handler_no_connect in \<open>metis prod.collapse\<close>)
  with on_connection_CONN_ID [OF handler(3)] show ?case by simp
qed

subsection \<open>The server thread\<close>

definition gs_inv :: "game_server \<Rightarrow> bool" where
  "gs_inv gs \<longleftrightarrow> sv_ok (gs_server gs) \<and> players_ok (sv_sessionManager (gs_server gs)) (gs_players gs) \<and>
     (sv_handler (gs_server gs) \<or> gs_players gs = [])"

text \<open>The players hold their seats: each has an active session of his own.\<close>

lemma gs_inv_players:
  assumes "gs_inv gs"
  shows "distinct (map fst (gs_players gs)) \<and> distinct (map snd (gs_players gs)) \<and>
    (\<forall>(p, i) \<in> set (gs_players gs). server_getSeat (gs_server gs) i = player_seat p \<and>
       (\<exists>c. map_of (sm_sessions (sv_sessionManager (gs_server gs))) i = Some c \<and> sc_isActive c))"
proof -
  let ?m = "sv_sessionManager (gs_server gs)"
  from assms have p: "players_ok ?m (gs_players gs)" by (simp add: gs_inv_def)
  then have seat: "getSeat ?m i = player_seat p" "\<exists>c. map_of (sm_sessions ?m) i = Some c \<and> sc_isActive c"
    if "(p, i) \<in> set (gs_players gs)" for p i
    using that by (auto simp: players_ok_def seated_def getSeat_def)
  have "distinct (map snd (gs_players gs))" unfolding distinct_map
  proof
    from p show "distinct (gs_players gs)" by (simp add: players_ok_def distinct_map)
    show "inj_on snd (set (gs_players gs))"
      using players_unique [OF p] by (auto intro!: inj_onI)
  qed
  moreover have "\<forall>(p, i) \<in> set (gs_players gs). server_getSeat (gs_server gs) i = player_seat p \<and>
      (\<exists>c. map_of (sm_sessions ?m) i = Some c \<and> sc_isActive c)"
    using seat unfolding server_getSeat_def by blast
  moreover have "distinct (map fst (gs_players gs))" using p by (simp add: players_ok_def)
  ultimately show ?thesis by blast
qed

lemma keeps_inv: "keeps gs gs' \<Longrightarrow> gs_inv gs \<Longrightarrow> gs_inv gs'"
  by (auto simp: keeps_def gs_inv_def sends_only_def dest: sends_only_ok [unfolded sends_only_def, rotated])

text \<open>Taking an event from the queue.\<close>

lemma popped_queued:
  assumes "sv_ok sv" "NetQueue_Pop (sv_eventQueue sv) = Popped e q"
  shows "sv_ok (sv\<lparr>sv_eventQueue := q\<rparr>)"
    "sqe_type e = SQ_ClientConnected \<Longrightarrow> sqe_connectionId e \<noteq> 0 \<and>
      sm_connectionToSession (sv_sessionManager sv) (sqe_connectionId e) = None \<and>
      sqe_connectionId e < ts_CONN_ID (sv_network sv) \<and>
      sqe_connectionId e \<notin> set (queued (sv\<lparr>sv_eventQueue := q\<rparr>))"
proof -
  from assms(2) have "nq_queue (sv_eventQueue sv) = e # nq_queue q" by (auto elim: server_queue.poppedE)
  then have q: "queued sv = (if sqe_type e = SQ_ClientConnected then [sqe_connectionId e] else []) @
      queued (sv\<lparr>sv_eventQueue := q\<rparr>)" by (simp add: queued_def)
  with assms(1) show "sv_ok (sv\<lparr>sv_eventQueue := q\<rparr>)" by (auto simp: sv_ok_def ids_ok_def split: if_splits)
  show "sqe_type e = SQ_ClientConnected \<Longrightarrow> sqe_connectionId e \<noteq> 0 \<and>
      sm_connectionToSession (sv_sessionManager sv) (sqe_connectionId e) = None \<and>
      sqe_connectionId e < ts_CONN_ID (sv_network sv) \<and>
      sqe_connectionId e \<notin> set (queued (sv\<lparr>sv_eventQueue := q\<rparr>))"
    using q assms(1) by (auto simp: sv_ok_def ids_ok_def)
qed

lemma connect_inv:
  assumes inv: "gs_inv gs" and ins: "inserts ins" and laws: "json_laws J utf8 fin" and komi: "fin komi_6_5"
    and c: "ts_CONN_ID (sv_network (gs_server gs)) \<noteq> 0"
    and e: "sqe_type e = SQ_ClientConnected" "sqe_connectionId e \<noteq> 0"
      "sm_connectionToSession (sv_sessionManager (gs_server gs)) (sqe_connectionId e) = None"
      "sqe_connectionId e < ts_CONN_ID (sv_network (gs_server gs))" "sqe_connectionId e \<notin> set (queued (gs_server gs))"
  shows "\<exists>gs' out. gs_server_event J ins e gs = Some (gs', out) \<and> gs_inv gs' \<and> gs_game gs' = gs_game gs"
proof -
  let ?sv = "gs_server gs" and ?i = "sqe_connectionId e"
  from inv have sv: "sv_ok ?sv" and pl: "players_ok (sv_sessionManager ?sv) (gs_players gs)" by (simp_all add: gs_inv_def)
  from sv have seats: "seats_ok (sv_sessionManager ?sv)" by (simp add: sv_ok_def)
  obtain k sv2 out1 where
    p: "processClientConnect J ins ?sv e = Some (sv2, out1 @ (if sv_handler ?sv
      then [SO_ClientConnected k (getSeat (sv_sessionManager sv2) k)] else []))"
    and seats2: "seats_ok (sv_sessionManager sv2)" and k: "k \<noteq> 0"
    and act: "\<exists>c. map_of (sm_sessions (sv_sessionManager sv2)) k = Some c \<and> sc_isActive c"
    and fresh: "map_of (sm_sessions (sv_sessionManager ?sv)) k = None"
    and conn: "sm_connectionToSession (sv_sessionManager sv2) = (sm_connectionToSession (sv_sessionManager ?sv))(?i \<mapsto> k)"
    and only: "sends_only (?sv\<lparr>sv_sessionManager := sv_sessionManager sv2\<rparr>) sv2" "net_only out1"
    and same: "\<And>j. j \<noteq> k \<Longrightarrow> map_of (sm_sessions (sv_sessionManager sv2)) j = map_of (sm_sessions (sv_sessionManager ?sv)) j"
    by (rule processClientConnect_ok [OF seats ins laws sv_ok_room [OF sv c] e(2)]) (use e(3) in blast)
  let ?st = "getSeat (sv_sessionManager sv2) k"
  have same_net: "queued sv2 = queued ?sv" "ts_CONN_ID (sv_network sv2) = ts_CONN_ID (sv_network ?sv)"
    "server_ok (sv_network sv2)" using only(1) sv by (simp_all add: sends_only_def queued_def sv_ok_def)
  then have "ids_ok sv2" using sv e(2-5) by (auto simp: sv_ok_def ids_ok_def conn)
  with same_net(3) seats2 have sv2: "sv_ok sv2" by (simp add: sv_ok_def)
  have "(p, k) \<notin> set (gs_players gs)" for p
    using pl fresh by (auto simp: players_ok_def seated_def)
  with pl have pl2: "players_ok (sv_sessionManager sv2) (gs_players gs)"
    using same by (rule players_ok_other)
  let ?gs2 = "gs\<lparr>gs_server := sv2\<rparr>"
  have hand: "sv_handler sv2 = sv_handler ?sv" using only(1) by (simp add: sends_only_def)
  have ev: "gs_server_event J ins e gs = map_option (\<lambda>(gs', out). (gs', out1 @ out))
      (gs_dispatch J (if sv_handler ?sv then [SO_ClientConnected k ?st] else []) ?gs2)"
    using e(1) p by (simp add: gs_server_event_def processEvent_def dispatch_net [OF only(2)])
  show ?thesis
  proof (cases "sv_handler ?sv")
    case False
    with ev inv sv2 pl2 show ?thesis by (simp add: gs_inv_def)
  next
    case True
    obtain gs3 out3 where 3: "gs_onClientConnected J k ?st ?gs2 = Some (gs3, out3)"
      using gs_broadcast_total [OF laws] komi by (fastforce simp: gs_onClientConnected_def Let_def)
    note ef = connected_effect [OF this]
    have "players_ok (sv_sessionManager sv2) (gs_players gs3)"
    proof (cases "gs_players gs3 = gs_players gs")
      case True
      with pl2 show ?thesis by simp
    next
      case False
      with ef(5) have "isPlayer ?st" "seat_player ?st \<notin> fst ` set (gs_players gs)"
        "gs_players gs3 = gs_players gs @ [(seat_player ?st, k)]" by simp_all
      moreover from act this(1) have "seated (sv_sessionManager sv2) (seat_player ?st) k"
        by (auto simp: seated_def getSeat_def player_seat_back)
      ultimately show ?thesis using pl2 by (auto simp: players_ok_def)
    qed
    moreover from ef(4) have s3: "sends_only sv2 (gs_server gs3)" by simp
    ultimately have "gs_inv gs3"
      using sends_only_ok [OF s3 sv2] True hand by (simp add: gs_inv_def sends_only_def)
    with ev True 3 ef(1) show ?thesis by simp
  qed
qed

lemma disconnect_inv:
  assumes inv: "gs_inv gs" and e: "sqe_type e = SQ_ClientDisconnected"
  shows "\<exists>gs' out. gs_server_event J ins e gs = Some (gs', out) \<and> gs_inv gs' \<and> gs_game gs' = gs_game gs"
proof -
  let ?sv = "gs_server gs" and ?k = "getSessionId (sv_sessionManager (gs_server gs)) (sqe_connectionId e)"
  let ?m = "sv_sessionManager ?sv"
  show ?thesis
  proof (cases "?k = 0")
    case True
    with e inv show ?thesis by (simp add: gs_server_event_def processEvent_def processClientDisconnect_def)
  next
    case False
    let ?sv1 = "?sv\<lparr>sv_sessionManager := setDisconnected ?m ?k\<rparr>"
    have p: "processEvent J ins ?sv e =
        Some (?sv1, if sv_handler ?sv \<and> isPlayer (getSeat ?m ?k) then [SO_ClientDisconnected ?k] else [])"
      using e False by (simp add: processEvent_def processClientDisconnect_def Let_def)
    have "sm_connectionToSession (setDisconnected ?m ?k) = sm_connectionToSession ?m"
      by (simp add: setDisconnected_def split: option.splits)
    then have sv1: "sv_ok ?sv1"
      using inv disconnect_seats_ok [of ?m ?k] by (simp add: gs_inv_def sv_ok_def ids_ok_def queued_def)
    from inv have pl: "players_ok ?m (gs_players gs)" "sv_handler ?sv \<or> gs_players gs = []" by (simp_all add: gs_inv_def)
    show ?thesis
    proof (cases "sv_handler ?sv \<and> isPlayer (getSeat ?m ?k)")
      case True
      with p sv1 erase_players_ok [OF pl(1), of ?k] show ?thesis
        by (simp add: gs_server_event_def gs_onClientDisconnected_def gs_inv_def)
    next
      case False
      have "(q, ?k) \<notin> set (gs_players gs)" for q
        using pl False by (auto simp: players_ok_def seated_def getSeat_def)
      with pl(1) have "players_ok (setDisconnected ?m ?k) (gs_players gs)" by (rule players_ok_other) simp
      with p sv1 False pl(2) show ?thesis by (simp add: gs_server_event_def gs_inv_def)
    qed
  qed
qed

lemma message_inv:
  assumes inv: "gs_inv gs" and laws: "json_laws J utf8 fin" and e: "sqe_type e = SQ_ClientMessage"
  shows "\<exists>gs' out. gs_server_event J ins e gs = Some (gs', out) \<and> gs_inv gs' \<and>
    (gs_game gs' = gs_game gs \<or> (\<exists>ev. gs_game gs' = game_pushEvent (gs_game gs) ev))"
proof -
  obtain r where r: "fromClientMessage J (sqe_payload e) = Some r"
    using fromClientMessage_total [OF laws, of "sqe_payload e"] by auto
  let ?sv = "gs_server gs" and ?k = "getSessionId (sv_sessionManager (gs_server gs)) (sqe_connectionId e)"
  have "processEvent J ins ?sv e = Some (?sv, if ?k = 0 \<or> \<not> isPlayer (getSeat (sv_sessionManager ?sv) ?k) \<or> r = None \<or>
      \<not> sv_handler ?sv then [] else [SO_NetworkEvent ?k (the r)])"
    using r e by (simp add: processEvent_def processClientMessage_def Let_def split: option.split)
  then consider "processEvent J ins ?sv e = Some (?sv, [])"
    | ev where "processEvent J ins ?sv e = Some (?sv, [SO_NetworkEvent ?k ev])" "r = Some ev"
    by (cases r) (auto split: if_splits)
  then show ?thesis
  proof cases
    case 1
    with inv show ?thesis by (simp add: gs_server_event_def)
  next
    case 2
    from fromClientMessage_utf8 [OF laws, of "sqe_payload e"] r 2(2) have u: "client_event_ok utf8 ev"
      by (simp add: post_def)
    have "\<exists>gs' out. gs_onNetworkEvent J ?k ev gs = Some (gs', out)"
    proof (cases ev)
      case (ClientChat m)
      with u have "server_event_ok utf8 fin (ServerChat \<lparr>sh_player = p, sh_messageId = i, sh_message = m\<rparr>)" for p i
        by simp
      from gs_broadcast_total [OF laws this] ClientChat show ?thesis
        by (simp add: gs_onNetworkEvent_def Let_def)
    qed (simp_all add: gs_onNetworkEvent_def Let_def)
    then obtain gs' out where n: "gs_onNetworkEvent J ?k ev gs = Some (gs', out)" by blast
    from network_event_effect [OF n] inv 2(1) n show ?thesis
      by (auto simp: gs_server_event_def intro: keeps_inv)
  qed
qed

text \<open>No event faults, and the invariant is kept.\<close>

lemma gs_server_event_ok:
  assumes inv: "gs_inv gs" and ins: "inserts ins" and laws: "json_laws J utf8 fin" and komi: "fin komi_6_5"
    and c: "ts_CONN_ID (sv_network (gs_server gs)) \<noteq> 0"
    and pop: "NetQueue_Pop (sv_eventQueue (gs_server gs)) = Popped e q"
  shows "\<exists>gs' out. gs_server_event J ins e (gs\<lparr>gs_server := (gs_server gs)\<lparr>sv_eventQueue := q\<rparr>\<rparr>) = Some (gs', out) \<and>
    gs_inv gs' \<and> (gs_game gs' = gs_game gs \<or> (\<exists>ev. gs_game gs' = game_pushEvent (gs_game gs) ev))"
proof -
  let ?gs = "gs\<lparr>gs_server := (gs_server gs)\<lparr>sv_eventQueue := q\<rparr>\<rparr>"
  from inv have sv: "sv_ok (gs_server gs)" by (simp add: gs_inv_def)
  note p = popped_queued [OF sv pop]
  from inv p(1) have inv1: "gs_inv ?gs" by (simp add: gs_inv_def)
  show ?thesis
  proof (cases "sqe_type e")
    case SQ_ClientConnected
    with connect_inv [OF inv1 ins laws komi _ SQ_ClientConnected] p(2) c show ?thesis by auto
  next
    case SQ_ClientDisconnected
    from disconnect_inv [OF inv1 this, of J ins] show ?thesis by auto
  next
    case SQ_ClientMessage
    from message_inv [OF inv1 laws this, of ins] show ?thesis by auto
  next
    case SQ_Shutdown
    with inv1 show ?thesis
      by (simp add: gs_server_event_def processEvent_def processShutdown_def gs_inv_def sv_ok_def ids_ok_def queued_def)
  qed
qed

subsection \<open>The game thread\<close>

lemma delta_to_net_ok: "delta_for g d g' \<Longrightarrow> delta_ok (delta_to_net d)"
  by (cases "gd_action d") (auto simp: delta_for_def delta_ok_def delta_to_net_def isValid_action_def isValid_status_def)

lemma deltas_of_member: "OnGameDelta l d \<in> set calls \<Longrightarrow> d \<in> set (deltas_of calls l)"
  by (induction calls l rule: deltas_of.induct) auto

lemma handled_deltas_ok:
  assumes "game_ok mk draw n g" "handleEvent g e = Some (g', calls)" "OnGameDelta l d \<in> set calls"
  shows "delta_ok (delta_to_net d)"
  using handleEvent_deltas [OF assms(1,2)] deltas_of_member [OF assms(3)] delta_to_net_ok
  by (auto simp: set_replicate_conv_if split: if_splits)

lemma deliver_total:
  assumes laws: "json_laws J utf8 fin" and "\<forall>l d. OnGameDelta l d \<in> set calls \<longrightarrow> delta_ok (delta_to_net d)"
  shows "\<exists>gs' out. gs_deliver J self calls gs = Some (gs', out)"
  using assms(2)
proof (induction calls arbitrary: gs)
  case (Cons x calls)
  have IH: "\<exists>gs' out. gs_deliver J self calls gs = Some (gs', out)" for gs using Cons by (intro Cons.IH) auto
  show ?case
  proof (cases x)
    case (OnGameDelta l d)
    with Cons.prems have "server_event_ok utf8 fin (ServerDelta (delta_to_net d))" by simp
    from gs_broadcast_total [OF laws this] obtain gs1 o1 where b: "gs_onGameDelta J d gs = Some (gs1, o1)"
      unfolding gs_onGameDelta_def by blast
    obtain gs2 o2 where "gs_deliver J self calls gs1 = Some (gs2, o2)" using IH by blast
    with b IH [of gs] OnGameDelta show ?thesis by simp
  qed (use IH in simp)
qed simp

lemma gs_game_event_ok:
  assumes inv: "gs_inv gs" and ok: "game_ok mk draw n (gs_game gs)" and laws: "json_laws J utf8 fin"
  shows "\<exists>gs' out calls. gs_game_event J self e gs = Some (gs', out) \<and> gs_inv gs' \<and>
    handleEvent (gs_game gs) e = Some (gs_game gs', calls) \<and> gs_gameThread gs' = gs_gameThread gs \<and>
    gs_chatHistory gs' = gs_chatHistory gs"
proof -
  from handleEvent_no_fault [OF ok, of e] obtain g calls where h: "handleEvent (gs_game gs) e = Some (g, calls)"
    by blast
  let ?gs = "gs\<lparr>gs_game := g\<rparr>"
  from handled_deltas_ok [OF ok h] deliver_total [OF laws, of calls self ?gs] obtain gs' out where
    d: "gs_deliver J self calls ?gs = Some (gs', out)" by blast
  from deliver_effect [OF d] have "keeps ?gs gs'" "gs_game gs' = g" "gs_chatHistory gs' = gs_chatHistory gs" by simp_all
  moreover from inv have "gs_inv ?gs" by (simp add: gs_inv_def)
  ultimately show ?thesis using h d keeps_inv [of ?gs gs'] by (auto simp: gs_game_event_def keeps_def)
qed

subsection \<open>Reachable applications\<close>

definition gs_ok :: "(u64 \<Rightarrow> 'g) \<Rightarrow> ('g \<Rightarrow> u64 \<times> 'g) \<Rightarrow> nat \<Rightarrow> game_server \<Rightarrow> bool" where
  "gs_ok mk draw n gs \<longleftrightarrow> gs_inv gs \<and> (\<exists>hs. game_reach mk draw n (gs_game gs) hs) \<and>
     ts_CONN_ID (sv_network (gs_server gs)) \<noteq> 0 \<and>
     (gs_gameThread gs \<noteq> InLoop \<longrightarrow> \<not> g_gameActive (gs_game gs))"

lemma gs_start_inv: "gs_inv gs \<Longrightarrow> gs_inv (gs_start self gs)"
proof -
  assume inv: "gs_inv gs"
  let ?sv = "gs_server gs"
  have "server_ok (tcp_server_start (sv_network ?sv))"
    using ts_step_ok [OF ts_step.start] inv by (simp add: gs_inv_def sv_ok_def)
  moreover have "ts_CONN_ID (tcp_server_start (sv_network ?sv)) = ts_CONN_ID (sv_network ?sv)"
    by (simp add: tcp_server_start_def Let_def)
  ultimately show ?thesis using inv
    by (auto simp: gs_start_def server_registerHandler_def server_start_def gs_inv_def sv_ok_def ids_ok_def queued_def)
qed

lemma server_stop_ok: "server_stop sv = (sv', out) \<Longrightarrow> sv_ok sv \<Longrightarrow> sv_ok sv' \<and>
  sv_sessionManager sv' = sv_sessionManager sv \<and> sv_handler sv' = sv_handler sv \<and>
  ts_CONN_ID (sv_network sv') = ts_CONN_ID (sv_network sv)"
proof -
  assume st: "server_stop sv = (sv', out)" and ok: "sv_ok sv"
  obtain net o1 where t: "tcp_server_stop (sv_network sv) = (net, o1)" by (cases "tcp_server_stop (sv_network sv)")
  have net: "server_ok net" using stop_step [OF _ t] ok by (simp add: sv_ok_def)
  have c: "ts_CONN_ID net = ts_CONN_ID (sv_network sv)" using t by (auto simp: tcp_server_stop_def split: if_splits)
  from st t have "sv_sessionManager sv' = sv_sessionManager sv" "sv_network sv' = net" "sv_handler sv' = sv_handler sv"
    "queued sv' = queued sv"
    by (auto simp: server_stop_def server_push_def queued_def NetQueue_Release_def NetQueue_Push_def
        Let_def split: if_splits)
  with ok net c show ?thesis by (simp add: sv_ok_def ids_ok_def)
qed

lemma gs_stop_inv:
  assumes st: "gs_stop self gs = (gs', out)" and inv: "gs_inv gs"
  shows "gs_inv gs' \<and> ts_CONN_ID (sv_network (gs_server gs')) = ts_CONN_ID (sv_network (gs_server gs)) \<and>
    gs_gameThread gs' = gs_gameThread gs \<and> gs_chatHistory gs' = gs_chatHistory gs"
proof -
  obtain sv o1 where sv: "server_stop (gs_server gs) = (sv, o1)" by (cases "server_stop (gs_server gs)")
  with st have gs': "gs_server gs' = sv" "gs_players gs' = gs_players gs" "gs_gameThread gs' = gs_gameThread gs"
    "gs_chatHistory gs' = gs_chatHistory gs" by (auto simp: gs_stop_def Let_def)
  from inv server_stop_ok [OF sv] gs' show ?thesis by (simp add: gs_inv_def)
qed

lemma u32_less_Suc: "(c :: u32) + 1 \<noteq> 0 \<Longrightarrow> c < c + 1"
  using unatSuc [of c] by (simp add: word_less_nat_alt add.commute)

lemma network_inv:
  assumes st: "ts_step big (sv_network (gs_server gs)) out net" and inv: "gs_inv gs"
    and c: "ts_CONN_ID (sv_network (gs_server gs)) \<noteq> 0" "ts_CONN_ID net \<noteq> 0"
  shows "gs_inv (gs\<lparr>gs_server := foldl server_callback ((gs_server gs)\<lparr>sv_network := net\<rparr>) out\<rparr>)"
proof -
  let ?sv = "gs_server gs" and ?sv' = "foldl server_callback ((gs_server gs)\<lparr>sv_network := net\<rparr>) out"
  let ?c = "ts_CONN_ID (sv_network ?sv)"
  from inv have ok: "sv_ok ?sv" by (simp add: gs_inv_def)
  then have net: "server_ok net" using ts_step_ok [OF st] by (simp add: sv_ok_def)
  from callbacks_queue [OF refl, of "?sv\<lparr>sv_network := net\<rparr>" out]
  have f: "sv_sessionManager ?sv' = sv_sessionManager ?sv" "sv_network ?sv' = net" "sv_handler ?sv' = sv_handler ?sv"
    "queued ?sv' = queued ?sv @ connects out" by (simp_all add: queued_def)
  have grow: "?c < ?c + 1" if "ts_CONN_ID net = ?c + 1"
    using that c(2) u32_less_Suc [of ?c] by simp
  then have grow2: "i < ?c + 1" if "ts_CONN_ID net = ?c + 1" "i < ?c" for i
    using that less_trans by blast
  from ok have fresh: "?c \<notin> set (queued ?sv)" "sm_connectionToSession (sv_sessionManager ?sv) ?c = None"
    by (auto simp: sv_ok_def ids_ok_def)
  from ts_step_connects [OF st] have "ids_ok ?sv'"
  proof (elim disjE conjE)
    assume "connects out = []" "ts_CONN_ID net = ?c"
    with ok f show ?thesis by (simp add: sv_ok_def ids_ok_def)
  next
    assume "ts_CONN_ID net = ?c + 1" "connects out = []"
    with ok f grow2 show ?thesis by (auto simp: sv_ok_def ids_ok_def)
  next
    assume "ts_CONN_ID net = ?c + 1" "connects out = [?c]"
    with ok f grow grow2 fresh c(1) show ?thesis by (auto simp: sv_ok_def ids_ok_def)
  qed
  with inv net f show ?thesis by (simp add: gs_inv_def sv_ok_def)
qed

lemma reach_push: "game_reach mk draw n g hs \<Longrightarrow> \<exists>hs. game_reach mk draw n (game_pushEvent g e) hs"
  using game_reach_extends [OF _ game_step.push] by blast

lemma reach_subscribe: "game_reach mk draw n g hs \<Longrightarrow> \<exists>hs. game_reach mk draw n (game_subscribeState g l) hs"
  using game_reach_extends [OF _ game_step.subscribe_state] by blast

lemma reach_unsubscribe: "game_reach mk draw n g hs \<Longrightarrow> \<exists>hs. game_reach mk draw n (game_unsubscribeState g l) hs"
  using game_reach_extends [OF _ game_step.unsubscribe_state] by blast

text \<open>The server thread starts the game thread, and does nothing else to it.\<close>

lemma dispatch_thread:
  "gs_dispatch J outs gs = Some (gs', out) \<Longrightarrow> gs_gameThread gs' = gs_gameThread gs \<or>
    gs_gameThread gs = NotStarted \<and> gs_gameThread gs' = Starting"
proof (induction outs arbitrary: gs out)
  case (Cons x outs)
  then obtain gs1 o1 o2 where 1: "(case x of SO_ClientConnected i st \<Rightarrow> gs_onClientConnected J i st gs
      | SO_ClientDisconnected i \<Rightarrow> Some (gs_onClientDisconnected i gs, [])
      | SO_NetworkEvent i e \<Rightarrow> gs_onNetworkEvent J i e gs
      | SO_Net y \<Rightarrow> Some (gs, [SO_Net y])) = Some (gs1, o1)" and 2: "gs_dispatch J outs gs1 = Some (gs', o2)"
    by (auto simp: bind_eq_Some_conv)
  have "gs_gameThread gs1 = gs_gameThread gs \<or> gs_gameThread gs = NotStarted \<and> gs_gameThread gs1 = Starting"
  proof (cases x)
    case (SO_ClientConnected i st)
    with 1 have "gs_onClientConnected J i st gs = Some (gs1, o1)" by simp
    from connected_effect(6) [OF this] show ?thesis by blast
  next
    case (SO_NetworkEvent i e)
    with 1 have "gs_onNetworkEvent J i e gs = Some (gs1, o1)" by simp
    from network_event_effect(1) [OF this] show ?thesis by (simp add: keeps_def)
  qed (use 1 in \<open>auto simp: gs_onClientDisconnected_def\<close>)
  with Cons.IH [OF 2] show ?case by auto
qed simp

lemma server_event_thread:
  assumes "gs_server_event J ins e gs = Some (gs', out)"
  shows "gs_gameThread gs' = gs_gameThread gs \<or> gs_gameThread gs = NotStarted \<and> gs_gameThread gs' = Starting"
proof -
  from assms obtain sv o1 where "gs_dispatch J o1 (gs\<lparr>gs_server := sv\<rparr>) = Some (gs', out)"
    by (auto simp: gs_server_event_def bind_eq_Some_conv)
  from dispatch_thread [OF this] show ?thesis by simp
qed

text \<open>An event ends with at most one call of the handler.\<close>

lemma processEvent_shape:
  assumes "processEvent J ins sv e = Some (sv', out)"
  obtains o1 cs where "net_only o1" "out = o1 @ cs"
    "cs = [] \<or> (\<exists>k st. cs = [SO_ClientConnected k st]) \<or> (\<exists>k. cs = [SO_ClientDisconnected k]) \<or> (\<exists>k ev. cs = [SO_NetworkEvent k ev])"
proof (cases "sqe_type e")
  case SQ_ClientConnected
  with assms have "processClientConnect J ins sv e = Some (sv', out)" by (simp add: processEvent_def)
  then obtain o1 k st where "net_only o1" "out = o1 @ (if sv_handler sv' then [SO_ClientConnected k st] else [])"
    by (rule connect_outputs)
  then show ?thesis by (cases "sv_handler sv'") (auto intro: that)
next
  case SQ_ClientMessage
  with assms show ?thesis
    by (intro that [of "[]" out]) (auto simp: processEvent_def processClientMessage_def Let_def net_only_def
      bind_eq_Some_conv split: if_splits option.splits)
next
  case SQ_ClientDisconnected
  with assms show ?thesis
    by (intro that [of "[]" out]) (auto simp: processEvent_def processClientDisconnect_def Let_def net_only_def split: if_splits)
next
  case SQ_Shutdown
  with assms show ?thesis
    by (intro that [of "[]" out]) (auto simp: processEvent_def processShutdown_def net_only_def)
qed

lemma connected_starts:
  assumes "gs_server_event J ins e gs = Some (gs', out)" "gs_gameThread gs = NotStarted" "gs_gameThread gs' \<noteq> NotStarted"
  shows "gs_gameThread gs' = Starting \<and> length (gs_players gs') = 2"
proof -
  from assms(1) obtain sv o1 where p: "processEvent J ins (gs_server gs) e = Some (sv, o1)"
    and d: "gs_dispatch J o1 (gs\<lparr>gs_server := sv\<rparr>) = Some (gs', out)"
    by (auto simp: gs_server_event_def bind_eq_Some_conv)
  from p obtain os cs where o: "net_only os" "o1 = os @ cs" "cs = [] \<or> (\<exists>k st. cs = [SO_ClientConnected k st]) \<or>
      (\<exists>k. cs = [SO_ClientDisconnected k]) \<or> (\<exists>k ev. cs = [SO_NetworkEvent k ev])" by (rule processEvent_shape)
  let ?gs = "gs\<lparr>gs_server := sv\<rparr>"
  from d o(1,2) obtain out2 where d2: "gs_dispatch J cs ?gs = Some (gs', out2)" by (auto simp: dispatch_net)
  from o(3) consider "cs = []" | k st where "cs = [SO_ClientConnected k st]" | k where "cs = [SO_ClientDisconnected k]"
    | k ev where "cs = [SO_NetworkEvent k ev]" by blast
  then show ?thesis
  proof cases
    case 2
    with d2 have "\<exists>o2. gs_onClientConnected J k st ?gs = Some (gs', o2)" by (auto simp: bind_eq_Some_conv)
    with connected_effect(6) assms(2,3) show ?thesis by fastforce
  next
    case 4
    with d2 have "\<exists>o2. gs_onNetworkEvent J k ev ?gs = Some (gs', o2)" by (auto simp: bind_eq_Some_conv)
    with network_event_effect(1) assms(2,3) show ?thesis by (fastforce simp: keeps_def)
  qed (use d2 assms(2,3) in \<open>auto simp: gs_onClientDisconnected_def\<close>)
qed

lemma gs_step_ok:
  assumes st: "gs_step J ins self big gs out gs'" and ok: "gs_ok mk draw n gs"
    and ins: "inserts ins" and laws: "json_laws J utf8 fin" and komi: "fin komi_6_5"
    and c: "ts_CONN_ID (sv_network (gs_server gs')) \<noteq> 0"
  shows "gs_ok mk draw n gs'"
  using st ok c
proof (induction rule: gs_step.induct)
  case (start gs)
  then obtain hs where "game_reach mk draw n (gs_game gs) hs" by (auto simp: gs_ok_def)
  with start gs_start_inv [of gs self] reach_subscribe [of mk draw n "gs_game gs" hs self] show ?case
    by (auto simp: gs_ok_def gs_start_def server_registerHandler_def game_subscribeState_def Let_def)
next
  case (stop gs gs' out)
  from stop(2) obtain hs where hs: "game_reach mk draw n (gs_game gs) hs" by (auto simp: gs_ok_def)
  have g: "gs_game gs' = game_unsubscribeState
      (if joinable (gs_gameThread gs) then game_pushEvent (gs_game gs) ShutdownEvent else gs_game gs) self"
    using stop(1) by (auto simp: gs_stop_def Let_def split: prod.splits)
  obtain hs1 where "game_reach mk draw n (if joinable (gs_gameThread gs) then game_pushEvent (gs_game gs) ShutdownEvent else gs_game gs) hs1"
    using reach_push [OF hs, of ShutdownEvent] hs by (cases "joinable (gs_gameThread gs)") auto
  from reach_unsubscribe [OF this] have "\<exists>hs. game_reach mk draw n (gs_game gs') hs" unfolding g .
  moreover have "g_gameActive (gs_game gs') = g_gameActive (gs_game gs)"
    by (simp add: g game_unsubscribeState_def game_pushEvent_def)
  ultimately show ?case using stop gs_stop_inv [OF stop(1)] by (simp add: gs_ok_def)
next
  case (joined gs)
  then show ?case by (auto simp: gs_ok_def gs_stop_joined_def gs_inv_def players_ok_def)
next
  case (network gs out net)
  from callbacks_queue [OF refl, of "(gs_server gs)\<lparr>sv_network := net\<rparr>" out] network(3)
  have "ts_CONN_ID net \<noteq> 0" by simp
  with network network_inv [OF network(1)] show ?case by (simp add: gs_ok_def)
next
  case (server_thread gs e q gs' out)
  from server_thread(4) have inv: "gs_inv gs" "ts_CONN_ID (sv_network (gs_server gs)) \<noteq> 0" by (auto simp: gs_ok_def)
  from gs_server_event_ok [OF inv(1) ins laws komi inv(2) server_thread(2)] server_thread(3)
  have e: "gs_inv gs'" "gs_game gs' = gs_game gs \<or> (\<exists>ev. gs_game gs' = game_pushEvent (gs_game gs) ev)" by auto
  from server_event_thread [OF server_thread(3)] have t: "gs_gameThread gs' = gs_gameThread gs \<or>
    gs_gameThread gs = NotStarted \<and> gs_gameThread gs' = Starting" by simp
  from e(2) have a: "g_gameActive (gs_game gs') = g_gameActive (gs_game gs)" by (auto simp: game_pushEvent_def)
  from server_thread(4) obtain hs where "game_reach mk draw n (gs_game gs) hs" by (auto simp: gs_ok_def)
  with e(2) reach_push have "\<exists>hs. game_reach mk draw n (gs_game gs') hs" by metis
  with e(1) a t server_thread(4,5) show ?case by (auto simp: gs_ok_def)
next
  case (game_enters gs)
  then obtain hs where "game_reach mk draw n (gs_game gs) hs" by (auto simp: gs_ok_def)
  with game_reach_extends [OF this game_step.enter_run] game_enters show ?case
    by (auto simp: gs_ok_def gs_inv_def)
next
  case (game_thread gs e q gs' out)
  from game_thread(5) obtain hs where hs: "game_reach mk draw n (gs_game gs) hs" and inv: "gs_inv gs" by (auto simp: gs_ok_def)
  let ?gs = "gs\<lparr>gs_game := (gs_game gs)\<lparr>g_eventQueue := q\<rparr>\<rparr>"
  from game_reach_inv [OF hs] have "game_ok mk draw n (gs_game ?gs)" by simp
  moreover have "gs_inv ?gs" using inv by (simp add: gs_inv_def)
  ultimately obtain calls where r: "gs_inv gs'" "handleEvent (gs_game ?gs) e = Some (gs_game gs', calls)"
    "gs_gameThread gs' = gs_gameThread gs"
    using gs_game_event_ok [of ?gs mk draw n J utf8 fin self e] laws game_thread(4) by auto
  from game_reach_extends [OF hs game_step.handle [OF game_thread(2,3)]] r(2)
  have "\<exists>hs. game_reach mk draw n (gs_game gs') hs" by auto
  with r game_thread show ?case by (simp add: gs_ok_def)
next
  case (game_leaves gs)
  then show ?case by (auto simp: gs_ok_def gs_inv_def)
qed

text \<open>What can be reached while fewer than \<open>2 ^ 32\<close> connections have been accepted.\<close>

inductive gs_reach :: "'j json_api \<Rightarrow> inserter \<Rightarrow> listener \<Rightarrow> bool \<Rightarrow> (u64 \<Rightarrow> 'g) \<Rightarrow> ('g \<Rightarrow> u64 \<times> 'g) \<Rightarrow> nat \<Rightarrow>
    game_server \<Rightarrow> server_out list \<Rightarrow> bool" for J ins self big mk draw n where
  init: "game_server_new mk draw n (tcp_server_new a b c d) = Some gs \<Longrightarrow> gs_reach J ins self big mk draw n gs []"
| step: "gs_reach J ins self big mk draw n gs outs \<Longrightarrow> gs_step J ins self big gs out gs' \<Longrightarrow>
     ts_CONN_ID (sv_network (gs_server gs')) \<noteq> 0 \<Longrightarrow> gs_reach J ins self big mk draw n gs' (outs @ out)"

lemma gs_new_ok:
  assumes "game_server_new mk draw n (tcp_server_new a b c d) = Some gs"
  shows "gs_ok mk draw n gs"
proof -
  from assms obtain g where g: "game_new mk draw n = Some g"
    and gs: "gs = \<lparr>gs_game = g, gs_gameThread = NotStarted, gs_players = [], gs_chatHistory = [],
      gs_server = net_server_new (tcp_server_new a b c d)\<rparr>"
    by (auto simp: game_server_new_def)
  have "server_ok (tcp_server_new a b c d)" by (rule ts_reach_ok [OF ts_reach.init])
  moreover have "ts_CONN_ID (tcp_server_new a b c d) = 1" by (simp add: tcp_server_new_def Let_def)
  ultimately have "sv_ok (net_server_new (tcp_server_new a b c d))"
    using new_seats_ok [of "tcp_server_new a b c d"]
    by (simp add: sv_ok_def ids_ok_def queued_def net_server_new_def NetQueue_new_def session_manager_new_def)
  with \<open>ts_CONN_ID (tcp_server_new a b c d) = 1\<close> game_reach.init [OF g] game_new_ok [OF g] show ?thesis
    by (auto simp: gs gs_ok_def gs_inv_def players_ok_def net_server_new_def)
qed

lemma gs_reach_ok:
  assumes "gs_reach J ins self big mk draw n gs outs" "inserts ins" "json_laws J utf8 fin" "fin komi_6_5"
  shows "gs_ok mk draw n gs"
  using assms(1)
proof (induction rule: gs_reach.induct)
  case (init a b c d gs)
  then show ?case by (rule gs_new_ok)
next
  case (step gs outs out gs')
  then show ?case using gs_step_ok assms(2-4) by blast
qed


subsection \<open>What is broadcast, and the handler\<close>

lemma gs_broadcast_posts:
  assumes "server_ok (sv_network (gs_server gs))" "json_laws J utf8 fin" "server_event_ok utf8 fin ev"
  shows "\<exists>msg gs'. toMessage_server J ev = Some msg \<and> gs_broadcast J ev gs =
    Some (gs', posts (sv_network (gs_server gs)) msg (recipients (sv_sessionManager (gs_server gs))))"
proof -
  from server_roundtrip [OF assms(2,3)] obtain msg where m: "toMessage_server J ev = Some msg" "msg \<noteq> []" by blast
  from server_broadcast_eq [OF assms(1) m] m show ?thesis by (auto simp: gs_broadcast_def)
qed

text \<open>The handler of the network server stays registered for good.\<close>

lemma server_send_only: "server_send J i ev sv = Some (r, sv', out) \<Longrightarrow> sends_only sv sv'"
  by (auto simp: server_send_def Let_def bind_eq_Some_conv dest: net_send_only split: if_splits)

lemma processEvent_handler: "processEvent J ins sv e = Some (sv', out) \<Longrightarrow> sv_handler sv' = sv_handler sv"
  by (cases "sqe_type e") (auto simp: processEvent_def processClientConnect_def processClientMessage_def
    processClientDisconnect_def processShutdown_def sends_only_def Let_def bind_eq_Some_conv
    dest!: server_send_only split: if_splits option.splits)

lemma dispatch_handler: "gs_dispatch J os gs = Some (gs', out) \<Longrightarrow> sv_handler (gs_server gs') = sv_handler (gs_server gs)"
proof (induction os arbitrary: gs out)
  case (Cons x os)
  then obtain gs1 o1 o2 where 1: "(case x of SO_ClientConnected i st \<Rightarrow> gs_onClientConnected J i st gs
      | SO_ClientDisconnected i \<Rightarrow> Some (gs_onClientDisconnected i gs, [])
      | SO_NetworkEvent i e \<Rightarrow> gs_onNetworkEvent J i e gs
      | SO_Net y \<Rightarrow> Some (gs, [SO_Net y])) = Some (gs1, o1)" and 2: "gs_dispatch J os gs1 = Some (gs', o2)"
    by (auto simp: bind_eq_Some_conv)
  have "sv_handler (gs_server gs1) = sv_handler (gs_server gs)"
    using 1 connected_effect(4) [of J _ _ gs gs1 o1] network_event_effect(1) [of J _ _ gs gs1 o1]
    by (cases x) (auto simp: gs_onClientDisconnected_def keeps_def sends_only_def)
  with Cons.IH [OF 2] show ?case by simp
qed simp

lemma gs_step_handler: "gs_step J ins self big gs out gs' \<Longrightarrow> sv_handler (gs_server gs) \<Longrightarrow> sv_handler (gs_server gs')"
proof (induction rule: gs_step.induct)
  case (start gs)
  then show ?case by (simp add: gs_start_def server_registerHandler_def Let_def)
next
  case (stop gs gs' out)
  then show ?case by (auto simp: gs_stop_def server_stop_def Let_def server_push_def split: prod.splits if_splits)
next
  case (network gs out net)
  with callbacks_queue [OF refl, of "(gs_server gs)\<lparr>sv_network := net\<rparr>" out] show ?case by simp
next
  case (server_thread gs e q gs' out)
  then show ?case by (auto simp: gs_server_event_def bind_eq_Some_conv dest!: processEvent_handler dispatch_handler)
next
  case (game_thread gs e q gs' out)
  then show ?case by (auto simp: gs_game_event_def bind_eq_Some_conv keeps_def sends_only_def dest!: deliver_effect)
qed (simp_all add: gs_stop_joined_def)

end
