(* ===== verification/App_Session_Manager.thy ===== *)
theory App_Session_Manager
  imports Net_Client App_Position App_Event_Hub Game_Server_Invariants
begin

text \<open>
  \<open>src/apps/runtime/sessionManager.cpp\<close>: the client application. It owns the network client, the copy of
  the game that the user interface shows, the chat, and, when it hosts a game, the server application.
  The handlers \<open>on...\<close> run on the reading thread of the client, the other operations on the thread of the
  user interface; \<open>m_stateMutex\<close> guards the position and the chat, so each guarded block is one step. The
  operations that wait for another thread are cut at the joins. \<open>None\<close> is a fault or an exception.
\<close>

record session_chat =
  sc_player :: player
  sc_messageId :: u32
  sc_message :: string

record 's session =
  ss_network :: "'s net_client"
  ss_eventHub :: app_hub
  ss_position :: app_position
  ss_expectedMessageId :: u32
  ss_chatHistory :: "session_chat list"
  ss_pendingChat :: "u32 \<Rightarrow> session_chat option"
  ss_localServer :: "game_server option"

definition session_new :: "'s \<Rightarrow> 's session" where
  "session_new s =
     \<lparr>ss_network = snd (client_registerHandler (net_client_new s)), ss_eventHub = app_hub_new,
      ss_position = app_position_new, ss_expectedMessageId = 1, ss_chatHistory = [],
      ss_pendingChat = Map.empty, ss_localServer = None\<rparr>"

definition session_subscribe :: "'s session \<Rightarrow> listener \<Rightarrow> u64 \<Rightarrow> 's session" where
  "session_subscribe s l m = s\<lparr>ss_eventHub := app_subscribe (ss_eventHub s) l m\<rparr>"

definition session_unsubscribe :: "'s session \<Rightarrow> listener \<Rightarrow> 's session" where
  "session_unsubscribe s l = s\<lparr>ss_eventHub := app_unsubscribe (ss_eventHub s) l\<rparr>"

definition session_signals :: "'s session \<Rightarrow> app_signal list \<Rightarrow> app_call list" where
  "session_signals s sigs = concat (map (app_hub_signal (ss_eventHub s)) sigs)"

subsection \<open>What the user does in a game\<close>

definition session_send ::
  "bool \<Rightarrow> ('s, 'e) socket_api \<Rightarrow> 'j json_api \<Rightarrow> client_event \<Rightarrow> 's session \<Rightarrow> 's session option" where
  "session_send big S J e s = do {
     (ok, c) \<leftarrow> client_send big S J e (ss_network s);
     Some (s\<lparr>ss_network := c\<rparr>)
   }"

definition tryPlace :: "bool \<Rightarrow> ('s, 'e) socket_api \<Rightarrow> 'j json_api \<Rightarrow> u32 \<Rightarrow> u32 \<Rightarrow> 's session \<Rightarrow> 's session option" where
  "tryPlace big S J x y s = session_send big S J (ClientPutStone (Coord x y)) s"

definition tryResign :: "bool \<Rightarrow> ('s, 'e) socket_api \<Rightarrow> 'j json_api \<Rightarrow> 's session \<Rightarrow> 's session option" where
  "tryResign big S J s = session_send big S J ClientResign s"

definition tryPass :: "bool \<Rightarrow> ('s, 'e) socket_api \<Rightarrow> 'j json_api \<Rightarrow> 's session \<Rightarrow> 's session option" where
  "tryPass big S J s = session_send big S J ClientPass s"

definition session_chat_message ::
  "bool \<Rightarrow> ('s, 'e) socket_api \<Rightarrow> 'j json_api \<Rightarrow> string \<Rightarrow> 's session \<Rightarrow> 's session option" where
  "session_chat_message big S J message s = session_send big S J (ClientChat message) s"

subsection \<open>What the user interface reads\<close>

definition session_status :: "'s session \<Rightarrow> game_status" where
  "session_status s = position_getStatus (ss_position s)"

definition session_board :: "'s session \<Rightarrow> board" where
  "session_board s = position_getBoard (ss_position s)"

definition session_currentPlayer :: "'s session \<Rightarrow> player" where
  "session_currentPlayer s = position_getPlayer (ss_position s)"

text \<open>\<open>std::upper_bound\<close> on \<open>len\<close> entries from \<open>first\<close> on: the halving search of the standard library.\<close>

function upper_bound :: "u32 \<Rightarrow> session_chat list \<Rightarrow> nat \<Rightarrow> nat \<Rightarrow> nat" where
  "upper_bound v h first len =
     (if len = 0 then first
      else let half = len div 2
           in if sc_messageId (h ! (first + half)) > v then upper_bound v h first half
              else upper_bound v h (first + half + 1) (len - half - 1))"
  by pat_completeness auto
termination by (relation "measure (\<lambda>(v, h, first, len). len)") auto

declare upper_bound.simps [simp del]

definition getChatSince :: "'s session \<Rightarrow> u32 \<Rightarrow> session_chat list" where
  "getChatSince s messageId =
     drop (upper_bound messageId (ss_chatHistory s) 0 (length (ss_chatHistory s))) (ss_chatHistory s)"

subsection \<open>The handlers of the network client\<close>

definition onGameUpdate :: "server_delta \<Rightarrow> 's session \<Rightarrow> ('s session \<times> app_call list) option" where
  "onGameUpdate d s = do {
     let previousStatus = position_getStatus (ss_position s);
     (applied, p) \<leftarrow> position_apply (ss_position s) d;
     let s1 = s\<lparr>ss_position := p\<rparr>;
     if \<not> applied then Some (s1, [])
     else do {
       sigs \<leftarrow> (case sd_action d of
          SA_Place \<Rightarrow> Some [AS_BoardChange, AS_PlayerChange]
        | SA_Pass \<Rightarrow> Some [AS_PlayerChange]
        | SA_Resign \<Rightarrow> Some []
        | SA_Count \<Rightarrow> None);
       Some (s1, session_signals s1 (sigs @ (if previousStatus \<noteq> position_getStatus p then [AS_StateChange] else [])))
     }
   }"

definition onGameConfig ::
  "(nat \<Rightarrow> bool) \<Rightarrow> server_game_config \<Rightarrow> 's session \<Rightarrow> ('s session \<times> app_call list) option" where
  "onGameConfig room e s = do {
     (initialized, p) \<leftarrow> position_init room (ss_position s) e;
     let s1 = s\<lparr>ss_position := p\<rparr>;
     Some (s1, if \<not> initialized then [] else session_signals s1 [AS_BoardChange, AS_PlayerChange, AS_StateChange])
   }"

text \<open>The loop that moves waiting messages into the history: each pass takes one out of the map.\<close>

function drain_pending :: "u32 \<Rightarrow> session_chat list \<Rightarrow> (u32 \<Rightarrow> session_chat option) \<Rightarrow> bool \<Rightarrow>
    u32 \<times> session_chat list \<times> (u32 \<Rightarrow> session_chat option) \<times> bool" where
  "drain_pending expected history pending appended =
     (case pending expected of
        None \<Rightarrow> (expected, history, pending, appended)
      | Some c \<Rightarrow> drain_pending (expected + 1) (history @ [c]) (pending(expected := None)) True)"
  by pat_completeness auto
termination
  by (relation "measure (\<lambda>(e, h, p, a). card (dom p))") (auto intro!: card_Diff1_less)

declare drain_pending.simps [simp del]

definition chat_of :: "server_chat \<Rightarrow> session_chat" where
  "chat_of e = \<lparr>sc_player = sh_player e, sc_messageId = sh_messageId e, sc_message = sh_message e\<rparr>"

definition onChatMessage :: "server_chat \<Rightarrow> 's session \<Rightarrow> 's session \<times> app_call list" where
  "onChatMessage e s =
     (let k = sh_messageId e; expected = ss_expectedMessageId s;
          (expected1, history1, pending1, appended1) =
            (if k < expected then (expected, ss_chatHistory s, ss_pendingChat s, False)
             else if k = expected then (expected + 1, ss_chatHistory s @ [chat_of e], ss_pendingChat s, True)
             else (expected, ss_chatHistory s,
                   (if ss_pendingChat s k = None then (ss_pendingChat s)(k \<mapsto> chat_of e) else ss_pendingChat s),
                   False));
          (expected2, history2, pending2, appended2) = drain_pending expected1 history1 pending1 appended1;
          s1 = s\<lparr>ss_expectedMessageId := expected2, ss_chatHistory := history2, ss_pendingChat := pending2\<rparr>
      in (s1, if appended2 then session_signals s1 [AS_NewChat] else []))"

definition session_cleared :: "nat \<Rightarrow> 's session \<Rightarrow> 's session" where
  "session_cleared boardSize s = s\<lparr>ss_position := position_reset boardSize, ss_expectedMessageId := 1,
     ss_chatHistory := [], ss_pendingChat := Map.empty\<rparr>"

definition all_changed :: "'s session \<Rightarrow> app_call list" where
  "all_changed s = session_signals s [AS_BoardChange, AS_PlayerChange, AS_StateChange]"

definition onDisconnected :: "'s session \<Rightarrow> 's session \<times> app_call list" where
  "onDisconnected s = (let s1 = session_cleared 9 s in (s1, all_changed s1))"

fun session_call :: "(nat \<Rightarrow> bool) \<Rightarrow> client_call \<Rightarrow> 's session \<Rightarrow> ('s session \<times> app_call list) option" where
  "session_call room (OnGameUpdate d) s = onGameUpdate d s"
| "session_call room (OnGameConfig g) s = onGameConfig room g s"
| "session_call room (OnChatMessage m) s = Some (onChatMessage m s)"
| "session_call room OnDisconnected s = Some (onDisconnected s)"

fun session_calls :: "(nat \<Rightarrow> bool) \<Rightarrow> client_call list \<Rightarrow> 's session \<Rightarrow> ('s session \<times> app_call list) option" where
  "session_calls room [] s = Some (s, [])"
| "session_calls room (c # cs) s = do {
     (s1, out) \<leftarrow> session_call room c s;
     (s2, out') \<leftarrow> session_calls room cs s1;
     Some (s2, out @ out')
   }"

subsection \<open>Connecting, hosting, leaving\<close>

text \<open>
  The thread of the user interface runs one of four operations. Each disconnects the client, ends the
  server it hosts and sets the state, in an order of its own. The two middle parts wait for a thread to
  end, so the program counter says where the operation is.
\<close>

datatype session_op = OpConnect string | OpHost nat | OpDisconnect | OpShutdown

datatype session_pc = Free | AtNetwork session_op | JoinReader session_op | AtServer session_op
  | JoinGame session_op | AtEnd session_op

datatype session_out = ToUser app_call | ToNet server_out

text \<open>\<open>host\<close> starts with \<open>disconnect\<close>; \<open>connect\<close> drops the server but leaves the client connected.\<close>

definition session_begin :: "session_op \<Rightarrow> 's session \<Rightarrow> 's session \<times> session_pc" where
  "session_begin op s =
     (case op of
        OpConnect host \<Rightarrow>
          (let s1 = session_cleared 9 s
           in (s1\<lparr>ss_position := position_setStatus (ss_position s1) Ready\<rparr>, AtServer op))
      | OpHost n \<Rightarrow> (s, AtNetwork op)
      | OpDisconnect \<Rightarrow> (s, AtNetwork op)
      | OpShutdown \<Rightarrow> (s, AtServer op))"

definition after_network :: "session_op \<Rightarrow> session_pc" where
  "after_network op = (if op = OpShutdown then AtEnd op else AtServer op)"

definition after_server :: "session_op \<Rightarrow> session_pc" where
  "after_server op = (if op = OpShutdown then AtNetwork op else AtEnd op)"

definition session_network :: "('s, 'e) socket_api \<Rightarrow> session_op \<Rightarrow> 's session \<Rightarrow> 's session \<times> session_pc" where
  "session_network S op s =
     (let (c, joins) = client_disconnect S (ss_network s)
      in (s\<lparr>ss_network := c\<rparr>, if joins then JoinReader op else after_network op))"

definition session_reader_joined :: "session_op \<Rightarrow> 's session \<Rightarrow> 's session \<times> session_pc" where
  "session_reader_joined op s = (s\<lparr>ss_network := client_joined (ss_network s)\<rparr>, after_network op)"

definition session_server :: "listener \<Rightarrow> session_op \<Rightarrow> 's session \<Rightarrow> 's session \<times> session_pc \<times> server_out list" where
  "session_server self op s =
     (case ss_localServer s of
        None \<Rightarrow> (s, after_server op, [])
      | Some gs \<Rightarrow> (let (gs1, out) = gs_stop self gs in (s\<lparr>ss_localServer := Some gs1\<rparr>, JoinGame op, out)))"

text \<open>\<open>reset\<close> destroys the server. \<open>connect\<close> has not stopped it before, for the others the destructor stops
  it a second time.\<close>

definition session_game_joined :: "listener \<Rightarrow> session_op \<Rightarrow> game_server \<Rightarrow> 's session \<Rightarrow>
    's session \<times> session_pc \<times> server_out list" where
  "session_game_joined self op gs s =
     (s\<lparr>ss_localServer := None\<rparr>, after_server op,
      (case op of OpConnect host \<Rightarrow> [] | _ \<Rightarrow> snd (gs_stop self (gs_stop_joined gs))))"

text \<open>\<open>tcp\<close> is what the constructor of the TCP server makes of the sockets it is given.\<close>

definition session_end ::
  "('s, 'e) socket_api \<Rightarrow> (u64 \<Rightarrow> 'g) \<Rightarrow> ('g \<Rightarrow> u64 \<times> 'g) \<Rightarrow> listener \<Rightarrow> tcp_server \<Rightarrow> session_op \<Rightarrow> 's session \<Rightarrow>
     ('s session \<times> app_call list) option" where
  "session_end S mk draw self tcp op s =
     (case op of
        OpConnect host \<Rightarrow> do {
          (ok, c) \<leftarrow> client_connect S host DEFAULT_PORT (ss_network s);
          let s1 = s\<lparr>ss_network := c\<rparr>;
          Some (s1, all_changed s1)
        }
      | OpHost n \<Rightarrow> do {
          let s1 = session_cleared 9 s;
          let news = all_changed s1;
          let s2 = session_cleared n s1;
          let s3 = s2\<lparr>ss_position := position_setStatus (ss_position s2) Ready\<rparr>;
          gs \<leftarrow> game_server_new mk draw n tcp;
          let s4 = s3\<lparr>ss_localServer := Some (gs_start self gs)\<rparr>;
          (ok, c) \<leftarrow> client_connect S ''127.0.0.1'' DEFAULT_PORT (ss_network s4);
          let s5 = s4\<lparr>ss_network := c\<rparr>;
          Some (s5, news @ all_changed s5)
        }
      | OpDisconnect \<Rightarrow> (let s1 = session_cleared 9 s in Some (s1, all_changed s1))
      | OpShutdown \<Rightarrow> Some (session_cleared 9 s, []))"

subsection \<open>The threads\<close>

text \<open>The steps of the hosted server include that its own thread of control starts or stops it at any
  time, which is more than this program does.\<close>

inductive session_step ::
  "(nat \<Rightarrow> bool) \<Rightarrow> bool \<Rightarrow> ('s, 'e) socket_api \<Rightarrow> 'j json_api \<Rightarrow> inserter \<Rightarrow> (u64 \<Rightarrow> 'g) \<Rightarrow> ('g \<Rightarrow> u64 \<times> 'g) \<Rightarrow> listener \<Rightarrow>
     's session \<times> session_pc \<Rightarrow> session_out list \<Rightarrow> 's session \<times> session_pc \<Rightarrow> bool"
  for room big S J ins mk draw self where
  call: "session_begin op s = (s', pc) \<Longrightarrow> session_step room big S J ins mk draw self (s, Free) [] (s', pc)"
| network: "session_network S op s = (s', pc) \<Longrightarrow>
     session_step room big S J ins mk draw self (s, AtNetwork op) [] (s', pc)"
| reader_joined: "cl_readThread (ss_network s) = ThreadFinished \<Longrightarrow> session_reader_joined op s = (s', pc) \<Longrightarrow>
     session_step room big S J ins mk draw self (s, JoinReader op) [] (s', pc)"
| server: "session_server self op s = (s', pc, out) \<Longrightarrow>
     session_step room big S J ins mk draw self (s, AtServer op) (map ToNet out) (s', pc)"
| game_joined: "ss_localServer s = Some gs \<Longrightarrow> gs_gameThread gs = LoopLeft \<or> gs_gameThread gs = NotStarted \<Longrightarrow>
     session_game_joined self op gs s = (s', pc, out) \<Longrightarrow>
     session_step room big S J ins mk draw self (s, JoinGame op) (map ToNet out) (s', pc)"
| ends: "session_end S mk draw self (tcp_server_new a b c d) op s = Some (s', news) \<Longrightarrow>
     session_step room big S J ins mk draw self (s, AtEnd op) (map ToUser news) (s', Free)"
| user_sends: "session_send big S J e s = Some s' \<Longrightarrow>
     session_step room big S J ins mk draw self (s, Free) [] (s', Free)"
| subscribes: "session_step room big S J ins mk draw self (s, Free) [] (session_subscribe s l m, Free)"
| unsubscribes: "session_step room big S J ins mk draw self (s, Free) [] (session_unsubscribe s l, Free)"
| reads: "cl_readThread (ss_network s) = ThreadRuns \<Longrightarrow> client_pass big S J (ss_network s) = (c, calls, True) \<Longrightarrow>
     session_calls room calls (s\<lparr>ss_network := c\<rparr>) = Some (s', news) \<Longrightarrow>
     session_step room big S J ins mk draw self (s, pc) (map ToUser news) (s', pc)"
| reader_ends: "cl_readThread (ss_network s) = ThreadRuns \<Longrightarrow> client_pass big S J (ss_network s) = (c, calls, False) \<Longrightarrow>
     session_calls room (if cl_handler c then [OnDisconnected] else [])
       (s\<lparr>ss_network := c\<lparr>cl_readThread := ThreadFinished\<rparr>\<rparr>) = Some (s', news) \<Longrightarrow>
     session_step room big S J ins mk draw self (s, pc) (map ToUser news) (s', pc)"
| local_server: "ss_localServer s = Some gs \<Longrightarrow> gs_step J ins self big gs out gs' \<Longrightarrow>
     session_step room big S J ins mk draw self (s, pc) (map ToNet out) (s\<lparr>ss_localServer := Some gs'\<rparr>, pc)"


subsection \<open>The chat\<close>

text \<open>
  \<open>f\<close> gives the message of each identifier and \<open>R\<close> is the set of the identifiers received: the history holds
  the messages \<open>1\<close> to \<open>n\<close>, where \<open>n + 1\<close> is the first one missing, and what came too early is waiting.
\<close>

definition chat_upto :: "(u32 \<Rightarrow> session_chat) \<Rightarrow> nat \<Rightarrow> session_chat list" where
  "chat_upto f n = map (\<lambda>k. f (of_nat k)) [1..<Suc n]"

definition chat_waiting :: "(u32 \<Rightarrow> session_chat) \<Rightarrow> u32 set \<Rightarrow> nat \<Rightarrow> u32 \<Rightarrow> session_chat option" where
  "chat_waiting f R n = (\<lambda>i. if i \<in> R \<and> n < unat i then Some (f i) else None)"

definition chat_prefix :: "u32 set \<Rightarrow> nat \<Rightarrow> bool" where
  "chat_prefix R n \<longleftrightarrow> Suc n < 2 ^ 32 \<and> (\<forall>k \<in> {1..n}. of_nat k \<in> R) \<and> of_nat (Suc n) \<notin> R"

definition chat_state :: "(u32 \<Rightarrow> session_chat) \<Rightarrow> u32 set \<Rightarrow> nat \<Rightarrow> 's session \<Rightarrow> bool" where
  "chat_state f R n s \<longleftrightarrow> chat_prefix R n \<and> ss_expectedMessageId s = of_nat (Suc n) \<and>
     ss_chatHistory s = chat_upto f n \<and> ss_pendingChat s = chat_waiting f R n"

lemma chat_upto_Suc: "chat_upto f (Suc n) = chat_upto f n @ [f (of_nat (Suc n))]"
  by (simp add: chat_upto_def)

lemma unat_of_nat_u32: "k < 2 ^ 32 \<Longrightarrow> unat (of_nat k :: u32) = k"
  by (simp add: unat_of_nat take_bit_nat_eq_self)

lemma drain_upto:
  assumes "\<forall>j \<in> {1..n}. of_nat j \<in> R" "n < k" "k < 2 ^ 32" "of_nat k \<notin> R"
  shows "\<exists>m \<ge> n. drain_pending (of_nat (Suc n)) (chat_upto f n) (chat_waiting f R n) a =
    (of_nat (Suc m), chat_upto f m, chat_waiting f R m, a \<or> n < m) \<and> chat_prefix R m"
  using assms
proof (induction "k - n" arbitrary: n a rule: less_induct)
  case less
  let ?e = "of_nat (Suc n) :: u32"
  have u: "unat ?e = Suc n" using less.prems by (intro unat_of_nat_u32) simp
  show ?case
  proof (cases "?e \<in> R")
    case False
    then have "drain_pending ?e (chat_upto f n) (chat_waiting f R n) a = (?e, chat_upto f n, chat_waiting f R n, a)"
      by (subst drain_pending.simps) (simp add: chat_waiting_def)
    with False less.prems show ?thesis by (intro exI [of _ n]) (auto simp: chat_prefix_def)
  next
    case True
    have w: "chat_waiting f R n ?e = Some (f ?e)" unfolding chat_waiting_def using True u by simp
    have w': "(chat_waiting f R n)(?e := None) = chat_waiting f R (Suc n)"
    proof
      fix i :: u32
      have "i = ?e \<longleftrightarrow> unat i = Suc n" by (simp only: word_unat_eq_iff u)
      then show "((chat_waiting f R n)(?e := None)) i = chat_waiting f R (Suc n) i"
        using u by (auto simp: chat_waiting_def simp del: of_nat_Suc)
    qed
    have ne: "Suc n \<noteq> k" using True less.prems(4) by auto
    have step: "drain_pending ?e (chat_upto f n) (chat_waiting f R n) a =
        drain_pending (of_nat (Suc (Suc n))) (chat_upto f (Suc n)) (chat_waiting f R (Suc n)) True"
      by (subst drain_pending.simps) (simp add: w w' chat_upto_Suc [symmetric] add.commute del: of_nat_Suc, simp)
    have "\<forall>j \<in> {1..Suc n}. of_nat j \<in> R" using True less.prems(1) by (auto simp: le_Suc_eq)
    moreover have "k - Suc n < k - n" "Suc n < k" using ne less.prems(2) by auto
    ultimately obtain m where "Suc n \<le> m"
      "drain_pending (of_nat (Suc (Suc n))) (chat_upto f (Suc n)) (chat_waiting f R (Suc n)) True =
        (of_nat (Suc m), chat_upto f m, chat_waiting f R m, True \<or> Suc n < m)" "chat_prefix R m"
      using less.hyps [of "Suc n" True, OF _ _ _ less.prems(3,4)] by blast
    with step show ?thesis by (intro exI [of _ m]) auto
  qed
qed


lemma message_missing:
  assumes "card R < 2 ^ 32 - 1" "\<forall>j \<in> {1..n}. of_nat j \<in> R"
  obtains k where "n < k" "k < 2 ^ 32" "(of_nat k :: u32) \<notin> R"
proof -
  let ?I = "{1 ..< 2 ^ 32 :: nat}"
  have "inj_on (of_nat :: nat \<Rightarrow> u32) ?I"
    by (rule inj_onI) (metis atLeastLessThan_iff unat_of_nat_u32)
  then have "card ((of_nat :: nat \<Rightarrow> u32) ` ?I) = 2 ^ 32 - 1" by (simp add: card_image)
  then have "\<not> (of_nat :: nat \<Rightarrow> u32) ` ?I \<subseteq> R" using assms(1) card_mono [of R] by (metis finite not_le)
  then obtain k where k: "k \<in> ?I" "(of_nat k :: u32) \<notin> R" by blast
  with assms(2) have "n < k" by (metis atLeastAtMost_iff atLeastLessThan_iff not_less)
  with k that show ?thesis by simp
qed

lemma onChatMessage_state:
  assumes st: "chat_state f R n s" and e: "chat_of e = f (sh_messageId e)"
    and R: "card (insert (sh_messageId e) R) < 2 ^ 32 - 1"
  shows "\<exists>m \<ge> n. chat_state f (insert (sh_messageId e) R) m (fst (onChatMessage e s)) \<and>
    snd (onChatMessage e s) = (if n < m then session_signals s [AS_NewChat] else [])"
proof -
  let ?k = "sh_messageId e" and ?R = "insert (sh_messageId e) R" and ?x = "of_nat (Suc n) :: u32"
  from st have n: "Suc n < 2 ^ 32" "\<forall>j \<in> {1..n}. of_nat j \<in> ?R" "?x \<notin> R"
    and s: "ss_expectedMessageId s = ?x" "ss_chatHistory s = chat_upto f n" "ss_pendingChat s = chat_waiting f R n"
    by (auto simp: chat_state_def chat_prefix_def)
  have u: "unat ?x = Suc n" by (rule unat_of_nat_u32 [OF n(1)])
  consider "?k < ?x" | "?k = ?x" | "?x < ?k" by (rule linorder_cases)
  then show ?thesis
  proof cases
    case 1
    then have "unat ?k \<le> n" using u by (simp add: word_less_nat_alt)
    then have w: "chat_waiting f R n = chat_waiting f ?R n" by (auto simp: chat_waiting_def)
    from message_missing [OF R n(2)] obtain k where "n < k" "k < 2 ^ 32" "(of_nat k :: u32) \<notin> ?R" .
    from drain_upto [OF n(2) this, of f False] obtain m where m: "n \<le> m"
      "drain_pending ?x (chat_upto f n) (chat_waiting f ?R n) False =
        (of_nat (Suc m), chat_upto f m, chat_waiting f ?R m, False \<or> n < m)" "chat_prefix ?R m" by blast
    then show ?thesis using 1 s w
      by (intro exI [of _ m]) (simp add: onChatMessage_def chat_state_def session_signals_def del: of_nat_Suc)
  next
    case 2
    have n': "\<forall>j \<in> {1..Suc n}. of_nat j \<in> ?R" using n(2) 2 by (auto simp: le_Suc_eq simp del: of_nat_Suc)
    have w: "chat_waiting f R n = chat_waiting f ?R (Suc n)"
    proof
      fix i :: u32
      have "i = ?k \<longleftrightarrow> unat i = Suc n" unfolding 2 by (simp only: word_unat_eq_iff u)
      then show "chat_waiting f R n i = chat_waiting f ?R (Suc n) i"
        using n(3) 2 u by (auto simp: chat_waiting_def simp del: of_nat_Suc)
    qed
    from message_missing [OF R n'] obtain k where "Suc n < k" "k < 2 ^ 32" "(of_nat k :: u32) \<notin> ?R" .
    from drain_upto [OF n' this, of f True] obtain m where m: "Suc n \<le> m"
      "drain_pending (of_nat (Suc (Suc n))) (chat_upto f (Suc n)) (chat_waiting f ?R (Suc n)) True =
        (of_nat (Suc m), chat_upto f m, chat_waiting f ?R m, True \<or> Suc n < m)" "chat_prefix ?R m" by blast
    moreover have "?x + 1 = of_nat (Suc (Suc n))" by simp
    ultimately show ?thesis using 2 s w e
      by (intro exI [of _ m])
         (simp add: onChatMessage_def chat_state_def session_signals_def chat_upto_Suc del: of_nat_Suc)
  next
    case 3
    then have k: "Suc n < unat ?k" using u by (simp add: word_less_nat_alt)
    have w: "(if chat_waiting f R n ?k = None then (chat_waiting f R n)(?k \<mapsto> chat_of e) else chat_waiting f R n) =
        chat_waiting f ?R n"
      using k e by (auto simp: chat_waiting_def fun_eq_iff)
    from message_missing [OF R n(2)] obtain k where "n < k" "k < 2 ^ 32" "(of_nat k :: u32) \<notin> ?R" .
    from drain_upto [OF n(2) this, of f False] obtain m where m: "n \<le> m"
      "drain_pending ?x (chat_upto f n) (chat_waiting f ?R n) False =
        (of_nat (Suc m), chat_upto f m, chat_waiting f ?R m, False \<or> n < m)" "chat_prefix ?R m" by blast
    moreover have "\<not> ?k < ?x" "?k \<noteq> ?x" using 3 by auto
    ultimately show ?thesis unfolding onChatMessage_def Let_def s w
      by (intro exI [of _ m]) (simp add: chat_state_def session_signals_def del: of_nat_Suc)
  qed
qed


text \<open>Whatever the order in which messages arrive, and however often, the history grows in the order of
  their numbers and has no gap.\<close>

lemma session_chat_state:
  assumes "chat_state f R n s" "\<forall>e \<in> set es. chat_of e = f (sh_messageId e)"
    "card (R \<union> sh_messageId ` set es) < 2 ^ 32 - 1"
  shows "\<exists>m s' news. session_calls room (map OnChatMessage es) s = Some (s', news) \<and> n \<le> m \<and>
    chat_state f (R \<union> sh_messageId ` set es) m s'"
  using assms
proof (induction es arbitrary: R n s)
  case Nil
  then show ?case by auto
next
  case (Cons e es)
  let ?R = "insert (sh_messageId e) R"
  have U: "R \<union> sh_messageId ` set (e # es) = ?R \<union> sh_messageId ` set es" by auto
  have "card ?R \<le> card (?R \<union> sh_messageId ` set es)" by (intro card_mono) auto
  with Cons.prems(3) have "card ?R < 2 ^ 32 - 1" unfolding U by linarith
  with onChatMessage_state [OF Cons.prems(1)] Cons.prems(2) obtain m where m: "n \<le> m"
    "chat_state f ?R m (fst (onChatMessage e s))" by (metis list.set_intros(1))
  from Cons.IH [OF m(2)] Cons.prems(2,3) obtain k s' news where
    "session_calls room (map OnChatMessage es) (fst (onChatMessage e s)) = Some (s', news)" "m \<le> k"
    "chat_state f (?R \<union> sh_messageId ` set es) k s'" unfolding U by auto
  with m(1) show ?case unfolding U by (intro exI [of _ k] exI [of _ s']) (auto simp: prod_eq_iff split_beta)
qed

lemma chat_state_fresh:
  "ss_expectedMessageId s = 1 \<Longrightarrow> ss_chatHistory s = [] \<Longrightarrow> ss_pendingChat s = Map.empty \<Longrightarrow> chat_state f {} 0 s"
  by (simp add: chat_state_def chat_prefix_def chat_upto_def chat_waiting_def)

text \<open>The halving search finds the messages after the one asked for.\<close>

lemma upper_bound_clamp:
  assumes "first + len \<le> length h" "\<forall>i < length h. sc_messageId (h ! i) = of_nat (Suc i)" "length h < 2 ^ 32"
  shows "upper_bound v h first len = max first (min (unat v) (first + len))"
  using assms
proof (induction v h first len rule: upper_bound.induct)
  case (1 v h first len)
  note ids = "1.prems"(2,3)
  show ?case
  proof (cases "len = 0")
    case True
    then show ?thesis by (subst upper_bound.simps) auto
  next
    case False
    let ?mid = "first + len div 2"
    have lt: "?mid < length h" using False "1.prems"(1) by linarith
    then have "unat (sc_messageId (h ! ?mid)) = Suc ?mid"
      using ids unat_of_nat_u32 [of "Suc ?mid"] by simp
    then have gt: "sc_messageId (h ! ?mid) > v \<longleftrightarrow> unat v \<le> ?mid"
      by (simp add: word_less_nat_alt less_Suc_eq_le)
    show ?thesis
    proof (cases "unat v \<le> ?mid")
      case True
      with False gt have "upper_bound v h first len = upper_bound v h first (len div 2)"
        by (subst upper_bound.simps) (simp add: Let_def)
      also have "\<dots> = max first (min (unat v) (first + len div 2))"
        using "1.IH"(1) [OF False refl _ _ ids] True gt lt by simp
      finally show ?thesis using True by linarith
    next
      case F: False
      with False gt have "upper_bound v h first len = upper_bound v h (?mid + 1) (len - len div 2 - 1)"
        by (subst upper_bound.simps) (simp add: Let_def)
      also have "\<dots> = max (?mid + 1) (min (unat v) (?mid + 1 + (len - len div 2 - 1)))"
      proof (rule "1.IH"(2) [OF False refl _ _ ids])
        show "\<not> v < sc_messageId (h ! ?mid)" using F gt by simp
        show "?mid + 1 + (len - len div 2 - 1) \<le> length h" using False "1.prems"(1) by linarith
      qed
      finally show ?thesis using F False by linarith
    qed
  qed
qed

text \<open>The identifiers in the history count from one, whatever the server sends.\<close>

definition numbered :: "'s session \<Rightarrow> bool" where
  "numbered s \<longleftrightarrow> ss_expectedMessageId s = of_nat (Suc (length (ss_chatHistory s))) \<and>
     (\<forall>i < length (ss_chatHistory s). sc_messageId (ss_chatHistory s ! i) = of_nat (Suc i)) \<and>
     (\<forall>k c. ss_pendingChat s k = Some c \<longrightarrow> sc_messageId c = k) \<and>
     ss_pendingChat s (ss_expectedMessageId s) = None"

lemma getChatSince_drops:
  assumes "numbered s" "length (ss_chatHistory s) < 2 ^ 32"
  shows "getChatSince s k = drop (unat k) (ss_chatHistory s)"
proof -
  have "upper_bound k (ss_chatHistory s) 0 (length (ss_chatHistory s)) =
      max 0 (min (unat k) (0 + length (ss_chatHistory s)))"
    by (rule upper_bound_clamp) (use assms in \<open>auto simp: numbered_def\<close>)
  then show ?thesis by (simp add: getChatSince_def min_def)
qed

lemma drain_numbered:
  assumes "drain_pending e h p a = (e', h', p', a')" "e = of_nat (Suc (length h))"
    "\<forall>i < length h. sc_messageId (h ! i) = of_nat (Suc i)" "\<forall>k c. p k = Some c \<longrightarrow> sc_messageId c = k"
  shows "e' = of_nat (Suc (length h')) \<and> (\<forall>i < length h'. sc_messageId (h' ! i) = of_nat (Suc i)) \<and>
    (\<forall>k c. p' k = Some c \<longrightarrow> sc_messageId c = k) \<and> p' e' = None"
  using assms
proof (induction e h p a arbitrary: e' h' p' a' rule: drain_pending.induct)
  case (1 e h p a)
  show ?case
  proof (cases "p e")
    case None
    have "drain_pending e h p a = (e, h, p, a)" by (subst drain_pending.simps) (simp add: None)
    with "1.prems" None show ?thesis by simp
  next
    case (Some c)
    have "drain_pending e h p a = drain_pending (e + 1) (h @ [c]) (p(e := None)) True" by (subst drain_pending.simps) (simp add: Some)
    with "1.prems"(1) have d: "drain_pending (e + 1) (h @ [c]) (p(e := None)) True = (e', h', p', a')" by simp
    have c: "sc_messageId c = of_nat (Suc (length h))" using "1.prems"(2,4) Some by blast
    show ?thesis
    proof (rule "1.IH" [OF Some d])
      show "e + 1 = of_nat (Suc (length (h @ [c])))" using "1.prems"(2) by simp
      show "\<forall>i < length (h @ [c]). sc_messageId ((h @ [c]) ! i) = of_nat (Suc i)"
        using "1.prems"(3) c by (simp add: nth_append less_Suc_eq)
      show "\<forall>k x. (p(e := None)) k = Some x \<longrightarrow> sc_messageId x = k"
        using "1.prems"(4) by (metis fun_upd_apply option.distinct(1))
    qed
  qed
qed

lemma onChatMessage_numbered:
  assumes "numbered s"
  shows "numbered (fst (onChatMessage e s))"
proof -
  let ?k = "sh_messageId e" and ?x = "ss_expectedMessageId s"
  obtain e1 h1 p1 a1 where u: "(if ?k < ?x then (?x, ss_chatHistory s, ss_pendingChat s, False)
      else if ?k = ?x then (?x + 1, ss_chatHistory s @ [chat_of e], ss_pendingChat s, True)
      else (?x, ss_chatHistory s,
        (if ss_pendingChat s ?k = None then (ss_pendingChat s)(?k \<mapsto> chat_of e) else ss_pendingChat s), False)) =
      (e1, h1, p1, a1)" by (metis prod_cases4)
  obtain e2 h2 p2 a2 where d: "drain_pending e1 h1 p1 a1 = (e2, h2, p2, a2)" by (metis prod_cases4)
  have "e1 = of_nat (Suc (length h1)) \<and> (\<forall>i < length h1. sc_messageId (h1 ! i) = of_nat (Suc i)) \<and>
      (\<forall>k c. p1 k = Some c \<longrightarrow> sc_messageId c = k)"
    using u assms by (auto simp: numbered_def chat_of_def nth_append less_Suc_eq split: if_splits)
  with drain_numbered [OF d] have "numbered (s\<lparr>ss_expectedMessageId := e2, ss_chatHistory := h2, ss_pendingChat := p2\<rparr>)"
    by (auto simp: numbered_def)
  then show ?thesis unfolding onChatMessage_def Let_def u by (simp add: d)
qed

end
