(* ===== verification/Session_Invariants.thy ===== *)
theory Session_Invariants imports App_Session_Manager begin

text \<open>
  The invariant of the client application: the chat counts from one, the board it shows has all its squares,
  the reading thread and the flags agree, and the server it hosts satisfies the invariant of the server
  application. It holds whatever the other side sends.
\<close>

subsection \<open>The invariant of the session\<close>

definition board_shaped :: "board \<Rightarrow> bool" where
  "board_shaped b \<longleftrightarrow> length (m_board b) = m_size b * m_size b"

lemma board_new_shaped [simp]: "board_shaped (board_new n)"
  by (simp add: board_shaped_def board_new_def)

lemma vec_set_length: "vec_set xs i v = Some ys \<Longrightarrow> length ys = length xs"
  by (auto simp: vec_set_def split: if_splits)

lemma board_place_shaped: "board_place b c v = Some (ok, b') \<Longrightarrow> board_shaped b \<Longrightarrow> board_shaped b'"
  by (auto simp: board_place_def board_shaped_def bind_eq_Some_conv dest: vec_set_length split: if_splits)

lemma remove_capture_shaped: "remove_capture c b = Some b' \<Longrightarrow> board_shaped b \<Longrightarrow> board_shaped b'"
  by (auto simp: remove_capture_def board_remove_def board_shaped_def bind_eq_Some_conv
      dest: vec_set_length split: if_splits)

lemma remove_captures_shaped: "loopM remove_capture cs b = Some b' \<Longrightarrow> board_shaped b \<Longrightarrow> board_shaped b'"
  by (induction cs arbitrary: b) (auto split: option.splits dest: remove_capture_shaped)

lemma position_apply_shaped:
  assumes "position_apply p d = Some (ok, p')" "board_shaped (ap_board p)"
  shows "board_shaped (ap_board p')"
  using assms
  by (auto simp: position_apply_def Let_def bind_eq_Some_conv split: if_splits option.splits
      dest: board_place_shaped remove_captures_shaped)

definition joins :: "session_pc \<Rightarrow> bool" where
  "joins pc \<longleftrightarrow> (\<exists>op. pc = JoinReader op)"

definition hosts_ok :: "(u64 \<Rightarrow> 'g) \<Rightarrow> ('g \<Rightarrow> u64 \<times> 'g) \<Rightarrow> game_server option \<Rightarrow> bool" where
  "hosts_ok mk draw h \<longleftrightarrow> (\<forall>gs. h = Some gs \<longrightarrow> (\<exists>n. gs_ok mk draw n gs))"

definition session_ok :: "(u64 \<Rightarrow> 'g) \<Rightarrow> ('g \<Rightarrow> u64 \<times> 'g) \<Rightarrow> 's session \<times> session_pc \<Rightarrow> bool" where
  "session_ok mk draw w \<longleftrightarrow> (case w of (s, pc) \<Rightarrow>
     numbered s \<and> board_shaped (ap_board (ss_position s)) \<and> threads_ok (ss_network s, joins pc) \<and>
     cl_handler (ss_network s) \<and> hosts_ok mk draw (ss_localServer s))"

text \<open>What the handlers on the reading thread keep.\<close>

definition view_ok :: "'s session \<Rightarrow> bool" where
  "view_ok s \<longleftrightarrow> numbered s \<and> board_shaped (ap_board (ss_position s))"

lemma session_cleared_view [simp]: "view_ok (session_cleared n s)"
  by (simp add: view_ok_def numbered_def session_cleared_def position_reset_def)

lemma numbered_frame [simp]:
  "numbered (s\<lparr>ss_position := p\<rparr>) = numbered s" "numbered (s\<lparr>ss_network := c\<rparr>) = numbered s"
  "numbered (s\<lparr>ss_localServer := h\<rparr>) = numbered s" "numbered (s\<lparr>ss_eventHub := e\<rparr>) = numbered s"
  by (simp_all add: numbered_def)

lemma onChatMessage_frame:
  "ss_position (fst (onChatMessage e s)) = ss_position s" "ss_network (fst (onChatMessage e s)) = ss_network s"
  "ss_localServer (fst (onChatMessage e s)) = ss_localServer s"
  by (simp_all add: onChatMessage_def Let_def case_prod_beta)

lemma session_call_ok:
  assumes "session_call room c s = Some (s', news)" "view_ok s"
  shows "view_ok s'" "ss_network s' = ss_network s" "ss_localServer s' = ss_localServer s"
proof -
  have "view_ok s' \<and> ss_network s' = ss_network s \<and> ss_localServer s' = ss_localServer s"
  proof (cases c)
    case (OnGameConfig g)
    then show ?thesis using assms
      by (auto simp: onGameConfig_def position_init_def view_ok_def Let_def split: if_splits)
  next
    case (OnGameUpdate d)
    with assms obtain ok p where "position_apply (ss_position s) d = Some (ok, p)" "s' = s\<lparr>ss_position := p\<rparr>"
      by (auto simp: onGameUpdate_def Let_def bind_eq_Some_conv split: if_splits)
    then show ?thesis using assms(2) position_apply_shaped by (auto simp: view_ok_def)
  next
    case (OnChatMessage m)
    then show ?thesis using assms onChatMessage_numbered [of s m] onChatMessage_frame [of m s]
      by (auto simp: view_ok_def)
  next
    case OnDisconnected
    then show ?thesis using assms by (auto simp: onDisconnected_def Let_def session_cleared_def)
       (metis session_cleared_def session_cleared_view)
  qed
  then show "view_ok s'" "ss_network s' = ss_network s" "ss_localServer s' = ss_localServer s" by simp_all
qed

lemma session_calls_ok:
  assumes "session_calls room cs s = Some (s', news)" "view_ok s"
  shows "view_ok s' \<and> ss_network s' = ss_network s \<and> ss_localServer s' = ss_localServer s"
  using assms
proof (induction cs arbitrary: s news)
  case (Cons c cs)
  then obtain s1 o1 o2 where "session_call room c s = Some (s1, o1)" "session_calls room cs s1 = Some (s', o2)"
    by (auto simp: bind_eq_Some_conv)
  with Cons session_call_ok [of room c s s1 o1] show ?case by metis
qed simp


lemma client_step_handler: "client_step big S J w out w' \<Longrightarrow> cl_handler (fst w) \<Longrightarrow> cl_handler (fst w')"
  by (induction rule: client_step.induct)
     (auto simp: client_registerHandler_def client_connect_def client_startReadLoop_def client_disconnect_def
       client_joined_def client_send_def Let_def bind_eq_Some_conv case_prod_beta dest: client_pass_frame_vars
       split: if_splits)

lemma client_step_threads:
  "client_step big S J w out w' \<Longrightarrow> threads_ok w \<Longrightarrow> threads_ok w' \<and> (cl_handler (fst w) \<longrightarrow> cl_handler (fst w'))"
  using threads_ok_step client_step_handler by blast

lemma client_connect_threads:
  assumes "client_connect S host port c = Some (ok, c')" "threads_ok (c, False)" "cl_handler c"
  shows "threads_ok (c', False) \<and> cl_handler c'"
  using client_step_threads [OF client_step.connect [OF assms(1)] assms(2)] assms(3) by auto

lemma session_cleared_frame [simp]:
  "ss_network (session_cleared n s) = ss_network s" "ss_localServer (session_cleared n s) = ss_localServer s"
  by (simp_all add: session_cleared_def)

lemma session_end_ok:
  assumes "session_end S mk draw self (tcp_server_new a b c d) op s = Some (s', news)"
    and ok: "session_ok mk draw (s, AtEnd op)" and env: "inserts ins" "json_laws J utf8 fin" "fin komi_6_5"
  shows "session_ok mk draw (s', Free)"
proof (cases op)
  case (OpConnect host)
  with assms(1) obtain k n where "client_connect S host DEFAULT_PORT (ss_network s) = Some (k, n)"
    "s' = s\<lparr>ss_network := n\<rparr>"
    by (auto simp: session_end_def bind_eq_Some_conv Let_def)
  with ok client_connect_threads show ?thesis by (fastforce simp: session_ok_def joins_def)
next
  case (OpHost n)
  let ?s = "session_cleared n (session_cleared 9 s)"
  let ?s = "?s\<lparr>ss_position := position_setStatus (ss_position ?s) Ready\<rparr>"
  from assms(1) OpHost obtain gs k net where gs: "game_server_new mk draw n (tcp_server_new a b c d) = Some gs"
    and net: "client_connect S ''127.0.0.1'' DEFAULT_PORT (ss_network s) = Some (k, net)"
    and s': "s' = ?s\<lparr>ss_localServer := Some (gs_start self gs), ss_network := net\<rparr>"
    by (auto simp: session_end_def bind_eq_Some_conv Let_def)
  have "gs_ok mk draw n (gs_start self gs)"
  proof (rule gs_step_ok [OF gs_step.start gs_new_ok [OF gs] env])
    show "ts_CONN_ID (sv_network (gs_server (gs_start self gs))) \<noteq> 0"
      using gs_new_ok [OF gs]
      by (simp add: gs_ok_def gs_start_def server_start_def server_registerHandler_def tcp_server_start_def Let_def)
  qed
  moreover have "view_ok ?s"
    using session_cleared_view [of n "session_cleared 9 s"] by (simp add: view_ok_def position_setStatus_def)
  moreover from ok client_connect_threads [OF net] have "threads_ok (net, False)" "cl_handler net"
    by (auto simp: session_ok_def joins_def)
  ultimately show ?thesis by (auto simp: s' session_ok_def joins_def view_ok_def hosts_ok_def)
next
  case OpDisconnect
  with assms(1) have "s' = session_cleared 9 s" by (simp add: session_end_def Let_def)
  with ok session_cleared_view [of 9 s] show ?thesis by (simp add: session_ok_def view_ok_def joins_def)
next
  case OpShutdown
  with assms(1) have "s' = session_cleared 9 s" by (simp add: session_end_def)
  with ok session_cleared_view [of 9 s] show ?thesis by (simp add: session_ok_def view_ok_def joins_def)
qed

lemma session_step_ok:
  assumes "session_step room big S J ins mk draw self w out w'" "session_ok mk draw w"
    and env: "inserts ins" "json_laws J utf8 fin" "fin komi_6_5"
    and c: "\<forall>gs. ss_localServer (fst w') = Some gs \<longrightarrow> ts_CONN_ID (sv_network (gs_server gs)) \<noteq> 0"
  shows "session_ok mk draw w'"
  using assms(1,2) c
proof (induction rule: session_step.induct)
  case (call op s s' pc)
  then show ?case
    by (cases op) (auto simp: session_begin_def session_ok_def Let_def joins_def position_setStatus_def
        session_cleared_def position_reset_def numbered_def)
next
  case (network op s s' pc)
  obtain c j where d: "client_disconnect S (ss_network s) = (c, j)" by force
  from client_step_threads [OF client_step.disconnect [OF d]] network(2) have "threads_ok (c, j) \<and> cl_handler c"
    by (auto simp: session_ok_def joins_def)
  with network d show ?case
    by (auto simp: session_network_def session_ok_def joins_def after_network_def)
next
  case (reader_joined s op s' pc)
  from reader_joined(3) have "threads_ok (ss_network s, True)" "cl_handler (ss_network s)"
    by (auto simp: session_ok_def joins_def)
  with client_step_threads [OF client_step.join [OF reader_joined(1)]] reader_joined show ?case
    by (auto simp: session_reader_joined_def session_ok_def joins_def after_network_def)
next
  case (server op s s' pc out)
  show ?case
  proof (cases "ss_localServer s")
    case None
    with server show ?thesis by (auto simp: session_server_def session_ok_def joins_def after_server_def)
  next
    case (Some gs)
    obtain gs1 o1 where g: "gs_stop self gs = (gs1, o1)" by force
    from server(2) Some obtain n where n: "gs_ok mk draw n gs" by (auto simp: session_ok_def hosts_ok_def)
    from server(1) Some g have "s' = s\<lparr>ss_localServer := Some gs1\<rparr>" "pc = JoinGame op"
      by (auto simp: session_server_def)
    with server gs_step_ok [OF gs_step.stop [OF g] n env] show ?thesis
      by (auto simp: session_ok_def joins_def hosts_ok_def)
  qed
next
  case (game_joined s gs op s' pc out)
  then show ?case by (auto simp: session_game_joined_def session_ok_def joins_def after_server_def hosts_ok_def)
next
  case (ends a b c d op s s' news)
  then show ?case using session_end_ok [OF _ _ env] by blast
next
  case (user_sends e s s')
  then obtain ok c where d: "client_send big S J e (ss_network s) = Some (ok, c)" and s': "s' = s\<lparr>ss_network := c\<rparr>"
    by (auto simp: session_send_def bind_eq_Some_conv)
  from client_step_threads [OF client_step.send [OF d]] user_sends(2) s' show ?case
    by (auto simp: session_ok_def joins_def)
next
  case (subscribes s l m)
  then show ?case by (auto simp: session_ok_def session_subscribe_def)
next
  case (unsubscribes s l)
  then show ?case by (auto simp: session_ok_def session_unsubscribe_def)
next
  case (reads s c calls s' news pc)
  from session_calls_ok [OF reads(3)] reads(4) have "view_ok s'" "ss_network s' = c" "ss_localServer s' = ss_localServer s"
    by (auto simp: session_ok_def view_ok_def)
  moreover have "threads_ok (c, joins pc) \<and> cl_handler c"
    using client_step_threads [OF client_step.pass [OF reads(1,2)]] reads(4) by (auto simp: session_ok_def)
  ultimately show ?case using reads(4) by (auto simp: session_ok_def view_ok_def)
next
  case (reader_ends s c calls s' news pc)
  from session_calls_ok [OF reader_ends(3)] reader_ends(4) have "view_ok s'"
    "ss_network s' = c\<lparr>cl_readThread := ThreadFinished\<rparr>" "ss_localServer s' = ss_localServer s"
    by (auto simp: session_ok_def view_ok_def)
  moreover have "threads_ok (c\<lparr>cl_readThread := ThreadFinished\<rparr>, joins pc) \<and> cl_handler c"
    using client_step_threads [OF client_step.leave [OF reader_ends(1,2)]] reader_ends(4) by (auto simp: session_ok_def)
  ultimately show ?case using reader_ends(4) by (auto simp: session_ok_def view_ok_def)
next
  case (local_server s gs out gs' pc)
  then obtain n where n: "gs_ok mk draw n gs" by (auto simp: session_ok_def hosts_ok_def)
  from gs_step_ok [OF local_server(2) n env] local_server(3,4) show ?case
    by (auto simp: session_ok_def hosts_ok_def)
qed


text \<open>What can be reached while a hosted server has accepted fewer than \<open>2 ^ 32\<close> connections.\<close>

inductive session_reach ::
  "(nat \<Rightarrow> bool) \<Rightarrow> bool \<Rightarrow> ('s, 'e) socket_api \<Rightarrow> 'j json_api \<Rightarrow> inserter \<Rightarrow> (u64 \<Rightarrow> 'g) \<Rightarrow> ('g \<Rightarrow> u64 \<times> 'g) \<Rightarrow> listener \<Rightarrow>
     's session \<times> session_pc \<Rightarrow> session_out list \<Rightarrow> bool"
  for room big S J ins mk draw self where
  init: "session_reach room big S J ins mk draw self (session_new s, Free) []"
| step: "session_reach room big S J ins mk draw self w outs \<Longrightarrow> session_step room big S J ins mk draw self w out w' \<Longrightarrow>
     \<forall>gs. ss_localServer (fst w') = Some gs \<longrightarrow> ts_CONN_ID (sv_network (gs_server gs)) \<noteq> 0 \<Longrightarrow>
     session_reach room big S J ins mk draw self w' (outs @ out)"

lemma session_reach_ok:
  assumes "session_reach room big S J ins mk draw self w outs" "inserts ins" "json_laws J utf8 fin" "fin komi_6_5"
  shows "session_ok mk draw w"
  using assms(1)
proof (induction rule: session_reach.induct)
  case (init s)
  show ?case
    by (simp add: session_ok_def session_new_def numbered_def app_position_new_def threads_ok_def joins_def
        net_client_new_def client_registerHandler_def hosts_ok_def)
next
  case (step w outs out w')
  then show ?case using session_step_ok assms(2-4) by blast
qed

end
