(* ===== verification/Client_Replay.thy ===== *)
theory Client_Replay imports App_Session_Manager begin

text \<open>
  The composition of the two ends: the deltas that a game announces, translated by the server
  application, serialised, and applied by a client, make the client's position the one of the game.
\<close>

text \<open>The client shows the game; once it has been told the end it waits for no more moves.\<close>

definition mirrors :: "app_position \<Rightarrow> game \<Rightarrow> bool" where
  "mirrors p g \<longleftrightarrow> ap_board p = gp_board (g_position g) \<and> (g_gameActive g \<longrightarrow> ap_status p = Active) \<and>
     (ap_status p = Active \<longrightarrow> ap_moveId p = gp_moveId (g_position g) \<and>
        ap_player p = gp_currentPlayer (g_position g))"

definition plays_on :: "app_position \<Rightarrow> server_delta \<Rightarrow> app_position option" where
  "plays_on p d = map_option snd (position_apply p d)"

lemma handleEvent_active: "handleEvent g e = Some (g', out) \<Longrightarrow> g_gameActive g' \<Longrightarrow> g_gameActive g"
  by (cases e) (auto simp: handle_put_def handle_pass_def handle_resign_def handle_shutdown_def Let_def
      split: option.splits if_splits bind_splits)

lemma player_seat_values [simp]:
  "isPlayer (player_seat p)" "(if player_seat p = SeatBlack then PBlack else PWhite) = p"
  "(if player_seat p = SeatBlack then Black else White) = toStone p"
  by (cases p; simp add: player_seat_def isPlayer_def)+

lemma u32_next: "(m :: u32) \<noteq> -1 \<Longrightarrow> m < m + 1"
  using unatSuc [of m] by (simp add: word_less_nat_alt add.commute eq_neg_iff_add_eq_0)

text \<open>One event: the client follows.\<close>

lemma delta_mirrors:
  assumes ok: "game_ok mk draw n g" and ok': "game_ok mk draw n g'" and d: "delta_for g d g'" and m: "mirrors p g"
    and act: "g_gameActive g" and wrap: "gp_moveId (g_position g) \<noteq> -1"
    and on: "g_gameActive g' \<longrightarrow> g_gameActive g"
  shows "\<exists>p'. position_apply p (delta_to_net d) = Some (True, p') \<and> mirrors p' g'"
proof -
  let ?d = "delta_to_net d"
  from m act have p: "ap_board p = gp_board (g_position g)" "ap_status p = Active"
    "ap_moveId p = gp_moveId (g_position g)" "ap_player p = gp_currentPlayer (g_position g)"
    by (auto simp: mirrors_def)
  from d have turn: "sd_turn ?d = ap_moveId p + 1" using p by (simp add: delta_for_def delta_to_net_def)
  have app: "isDeltaApplicable p ?d"
    using u32_next [of "ap_moveId p"] wrap p turn by (simp add: isDeltaApplicable_def delta_to_net_def not_le)
  show ?thesis
  proof (cases "gd_action d")
    case Place
    let ?b = "gp_board (g_position g)" and ?b' = "gp_board (g_position g')"
    from d Place obtain c where c: "gd_coord d = Some c" "position_after (g_position g) c (gd_player d) (g_position g')"
      "valid_move ?b (gd_player d) c" "gd_captures d = filter (\<lambda>x. x \<in> captured_by ?b (gd_player d) c) (all_coords (m_size ?b))"
      by (auto simp: delta_for_def)
    have b: "board_ok ?b" "m_size ?b < 2 ^ 31" using ok by (auto simp: game_ok_def)
    have caps: "x \<in> set (gd_captures d) \<longleftrightarrow> x \<in> captured_by ?b (gd_player d) c" if "on_board (m_size ?b) x" for x
      using that b(2) by (simp add: c(4) set_all_coords)
    have f: "board_ok (ap_board p)" "sd_action ?d = SA_Place" "sd_coord ?d = Some c"
      "on_board (m_size (ap_board p)) c" "stone_at (ap_board p) c = Empty"
      "\<forall>x \<in> set (sd_captures ?d). on_board (m_size (ap_board p)) x"
      using b c Place by (auto simp: set_all_coords delta_to_net_def valid_move_def p(1))
    from apply_place [OF f(1) app f(2-6), unfolded p(1)] obtain b' where b':
      "position_apply p ?d = Some (True, \<lparr>ap_moveId = sd_turn ?d,
        ap_status = (if sd_status ?d = NS_Active then Active else Done),
        ap_player = (if sd_next ?d = SeatBlack then PBlack else PWhite), ap_board = b'\<rparr>)"
      "board_ok b'" "m_size b' = m_size ?b"
      "\<forall>x. on_board (m_size ?b) x \<longrightarrow> stone_at b' x = (if x \<in> set (sd_captures ?d) then Empty
        else if x = c then (if sd_seat ?d = SeatBlack then Black else White) else stone_at ?b x)"
      by blast
    have "b' = ?b'"
    proof (rule board_eqI)
      show "board_ok ?b'" using ok' by (simp add: game_ok_def)
      show "m_size b' = m_size ?b'" using b'(3) c(2) by (simp add: position_after_def)
      show "stone_at b' x = stone_at ?b' x" if "on_board (m_size b') x" for x
      proof -
        from that have x: "on_board (m_size ?b) x" by (simp add: b'(3))
        have "c \<notin> captured_by ?b (gd_player d) c"
          using c(3) captured_by_enemy by (fastforce simp: valid_move_def enemy_at_def)
        with b'(4) x caps [OF x] c(2) show ?thesis
          by (auto simp: position_after_def delta_to_net_def)
      qed
    qed (rule b'(2))
    with b'(1) d Place p turn act show ?thesis
      by (auto simp: mirrors_def delta_for_def delta_to_net_def position_after_def)
  next
    case Pass
    then have "sd_action ?d \<noteq> SA_Place" by (simp add: delta_to_net_def)
    from apply_other [OF app this] d Pass p turn act show ?thesis
      by (auto simp: mirrors_def delta_for_def delta_to_net_def)
  next
    case Resign
    then have "sd_action ?d \<noteq> SA_Place" by (simp add: delta_to_net_def)
    from apply_other [OF app this] d Resign p turn show ?thesis
      by (auto simp: mirrors_def delta_for_def delta_to_net_def)
  qed
qed


text \<open>A run of the game's loop: the deltas are applied one after the other.\<close>

fun position_applies :: "server_delta list \<Rightarrow> app_position \<Rightarrow> app_position option" where
  "position_applies [] p = Some p"
| "position_applies (d # ds) p = Option.bind (position_apply p d) (\<lambda>(ok, p'). position_applies ds p')"

lemma position_applies_append:
  "position_applies (ds @ es) p = Option.bind (position_applies ds p) (position_applies es)"
  by (induction ds arbitrary: p) (auto split: bind_splits)

lemma event_mirrors:
  assumes ok: "game_ok mk draw n g" and h: "handleEvent g e = Some (g', out)" and m: "mirrors p g"
    and act: "g_gameActive g" and wrap: "gp_moveId (g_position g) \<noteq> -1"
    and l: "count_list (eh_stateListeners (g_eventHub g)) l = 1"
  shows "\<exists>p'. position_applies (map delta_to_net (deltas_of out l)) p = Some p' \<and> mirrors p' g'"
proof -
  from handleEvent_no_fault [OF ok, of e] h have ok': "game_ok mk draw n g'" by auto
  from handleEvent_deltas [OF ok h] consider "\<forall>l. deltas_of out l = []" "g_position g' = g_position g"
    | d where "delta_for g d g'" "deltas_of out l = [d]" using l by force
  then show ?thesis
  proof cases
    case 1
    with m act handleEvent_active [OF h] show ?thesis by (auto simp: mirrors_def)
  next
    case 2
    from delta_mirrors [OF ok ok' 2(1) m act wrap] handleEvent_active [OF h] obtain p' where
      "position_apply p (delta_to_net d) = Some (True, p')" "mirrors p' g'" by auto
    with 2 show ?thesis by simp
  qed
qed

lemma handleEvent_hub: "handleEvent g e = Some (g', out) \<Longrightarrow> g_eventHub g' = g_eventHub g"
  by (cases e) (auto simp: handle_put_def handle_pass_def handle_resign_def handle_shutdown_def Let_def
      split: option.splits if_splits bind_splits)

text \<open>No event raises the number of moves by more than one, so as long as it and the events that wait
  stay below \<open>2 ^ 32\<close> together, it does not wrap.\<close>

definition moves_left :: "game \<Rightarrow> bool" where
  "moves_left g \<longleftrightarrow> unat (gp_moveId (g_position g)) + length (sq_queue (g_eventQueue g)) < 2 ^ 32"

lemma handled_moves_left:
  assumes ok: "game_ok mk draw n (g\<lparr>g_eventQueue := q\<rparr>)"
    and pop: "SafeQueue_Pop (g_eventQueue g) = Popped e q"
    and h: "handleEvent (g\<lparr>g_eventQueue := q\<rparr>) e = Some (g', out)" and w: "moves_left g"
  shows "moves_left g'" "gp_moveId (g_position g) \<noteq> -1"
proof -
  from w pop_shorter [OF pop] have lt: "Suc (unat (gp_moveId (g_position g))) + length (sq_queue q) < 2 ^ 32"
    by (simp add: moves_left_def)
  then show "gp_moveId (g_position g) \<noteq> -1" by (auto simp: unsigned_minus_1_eq_mask mask_eq_exp_minus_1)
  have q: "g_eventQueue g' = q" using handleEvent_queue [OF h] by simp
  have "unat (gp_moveId (g_position g')) \<le> Suc (unat (gp_moveId (g_position g)))"
    using handleEvent_moves [OF ok h] unatSuc [of "gp_moveId (g_position g)"] \<open>gp_moveId (g_position g) \<noteq> -1\<close>
    by (auto simp: stays_def advances_def add.commute eq_neg_iff_add_eq_0)
  with lt show "moves_left g'" by (simp add: moves_left_def q)
qed

lemma run_mirrors:
  "run_loop g = Some (r, g', out) \<Longrightarrow> game_ok mk draw n g \<Longrightarrow> mirrors p g \<Longrightarrow> moves_left g \<Longrightarrow>
    count_list (eh_stateListeners (g_eventHub g)) l = 1 \<Longrightarrow>
    \<exists>p'. position_applies (map delta_to_net (deltas_of out l)) p = Some p' \<and> mirrors p' g'"
proof (induction g arbitrary: r g' out p rule: run_loop.induct)
  case (1 g)
  show ?case
  proof (cases "\<exists>e q. g_gameActive g \<and> SafeQueue_Pop (g_eventQueue g) = Popped e q")
    case True
    then obtain e q where act: "g_gameActive g" and pop: "SafeQueue_Pop (g_eventQueue g) = Popped e q"
      by blast
    let ?g = "g\<lparr>g_eventQueue := q\<rparr>"
    have ok: "game_ok mk draw n ?g" using "1.prems"(2) by (simp add: game_ok_def)
    obtain g1 out1 where h: "handleEvent ?g e = Some (g1, out1)" and ok1: "game_ok mk draw n g1"
      using handleEvent_no_fault [OF ok] by blast
    from run_loop_step [OF act pop h] "1.prems"(1) obtain out2
      where r: "run_loop g1 = Some (r, g', out2)" "out = out1 @ out2" by (cases "run_loop g1") auto
    note w = handled_moves_left [OF ok pop h "1.prems"(4)]
    have "mirrors p ?g" using "1.prems"(3) by (simp add: mirrors_def)
    with event_mirrors [OF ok h, of p l] act w(2) "1.prems"(5) obtain p1 where
      p1: "position_applies (map delta_to_net (deltas_of out1 l)) p = Some p1" "mirrors p1 g1" by auto
    have "count_list (eh_stateListeners (g_eventHub g1)) l = 1"
      using handleEvent_hub [OF h] "1.prems"(5) by simp
    from "1.IH" [OF _ pop h refl r(1) ok1 p1(2) w(1) this] r(2) p1(1) act show ?thesis
      by (auto simp: position_applies_append)
  next
    case False
    then obtain r' where "run_loop g = Some (r', g, [])" by (rule run_loop_stop)
    with "1.prems" show ?thesis by auto
  qed
qed


subsection \<open>Over the wire\<close>

text \<open>The messages of the deltas, handed to the session by the client, apply the deltas.\<close>

lemma session_delta:
  assumes laws: "json_laws J utf8 fin" and d: "delta_ok d" and a: "position_apply (ss_position s) d = Some (ok, p)"
  shows "\<exists>msg news. toMessage_server J (ServerDelta d) = Some msg \<and>
    session_calls room (calls_of_message J msg) s = Some (s\<lparr>ss_position := p\<rparr>, news)"
proof -
  from d have "server_event_ok utf8 fin (ServerDelta d)" by simp
  from server_roundtrip [OF laws this] obtain msg where m: "toMessage_server J (ServerDelta d) = Some msg"
    "fromServerMessage J msg = Some (Some (ServerDelta d))" by blast
  from d have "sd_action d \<noteq> SA_Count" by (auto simp: delta_ok_def isValid_action_def)
  with a obtain news where "onGameUpdate d s = Some (s\<lparr>ss_position := p\<rparr>, news)"
    by (cases ok; cases "sd_action d") (auto simp: onGameUpdate_def Let_def)
  with m show ?thesis by (simp add: calls_of_message_def event_of_def)
qed

lemma session_calls_append:
  "session_calls room (cs @ ds) s = Option.bind (session_calls room cs s) (\<lambda>(s1, o1).
     Option.bind (session_calls room ds s1) (\<lambda>(s2, o2). Some (s2, o1 @ o2)))"
  by (induction cs arbitrary: s) (auto split: bind_splits)

lemma session_deltas:
  assumes laws: "json_laws J utf8 fin" and "\<forall>d \<in> set ds. delta_ok d"
    and "position_applies ds (ss_position s) = Some p"
  shows "\<exists>msgs news. map (\<lambda>d. toMessage_server J (ServerDelta d)) ds = map Some msgs \<and>
    session_calls room (concat (map (calls_of_message J) msgs)) s = Some (s\<lparr>ss_position := p\<rparr>, news)"
  using assms(2,3)
proof (induction ds arbitrary: s)
  case (Cons d ds)
  then obtain ok p1 where a: "position_apply (ss_position s) d = Some (ok, p1)"
    "position_applies ds p1 = Some p" by (auto split: bind_splits)
  let ?s1 = "s\<lparr>ss_position := p1\<rparr>"
  from session_delta [OF laws _ a(1), of room] Cons.prems(1) obtain msg n1 where
    1: "toMessage_server J (ServerDelta d) = Some msg" "session_calls room (calls_of_message J msg) s = Some (?s1, n1)"
    by auto
  from Cons.IH [of ?s1] Cons.prems(1) a(2) obtain msgs n2 where
    2: "map (\<lambda>d. toMessage_server J (ServerDelta d)) ds = map Some msgs"
    "session_calls room (concat (map (calls_of_message J) msgs)) ?s1 = Some (s\<lparr>ss_position := p\<rparr>, n2)" by auto
  have "map (\<lambda>d. toMessage_server J (ServerDelta d)) (d # ds) = map Some (msg # msgs)" using 1 2 by simp
  moreover have "session_calls room (concat (map (calls_of_message J) (msg # msgs))) s = Some (s\<lparr>ss_position := p\<rparr>, n1 @ n2)"
    using 1(2) 2(2) by (simp add: session_calls_append)
  ultimately show ?case by blast
qed simp

text \<open>What the loop announces to its listener, the server application broadcasts delta by delta.\<close>

fun gs_deltas :: "'j json_api \<Rightarrow> game_delta list \<Rightarrow> game_server \<Rightarrow> (game_server \<times> server_out list) option" where
  "gs_deltas J [] gs = Some (gs, [])"
| "gs_deltas J (d # ds) gs = Option.bind (gs_onGameDelta J d gs) (\<lambda>(gs1, o1).
     Option.bind (gs_deltas J ds gs1) (\<lambda>(gs2, o2). Some (gs2, o1 @ o2)))"

lemma deliver_deltas: "gs_deliver J self calls gs = gs_deltas J (deltas_of calls self) gs"
proof (induction calls arbitrary: gs)
  case (Cons c calls)
  then show ?case by (cases c) simp_all
qed simp

lemma run_deltas_ok:
  "run_loop g = Some (r, g', out) \<Longrightarrow> game_ok mk draw n g \<Longrightarrow> d \<in> set (deltas_of out l) \<Longrightarrow> delta_ok (delta_to_net d)"
proof (induction g arbitrary: r g' out rule: run_loop.induct)
  case (1 g)
  show ?case
  proof (cases "\<exists>e q. g_gameActive g \<and> SafeQueue_Pop (g_eventQueue g) = Popped e q")
    case True
    then obtain e q where act: "g_gameActive g" and pop: "SafeQueue_Pop (g_eventQueue g) = Popped e q"
      by blast
    let ?g = "g\<lparr>g_eventQueue := q\<rparr>"
    have ok: "game_ok mk draw n ?g" using "1.prems"(2) by (simp add: game_ok_def)
    obtain g1 out1 where h: "handleEvent ?g e = Some (g1, out1)" and ok1: "game_ok mk draw n g1"
      using handleEvent_no_fault [OF ok] by blast
    from run_loop_step [OF act pop h] "1.prems"(1) obtain out2
      where r: "run_loop g1 = Some (r, g', out2)" "out = out1 @ out2" by (cases "run_loop g1") auto
    show ?thesis
    proof (cases "d \<in> set (deltas_of out1 l)")
      case True
      with handleEvent_deltas [OF ok h] delta_to_net_ok show ?thesis
        by (auto simp: set_replicate_conv_if split: if_splits)
    next
      case False
      with "1.prems"(3) r(2) have "d \<in> set (deltas_of out2 l)" by simp
      with "1.IH" [OF _ pop h refl r(1) ok1] act show ?thesis by simp
    qed
  next
    case False
    then obtain r' where "run_loop g = Some (r', g, [])" by (rule run_loop_stop)
    with "1.prems" show ?thesis by auto
  qed
qed

end
