(* ===== verification/Sample_Application.thy ===== *)
theory Sample_Application imports Sample_Games Net_Properties Session_Invariants Client_Replay begin

text \<open>
  The server application driven by a script, for the witnesses: it is started, two clients connect, and the
  game begins. It stands for no code of the repository.
\<close>

datatype app_act = ActStart | ActAccept | ActServe | ActEnter

fun app_do :: "app_act \<Rightarrow> game_server \<Rightarrow> (game_server \<times> server_out list) option" where
  "app_do ActStart gs = Some (gs_start 7 gs, [])"
| "app_do ActAccept gs =
     (if ts_acceptorOpen (sv_network (gs_server gs))
      then (case tcp_server_onAccept (sv_network (gs_server gs)) False of (net, out, again) \<Rightarrow>
        Some (gs\<lparr>gs_server := foldl server_callback ((gs_server gs)\<lparr>sv_network := net\<rparr>) out\<rparr>, map SO_Net out))
      else None)"
| "app_do ActServe gs =
     (case NetQueue_Pop (sv_eventQueue (gs_server gs)) of
        Popped e q \<Rightarrow> (if sv_isRunning (gs_server gs)
          then gs_server_event jv_api (#) e (gs\<lparr>gs_server := (gs_server gs)\<lparr>sv_eventQueue := q\<rparr>\<rparr>) else None)
      | _ \<Rightarrow> None)"
| "app_do ActEnter gs = (if gs_gameThread gs = Starting
     then Some (gs\<lparr>gs_gameThread := InLoop, gs_game := (gs_game gs)\<lparr>g_gameActive := True\<rparr>\<rparr>, []) else None)"

lemma app_do_step: "app_do a gs = Some (gs', out) \<Longrightarrow> gs_step jv_api (#) 7 False gs out gs'"
proof (induction a gs rule: app_do.induct)
  case (1 gs)
  then show ?case by (auto intro: gs_step.start)
next
  case (2 gs)
  then obtain net o1 again where "tcp_server_onAccept (sv_network (gs_server gs)) False = (net, o1, again)"
    "ts_acceptorOpen (sv_network (gs_server gs))" "out = map SO_Net o1"
    "gs' = gs\<lparr>gs_server := foldl server_callback ((gs_server gs)\<lparr>sv_network := net\<rparr>) o1\<rparr>"
    by (auto split: if_splits prod.splits)
  with gs_step.network [OF ts_step.accept [of "sv_network (gs_server gs)" False net o1 again]] show ?case
    by simp
next
  case (3 gs)
  then show ?case by (auto intro: gs_step.server_thread split: pop_result.splits if_splits)
next
  case (4 gs)
  then show ?case by (auto intro: gs_step.game_enters split: if_splits)
qed

fun app_acts :: "app_act list \<Rightarrow> game_server \<Rightarrow> (game_server \<times> server_out list) option" where
  "app_acts [] gs = Some (gs, [])"
| "app_acts (a # as) gs = do {
     (gs1, o1) \<leftarrow> app_do a gs;
     if ts_CONN_ID (sv_network (gs_server gs1)) = 0 then None
     else do { (gs2, o2) \<leftarrow> app_acts as gs1; Some (gs2, o1 @ o2) }
   }"

lemma app_acts_reach:
  "app_acts as gs = Some (gs', out) \<Longrightarrow> gs_reach jv_api (#) 7 False ex_mk ex_draw 9 gs outs \<Longrightarrow>
    gs_reach jv_api (#) 7 False ex_mk ex_draw 9 gs' (outs @ out)"
proof (induction as arbitrary: gs out outs)
  case (Cons a as)
  then obtain gs1 o1 o2 where a: "app_do a gs = Some (gs1, o1)" "ts_CONN_ID (sv_network (gs_server gs1)) \<noteq> 0"
    "app_acts as gs1 = Some (gs', o2)" "out = o1 @ o2" by (auto simp: bind_eq_Some_conv split: if_splits)
  from Cons.IH [OF a(3) gs_reach.step [OF Cons.prems(2) app_do_step [OF a(1)] a(2)]] a(4) show ?case by simp
qed simp

definition ex_app_new :: game_server where
  "ex_app_new = \<lparr>gs_game = game_unsubscribeState (ex_game []) 7, gs_gameThread = NotStarted, gs_players = [],
     gs_chatHistory = [], gs_server = net_server_new (tcp_server_new False False False False)\<rparr>"

lemma ex_app_new_reach: "gs_reach jv_api (#) 7 False ex_mk ex_draw 9 ex_app_new []"
  by (rule gs_reach.init) (auto simp: game_server_new_def ex_new ex_app_new_def)

definition ex_app :: "app_act list \<Rightarrow> game_server" where
  "ex_app as = (case app_acts as ex_app_new of Some (gs, out) \<Rightarrow> gs | None \<Rightarrow> ex_app_new)"

lemma ex_app_reach: "\<exists>outs. gs_reach jv_api (#) 7 False ex_mk ex_draw 9 (ex_app as) outs"
  using app_acts_reach [OF _ ex_app_new_reach] ex_app_new_reach by (force simp: ex_app_def split: option.split)

text \<open>The first player has connected and waits; the second one has; the game runs.\<close>

definition ex_waiting :: game_server where
  "ex_waiting = ex_app [ActStart, ActAccept, ActServe]"

definition ex_ready :: game_server where
  "ex_ready = ex_app [ActStart, ActAccept, ActServe, ActAccept]"

definition ex_playing :: game_server where
  "ex_playing = ex_app [ActStart, ActAccept, ActServe, ActAccept, ActServe, ActEnter]"

lemma ex_reaches:
  obtains o1 o2 o3 where "gs_reach jv_api (#) 7 False ex_mk ex_draw 9 ex_waiting o1"
    "gs_reach jv_api (#) 7 False ex_mk ex_draw 9 ex_ready o2" "gs_reach jv_api (#) 7 False ex_mk ex_draw 9 ex_playing o3"
  using ex_app_reach unfolding ex_waiting_def ex_ready_def ex_playing_def by blast

lemma ex_waiting_facts: "gs_players ex_waiting = [(PBlack, 1)] \<and> gs_gameThread ex_waiting = NotStarted"
  by code_simp

lemma ex_playing_facts:
  "gs_players ex_playing = [(PBlack, 1), (PWhite, 2)] \<and> gs_gameThread ex_playing = InLoop \<and>
    server_getSeat (gs_server ex_playing) 2 = SeatWhite \<and> gs_chatHistory ex_playing = [] \<and>
    eh_stateListeners (g_eventHub (gs_game ex_playing)) = [7]"
  by code_simp

end
