(* ===== verification/App_Properties.thy ===== *)
theory App_Properties imports Sample_Application begin

text \<open>
  The properties of the two applications: the server that runs a game for its clients, and the session
  that shows it to a user. The proofs are in the components' theories.
\<close>

subsection \<open>The server application\<close>

text \<open>C21: in every reachable state of the server application (fewer than \<open>2 ^ 32\<close> connections accepted), the
  event that its server thread takes next is handled without a fault, and so is any event on its game thread.\<close>

theorem application_never_faults:
  assumes "gs_reach J ins self big mk draw n gs outs" "inserts ins" "json_laws J utf8 fin" "fin komi_6_5"
  shows "(\<forall>e q. NetQueue_Pop (sv_eventQueue (gs_server gs)) = Popped e q \<longrightarrow>
      gs_server_event J ins e (gs\<lparr>gs_server := (gs_server gs)\<lparr>sv_eventQueue := q\<rparr>\<rparr>) \<noteq> None) \<and>
    (\<forall>e. gs_game_event J self e gs \<noteq> None)"
proof -
  from gs_reach_ok [OF assms] obtain hs where ok: "gs_inv gs" "ts_CONN_ID (sv_network (gs_server gs)) \<noteq> 0"
    "game_reach mk draw n (gs_game gs) hs" by (auto simp: gs_ok_def)
  then have "game_ok mk draw n (gs_game gs)" using game_reach_inv by blast
  from gs_game_event_ok [OF ok(1) this assms(3)] have "\<forall>e. gs_game_event J self e gs \<noteq> None" by blast
  moreover have "gs_server_event J ins e (gs\<lparr>gs_server := (gs_server gs)\<lparr>sv_eventQueue := q\<rparr>\<rparr>) \<noteq> None"
    if "NetQueue_Pop (sv_eventQueue (gs_server gs)) = Popped e q" for e q
    using gs_server_event_ok [OF ok(1) assms(2-4) ok(2) that] by blast
  ultimately show ?thesis by blast
qed

theorem application_never_faults_witness:
  "(\<exists>e q. NetQueue_Pop (sv_eventQueue (gs_server ex_ready)) = Popped e q \<and>
      gs_server_event jv_api (#) e (ex_ready\<lparr>gs_server := (gs_server ex_ready)\<lparr>sv_eventQueue := q\<rparr>\<rparr>) \<noteq> None)"
proof -
  obtain outs where r: "gs_reach jv_api (#) 7 False ex_mk ex_draw 9 ex_ready outs" by (rule ex_reaches)
  have "(case NetQueue_Pop (sv_eventQueue (gs_server ex_ready)) of Popped e q \<Rightarrow> True | _ \<Rightarrow> False)"
    by code_simp
  then obtain e q where "NetQueue_Pop (sv_eventQueue (gs_server ex_ready)) = Popped e q"
    by (auto split: pop_result.splits)
  with application_never_faults [OF r cons_inserts jv_laws] show ?thesis by blast
qed

text \<open>C22: each player that the server application knows holds an active session with the seat of his colour, no
  colour is entered twice, no two players share a session, and its game is one that the rules allow.\<close>

theorem players_hold_their_seats:
  assumes "gs_reach J ins self big mk draw n gs outs" "inserts ins" "json_laws J utf8 fin" "fin komi_6_5"
  shows "distinct (map fst (gs_players gs)) \<and> distinct (map snd (gs_players gs)) \<and>
    (\<forall>(p, i) \<in> set (gs_players gs). server_getSeat (gs_server gs) i = player_seat p \<and>
       (\<exists>c. map_of (sm_sessions (sv_sessionManager (gs_server gs))) i = Some c \<and> sc_isActive c)) \<and>
    (\<exists>hs. game_reach mk draw n (gs_game gs) hs)"
  using gs_reach_ok [OF assms] gs_inv_players by (auto simp: gs_ok_def)

theorem players_hold_their_seats_witness:
  "gs_players ex_waiting = [(PBlack, 1)] \<and> server_getSeat (gs_server ex_waiting) 1 = SeatBlack"
proof -
  obtain outs where r: "gs_reach jv_api (#) 7 False ex_mk ex_draw 9 ex_waiting outs" by (rule ex_reaches)
  from players_hold_their_seats [OF r cons_inserts jv_laws] ex_waiting_facts show ?thesis
    by (simp add: player_seat_def)
qed

text \<open>The game thread is only ever created by the connection of a client, when no game has been started,
  and then both colours have a player.\<close>

theorem game_starts_with_both_players:
  assumes "gs_reach J ins self big mk draw n gs outs" "inserts ins" "json_laws J utf8 fin" "fin komi_6_5"
    and "gs_step J ins self big gs out gs'" "\<not> joinable (gs_gameThread gs)" "joinable (gs_gameThread gs')"
    and "ts_CONN_ID (sv_network (gs_server gs')) \<noteq> 0"
  shows "gs_gameThread gs' = Starting \<and> fst ` set (gs_players gs') = {PBlack, PWhite} \<and> length (gs_players gs') = 2"
proof -
  have "\<exists>e q. gs_server_event J ins e (gs\<lparr>gs_server := (gs_server gs)\<lparr>sv_eventQueue := q\<rparr>\<rparr>) = Some (gs', out)"
    using assms(5-7)
    by (induction rule: gs_step.induct)
       (auto simp: joinable_def gs_start_def gs_stop_def gs_stop_joined_def gs_game_event_def Let_def bind_eq_Some_conv
         keeps_def dest: deliver_effect split: prod.splits if_splits)
  with assms(6,7) connected_starts have t: "gs_gameThread gs' = Starting" "length (gs_players gs') = 2"
    by (fastforce simp: joinable_def)+
  from gs_reach_ok [OF gs_reach.step [OF assms(1,5,8)] assms(2-4)] have "distinct (map fst (gs_players gs'))"
    by (simp add: gs_ok_def gs_inv_def players_ok_def)
  then have "card (set (map fst (gs_players gs'))) = 2" using t(2) distinct_card by fastforce
  moreover have "set (map fst (gs_players gs')) \<subseteq> {PBlack, PWhite}" using player.exhaust by blast
  ultimately have "set (map fst (gs_players gs')) = {PBlack, PWhite}"
    by (intro card_subset_eq) auto
  with t show ?thesis by simp
qed



theorem game_starts_with_both_players_witness:
  "\<exists>gs' out e q. NetQueue_Pop (sv_eventQueue (gs_server ex_ready)) = Popped e q \<and>
    gs_server_event jv_api (#) e (ex_ready\<lparr>gs_server := (gs_server ex_ready)\<lparr>sv_eventQueue := q\<rparr>\<rparr>) = Some (gs', out) \<and>
    fst ` set (gs_players gs') = {PBlack, PWhite}"
proof -
  obtain outs where r: "gs_reach jv_api (#) 7 False ex_mk ex_draw 9 ex_ready outs" by (rule ex_reaches)
  have "(case NetQueue_Pop (sv_eventQueue (gs_server ex_ready)) of Popped e q \<Rightarrow>
      (case gs_server_event jv_api (#) e (ex_ready\<lparr>gs_server := (gs_server ex_ready)\<lparr>sv_eventQueue := q\<rparr>\<rparr>) of
         Some (gs', out) \<Rightarrow> gs_gameThread gs' = Starting \<and> ts_CONN_ID (sv_network (gs_server gs')) = 3 | None \<Rightarrow> False)
      | _ \<Rightarrow> False) \<and> gs_gameThread ex_ready = NotStarted \<and> sv_isRunning (gs_server ex_ready)"
    by code_simp
  then obtain e q gs' out where e: "NetQueue_Pop (sv_eventQueue (gs_server ex_ready)) = Popped e q"
    "gs_server_event jv_api (#) e (ex_ready\<lparr>gs_server := (gs_server ex_ready)\<lparr>sv_eventQueue := q\<rparr>\<rparr>) = Some (gs', out)"
    and f: "gs_gameThread gs' = Starting" "ts_CONN_ID (sv_network (gs_server gs')) = 3" "gs_gameThread ex_ready = NotStarted"
      "sv_isRunning (gs_server ex_ready)"
    by (auto split: pop_result.splits option.splits)
  from game_starts_with_both_players [OF r cons_inserts jv_laws _ gs_step.server_thread [OF f(4) e]] e f
  show ?thesis by (auto simp: joinable_def)
qed


text \<open>A chat message of a player is kept, and broadcast under its number in the history, counted from one;
  what an observer or an unknown session sends changes nothing.\<close>

theorem chat_is_numbered:
  assumes "gs_reach J ins self big mk draw n gs outs" "inserts ins" "json_laws J utf8 fin" "fin komi_6_5" "utf8 m"
  shows "let st = server_getSeat (gs_server gs) k; p = seat_player st in
    if \<not> isPlayer st then gs_onNetworkEvent J k (ClientChat m) gs = Some (gs, [])
    else \<exists>gs' msg. toMessage_server J (ServerChat \<lparr>sh_player = p,
          sh_messageId = of_nat (Suc (length (gs_chatHistory gs))), sh_message = m\<rparr>) = Some msg \<and>
      gs_onNetworkEvent J k (ClientChat m) gs = Some (gs', posts (sv_network (gs_server gs)) msg
          (recipients (sv_sessionManager (gs_server gs)))) \<and>
      gs_chatHistory gs' = gs_chatHistory gs @ [\<lparr>ce_player = p, ce_message = m\<rparr>] \<and>
      gs_game gs' = gs_game gs \<and> gs_players gs' = gs_players gs"
proof (cases "isPlayer (server_getSeat (gs_server gs) k)")
  case True
  let ?p = "seat_player (server_getSeat (gs_server gs) k)"
  let ?ev = "ServerChat \<lparr>sh_player = ?p, sh_messageId = of_nat (Suc (length (gs_chatHistory gs))), sh_message = m\<rparr>"
  let ?gs = "gs\<lparr>gs_chatHistory := gs_chatHistory gs @ [\<lparr>ce_player = ?p, ce_message = m\<rparr>]\<rparr>"
  from gs_reach_ok [OF assms(1-4)] have "server_ok (sv_network (gs_server ?gs))"
    by (simp add: gs_ok_def gs_inv_def sv_ok_def)
  from gs_broadcast_posts [OF this assms(3), of ?ev] assms(5) obtain msg gs' where
    b: "toMessage_server J ?ev = Some msg" "gs_broadcast J ?ev ?gs = Some (gs', posts (sv_network (gs_server gs)) msg
      (recipients (sv_sessionManager (gs_server gs))))" by auto
  from gs_broadcast_keeps [OF b(2)] have "gs_chatHistory gs' = gs_chatHistory ?gs \<and> gs_game gs' = gs_game gs \<and>
      gs_players gs' = gs_players gs" by (simp add: keeps_def)
  moreover have "gs_onNetworkEvent J k (ClientChat m) gs = gs_broadcast J ?ev ?gs"
    using True by (simp only: gs_onNetworkEvent_def Let_def gs_handleNetworkEvent.simps) simp
  ultimately show ?thesis using True b unfolding Let_def by simp
qed (simp add: gs_onNetworkEvent_def Let_def)

theorem chat_is_numbered_witness:
  "\<exists>gs' msg. toMessage_server jv_api (ServerChat \<lparr>sh_player = PWhite, sh_messageId = 1, sh_message = ''hi''\<rparr>) = Some msg \<and>
    gs_onNetworkEvent jv_api 2 (ClientChat ''hi'') ex_playing = Some (gs', posts (sv_network (gs_server ex_playing)) msg
      (recipients (sv_sessionManager (gs_server ex_playing)))) \<and>
    gs_chatHistory gs' = [\<lparr>ce_player = PWhite, ce_message = ''hi''\<rparr>]"
proof -
  obtain outs where r: "gs_reach jv_api (#) 7 False ex_mk ex_draw 9 ex_playing outs" by (rule ex_reaches)
  from chat_is_numbered [OF r cons_inserts jv_laws, where m = "''hi''" and k = 2] ex_playing_facts show ?thesis
    by (simp add: isPlayer_def seat_player_def) blast
qed

text \<open>C23: when the game thread handles an event, the server application sends what the clients need: nothing when
  the position stays and no one is told, otherwise one message, to every seated client, that describes the
  change.\<close>

theorem moves_are_broadcast:
  assumes "gs_reach J ins self big mk draw n gs outs" "inserts ins" "json_laws J utf8 fin" "fin komi_6_5"
    and "count_list (eh_stateListeners (g_eventHub (gs_game gs))) self = 1"
  shows "\<exists>gs' out. gs_game_event J self e gs = Some (gs', out) \<and>
    (out = [] \<and> g_position (gs_game gs') = g_position (gs_game gs) \<or>
     (\<exists>d msg. delta_for (gs_game gs) d (gs_game gs') \<and> toMessage_server J (ServerDelta (delta_to_net d)) = Some msg \<and>
        out = posts (sv_network (gs_server gs)) msg (recipients (sv_sessionManager (gs_server gs)))))"
proof -
  from gs_reach_ok [OF assms(1-4)] obtain hs where ok: "gs_inv gs" "game_reach mk draw n (gs_game gs) hs"
    by (auto simp: gs_ok_def)
  then have g: "game_ok mk draw n (gs_game gs)" using game_reach_inv by blast
  from handleEvent_no_fault [OF g, of e] obtain g' calls where h: "handleEvent (gs_game gs) e = Some (g', calls)" by blast
  let ?gs = "gs\<lparr>gs_game := g'\<rparr>"
  have ev: "gs_game_event J self e gs = gs_deltas J (deltas_of calls self) ?gs"
    by (simp add: gs_game_event_def h deliver_deltas)
  from handleEvent_deltas [OF g h] consider "deltas_of calls self = []" "g_position g' = g_position (gs_game gs)"
    | d where "delta_for (gs_game gs) d g'" "deltas_of calls self = [d]" using assms(5) by force
  then show ?thesis
  proof cases
    case 1
    with ev show ?thesis by auto
  next
    case 2
    have "server_ok (sv_network (gs_server ?gs))" using ok(1) by (simp add: gs_inv_def sv_ok_def)
    from gs_broadcast_posts [OF this assms(3), of "ServerDelta (delta_to_net d)"] delta_to_net_ok [OF 2(1)]
    obtain msg gs' where b: "toMessage_server J (ServerDelta (delta_to_net d)) = Some msg"
      "gs_onGameDelta J d ?gs = Some (gs', posts (sv_network (gs_server gs)) msg
        (recipients (sv_sessionManager (gs_server gs))))" by (auto simp: gs_onGameDelta_def)
    from gs_broadcast_keeps [OF b(2) [unfolded gs_onGameDelta_def]] have "gs_game gs' = g'" by simp
    with ev 2 b show ?thesis by (intro exI [of _ gs']) auto
  qed
qed

theorem moves_are_broadcast_witness:
  "\<exists>gs' out d msg. gs_game_event jv_api 7 (PutStoneEvent PBlack (Coord 4 4)) ex_playing = Some (gs', out) \<and>
    delta_for (gs_game ex_playing) d (gs_game gs') \<and> toMessage_server jv_api (ServerDelta (delta_to_net d)) = Some msg \<and>
    out = posts (sv_network (gs_server ex_playing)) msg (recipients (sv_sessionManager (gs_server ex_playing)))"
proof -
  let ?e = "PutStoneEvent PBlack (Coord 4 4)"
  obtain outs where r: "gs_reach jv_api (#) 7 False ex_mk ex_draw 9 ex_playing outs" by (rule ex_reaches)
  have l: "count_list (eh_stateListeners (g_eventHub (gs_game ex_playing))) 7 = 1" using ex_playing_facts by simp
  have "map_option (\<lambda>(g, calls). gp_moveId (g_position g)) (handleEvent (gs_game ex_playing) ?e) = Some 1 \<and>
      gp_moveId (g_position (gs_game ex_playing)) = 0" by code_simp
  then obtain g calls where h: "handleEvent (gs_game ex_playing) ?e = Some (g, calls)"
    and "gp_moveId (g_position g) \<noteq> gp_moveId (g_position (gs_game ex_playing))"
    by (auto simp del: handleEvent.simps)
  then have pos: "g_position g \<noteq> g_position (gs_game ex_playing)" by auto
  from moves_are_broadcast [OF r cons_inserts jv_laws _ l, of ?e] obtain gs' out where
    m: "gs_game_event jv_api 7 ?e ex_playing = Some (gs', out)"
    "out = [] \<and> g_position (gs_game gs') = g_position (gs_game ex_playing) \<or>
     (\<exists>d msg. delta_for (gs_game ex_playing) d (gs_game gs') \<and>
        toMessage_server jv_api (ServerDelta (delta_to_net d)) = Some msg \<and>
        out = posts (sv_network (gs_server ex_playing)) msg (recipients (sv_sessionManager (gs_server ex_playing))))"
    by blast
  from m(1) h have "gs_deliver jv_api 7 calls (ex_playing\<lparr>gs_game := g\<rparr>) = Some (gs', out)"
    by (simp add: gs_game_event_def)
  from deliver_effect [OF this] have "gs_game gs' = g" by simp
  with m pos show ?thesis by blast
qed

text \<open>A server application starts at most once: after a \<open>start\<close>, whatever happens, \<open>stop\<close> included, another
  \<open>start\<close> changes nothing, because the handler stays registered.\<close>

theorem application_starts_once:
  assumes "(\<lambda>a b. \<exists>out. gs_step J ins self big a out b)\<^sup>*\<^sup>* (gs_start self gs) gs'"
  shows "gs_start self gs' = gs'"
proof -
  have "sv_handler (gs_server gs')"
    using assms
  proof (induction rule: rtranclp_induct)
    case base
    show ?case by (auto simp: gs_start_def server_registerHandler_def server_start_def Let_def)
  next
    case (step a b)
    then show ?case using gs_step_handler by blast
  qed
  then show ?thesis by (simp add: gs_start_def server_registerHandler_def)
qed

theorem application_starts_once_witness:
  "gs_start 7 (gs_stop_joined (fst (gs_stop 7 (gs_start 7 ex_app_new)))) = gs_stop_joined (fst (gs_stop 7 (gs_start 7 ex_app_new)))"
proof (rule application_starts_once [where J = jv_api and ins = "(#)" and big = False])
  let ?gs = "gs_start 7 ex_app_new"
  let ?R = "\<lambda>a b. \<exists>out. gs_step jv_api (#) 7 False a out b"
  have "?R ?gs (fst (gs_stop 7 ?gs))" by (intro exI gs_step.stop) (rule prod.collapse [symmetric])
  moreover have "gs_gameThread (fst (gs_stop 7 ?gs)) = NotStarted \<and> \<not> sv_isRunning (gs_server (fst (gs_stop 7 ?gs)))"
    by code_simp
  then have "?R (fst (gs_stop 7 ?gs)) (gs_stop_joined (fst (gs_stop 7 ?gs)))" by (blast intro: gs_step.joined)
  ultimately show "?R\<^sup>*\<^sup>* ?gs (gs_stop_joined (fst (gs_stop 7 ?gs)))" by (rule converse_rtranclp_into_rtranclp [OF _ r_into_rtranclp])
qed

end
