(* ===== verification/Session_Properties.thy ===== *)
theory Session_Properties imports Sample_Application begin

text \<open>
  The properties of the client application: the chat, the copy of the game, and the session as a whole.
\<close>

subsection \<open>The chat\<close>

text \<open>C24: whatever the order in which the numbered chat messages arrive, and however often each does, the history
  shows them in the order of their numbers from 1 on, each once, up to the first number that has not arrived.\<close>

theorem chat_in_order:
  assumes "ss_expectedMessageId s = 1" "ss_chatHistory s = []" "ss_pendingChat s = Map.empty"
    and "\<forall>e \<in> set es. chat_of e = f (sh_messageId e)" "length es < 2 ^ 32 - 1"
  shows "\<exists>n s' news. session_calls room (map OnChatMessage es) s = Some (s', news) \<and>
    ss_chatHistory s' = map (\<lambda>k. f (of_nat k)) [1..<Suc n] \<and>
    (\<forall>k \<in> {1..n}. of_nat k \<in> sh_messageId ` set es) \<and> of_nat (Suc n) \<notin> sh_messageId ` set es"
proof -
  have "card ({} \<union> sh_messageId ` set es) \<le> length es"
    using card_image_le [of "set es" sh_messageId] card_length [of es] by (simp add: le_trans)
  with assms(5) have "card ({} \<union> sh_messageId ` set es) < 2 ^ 32 - 1" by simp
  from session_chat_state [OF chat_state_fresh [OF assms(1-3)] assms(4) this, of room] show ?thesis
    by (auto simp: chat_state_def chat_prefix_def chat_upto_def)
qed

definition ex_chat :: "u32 \<Rightarrow> server_chat" where
  "ex_chat k = \<lparr>sh_player = PBlack, sh_messageId = k, sh_message = ''hello''\<rparr>"

theorem chat_in_order_witness:
  "\<exists>s' news. session_calls (\<lambda>_. True) (map OnChatMessage (map ex_chat [2, 3, 1, 2, 5])) (session_new ()) = Some (s', news) \<and>
    ss_chatHistory s' = map (\<lambda>k. chat_of (ex_chat k)) [1, 2, 3]"
proof -
  let ?es = "map ex_chat [2, 3, 1, 2, 5]"
  have "ss_expectedMessageId (session_new ()) = 1" "ss_chatHistory (session_new ()) = []"
    "ss_pendingChat (session_new ()) = Map.empty" by (simp_all add: session_new_def)
  moreover have "\<forall>e \<in> set ?es. chat_of e = (\<lambda>k. chat_of (ex_chat k)) (sh_messageId e)" by (simp add: ex_chat_def)
  ultimately obtain n s' news where r: "session_calls (\<lambda>_. True) (map OnChatMessage ?es) (session_new ()) = Some (s', news)"
    "ss_chatHistory s' = map (\<lambda>k. chat_of (ex_chat (of_nat k))) [1..<Suc n]"
    "\<forall>k \<in> {1..n}. of_nat k \<in> sh_messageId ` set ?es" "of_nat (Suc n) \<notin> sh_messageId ` set ?es"
    using chat_in_order [where s = "session_new ()" and es = ?es and f = "\<lambda>k. chat_of (ex_chat k)"] by auto
  have "n = 3"
  proof -
    have "\<not> 4 \<le> n" using r(3) by (auto simp: ex_chat_def dest!: bspec [of _ _ 4])
    then have "n \<le> 3" by simp
    moreover have "n \<noteq> 0" using r(4) by (rule contrapos_nn) (simp add: ex_chat_def)
    moreover have "n \<noteq> 1" using r(4) by (rule contrapos_nn) (simp add: ex_chat_def)
    moreover have "n \<noteq> 2" using r(4) by (rule contrapos_nn) (simp add: ex_chat_def)
    ultimately show ?thesis by simp
  qed
  with r(1,2) show ?thesis by (auto simp: upt_rec numeral_3_eq_3)
qed

lemma chat_two_one:
  "\<exists>s news. session_calls (\<lambda>_. True) (map OnChatMessage (map ex_chat [2, 1])) (session_new ()) = Some (s, news) \<and>
    ss_chatHistory s = [chat_of (ex_chat 1), chat_of (ex_chat 2)]"
  by (simp add: onChatMessage_def session_new_def ex_chat_def chat_of_def drain_pending.simps Let_def)

text \<open>Nothing checks the board size that the server sends: a size for which there is no room is an exception on the
  reading thread, which nothing catches.\<close>

theorem huge_board_throws:
  assumes "ap_status (ss_position s) \<noteq> Active" "\<not> room (unat (sg_boardSize e) * unat (sg_boardSize e))"
  shows "session_call room (OnGameConfig e) s = None"
  using assms by (simp add: onGameConfig_def position_init_def Let_def)

theorem huge_board_throws_witness:
  "session_call (\<lambda>k. k < 2 ^ 61) (OnGameConfig \<lparr>sg_boardSize = -1, sg_komi = komi_6_5, sg_timeSeconds = 0\<rparr>)
     (session_new ()) = None"
proof (rule huge_board_throws)
  show "\<not> unat (sg_boardSize \<lparr>sg_boardSize = -1, sg_komi = komi_6_5, sg_timeSeconds = 0\<rparr>) *
      unat (sg_boardSize \<lparr>sg_boardSize = -1, sg_komi = komi_6_5, sg_timeSeconds = 0\<rparr>) < 2 ^ 61"
    by (simp add: unsigned_minus_1_eq_mask mask_eq_exp_minus_1)
qed (simp add: session_new_def app_position_new_def)

lemma numbered_filter:
  assumes "numbered s" "length (ss_chatHistory s) < 2 ^ 32"
  shows "filter (\<lambda>c. k < sc_messageId c) (ss_chatHistory s) = drop (unat k) (ss_chatHistory s)"
proof -
  let ?h = "ss_chatHistory s"
  have u: "unat (sc_messageId (?h ! i)) = Suc i" if "i < length ?h" for i
    using assms that unat_of_nat_u32 [of "Suc i"] by (simp add: numbered_def)
  have "filter (\<lambda>c. k < sc_messageId c) (take (unat k) ?h) = []"
    using u by (auto simp: filter_empty_conv in_set_conv_nth word_less_nat_alt)
  moreover have "filter (\<lambda>c. k < sc_messageId c) (drop (unat k) ?h) = drop (unat k) ?h"
    using u by (auto simp: filter_id_conv in_set_conv_nth word_less_nat_alt)
  ultimately show ?thesis by (metis append_Nil append_take_drop_id filter_append)
qed

text \<open>C25: the halving search for the messages after a given number finds exactly those with a larger number,
  whatever the client has handed to the session since it was created.\<close>

theorem chat_since_number:
  assumes "session_calls room cs (session_new sk) = Some (s, news)" "length (ss_chatHistory s) < 2 ^ 32"
  shows "getChatSince s k = filter (\<lambda>c. k < sc_messageId c) (ss_chatHistory s)"
proof -
  have "view_ok (session_new sk)"
    by (simp add: view_ok_def session_new_def numbered_def app_position_new_def)
  with session_calls_ok [OF assms(1)] have "numbered s" by (simp add: view_ok_def)
  with getChatSince_drops numbered_filter assms(2) show ?thesis by metis
qed

theorem chat_since_number_witness:
  "\<exists>s news. session_calls (\<lambda>_. True) (map OnChatMessage (map ex_chat [2, 1])) (session_new ()) = Some (s, news) \<and>
    getChatSince s 1 = [chat_of (ex_chat 2)]"
proof -
  obtain s news where c: "session_calls (\<lambda>_. True) (map OnChatMessage (map ex_chat [2, 1])) (session_new ()) = Some (s, news)"
    "ss_chatHistory s = [chat_of (ex_chat 1), chat_of (ex_chat 2)]"
    using chat_two_one by blast
  from chat_since_number [OF c(1), of 1] c show ?thesis by (auto simp: chat_of_def ex_chat_def)
qed


subsection \<open>The session\<close>




text \<open>Connecting shows the user a game that is ready although the network could not connect.\<close>

theorem connect_shows_ready:
  assumes "\<not> client_isConnected (ss_network s)"
    and "sk_resolve S host DEFAULT_PORT (tc_socket (cl_client (ss_network s))) = (None, sk)"
  shows "\<exists>s' news. session_end S mk draw self tcp (OpConnect host) (fst (session_begin (OpConnect host) s)) = Some (s', news) \<and>
    session_status s' = Ready \<and> \<not> client_isConnected (ss_network s')"
  using assms
  by (auto simp: session_begin_def session_end_def session_cleared_def position_setStatus_def client_connect_def
      tcp_client_connect_def client_isConnected_def session_status_def position_getStatus_def Let_def)

definition ex_offline :: "(unit, unit) socket_api" where
  "ex_offline = \<lparr>sk_resolve = (\<lambda>h p s. (None, s)), sk_connect = (\<lambda>e s. (False, s)), sk_close = (\<lambda>s. s),
     sk_write = (\<lambda>m s. (False, s)), sk_read = (\<lambda>n s. (None, s))\<rparr>"

theorem connect_shows_ready_witness:
  "\<exists>s' news. session_end ex_offline ex_mk ex_draw 7 ex_server (OpConnect ''nowhere'')
      (fst (session_begin (OpConnect ''nowhere'') (session_new ()))) = Some (s', news) \<and>
    session_status s' = Ready \<and> \<not> client_isConnected (ss_network s')"
  by (rule connect_shows_ready [where sk = "()"])
     (simp_all add: session_new_def client_isConnected_def client_registerHandler_def net_client_new_def
       tcp_client_new_def ex_offline_def)

subsection \<open>The copy of the game\<close>

text \<open>C27: a delta is applied at most once: the one that is applied has the next number, and then its number is
  the last one, so the same delta is refused and changes nothing.\<close>

theorem deltas_apply_once:
  assumes "position_apply p d = Some (True, p')"
  shows "sd_turn d = ap_moveId p + 1 \<and> ap_moveId p' = sd_turn d \<and> position_apply p' d = Some (False, p')"
  using apply_once [OF assms] by (simp add: position_apply_def)

definition ex_pass :: server_delta where
  "ex_pass = \<lparr>sd_turn = 1, sd_seat = SeatBlack, sd_action = SA_Pass, sd_coord = None, sd_captures = [],
     sd_next = SeatWhite, sd_status = NS_Active\<rparr>"

definition ex_started :: app_position where
  "ex_started = \<lparr>ap_moveId = 0, ap_status = Active, ap_player = PBlack, ap_board = board_new 9\<rparr>"

lemma ex_started_init:
  "position_init (\<lambda>_. True) app_position_new \<lparr>sg_boardSize = 9, sg_komi = komi_6_5, sg_timeSeconds = 0\<rparr> =
     Some (True, ex_started)"
  by (simp add: position_init_def app_position_new_def ex_started_def Let_def)

theorem deltas_apply_once_witness:
  "\<exists>p'. position_apply ex_started ex_pass = Some (True, p') \<and> position_apply p' ex_pass = Some (False, p')"
proof -
  have "position_apply ex_started ex_pass = Some (True, ex_started\<lparr>ap_moveId := 1, ap_player := PWhite\<rparr>)"
    by (simp add: position_apply_def isDeltaApplicable_def ex_pass_def ex_started_def isPlayer_def Let_def)
  with deltas_apply_once show ?thesis by blast
qed

text \<open>Nothing checks the coordinates of a delta: one that places a stone outside the board is accepted as
  applicable and then fails (an assert, or an access outside the vector).\<close>

theorem off_board_delta_faults:
  assumes "isDeltaApplicable p d" "sd_action d = SA_Place" "sd_coord d = Some c" "\<not> on_board (m_size (ap_board p)) c"
  shows "position_apply p d = None"
  using assms by (simp add: position_apply_def board_place_def Let_def)

theorem off_board_delta_faults_witness:
  "position_apply ex_started (ex_pass\<lparr>sd_action := SA_Place, sd_coord := Some (Coord 9 0)\<rparr>) = None"
  by (rule off_board_delta_faults [where c = "Coord 9 0"])
     (simp_all add: isDeltaApplicable_def ex_pass_def ex_started_def isPlayer_def on_board_def board_new_def)

end
