(* ===== verification/Floats.thy ===== *)
theory Floats imports Complex_Main "HOL-Library.Log_Nat" begin

text \<open>
  Binary floating point as IEEE 754 has it, on rationals: rounding to nearest with ties to even, for a precision of
  \<open>p\<close> bits and the least exponent \<open>emin\<close> of a subnormal number. \<open>float\<close> is \<open>rnd 24 (-149)\<close> and \<open>double\<close>
  is \<open>rnd 53 (-1074)\<close>. The sign of zero is not kept.
\<close>

definition round_even :: "rat \<Rightarrow> int" where
  "round_even x = (let f = \<lfloor>x\<rfloor>; d = x - of_int f
     in if d < 1 / 2 then f else if d > 1 / 2 then f + 1 else if even f then f else f + 1)"

text \<open>\<open>std::round\<close> and \<open>std::lround\<close>: to the nearest integer, halves away from zero.\<close>

definition round_away :: "rat \<Rightarrow> int" where
  "round_away x = (if x < 0 then - \<lfloor>- x + 1 / 2\<rfloor> else \<lfloor>x + 1 / 2\<rfloor>)"

abbreviation pow2 :: "int \<Rightarrow> rat" where "pow2 k \<equiv> power_int 2 k"

text \<open>The exponent of a number: \<open>2 ^ ilog2 x \<le> \<bar>x\<bar> < 2 ^ (ilog2 x + 1)\<close>.\<close>

definition ilog2 :: "rat \<Rightarrow> int" where
  "ilog2 x = (let (p, q) = quotient_of \<bar>x\<bar>; k = bitlen p - bitlen q in if pow2 k \<le> \<bar>x\<bar> then k else k - 1)"

definition ulp :: "nat \<Rightarrow> int \<Rightarrow> rat \<Rightarrow> rat" where
  "ulp p emin x = pow2 (max (ilog2 x - (int p - 1)) emin)"

definition rnd :: "nat \<Rightarrow> int \<Rightarrow> rat \<Rightarrow> rat" where
  "rnd p emin x = (if x = 0 then 0 else of_int (round_even (x / ulp p emin x)) * ulp p emin x)"

abbreviation fl32 :: "rat \<Rightarrow> rat" where "fl32 \<equiv> rnd 24 (-149)"
abbreviation fl64 :: "rat \<Rightarrow> rat" where "fl64 \<equiv> rnd 53 (-1074)"

subsection \<open>Rounding to integers\<close>

lemma round_even_int [simp]: "round_even (of_int n) = n"
  by (simp add: round_even_def)

lemma round_even_zero [simp]: "round_even 0 = 0"
  using round_even_int [of 0] by simp

lemma round_away_int [simp]: "round_away (of_int n) = n"
proof (cases "n < 0")
  case True
  have "\<lfloor>- (of_int n) + 1 / 2 :: rat\<rfloor> = - n" by (rule floor_unique) simp_all
  with True show ?thesis by (simp add: round_away_def)
next
  case False
  have "\<lfloor>of_int n + 1 / 2 :: rat\<rfloor> = n" by (rule floor_unique) simp_all
  with False show ?thesis by (simp add: round_away_def)
qed

lemma round_even_mono: "x \<le> y \<Longrightarrow> round_even x \<le> round_even y"
proof -
  assume xy: "x \<le> y"
  have f: "\<lfloor>x\<rfloor> \<le> \<lfloor>y\<rfloor>" by (rule floor_mono [OF xy])
  have r: "\<lfloor>z\<rfloor> \<le> round_even z \<and> round_even z \<le> \<lfloor>z\<rfloor> + 1" for z by (simp add: round_even_def Let_def)
  show ?thesis
  proof (cases "\<lfloor>x\<rfloor> = \<lfloor>y\<rfloor>")
    case True
    with xy show ?thesis by (auto simp: round_even_def Let_def)
  next
    case False
    with f r [of x] r [of y] show ?thesis by linarith
  qed
qed

lemma round_away_bound: "\<bar>x\<bar> \<le> of_int n \<Longrightarrow> \<bar>round_away x\<bar> \<le> n"
proof -
  assume x: "\<bar>x\<bar> \<le> of_int n"
  have "\<lfloor>y + 1 / 2\<rfloor> \<le> n" if "y \<le> of_int n" for y :: rat
    using that by (simp add: floor_le_iff)
  moreover have "0 \<le> \<lfloor>y + 1 / 2\<rfloor>" if "0 \<le> y" for y :: rat using that by simp
  ultimately have u: "\<lfloor>\<bar>x\<bar> + 1 / 2\<rfloor> \<le> n" "0 \<le> \<lfloor>\<bar>x\<bar> + 1 / 2\<rfloor>" using x by (blast, simp)
  then show ?thesis by (cases "x < 0") (simp_all add: round_away_def)
qed

subsection \<open>The exponent\<close>

lemma pow2_pos [simp]: "0 < pow2 k"
  by (rule zero_less_power_int) simp

lemma pow2_le_iff [simp]: "pow2 k \<le> pow2 l \<longleftrightarrow> k \<le> l"
  by (metis linorder_not_le one_less_numeral_iff power_int_increasing power_int_strict_increasing
      semiring_norm(76) order_less_imp_le)

lemma pow2_less_iff [simp]: "pow2 k < pow2 l \<longleftrightarrow> k < l"
  by (metis linorder_not_le pow2_le_iff)

lemma pow2_add: "pow2 (k + l) = pow2 k * pow2 l"
  by (simp add: power_int_add)

lemma pow2_nat: "0 \<le> k \<Longrightarrow> pow2 k = 2 ^ nat k"
  by (simp add: power_int_def)

lemma bitlen_pow2_bounds:
  assumes "0 < n"
  shows "pow2 (bitlen n - 1) \<le> of_int n" "of_int n < pow2 (bitlen n)"
proof -
  have b: "2 ^ nat (bitlen n - 1) \<le> n" "n < 2 ^ nat (bitlen n)" using bitlen_bounds [OF assms] by auto
  have "0 < bitlen n" using bitlen_eq_zero_iff [of n] bitlen_nonneg [of n] assms by linarith
  then have "pow2 (bitlen n - 1) = of_int (2 ^ nat (bitlen n - 1))" "pow2 (bitlen n) = of_int (2 ^ nat (bitlen n))"
    by (simp_all add: pow2_nat)
  with b show "pow2 (bitlen n - 1) \<le> of_int n" "of_int n < pow2 (bitlen n)"
    by (simp_all only: of_int_le_iff of_int_less_iff)
qed

lemma ilog2_bounds:
  assumes "x \<noteq> 0"
  shows "pow2 (ilog2 x) \<le> \<bar>x\<bar>" "\<bar>x\<bar> < pow2 (ilog2 x + 1)"
proof -
  obtain p q where pq: "quotient_of \<bar>x\<bar> = (p, q)" by force
  then have x: "\<bar>x\<bar> = of_int p / of_int q" and q: "0 < q"
    by (simp_all add: quotient_of_div quotient_of_denom_pos)
  moreover have "0 < \<bar>x\<bar>" using assms by simp
  ultimately have p: "0 < p" by (simp add: zero_less_divide_iff)
  note bp = bitlen_pow2_bounds [OF p] and bq = bitlen_pow2_bounds [OF q]
  let ?k = "bitlen p - bitlen q"
  have q': "(0 :: rat) < of_int q" using q by simp
  have "pow2 (?k - 1) * of_int q \<le> pow2 (?k - 1) * pow2 (bitlen q)" using bq(2) by (intro mult_left_mono) simp_all
  also have "\<dots> = pow2 (bitlen p - 1)" by (simp flip: pow2_add)
  finally have lo: "pow2 (?k - 1) \<le> \<bar>x\<bar>" unfolding x using bp(1) q' by (simp add: pos_le_divide_eq)
  have "of_int p < pow2 (bitlen p)" by (rule bp(2))
  also have "\<dots> = pow2 (?k + 1) * pow2 (bitlen q - 1)" by (simp flip: pow2_add)
  also have "\<dots> \<le> pow2 (?k + 1) * of_int q" using bq(1) by (intro mult_left_mono) simp_all
  finally have hi: "\<bar>x\<bar> < pow2 (?k + 1)" unfolding x using q' by (simp add: pos_divide_less_eq)
  show "pow2 (ilog2 x) \<le> \<bar>x\<bar>" "\<bar>x\<bar> < pow2 (ilog2 x + 1)"
    using lo hi by (auto simp: ilog2_def pq Let_def not_le)
qed

lemma ilog2_unique:
  assumes "pow2 k \<le> \<bar>x\<bar>" "\<bar>x\<bar> < pow2 (k + 1)"
  shows "ilog2 x = k"
proof -
  have "x \<noteq> 0" using assms(1) pow2_pos [of k] by (metis abs_zero not_le)
  note b = ilog2_bounds [OF this]
  have "pow2 k < pow2 (ilog2 x + 1)" "pow2 (ilog2 x) < pow2 (k + 1)" using assms b by linarith+
  then show ?thesis by simp
qed

lemma ilog2_mono:
  assumes "x \<noteq> 0" "\<bar>x\<bar> \<le> \<bar>y\<bar>"
  shows "ilog2 x \<le> ilog2 y"
proof -
  have "y \<noteq> 0" using assms by auto
  then have "pow2 (ilog2 x) < pow2 (ilog2 y + 1)"
    using ilog2_bounds(1) [OF assms(1)] ilog2_bounds(2) [of y] assms(2) by linarith
  then show ?thesis by simp
qed

lemma ilog2_minus [simp]: "ilog2 (- x) = ilog2 x"
  by (simp add: ilog2_def)

subsection \<open>Rounding\<close>

lemma round_even_minus [simp]: "round_even (- x) = - round_even x"
proof (cases "x = of_int \<lfloor>x\<rfloor>")
  case True
  then show ?thesis by (metis of_int_minus round_even_int)
next
  case False
  then have "of_int \<lfloor>x\<rfloor> < x" using of_int_floor_le [of x] by linarith
  then have "\<lfloor>- x\<rfloor> = - \<lfloor>x\<rfloor> - 1" using floor_correct [of x] by (intro floor_unique) simp_all
  then show ?thesis by (auto simp: round_even_def Let_def)
qed

lemma rnd_minus [simp]: "rnd p emin (- x) = - rnd p emin x"
  by (simp add: rnd_def ulp_def)

lemma rnd_zero [simp]: "rnd p emin 0 = 0"
  by (simp add: rnd_def)

lemma rnd_nonneg: "0 \<le> x \<Longrightarrow> 0 \<le> rnd p emin x"
  using round_even_mono [of 0 "x / ulp p emin x"] by (simp add: rnd_def ulp_def)

text \<open>Numbers with \<open>p\<close> bits are kept.\<close>

lemma rnd_exact:
  assumes "\<bar>m\<bar> < 2 ^ p" "emin \<le> e"
  shows "rnd p emin (of_int m * pow2 e) = of_int m * pow2 e"
proof (cases "m = 0")
  case False
  define x where "x = of_int m * pow2 e"
  define g where "g = max (ilog2 x - (int p - 1)) emin"
  have x: "x \<noteq> 0" using False by (simp add: x_def)
  have "(of_int \<bar>m\<bar> :: rat) < of_int (2 ^ p)" using assms(1) by (simp only: of_int_less_iff)
  then have "\<bar>x\<bar> < pow2 (int p) * pow2 e" by (simp add: abs_mult x_def)
  with ilog2_bounds(1) [OF x] have "pow2 (ilog2 x) < pow2 (int p + e)" by (simp add: pow2_add)
  then have g: "g \<le> e" using assms(2) by (simp add: g_def)
  have "x / pow2 g = of_int (m * 2 ^ nat (e - g))"
  proof -
    have "pow2 e = pow2 (e - g) * pow2 g" by (simp only: flip: pow2_add) simp
    then have "x / pow2 g = of_int m * pow2 (e - g)" by (simp add: x_def)
    then show ?thesis using g by (simp add: pow2_nat)
  qed
  then have "round_even (x / pow2 g) = m * 2 ^ nat (e - g)" by (simp only: round_even_int)
  then have "rnd p emin x = of_int (m * 2 ^ nat (e - g)) * pow2 g"
    using x by (simp add: rnd_def ulp_def flip: g_def)
  also have "\<dots> = of_int m * (pow2 (e - g) * pow2 g)" using g by (simp add: pow2_nat)
  also have "\<dots> = x" by (simp add: x_def flip: pow2_add)
  finally show ?thesis by (simp add: x_def)
qed simp

lemma rnd_int [simp]:
  assumes "\<bar>n\<bar> < 2 ^ p" "emin \<le> 0"
  shows "rnd p emin (of_int n) = of_int n"
  using rnd_exact [OF assms] by simp

lemma rnd_pow2: "0 < p \<Longrightarrow> emin \<le> k \<Longrightarrow> rnd p emin (pow2 k) = pow2 k"
  using rnd_exact [of 1 p emin k] by (simp add: one_less_power)

lemma rnd_mono_pos:
  assumes "0 < p" "0 < x" "x \<le> y"
  shows "rnd p emin x \<le> rnd p emin y"
proof -
  let ?g = "\<lambda>z. max (ilog2 z - (int p - 1)) emin"
  have y: "0 < y" using assms by linarith
  have le: "ilog2 x \<le> ilog2 y" using assms by (intro ilog2_mono) simp_all
  show ?thesis
  proof (cases "?g x = ?g y")
    case True
    have "x / pow2 (?g y) \<le> y / pow2 (?g y)" using assms(3) by (intro divide_right_mono) (simp_all add: less_imp_le)
    then have "round_even (x / pow2 (?g y)) \<le> round_even (y / pow2 (?g y))" by (rule round_even_mono)
    then show ?thesis using assms(2) y True by (simp add: rnd_def ulp_def mult_right_mono less_imp_le)
  next
    case False
    with le have g: "?g x < ?g y" "?g y = ilog2 y - (int p - 1)" by auto
    have r: "rnd p emin z = of_int (round_even (z / pow2 (?g z))) * pow2 (?g z)" if "0 < z" for z
      using that by (simp add: rnd_def ulp_def)
    have "x < pow2 (ilog2 x + 1)" using ilog2_bounds(2) [of x] assms(2) by simp
    also have "\<dots> \<le> pow2 (?g x + int p)" by simp
    finally have "x / pow2 (?g x) \<le> of_int (2 ^ p)" by (simp add: pow2_add pos_divide_le_eq mult.commute less_imp_le)
    then have "round_even (x / pow2 (?g x)) \<le> 2 ^ p" by (metis round_even_int round_even_mono)
    then have "(of_int (round_even (x / pow2 (?g x))) :: rat) \<le> of_int (2 ^ p)" by (simp only: of_int_le_iff)
    then have "rnd p emin x \<le> of_int (2 ^ p) * pow2 (?g x)" unfolding r [OF assms(2)]
      by (intro mult_right_mono) (simp_all add: less_imp_le)
    also have "\<dots> = pow2 (?g x + int p)" by (simp add: pow2_add)
    also have "\<dots> \<le> pow2 (?g y + (int p - 1))" using g(1) by simp
    also have "\<dots> = of_int (2 ^ (p - 1)) * pow2 (?g y)" using assms(1) by (simp add: pow2_add pow2_nat nat_diff_distrib)
    also have "\<dots> \<le> rnd p emin y"
    proof -
      have "pow2 (?g y + (int p - 1)) \<le> y" using ilog2_bounds(1) [of y] y g(2) by simp
      then have "of_int (2 ^ (p - 1)) \<le> y / pow2 (?g y)" using assms(1)
        by (simp add: pos_le_divide_eq pow2_add [of _ "int p - 1"] pow2_nat nat_diff_distrib mult.commute)
      then have "2 ^ (p - 1) \<le> round_even (y / pow2 (?g y))" by (metis round_even_int round_even_mono)
      then have "(of_int (2 ^ (p - 1)) :: rat) \<le> of_int (round_even (y / pow2 (?g y)))" by (simp only: of_int_le_iff)
      then show ?thesis unfolding r [OF y] by (intro mult_right_mono) (simp_all add: less_imp_le)
    qed
    finally show ?thesis .
  qed
qed

lemma rnd_mono:
  assumes "0 < p" "x \<le> y"
  shows "rnd p emin x \<le> rnd p emin y"
proof (cases "0 < x")
  case True
  with assms show ?thesis by (intro rnd_mono_pos)
next
  case False
  show ?thesis
  proof (cases "y < 0")
    case True
    then show ?thesis using rnd_mono_pos [OF assms(1), of "- y" "- x" emin] assms(2) by simp
  next
    case False': False
    have "0 \<le> - rnd p emin x" using rnd_nonneg [of "- x" p emin] False by simp
    moreover have "0 \<le> rnd p emin y" using False' by (intro rnd_nonneg) simp
    ultimately show ?thesis by linarith
  qed
qed

text \<open>A representable bound is kept by rounding.\<close>

lemma rnd_le: "0 < p \<Longrightarrow> rnd p emin b = b \<Longrightarrow> x \<le> b \<Longrightarrow> rnd p emin x \<le> b"
  using rnd_mono [of p x b emin] by simp

lemma rnd_ge: "0 < p \<Longrightarrow> rnd p emin b = b \<Longrightarrow> b \<le> x \<Longrightarrow> b \<le> rnd p emin x"
  using rnd_mono [of p b x emin] by simp

lemma rnd_abs_le: "0 < p \<Longrightarrow> rnd p emin b = b \<Longrightarrow> \<bar>x\<bar> \<le> b \<Longrightarrow> \<bar>rnd p emin x\<bar> \<le> b"
  using rnd_le [of p emin b x] rnd_le [of p emin b "- x"] by (simp add: abs_le_iff)

subsection \<open>The error of rounding\<close>

lemma round_even_error: "\<bar>of_int (round_even x) - x\<bar> \<le> 1 / 2"
proof -
  have "of_int \<lfloor>x\<rfloor> \<le> x" "x < of_int \<lfloor>x\<rfloor> + 1" by linarith+
  then show ?thesis by (auto simp: round_even_def Let_def abs_le_iff)
qed

lemma rnd_error: "\<bar>rnd p emin x - x\<bar> \<le> ulp p emin x / 2"
proof (cases "x = 0")
  case False
  have u: "0 < ulp p emin x" by (simp add: ulp_def)
  have "\<bar>of_int (round_even (x / ulp p emin x)) - x / ulp p emin x\<bar> * ulp p emin x \<le> 1 / 2 * ulp p emin x"
    by (intro mult_right_mono round_even_error) (use u in simp)
  also have "\<bar>of_int (round_even (x / ulp p emin x)) - x / ulp p emin x\<bar> * ulp p emin x =
      \<bar>of_int (round_even (x / ulp p emin x)) * ulp p emin x - x\<bar>"
  proof -
    have "\<bar>a\<bar> * ulp p emin x = \<bar>a * ulp p emin x\<bar>" for a using u by (simp add: abs_mult)
    then show ?thesis using u by (simp add: left_diff_distrib)
  qed
  finally show ?thesis using False by (simp add: rnd_def)
qed (simp add: ulp_def)

lemma rnd_error_le:
  assumes "\<bar>x\<bar> < pow2 k" "emin \<le> k - int p" "x \<noteq> 0"
  shows "\<bar>rnd p emin x - x\<bar> \<le> pow2 (k - int p) / 2"
proof -
  have "pow2 (ilog2 x) < pow2 k" using ilog2_bounds(1) [OF assms(3)] assms(1) by linarith
  then have "ulp p emin x \<le> pow2 (k - int p)" using assms(2) by (simp add: ulp_def)
  with rnd_error [of p emin x] show ?thesis by simp
qed

lemma fl32_int: "\<bar>n\<bar> < 2 ^ 24 \<Longrightarrow> fl32 (of_int n) = of_int n"
  by (rule rnd_int) simp_all

lemma fl64_int: "\<bar>n\<bar> < 2 ^ 53 \<Longrightarrow> fl64 (of_int n) = of_int n"
  by (rule rnd_int) simp_all

text \<open>Numbers of pixels are rounded by less than a millionth.\<close>

lemma fl64_error:
  assumes "\<bar>x\<bar> < 2 ^ 30"
  shows "\<bar>fl64 x - x\<bar> \<le> 1 / 2 ^ 20"
proof (cases "x = 0")
  case False
  have "\<bar>x\<bar> < pow2 30" using assms by simp
  from rnd_error_le [OF this _ False, of "-1074" 53] have "\<bar>fl64 x - x\<bar> \<le> pow2 (- 23) / 2" by simp
  also have "\<dots> \<le> 1 / 2 ^ 20" by (simp add: power_int_minus)
  finally show ?thesis .
qed simp

end
