(* ===== verification/Board_View.thy ===== *)
theory Board_View imports Floats App_Session_Manager "HOL-Library.Signed_Division" begin

text \<open>
  \<open>src/apps/tengen/boardRenderer.cpp\<close> and \<open>BoardWidget.cpp\<close>: the geometry of the board on the screen, what
  is painted, and which stone a click means. Images are a type parameter with the scaling of the
  library (\<open>None\<close> is the null image); painting is a list of the calls made. Sizes of widgets are \<open>int\<close>.
\<close>

record 'i renderer =
  br_boardSize :: u32
  br_stoneSize :: u32
  br_nodes :: u32
  br_boardSizePxRequested :: u32
  br_drawStepPx :: u32
  br_coordStart :: u32
  br_coordEnd :: u32
  br_textureBlack :: "'i option"
  br_textureWhite :: "'i option"
  br_scaledBlack :: "'i option"
  br_scaledWhite :: "'i option"
  br_ready :: bool

text \<open>The two images are what reading the files gives.\<close>

definition renderer_new :: "'i option \<Rightarrow> 'i option \<Rightarrow> u32 \<Rightarrow> 'i renderer" where
  "renderer_new black white nodes =
     \<lparr>br_boardSize = 0, br_stoneSize = 0, br_nodes = nodes, br_boardSizePxRequested = 0, br_drawStepPx = 0,
      br_coordStart = 0, br_coordEnd = 0, br_textureBlack = black, br_textureWhite = white,
      br_scaledBlack = None, br_scaledWhite = None,
      br_ready = (if black = None \<or> white = None then False else nodes > 0)\<rparr>"

definition updateMetrics :: "u32 \<Rightarrow> 'i renderer \<Rightarrow> 'i renderer" where
  "updateMetrics boardSizePx r =
     (let boardSize = (boardSizePx div br_nodes r) * br_nodes r;
          stoneSize = boardSize div br_nodes r;
          drawStep = stoneSize div 2
      in r\<lparr>br_boardSize := boardSize, br_stoneSize := stoneSize, br_drawStepPx := drawStep,
           br_coordStart := drawStep,
           br_coordEnd := (if boardSize > drawStep then boardSize - drawStep else 0)\<rparr>)"

definition updateStoneTextures :: "(u32 \<Rightarrow> 'i \<Rightarrow> 'i option) \<Rightarrow> 'i renderer \<Rightarrow> 'i renderer" where
  "updateStoneTextures scale r =
     (if \<not> br_ready r \<or> br_stoneSize r = 0 then r
      else r\<lparr>br_scaledBlack := Option.bind (br_textureBlack r) (scale (br_stoneSize r)),
             br_scaledWhite := Option.bind (br_textureWhite r) (scale (br_stoneSize r))\<rparr>)"

definition setNodes :: "(u32 \<Rightarrow> 'i \<Rightarrow> 'i option) \<Rightarrow> u32 \<Rightarrow> 'i renderer \<Rightarrow> 'i renderer" where
  "setNodes scale nodes r =
     (if nodes = br_nodes r then r
      else let r1 = r\<lparr>br_nodes := nodes,
                      br_ready := nodes > 0 \<and> br_textureBlack r \<noteq> None \<and> br_textureWhite r \<noteq> None\<rparr>
           in if br_boardSizePxRequested r1 > 0 \<and> br_nodes r1 > 0
              then updateStoneTextures scale (updateMetrics (br_boardSizePxRequested r1) r1)
              else r1)"

definition setBoardSizePx :: "(u32 \<Rightarrow> 'i \<Rightarrow> 'i option) \<Rightarrow> u32 \<Rightarrow> 'i renderer \<Rightarrow> 'i renderer" where
  "setBoardSizePx scale boardSizePx r =
     (let r1 = r\<lparr>br_boardSizePxRequested := boardSizePx\<rparr>
      in if boardSizePx = 0 \<or> br_nodes r1 = 0 then r1
         else updateStoneTextures scale (updateMetrics boardSizePx r1))"

definition isReady :: "'i renderer \<Rightarrow> bool" where
  "isReady r \<longleftrightarrow> br_ready r \<and> br_boardSize r > 0 \<and> br_stoneSize r > 0 \<and>
     br_scaledBlack r \<noteq> None \<and> br_scaledWhite r \<noteq> None"

subsection \<open>Painting\<close>

datatype 'i paint = FillWidget int int | FillBoard int int | DrawLine int int int int | DrawImage int int int "'i option"

definition drawBackground :: "'i renderer \<Rightarrow> 'i paint list" where
  "drawBackground r =
     (let effBoardWidth = sint (br_coordEnd r - br_coordStart r);
          coordStart = sint (br_coordStart r);
          coordEnd = coordStart + effBoardWidth
      in FillBoard (sint (br_boardSize r)) (sint (br_boardSize r)) #
         concat (map (\<lambda>i. let offset = sint (br_coordStart r + of_nat i * br_stoneSize r)
                          in [DrawLine coordStart offset coordEnd offset, DrawLine offset coordStart offset coordEnd])
                 [0..<unat (br_nodes r)]))"

definition drawStone :: "'i renderer \<Rightarrow> u32 \<Rightarrow> u32 \<Rightarrow> stone \<Rightarrow> 'i paint list" where
  "drawStone r x y s =
     (if \<not> isReady r then []
      else [DrawImage (sint ((br_coordStart r - br_drawStepPx r) + x * br_stoneSize r))
              (sint ((br_coordStart r - br_drawStepPx r) + y * br_stoneSize r)) (sint (br_stoneSize r))
              (if s = Black then br_scaledBlack r else br_scaledWhite r)])"

definition drawStones :: "'i renderer \<Rightarrow> board \<Rightarrow> 'i paint list" where
  "drawStones r b =
     concat (map (\<lambda>c. case board_get b c of None \<Rightarrow> [] | Some Empty \<Rightarrow> []
                      | Some s \<Rightarrow> drawStone r (coord_x c) (coord_y c) s) (all_coords (m_size b)))"

definition draw_board :: "'i renderer \<Rightarrow> board \<Rightarrow> 'i paint list" where
  "draw_board r b = (if \<not> isReady r then [] else drawBackground r @ drawStones r b)"

subsection \<open>From pixels to points\<close>

definition TOLERANCE :: rat where
  "TOLERANCE = fl32 (3 / 10)"

definition pixelToCoord1 :: "'i renderer \<Rightarrow> int \<Rightarrow> u32 option" where
  "pixelToCoord1 r px =
     (if br_stoneSize r = 0 then None
      else let coordRel = fl32 (fl32 (of_int (px - sint (br_coordStart r))) / fl32 (of_int (uint (br_stoneSize r))));
               coordRound = of_int (round_away coordRel)
           in if \<bar>fl32 (coordRound - coordRel)\<bar> > TOLERANCE \<or> coordRound < 0 \<or>
                 coordRound > fl32 (fl32 (of_int (uint (br_nodes r))) - 1)
              then None
              else Some (of_int (round_away coordRel)))"

definition pixelToCoord :: "'i renderer \<Rightarrow> int \<Rightarrow> int \<Rightarrow> coord option" where
  "pixelToCoord r pX pY =
     (case pixelToCoord1 r pX of
        None \<Rightarrow> None
      | Some x \<Rightarrow> (case pixelToCoord1 r pY of None \<Rightarrow> None | Some y \<Rightarrow> Some (Coord x y)))"

subsection \<open>The widget\<close>

definition boardPixelSize :: "int \<Rightarrow> int \<Rightarrow> u32" where
  "boardPixelSize width height = of_int (max (min width height) 0)"

definition boardOffset :: "int \<Rightarrow> int \<Rightarrow> u32 \<Rightarrow> int \<times> int" where
  "boardOffset width height boardSize =
     ((width - sint boardSize) sdiv 2, (height - sint boardSize) sdiv 2)"

text \<open>The stone that the user wants to put, if the click means one.\<close>

definition handleClick :: "'i renderer \<Rightarrow> int \<Rightarrow> int \<Rightarrow> int \<times> int \<Rightarrow> coord option" where
  "handleClick r width height pos =
     (let sizePx = boardPixelSize width height;
          (dx, dy) = boardOffset width height sizePx;
          x = fst pos - dx; y = snd pos - dy
      in if sizePx = 0 then None
         else if x < 0 \<or> y < 0 \<or> x \<ge> sint sizePx \<or> y \<ge> sint sizePx then None
         else pixelToCoord r x y)"

datatype key = Key_P | Key_R | OtherKey
datatype mouse_button = LeftButton | OtherButton

text \<open>What the widget asks of the session; the flag says whether the event is accepted.\<close>

definition mouseReleaseEvent :: "'i renderer \<Rightarrow> int \<Rightarrow> int \<Rightarrow> mouse_button \<Rightarrow> int \<times> int \<Rightarrow> client_event option \<times> bool" where
  "mouseReleaseEvent r width height button pos =
     (if button = LeftButton then (map_option ClientPutStone (handleClick r width height pos), True) else (None, False))"

definition keyReleaseEvent :: "key \<Rightarrow> client_event option \<times> bool" where
  "keyReleaseEvent k = (case k of Key_P \<Rightarrow> (Some ClientPass, True) | Key_R \<Rightarrow> (Some ClientResign, True)
     | OtherKey \<Rightarrow> (None, False))"

definition resizeEvent :: "(u32 \<Rightarrow> 'i \<Rightarrow> 'i option) \<Rightarrow> int \<Rightarrow> int \<Rightarrow> 'i renderer \<Rightarrow> 'i renderer" where
  "resizeEvent scale width height r = setBoardSizePx scale (boardPixelSize width height) r"

text \<open>Painting the widget: its background is filled, and the rest is painted at the offset to which the painter is moved.\<close>

definition renderBoard :: "(u32 \<Rightarrow> 'i \<Rightarrow> 'i option) \<Rightarrow> int \<Rightarrow> int \<Rightarrow> board \<Rightarrow> 'i renderer \<Rightarrow>
    'i renderer \<times> ((int \<times> int) \<times> 'i paint list) option" where
  "renderBoard scale width height b r =
     (let size = boardPixelSize width height
      in if size = 0 then (r, None)
         else let offset = boardOffset width height size;
                  boardSize = of_nat (m_size b);
                  r1 = (if br_nodes r \<noteq> boardSize then setBoardSizePx scale size (setNodes scale boardSize r) else r)
              in (r1, Some (offset, FillWidget width height # draw_board r1 b)))"

definition widget_onAppEvent :: "app_signal \<Rightarrow> bool" where
  "widget_onAppEvent s = (case s of AS_BoardChange \<Rightarrow> True | _ \<Rightarrow> False)"


subsection \<open>The geometry\<close>

lemma sint_small: "uint (w :: u32) < 2 ^ 31 \<Longrightarrow> sint w = uint w"
proof -
  assume "uint w < 2 ^ 31"
  moreover have "- (2 ^ 31) \<le> uint w" by (rule order_trans [of _ 0]) simp_all
  ultimately have "signed_take_bit 31 (uint w) = uint w" by (intro signed_take_bit_int_eq_self)
  then show ?thesis by (simp add: sint_uint)
qed

lemma sint_nat: "unat (w :: u32) < 2 ^ 31 \<Longrightarrow> sint w = int (unat w)"
proof -
  assume "unat w < 2 ^ 31"
  then have "int (unat w) < int (2 ^ 31)" by (simp only: of_nat_less_iff)
  then have "uint w < 2 ^ 31" by simp
  then show ?thesis by (simp add: sint_small)
qed

lemma fl32_minus_one: "0 \<le> n \<Longrightarrow> n < 2 ^ 24 \<Longrightarrow> fl32 (fl32 (of_int n) - 1) = of_int (n - 1)"
  using fl32_int [of n] fl32_int [of "n - 1"] by simp

lemma fl32_quotient:
  assumes "0 < s" "0 \<le> x" "x < n" "n * s < 2 ^ 24"
  shows "fl32 (fl32 (of_int (x * s)) / fl32 (of_int s)) = of_int x" "n < 2 ^ 24"
proof -
  have "n * 1 \<le> n * s" "1 * s \<le> n * s" "x * s \<le> n * s" using assms by (intro mult_mono; linarith)+
  with assms(4) have b: "n < 2 ^ 24" "s < 2 ^ 24" "x * s < 2 ^ 24" by linarith+
  have "0 \<le> x * s" using assms by simp
  with b have "fl32 (of_int (x * s)) = of_int (x * s)" "fl32 (of_int s) = of_int s" "fl32 (of_int x) = of_int x"
    using assms by (intro fl32_int; linarith)+
  with assms(1) show "fl32 (fl32 (of_int (x * s)) / fl32 (of_int s)) = of_int x" by simp
  show "n < 2 ^ 24" by (rule b(1))
qed

text \<open>A click that means a stone means one on the board.\<close>

lemma pixelToCoord1_bound:
  assumes "pixelToCoord1 r px = Some c" "uint (br_nodes r) < 2 ^ 24"
  shows "c < br_nodes r"
proof -
  define n where "n = uint (br_nodes r)"
  define k where "k = round_away (fl32 (fl32 (of_int (px - sint (br_coordStart r))) / fl32 (of_int (uint (br_stoneSize r)))))"
  have n: "0 \<le> n" "n < 2 ^ 24" "uint (br_nodes r) = n" using assms(2) by (simp_all add: n_def)
  from assms(1) have k: "\<not> (of_int k :: rat) < 0" "\<not> of_int k > fl32 (fl32 (of_int n) - 1)" "c = of_int k"
    unfolding pixelToCoord1_def Let_def k_def [symmetric] n(3) by (simp_all split: if_splits)
  from k(1,2) have "0 \<le> k" "k \<le> n - 1" unfolding fl32_minus_one [OF n(1,2)] by linarith+
  moreover from this have "uint c = k" using n(2) by (simp add: k(3) uint_word_of_int)
  ultimately show ?thesis by (simp add: word_less_def n(3))
qed

text \<open>The centre of a drawn stone means its point.\<close>

lemma pixelToCoord1_centre:
  assumes "0 < br_stoneSize r" "x < br_nodes r" "uint (br_nodes r) * uint (br_stoneSize r) < 2 ^ 24"
  shows "pixelToCoord1 r (sint (br_coordStart r) + uint x * uint (br_stoneSize r)) = Some x"
proof -
  define n where "n = uint (br_nodes r)"
  define s where "s = uint (br_stoneSize r)"
  define k where "k = uint x"
  have eqs: "uint (br_nodes r) = n" "uint (br_stoneSize r) = s" "uint x = k"
    and p: "0 < s" "0 \<le> k" "k < n" "n * s < 2 ^ 24"
    using assms by (simp_all add: word_less_def n_def s_def k_def)
  note q = fl32_quotient [OF p]
  have x: "of_int k = x" by (simp add: k_def)
  have d: "sint (br_coordStart r) + k * s - sint (br_coordStart r) = k * s" by simp
  have t: "\<not> \<bar>fl32 0\<bar> > TOLERANCE" using rnd_nonneg [of "3 / 10" 24 "- 149"] by (simp add: TOLERANCE_def not_less)
  have b: "\<not> (of_int k :: rat) < 0" "\<not> (of_int k :: rat) > of_int (n - 1)" using p by simp_all
  have "n \<ge> 0" using p by simp
  with assms(1) t b show ?thesis
    unfolding pixelToCoord1_def Let_def eqs d q(1) fl32_minus_one [OF \<open>n \<ge> 0\<close> q(2)]
    by (simp add: x)
qed

text \<open>The measures belong together, and nothing wraps.\<close>

lemma updateMetrics_values:
  assumes "0 < br_nodes r"
  shows "unat (br_stoneSize (updateMetrics px r)) = unat px div unat (br_nodes r)"
    "unat (br_boardSize (updateMetrics px r)) = unat px div unat (br_nodes r) * unat (br_nodes r)"
    "br_drawStepPx (updateMetrics px r) = br_coordStart (updateMetrics px r)"
    "unat (br_coordStart (updateMetrics px r)) = unat (br_stoneSize (updateMetrics px r)) div 2"
    "br_nodes (updateMetrics px r) = br_nodes r"
proof -
  let ?n = "unat (br_nodes r)" and ?w = "unat px"
  have n: "0 < ?n" using assms by (simp add: word_less_nat_alt)
  have "?w div ?n * ?n \<le> ?w" "?w < 2 ^ 32" using unsigned_less [of px] by simp_all
  then have "unat (px div br_nodes r) * ?n < 2 ^ LENGTH(32)" by (simp add: unat_div del: div_times_less_eq_dividend)
  then have b: "unat ((px div br_nodes r) * br_nodes r) = ?w div ?n * ?n"
    unfolding unat_mult_lem by (simp add: unat_div)
  then show "unat (br_boardSize (updateMetrics px r)) = ?w div ?n * ?n" by (simp add: updateMetrics_def Let_def)
  from b n show "unat (br_stoneSize (updateMetrics px r)) = ?w div ?n"
    by (simp add: updateMetrics_def Let_def unat_div)
  show "unat (br_coordStart (updateMetrics px r)) = unat (br_stoneSize (updateMetrics px r)) div 2"
    by (simp add: updateMetrics_def Let_def unat_div)
qed (simp_all add: updateMetrics_def Let_def)

text \<open>Scaling the textures keeps the measures.\<close>

lemma updateStoneTextures_geometry [simp]:
  "br_stoneSize (updateStoneTextures scale r) = br_stoneSize r" "br_boardSize (updateStoneTextures scale r) = br_boardSize r"
  "br_drawStepPx (updateStoneTextures scale r) = br_drawStepPx r" "br_nodes (updateStoneTextures scale r) = br_nodes r"
  "br_coordStart (updateStoneTextures scale r) = br_coordStart r"
  by (simp_all add: updateStoneTextures_def)

lemma pixelToCoord_textures [simp]: "pixelToCoord (updateStoneTextures scale r) = pixelToCoord r"
proof -
  have "pixelToCoord1 (updateStoneTextures scale r) px = pixelToCoord1 r px" for px
    by (simp only: pixelToCoord1_def updateStoneTextures_geometry)
  then have e: "pixelToCoord1 (updateStoneTextures scale r) = pixelToCoord1 r" by (rule ext)
  show ?thesis unfolding pixelToCoord_def fun_eq_iff e by simp
qed

text \<open>What is painted for a stone, and a click in its middle.\<close>

lemma stone_centre:
  assumes n: "0 < br_nodes r" and side: "br_nodes r \<le> px" "unat px < 2 ^ 24"
    and x: "x < br_nodes r" "y < br_nodes r"
    and drawn: "DrawImage dx dy d img \<in> set (drawStone (updateStoneTextures scale (updateMetrics px r)) x y s)"
  shows "pixelToCoord (updateMetrics px r) (dx + d div 2) (dy + d div 2) = Some (Coord x y)"
    "0 \<le> dx" "0 \<le> dy" "0 < d" "dx + d \<le> int (unat px)" "dy + d \<le> int (unat px)"
proof -
  let ?r = "updateMetrics px r"
  define S where "S = unat (br_stoneSize ?r)"
  define N where "N = unat (br_nodes r)"
  note m = updateMetrics_values [OF n, of px]
  have S: "S = unat px div N" "0 < N" "S * N \<le> unat px" using m(1) n by (simp_all add: S_def N_def word_less_nat_alt)
  have "0 < S" using S side(1) by (simp add: S_def N_def word_le_nat_alt div_greater_zero_iff m(1))
  have "N \<le> unat px" using side(1) by (simp add: N_def word_le_nat_alt)
  moreover have "S \<le> S * N" using S(2) by (cases N) simp_all
  ultimately have small: "S < 2 ^ 24" "N < 2 ^ 24" "S * N < 2 ^ 24"
    using S(3) side(2) by linarith+
  have eq: "uint (br_stoneSize ?r) = int S" "uint (br_nodes ?r) = int N" by (simp_all add: S_def N_def m(5))
  have st: "sint (br_stoneSize ?r) = int S" "sint (br_coordStart ?r) = int (S div 2)"
    using small(1) by (simp_all add: sint_nat m(4) S_def)
  have at: "sint ((br_coordStart ?r - br_drawStepPx ?r) + z * br_stoneSize ?r) = int (unat z * S)"
    "unat z * S + S \<le> unat px" if "z < br_nodes r" for z
  proof -
    have z: "Suc (unat z) \<le> N" using that by (simp add: N_def word_less_nat_alt)
    then have "Suc (unat z) * S \<le> N * S" by (rule mult_le_mono1)
    then show le: "unat z * S + S \<le> unat px" using S(3) by (simp add: mult.commute add.commute)
    then have lt: "unat z * unat (br_stoneSize ?r) < 2 ^ LENGTH(32)" using side(2) by (simp add: S_def)
    then have "unat (z * br_stoneSize ?r) = unat z * S" unfolding unat_mult_lem S_def .
    moreover have "unat z * S < 2 ^ 31" using le side(2) by simp
    ultimately have "sint (z * br_stoneSize ?r) = int (unat z * S)" by (simp add: sint_nat)
    then show "sint ((br_coordStart ?r - br_drawStepPx ?r) + z * br_stoneSize ?r) = int (unat z * S)"
      by (simp add: m(3))
  qed
  have * : "int (unat z * S) + int S div 2 = sint (br_coordStart ?r) + uint z * uint (br_stoneSize ?r)" for z
    unfolding st(2) eq(1) by (simp add: zdiv_int)
  have pc: "pixelToCoord1 ?r (int (unat z * S) + int S div 2) = Some z" if "z < br_nodes r" for z
  proof (unfold *, rule pixelToCoord1_centre)
    show "0 < br_stoneSize ?r" "z < br_nodes ?r" using that \<open>0 < S\<close> by (simp_all add: m(5) S_def word_less_nat_alt)
    show "uint (br_nodes ?r) * uint (br_stoneSize ?r) < 2 ^ 24"
      using small(3) by (simp add: eq mult.commute flip: of_nat_mult)
  qed
  from drawn have d: "dx = sint ((br_coordStart ?r - br_drawStepPx ?r) + x * br_stoneSize ?r)"
    "dy = sint ((br_coordStart ?r - br_drawStepPx ?r) + y * br_stoneSize ?r)" "d = sint (br_stoneSize ?r)"
    by (simp_all add: drawStone_def split: if_splits)
  show "pixelToCoord ?r (dx + d div 2) (dy + d div 2) = Some (Coord x y)"
    unfolding d at(1) [OF x(1)] at(1) [OF x(2)] st(1) pixelToCoord_def pc [OF x(1)] pc [OF x(2)] by simp
  show "0 \<le> dx" "0 \<le> dy" "0 < d" using at(1) x st(1) \<open>0 < S\<close> by (simp_all add: d)
  show "dx + d \<le> int (unat px)" "dy + d \<le> int (unat px)"
    using at(2) [OF x(1)] at(2) [OF x(2)] unfolding d at(1) [OF x(1)] at(1) [OF x(2)] st(1) by linarith+
qed

end
