(* ===== verification/Game_View.thy ===== *)
theory Game_View imports Board_View "HOL-Library.RBT" begin

text \<open>
  \<open>src/apps/tengen/GameWidget.cpp\<close>, \<open>MainWindow.cpp\<close> and \<open>HostDialog.cpp\<close>: what the rest of the window shows
  and asks of the session. Signals arrive on other threads and queue a call for the thread of the window.
\<close>

datatype queued_call = SetCurrentPlayerText | SetGameStateText | AppendChatMessages

definition gameWidget_onAppEvent :: "app_signal \<Rightarrow> queued_call option" where
  "gameWidget_onAppEvent s =
     (case s of AS_PlayerChange \<Rightarrow> Some SetCurrentPlayerText | AS_StateChange \<Rightarrow> Some SetGameStateText
      | AS_NewChat \<Rightarrow> Some AppendChatMessages | _ \<Rightarrow> None)"

record game_widget =
  gw_statusLabel :: string
  gw_currPlayerLabel :: string
  gw_chatList :: "string list"
  gw_lastChatMessageId :: u32

definition game_widget_blank :: game_widget where
  "game_widget_blank = \<lparr>gw_statusLabel = [], gw_currPlayerLabel = [], gw_chatList = [], gw_lastChatMessageId = 0\<rparr>"

definition player_name :: "player \<Rightarrow> string" where
  "player_name p = (if p = PBlack then ''Black'' else ''White'')"

definition setCurrentPlayerText :: "'s session \<Rightarrow> game_widget \<Rightarrow> game_widget" where
  "setCurrentPlayerText s w = w\<lparr>gw_currPlayerLabel := ''Current Player: '' @ player_name (session_currentPlayer s)\<rparr>"

text \<open>The texts are in a \<open>std::map\<close>, a red-black tree over the order of the enumeration's values.\<close>

definition gameStatus_value :: "game_status \<Rightarrow> nat" where
  "gameStatus_value s = (case s of Idle \<Rightarrow> 0 | Ready \<Rightarrow> 1 | Active \<Rightarrow> 2 | Done \<Rightarrow> 3)"

lemma gameStatus_value_eq [simp]: "gameStatus_value s = gameStatus_value t \<longleftrightarrow> s = t"
  by (cases s; cases t) (simp_all add: gameStatus_value_def)

instantiation game_status :: linorder
begin

definition less_eq_game_status :: "game_status \<Rightarrow> game_status \<Rightarrow> bool" where
  "less_eq_game_status s t \<longleftrightarrow> gameStatus_value s \<le> gameStatus_value t"

definition less_game_status :: "game_status \<Rightarrow> game_status \<Rightarrow> bool" where
  "less_game_status s t \<longleftrightarrow> gameStatus_value s < gameStatus_value t"

instance
  by standard (auto simp: less_eq_game_status_def less_game_status_def)

end

definition status_message :: "(game_status, string) rbt" where
  "status_message = RBT.bulkload [(Idle, ''Idle''), (Ready, ''Waiting for Player''), (Active, ''Active''),
     (Done, ''Game Finished'')]"

definition setGameStateText :: "'s session \<Rightarrow> game_widget \<Rightarrow> game_widget option" where
  "setGameStateText s w =
     map_option (\<lambda>text. w\<lparr>gw_statusLabel := text\<rparr>) (RBT.lookup status_message (session_status s))"

definition game_widget_new :: "'s session \<Rightarrow> game_widget option" where
  "game_widget_new s = setGameStateText s (setCurrentPlayerText s game_widget_blank)"

definition chat_line :: "session_chat \<Rightarrow> string" where
  "chat_line e = player_name (sc_player e) @ '': '' @ sc_message e"

definition appendChatMessages :: "'s session \<Rightarrow> game_widget \<Rightarrow> game_widget" where
  "appendChatMessages s w =
     foldl (\<lambda>w e. w\<lparr>gw_lastChatMessageId := sc_messageId e, gw_chatList := gw_chatList w @ [chat_line e]\<rparr>) w
       (getChatSince s (gw_lastChatMessageId w))"

text \<open>\<open>trim\<close> is \<open>QString::trimmed\<close>; the result says what is sent and whether the input is cleared.\<close>

definition onSendChat :: "(string \<Rightarrow> string) \<Rightarrow> string \<Rightarrow> client_event option \<times> bool" where
  "onSendChat trim input =
     (let text = trim input in if text = [] then (None, False) else (Some (ClientChat text), True))"

definition onPassClicked :: client_event where "onPassClicked = ClientPass"

definition onResignClicked :: client_event where "onResignClicked = ClientResign"

subsection \<open>The main window\<close>

definition hostDialog_boardSize :: "bool \<Rightarrow> bool \<Rightarrow> nat" where
  "hostDialog_boardSize btn9 btn19 = (if btn9 then 9 else if btn19 then 19 else 13)"

definition openConnectDialog :: "bool \<Rightarrow> string \<Rightarrow> session_op option" where
  "openConnectDialog accepted ip = (if accepted then Some (OpConnect ip) else None)"

definition openHostDialog :: "bool \<Rightarrow> bool \<Rightarrow> bool \<Rightarrow> session_op option" where
  "openHostDialog accepted btn9 btn19 =
     (if accepted then Some (OpHost (hostDialog_boardSize btn9 btn19)) else None)"

definition closeEvent :: session_op where "closeEvent = OpShutdown"

subsection \<open>What the window shows\<close>

text \<open>Every status has its text, and a hosted game is one of the sizes that a game can have.\<close>

lemma setGameStateText_total: "setGameStateText s w \<noteq> None"
  by (cases "session_status s") (simp_all add: setGameStateText_def status_message_def lookup_bulkload)

lemma append_entries:
  "foldl (\<lambda>w e. w\<lparr>gw_lastChatMessageId := sc_messageId e, gw_chatList := gw_chatList w @ [chat_line e]\<rparr>) w es =
    w\<lparr>gw_lastChatMessageId := (if es = [] then gw_lastChatMessageId w else sc_messageId (last es)),
      gw_chatList := gw_chatList w @ map chat_line es\<rparr>"
  by (induction es arbitrary: w) auto

text \<open>A window that shows the first messages shows all of them afterwards, each once and in order.\<close>

lemma chat_list_follows:
  assumes "numbered s" "length (ss_chatHistory s) < 2 ^ 32"
    and "gw_lastChatMessageId w = of_nat k" "k \<le> length (ss_chatHistory s)"
    and "gw_chatList w = map chat_line (take k (ss_chatHistory s))"
  shows "gw_chatList (appendChatMessages s w) = map chat_line (ss_chatHistory s)"
    "gw_lastChatMessageId (appendChatMessages s w) = of_nat (length (ss_chatHistory s))"
proof -
  let ?h = "ss_chatHistory s"
  have e: "getChatSince s (gw_lastChatMessageId w) = drop k ?h"
    using getChatSince_drops [OF assms(1,2)] assms(2-4) unat_of_nat_u32 [of k] by simp
  then show "gw_chatList (appendChatMessages s w) = map chat_line ?h"
    using assms(5) by (simp add: appendChatMessages_def append_entries flip: map_append)
  show "gw_lastChatMessageId (appendChatMessages s w) = of_nat (length ?h)"
  proof (cases "k = length ?h")
    case False
    then have "?h \<noteq> []" "last (drop k ?h) = ?h ! (length ?h - 1)" using assms(4) by (auto simp: last_conv_nth)
    then have "Suc (length ?h - 1) = length ?h" by (cases ?h) simp_all
    moreover have "sc_messageId (?h ! (length ?h - 1)) = of_nat (Suc (length ?h - 1))"
    proof -
      have "\<forall>i < length ?h. sc_messageId (?h ! i) = of_nat (Suc i)" using assms(1) unfolding numbered_def by blast
      then show ?thesis using \<open>?h \<noteq> []\<close> by (metis \<open>Suc (length ?h - 1) = length ?h\<close> lessI)
    qed
    ultimately have "sc_messageId (last (drop k ?h)) = of_nat (length ?h)"
      using \<open>last (drop k ?h) = _\<close> by (simp only:)
    with False assms(4) show ?thesis by (simp add: appendChatMessages_def append_entries e)
  qed (use e assms(3) in \<open>simp add: appendChatMessages_def append_entries\<close>)
qed

text \<open>The number of the last message shown is never reset: in a new session nothing is shown until there are
  more messages than in the one before.\<close>

lemma stale_chat_hidden:
  assumes "numbered s" "length (ss_chatHistory s) \<le> unat (gw_lastChatMessageId w)"
  shows "appendChatMessages s w = w"
proof -
  have "length (ss_chatHistory s) < 2 ^ 32"
    using assms(2) unsigned_less [of "gw_lastChatMessageId w", where 'a = nat]
    by (simp add: order.strict_trans1)
  from getChatSince_drops [OF assms(1) this] assms(2) show ?thesis by (simp add: appendChatMessages_def)
qed

end
