(* ===== verification/Sgf.thy ===== *)
theory Sgf imports Board_Model begin

text \<open>
  \<open>src/game/core/sgfHandler.cpp\<close>: coordinates as two letters. A \<open>char\<close> is signed, as on the platforms
  the program is built for; indexing a \<open>std::string\<close> one past its end reads the terminating zero, further
  out is undefined (\<open>None\<close>).
\<close>

definition string_at :: "string \<Rightarrow> nat \<Rightarrow> char option" where
  "string_at s i = (if i < length s then Some (s ! i) else if i = length s then Some (char_of (0::nat)) else None)"

text \<open>The integer promotion of a signed \<open>char\<close>.\<close>

definition char_int :: "char \<Rightarrow> int" where
  "char_int c = (if of_char c < (128::int) then of_char c else of_char c - 256)"

definition fromSGF :: "string \<Rightarrow> coord option" where
  "fromSGF s = do {
     a \<leftarrow> string_at s 0;
     b \<leftarrow> string_at s 1;
     Some (Coord (of_int (char_int a - 97)) (of_int (char_int b - 97)))
   }"

definition toSGF :: "coord \<Rightarrow> string" where
  "toSGF c = [char_of (unat (97 + coord_x c)), char_of (unat (97 + coord_y c))]"

text \<open>The letter \<open>'a'\<close> is 97.\<close>

lemma char_int_a: "char_int CHR ''a'' = 97"
  by (simp add: char_int_def)

lemma letter_roundtrip:
  fixes w :: u32
  assumes "unat w < 31"
  shows "of_int (char_int (char_of (unat (97 + w))) - 97) = w"
proof -
  have "unat (97 + w) = 97 + unat w" using assms by (simp add: unat_word_ariths)
  moreover have "(of_char (char_of (97 + unat w) :: char) :: nat) = 97 + unat w" using assms by simp
  then have "of_char (char_of (97 + unat w) :: char) = 97 + int (unat w)"
    using of_nat_of_char [of "char_of (97 + unat w)", where 'a = int] by simp
  moreover have "int (unat w) < 31" using assms by linarith
  ultimately have "char_int (char_of (unat (97 + w))) = 97 + int (unat w)"
    by (simp add: char_int_def)
  then show ?thesis by simp
qed

lemma char_back: "char_of (unat (97 + (of_int (char_int c - 97) :: u32))) = c"
proof -
  have k: "0 \<le> (of_char c :: int)" "(of_char c :: int) < 256"
    using nat_of_char_less_256 [of c] of_nat_of_char [of c, where 'a = int] by linarith+
  have "97 + (of_int (char_int c - 97) :: u32) = of_int (char_int c)" by simp
  then have "int (unat (97 + (of_int (char_int c - 97) :: u32))) = char_int c mod 2 ^ 32"
    by (simp add: uint_word_of_int flip: uint_nat)
  then have "int (unat (97 + (of_int (char_int c - 97) :: u32)) mod 256) = char_int c mod 2 ^ 32 mod 256"
    by (simp add: zmod_int)
  also have "\<dots> = char_int c mod 256" by (rule mod_mod_cancel) simp
  also have "\<dots> = of_char c" using k by (auto simp: char_int_def)
  finally have "unat (97 + (of_int (char_int c - 97) :: u32)) mod 256 = of_char c"
    by (metis of_nat_eq_iff of_nat_of_char)
  then show ?thesis by (metis char_of_mod_256 char_of_char)
qed

lemma fromSGF_toSGF: "unat (coord_x c) < 31 \<Longrightarrow> unat (coord_y c) < 31 \<Longrightarrow> fromSGF (toSGF c) = Some c"
  by (simp add: fromSGF_def toSGF_def string_at_def letter_roundtrip del: of_int_diff)

lemma toSGF_fromSGF: "map_option toSGF (fromSGF [a, b]) = Some [a, b]"
  by (simp add: fromSGF_def toSGF_def string_at_def char_back del: of_int_diff)

end
