(* ===== verification/Game_Terminal.thy ===== *)
theory Game_Terminal imports Sgf begin

text \<open>
  \<open>src/apps/gameTerminal/main.cpp\<close>: the board on the terminal. The input is the list of the words typed so
  far, none of them empty, and whether it has ended there. A reading operation gives \<open>None\<close> where the program
  has no defined result (undefined behaviour, or a recursion without end) and \<open>Some None\<close> where it waits for
  more. \<open>int\<close> and \<open>std::size_t\<close> are mixed in its comparisons, which are written out: an \<open>int\<close> is converted to
  64 bits without sign.
\<close>

definition terminal_size :: u64 where "terminal_size = 9"

text \<open>
  \<open>std::tolower\<close> in the standard locale is defined on the values of an \<open>unsigned char\<close> and on \<open>EOF\<close>, which is -1;
  any other argument is undefined behaviour. \<open>std::stoi\<close>: \<open>None\<close> is an exception.
\<close>

definition tolower :: "int \<Rightarrow> int option" where
  "tolower c = (if c < -1 \<or> 255 < c then None else Some (if 65 \<le> c \<and> c \<le> 90 then c + 32 else c))"

definition is_space :: "char \<Rightarrow> bool" where
  "is_space c \<longleftrightarrow> of_char c = (32::nat) \<or> 9 \<le> (of_char c :: nat) \<and> (of_char c :: nat) \<le> 13"

definition is_digit :: "char \<Rightarrow> bool" where
  "is_digit c \<longleftrightarrow> 48 \<le> (of_char c :: nat) \<and> (of_char c :: nat) \<le> 57"

definition digits_value :: "string \<Rightarrow> int" where
  "digits_value ds = foldl (\<lambda>n c. n * 10 + (of_char c - 48)) 0 ds"

definition stoi :: "string \<Rightarrow> int option" where
  "stoi s =
     (let s1 = dropWhile is_space s;
          negative = (s1 \<noteq> [] \<and> hd s1 = CHR ''-'');
          s2 = (if s1 \<noteq> [] \<and> (hd s1 = CHR ''-'' \<or> hd s1 = CHR ''+'') then tl s1 else s1);
          ds = takeWhile is_digit s2;
          v = (if negative then - digits_value ds else digits_value ds)
      in if ds = [] then None else if - (2 ^ 31) \<le> v \<and> v < 2 ^ 31 then Some v else None)"

text \<open>The character is a \<open>char\<close>, which has a sign: a byte from 128 on is a negative number.\<close>

definition moveToId :: "string \<Rightarrow> u64 option option" where
  "moveToId move = do {
     lower \<leftarrow> tolower (case string_at move 0 of None \<Rightarrow> 0 | Some c \<Rightarrow> char_int c);
     let horizontal = lower - 97;
     Some (if (of_int horizontal :: u64) > terminal_size - 1 \<or> horizontal < 0 then None
         else case stoi (drop 1 move) of
                None \<Rightarrow> None
              | Some n \<Rightarrow>
                  (let vertical = sint (ucast (terminal_size - of_int n) :: 32 word)
                   in if (of_int vertical :: u64) > terminal_size \<or> vertical < 0 then None
                      else Some (of_int vertical * terminal_size + of_int horizontal)))
   }"

text \<open>When the input has ended, the stream leaves the word empty, which is refused, again and again.\<close>

fun terminal_input :: "bool \<Rightarrow> string list \<Rightarrow> (u64 \<times> string list) option option" where
  "terminal_input ended [] = (if ended then None else Some None)"
| "terminal_input ended (t # ts) =
     (case moveToId t of
        None \<Rightarrow> None
      | Some None \<Rightarrow> terminal_input ended ts
      | Some (Some i) \<Rightarrow> Some (Some (i, ts)))"

definition terminal_isValidMove :: "u64 \<Rightarrow> bool" where
  "terminal_isValidMove moveId \<longleftrightarrow> \<not> moveId \<ge> terminal_size * terminal_size"

lemma terminal_input_shorter: "terminal_input ended ts = Some (Some (i, rest)) \<Longrightarrow> length rest < length ts"
  by (induction ts) (auto split: option.splits if_splits)

function getMove :: "bool \<Rightarrow> string list \<Rightarrow> (u64 \<times> string list) option option" where
  "getMove ended ts =
     (case terminal_input ended ts of
        None \<Rightarrow> None
      | Some None \<Rightarrow> Some None
      | Some (Some (i, rest)) \<Rightarrow> if terminal_isValidMove i then Some (Some (i, rest)) else getMove ended rest)"
  by pat_completeness auto
termination by (relation "measure (\<lambda>(ended, ts). length ts)") (auto dest: terminal_input_shorter)

declare getMove.simps [simp del]

lemma getMove_shorter: "getMove ended ts = Some (Some (i, rest)) \<Longrightarrow> length rest < length ts"
proof (induction ended ts rule: getMove.induct)
  case (1 ended ts)
  then show ?case
    by (subst (asm) (2) getMove.simps) (fastforce dest: terminal_input_shorter split: option.splits if_splits)
qed

text \<open>
  \<open>play\<close>: the moves on the words read so far; the board has 1 for a black stone and -1 for a white one.
  \<open>None\<close> is also a write past the end of the array. The loop never ends: \<open>end\<close> is never set.
\<close>

function terminal_play :: "bool \<Rightarrow> string list \<Rightarrow> int list \<times> bool \<Rightarrow> (int list \<times> bool) option" where
  "terminal_play ended ts (b, turnBlack) =
     (case getMove ended ts of
        None \<Rightarrow> None
      | Some None \<Rightarrow> Some (b, turnBlack)
      | Some (Some (i, rest)) \<Rightarrow>
          (case vec_set b (unat i) (if turnBlack then 1 else -1) of
             None \<Rightarrow> None
           | Some b' \<Rightarrow> terminal_play ended rest (b', \<not> turnBlack)))"
  by pat_completeness auto
termination by (relation "measure (\<lambda>(ended, ts, st). length ts)") (auto dest: getMove_shorter)

declare terminal_play.simps [simp del]

definition terminal_new :: "int list \<times> bool" where
  "terminal_new = (replicate 81 0, True)"

text \<open>The text of a board, without the sequence that clears the screen.\<close>

definition symbol :: "int \<Rightarrow> char" where
  "symbol v = (if v = 1 then CHR ''x'' else if v = -1 then CHR ''o'' else CHR '' '')"

definition drawBoard :: "int list \<Rightarrow> string" where
  "drawBoard b =
     ''   '' @ concat (map (\<lambda>i. [char_of (97 + i :: nat), CHR '' '']) [0..<9]) @ [char_of (10::nat)] @
     concat (map (\<lambda>i. (if i mod 9 = 0 then [char_of (10::nat), char_of (48 + (9 - i div 9))] @ ''  '' else []) @
                     [symbol (b ! i), CHR '' '']) [0..<81]) @ [char_of (10::nat)]"

subsection \<open>Moves on the terminal\<close>

text \<open>A word that is accepted means a column of the board, and a row from 0 to 9 (row 0 is below the board).\<close>

lemma word_le_small:
  assumes "0 \<le> x" "x < 2 ^ 63"
  shows "(of_int x :: u64) \<le> 8 \<longleftrightarrow> x \<le> 8" "(of_int x :: u64) \<le> 9 \<longleftrightarrow> x \<le> 9"
  using assms by (simp_all add: word_le_def unsigned_of_int take_bit_int_eq_self)

lemma moveToId_range:
  assumes "moveToId s = Some (Some i)"
  obtains h v where "i = of_nat (v * 9 + h)" "h < 9" "v \<le> 9"
proof -
  let ?c = "case string_at s 0 of None \<Rightarrow> 0 | Some c \<Rightarrow> char_int c"
  from assms obtain l where l: "tolower ?c = Some l" by (auto simp: moveToId_def bind_eq_Some_conv)
  let ?h = "l - 97"
  from assms l obtain n where
      h: "\<not> (of_int ?h :: u64) > terminal_size - 1" "\<not> ?h < 0"
    and v: "\<not> (of_int (sint (ucast (terminal_size - of_int n) :: 32 word)) :: u64) > terminal_size"
      "\<not> sint (ucast (terminal_size - of_int n :: u64) :: 32 word) < 0"
    and i: "i = of_int (sint (ucast (terminal_size - of_int n :: u64) :: 32 word)) * terminal_size + of_int ?h"
    by (auto simp: moveToId_def Let_def split: if_splits option.splits)
  let ?v = "sint (ucast (terminal_size - of_int n :: u64) :: 32 word)"
  have "?h < 2 ^ 63" using l by (auto simp: tolower_def split: if_splits)
  moreover have "(of_int ?h :: u64) \<le> 8" using h(1) by (simp add: terminal_size_def not_less)
  ultimately have h9: "?h < 9" using h(2) iffD1 [OF word_le_small(1) [of ?h]] by linarith
  have "?v < 2 ^ 63" by (rule order.strict_trans [OF sint_lt]) simp
  moreover have "(of_int ?v :: u64) \<le> 9" using v(1) by (simp add: terminal_size_def not_less)
  ultimately have v9: "?v \<le> 9" using v(2)
    by (intro iffD1 [OF word_le_small(2)]) (assumption | linarith)+
  have "i = of_nat (nat ?v * 9 + nat ?h)" using i h(2) v(2) by (simp add: terminal_size_def)
  with h9 v9 show thesis by (intro that [of "nat ?v" "nat ?h"]) auto
qed

text \<open>The words that \<open>std::tolower\<close> is not defined on: the first byte is from 128 to 254.\<close>

definition undefined_word :: "string \<Rightarrow> bool" where
  "undefined_word t \<longleftrightarrow> (\<exists>c cs. t = c # cs \<and> 128 \<le> (of_char c :: int) \<and> (of_char c :: int) < 255)"

lemma moveToId_defined: "moveToId t = None \<longleftrightarrow> undefined_word t"
proof -
  have b: "0 \<le> (of_char c :: int)" "(of_char c :: int) < 256" for c
    using of_char_mod_256 [of c, where 'a = int] pos_mod_bound [of 256 "of_char c :: int"]
      pos_mod_sign [of 256 "of_char c :: int"] by simp_all
  have z: "of_char (char_of (0::nat)) = (0 :: int)" by (simp add: char_of_def)
  show ?thesis
  proof (cases t)
    case Nil
    then show ?thesis by (simp add: moveToId_def tolower_def string_at_def undefined_word_def char_int_def z Let_def)
  next
    case (Cons c cs)
    then show ?thesis using b [of c]
      by (auto simp: moveToId_def tolower_def string_at_def undefined_word_def char_int_def Let_def)
  qed
qed

text \<open>What an operation reads: the words \<open>ts\<close> up to \<open>rest\<close>, all of them defined.\<close>

lemma terminal_input_reads:
  "case terminal_input ended ts of
     None \<Rightarrow> ended \<or> (\<exists>t \<in> set ts. undefined_word t)
   | Some None \<Rightarrow> \<not> ended \<and> (\<forall>t \<in> set ts. \<not> undefined_word t)
   | Some (Some (i, rest)) \<Rightarrow> \<exists>read. ts = read @ rest \<and> (\<forall>t \<in> set read. \<not> undefined_word t)"
proof (induction ts)
  case (Cons t ts)
  show ?case
  proof (cases "moveToId t")
    case None
    then show ?thesis using moveToId_defined [of t] by simp
  next
    case (Some r)
    then have t: "\<not> undefined_word t" using moveToId_defined [of t] by simp
    have cons: "\<exists>read. t # ts = read @ rest \<and> (\<forall>t \<in> set read. \<not> undefined_word t)"
      if "ts = read @ rest" "\<forall>t \<in> set read. \<not> undefined_word t" for read rest
      using that t by (intro exI [of _ "t # read"]) simp
    from Cons Some t show ?thesis
      by (cases r) (auto split: option.splits intro: cons [of "[]", simplified] dest!: cons)
  qed
qed simp

lemma getMove_reads:
  "case getMove ended ts of
     None \<Rightarrow> ended \<or> (\<exists>t \<in> set ts. undefined_word t)
   | Some None \<Rightarrow> \<not> ended \<and> (\<forall>t \<in> set ts. \<not> undefined_word t)
   | Some (Some (i, rest)) \<Rightarrow> unat i < 81 \<and> (\<exists>read. ts = read @ rest \<and> (\<forall>t \<in> set read. \<not> undefined_word t))"
proof (induction ended ts rule: getMove.induct)
  case (1 ended ts)
  note r = terminal_input_reads [of ended ts]
  consider "terminal_input ended ts = None" | "terminal_input ended ts = Some None"
    | i rest where "terminal_input ended ts = Some (Some (i, rest))"
    by (metis not_None_eq surj_pair)
  then show ?case
  proof cases
    case (3 i rest)
    from r 3 obtain read where read: "ts = read @ rest" "\<forall>t \<in> set read. \<not> undefined_word t" by auto
    show ?thesis
    proof (cases "terminal_isValidMove i")
      case True
      with 3 have "getMove ended ts = Some (Some (i, rest))" by (subst getMove.simps) simp
      moreover from True have "unat i < 81"
        by (simp add: terminal_isValidMove_def terminal_size_def word_le_nat_alt not_le)
      ultimately show ?thesis using read by auto
    next
      case False
      with 3 have "getMove ended ts = getMove ended rest" by (subst getMove.simps) simp
      moreover have "\<exists>read. ts = read @ xs \<and> (\<forall>t \<in> set read. \<not> undefined_word t)"
        if "rest = read' @ xs" "\<forall>t \<in> set read'. \<not> undefined_word t" for read' xs
        using that read by (intro exI [of _ "read @ read'"]) auto
      ultimately show ?thesis using "1.IH" [OF 3 refl refl False] read
        by (auto split: option.splits)
    qed
  qed (use r in \<open>subst getMove.simps, simp\<close>)+
qed

text \<open>The board keeps its squares and its values: no square outside it is written.\<close>

definition terminal_ok :: "int list \<times> bool \<Rightarrow> bool" where
  "terminal_ok st \<longleftrightarrow> length (fst st) = 81 \<and> set (fst st) \<subseteq> {-1, 0, 1}"

lemma terminal_play_ok:
  "terminal_ok st \<Longrightarrow> case terminal_play ended ts st of
     None \<Rightarrow> ended \<or> (\<exists>t \<in> set ts. undefined_word t)
   | Some st' \<Rightarrow> \<not> ended \<and> (\<forall>t \<in> set ts. \<not> undefined_word t) \<and> terminal_ok st'"
proof (induction ended ts st rule: terminal_play.induct)
  case (1 ended ts b turnBlack)
  note r = getMove_reads [of ended ts]
  consider "getMove ended ts = None" | "getMove ended ts = Some None"
    | i rest where "getMove ended ts = Some (Some (i, rest))"
    by (metis not_None_eq surj_pair)
  then show ?case
  proof cases
    case (3 i rest)
    let ?b = "b[unat i := (if turnBlack then 1 else -1)]"
    from r 3 obtain read where read: "unat i < 81" "ts = read @ rest" "\<forall>t \<in> set read. \<not> undefined_word t" by auto
    then have b: "vec_set b (unat i) (if turnBlack then 1 else -1) = Some ?b"
      using "1.prems" by (simp add: terminal_ok_def)
    have "terminal_ok (?b, \<not> turnBlack)" using "1.prems" set_update_subset_insert [of b "unat i"]
      by (auto simp: terminal_ok_def)
    note IH = "1.IH" [OF 3 refl refl b this]
    have "terminal_play ended ts (b, turnBlack) = terminal_play ended rest (?b, \<not> turnBlack)"
      using 3 b by (subst terminal_play.simps) simp
    then show ?thesis using IH read(2,3) by (cases "terminal_play ended rest (?b, \<not> turnBlack)") auto
  qed (use r "1.prems" in \<open>subst terminal_play.simps, simp\<close>)+
qed

text \<open>What \<open>main\<close> does with the option that is typed first.\<close>

datatype terminal_mode = Play | Review | Invalid_selection

definition terminal_main :: "char \<Rightarrow> terminal_mode" where
  "terminal_main option =
     (if option = CHR ''p'' \<or> option = CHR ''P'' then Play
      else if option = CHR ''r'' \<or> option = CHR ''R'' then Review else Invalid_selection)"

end
