(* ===== verification/View_Properties.thy ===== *)
theory View_Properties imports Game_View Game_Terminal begin

text \<open>
  What the user sees and does: stones and clicks in the window, the list of chat messages, and the board on the
  terminal.
\<close>

subsection \<open>The window\<close>

text \<open>The widget after a change of its size and a repaint has the measures of its size and of the board shown.\<close>

lemma nodes_after [simp]:
  "br_nodes (setBoardSizePx scale px r) = br_nodes r" "br_nodes (setNodes scale k r) = k"
  by (simp_all add: setBoardSizePx_def setNodes_def Let_def updateMetrics_def)

lemma setBoardSizePx_eq:
  assumes "px \<noteq> 0" "br_nodes r \<noteq> 0"
  shows "\<exists>r1. setBoardSizePx scale px r = updateStoneTextures scale (updateMetrics px r1) \<and> br_nodes r1 = br_nodes r"
  using assms by (intro exI [of _ "r\<lparr>br_boardSizePxRequested := px\<rparr>"]) (simp add: setBoardSizePx_def Let_def)

lemma repainted_renderer:
  assumes "renderBoard scale w h b (resizeEvent scale w h r0) = (r, Some (offset, paints))"
    and "0 < br_nodes r0" "0 < m_size b" "m_size b < 2 ^ 32"
  shows "\<exists>r1. r = updateStoneTextures scale (updateMetrics (boardPixelSize w h) r1) \<and> br_nodes r1 = of_nat (m_size b)"
    "offset = boardOffset w h (boardPixelSize w h)" "paints = FillWidget w h # draw_board r b" "boardPixelSize w h \<noteq> 0"
proof -
  let ?n = "of_nat (m_size b) :: u32" and ?px = "boardPixelSize w h"
  have n: "?n \<noteq> 0" using u32_of_nat [OF assms(4)] assms(3) by (metis unsigned_0 not_less0)
  show px: "?px \<noteq> 0" using assms(1) by (auto simp: renderBoard_def split: if_splits)
  from assms(1) px have r: "r = (if br_nodes r0 \<noteq> ?n then setBoardSizePx scale ?px (setNodes scale ?n (setBoardSizePx scale ?px r0))
      else setBoardSizePx scale ?px r0)"
    and o: "offset = boardOffset w h ?px" "paints = FillWidget w h # draw_board r b"
    by (auto simp: renderBoard_def Let_def resizeEvent_def split: if_splits)
  from o show "offset = boardOffset w h ?px" "paints = FillWidget w h # draw_board r b" by simp_all
  show "\<exists>r1. r = updateStoneTextures scale (updateMetrics ?px r1) \<and> br_nodes r1 = ?n"
  proof (cases "br_nodes r0 = ?n")
    case True
    with setBoardSizePx_eq [OF px, of r0 scale] n r show ?thesis by simp
  next
    case False
    with setBoardSizePx_eq [OF px, of "setNodes scale ?n (setBoardSizePx scale ?px r0)" scale] n r show ?thesis by simp
  qed
qed

lemma painted_stones:
  assumes "DrawImage dx dy d img \<in> set (draw_board r b)" "board_ok b"
  shows "\<exists>c s. board_get b c = Some s \<and> s \<noteq> Empty \<and> on_board (m_size b) c \<and>
    img = (if s = Black then br_scaledBlack r else br_scaledWhite r) \<and>
    DrawImage dx dy d img \<in> set (drawStone r (coord_x c) (coord_y c) s)"
proof -
  have "m_size b < 2 ^ 31" using assms(2) by (simp add: board_ok_def)
  note cs = set_all_coords [OF this]
  have "DrawImage dx dy d img \<in> set (drawStones r b)"
    using assms(1) by (auto simp: draw_board_def drawBackground_def Let_def split: if_splits)
  then obtain c where c: "on_board (m_size b) c" "DrawImage dx dy d img \<in> set (case board_get b c of None \<Rightarrow> []
      | Some Empty \<Rightarrow> [] | Some s \<Rightarrow> drawStone r (coord_x c) (coord_y c) s)"
    by (auto simp: drawStones_def cs)
  obtain s where "board_get b c = Some s" "s \<noteq> Empty" "DrawImage dx dy d img \<in> set (drawStone r (coord_x c) (coord_y c) s)"
  proof (cases "board_get b c")
    case (Some s)
    with c(2) that show thesis by (cases s) simp_all
  qed (use c(2) in simp)
  with c(1) obtain s where "on_board (m_size b) c" "board_get b c = Some s" "s \<noteq> Empty"
    "DrawImage dx dy d img \<in> set (drawStone r (coord_x c) (coord_y c) s)" by blast
  then show ?thesis by (auto simp: drawStone_def split: if_splits)
qed

text \<open>C28: a click in the middle of a stone means that stone. After the widget got its size and painted the board, a
  left click in the middle of any image of a stone asks for a move at exactly the point whose stone the image
  shows, in that stone's colour.\<close>

theorem click_hits_the_stone:
  assumes "renderBoard scale w h b (resizeEvent scale w h r0) = (r, Some ((ox, oy), paints))"
    and "DrawImage dx dy d img \<in> set paints" "board_ok b" "0 < br_nodes r0"
    and "m_size b \<le> unat (boardPixelSize w h)" "unat (boardPixelSize w h) < 2 ^ 24"
  shows "\<exists>c s. board_get b c = Some s \<and> s \<noteq> Empty \<and> img = (if s = Black then br_scaledBlack r else br_scaledWhite r) \<and>
    mouseReleaseEvent r w h LeftButton (ox + (dx + d div 2), oy + (dy + d div 2)) = (Some (ClientPutStone c), True)"
proof -
  let ?px = "boardPixelSize w h"
  from assms(1,2) have "paints = FillWidget w h # draw_board r b"
    by (auto simp: renderBoard_def Let_def split: if_splits)
  with painted_stones [of dx dy d img r b] assms(2,3) obtain c s where
    c: "board_get b c = Some s" "s \<noteq> Empty" "on_board (m_size b) c"
      "img = (if s = Black then br_scaledBlack r else br_scaledWhite r)"
      "DrawImage dx dy d img \<in> set (drawStone r (coord_x c) (coord_y c) s)" by auto
  have n: "m_size b < 2 ^ 32" "0 < m_size b" using assms(3) c(3) by (auto simp: board_ok_def on_board_def)
  note rr = repainted_renderer [OF assms(1,4) n(2,1)]
  then obtain r1 where r: "r = updateStoneTextures scale (updateMetrics ?px r1)" "br_nodes r1 = of_nat (m_size b)" by auto
  have u: "unat (br_nodes r1) = m_size b" using r(2) n by simp
  have a: "0 < br_nodes r1" "br_nodes r1 \<le> ?px" "coord_x c < br_nodes r1" "coord_y c < br_nodes r1"
    using u n(2) assms(5) c(3) by (simp_all add: word_less_nat_alt word_le_nat_alt on_board_def)
  note sc = stone_centre [OF a(1,2) assms(6) a(3,4) c(5) [unfolded r(1)]]
  have z: "sint ?px = int (unat ?px)" using assms(6) by (simp add: sint_nat)
  have "dx + d div 2 < sint ?px" "dy + d div 2 < sint ?px" "0 \<le> dx + d div 2" "0 \<le> dy + d div 2"
    using sc(2-6) unfolding z by linarith+
  then have "handleClick r w h (ox + (dx + d div 2), oy + (dy + d div 2)) = Some c"
    using rr(2,4) sc(1) r(1) by (simp add: handleClick_def Let_def split_beta prod_eq_iff)
  with c show ?thesis by (auto simp: mouseReleaseEvent_def)
qed

text \<open>A window with a small board of three lines, 35 pixels wide and 30 high, and two stones.\<close>

definition ex_board :: board where
  "ex_board = (board_new 3)\<lparr>m_board := (replicate 9 Empty)[4 := Black, 8 := White]\<rparr>"

definition ex_renderer :: "nat renderer" where
  "ex_renderer = renderer_new (Some 0) (Some 1) 3"

definition ex_shown :: "nat renderer" where
  "ex_shown = fst (renderBoard (\<lambda>_. Some) 35 30 ex_board (resizeEvent (\<lambda>_. Some) 35 30 ex_renderer))"

lemma ex_repaint:
  "fst (the (snd (renderBoard (\<lambda>_. Some) 35 30 ex_board (resizeEvent (\<lambda>_. Some) 35 30 ex_renderer)))) = (2, 0) \<and>
    snd (renderBoard (\<lambda>_. Some) 35 30 ex_board (resizeEvent (\<lambda>_. Some) 35 30 ex_renderer)) \<noteq> None \<and>
    DrawImage 20 20 10 (Some 1) \<in> set (snd (the (snd (renderBoard (\<lambda>_. Some) 35 30 ex_board (resizeEvent (\<lambda>_. Some) 35 30 ex_renderer))))) \<and>
    boardPixelSize 35 30 = 30"
  by code_simp

theorem click_hits_the_stone_witness:
  "\<exists>c s. board_get ex_board c = Some s \<and> s \<noteq> Empty \<and>
    mouseReleaseEvent ex_shown 35 30 LeftButton (27, 25) = (Some (ClientPutStone c), True)"
proof -
  obtain paints where "renderBoard (\<lambda>_. Some) 35 30 ex_board (resizeEvent (\<lambda>_. Some) 35 30 ex_renderer) =
      (ex_shown, Some ((2, 0), paints))" "DrawImage 20 20 10 (Some 1) \<in> set paints"
    using ex_repaint by (auto simp: ex_shown_def prod_eq_iff)
  moreover have "board_ok ex_board" "0 < br_nodes ex_renderer" "m_size ex_board = 3"
    by (simp_all add: board_ok_def ex_board_def board_new_def ex_renderer_def renderer_new_def)
  ultimately show ?thesis
    using click_hits_the_stone [of "\<lambda>_. Some" 35 30 ex_board ex_renderer ex_shown 2 0 paints 20 20 10 "Some 1"] ex_repaint
    by auto
qed

text \<open>C29: no click means a point off the board: whatever the size of the widget and wherever the click, a move that
  is asked for lies on the board that the widget shows.\<close>

theorem clicks_stay_on_board:
  assumes "mouseReleaseEvent r w h button pos = (Some e, accepted)" "br_nodes r = of_nat (m_size b)" "m_size b < 2 ^ 24"
  shows "\<exists>c. e = ClientPutStone c \<and> on_board (m_size b) c \<and> button = LeftButton \<and> accepted"
proof -
  from assms(1) obtain c where c: "e = ClientPutStone c" "button = LeftButton" "accepted" "handleClick r w h pos = Some c"
    by (auto simp: mouseReleaseEvent_def split: if_splits)
  then obtain pX pY where "pixelToCoord r pX pY = Some c"
    by (auto simp: handleClick_def Let_def split_beta split: if_splits)
  then have xy: "pixelToCoord1 r pX = Some (coord_x c)" "pixelToCoord1 r pY = Some (coord_y c)"
    by (auto simp: pixelToCoord_def split: option.splits)
  have u: "unat (br_nodes r) = m_size b" using assms(2,3) by simp
  then have "uint (br_nodes r) < 2 ^ 24" using assms(3) by (metis of_nat_less_iff of_nat_numeral of_nat_power uint_nat)
  note b = pixelToCoord1_bound [OF xy(1) this] pixelToCoord1_bound [OF xy(2) this]
  with c u show ?thesis by (simp add: on_board_def word_less_nat_alt)
qed

theorem clicks_stay_on_board_witness:
  "\<exists>c. mouseReleaseEvent ex_shown 35 30 LeftButton (27, 25) = (Some (ClientPutStone c), True) \<and> on_board 3 c"
proof -
  have "mouseReleaseEvent ex_shown 35 30 LeftButton (27, 25) = (Some (ClientPutStone (Coord 2 2)), True) \<and>
      br_nodes ex_shown = of_nat (m_size ex_board) \<and> m_size ex_board = 3" by code_simp
  then show ?thesis using clicks_stay_on_board [of ex_shown 35 30 LeftButton "(27, 25)" _ _ ex_board] by fastforce
qed

text \<open>The list of messages in the window follows the session: after every signal of a new message, the window
  that showed the first \<open>k\<close> messages of the session shows them all, each once, in order, and remembers the
  number of the last.\<close>

theorem chat_list_follows_session:
  assumes "numbered s" "length (ss_chatHistory s) < 2 ^ 32"
    and "gw_lastChatMessageId w = of_nat k" "k \<le> length (ss_chatHistory s)"
    and "gw_chatList w = map chat_line (take k (ss_chatHistory s))"
  shows "gw_chatList (appendChatMessages s w) = map chat_line (ss_chatHistory s) \<and>
    gw_lastChatMessageId (appendChatMessages s w) = of_nat (length (ss_chatHistory s))"
  using chat_list_follows [OF assms] by simp

definition ex_chatting :: "unit session" where
  "ex_chatting = (session_new ())\<lparr>ss_chatHistory := [\<lparr>sc_player = PBlack, sc_messageId = 1, sc_message = ''hi''\<rparr>,
     \<lparr>sc_player = PWhite, sc_messageId = 2, sc_message = ''you''\<rparr>], ss_expectedMessageId := 3\<rparr>"

theorem chat_list_follows_session_witness:
  "gw_chatList (appendChatMessages ex_chatting game_widget_blank) = [''Black: hi'', ''White: you'']"
proof -
  have "numbered ex_chatting"
    by (auto simp: numbered_def ex_chatting_def session_new_def less_Suc_eq)
  from chat_list_follows_session [OF this, of game_widget_blank 0] show ?thesis
    by (simp add: ex_chatting_def game_widget_blank_def chat_line_def player_name_def)
qed

subsection \<open>The terminal\<close>

text \<open>C30: on the words typed so far, the terminal program is without a defined result exactly when the input has
  ended, or the first byte of a word is from 128 to 254, which \<open>std::tolower\<close> is not defined on; otherwise it has
  not written outside its board, and the board has its squares and their three values.\<close>

theorem terminal_board_ok:
  "case terminal_play ended ts terminal_new of
     None \<Rightarrow> ended \<or> (\<exists>t \<in> set ts. undefined_word t)
   | Some st \<Rightarrow> \<not> ended \<and> (\<forall>t \<in> set ts. \<not> undefined_word t) \<and>
       length (fst st) = 81 \<and> set (fst st) \<subseteq> {-1, 0, 1}"
  using terminal_play_ok [of terminal_new ended ts] by (auto simp: terminal_ok_def terminal_new_def split: option.splits)

theorem terminal_board_ok_witness:
  "(\<exists>st. terminal_play False [''z1'', ''A10'', ''c9''] terminal_new = Some st \<and> length (fst st) = 81) \<and>
   terminal_play False [[CHR 0xC3, CHR 0xA4, CHR ''1'']] terminal_new = None"
proof -
  have d: "\<not> undefined_word ''z1''" "\<not> undefined_word ''A10''" "\<not> undefined_word ''c9''"
    "undefined_word [CHR 0xC3, CHR 0xA4, CHR ''1'']" by (simp_all add: undefined_word_def)
  from d terminal_board_ok [of False "[''z1'', ''A10'', ''c9'']"]
    terminal_board_ok [of False "[[CHR 0xC3, CHR 0xA4, CHR ''1'']]"] show ?thesis
    by (auto split: option.splits)
qed

end
