(* ===== verification/Doubles.thy ===== *)
theory Doubles imports Floats Prelude begin

text \<open>
  The \<open>double\<close> of the program with infinities and NaN, its conversions to \<open>int\<close>, and the functions of the
  standard library on it. A conversion of a value that the integer type cannot hold is undefined: \<open>None\<close>.
  Only the trigonometric functions, whose rounding no standard fixes, stay parameters.
\<close>

datatype double = Fin rat | PInf | MInf | NaN

definition round64 :: "rat \<Rightarrow> double" where
  "round64 x = (let y = fl64 x in if 2 ^ 1024 \<le> y then PInf else if y \<le> - (2 ^ 1024) then MInf else Fin y)"

text \<open>A literal, and \<open>static_cast<double>\<close> of an integer.\<close>

definition lit :: "rat \<Rightarrow> double" where "lit x = round64 x"

definition d_int :: "int \<Rightarrow> double" where "d_int n = round64 (of_int n)"

fun d_neg :: "double \<Rightarrow> double" where
  "d_neg (Fin x) = Fin (- x)"
| "d_neg PInf = MInf"
| "d_neg MInf = PInf"
| "d_neg NaN = NaN"

fun d_add :: "double \<Rightarrow> double \<Rightarrow> double" where
  "d_add (Fin x) (Fin y) = round64 (x + y)"
| "d_add NaN y = NaN"
| "d_add x NaN = NaN"
| "d_add PInf MInf = NaN"
| "d_add MInf PInf = NaN"
| "d_add PInf y = PInf"
| "d_add MInf y = MInf"
| "d_add x y = y"

definition d_sub :: "double \<Rightarrow> double \<Rightarrow> double" where "d_sub x y = d_add x (d_neg y)"

definition d_signed :: "rat \<Rightarrow> double \<Rightarrow> double" where
  "d_signed s x = (if s = 0 then NaN else if 0 < s then x else d_neg x)"

fun d_mul :: "double \<Rightarrow> double \<Rightarrow> double" where
  "d_mul (Fin x) (Fin y) = round64 (x * y)"
| "d_mul NaN y = NaN"
| "d_mul x NaN = NaN"
| "d_mul (Fin x) y = d_signed x y"
| "d_mul x (Fin y) = d_signed y x"
| "d_mul x y = (if x = y then PInf else MInf)"

fun d_div :: "double \<Rightarrow> double \<Rightarrow> double" where
  "d_div (Fin x) (Fin y) = (if y = 0 then d_signed x PInf else round64 (x / y))"
| "d_div NaN y = NaN"
| "d_div x NaN = NaN"
| "d_div (Fin x) y = Fin 0"
| "d_div x (Fin y) = (if 0 \<le> y then x else d_neg x)"
| "d_div x y = NaN"

fun d_less :: "double \<Rightarrow> double \<Rightarrow> bool" where
  "d_less (Fin x) (Fin y) \<longleftrightarrow> x < y"
| "d_less (Fin x) PInf \<longleftrightarrow> True"
| "d_less MInf (Fin y) \<longleftrightarrow> True"
| "d_less MInf PInf \<longleftrightarrow> True"
| "d_less x y \<longleftrightarrow> False"

definition d_le :: "double \<Rightarrow> double \<Rightarrow> bool" where
  "d_le x y \<longleftrightarrow> d_less x y \<or> x = y \<and> x \<noteq> NaN"

definition d_abs :: "double \<Rightarrow> double" where "d_abs x = (if d_less x (Fin 0) then d_neg x else x)"

definition isfinite :: "double \<Rightarrow> bool" where
  "isfinite x = (case x of Fin y \<Rightarrow> True | _ \<Rightarrow> False)"

subsection \<open>The standard library\<close>

fun isqrt :: "nat \<Rightarrow> nat" where
  "isqrt n = (if n = 0 then 0 else let r = 2 * isqrt (n div 4) in if (r + 1) * (r + 1) \<le> n then r + 1 else r)"

declare isqrt.simps [simp del]

text \<open>The square root, correctly rounded; no value with 53 bits has a root half way between two of them.\<close>

definition fl64_sqrt :: "rat \<Rightarrow> rat" where
  "fl64_sqrt x =
     (let u = pow2 (ilog2 x div 2 - 52); y = x / (u * u); q = int (isqrt (nat \<lfloor>y\<rfloor>))
      in of_int (if (of_int q + 1 / 2) * (of_int q + 1 / 2) < y then q + 1 else q) * u)"

fun d_sqrt :: "double \<Rightarrow> double" where
  "d_sqrt (Fin x) = (if x < 0 then NaN else if x = 0 then Fin 0 else Fin (fl64_sqrt x))"
| "d_sqrt PInf = PInf"
| "d_sqrt MInf = NaN"
| "d_sqrt NaN = NaN"

fun d_floor :: "double \<Rightarrow> double" where
  "d_floor (Fin x) = Fin (of_int \<lfloor>x\<rfloor>)"
| "d_floor x = x"

fun d_ceil :: "double \<Rightarrow> double" where
  "d_ceil (Fin x) = Fin (of_int \<lceil>x\<rceil>)"
| "d_ceil x = x"

definition d_trunc :: "rat \<Rightarrow> int" where
  "d_trunc x = (if 0 \<le> x then \<lfloor>x\<rfloor> else \<lceil>x\<rceil>)"

text \<open>\<open>fmod\<close> is exact.\<close>

fun d_fmod :: "double \<Rightarrow> double \<Rightarrow> double" where
  "d_fmod (Fin x) (Fin y) = (if y = 0 then NaN else Fin (x - y * of_int (d_trunc (x / y))))"
| "d_fmod (Fin x) PInf = Fin x"
| "d_fmod (Fin x) MInf = Fin x"
| "d_fmod x y = NaN"

text \<open>\<open>nextafter(x, 0.0)\<close> of a positive number.\<close>

definition d_before :: "double \<Rightarrow> double" where
  "d_before d =
     (case d of
        Fin x \<Rightarrow> if x \<le> 0 then d
                 else Fin (x - pow2 (max (if x = pow2 (ilog2 x) then ilog2 x - 53 else ilog2 x - 52) (-1074)))
      | PInf \<Rightarrow> Fin (2 ^ 1024 - 2 ^ 971) | _ \<Rightarrow> d)"

definition d_clamp :: "double \<Rightarrow> double \<Rightarrow> double \<Rightarrow> double" where
  "d_clamp x lo hi = (if d_less x lo then lo else if d_less hi x then hi else x)"

definition d_min_element :: "double \<Rightarrow> double list \<Rightarrow> double" where
  "d_min_element x xs = foldl (\<lambda>m y. if d_less y m then y else m) x xs"

definition d_max_element :: "double \<Rightarrow> double list \<Rightarrow> double" where
  "d_max_element x xs = foldl (\<lambda>m y. if d_less m y then y else m) x xs"

definition int32_ok :: "int \<Rightarrow> bool" where "int32_ok n \<longleftrightarrow> - (2 ^ 31) \<le> n \<and> n < 2 ^ 31"

text \<open>The result of an operation on \<open>int\<close>, which must not overflow.\<close>

definition int32 :: "int \<Rightarrow> int option" where
  "int32 n = (if int32_ok n then Some n else None)"

text \<open>\<open>static_cast<int>\<close> of a \<open>double\<close>, and of the \<open>long\<close> that \<open>lround\<close> returns, which wraps.\<close>

definition d_to_int :: "double \<Rightarrow> int option" where
  "d_to_int d = (case d of Fin x \<Rightarrow> int32 (d_trunc x) | _ \<Rightarrow> None)"

definition lround_int :: "double \<Rightarrow> int option" where
  "lround_int d =
     (case d of
        Fin x \<Rightarrow> if \<bar>round_away x\<bar> < 2 ^ 63 then Some (signed_take_bit 31 (round_away x)) else None
      | _ \<Rightarrow> None)"

text \<open>The trigonometric functions of the standard library.\<close>

record libm =
  libm_sin :: "double \<Rightarrow> double"
  libm_cos :: "double \<Rightarrow> double"
  libm_atan2 :: "double \<Rightarrow> double \<Rightarrow> double"

subsection \<open>The order\<close>

lemma d_less_trans: "d_less x y \<Longrightarrow> d_less y z \<Longrightarrow> d_less x z"
  by (cases x; cases y; cases z) auto

lemma d_less_split: "d_less x z \<Longrightarrow> y \<noteq> NaN \<Longrightarrow> d_less x y \<or> d_less y z"
  by (cases x; cases y; cases z) auto

lemma d_less_not_NaN: "d_less x y \<Longrightarrow> x \<noteq> NaN \<and> y \<noteq> NaN"
  by (cases x; cases y) auto

subsection \<open>Values in range\<close>

text \<open>A finite value between two bounds.\<close>

definition d_in :: "double \<Rightarrow> rat \<Rightarrow> rat \<Rightarrow> bool" where
  "d_in d a b \<longleftrightarrow> (\<exists>x. d = Fin x \<and> a \<le> x \<and> x \<le> b)"

text \<open>Bounds that a \<open>double\<close> can have.\<close>

definition fl64_num :: "rat \<Rightarrow> bool" where
  "fl64_num x \<longleftrightarrow> fl64 x = x \<and> \<bar>x\<bar> < 2 ^ 1024"

lemma fl64_num_int: "\<bar>n\<bar> < 2 ^ 53 \<Longrightarrow> fl64_num (of_int n)"
  unfolding fl64_num_def
proof
  assume n: "\<bar>n\<bar> < 2 ^ 53"
  then show "fl64 (of_int n) = of_int n" by (rule fl64_int)
  from n have "(of_int \<bar>n\<bar> :: rat) < of_int (2 ^ 53)" by (simp only: of_int_less_iff)
  also have "\<dots> < 2 ^ 1024" by simp
  finally show "\<bar>of_int n :: rat\<bar> < 2 ^ 1024" by simp
qed

lemma fl64_num_simps [simp]: "fl64_num 0" "fl64_num 1"
  "numeral k < (2 ^ 53 :: int) \<Longrightarrow> fl64_num (numeral k)" "numeral k < (2 ^ 53 :: int) \<Longrightarrow> fl64_num (- numeral k)"
  using fl64_num_int [of 0] fl64_num_int [of 1] fl64_num_int [of "numeral k"] fl64_num_int [of "- numeral k"]
  by simp_all

lemma round64_in:
  assumes "fl64_num a" "fl64_num b" "a \<le> x" "x \<le> b"
  shows "d_in (round64 x) a b"
proof -
  have "a \<le> fl64 x" "fl64 x \<le> b" using assms by (auto simp: fl64_num_def intro: rnd_ge rnd_le)
  then show ?thesis using assms(1,2) by (auto simp: fl64_num_def round64_def d_in_def Let_def)
qed

lemma d_add_in:
  assumes "d_in x a b" "d_in y c d" "fl64_num l" "fl64_num h" "l \<le> a + c" "b + d \<le> h"
  shows "d_in (d_add x y) l h"
  using assms by (auto simp: d_in_def [of x] d_in_def [of y] intro!: round64_in)

lemma d_sub_in:
  assumes "d_in x a b" "d_in y c d" "fl64_num l" "fl64_num h" "l \<le> a - d" "b - c \<le> h"
  shows "d_in (d_sub x y) l h"
  using assms by (auto simp: d_sub_def d_in_def [of x] d_in_def [of y] intro!: round64_in)

lemma d_in_weaken: "d_in x a b \<Longrightarrow> c \<le> a \<Longrightarrow> b \<le> d \<Longrightarrow> d_in x c d"
  by (auto simp: d_in_def)

lemma d_in_finite: "d_in x a b \<Longrightarrow> isfinite x"
  by (auto simp: d_in_def isfinite_def)

lemma d_in_Fin [simp]: "d_in (Fin x) a b \<longleftrightarrow> a \<le> x \<and> x \<le> b"
  by (simp add: d_in_def)

lemma d_inE:
  assumes "d_in d a b"
  obtains x where "d = Fin x" "a \<le> x" "x \<le> b"
  using assms by (auto simp: d_in_def)

lemma fl64_num_minus: "fl64_num h \<Longrightarrow> fl64_num (- h)"
  by (simp add: fl64_num_def)

lemma d_mul_in:
  assumes "d_in x a b" "d_in y c d" "0 \<le> a" "0 \<le> c" "fl64_num l" "fl64_num h" "l \<le> a * c" "b * d \<le> h"
  shows "d_in (d_mul x y) l h"
proof -
  obtain u v where xy: "x = Fin u" "a \<le> u" "u \<le> b" "y = Fin v" "c \<le> v" "v \<le> d" using assms(1,2) by (elim d_inE)
  have "a * c \<le> u * v" "u * v \<le> b * d" using xy assms(3,4) by (auto intro!: mult_mono)
  with assms xy(1,4) show ?thesis by (auto intro!: round64_in)
qed

lemma d_mul_abs:
  assumes "d_in x (- a) a" "d_in y (- b) b" "fl64_num h" "a * b \<le> h"
  shows "d_in (d_mul x y) (- h) h"
proof -
  obtain u v where xy: "x = Fin u" "\<bar>u\<bar> \<le> a" "y = Fin v" "\<bar>v\<bar> \<le> b" using assms(1,2) by (fastforce elim!: d_inE)
  have "\<bar>u * v\<bar> \<le> a * b" unfolding abs_mult using xy by (intro mult_mono) auto
  then have "\<bar>u * v\<bar> \<le> h" using assms(4) by linarith
  with assms(3) xy(1,3) show ?thesis by (auto simp: abs_le_iff intro!: round64_in fl64_num_minus)
qed

lemma d_div_in:
  assumes "d_in x a b" "d_in y c d" "0 \<le> a" "0 < c" "fl64_num l" "fl64_num h" "l * d \<le> a" "0 \<le> l" "b \<le> h * c"
  shows "d_in (d_div x y) l h"
proof -
  obtain u v where xy: "x = Fin u" "a \<le> u" "u \<le> b" "y = Fin v" "c \<le> v" "v \<le> d" using assms(1,2) by (elim d_inE)
  have v: "0 < v" using xy assms(4) by linarith
  have "0 \<le> h * c" using assms(3,9) xy by linarith
  then have "0 \<le> h" using assms(4) by (simp add: zero_le_mult_iff)
  then have "l * v \<le> l * d" "h * c \<le> h * v" using xy assms(8) by (auto intro: mult_left_mono)
  then have "l * v \<le> u" "u \<le> h * v" using xy assms(7,9) by linarith+
  then have "l \<le> u / v" "u / v \<le> h" using v by (simp_all add: pos_le_divide_eq pos_divide_le_eq)
  with assms(5,6) xy(1,4) v show ?thesis by (auto intro!: round64_in)
qed

lemma d_div_abs:
  assumes "d_in x (- a) a" "d_in y c d" "0 < c" "fl64_num h" "a \<le> h * c"
  shows "d_in (d_div x y) (- h) h"
proof -
  obtain u v where xy: "x = Fin u" "\<bar>u\<bar> \<le> a" "y = Fin v" "c \<le> v" using assms(1,2) by (fastforce elim!: d_inE)
  have v: "0 < v" using xy assms(3) by linarith
  have "0 \<le> h * c" using assms(5) xy(2) by linarith
  then have "0 \<le> h" using assms(3) by (simp add: zero_le_mult_iff)
  then have "h * c \<le> h * v" using xy(4) by (intro mult_left_mono)
  then have "\<bar>u\<bar> \<le> h * v" using xy(2) assms(5) by linarith
  then have "\<bar>u / v\<bar> \<le> h" using v by (simp add: pos_divide_le_eq)
  then have "- h \<le> u / v" "u / v \<le> h" by (simp_all only: abs_le_iff) linarith
  with assms(4) xy(1,3) v show ?thesis by (auto intro!: round64_in fl64_num_minus)
qed

lemma d_int_in: "\<bar>n\<bar> < 2 ^ 53 \<Longrightarrow> d_int n = Fin (of_int n)"
  using fl64_num_int [of n] by (auto simp: d_int_def round64_def fl64_num_def Let_def)

lemma int_in: "a \<le> n \<Longrightarrow> n \<le> b \<Longrightarrow> \<bar>n\<bar> < 2 ^ 53 \<Longrightarrow> d_in (d_int n) (of_int a) (of_int b)"
  by (simp add: d_int_in)

text \<open>Conversions to \<open>int\<close> in range.\<close>

lemma d_to_int_floor:
  assumes "d_in x 0 b" "b < 2 ^ 31"
  shows "\<exists>n. d_to_int (d_floor x) = Some n \<and> 0 \<le> n \<and> of_int n \<le> b"
proof -
  obtain u where x: "x = Fin u" "0 \<le> u" "u \<le> b" using assms(1) by (elim d_inE)
  have f: "0 \<le> \<lfloor>u\<rfloor>" "of_int \<lfloor>u\<rfloor> \<le> b" using x by (simp, linarith)
  have "u < 2 ^ 31" using x(3) assms(2) by linarith
  then have "\<lfloor>u\<rfloor> < 2 ^ 31" by (simp add: floor_less_iff)
  with f x show ?thesis by (simp add: d_to_int_def d_trunc_def int32_def int32_ok_def)
qed

lemma d_to_int_ceil:
  assumes "d_in x 0 (of_int b)" "b < 2 ^ 31"
  shows "\<exists>n. d_to_int (d_ceil x) = Some n \<and> 0 \<le> n \<and> n \<le> b"
proof -
  obtain u where x: "x = Fin u" "0 \<le> u" "u \<le> of_int b" using assms(1) by (elim d_inE)
  have f: "0 \<le> \<lceil>u\<rceil>" "\<lceil>u\<rceil> \<le> b" using x by (simp_all add: ceiling_le_iff le_ceiling_iff)
  with assms(2) x show ?thesis by (simp add: d_to_int_def d_trunc_def int32_def int32_ok_def)
qed

lemma lround_int_defined:
  assumes "d_in x (- of_int b) (of_int b)" "b < 2 ^ 63"
  shows "\<exists>n. lround_int x = Some n \<and> int32_ok n"
proof -
  obtain u where x: "x = Fin u" "\<bar>u\<bar> \<le> of_int b" using assms(1) by (fastforce elim!: d_inE)
  have "\<bar>round_away u\<bar> < 2 ^ 63" using round_away_bound [OF x(2)] assms(2) by linarith
  moreover have "int32_ok (signed_take_bit 31 (round_away u))"
    using signed_take_bit_int_greater_eq_minus_exp [of 31 "round_away u"] signed_take_bit_int_less_exp [of 31 "round_away u"]
    by (simp add: int32_ok_def)
  ultimately show ?thesis using x(1) by (simp add: lround_int_def)
qed

lemma lround_int_small:
  assumes "d_in x (- of_int b) (of_int b)" "b < 2 ^ 31"
  shows "\<exists>n. lround_int x = Some n \<and> \<bar>n\<bar> \<le> b"
proof -
  obtain u where x: "x = Fin u" "\<bar>u\<bar> \<le> of_int b" using assms(1) by (fastforce elim!: d_inE)
  have r: "\<bar>round_away u\<bar> \<le> b" by (rule round_away_bound [OF x(2)])
  then have "signed_take_bit 31 (round_away u) = round_away u" using assms(2) by (intro signed_take_bit_int_eq_self) auto
  with r assms(2) x(1) show ?thesis by (simp add: lround_int_def)
qed

lemma d_clamp_in:
  assumes "isfinite x" "lo \<le> hi"
  shows "d_in (d_clamp x (Fin lo) (Fin hi)) lo hi"
  using assms by (cases x) (auto simp: d_clamp_def isfinite_def)

text \<open>The number before a positive one is not negative.\<close>

lemma d_before_in:
  assumes "1 \<le> x"
  shows "\<exists>y. d_before (Fin x) = Fin y \<and> 0 \<le> y \<and> y < x"
proof -
  let ?e = "max (if x = pow2 (ilog2 x) then ilog2 x - 53 else ilog2 x - 52) (-1074)"
  have "pow2 0 < pow2 (ilog2 x + 1)" using ilog2_bounds(2) [of x] assms by simp
  then have "0 \<le> ilog2 x" unfolding pow2_less_iff by simp
  then have "pow2 ?e \<le> pow2 (ilog2 x)" unfolding pow2_le_iff by simp
  also have "\<dots> \<le> x" using ilog2_bounds(1) [of x] assms by simp
  finally have "0 \<le> x - pow2 ?e" by simp
  moreover have "x - pow2 ?e < x" using pow2_pos [of ?e] by linarith
  ultimately show ?thesis using assms by (auto simp: d_before_def)
qed

lemma fl64_num_pow2: "-1000 \<le> k \<Longrightarrow> k \<le> 900 \<Longrightarrow> fl64_num (pow2 k)"
proof -
  assume k: "-1000 \<le> k" "k \<le> 900"
  have "fl64 (pow2 k) = pow2 k" using k by (intro rnd_pow2) simp_all
  moreover have "pow2 k < pow2 1024" using k by (simp only: pow2_less_iff)
  moreover have "pow2 1024 = 2 ^ 1024" using pow2_nat [of 1024] by simp
  ultimately show ?thesis by (simp only: fl64_num_def abs_of_pos pow2_pos)
qed

lemma fl64_num_power: "k \<le> 900 \<Longrightarrow> fl64_num (2 ^ k)"
  using fl64_num_pow2 [of "int k"] by (simp add: power_int_def)

lemma fl64_num_inverse: "k \<le> 1000 \<Longrightarrow> fl64_num (1 / 2 ^ k)"
proof -
  assume "k \<le> 1000"
  then have "fl64_num (pow2 (- int k))" by (intro fl64_num_pow2) simp_all
  moreover have "pow2 (- int k) = 1 / 2 ^ k" by (simp add: power_int_minus divide_inverse)
  ultimately show ?thesis by simp
qed

lemma fl64_num_small: "fl64_num (1 / 2)" "fl64_num (1 / 4)" "fl64_num (1 / 16)" "fl64_num (1 / 32)" "fl64_num (1 / 2 ^ 20)" "fl64_num (1 / 2 ^ 40)"
proof -
  show "fl64_num (1 / 2)" "fl64_num (1 / 4)" using fl64_num_inverse [of 1] fl64_num_inverse [of 2] by simp_all
  show "fl64_num (1 / 16)" "fl64_num (1 / 32)" using fl64_num_inverse [of 4] fl64_num_inverse [of 5] by simp_all
  show "fl64_num (1 / 2 ^ 20)" "fl64_num (1 / 2 ^ 40)" by (rule fl64_num_inverse, simp)+
qed

lemma lit_in: "fl64_num a \<Longrightarrow> fl64_num b \<Longrightarrow> a \<le> x \<Longrightarrow> x \<le> b \<Longrightarrow> d_in (lit x) a b"
  unfolding lit_def by (rule round64_in)

lemma fl64_num_scaled:
  assumes "\<bar>m\<bar> < 2 ^ 53" "0 \<le> k" "k \<le> 900"
  shows "fl64_num (of_int m * pow2 k)"
proof -
  have f: "fl64 (of_int m * pow2 k) = of_int m * pow2 k" using assms by (intro rnd_exact) simp_all
  have "(of_int \<bar>m\<bar> :: rat) \<le> of_int (2 ^ 53)" using assms(1) by (simp only: of_int_le_iff)
  moreover have "pow2 k \<le> pow2 900" using assms(3) by (simp only: pow2_le_iff)
  ultimately have "\<bar>of_int m * pow2 k\<bar> \<le> pow2 53 * pow2 900"
    unfolding abs_mult by (intro mult_mono) simp_all
  also have "\<dots> < 2 ^ 1024" by simp
  finally show ?thesis using f by (simp add: fl64_num_def)
qed

lemma fl64_num_big [simp]:
  "fl64_num (2 ^ 61)" "fl64_num (2 ^ 94)" "fl64_num (2 ^ 99)" "fl64_num (2 ^ 60)"
  using fl64_num_scaled [of 1 61] fl64_num_scaled [of 1 94] fl64_num_scaled [of 1 99] fl64_num_scaled [of 1 60] by simp_all

lemmas fl64_num_numerals [simp] = fl64_num_big [simplified]

subsection \<open>Errors\<close>

lemma round64_error:
  assumes "\<bar>x\<bar> < pow2 k" "-1000 \<le> k" "k \<le> 900"
  shows "\<exists>y. round64 x = Fin y \<and> \<bar>y - x\<bar> \<le> pow2 (k - 54)"
proof -
  have e: "\<bar>fl64 x - x\<bar> \<le> pow2 (k - 54)"
  proof (cases "x = 0")
    case False
    have "pow2 (k - 53) = pow2 (k - 54 + 1)" by simp
    also have "\<dots> = pow2 (k - 54) * 2" unfolding pow2_add by simp
    finally have h: "pow2 (k - 53) / 2 = pow2 (k - 54)" by simp
    show ?thesis using rnd_error_le [of x k "-1074" 53] assms False h by simp
  qed (simp add: less_imp_le)
  have "pow2 (k - 54) \<le> pow2 900" "pow2 k \<le> pow2 900" using assms(3) by (simp_all only: pow2_le_iff)
  then have "\<bar>fl64 x\<bar> < pow2 900 + pow2 900" using e assms(1) by linarith
  also have "\<dots> < 2 ^ 1024" by simp
  finally show ?thesis using e by (auto simp: round64_def Let_def)
qed

subsection \<open>Square roots\<close>

lemma isqrt_le: "isqrt n * isqrt n \<le> n"
proof (induction n rule: isqrt.induct)
  case (1 n)
  show ?case
  proof (cases "n = 0")
    case False
    let ?q = "isqrt (n div 4)"
    have "?q * ?q \<le> n div 4" using 1 False by simp
    then have "(2 * ?q) * (2 * ?q) \<le> n" by linarith
    with False show ?thesis by (subst (1 2) isqrt.simps) (simp add: Let_def)
  qed (simp add: isqrt.simps)
qed

lemma fl64_sqrt_bounds:
  assumes "0 < x" "x \<le> b * b" "0 \<le> b"
  shows "0 \<le> fl64_sqrt x" "fl64_sqrt x \<le> 2 * b"
proof -
  define u where "u = pow2 (ilog2 x div 2 - 52)"
  define y where "y = x / (u * u)"
  define q where "q = int (isqrt (nat \<lfloor>y\<rfloor>))"
  have u: "0 < u" by (simp add: u_def)
  have "u * u = pow2 (2 * (ilog2 x div 2) - 104)" by (simp add: u_def flip: pow2_add)
  also have "\<dots> \<le> pow2 (ilog2 x)" by simp
  also have "\<dots> \<le> x" using ilog2_bounds(1) [of x] assms(1) by simp
  finally have ux: "u * u \<le> x" .
  have y: "0 \<le> y" using assms(1) u by (simp add: y_def)
  have "q * q = int (isqrt (nat \<lfloor>y\<rfloor>) * isqrt (nat \<lfloor>y\<rfloor>))" by (simp add: q_def)
  also have "\<dots> \<le> int (nat \<lfloor>y\<rfloor>)" by (simp only: of_nat_le_iff isqrt_le)
  finally have "q * q \<le> \<lfloor>y\<rfloor>" using y by simp
  then have "of_int (q * q) \<le> y" by (simp add: le_floor_iff)
  then have "of_int (q * q) * (u * u) \<le> x" using u by (simp add: y_def pos_le_divide_eq)
  then have qu: "(of_int q * u) * (of_int q * u) \<le> x" by (simp add: ac_simps)
  have q: "0 \<le> q" by (simp add: q_def)
  have le: "a \<le> b" if "a * a \<le> x" for a :: rat
    using that assms(2,3) by (intro power2_le_imp_le [of a b]) (simp_all add: power2_eq_square)
  have "of_int q * u \<le> b" by (rule le [OF qu])
  moreover have "u \<le> b" by (rule le [OF ux])
  moreover have r: "fl64_sqrt x = of_int q * u \<or> fl64_sqrt x = (of_int q + 1) * u"
    by (simp add: fl64_sqrt_def Let_def flip: u_def y_def q_def)
  ultimately show "fl64_sqrt x \<le> 2 * b" using assms(3) by (auto simp: distrib_right)
  from r q u show "0 \<le> fl64_sqrt x" by auto
qed

lemma isqrt_less: "n < (isqrt n + 1) * (isqrt n + 1)"
proof (induction n rule: isqrt.induct)
  case (1 n)
  show ?case
  proof (cases "n = 0")
    case False
    let ?q = "isqrt (n div 4)"
    have "n div 4 < (?q + 1) * (?q + 1)" using 1 False by simp
    then have "n < 4 * ((?q + 1) * (?q + 1))" by linarith
    then have "n < (2 * ?q + 2) * (2 * ?q + 2)" by (simp add: algebra_simps)
    with False show ?thesis by (subst (1 2) isqrt.simps) (simp add: Let_def algebra_simps)
  qed (simp add: isqrt.simps)
qed

lemma fl64_sqrt_ge:
  assumes "a * a \<le> x" "x < 2 ^ 60" "1 \<le> a"
  shows "a - 1 / 2 \<le> fl64_sqrt x"
proof -
  define u where "u = pow2 (ilog2 x div 2 - 52)"
  define y where "y = x / (u * u)"
  define q where "q = int (isqrt (nat \<lfloor>y\<rfloor>))"
  have u: "0 < u" by (simp add: u_def)
  have aa: "1 \<le> a * a" using mult_mono [of 1 a 1 a] assms(3) by simp
  then have x: "0 < x" using assms(1) by linarith
  have "pow2 (ilog2 x) < pow2 60" using ilog2_bounds(1) [of x] x assms(2) by simp
  then have "ilog2 x < 60" by (simp only: pow2_less_iff)
  then have "u \<le> pow2 (- 1)" unfolding u_def pow2_le_iff by simp
  then have u1: "u \<le> 1 / 2" by (simp add: power_int_minus)
  have y: "0 \<le> y" using x u by (simp add: y_def)
  have "int (nat \<lfloor>y\<rfloor>) < int ((isqrt (nat \<lfloor>y\<rfloor>) + 1) * (isqrt (nat \<lfloor>y\<rfloor>) + 1))" by (simp only: of_nat_less_iff isqrt_less)
  then have "\<lfloor>y\<rfloor> < (q + 1) * (q + 1)" using y by (simp add: q_def algebra_simps)
  then have "y < of_int ((q + 1) * (q + 1))" by (simp only: floor_less_iff)
  then have "x < of_int ((q + 1) * (q + 1)) * (u * u)" using u by (simp add: y_def pos_divide_less_eq)
  then have "x < ((of_int q + 1) * u) * ((of_int q + 1) * u)" by (simp add: ac_simps)
  with assms(1) have "a * a < ((of_int q + 1) * u) * ((of_int q + 1) * u)" by linarith
  moreover have "0 \<le> (of_int q + 1) * u" using u by (simp add: q_def)
  ultimately have "a < (of_int q + 1) * u" using power2_less_imp_less [of a "(of_int q + 1) * u"] by (simp add: power2_eq_square)
  then have "a - 1 / 2 \<le> of_int q * u" using u1 by (simp add: distrib_right)
  moreover have "of_int q * u \<le> (of_int q + 1) * u" using u by (simp add: distrib_right)
  moreover have "fl64_sqrt x = of_int q * u \<or> fl64_sqrt x = (of_int q + 1) * u"
    by (simp add: fl64_sqrt_def Let_def flip: u_def y_def q_def)
  ultimately show ?thesis by auto
qed

subsection \<open>Sums of squares\<close>

lemma d_square_in:
  assumes "d_in x (- a) a"
  shows "a * a \<le> h \<Longrightarrow> fl64_num h \<Longrightarrow> d_in (d_mul x x) 0 h"
proof -
  assume h: "a * a \<le> h" "fl64_num h"
  obtain e where e: "x = Fin e" "\<bar>e\<bar> \<le> a" using assms by (fastforce elim!: d_inE)
  have "e * e \<le> a * a" using mult_mono [OF e(2) e(2)] e(2) by (simp flip: abs_mult)
  with h show ?thesis unfolding e(1) d_mul.simps by (intro round64_in) simp_all
qed

lemma sum_squares_in:
  assumes "\<forall>x \<in> set xs. d_in (d_sub x m) (- 262144) 262144" "xs \<noteq> []" "length xs \<le> 65536"
  shows "d_in (d_div (foldl (\<lambda>acc x. d_add acc (d_mul (d_sub x m) (d_sub x m))) (Fin 0) xs) (d_int (int (length xs)))) 0 (2 ^ 36)"
proof -
  let ?f = "\<lambda>acc x. d_add acc (d_mul (d_sub x m) (d_sub x m))"
  have "d_in (foldl ?f a ys) 0 (of_nat (n + length ys) * 2 ^ 36)"
    if "d_in a 0 (of_nat n * 2 ^ 36)" "\<forall>x \<in> set ys. d_in (d_sub x m) (- 262144) 262144" "n + length ys \<le> 65536" for a n ys
    using that
  proof (induction ys arbitrary: a n)
    case (Cons x ys)
    have sq: "d_in (d_mul (d_sub x m) (d_sub x m)) 0 (2 ^ 36)" using Cons.prems(2) by (intro d_square_in [of _ 262144]) simp_all
    have "\<bar>int (Suc n)\<bar> < 2 ^ 53" using Cons.prems(3) by simp
    from fl64_num_scaled [OF this, of 36] have "fl64_num (of_nat (Suc n) * 2 ^ 36)" by simp
    from d_add_in [OF Cons.prems(1) sq _ this, of 0] have "d_in (?f a x) 0 (of_nat (Suc n) * 2 ^ 36)" by (simp add: algebra_simps)
    from Cons.IH [OF this] Cons.prems(2,3) show ?case by simp
  qed simp
  from this [of "Fin 0" 0 xs] assms(1,3) have f: "d_in (foldl ?f (Fin 0) xs) 0 (of_nat (length xs) * 2 ^ 36)" by simp
  have "1 \<le> length xs" using assms(2) by (cases xs) simp_all
  then have "(of_nat 1 :: rat) \<le> of_nat (length xs)" unfolding of_nat_le_iff .
  then have i: "d_int (int (length xs)) = Fin (of_nat (length xs))" "1 \<le> (of_nat (length xs) :: rat)"
    using assms(3) by (simp_all add: d_int_in)
  show ?thesis unfolding i(1)
    by (rule d_div_in [OF f, where c = "of_nat (length xs)" and d = "of_nat (length xs)"])
       (use i(2) assms(2) in \<open>simp_all add: mult.commute\<close>)
qed

lemma d_sqrt_in:
  assumes "d_in x 0 (b * b)" "0 \<le> b"
  shows "d_in (d_sqrt x) 0 (2 * b)"
proof -
  obtain v where v: "x = Fin v" "0 \<le> v" "v \<le> b * b" using assms(1) by (elim d_inE)
  show ?thesis using fl64_sqrt_bounds [of v b] v assms(2) by (cases "v = 0") auto
qed

subsection \<open>Whole numbers\<close>

lemma round64_numerals: "round64 0 = Fin 0" "round64 1 = Fin 1"
  "numeral k < (2 ^ 53 :: int) \<Longrightarrow> round64 (numeral k) = Fin (numeral k)"
  "numeral k < (2 ^ 53 :: int) \<Longrightarrow> round64 (- numeral k) = Fin (- numeral k)"
  using d_int_in [of 0] d_int_in [of 1] d_int_in [of "numeral k"] d_int_in [of "- numeral k"] by (simp_all add: d_int_def)

lemma round64_int: "\<bar>n\<bar> < 2 ^ 53 \<Longrightarrow> round64 (of_int n) = Fin (of_int n)"
  using d_int_in by (simp add: d_int_def)

lemma int32_small: "\<bar>n\<bar> < 2 ^ 31 \<Longrightarrow> int32 n = Some n"
  by (auto simp: int32_def int32_ok_def)

lemma lround_int_of_int: "\<bar>n\<bar> < 2 ^ 31 \<Longrightarrow> lround_int (Fin (of_int n)) = Some n"
proof -
  assume n: "\<bar>n\<bar> < 2 ^ 31"
  have "round_away (of_int n) = n" by (simp add: round_away_def floor_eq_iff ceiling_eq_iff)
  moreover have "signed_take_bit 31 n = n" using n by (intro signed_take_bit_int_eq_self) auto
  ultimately show ?thesis using n by (simp add: lround_int_def)
qed

lemma lround_numerals: "lround_int (Fin 0) = Some 0" "lround_int (Fin 1) = Some 1"
  "numeral k < (2 ^ 31 :: int) \<Longrightarrow> lround_int (Fin (numeral k)) = Some (numeral k)"
  using lround_int_of_int [of 0] lround_int_of_int [of 1] lround_int_of_int [of "numeral k"] by simp_all

lemmas whole_numbers = round64_numerals lround_numerals

end
