(* ===== verification/Lattice_Fit.thy ===== *)
theory Lattice_Fit imports Doubles begin

text \<open>
  \<open>src/vision/core/gridFinder.cpp\<close>, the pieces: the spacing and the phase of the lines on one axis, and the score
  of a lattice against the lines that were found. \<open>None\<close> is undefined behaviour: a value that its integer type
  cannot hold, or an index out of range.
\<close>


subsection \<open>Spacing\<close>

definition adjacent_gaps :: "double list \<Rightarrow> double list" where
  "adjacent_gaps cs = map (\<lambda>i. d_sub (cs ! (i + 1)) (cs ! i)) [0..<length cs - 1]"

definition gap_bin :: "double \<Rightarrow> double \<Rightarrow> double \<Rightarrow> int option" where
  "gap_bin gmin binWidth g = d_to_int (d_floor (d_div (d_sub g gmin) binWidth))"

primrec gap_votes :: "double \<Rightarrow> double \<Rightarrow> double list \<Rightarrow> int list \<Rightarrow> int list option" where
  "gap_votes gmin binWidth [] hist = Some hist"
| "gap_votes gmin binWidth (g # gs) hist =
     do {
       b \<leftarrow> gap_bin gmin binWidth g;
       gap_votes gmin binWidth gs
         (if 0 \<le> b \<and> b < int (length hist) then hist[nat b := hist ! nat b + 1] else hist)
     }"

text \<open>\<open>std::max_element\<close>: the first index of the largest element.\<close>

definition max_element :: "int list \<Rightarrow> nat" where
  "max_element xs = foldl (\<lambda>b i. if xs ! b < xs ! i then i else b) 0 [0..<length xs]"

definition modeGap :: "double list \<Rightarrow> double \<Rightarrow> double option" where
  "modeGap gaps binWidth =
     (case gaps of
        [] \<Rightarrow> Some (Fin 0)
      | g # gs \<Rightarrow>
          do {
            let gmin = d_min_element g gs;
            let gmax = d_max_element g gs;
            n \<leftarrow> d_to_int (d_ceil (d_div (d_sub gmax gmin) binWidth));
            bins \<leftarrow> int32 (n + 1);
            _ \<leftarrow> (if bins < 0 then None else Some ());
            hist \<leftarrow> gap_votes gmin binWidth gaps (replicate (nat bins) 0);
            let bestBin = max_element hist;
            Some (d_add gmin (d_mul (d_add (d_int (int bestBin)) (lit (1 / 2))) binWidth))
          })"

subsection \<open>Phase\<close>

definition positiveFmod :: "double \<Rightarrow> double \<Rightarrow> double" where
  "positiveFmod x period =
     (if d_le period (Fin 0) then Fin 0
      else let r = d_fmod x period;
               r1 = (if d_less r (Fin 0) then d_add r period else r)
           in if d_le period r1 then Fin 0 else r1)"

definition phase_bins :: "double \<Rightarrow> (double \<times> int) option" where
  "phase_bins spacing =
     (let binWidth = d_clamp (d_mul (lit (4 / 100)) spacing) (Fin 1) (Fin 4)
      in map_option (\<lambda>n. (binWidth, max 8 n)) (d_to_int (d_ceil (d_div spacing binWidth))))"

definition residual_bin :: "double \<Rightarrow> int \<Rightarrow> double \<Rightarrow> int option" where
  "residual_bin binWidth bins r =
     map_option (\<lambda>b. if b < 0 then 0 else if bins - 1 < b then bins - 1 else b) (d_to_int (d_floor (d_div r binWidth)))"

primrec residual_votes :: "double \<Rightarrow> int \<Rightarrow> double list \<Rightarrow> int list \<Rightarrow> int list option" where
  "residual_votes binWidth bins [] hist = Some hist"
| "residual_votes binWidth bins (r # rs) hist =
     do {
       b \<leftarrow> residual_bin binWidth bins r;
       v \<leftarrow> vec_at hist (nat b);
       hist' \<leftarrow> vec_set hist (nat b) (v + 1);
       residual_votes binWidth bins rs hist'
     }"

definition bin_before :: "int \<Rightarrow> int \<Rightarrow> int" where "bin_before bins i = (i - 1 + bins) mod bins"
definition bin_after :: "int \<Rightarrow> int \<Rightarrow> int" where "bin_after bins i = (i + 1) mod bins"

definition smoothedCount :: "int list \<Rightarrow> int \<Rightarrow> int \<Rightarrow> int option" where
  "smoothedCount hist bins i =
     do {
       a \<leftarrow> vec_at hist (nat (bin_before bins i));
       b \<leftarrow> vec_at hist (nat i);
       c \<leftarrow> vec_at hist (nat (bin_after bins i));
       Some (a + b + c)
     }"

primrec best_bin :: "int list \<Rightarrow> int \<Rightarrow> nat list \<Rightarrow> int \<times> int \<Rightarrow> (int \<times> int) option" where
  "best_bin hist bins [] best = Some best"
| "best_bin hist bins (i # is) best =
     do {
       c \<leftarrow> smoothedCount hist bins (int i);
       best_bin hist bins is (if c > snd best then (int i, c) else best)
     }"

definition d_pi :: double where "d_pi = Fin (884279719003555 / 281474976710656)"

primrec circular_sums :: "libm \<Rightarrow> double \<Rightarrow> double \<Rightarrow> int \<Rightarrow> int \<Rightarrow> double list \<Rightarrow>
    double \<times> double \<times> nat \<Rightarrow> (double \<times> double \<times> nat) option" where
  "circular_sums lm spacing binWidth bins bestBin [] st = Some st"
| "circular_sums lm spacing binWidth bins bestBin (r # rs) st =
     do {
       b \<leftarrow> residual_bin binWidth bins r;
       circular_sums lm spacing binWidth bins bestBin rs
         (if b \<noteq> bestBin \<and> b \<noteq> bin_before bins bestBin \<and> b \<noteq> bin_after bins bestBin then st
          else let (sumSin, sumCos, used) = st;
                   ang = d_mul (d_mul (Fin 2) d_pi) (d_div r spacing)
               in (d_add sumSin (libm_sin lm ang), d_add sumCos (libm_cos lm ang), used + 1))
     }"

definition dominantResidualPhase :: "libm \<Rightarrow> double list \<Rightarrow> double \<Rightarrow> double option" where
  "dominantResidualPhase lm centersSorted spacing =
     (if centersSorted = [] \<or> d_le spacing (Fin 0) then Some (Fin 0)
      else do {
        let residuals = map (\<lambda>c. positiveFmod c spacing) centersSorted;
        (binWidth, bins) \<leftarrow> phase_bins spacing;
        hist \<leftarrow> residual_votes binWidth bins residuals (replicate (nat bins) 0);
        (bestBin, bestCount) \<leftarrow> best_bin hist bins [0..<nat bins] (0, -1);
        (sumSin, sumCos, used) \<leftarrow> circular_sums lm spacing binWidth bins bestBin residuals (Fin 0, Fin 0, 0);
        let high = d_before spacing;
        if used = 0 \<or> d_less (d_add (d_abs sumSin) (d_abs sumCos)) (lit (1 / 10 ^ 12))
        then Some (d_clamp (d_mul (d_add (d_int bestBin) (lit (1 / 2))) binWidth) (Fin 0) high)
        else do {
          let ang = libm_atan2 lm sumSin sumCos;
          let ang1 = (if d_less ang (Fin 0) then d_add ang (d_mul (Fin 2) d_pi) else ang);
          Some (d_clamp (d_mul (d_div ang1 (d_mul (Fin 2) d_pi)) spacing) (Fin 0) high)
        }
      })"

subsection \<open>The score of a lattice\<close>

record lattice_score =
  ls_rms :: double
  ls_inliers :: nat
  ls_span :: int
  ls_offset :: int

definition lattice_score_new :: lattice_score where
  "lattice_score_new = \<lparr>ls_rms = PInf, ls_inliers = 0, ls_span = 0, ls_offset = 0\<rparr>"

definition match_center :: "double \<Rightarrow> double \<Rightarrow> int \<Rightarrow> double \<Rightarrow> double list \<times> bool list \<Rightarrow> (double list \<times> bool list) option" where
  "match_center start spacing N c st =
     (let (bestErr, has) = st
      in do {
           k \<leftarrow> lround_int (d_div (d_sub c start) spacing);
           if k < 0 \<or> k \<ge> N then Some st
           else do {
             let e = d_sub c (d_add start (d_mul (d_int k) spacing));
             let ki = nat k;
             matched \<leftarrow> vec_at has ki;
             err \<leftarrow> vec_at bestErr ki;
             if \<not> matched \<or> d_less (d_abs e) (d_abs err)
             then do {
               bestErr' \<leftarrow> vec_set bestErr ki e;
               has' \<leftarrow> vec_set has ki True;
               Some (bestErr', has')
             }
             else Some st
           }
         })"

primrec match_centers :: "double \<Rightarrow> double \<Rightarrow> int \<Rightarrow> double list \<Rightarrow> double list \<times> bool list \<Rightarrow> (double list \<times> bool list) option" where
  "match_centers start spacing N [] st = Some st"
| "match_centers start spacing N (c # cs) st =
     do { st' \<leftarrow> match_center start spacing N c st; match_centers start spacing N cs st' }"

text \<open>The second loop: matched indices, sum of the squared errors, the first and the last matched index.\<close>

definition count_match :: "double list \<Rightarrow> bool list \<Rightarrow> nat \<times> double \<times> int \<times> int \<Rightarrow> nat \<Rightarrow> nat \<times> double \<times> int \<times> int" where
  "count_match bestErr has st k =
     (let (inliers, sumSq, minK, maxK) = st
      in if \<not> has ! k then st
         else (inliers + 1, d_add sumSq (d_mul (bestErr ! k) (bestErr ! k)), min minK (int k), max maxK (int k)))"

definition evaluateLatticeOffset :: "double list \<Rightarrow> double \<Rightarrow> double \<Rightarrow> int \<Rightarrow> lattice_score \<Rightarrow> (bool \<times> lattice_score) option" where
  "evaluateLatticeOffset centersSorted start spacing N outScore =
     (if N \<le> 0 \<or> d_le spacing (Fin 0) then Some (False, outScore)
      else do {
        (bestErr, has) \<leftarrow> match_centers start spacing N centersSorted (replicate (nat N) PInf, replicate (nat N) False);
        let (inliers, sumSq, minK, maxK) = foldl (count_match bestErr has) (0, Fin 0, N, -1) [0..<nat N];
        if inliers = 0 then Some (False, outScore)
        else Some (True, outScore\<lparr>ls_rms := d_sqrt (d_div sumSq (d_int (int inliers))), ls_inliers := inliers,
                                  ls_span := (if maxK \<ge> minK then maxK - minK + 1 else 0)\<rparr>)
      })"

end
