(* ===== verification/Grid_Finder.thy ===== *)
theory Grid_Finder imports Lattice_Fit begin

text \<open>
  \<open>src/vision/core/gridFinder.cpp\<close>, the search: the best lattice of \<open>N\<close> lines for the lines found on one axis, and
  the size of the board that explains both axes best. The output for debugging is left out.
\<close>

subsection \<open>The best lattice in a window of lines\<close>

definition RMS_EPS :: double where "RMS_EPS = lit (1 / 10 ^ 6)"

definition close_to :: "double \<Rightarrow> double \<Rightarrow> double \<Rightarrow> bool" where
  "close_to eps x y \<longleftrightarrow> d_le (d_abs (d_sub x y)) eps"

text \<open>\<open>std::abs\<close> of an \<open>int\<close>.\<close>

definition int_abs :: "int \<Rightarrow> int option" where "int_abs k = int32 \<bar>k\<bar>"

definition better_offset :: "lattice_score \<Rightarrow> lattice_score \<Rightarrow> bool option" where
  "better_offset score best =
     do {
       a \<leftarrow> int_abs (ls_offset score);
       b \<leftarrow> int_abs (ls_offset best);
       let betterInliers = ls_inliers score > ls_inliers best;
       let equalInliers = ls_inliers score = ls_inliers best;
       let betterSpan = ls_span score > ls_span best;
       let equalSpan = ls_span score = ls_span best;
       let betterRms = d_less (d_add (ls_rms score) RMS_EPS) (ls_rms best);
       let equalRms = close_to RMS_EPS (ls_rms score) (ls_rms best);
       let betterOffset = a < b;
       Some (betterInliers \<or> equalInliers \<and> (betterSpan \<or> equalSpan \<and> (betterRms \<or> equalRms \<and> betterOffset)))
     }"

primrec try_offsets :: "double list \<Rightarrow> double \<Rightarrow> double \<Rightarrow> int \<Rightarrow> int list \<Rightarrow>
    lattice_score \<times> double \<Rightarrow> (lattice_score \<times> double) option" where
  "try_offsets centers phase spacing N [] best = Some best"
| "try_offsets centers phase spacing N (offset # offsets) best =
     do {
       let start = d_add phase (d_mul (d_int offset) spacing);
       (ok, score) \<leftarrow> evaluateLatticeOffset centers start spacing N (lattice_score_new\<lparr>ls_offset := offset\<rparr>);
       if \<not> ok then try_offsets centers phase spacing N offsets best
       else do {
         better \<leftarrow> better_offset score (fst best);
         try_offsets centers phase spacing N offsets (if better then (score, start) else best)
       }
     }"

text \<open>The offsets: every line can be every line of the lattice. Sorted, each once.\<close>

definition approx_index :: "double \<Rightarrow> double \<Rightarrow> double \<Rightarrow> int option" where
  "approx_index phase spacing c = lround_int (d_div (d_sub c phase) spacing)"

definition candidate_offsets :: "double list \<Rightarrow> double \<Rightarrow> double \<Rightarrow> nat \<Rightarrow> int list option" where
  "candidate_offsets centers phase spacing N =
     do {
       kApprox \<leftarrow> those (map (approx_index phase spacing) centers);
       offsets \<leftarrow> those (concat (map (\<lambda>k. map (\<lambda>j. int32 (k - int j)) [0..<N]) kApprox));
       Some (remdups_adj (sort offsets))
     }"

record window_fit =
  wf_score :: lattice_score
  wf_start :: double
  wf_spacing :: double
  wf_phase :: double
  wf_gapRms :: double

definition gap_rms :: "double list \<Rightarrow> double \<Rightarrow> double" where
  "gap_rms gaps spacing =
     (if gaps = [] then PInf
      else d_sqrt (d_div (foldl (\<lambda>acc g. d_add acc (d_mul (d_sub g spacing) (d_sub g spacing))) (Fin 0) gaps)
             (d_int (int (length gaps)))))"

text \<open>One pass of the loop over the variants up to its choice; \<open>Some None\<close> is \<open>continue\<close>.\<close>

definition fit_window :: "libm \<Rightarrow> nat \<Rightarrow> double list \<Rightarrow> window_fit option option" where
  "fit_window lm N centersWindow =
     (if length centersWindow < 2 then Some None
      else do {
        let gaps = adjacent_gaps centersWindow;
        spacing \<leftarrow> modeGap gaps (Fin 4);
        if d_less spacing (lit (1 / 10 ^ 6)) \<or> \<not> isfinite spacing then Some None
        else do {
          let gapRms = gap_rms gaps spacing;
          phase \<leftarrow> dominantResidualPhase lm centersWindow spacing;
          offsets \<leftarrow> candidate_offsets centersWindow phase spacing N;
          (score, start) \<leftarrow> try_offsets centersWindow phase spacing (int N) offsets (lattice_score_new, Fin 0);
          if \<not> isfinite (ls_rms score) \<or> ls_inliers score = 0 then Some None
          else Some (Some \<lparr>wf_score = score, wf_start = start, wf_spacing = spacing, wf_phase = phase, wf_gapRms = gapRms\<rparr>)
        }
      })"

subsection \<open>The best window\<close>

definition window_count :: "nat \<Rightarrow> nat \<Rightarrow> nat" where
  "window_count M N = (if M \<ge> N then M - N + 1 else 1)"

definition variant_count :: "nat \<Rightarrow> nat \<Rightarrow> nat" where
  "variant_count M N = window_count M N + (if M = N then M else 0)"

definition variant_window :: "double list \<Rightarrow> nat \<Rightarrow> nat \<Rightarrow> double list \<times> nat" where
  "variant_window cs N variant =
     (let M = length cs; windowSize = (if M \<ge> N then N else M); windows = window_count M N
      in if variant < windows
         then let wStart = (if windows = 1 then 0 else variant) in (take windowSize (drop wStart cs), wStart)
         else let drop_index = variant - windows in (take drop_index cs @ drop (drop_index + 1) cs, drop_index))"

record best_fit =
  bf_score :: lattice_score
  bf_start :: double
  bf_spacing :: double
  bf_phase :: double
  bf_windowStart :: nat
  bf_gapRms :: double

definition best_fit_new :: best_fit where
  "best_fit_new = \<lparr>bf_score = lattice_score_new, bf_start = Fin 0, bf_spacing = Fin 0, bf_phase = Fin 0,
     bf_windowStart = 0, bf_gapRms = PInf\<rparr>"

definition spacing_dev :: "double \<Rightarrow> double \<Rightarrow> double" where
  "spacing_dev globalModeSpacing spacing =
     (if isfinite globalModeSpacing then d_abs (d_sub spacing globalModeSpacing) else Fin 0)"

definition objective :: "nat \<Rightarrow> lattice_score \<Rightarrow> double \<Rightarrow> double \<Rightarrow> double" where
  "objective N score gapRms spacingDev =
     (let miss = d_sub (d_int (int N)) (d_int (int (ls_inliers score)))
      in d_add (d_add (d_add (ls_rms score) (d_mul (lit (35 / 100)) gapRms)) (d_mul (lit 2) miss))
           (d_mul (lit (3 / 2)) spacingDev))"

definition select_current :: "nat \<Rightarrow> double \<Rightarrow> window_fit \<Rightarrow> nat \<Rightarrow> best_fit \<Rightarrow> bool" where
  "select_current N globalModeSpacing fit wStart bf =
     (let cur = wf_score fit; best = bf_score bf;
          devCur = spacing_dev globalModeSpacing (wf_spacing fit);
          devBest = spacing_dev globalModeSpacing (bf_spacing bf);
          objectiveCur = objective N cur (wf_gapRms fit) devCur;
          objectiveBest = objective N best (bf_gapRms bf) devBest;
          betterObjective = d_less (d_add objectiveCur RMS_EPS) objectiveBest;
          equalObjective = close_to RMS_EPS objectiveCur objectiveBest;
          betterInliers = ls_inliers cur > ls_inliers best; equalInliers = (ls_inliers cur = ls_inliers best);
          betterSpan = ls_span cur > ls_span best; equalSpan = (ls_span cur = ls_span best);
          betterGapRms = d_less (d_add (wf_gapRms fit) RMS_EPS) (bf_gapRms bf);
          equalGapRms = close_to RMS_EPS (wf_gapRms fit) (bf_gapRms bf);
          betterRms = d_less (d_add (ls_rms cur) RMS_EPS) (ls_rms best);
          equalRms = close_to RMS_EPS (ls_rms cur) (ls_rms best);
          betterSpacingDev = d_less (d_add devCur RMS_EPS) devBest;
          equalSpacingDev = close_to RMS_EPS devCur devBest;
          preferLeftWindow = wStart < bf_windowStart bf
      in betterObjective \<or> equalObjective \<and> (betterInliers \<or> equalInliers \<and> (betterSpan \<or> equalSpan \<and>
           (betterGapRms \<or> equalGapRms \<and> (betterRms \<or> equalRms \<and>
             (betterSpacingDev \<or> equalSpacingDev \<and> preferLeftWindow))))))"

primrec try_variants :: "libm \<Rightarrow> double list \<Rightarrow> nat \<Rightarrow> double \<Rightarrow> nat list \<Rightarrow> best_fit \<Rightarrow> best_fit option" where
  "try_variants lm cs N globalModeSpacing [] bf = Some bf"
| "try_variants lm cs N globalModeSpacing (variant # variants) bf =
     do {
       let (centersWindow, wStart) = variant_window cs N variant;
       r \<leftarrow> fit_window lm N centersWindow;
       try_variants lm cs N globalModeSpacing variants
         (case r of
            None \<Rightarrow> bf
          | Some fit \<Rightarrow>
              if select_current N globalModeSpacing fit wStart bf
              then \<lparr>bf_score = wf_score fit, bf_start = wf_start fit, bf_spacing = wf_spacing fit, bf_phase = wf_phase fit,
                    bf_windowStart = wStart, bf_gapRms = wf_gapRms fit\<rparr>
              else bf)
     }"

text \<open>The result is the grid, if there is one.\<close>

definition lattice_grid :: "nat \<Rightarrow> double \<Rightarrow> double \<Rightarrow> double list" where
  "lattice_grid N start spacing = map (\<lambda>k. d_add start (d_mul (d_int (int k)) spacing)) [0..<N]"

definition selectGridByLatticeFit :: "libm \<Rightarrow> double list \<Rightarrow> nat \<Rightarrow> double list option option" where
  "selectGridByLatticeFit lm centersSorted N =
     (if length centersSorted < 6 then Some None
      else do {
        globalModeSpacing \<leftarrow> modeGap (adjacent_gaps centersSorted) (Fin 4);
        bf \<leftarrow> try_variants lm centersSorted N globalModeSpacing [0..<variant_count (length centersSorted) N] best_fit_new;
        if \<not> isfinite (ls_rms (bf_score bf)) \<or> ls_inliers (bf_score bf) = 0 then Some None
        else Some (Some (lattice_grid N (bf_start bf) (bf_spacing bf)))
      })"

subsection \<open>Both axes\<close>

definition isValidN :: "nat \<Rightarrow> bool" where "isValidN n \<longleftrightarrow> n = 9 \<or> n = 13 \<or> n = 19"

definition safeRatio :: "nat \<Rightarrow> nat \<Rightarrow> double" where
  "safeRatio num den = (if den = 0 then Fin 0 else d_div (d_int (int num)) (d_int (int den)))"

definition harmonicMean :: "double \<Rightarrow> double \<Rightarrow> double" where
  "harmonicMean a b =
     (let sum = d_add a b in if d_le sum (Fin 0) then Fin 0 else d_div (d_mul (d_mul (Fin 2) a) b) sum)"

record joint_candidate =
  jc_N :: nat
  jc_inliersTotal :: nat
  jc_completeness :: double
  jc_coverage :: double
  jc_balanced :: double
  jc_rms :: double
  jc_v :: "double list"
  jc_h :: "double list"

definition SCORE_EPS :: double where "SCORE_EPS = lit (1 / 10 ^ 12)"

definition isBetterJointCandidate :: "joint_candidate \<Rightarrow> joint_candidate \<Rightarrow> bool" where
  "isBetterJointCandidate lhs rhs =
     (let betterBalanced = d_less (d_add (jc_balanced rhs) SCORE_EPS) (jc_balanced lhs);
          equalBalanced = close_to SCORE_EPS (jc_balanced lhs) (jc_balanced rhs);
          betterComp = d_less (d_add (jc_completeness rhs) SCORE_EPS) (jc_completeness lhs);
          equalComp = close_to SCORE_EPS (jc_completeness lhs) (jc_completeness rhs);
          betterCover = d_less (d_add (jc_coverage rhs) SCORE_EPS) (jc_coverage lhs);
          equalCover = close_to SCORE_EPS (jc_coverage lhs) (jc_coverage rhs);
          betterRms = d_less (d_add (jc_rms lhs) RMS_EPS) (jc_rms rhs);
          equalRms = close_to RMS_EPS (jc_rms lhs) (jc_rms rhs);
          betterInliers = jc_inliersTotal lhs > jc_inliersTotal rhs;
          equalInliers = (jc_inliersTotal lhs = jc_inliersTotal rhs);
          preferSmallerN = (if jc_N rhs = 0 then True else jc_N lhs < jc_N rhs)
      in betterBalanced \<or> equalBalanced \<and> (betterComp \<or> equalComp \<and> (betterCover \<or> equalCover \<and>
           (betterRms \<or> equalRms \<and> (betterInliers \<or> equalInliers \<and> preferSmallerN)))))"

definition d_weighted :: "lattice_score \<Rightarrow> double" where
  "d_weighted s = d_mul (d_mul (ls_rms s) (ls_rms s)) (d_int (int (ls_inliers s)))"

text \<open>The candidate for one size of the board; \<open>Some None\<close> is \<open>continue\<close>.\<close>

definition joint_fit :: "libm \<Rightarrow> double list \<Rightarrow> double list \<Rightarrow> nat \<Rightarrow> joint_candidate option option" where
  "joint_fit lm vCenters hCenters N =
     do {
       rv \<leftarrow> selectGridByLatticeFit lm vCenters N;
       case rv of None \<Rightarrow> Some None
       | Some vTmp \<Rightarrow> do {
           rh \<leftarrow> selectGridByLatticeFit lm hCenters N;
           case rh of None \<Rightarrow> Some None
           | Some hTmp \<Rightarrow>
               if length vTmp < 2 \<or> length hTmp < 2 then Some None
               else do {
                 let vSpacing = d_sub (vTmp ! 1) (vTmp ! 0);
                 let hSpacing = d_sub (hTmp ! 1) (hTmp ! 0);
                 if \<not> (d_less (lit (1 / 10 ^ 6)) vSpacing \<and> d_less (lit (1 / 10 ^ 6)) hSpacing \<and> isfinite vSpacing \<and> isfinite hSpacing)
                 then Some None
                 else do {
                   (okV, scoreV) \<leftarrow> evaluateLatticeOffset vCenters (vTmp ! 0) vSpacing (int N) lattice_score_new;
                   if \<not> okV then Some None
                   else do {
                     (okH, scoreH) \<leftarrow> evaluateLatticeOffset hCenters (hTmp ! 0) hSpacing (int N) lattice_score_new;
                     if \<not> okH then Some None
                     else do {
                       let totalInliers = ls_inliers scoreV + ls_inliers scoreH;
                       let completeness = safeRatio totalInliers (2 * N);
                       let coverage = safeRatio totalInliers (length vCenters + length hCenters);
                       let rms = (if totalInliers > 0
                                  then d_sqrt (d_div (d_add (d_weighted scoreV) (d_weighted scoreH)) (d_int (int totalInliers)))
                                  else PInf);
                       Some (Some \<lparr>jc_N = N, jc_inliersTotal = totalInliers, jc_completeness = completeness,
                         jc_coverage = coverage, jc_balanced = harmonicMean completeness coverage, jc_rms = rms,
                         jc_v = vTmp, jc_h = hTmp\<rparr>)
                     }
                   }
                 }
               }
         }
     }"

primrec try_sizes :: "libm \<Rightarrow> double list \<Rightarrow> double list \<Rightarrow> nat list \<Rightarrow> joint_candidate option \<Rightarrow> joint_candidate option option" where
  "try_sizes lm vCenters hCenters [] best = Some best"
| "try_sizes lm vCenters hCenters (N # Ns) best =
     do {
       r \<leftarrow> joint_fit lm vCenters hCenters N;
       try_sizes lm vCenters hCenters Ns
         (case r of
            None \<Rightarrow> best
          | Some current \<Rightarrow>
              (case best of None \<Rightarrow> Some current
               | Some b \<Rightarrow> if isBetterJointCandidate current b then Some current else best))
     }"

text \<open>The result, with the two grids that are passed by reference.\<close>

definition findGrid :: "libm \<Rightarrow> double list \<Rightarrow> double list \<Rightarrow> double list \<times> double list \<Rightarrow> nat list \<Rightarrow>
    (bool \<times> double list \<times> double list) option" where
  "findGrid lm vCenters hCenters grids candidateNs =
     (let NsAll = filter isValidN candidateNs
      in if NsAll = [] then Some (False, grids)
         else do {
           best \<leftarrow> try_sizes lm vCenters hCenters NsAll None;
           case best of
             None \<Rightarrow> Some (False, grids)
           | Some b \<Rightarrow>
               if jc_N b = 0 then Some (False, grids)
               else Some (isValidN (length (jc_v b)) \<and> isValidN (length (jc_h b)) \<and> length (jc_v b) = length (jc_h b),
                          jc_v b, jc_h b)
         })"

definition findGrid_default :: "libm \<Rightarrow> double list \<Rightarrow> double list \<Rightarrow> double list \<times> double list \<Rightarrow>
    (bool \<times> double list \<times> double list) option" where
  "findGrid_default lm vCenters hCenters grids = findGrid lm vCenters hCenters grids [19, 13, 9]"

end
