(* ===== verification/Grid_Bounds.thy ===== *)
theory Grid_Bounds imports Grid_Finder begin

text \<open>
  No operation of the grid search faults on lines found in an image: sorted positions of at most \<open>2 ^ 16\<close> pixels.
  Each lemma bounds the values that one function hands to the next.
\<close>

definition lines_ok :: "double list \<Rightarrow> bool" where
  "lines_ok cs \<longleftrightarrow> (\<exists>xs. cs = map Fin xs \<and> sorted xs \<and> (\<forall>x \<in> set xs. 0 \<le> x \<and> x \<le> 65536)) \<and> length cs \<le> 65536"

text \<open>What is relied on of the trigonometric functions: finite results for finite arguments, in their range.\<close>

definition libm_ok :: "libm \<Rightarrow> bool" where
  "libm_ok lm \<longleftrightarrow>
     (\<forall>x. isfinite x \<longrightarrow> d_in (libm_sin lm x) (-1) 1 \<and> d_in (libm_cos lm x) (-1) 1) \<and>
     (\<forall>x y. isfinite x \<longrightarrow> isfinite y \<longrightarrow> d_in (libm_atan2 lm x y) (-4) 4)"

lemma lines_ok_in: "lines_ok cs \<Longrightarrow> c \<in> set cs \<Longrightarrow> d_in c 0 65536"
  by (auto simp: lines_ok_def)

lemma lines_ok_take: "lines_ok cs \<Longrightarrow> lines_ok (take n cs)"
  by (auto simp: lines_ok_def take_map sorted_wrt_take dest: in_set_takeD intro!: exI [of _ "take n _"])

lemma lines_ok_drop: "lines_ok cs \<Longrightarrow> lines_ok (drop n cs)"
  by (auto simp: lines_ok_def drop_map sorted_wrt_drop dest: in_set_dropD intro!: exI [of _ "drop n _"])

lemma lines_ok_without: "lines_ok cs \<Longrightarrow> lines_ok (take n cs @ drop (Suc n) cs)"
proof -
  assume "lines_ok cs"
  then obtain xs where xs: "cs = map Fin xs" "sorted xs" "\<forall>x \<in> set xs. 0 \<le> x \<and> x \<le> 65536" "length cs \<le> 65536"
    by (auto simp: lines_ok_def)
  have "sorted (take n xs @ drop n xs)" using xs(2) by simp
  then have "\<forall>x \<in> set (take n xs). \<forall>y \<in> set (drop n xs). x \<le> y" by (auto simp only: sorted_append)
  moreover have "set (drop (Suc n) xs) \<subseteq> set (drop n xs)" by (rule set_drop_subset_set_drop) simp
  ultimately have "sorted (take n xs @ drop (Suc n) xs)"
    using xs(2) by (auto simp: sorted_append sorted_wrt_take sorted_wrt_drop)
  with xs show ?thesis unfolding lines_ok_def
    by (intro conjI exI [of _ "take n xs @ drop (Suc n) xs"])
      (auto simp: take_map drop_map dest: in_set_takeD in_set_dropD)
qed

subsection \<open>Spacing\<close>

lemma gaps_in:
  assumes "lines_ok cs" "g \<in> set (adjacent_gaps cs)"
  shows "d_in g 0 65536"
proof -
  obtain xs where xs: "cs = map Fin xs" "sorted xs" "\<forall>x \<in> set xs. 0 \<le> x \<and> x \<le> 65536"
    using assms(1) by (auto simp: lines_ok_def)
  from assms(2) obtain i where i: "i < length xs - 1" "g = d_sub (cs ! (i + 1)) (cs ! i)"
    by (auto simp: adjacent_gaps_def xs(1))
  have "xs ! i \<le> xs ! (i + 1)" using xs(2) i(1) by (intro sorted_nth_mono) simp_all
  moreover have "xs ! (i + 1) \<le> 65536" "0 \<le> xs ! i" using xs(3) i(1) by simp_all
  ultimately show ?thesis using i by (simp add: xs(1) d_sub_def) (intro round64_in; simp)
qed

lemma length_gaps [simp]: "length (adjacent_gaps cs) = length cs - 1"
  by (simp add: adjacent_gaps_def)

lemma min_element_in:
  assumes "d_in m 0 h" "\<forall>y \<in> set xs. d_in y 0 w" "h \<le> w"
  shows "d_in (d_min_element m xs) 0 h"
  using assms by (induction xs arbitrary: m) (fastforce simp: d_min_element_def elim!: d_inE)+

lemma max_element_in:
  assumes "d_in m l w" "\<forall>y \<in> set xs. d_in y 0 w"
  shows "d_in (d_max_element m xs) l w"
  using assms by (induction xs arbitrary: m) (fastforce simp: d_max_element_def elim!: d_inE)+

lemma gap_votes_ok:
  assumes "d_in gmin 0 65536" "\<forall>g \<in> set gs. d_in g 0 65536 \<and> d_le gmin g"
  shows "\<exists>hist'. gap_votes gmin (Fin 4) gs hist = Some hist' \<and> length hist' = length hist"
  using assms(2)
proof (induction gs arbitrary: hist)
  case (Cons g gs)
  have g: "d_in g 0 65536" "d_le gmin g" using Cons.prems by simp_all
  have "d_in (d_sub g gmin) 0 65536"
    using g assms(1) by (auto elim!: d_inE simp: d_sub_def d_le_def intro!: round64_in)
  then have "d_in (d_div (d_sub g gmin) (Fin 4)) 0 65536" by (rule d_div_in [where c = 4 and d = 4]) simp_all
  from d_to_int_floor [OF this] obtain b where b: "gap_bin gmin (Fin 4) g = Some b" by (auto simp: gap_bin_def)
  let ?h = "if 0 \<le> b \<and> b < int (length hist) then hist[nat b := hist ! nat b + 1] else hist"
  have "length ?h = length hist" by simp
  with b Cons.IH [of ?h] Cons.prems show ?case by simp
qed simp

lemma max_element_less: "xs \<noteq> [] \<Longrightarrow> max_element xs < length xs"
proof -
  assume "xs \<noteq> []"
  then have "b < length xs \<Longrightarrow> \<forall>i \<in> set is. i < length xs \<Longrightarrow> foldl (\<lambda>b i. if xs ! b < xs ! i then i else b) b is < length xs" for b "is"
    by (induction "is" arbitrary: b) simp_all
  with \<open>xs \<noteq> []\<close> show ?thesis by (simp add: max_element_def)
qed

lemma min_element_least:
  assumes "\<forall>y \<in> set xs. isfinite y"
  shows "\<exists>r. d_min_element (Fin x) xs = Fin r \<and> r \<le> x \<and> (\<forall>v. Fin v \<in> set xs \<longrightarrow> r \<le> v)"
  using assms
proof (induction xs arbitrary: x)
  case (Cons y xs)
  then obtain v where y: "y = Fin v" by (cases y) (auto simp: isfinite_def)
  have "d_min_element (Fin x) (y # xs) = d_min_element (Fin (min v x)) xs"
    by (simp add: y d_min_element_def min_def)
  with Cons.IH [of "min v x"] Cons.prems y show ?case by auto
qed (simp add: d_min_element_def)

lemma min_element_le:
  assumes "g \<in> insert m (set xs)" "\<forall>y \<in> insert m (set xs). isfinite y"
  shows "d_le (d_min_element m xs) g"
proof -
  obtain x u where "m = Fin x" "g = Fin u" using assms by (cases m; cases g) (auto simp: isfinite_def)
  with min_element_least [of xs x] assms show ?thesis by (auto simp: d_le_def le_less)
qed

lemma lit_pow2:
  assumes "-1074 \<le> k" "k < 1024"
  shows "lit (pow2 k) = Fin (pow2 k)" "fl64_num (pow2 k)"
proof -
  have f: "fl64 (pow2 k) = pow2 k" using assms by (intro rnd_pow2) simp_all
  have "pow2 k < pow2 1024" using assms by (simp only: pow2_less_iff)
  then have b: "pow2 k < 2 ^ 1024" by simp
  moreover have "- (2 ^ 1024) < pow2 k" using pow2_pos [of k] by (rule order.strict_trans [rotated]) simp
  ultimately show "lit (pow2 k) = Fin (pow2 k)" by (simp add: lit_def round64_def Let_def f not_le)
  show "fl64_num (pow2 k)" using f b by (simp add: fl64_num_def)
qed

lemma lit_half: "lit (1 / 2) = Fin (1 / 2)" "fl64_num (1 / 2)"
  using lit_pow2 [of "-1"] by (simp_all add: power_int_minus)

text \<open>The spacing is at least two pixels: the middle of a bin whose lower end is not below the smallest gap.\<close>

lemma modeGap_in:
  assumes "gaps \<noteq> []" "\<forall>g \<in> set gaps. d_in g 0 65536"
  shows "\<exists>s. modeGap gaps (Fin 4) = Some s \<and> d_in s 2 262144"
proof -
  obtain g gs where gaps: "gaps = g # gs" using assms(1) by (cases gaps) auto
  obtain x where x: "g = Fin x" "0 \<le> x" "x \<le> 65536" using assms(2) by (auto simp: gaps elim!: d_inE)
  let ?min = "d_min_element g gs" and ?max = "d_max_element g gs"
  have mn: "d_in ?min 0 x" using assms(2) x by (intro min_element_in [where w = 65536]) (auto simp: gaps)
  have mx: "d_in ?max x 65536" using assms(2) x by (intro max_element_in) (auto simp: gaps)
  have "d_in (d_sub ?max ?min) 0 65536" using x by (intro d_sub_in [OF mx mn]) simp_all
  then have "d_in (d_div (d_sub ?max ?min) (Fin 4)) 0 (of_int 16384)" by (rule d_div_in [where c = 4 and d = 4]) simp_all
  from d_to_int_ceil [OF this] obtain n where n: "d_to_int (d_ceil (d_div (d_sub ?max ?min) (Fin 4))) = Some n" "0 \<le> n" "n \<le> 16384"
    by auto
  then have bins: "int32 (n + 1) = Some (n + 1)" by (simp add: int32_def int32_ok_def)
  have mn': "d_in ?min 0 65536" using mn x by (blast intro: d_in_weaken order_refl)
  have "\<forall>g \<in> set gaps. d_in g 0 65536 \<and> d_le ?min g" using assms(2) by (auto simp: gaps intro!: min_element_le d_in_finite)
  from gap_votes_ok [OF mn' this] obtain hist where
    hist: "gap_votes ?min (Fin 4) gaps (replicate (nat (n + 1)) 0) = Some hist" "length hist = nat (n + 1)" by force
  let ?b = "max_element hist"
  have "?b < nat (n + 1)" using max_element_less [of hist] hist(2) n(2) by (cases hist) simp_all
  then have b: "int ?b \<le> 16384" "d_int (int ?b) = Fin (of_nat ?b)" using n(3) d_int_in [of "int ?b"] by simp_all
  then have b': "(of_nat ?b :: rat) \<le> 16384" by (metis of_int_le_iff of_int_numeral of_int_of_nat_eq)
  have half: "fl64_num (1 / 2)" "lit (1 / 2) = Fin (1 / 2)"
    using lit_half by simp_all
  have "d_in (d_add (d_int (int ?b)) (lit (1 / 2))) (1 / 2) 16385" using half(1) b'
    unfolding b(2) half(2) by (intro d_add_in [where a = 0 and b = 16384 and c = "1 / 2" and d = "1 / 2"]) simp_all
  then have "d_in (d_mul (d_add (d_int (int ?b)) (lit (1 / 2))) (Fin 4)) 2 65540"
    by (rule d_mul_in [where c = 4 and d = 4]) simp_all
  then have "d_in (d_add ?min (d_mul (d_add (d_int (int ?b)) (lit (1 / 2))) (Fin 4))) 2 262144"
    by (rule d_add_in [OF mn']) simp_all
  with n bins hist show ?thesis by (simp add: modeGap_def gaps Let_def del: gap_votes.simps)
qed

subsection \<open>Phase\<close>

lemma d_trunc_error: "\<bar>q - of_int (d_trunc q)\<bar> \<le> 1"
  unfolding d_trunc_def by (cases "0 \<le> q") (simp_all, linarith+)

lemma positiveFmod_in:
  assumes "isfinite c" "d_in s 2 262144"
  shows "d_in (positiveFmod c s) 0 262144"
proof -
  obtain x p where xp: "c = Fin x" "s = Fin p" "2 \<le> p" "p \<le> 262144"
    using assms by (cases c) (auto simp: isfinite_def elim!: d_inE)
  define r where "r = x - p * of_int (d_trunc (x / p))"
  have "r = p * (x / p - of_int (d_trunc (x / p)))" using xp(3) by (simp add: r_def right_diff_distrib)
  then have "\<bar>r\<bar> \<le> p * 1" unfolding abs_mult using d_trunc_error [of "x / p"] xp(3)
    by (simp add: abs_mult mult_left_le)
  then have r: "- p \<le> r" "r \<le> p" by linarith+
  have f: "d_fmod c s = Fin r" using xp by (simp add: r_def)
  have "d_in (if d_less (Fin r) (Fin 0) then d_add (Fin r) s else Fin r) 0 262144"
    using r xp by (auto intro!: round64_in)
  then show ?thesis using xp(3) by (auto simp: positiveFmod_def f Let_def)
qed

lemma phase_bins_ok:
  assumes "d_in s 2 262144"
  shows "\<exists>bw bins. phase_bins s = Some (bw, bins) \<and> d_in bw 1 4 \<and> 8 \<le> bins \<and> bins \<le> 262144"
proof -
  let ?bw = "d_clamp (d_mul (lit (4 / 100)) s) (Fin 1) (Fin 4)"
  have "d_in (lit (4 / 100)) 0 1" unfolding lit_def by (rule round64_in) simp_all
  then have "isfinite (d_mul (lit (4 / 100)) s)"
    by (rule d_in_finite [OF d_mul_in [OF _ assms, where l = 0 and h = 262144]]) simp_all
  then have bw: "d_in ?bw 1 4" by (rule d_clamp_in) simp
  then have "d_in (d_div s ?bw) 0 (of_int 262144)" by (rule d_div_in [OF assms]) simp_all
  from d_to_int_ceil [OF this] obtain n where "d_to_int (d_ceil (d_div s ?bw)) = Some n" "n \<le> 262144" by auto
  with bw show ?thesis by (simp add: phase_bins_def Let_def)
qed

lemma residual_bin_ok:
  assumes "d_in r 0 262144" "d_in bw 1 4" "8 \<le> bins"
  shows "\<exists>b. residual_bin bw bins r = Some b \<and> 0 \<le> b \<and> b < bins"
proof -
  have "d_in (d_div r bw) 0 262144" by (rule d_div_in [OF assms(1,2)]) simp_all
  from d_to_int_floor [OF this] obtain n where "d_to_int (d_floor (d_div r bw)) = Some n" "0 \<le> n" by auto
  with assms(3) show ?thesis by (simp add: residual_bin_def)
qed

lemma residual_votes_ok:
  assumes "\<forall>r \<in> set rs. d_in r 0 262144" "d_in bw 1 4" "8 \<le> bins" "length hist = nat bins"
  shows "\<exists>hist'. residual_votes bw bins rs hist = Some hist' \<and> length hist' = nat bins"
  using assms(1,4)
proof (induction rs arbitrary: hist)
  case (Cons r rs)
  from residual_bin_ok [of r bw bins] Cons.prems(1) assms(2,3) obtain b where
    b: "residual_bin bw bins r = Some b" "0 \<le> b" "b < bins" by auto
  then have "nat b < length hist" using Cons.prems(2) assms(3) by simp
  with b Cons show ?case by simp
qed simp

lemma smoothedCount_ok:
  assumes "0 \<le> i" "i < bins" "length hist = nat bins"
  shows "\<exists>c. smoothedCount hist bins i = Some c"
proof -
  have "0 < bins" using assms by simp
  then have "nat (bin_before bins i) < length hist" "nat (bin_after bins i) < length hist" "nat i < length hist"
    using assms by (simp_all add: bin_before_def bin_after_def)
  then show ?thesis by (simp add: smoothedCount_def)
qed

lemma best_bin_ok:
  assumes "\<forall>i \<in> set is. int i < bins" "length hist = nat bins" "0 \<le> fst best" "fst best < bins"
  shows "\<exists>b c. best_bin hist bins is best = Some (b, c) \<and> 0 \<le> b \<and> b < bins"
  using assms(1,3,4)
proof (induction "is" arbitrary: best)
  case (Cons i "is")
  from smoothedCount_ok [of "int i" bins hist] Cons.prems assms(2) obtain c where
    "smoothedCount hist bins (int i) = Some c" by auto
  with Cons show ?case by simp
next
  case Nil
  then show ?case by (cases best) simp
qed

lemma d_pi_in: "d_in (d_mul (Fin 2) d_pi) 6 8"
  by (rule d_mul_in [where a = 2 and b = 2 and c = 3 and d = 4]) (simp_all add: d_pi_def)

lemma d_add_unit:
  assumes "d_in a (- of_nat n) (of_nat n)" "d_in b (-1) 1" "n < 2 ^ 20"
  shows "d_in (d_add a b) (- of_nat (Suc n)) (of_nat (Suc n))"
proof -
  have "\<bar>int (Suc n)\<bar> < 2 ^ 53" using assms(3) by simp
  from fl64_num_int [OF this] have h: "fl64_num (of_nat (Suc n))" by simp
  show ?thesis by (rule d_add_in [OF assms(1,2) fl64_num_minus [OF h] h]) simp_all
qed

lemma circular_sums_ok:
  assumes "\<forall>r \<in> set rs. d_in r 0 262144" "d_in bw 1 4" "8 \<le> bins" "d_in s 2 262144" "libm_ok lm"
    and "d_in a (- of_nat n) (of_nat n)" "d_in b (- of_nat n) (of_nat n)" "n + length rs \<le> 2 ^ 20"
  shows "\<exists>a' b' u'. circular_sums lm s bw bins best rs (a, b, u) = Some (a', b', u') \<and>
    d_in a' (- 1048576) 1048576 \<and> d_in b' (- 1048576) 1048576"
  using assms(1,6-8)
proof (induction rs arbitrary: a b u n)
  case (Cons r rs)
  from residual_bin_ok [of r bw bins] Cons.prems(1) assms(2,3) obtain k where k: "residual_bin bw bins r = Some k" by auto
  have "d_in (d_div r s) 0 131072" using Cons.prems(1) by (intro d_div_in [OF _ assms(4), where a = 0 and b = 262144]) simp_all
  then have "d_in (d_mul (d_mul (Fin 2) d_pi) (d_div r s)) 0 1048576" by (rule d_mul_in [OF d_pi_in]) simp_all
  then have "isfinite (d_mul (d_mul (Fin 2) d_pi) (d_div r s))" by (rule d_in_finite)
  with assms(5) have t: "d_in (libm_sin lm (d_mul (d_mul (Fin 2) d_pi) (d_div r s))) (-1) 1"
    "d_in (libm_cos lm (d_mul (d_mul (Fin 2) d_pi) (d_div r s))) (-1) 1" by (simp_all add: libm_ok_def)
  have n: "n < 2 ^ 20" using Cons.prems(4) by simp
  note add = d_add_unit [OF Cons.prems(2) t(1) n] d_add_unit [OF Cons.prems(3) t(2) n]
  have IH: "\<exists>a' b' u'. circular_sums lm s bw bins best rs (x, y, v) = Some (a', b', u') \<and>
      d_in a' (- 1048576) 1048576 \<and> d_in b' (- 1048576) 1048576"
    if "d_in x (- of_nat m) (of_nat m)" "d_in y (- of_nat m) (of_nat m)" "m \<le> Suc n" for x y v m
    using Cons.IH [of x m y v] Cons.prems(1,4) that by simp
  show ?case
  proof (cases "k \<noteq> best \<and> k \<noteq> bin_before bins best \<and> k \<noteq> bin_after bins best")
    case True
    with IH [OF Cons.prems(2,3), of u] k show ?thesis by simp
  next
    case False
    with IH [OF add, of "u + 1"] k show ?thesis by (auto simp: Let_def)
  qed
next
  case Nil
  then have "(of_nat n :: rat) \<le> of_nat (2 ^ 20)" by (simp only: of_nat_le_iff)
  with Nil show ?case by (auto intro: d_in_weaken)
qed

lemma dominantResidualPhase_in:
  assumes "\<forall>c \<in> set cs. isfinite c" "length cs \<le> 65536" "d_in s 2 262144" "libm_ok lm"
  shows "\<exists>p. dominantResidualPhase lm cs s = Some p \<and> d_in p 0 262144 \<and> d_less p s"
proof (cases "cs = []")
  case True
  with assms(3) show ?thesis by (auto simp: dominantResidualPhase_def elim!: d_inE)
next
  case False
  let ?rs = "map (\<lambda>c. positiveFmod c s) cs"
  have rs: "\<forall>r \<in> set ?rs. d_in r 0 262144" using assms(1) positiveFmod_in [OF _ assms(3)] by auto
  obtain x where x: "s = Fin x" "2 \<le> x" "x \<le> 262144" using assms(3) by (elim d_inE)
  obtain y where y: "d_before s = Fin y" "0 \<le> y" "y < x" using d_before_in [of x] x by auto
  obtain bw bins where b: "phase_bins s = Some (bw, bins)" "d_in bw 1 4" "8 \<le> bins" "bins \<le> 262144" using phase_bins_ok [OF assms(3)] by auto
  obtain hist where h: "residual_votes bw bins ?rs (replicate (nat bins) 0) = Some hist" "length hist = nat bins"
    using residual_votes_ok [OF rs b(2,3)] by (metis length_replicate)
  obtain best c where best: "best_bin hist bins [0..<nat bins] (0, -1) = Some (best, c)" "0 \<le> best" "best < bins"
  proof -
    have "\<forall>i \<in> set [0..<nat bins]. int i < bins" by auto
    from best_bin_ok [OF this h(2), of "(0, -1)"] b(3) that show thesis by auto
  qed
  obtain sa ca u where sums: "circular_sums lm s bw bins best ?rs (Fin 0, Fin 0, 0) = Some (sa, ca, u)"
      "d_in sa (- 1048576) 1048576" "d_in ca (- 1048576) 1048576"
    using circular_sums_ok [OF rs b(2,3) assms(3,4), of "Fin 0" 0 "Fin 0" best 0] assms(2) by auto
  have cl: "\<exists>p. d_clamp z (Fin 0) (d_before s) = p \<and> d_in p 0 262144 \<and> d_less p s" if "isfinite z" for z
    using d_clamp_in [OF that, of 0 y] y x by (auto simp: d_in_def)
  have "d_int best = Fin (of_int best)" "(of_int best :: rat) \<le> 262144" "0 \<le> (of_int best :: rat)"
    using best b(4) by (simp_all add: d_int_in)
  then have "d_in (d_add (d_int best) (lit (1 / 2))) 0 262145" unfolding lit_half
    by (intro d_add_in [where a = 0 and b = 262144 and c = "1 / 2" and d = "1 / 2"]) simp_all
  then have "isfinite (d_mul (d_add (d_int best) (lit (1 / 2))) bw)"
    by (rule d_in_finite [OF d_mul_in [OF _ b(2), where a = 0 and l = 0 and h = 1048580]]) simp_all
  moreover have "isfinite (d_mul (d_div (if d_less (libm_atan2 lm sa ca) (Fin 0) then d_add (libm_atan2 lm sa ca) (d_mul (Fin 2) d_pi)
      else libm_atan2 lm sa ca) (d_mul (Fin 2) d_pi)) s)" (is "isfinite (d_mul (d_div ?ang _) s)")
  proof -
    have "d_in (libm_atan2 lm sa ca) (-4) 4" 
      using assms(4) sums(2,3) [THEN d_in_finite] by (simp add: libm_ok_def)
    then have "d_in ?ang (- 16) 16" using d_add_in [OF _ d_pi_in, of _ "-4" 4 "-16" 16] by (auto elim: d_in_weaken)
    from d_div_abs [OF this d_pi_in, of 16] have "d_in (d_div ?ang (d_mul (Fin 2) d_pi)) (- 16) 16" by simp
    moreover have "d_in s (- 262144) 262144" using assms(3) by (rule d_in_weaken) simp_all
    ultimately show ?thesis by (rule d_in_finite [OF d_mul_abs [where h = 4194304]]) simp_all
  qed
  ultimately show ?thesis
    using cl x False b h best sums by (auto simp: dominantResidualPhase_def Let_def d_le_def)
qed

end
