(* ===== verification/Lattice_Scores.thy ===== *)
theory Lattice_Scores imports Grid_Bounds begin

text \<open>
  The score of a lattice: the matched lines number at most the span, the span at most the lines of the board; no fault
  and a finite error for lattices of any sensible size; and the matched index of a line counts.
\<close>

subsection \<open>Matching the lines\<close>

text \<open>The state of the first loop: errors of the matched indices are finite.\<close>

definition matches_ok :: "int \<Rightarrow> double list \<times> bool list \<Rightarrow> bool" where
  "matches_ok N st \<longleftrightarrow> length (fst st) = nat N \<and> length (snd st) = nat N \<and>
     (\<forall>k < nat N. snd st ! k \<longrightarrow> d_in (fst st ! k) (- (2 ^ 47)) (2 ^ 47))"

abbreviation lattice_ok :: "double \<Rightarrow> double \<Rightarrow> bool" where
  "lattice_ok start spacing \<equiv> d_in start (- (2 ^ 40)) (2 ^ 40) \<and> d_in spacing (1 / 2 ^ 20) (2 ^ 40)"

lemma match_index:
  assumes "d_in c 0 65536" "lattice_ok start spacing"
  shows "\<exists>k. lround_int (d_div (d_sub c start) spacing) = Some k \<and> int32_ok k"
proof -
  have "d_in (d_sub c start) (- (2 ^ 41)) (2 ^ 41)" using assms by (intro d_sub_in) (auto intro!: order_refl)
  then have "d_in (d_div (d_sub c start) spacing) (- (2 ^ 61)) (2 ^ 61)"
    using assms(2) by (intro d_div_abs [where c = "1 / 2 ^ 20"]) auto
  then have "d_in (d_div (d_sub c start) spacing) (- of_int (2 ^ 61)) (of_int (2 ^ 61))" by simp
  then show ?thesis by (rule lround_int_defined) simp
qed

lemma match_error:
  assumes "d_in c 0 65536" "lattice_ok start spacing" "0 \<le> k" "k < 19"
  shows "d_in (d_sub c (d_add start (d_mul (d_int k) spacing))) (- (2 ^ 47)) (2 ^ 47)"
proof -
  have k: "d_in (d_int k) 0 18" using assms(3,4) by (simp add: d_int_in)
  have "d_in (d_mul (d_int k) spacing) 0 (2 ^ 45)" using assms(2) by (intro d_mul_in [OF k]) auto
  then have "d_in (d_add start (d_mul (d_int k) spacing)) (- (2 ^ 46)) (2 ^ 46)" using assms(2) by (intro d_add_in) auto
  then show ?thesis using assms(1) by (intro d_sub_in) auto
qed

lemma match_center_ok:
  assumes "d_in c 0 65536" "lattice_ok start spacing" "N \<le> 19" "matches_ok N st"
  shows "\<exists>st'. match_center start spacing N c st = Some st' \<and> matches_ok N st' \<and>
    (\<forall>i < nat N. snd st ! i \<longrightarrow> snd st' ! i) \<and>
    (\<forall>k. lround_int (d_div (d_sub c start) spacing) = Some k \<longrightarrow> 0 \<le> k \<longrightarrow> k < N \<longrightarrow> snd st' ! nat k)"
proof -
  obtain errs has where st: "st = (errs, has)" by force
  from match_index [OF assms(1,2)] obtain k where k: "lround_int (d_div (d_sub c start) spacing) = Some k" by auto
  show ?thesis
  proof (cases "k < 0 \<or> N \<le> k")
    case True
    with k assms(4) show ?thesis by (auto simp: match_center_def st)
  next
    case False
    let ?e = "d_sub c (d_add start (d_mul (d_int k) spacing))"
    have e: "d_in ?e (- (2 ^ 47)) (2 ^ 47)" using False assms(3) by (intro match_error [OF assms(1,2)]) simp_all
    have l: "nat k < length errs" "nat k < length has" using False assms(4) by (auto simp: matches_ok_def st)
    show ?thesis
    proof (cases "\<not> has ! nat k \<or> d_less (d_abs ?e) (d_abs (errs ! nat k))")
      case True
      then have "match_center start spacing N c st = Some (errs[nat k := ?e], has[nat k := True])"
        using False k l by (simp add: match_center_def st Let_def)
      moreover have "matches_ok N (errs[nat k := ?e], has[nat k := True])"
        using assms(4) e l by (auto simp: matches_ok_def st nth_list_update)
      ultimately show ?thesis using k l by (auto simp: st nth_list_update)
    next
      case F: False
      then have "match_center start spacing N c st = Some st"
        using False k l by (simp add: match_center_def st Let_def)
      with F k assms(4) show ?thesis by (auto simp: st)
    qed
  qed
qed

lemma match_centers_ok:
  assumes "\<forall>c \<in> set cs. d_in c 0 65536" "lattice_ok start spacing" "N \<le> 19" "matches_ok N st"
  shows "\<exists>st'. match_centers start spacing N cs st = Some st' \<and> matches_ok N st' \<and>
    (\<forall>i < nat N. snd st ! i \<longrightarrow> snd st' ! i) \<and>
    (\<forall>c \<in> set cs. \<forall>k. lround_int (d_div (d_sub c start) spacing) = Some k \<longrightarrow> 0 \<le> k \<longrightarrow> k < N \<longrightarrow> snd st' ! nat k)"
  using assms(1,4)
proof (induction cs arbitrary: st)
  case (Cons c cs)
  from match_center_ok [OF _ assms(2,3) Cons.prems(2), of c] Cons.prems(1) obtain st1 where
    1: "match_center start spacing N c st = Some st1" "matches_ok N st1" "\<forall>i < nat N. snd st ! i \<longrightarrow> snd st1 ! i"
      "\<forall>k. lround_int (d_div (d_sub c start) spacing) = Some k \<longrightarrow> 0 \<le> k \<longrightarrow> k < N \<longrightarrow> snd st1 ! nat k" by auto
  from Cons.IH [OF _ 1(2)] Cons.prems(1) obtain st2 where
    2: "match_centers start spacing N cs st1 = Some st2" "matches_ok N st2" "\<forall>i < nat N. snd st1 ! i \<longrightarrow> snd st2 ! i"
      "\<forall>c \<in> set cs. \<forall>k. lround_int (d_div (d_sub c start) spacing) = Some k \<longrightarrow> 0 \<le> k \<longrightarrow> k < N \<longrightarrow> snd st2 ! nat k" by auto
  have "\<forall>k. lround_int (d_div (d_sub c start) spacing) = Some k \<longrightarrow> 0 \<le> k \<longrightarrow> k < N \<longrightarrow> snd st2 ! nat k"
    using 1(4) 2(3) by auto
  with 1 2 show ?case by simp
qed simp

subsection \<open>Counting the matches\<close>

text \<open>After \<open>n\<close> indices: how the count, the first and the last match are related.\<close>

lemma count_matches:
  assumes "foldl (count_match errs has) (0, Fin 0, N, -1) [0..<n] = (inl, sq, mn, mx)" "int n \<le> N"
  shows "inl \<le> n" "inl = 0 \<longleftrightarrow> (\<forall>k < n. \<not> has ! k)" "inl = 0 \<Longrightarrow> mn = N \<and> mx = -1"
    "0 < inl \<Longrightarrow> 0 \<le> mn \<and> mn \<le> mx \<and> mx < int n \<and> int inl \<le> mx - mn + 1"
proof -
  have "inl \<le> n \<and> (inl = 0 \<longleftrightarrow> (\<forall>k < n. \<not> has ! k)) \<and> (inl = 0 \<longrightarrow> mn = N \<and> mx = -1) \<and>
      (0 < inl \<longrightarrow> 0 \<le> mn \<and> mn \<le> mx \<and> mx < int n \<and> int inl \<le> mx - mn + 1)"
    using assms
  proof (induction n arbitrary: inl sq mn mx)
    case (Suc n)
    obtain inl0 sq0 mn0 mx0 where f: "foldl (count_match errs has) (0, Fin 0, N, -1) [0..<n] = (inl0, sq0, mn0, mx0)"
      by (metis prod_cases4)
    note IH = Suc.IH [OF f]
    have step: "count_match errs has (inl0, sq0, mn0, mx0) n = (inl, sq, mn, mx)" using Suc.prems(1) f by simp
    show ?case
    proof (cases "has ! n")
      case True
      then have "inl = Suc inl0" "mn = min mn0 (int n)" "mx = max mx0 (int n)" using step
        by (simp_all add: count_match_def)
      with True IH Suc.prems show ?thesis by (cases "inl0 = 0") (auto simp: less_Suc_eq min_def max_def)
    next
      case False
      then have "inl = inl0" "mn = mn0" "mx = mx0" using step by (simp_all add: count_match_def)
      with False IH Suc.prems show ?thesis by (auto simp: less_Suc_eq)
    qed
  qed simp
  then show "inl \<le> n" "inl = 0 \<longleftrightarrow> (\<forall>k < n. \<not> has ! k)" "inl = 0 \<Longrightarrow> mn = N \<and> mx = -1"
    "0 < inl \<Longrightarrow> 0 \<le> mn \<and> mn \<le> mx \<and> mx < int n \<and> int inl \<le> mx - mn + 1" by simp_all
qed

text \<open>Whatever the numbers, infinities and NaN included.\<close>

lemma evaluate_bounds:
  assumes "evaluateLatticeOffset cs start spacing N s = Some (True, s')"
  shows "0 < ls_inliers s' \<and> int (ls_inliers s') \<le> ls_span s' \<and> ls_span s' \<le> N \<and> ls_offset s' = ls_offset s"
proof -
  let ?st = "(replicate (nat N) PInf, replicate (nat N) False)"
  have N: "\<not> (N \<le> 0 \<or> d_le spacing (Fin 0))" using assms by (auto simp: evaluateLatticeOffset_def split: if_splits)
  obtain errs has where m: "match_centers start spacing N cs ?st = Some (errs, has)"
    using assms N by (cases "match_centers start spacing N cs ?st") (auto simp: evaluateLatticeOffset_def)
  obtain inl sq mn mx where f: "foldl (count_match errs has) (0, Fin 0, N, -1) [0..<nat N] = (inl, sq, mn, mx)"
    by (metis prod_cases4)
  from assms N m f have "inl \<noteq> 0" "s' = s\<lparr>ls_rms := d_sqrt (d_div sq (d_int (int inl))), ls_inliers := inl,
      ls_span := (if mx \<ge> mn then mx - mn + 1 else 0)\<rparr>"
    by (auto simp: evaluateLatticeOffset_def Let_def split: if_splits)
  with count_matches [OF f] N show ?thesis by auto
qed

text \<open>The sum of the squares.\<close>

lemma count_matches_sum:
  assumes "foldl (count_match errs has) (0, Fin 0, N, -1) [0..<n] = (inl, sq, mn, mx)" "n \<le> 19"
    and "\<forall>k < n. has ! k \<longrightarrow> d_in (errs ! k) (- (2 ^ 47)) (2 ^ 47)"
  shows "inl \<le> n \<and> d_in sq 0 (of_nat inl * 2 ^ 94)"
  using assms
proof (induction n arbitrary: inl sq mn mx)
  case (Suc n)
  obtain inl0 sq0 mn0 mx0 where f: "foldl (count_match errs has) (0, Fin 0, N, -1) [0..<n] = (inl0, sq0, mn0, mx0)"
    by (metis prod_cases4)
  from Suc.IH [OF f] Suc.prems(2,3) have IH: "inl0 \<le> n" "d_in sq0 0 (of_nat inl0 * 2 ^ 94)" by simp_all
  have step: "count_match errs has (inl0, sq0, mn0, mx0) n = (inl, sq, mn, mx)" using Suc.prems(1) f by simp
  show ?case
  proof (cases "has ! n")
    case True
    then have sq: "d_in (d_mul (errs ! n) (errs ! n)) 0 (2 ^ 94)" using Suc.prems(3) by (intro d_square_in [of _ "2 ^ 47"]) simp_all
    have "\<bar>int (Suc inl0)\<bar> < 2 ^ 53" using IH(1) Suc.prems(2) by simp
    from fl64_num_scaled [OF this, of 94] have "fl64_num (of_nat (Suc inl0) * 2 ^ 94)" by simp
    from d_add_in [OF IH(2) sq _ this, of 0] have "d_in (d_add sq0 (d_mul (errs ! n) (errs ! n))) 0 (of_nat (Suc inl0) * 2 ^ 94)"
      by (simp add: algebra_simps)
    with True step IH(1) show ?thesis by (auto simp: count_match_def)
  next
    case False
    with step IH show ?thesis by (simp add: count_match_def)
  qed
qed simp

subsection \<open>The score\<close>

text \<open>A lattice of sensible size is scored without a fault; a line whose index is one of the board's counts.\<close>

lemma evaluate_ok:
  assumes "\<forall>c \<in> set cs. d_in c 0 65536" "lattice_ok start spacing" "0 < N" "N \<le> 19"
  shows "\<exists>ok s'. evaluateLatticeOffset cs start spacing N s = Some (ok, s') \<and>
    (ok \<longrightarrow> d_in (ls_rms s') 0 (2 ^ 51)) \<and>
    (\<forall>c \<in> set cs. \<forall>k. lround_int (d_div (d_sub c start) spacing) = Some k \<longrightarrow> 0 \<le> k \<longrightarrow> k < N \<longrightarrow> ok)"
proof -
  let ?st = "(replicate (nat N) PInf, replicate (nat N) False)"
  have N: "\<not> (N \<le> 0 \<or> d_le spacing (Fin 0))" using assms(2,3) by (auto elim!: d_inE simp: d_le_def)
  have "matches_ok N ?st" by (simp add: matches_ok_def)
  from match_centers_ok [OF assms(1,2,4) this] obtain errs has where
    m: "match_centers start spacing N cs ?st = Some (errs, has)" "matches_ok N (errs, has)"
      "\<forall>c \<in> set cs. \<forall>k. lround_int (d_div (d_sub c start) spacing) = Some k \<longrightarrow> 0 \<le> k \<longrightarrow> k < N \<longrightarrow> has ! nat k"
    by fastforce
  obtain inl sq mn mx where f: "foldl (count_match errs has) (0, Fin 0, N, -1) [0..<nat N] = (inl, sq, mn, mx)"
    by (metis prod_cases4)
  have hit: "inl \<noteq> 0" if "c \<in> set cs" "lround_int (d_div (d_sub c start) spacing) = Some k" "0 \<le> k" "k < N" for c k
    using that m(3) count_matches(2) [OF f] by (auto simp: nat_less_iff)
  show ?thesis
  proof (cases "inl = 0")
    case True
    then have "evaluateLatticeOffset cs start spacing N s = Some (False, s)"
      using N m(1) f by (simp add: evaluateLatticeOffset_def)
    then show ?thesis using hit True by blast
  next
    case False
    have n19: "nat N \<le> 19" using assms(4) by simp
    have "\<forall>k < nat N. has ! k \<longrightarrow> d_in (errs ! k) (- (2 ^ 47)) (2 ^ 47)"
      using m(2) unfolding matches_ok_def fst_conv snd_conv by blast
    note cs = count_matches_sum [OF f n19 this]
    then have s: "inl \<le> 19" "d_in sq 0 (of_nat inl * 2 ^ 94)" using n19 by (linarith, blast)
    have i: "d_int (int inl) = Fin (of_nat inl)" "1 \<le> (of_nat inl :: rat)" using s(1) False by (simp_all add: d_int_in Suc_leI)
    have "d_in (d_div sq (d_int (int inl))) 0 (2 ^ 94)" unfolding i(1)
      by (rule d_div_in [OF s(2), where c = "of_nat inl" and d = "of_nat inl"]) (use i(2) in \<open>simp_all add: mult.commute\<close>)
    then have "d_in (d_div sq (d_int (int inl))) 0 (2 ^ 47 * 2 ^ 47)" by (rule d_in_weaken) simp_all
    from d_sqrt_in [OF this] have "d_in (d_sqrt (d_div sq (d_int (int inl)))) 0 (2 ^ 51)" by (rule d_in_weaken) simp_all
    moreover have "evaluateLatticeOffset cs start spacing N s = Some (True, s\<lparr>ls_rms := d_sqrt (d_div sq (d_int (int inl))),
        ls_inliers := inl, ls_span := (if mx \<ge> mn then mx - mn + 1 else 0)\<rparr>)"
      using False N m(1) f by (simp add: evaluateLatticeOffset_def)
    ultimately show ?thesis by (intro exI conjI) (assumption, simp_all)
  qed
qed

end
