(* ===== verification/Grid_Search.thy ===== *)
theory Grid_Search imports Lattice_Scores begin

text \<open>
  The search never faults, and on one axis it always finds something: six lines anywhere give a lattice. The last
  lemmas are about both axes.
\<close>

subsection \<open>Offsets\<close>

lemma those_Some [simp]: "those (map (\<lambda>x. Some (f x)) xs) = Some (map f xs)"
  by (induction xs) simp_all

lemma those_concat_int32:
  assumes "\<forall>k \<in> set ks. \<forall>j < n. int32_ok (k - int j)"
  shows "those (concat (map (\<lambda>k. map (\<lambda>j. int32 (k - int j)) [0..<n]) ks)) =
    Some (concat (map (\<lambda>k. map (\<lambda>j. k - int j) [0..<n]) ks))"
proof -
  have "concat (map (\<lambda>k. map (\<lambda>j. int32 (k - int j)) [0..<n]) ks) =
      map Some (concat (map (\<lambda>k. map (\<lambda>j. k - int j) [0..<n]) ks))"
    using assms by (induction ks) (simp_all add: int32_def)
  then show ?thesis using those_Some [of id] by (simp add: id_def)
qed

lemma approx_index_ok:
  assumes "d_in c 0 65536" "d_in p 0 262144" "d_in s 2 262144"
  shows "\<exists>k. approx_index p s c = Some k \<and> \<bar>k\<bar> \<le> 262144"
proof -
  have "d_in (d_sub c p) (- 262144) 262144" by (rule d_sub_in [OF assms(1,2)]) simp_all
  then have "d_in (d_div (d_sub c p) s) (- 262144) 262144" by (rule d_div_abs [OF _ assms(3)]) simp_all
  then have "d_in (d_div (d_sub c p) s) (- of_int 262144) (of_int 262144)" by simp
  from lround_int_small [OF this] show ?thesis by (simp add: approx_index_def)
qed

lemma candidate_offsets_ok:
  assumes "\<forall>c \<in> set cs. d_in c 0 65536" "d_in p 0 262144" "d_in s 2 262144" "n \<le> 19"
  shows "\<exists>offs. candidate_offsets cs p s n = Some offs \<and> (\<forall>o' \<in> set offs. \<bar>o'\<bar> \<le> 300000) \<and>
    (\<forall>c \<in> set cs. \<forall>k j. approx_index p s c = Some k \<longrightarrow> j < n \<longrightarrow> k - int j \<in> set offs)"
proof -
  let ?P = "\<lambda>c k. approx_index p s c = Some k \<and> \<bar>k\<bar> \<le> 262144"
  have "\<forall>c \<in> set cs. \<exists>k. approx_index p s c = Some k \<and> ?P c k" using approx_index_ok assms(1-3) by blast
  from those_map [OF this] obtain ks where ks: "those (map (approx_index p s) cs) = Some ks" "list_all2 ?P cs ks" by blast
  then have k: "\<forall>k \<in> set ks. \<bar>k\<bar> \<le> 262144" "\<forall>c \<in> set cs. \<forall>k. approx_index p s c = Some k \<longrightarrow> k \<in> set ks"
    by (auto simp: list_all2_conv_all_nth in_set_conv_nth) (metis option.inject)+
  have "\<forall>k \<in> set ks. \<forall>j < n. int32_ok (k - int j)" using k(1) assms(4) by (fastforce simp: int32_ok_def)
  note t = those_concat_int32 [OF this]
  have set: "set (remdups_adj (sort (concat (map (\<lambda>k. map (\<lambda>j. k - int j) [0..<n]) ks)))) = {k - int j | k j. k \<in> set ks \<and> j < n}"
    by (auto simp: image_iff) blast+
  have "candidate_offsets cs p s n = Some (remdups_adj (sort (concat (map (\<lambda>k. map (\<lambda>j. k - int j) [0..<n]) ks))))"
    by (simp add: candidate_offsets_def ks(1) t)
  with set obtain offs where offs: "candidate_offsets cs p s n = Some offs" "set offs = {k - int j | k j. k \<in> set ks \<and> j < n}"
    by blast
  have "\<forall>o' \<in> set offs. \<bar>o'\<bar> \<le> 300000" unfolding offs(2) using k(1) assms(4) by fastforce
  moreover have "k - int j \<in> set offs" if "c \<in> set cs" "approx_index p s c = Some k" "j < n" for c k j
    unfolding offs(2) using k(2) that by blast
  ultimately show ?thesis using offs(1) by blast
qed

text \<open>The best lattice so far: once one was scored there is a best one, with a finite error.\<close>

definition best_ok :: "lattice_score \<times> double \<Rightarrow> bool" where
  "best_ok best \<longleftrightarrow> d_in (snd best) (- (2 ^ 37)) (2 ^ 37) \<and> \<bar>ls_offset (fst best)\<bar> \<le> 300000 \<and> ls_inliers (fst best) \<le> 19 \<and>
     (ls_inliers (fst best) \<noteq> 0 \<longrightarrow> d_in (ls_rms (fst best)) 0 (2 ^ 51))"

lemma better_offset_ok:
  assumes "\<bar>ls_offset s\<bar> \<le> 300000" "\<bar>ls_offset b\<bar> \<le> 300000"
  shows "\<exists>r. better_offset s b = Some r \<and> (ls_inliers s > ls_inliers b \<longrightarrow> r)"
proof -
  have "int32_ok \<bar>ls_offset s\<bar>" "int32_ok \<bar>ls_offset b\<bar>"
    using assms by (auto simp: int32_ok_def)
  then show ?thesis by (simp add: better_offset_def int_abs_def int32_def Let_def)
qed

lemma lattice_start_in:
  assumes "d_in p 0 262144" "d_in s 2 262144" "\<bar>k\<bar> \<le> 300000"
  shows "d_in (d_add p (d_mul (d_int k) s)) (- (2 ^ 37)) (2 ^ 37)"
proof -
  have "of_int (- 300000) \<le> (of_int k :: rat)" "(of_int k :: rat) \<le> of_int 300000"
    unfolding of_int_le_iff using assms(3) by linarith+
  then have k: "d_in (d_int k) (- 300000) 300000" using assms(3) by (simp add: d_int_in)
  have "d_in s (- 262144) 262144" using assms(2) by (rule d_in_weaken) simp_all
  from d_mul_abs [OF k this, of "2 ^ 36 + 2 ^ 35"] have "d_in (d_mul (d_int k) s) (- (2 ^ 36 + 2 ^ 35)) (2 ^ 36 + 2 ^ 35)" by simp
  from d_add_in [OF assms(1) this] show ?thesis by simp
qed

lemma try_offsets_ok:
  assumes "\<forall>c \<in> set cs. d_in c 0 65536" "d_in p 0 262144" "d_in s 2 262144" "0 < N" "N \<le> 19"
    and "\<forall>k \<in> set offs. \<bar>k\<bar> \<le> 300000" "best_ok best"
  shows "\<exists>best'. try_offsets cs p s N offs best = Some best' \<and> best_ok best' \<and>
    ((ls_inliers (fst best) \<noteq> 0 \<or> (\<exists>k \<in> set offs. \<exists>c \<in> set cs. \<exists>i. lround_int (d_div (d_sub c (d_add p (d_mul (d_int k) s))) s) = Some i \<and>
        0 \<le> i \<and> i < N)) \<longrightarrow> ls_inliers (fst best') \<noteq> 0)"
  using assms(6,7)
proof (induction offs arbitrary: best)
  case (Cons k offs)
  let ?start = "d_add p (d_mul (d_int k) s)" and ?s = "lattice_score_new\<lparr>ls_offset := k\<rparr>"
  have k: "\<bar>k\<bar> \<le> 300000" using Cons.prems(1) by simp
  have st: "d_in ?start (- (2 ^ 37)) (2 ^ 37)" by (rule lattice_start_in [OF assms(2,3) k])
  have "lattice_ok ?start s" using st assms(3) by (auto elim!: d_in_weaken)
  from evaluate_ok [OF assms(1) this assms(4,5), of ?s] obtain ok s' where
    e: "evaluateLatticeOffset cs ?start s N ?s = Some (ok, s')" "ok \<longrightarrow> d_in (ls_rms s') 0 (2 ^ 51)"
      "\<forall>c \<in> set cs. \<forall>i. lround_int (d_div (d_sub c ?start) s) = Some i \<longrightarrow> 0 \<le> i \<longrightarrow> i < N \<longrightarrow> ok" by blast
  show ?case
  proof (cases ok)
    case False
    with e have no: "\<not> (\<exists>c \<in> set cs. \<exists>i. lround_int (d_div (d_sub c ?start) s) = Some i \<and> 0 \<le> i \<and> i < N)" by blast
    have t: "try_offsets cs p s N (k # offs) best = try_offsets cs p s N offs best" using e(1) False by (simp add: Let_def)
    from Cons.IH [OF _ Cons.prems(2)] Cons.prems(1) no show ?thesis unfolding t by fastforce
  next
    case True
    with evaluate_bounds [of cs ?start s N ?s s'] e(1) assms(5) have b: "0 < ls_inliers s'" "ls_inliers s' \<le> 19" "ls_offset s' = k" by auto
    from better_offset_ok [of s' "fst best"] b(3) k Cons.prems(2) obtain r where
      r: "better_offset s' (fst best) = Some r" "ls_inliers s' > ls_inliers (fst best) \<longrightarrow> r" by (auto simp: best_ok_def)
    let ?b = "if r then (s', ?start) else best"
    have t: "try_offsets cs p s N (k # offs) best = try_offsets cs p s N offs ?b" using e(1) True r(1) by (simp add: Let_def)
    have ok: "best_ok ?b" using Cons.prems(2) b k st True e(2) by (simp add: best_ok_def)
    have n: "ls_inliers (fst ?b) \<noteq> 0" using r(2) b(1) by (cases "ls_inliers (fst best) = 0") simp_all
    from Cons.IH [OF _ ok] Cons.prems(1) n show ?thesis unfolding t by auto
  qed
qed simp

subsection \<open>A line that counts\<close>

text \<open>The offset that puts a line on the middle of the board gives the line an index of the board, whatever the
  rounding: the errors sum up to less than half a spacing.\<close>

lemma round64_near:
  assumes "\<bar>x\<bar> < 2 ^ 30"
  shows "\<exists>y. round64 x = Fin y \<and> x - 1 / 1000 \<le> y \<and> y \<le> x + 1 / 1000"
proof -
  have "\<bar>fl64 x - x\<bar> \<le> 1 / 2 ^ 20" by (rule fl64_error [OF assms])
  also have "\<dots> \<le> 1 / 1000" by simp
  finally have e: "x - 1 / 1000 \<le> fl64 x" "fl64 x \<le> x + 1 / 1000" unfolding abs_le_iff by linarith+
  from assms have "- (2 ^ 30) < x" "x < 2 ^ 30" unfolding abs_less_iff by linarith+
  then have "fl64 x < 2 ^ 1024" "- (2 ^ 1024) < fl64 x" using e
    by (auto intro: order.strict_trans1 order.strict_trans2)
  then show ?thesis using e by (simp add: round64_def Let_def not_le)
qed

lemma round_away_near: "x - 1 / 2 \<le> of_int (round_away x)" "of_int (round_away x) \<le> x + 1 / 2"
proof -
  have f: "of_int \<lfloor>a\<rfloor> \<le> a" "a < of_int \<lfloor>a\<rfloor> + 1" for a :: rat by linarith+
  note f [of "x + 1 / 2"] f [of "- x + 1 / 2"]
  then show "x - 1 / 2 \<le> of_int (round_away x)" "of_int (round_away x) \<le> x + 1 / 2"
    unfolding round_away_def by (cases "x < 0"; simp only: if_True if_False of_int_minus; linarith)+
qed

lemma lround_int_eq:
  assumes "\<bar>q\<bar> \<le> 1000000"
  shows "lround_int (Fin q) = Some (round_away q)"
proof -
  have "\<bar>round_away q\<bar> \<le> 1000000" using round_away_bound [of q 1000000] assms by simp
  moreover from this have "signed_take_bit 31 (round_away q) = round_away q" by (intro signed_take_bit_int_eq_self) auto
  ultimately show ?thesis by (simp add: lround_int_def)
qed

lemma div_near:
  fixes z :: rat
  assumes "0 < z" "d / z - e \<le> q" "q \<le> d / z + e"
  shows "d - e * z \<le> q * z" "q * z \<le> d + e * z"
proof -
  have "(d / z - e) * z \<le> q * z" "q * z \<le> (d / z + e) * z" using assms by (simp_all add: mult_right_mono)
  with assms(1) show "d - e * z \<le> q * z" "q * z \<le> d + e * z" by (simp_all add: algebra_simps)
qed

lemma middle_index:
  assumes c: "d_in c 0 65536" and p: "d_in p 0 262144" and s: "d_in s 2 262144"
    and k: "approx_index p s c = Some k" and j: "0 \<le> j" "j \<le> 18"
  shows "\<exists>i. lround_int (d_div (d_sub c (d_add p (d_mul (d_int (k - j)) s))) s) = Some i \<and> \<bar>i - j\<bar> \<le> 1"
proof -
  obtain x y z where xyz: "c = Fin x" "p = Fin y" "s = Fin z" and
    b: "0 \<le> x" "x \<le> 65536" "0 \<le> y" "y \<le> 262144" "2 \<le> z" "z \<le> 262144" using c p s by (elim d_inE)
  let ?e = "1 / 1000 :: rat"
  have z: "0 < z" using b by simp
  \<comment> \<open>the approximate index\<close>
  have "\<bar>x - y\<bar> < 2 ^ 30" using b by (simp add: abs_less_iff)
  from round64_near [OF this] obtain d0 where d0: "round64 (x - y) = Fin d0" "x - y - ?e \<le> d0" "d0 \<le> x - y + ?e" by blast
  then have "\<bar>d0\<bar> \<le> 300000" using b by (intro abs_leI) linarith+
  then have d0z: "\<bar>d0 / z\<bar> \<le> 300000" using b(5) z by (simp add: pos_divide_le_eq)
  then have "\<bar>d0 / z\<bar> < 2 ^ 30" by simp
  from round64_near [OF this] obtain q0 where q0: "round64 (d0 / z) = Fin q0" "d0 / z - ?e \<le> q0" "q0 \<le> d0 / z + ?e" by blast
  have "\<bar>q0\<bar> \<le> 1000000" using q0(2,3) d0z unfolding abs_le_iff by linarith
  with k have "round_away q0 = k" using z by (simp add: approx_index_def xyz d_sub_def d0(1) q0(1) lround_int_eq)
  then have near: "q0 - 1 / 2 \<le> of_int k" "of_int k \<le> q0 + 1 / 2" using round_away_near [of q0] by simp_all
  have "(q0 - 1 / 2) * z \<le> of_int k * z" "of_int k * z \<le> (q0 + 1 / 2) * z" using near z by (simp_all add: mult_right_mono)
  then have kz: "q0 * z - z / 2 \<le> of_int k * z" "of_int k * z \<le> q0 * z + z / 2" by (simp_all add: algebra_simps)
  note qz = div_near [OF z q0(2,3)]
  \<comment> \<open>the start of the lattice\<close>
  define o' where "o' = of_int k * z - of_int j * z"
  have jz: "0 \<le> of_int j * z" "of_int j * z \<le> 18 * z" using j z by (simp_all add: mult_right_mono)
  have ob: "- 10000000 \<le> o'" "o' \<le> 10000000" using kz qz jz d0 b unfolding o'_def by linarith+
  then have "\<bar>o'\<bar> < 2 ^ 30" unfolding abs_less_iff by simp
  from round64_near [OF this] obtain m where m: "round64 o' = Fin m" "o' - ?e \<le> m" "m \<le> o' + ?e" by blast
  have "\<bar>y + m\<bar> < 2 ^ 30" unfolding abs_less_iff using m(2,3) ob b by simp
  from round64_near [OF this] obtain st where st: "round64 (y + m) = Fin st" "y + m - ?e \<le> st" "st \<le> y + m + ?e" by blast
  \<comment> \<open>the index of the line\<close>
  have "\<bar>x - st\<bar> < 2 ^ 30" unfolding abs_less_iff using st(2,3) m(2,3) ob b by simp
  from round64_near [OF this] obtain d where d: "round64 (x - st) = Fin d" "x - st - ?e \<le> d" "d \<le> x - st + ?e" by blast
  have "\<bar>d\<bar> \<le> 20000000" unfolding abs_le_iff using d(2,3) st(2,3) m(2,3) ob b by simp
  then have "\<bar>d / z\<bar> < 2 ^ 30" using z b(5) by (simp add: pos_divide_less_eq)
  from round64_near [OF this] obtain q where q: "round64 (d / z) = Fin q" "d / z - ?e \<le> q" "q \<le> d / z + ?e" by blast
  note qz' = div_near [OF z q(2,3)]
  have "(of_int j - 3 / 5) * z \<le> q * z" "q * z \<le> (of_int j + 3 / 5) * z"
    using qz' d(2,3) st(2,3) m(2,3) kz qz d0(2,3) b(5) by (simp_all add: o'_def algebra_simps)
  then have qj: "of_int j - 3 / 5 \<le> q" "q \<le> of_int j + 3 / 5" using z by simp_all
  then have "\<bar>q\<bar> \<le> 1000000" using j by (simp add: abs_le_iff)
  moreover have "\<bar>round_away q - j\<bar> \<le> 1"
  proof -
    have "(of_int (round_away q) :: rat) < of_int (j + 2)" "of_int (j - 2) < (of_int (round_away q) :: rat)"
      using qj round_away_near [of q] by simp_all
    then show ?thesis unfolding of_int_less_iff by simp
  qed
  moreover have "d_div (d_sub c (d_add p (d_mul (d_int (k - j)) s))) s = Fin q"
  proof -
    have "\<bar>k - j\<bar> < 2 ^ 53" using approx_index_ok [OF c p s] k j by auto
    then have "d_mul (d_int (k - j)) s = Fin m" by (simp add: d_int_in xyz o'_def left_diff_distrib flip: m(1))
    then show ?thesis using z by (simp add: xyz st(1) d_sub_def d(1) q(1))
  qed
  ultimately show ?thesis by (simp add: lround_int_eq)
qed

subsection \<open>A window\<close>

lemma gap_rms_in:
  assumes "\<forall>g \<in> set gaps. d_in g 0 65536" "d_in s 2 262144" "gaps \<noteq> []" "length gaps \<le> 65536"
  shows "d_in (gap_rms gaps s) 0 (2 ^ 28)"
proof -
  have "\<forall>g \<in> set gaps. d_in (d_sub g s) (- 262144) 262144" using assms(1) by (auto intro!: d_sub_in [OF _ assms(2), of _ 0 65536])
  note sum_squares_in [OF this assms(3,4)]
  then have "d_in (d_div (foldl (\<lambda>acc g. d_add acc (d_mul (d_sub g s) (d_sub g s))) (Fin 0) gaps) (d_int (int (length gaps))))
      0 (2 ^ 18 * 2 ^ 18)" by simp
  from d_sqrt_in [OF this] have "d_in (gap_rms gaps s) 0 (2 * 2 ^ 18)" using assms(3) by (simp add: gap_rms_def)
  then show ?thesis by (rule d_in_weaken) simp_all
qed

definition fit_ok :: "window_fit \<Rightarrow> bool" where
  "fit_ok fit \<longleftrightarrow> d_in (wf_start fit) (- (2 ^ 37)) (2 ^ 37) \<and> d_in (wf_spacing fit) 2 262144 \<and> d_in (wf_gapRms fit) 0 (2 ^ 28) \<and>
     0 < ls_inliers (wf_score fit) \<and> ls_inliers (wf_score fit) \<le> 19 \<and> d_in (ls_rms (wf_score fit)) 0 (2 ^ 51)"

lemma lit_milli_in: "d_in (lit (1 / 10 ^ 6)) (1 / 2 ^ 20) 1"
proof -
  have "fl64_num (1 / 2 ^ 20)" using lit_pow2 [of "-20"] by (simp add: power_int_minus)
  then show ?thesis unfolding lit_def by (rule round64_in) simp_all
qed

lemma fit_window_ok:
  assumes "lines_ok cs" "2 \<le> length cs" "libm_ok lm" "3 \<le> N" "N \<le> 19"
  shows "\<exists>fit. fit_window lm N cs = Some (Some fit) \<and> fit_ok fit"
proof -
  have c: "\<forall>c \<in> set cs. d_in c 0 65536" "length cs \<le> 65536" using lines_ok_in [OF assms(1)] assms(1) by (auto simp: lines_ok_def)
  have "length (adjacent_gaps cs) \<noteq> 0" using assms(2) by simp
  then have g: "adjacent_gaps cs \<noteq> []" "\<forall>g \<in> set (adjacent_gaps cs). d_in g 0 65536"
    using gaps_in [OF assms(1)] by (simp_all del: length_gaps)
  from modeGap_in [OF g] obtain s where s: "modeGap (adjacent_gaps cs) (Fin 4) = Some s" "d_in s 2 262144" by blast
  have s': "\<not> (d_less s (lit (1 / 10 ^ 6)) \<or> \<not> isfinite s)"
    using s(2) lit_milli_in d_in_finite [OF s(2)] by (auto elim!: d_inE)
  have r: "d_in (gap_rms (adjacent_gaps cs) s) 0 (2 ^ 28)" using c(2) by (intro gap_rms_in [OF g(2) s(2) g(1)]) simp
  have "\<forall>c \<in> set cs. isfinite c" using c(1) d_in_finite by blast
  from dominantResidualPhase_in [OF this c(2) s(2) assms(3)] obtain p where
    p: "dominantResidualPhase lm cs s = Some p" "d_in p 0 262144" by blast
  from candidate_offsets_ok [OF c(1) p(2) s(2) assms(5)] obtain offs where
    o': "candidate_offsets cs p s N = Some offs" "\<forall>k \<in> set offs. \<bar>k\<bar> \<le> 300000"
      "\<forall>c \<in> set cs. \<forall>k j. approx_index p s c = Some k \<longrightarrow> j < N \<longrightarrow> k - int j \<in> set offs" by blast
  have b: "best_ok (lattice_score_new, Fin 0)" by (simp add: best_ok_def lattice_score_new_def)
  from try_offsets_ok [OF c(1) p(2) s(2) _ _ o'(2) b, of "int N"] assms(4,5) obtain score start where
    t: "try_offsets cs p s (int N) offs (lattice_score_new, Fin 0) = Some (score, start)" "best_ok (score, start)"
      "(\<exists>k \<in> set offs. \<exists>c \<in> set cs. \<exists>i. lround_int (d_div (d_sub c (d_add p (d_mul (d_int k) s))) s) = Some i \<and> 0 \<le> i \<and> i < int N) \<longrightarrow>
        ls_inliers score \<noteq> 0" by auto
  have "ls_inliers score \<noteq> 0"
  proof -
    obtain c0 where c0: "c0 \<in> set cs" using assms(2) by (cases cs) auto
    from approx_index_ok [of c0 p s] c(1) c0 p(2) s(2) obtain k where k: "approx_index p s c0 = Some k" by blast
    from middle_index [OF _ p(2) s(2) k, of 1] c(1) c0 obtain i where
      "lround_int (d_div (d_sub c0 (d_add p (d_mul (d_int (k - 1)) s))) s) = Some i" "\<bar>i - 1\<bar> \<le> 1" by auto
    moreover have "k - int 1 \<in> set offs" using o'(3) [rule_format, OF c0 k, of 1] assms(4) by simp
    ultimately show ?thesis using t(3) c0 assms(4) by fastforce
  qed
  with t(2) have "fit_ok \<lparr>wf_score = score, wf_start = start, wf_spacing = s, wf_phase = p, wf_gapRms = gap_rms (adjacent_gaps cs) s\<rparr>"
    using s(2) r by (simp add: fit_ok_def best_ok_def)
  moreover have "isfinite (ls_rms score)" using t(2) \<open>ls_inliers score \<noteq> 0\<close> by (auto simp: best_ok_def dest: d_in_finite)
  ultimately show ?thesis using assms(2) s(1) s' p(1) o'(1) t(1) \<open>ls_inliers score \<noteq> 0\<close>
    by (simp add: fit_window_def Let_def)
qed

subsection \<open>The best window\<close>

lemma variant_window_ok:
  assumes "lines_ok cs" "6 \<le> length cs" "3 \<le> N" "variant < variant_count (length cs) N"
  shows "lines_ok (fst (variant_window cs N variant)) \<and> 2 \<le> length (fst (variant_window cs N variant))"
proof (cases "variant < window_count (length cs) N")
  case True
  let ?n = "if length cs \<ge> N then N else length cs" and ?w = "if window_count (length cs) N = 1 then 0 else variant"
  have "fst (variant_window cs N variant) = take ?n (drop ?w cs)" using True by (simp add: variant_window_def Let_def)
  moreover have "3 \<le> length (take ?n (drop ?w cs))" using True assms(2,3) by (auto simp: window_count_def)
  ultimately show ?thesis using lines_ok_take [OF lines_ok_drop [OF assms(1)], of ?n ?w] by simp
next
  case False
  then have "fst (variant_window cs N variant) = take (variant - window_count (length cs) N) cs @
      drop (Suc (variant - window_count (length cs) N)) cs" by (simp add: variant_window_def Let_def)
  with lines_ok_without [OF assms(1)] assms(2) show ?thesis by auto
qed

lemma spacing_dev_in:
  assumes "d_in g 2 262144" "d_in s 0 262144"
  shows "d_in (spacing_dev g s) 0 262144"
proof -
  have "d_in (d_sub s g) (- 262144) 262144" by (rule d_sub_in [OF assms(2,1)]) simp_all
  then show ?thesis using d_in_finite [OF assms(1)] by (auto simp: spacing_dev_def d_abs_def elim!: d_inE)
qed

lemma lit_small_in: "0 \<le> x \<Longrightarrow> x \<le> 2 \<Longrightarrow> d_in (lit x) 0 2"
  unfolding lit_def by (rule round64_in) simp_all

lemma miss_in: "n \<le> 19 \<Longrightarrow> i \<le> 19 \<Longrightarrow> d_in (d_mul (lit 2) (d_sub (d_int (int n)) (d_int (int i)))) (- 38) 38"
proof -
  assume "n \<le> 19" "i \<le> 19"
  then have "d_in (d_int (int n)) 0 19" "d_in (d_int (int i)) 0 19" by (simp_all add: d_int_in)
  from d_sub_in [OF this, of "-19" 19] have m: "d_in (d_sub (d_int (int n)) (d_int (int i))) (- 19) 19" by simp
  have "d_in (lit 2) (- 2) 2" using lit_small_in [of 2] by (auto elim: d_in_weaken)
  from d_mul_abs [OF this m, of 38] show ?thesis by simp
qed

lemma objective_finite:
  assumes "d_in (ls_rms s) 0 (2 ^ 51)" "ls_inliers s \<le> 19" "N \<le> 19" "d_in g 0 (2 ^ 28)" "d_in dev 0 262144"
  shows "d_in (objective N s g dev) (- 38) (2 ^ 94)"
proof -
  have "d_in (d_mul (lit (35 / 100)) g) 0 (2 ^ 29)" by (rule d_mul_in [OF lit_small_in assms(4)]) simp_all
  from d_add_in [OF assms(1) this, of 0 "2 ^ 60"] have "d_in (d_add (ls_rms s) (d_mul (lit (35 / 100)) g)) 0 (2 ^ 60)" by simp
  from d_add_in [OF this miss_in [OF assms(3,2)], of "-38" "2 ^ 61"]
  have a: "d_in (d_add (d_add (ls_rms s) (d_mul (lit (35 / 100)) g)) (d_mul (lit 2) (d_sub (d_int (int N)) (d_int (int (ls_inliers s))))))
      (- 38) (2 ^ 61)" by simp
  have "d_in (d_mul (lit (3 / 2)) dev) 0 524288" by (rule d_mul_in [OF lit_small_in assms(5)]) simp_all
  from d_add_in [OF a this, of "-38" "2 ^ 94"] show ?thesis by (simp add: objective_def Let_def)
qed

text \<open>The objective of no fit is infinite, so the first window with a fit is taken.\<close>

lemma objective_none:
  assumes "N \<le> 19" "d_in dev 0 262144"
  shows "objective N lattice_score_new PInf dev = PInf"
proof -
  have "fl64_num (1 / 4)" using lit_pow2 [of "-2"] by (simp add: power_int_minus)
  from round64_in [OF this, of 1 "35 / 100"] obtain r where r: "lit (35 / 100) = Fin r" "0 < r"
    by (auto simp: lit_def elim!: d_inE)
  obtain m where m: "d_mul (lit 2) (d_sub (d_int (int N)) (d_int (int 0))) = Fin m" using miss_in [OF assms(1), of 0] by (auto elim!: d_inE)
  have "d_in (d_mul (lit (3 / 2)) dev) 0 524288" by (rule d_mul_in [OF lit_small_in assms(2)]) simp_all
  then obtain v where v: "d_mul (lit (3 / 2)) dev = Fin v" by (auto elim!: d_inE)
  show ?thesis using r m v by (simp add: objective_def lattice_score_new_def Let_def d_signed_def)
qed

definition found :: "best_fit \<Rightarrow> bool" where
  "found bf \<longleftrightarrow> d_in (bf_start bf) (- (2 ^ 37)) (2 ^ 37) \<and> d_in (bf_spacing bf) 2 262144 \<and>
     ls_inliers (bf_score bf) \<noteq> 0 \<and> isfinite (ls_rms (bf_score bf))"

lemma select_first:
  assumes "fit_ok fit" "d_in g 2 262144" "N \<le> 19"
  shows "select_current N g fit w best_fit_new"
proof -
  have "d_in (spacing_dev g (wf_spacing fit)) 0 262144"
    using assms(1) by (intro spacing_dev_in [OF assms(2)]) (auto simp: fit_ok_def elim: d_in_weaken)
  with objective_finite [of "wf_score fit" N "wf_gapRms fit"] assms(1,3)
  have c: "d_in (objective N (wf_score fit) (wf_gapRms fit) (spacing_dev g (wf_spacing fit))) (- 38) (2 ^ 94)"
    by (simp add: fit_ok_def)
  have e: "d_in RMS_EPS 0 1" using lit_milli_in by (auto simp: RMS_EPS_def elim!: d_in_weaken)
  from d_add_in [OF c e, of "-38" "2 ^ 99"]
  obtain o1 where o1: "d_add (objective N (wf_score fit) (wf_gapRms fit) (spacing_dev g (wf_spacing fit))) RMS_EPS = Fin o1"
    by (auto elim!: d_inE)
  have "objective N lattice_score_new PInf (spacing_dev g (Fin 0)) = PInf"
    by (intro objective_none [OF assms(3)] spacing_dev_in [OF assms(2)]) simp
  with o1 show ?thesis by (simp add: select_current_def best_fit_new_def Let_def)
qed

lemma fit_window_spacing:
  "fit_window lm N cs = Some (Some fit) \<Longrightarrow> modeGap (adjacent_gaps cs) (Fin 4) = Some (wf_spacing fit)"
  by (auto simp: fit_window_def Let_def bind_eq_Some_conv split: if_splits)

lemma try_variants_ok:
  assumes "lines_ok cs" "6 \<le> length cs" "libm_ok lm" "3 \<le> N" "N \<le> 19" "d_in g 2 262144"
    and "\<forall>v < variant_count (length cs) N. \<forall>s. modeGap (adjacent_gaps (fst (variant_window cs N v))) (Fin 4) = Some s \<longrightarrow> R s"
    and "\<forall>v \<in> set vs. v < variant_count (length cs) N" "bf = best_fit_new \<or> found bf \<and> R (bf_spacing bf)"
  shows "\<exists>bf'. try_variants lm cs N g vs bf = Some bf' \<and> (vs \<noteq> [] \<longrightarrow> found bf' \<and> R (bf_spacing bf'))"
  using assms(8,9)
proof (induction vs arbitrary: bf)
  case (Cons v vs)
  obtain ws w where w: "variant_window cs N v = (ws, w)" by force
  have "lines_ok ws" "2 \<le> length ws" using variant_window_ok [OF assms(1,2,4), of v] Cons.prems(1) w by simp_all
  from fit_window_ok [OF this assms(3,4,5)] obtain fit where fit: "fit_window lm N ws = Some (Some fit)" "fit_ok fit" by blast
  let ?new = "\<lparr>bf_score = wf_score fit, bf_start = wf_start fit, bf_spacing = wf_spacing fit, bf_phase = wf_phase fit,
    bf_windowStart = w, bf_gapRms = wf_gapRms fit\<rparr>"
  let ?bf = "if select_current N g fit w bf then ?new else bf"
  have "R (wf_spacing fit)" using assms(7) Cons.prems(1) fit_window_spacing [OF fit(1)] w by fastforce
  then have "found ?new \<and> R (bf_spacing ?new)" using fit(2) by (auto simp: found_def fit_ok_def dest: d_in_finite)
  then have ok: "found ?bf \<and> R (bf_spacing ?bf)" using Cons.prems(2) select_first [OF fit(2) assms(6,5)] by auto
  with Cons.IH [of ?bf] Cons.prems(1) obtain bf' where
    "try_variants lm cs N g vs ?bf = Some bf'" "vs \<noteq> [] \<longrightarrow> found bf' \<and> R (bf_spacing bf')" by auto
  moreover have "vs = [] \<Longrightarrow> bf' = ?bf" using calculation(1) by simp
  ultimately have "try_variants lm cs N g vs ?bf = Some bf'" "found bf' \<and> R (bf_spacing bf')" using ok by (blast, cases vs) auto
  then show ?case using w fit(1) by simp
qed simp

text \<open>Six lines are enough, wherever they are.\<close>

lemma selectGrid_spacing:
  assumes "lines_ok cs" "libm_ok lm" "isValidN N" "6 \<le> length cs"
    and "\<forall>v < variant_count (length cs) N. \<forall>s. modeGap (adjacent_gaps (fst (variant_window cs N v))) (Fin 4) = Some s \<longrightarrow> R s"
  shows "\<exists>start spacing. selectGridByLatticeFit lm cs N = Some (Some (lattice_grid N start spacing)) \<and>
    d_in start (- (2 ^ 37)) (2 ^ 37) \<and> d_in spacing 2 262144 \<and> R spacing"
proof -
  have N: "3 \<le> N" "N \<le> 19" using assms(3) by (auto simp: isValidN_def)
  have "adjacent_gaps cs \<noteq> []" using assms(4) length_gaps [of cs] by (cases "adjacent_gaps cs") (simp_all del: length_gaps)
  with modeGap_in [of "adjacent_gaps cs"] gaps_in [OF assms(1)] obtain g where
    g: "modeGap (adjacent_gaps cs) (Fin 4) = Some g" "d_in g 2 262144" by blast
  let ?vs = "[0..<variant_count (length cs) N]"
  have "?vs \<noteq> []" by (simp add: variant_count_def window_count_def)
  with try_variants_ok [OF assms(1,4,2) N g(2) assms(5), of ?vs best_fit_new] obtain bf where
    "try_variants lm cs N g ?vs best_fit_new = Some bf" "found bf" "R (bf_spacing bf)" by auto
  with g(1) assms(4) show ?thesis by (auto simp: selectGridByLatticeFit_def found_def)
qed

lemma selectGrid_ok:
  assumes "lines_ok cs" "libm_ok lm" "isValidN N"
  shows "if length cs < 6 then selectGridByLatticeFit lm cs N = Some None
    else \<exists>start spacing. selectGridByLatticeFit lm cs N = Some (Some (lattice_grid N start spacing)) \<and>
      d_in start (- (2 ^ 37)) (2 ^ 37) \<and> d_in spacing 2 262144"
  using selectGrid_spacing [OF assms, of "\<lambda>s. True"] by (auto simp: selectGridByLatticeFit_def)

subsection \<open>Both axes\<close>

lemma length_grid [simp]: "length (lattice_grid N start spacing) = N"
  by (simp add: lattice_grid_def)

lemma grid_spacing:
  assumes "d_in start (- (2 ^ 37)) (2 ^ 37)" "d_in spacing 2 262144" "2 \<le> N"
  shows "d_in (lattice_grid N start spacing ! 0) (- (2 ^ 38)) (2 ^ 38)"
    "d_in (d_sub (lattice_grid N start spacing ! 1) (lattice_grid N start spacing ! 0)) (- (2 ^ 39)) (2 ^ 39)"
proof -
  have at: "d_in (lattice_grid N start spacing ! k) (- (2 ^ 38)) (2 ^ 38)" if "k < 2" for k
  proof -
    have k: "d_in (d_int (int k)) 0 1" using that by (simp add: d_int_in)
    have "d_in (d_mul (d_int (int k)) spacing) 0 262144" by (rule d_mul_in [OF k assms(2)]) simp_all
    from d_add_in [OF assms(1) this, of "- (2 ^ 38)" "2 ^ 38"] show ?thesis using that assms(3) by (simp add: lattice_grid_def)
  qed
  show "d_in (lattice_grid N start spacing ! 0) (- (2 ^ 38)) (2 ^ 38)" by (rule at) simp
  from d_sub_in [OF at at, of 1 0 "- (2 ^ 39)" "2 ^ 39"]
  show "d_in (d_sub (lattice_grid N start spacing ! 1) (lattice_grid N start spacing ! 0)) (- (2 ^ 39)) (2 ^ 39)" by simp
qed

text \<open>A candidate of size \<open>N\<close> holds two lattices of \<open>N\<close> lines.\<close>

definition grid_ok :: "nat \<Rightarrow> double list \<Rightarrow> bool" where
  "grid_ok N grid \<longleftrightarrow> (\<exists>start spacing. grid = lattice_grid N start spacing \<and>
     d_in start (- (2 ^ 37)) (2 ^ 37) \<and> d_in spacing 2 262144)"

lemma grid_okI: "d_in start (- (2 ^ 37)) (2 ^ 37) \<Longrightarrow> d_in spacing 2 262144 \<Longrightarrow> grid_ok N (lattice_grid N start spacing)"
  unfolding grid_ok_def by blast

definition joint_ok :: "nat \<Rightarrow> joint_candidate \<Rightarrow> bool" where
  "joint_ok N jc \<longleftrightarrow> jc_N jc = N \<and> grid_ok N (jc_v jc) \<and> grid_ok N (jc_h jc)"

lemma joint_fit_ok:
  assumes "lines_ok vs" "lines_ok hs" "libm_ok lm" "isValidN N"
  shows "\<exists>r. joint_fit lm vs hs N = Some r \<and> (\<forall>jc. r = Some jc \<longrightarrow> joint_ok N jc \<and> 6 \<le> length vs \<and> 6 \<le> length hs)"
proof -
  have N: "2 \<le> N" "0 < int N" "int N \<le> 19" using assms(4) by (auto simp: isValidN_def)
  show ?thesis
  proof (cases "length vs < 6")
    case True
    with selectGrid_ok [OF assms(1,3,4)] show ?thesis by (simp add: joint_fit_def)
  next
    case v: False
    with selectGrid_ok [OF assms(1,3,4)] obtain a b where
      v': "selectGridByLatticeFit lm vs N = Some (Some (lattice_grid N a b))" "d_in a (- (2 ^ 37)) (2 ^ 37)" "d_in b 2 262144" by auto
    show ?thesis
    proof (cases "length hs < 6")
      case True
      with selectGrid_ok [OF assms(2,3,4)] v'(1) show ?thesis by (simp add: joint_fit_def)
    next
      case h: False
      with selectGrid_ok [OF assms(2,3,4)] obtain c d where
        h': "selectGridByLatticeFit lm hs N = Some (Some (lattice_grid N c d))" "d_in c (- (2 ^ 37)) (2 ^ 37)" "d_in d 2 262144" by auto
      let ?v = "lattice_grid N a b" and ?h = "lattice_grid N c d"
      let ?vs = "d_sub (?v ! 1) (?v ! 0)" and ?hs = "d_sub (?h ! 1) (?h ! 0)"
      let ?good = "d_less (lit (1 / 10 ^ 6)) ?vs \<and> d_less (lit (1 / 10 ^ 6)) ?hs \<and> isfinite ?vs \<and> isfinite ?hs"
      note gv = grid_spacing [OF v'(2,3) N(1)] and gh = grid_spacing [OF h'(2,3) N(1)]
      show ?thesis
      proof (cases ?good)
        case False
        with v'(1) h'(1) N(1) show ?thesis by (auto simp: joint_fit_def Let_def)
      next
        case True
        have big: "d_in x (1 / 2 ^ 20) (2 ^ 40)" if "d_less (lit (1 / 10 ^ 6)) x" "d_in x (- (2 ^ 39)) (2 ^ 39)" for x
          using that lit_milli_in by (auto elim!: d_inE)
        have lv: "lattice_ok (?v ! 0) ?vs" and lh: "lattice_ok (?h ! 0) ?hs"
          using big gv gh True by (auto elim: d_in_weaken)
        have cv: "\<forall>c \<in> set vs. d_in c 0 65536" and ch: "\<forall>c \<in> set hs. d_in c 0 65536"
          using lines_ok_in assms(1,2) by blast+
        from evaluate_ok [OF cv lv N(2,3), of lattice_score_new] obtain ov sv where
          ev: "evaluateLatticeOffset vs (?v ! 0) ?vs (int N) lattice_score_new = Some (ov, sv)" by blast
        from evaluate_ok [OF ch lh N(2,3), of lattice_score_new] obtain oh sh where
          eh: "evaluateLatticeOffset hs (?h ! 0) ?hs (int N) lattice_score_new = Some (oh, sh)" by blast
        show ?thesis using v'(1) h'(1) N(1) True ev eh v h grid_okI [OF v'(2,3)] grid_okI [OF h'(2,3)]
          by (cases ov; cases oh) (auto simp: joint_fit_def Let_def joint_ok_def)
      qed
    qed
  qed
qed

lemma try_sizes_ok:
  assumes "lines_ok vs" "lines_ok hs" "libm_ok lm" "\<forall>N \<in> set Ns. isValidN N \<and> N \<in> Q"
    and "\<forall>b. best = Some b \<longrightarrow> jc_N b \<in> Q \<and> isValidN (jc_N b) \<and> joint_ok (jc_N b) b \<and> 6 \<le> length vs \<and> 6 \<le> length hs"
  shows "\<exists>best'. try_sizes lm vs hs Ns best = Some best' \<and>
    (\<forall>b. best' = Some b \<longrightarrow> jc_N b \<in> Q \<and> isValidN (jc_N b) \<and> joint_ok (jc_N b) b \<and> 6 \<le> length vs \<and> 6 \<le> length hs)"
  using assms(4,5)
proof (induction Ns arbitrary: best)
  case (Cons N Ns)
  from joint_fit_ok [OF assms(1,2,3), of N] Cons.prems(1) obtain r where
    r: "joint_fit lm vs hs N = Some r" "\<forall>jc. r = Some jc \<longrightarrow> joint_ok N jc \<and> 6 \<le> length vs \<and> 6 \<le> length hs" by auto
  let ?b = "case r of None \<Rightarrow> best | Some current \<Rightarrow> (case best of None \<Rightarrow> Some current
    | Some b \<Rightarrow> if isBetterJointCandidate current b then Some current else best)"
  have "\<forall>b. ?b = Some b \<longrightarrow> jc_N b \<in> Q \<and> isValidN (jc_N b) \<and> joint_ok (jc_N b) b \<and> 6 \<le> length vs \<and> 6 \<le> length hs"
    using Cons.prems r(2) by (auto simp: joint_ok_def split: option.splits if_splits)
  from Cons.IH [OF _ this] Cons.prems(1) r(1) show ?case by simp
qed simp

lemma findGrid_ok:
  assumes "lines_ok vs" "lines_ok hs" "libm_ok lm"
  shows "findGrid lm vs hs grids Ns = Some (False, grids) \<or>
    6 \<le> length vs \<and> 6 \<le> length hs \<and> (\<exists>N \<in> set Ns. isValidN N \<and> (\<exists>v h. grid_ok N v \<and> grid_ok N h \<and>
      findGrid lm vs hs grids Ns = Some (True, v, h)))"
proof -
  have "\<forall>N \<in> set (filter isValidN Ns). isValidN N \<and> N \<in> set Ns" by simp
  from try_sizes_ok [OF assms this, of None] obtain best where
    b: "try_sizes lm vs hs (filter isValidN Ns) None = Some best"
      "\<forall>b. best = Some b \<longrightarrow> jc_N b \<in> set Ns \<and> isValidN (jc_N b) \<and> joint_ok (jc_N b) b \<and> 6 \<le> length vs \<and> 6 \<le> length hs"
    by auto
  show ?thesis
  proof (cases best)
    case None
    with b(1) show ?thesis by (simp add: findGrid_def Let_def)
  next
    case (Some j)
    with b(2) have j: "jc_N j \<in> set Ns" "isValidN (jc_N j)" "joint_ok (jc_N j) j" "6 \<le> length vs" "6 \<le> length hs" by simp_all
    have "jc_N j \<noteq> 0" using j(2) by (auto simp: isValidN_def)
    moreover have "grid_ok (jc_N j) (jc_v j)" "grid_ok (jc_N j) (jc_h j)" using j(3) by (simp_all add: joint_ok_def)
    moreover from this have "length (jc_v j) = jc_N j" "length (jc_h j) = jc_N j" by (auto simp: grid_ok_def)
    moreover have "filter isValidN Ns \<noteq> []" using j(1,2) by (auto simp: filter_empty_conv)
    ultimately have "findGrid lm vs hs grids Ns = Some (True, jc_v j, jc_h j)" "grid_ok (jc_N j) (jc_v j)" "grid_ok (jc_N j) (jc_h j)"
      using b(1) Some j(2) by (simp_all add: findGrid_def Let_def)
    with j show ?thesis by blast
  qed
qed

end
