(* ===== verification/Regular_Lines.thy ===== *)
theory Regular_Lines imports Grid_Search begin

text \<open>
  Lines at equal distances: the estimate of their distance is the middle of the first bin, whose lower end is the
  smallest gap, and so is two pixels too large.
\<close>

subsection \<open>A mode at the smallest gap\<close>

lemma gap_votes_length: "gap_votes gmin w gs hist = Some hist' \<Longrightarrow> length hist' = length hist"
  by (induction gs arbitrary: hist) (auto simp: bind_eq_Some_conv split: if_splits)

lemma gap_votes_mode:
  assumes "gap_votes gmin (Fin 4) gs hist = Some hist'" "gap_bin gmin (Fin 4) m = Some 0" "hist \<noteq> []"
  shows "hist' ! 0 \<ge> hist ! 0 + int (length (filter (\<lambda>x. x = m) gs)) \<and>
    (\<forall>i < length hist. 0 < i \<longrightarrow> hist' ! i \<le> hist ! i + int (length (filter (\<lambda>x. x \<noteq> m) gs)))"
  using assms
proof (induction gs arbitrary: hist)
  case (Cons g gs)
  from Cons.prems(1) obtain b where b: "gap_bin gmin (Fin 4) g = Some b" by (auto simp: bind_eq_Some_conv)
  define h where "h = (if 0 \<le> b \<and> b < int (length hist) then hist[nat b := hist ! nat b + 1] else hist)"
  have v: "gap_votes gmin (Fin 4) gs h = Some hist'" using Cons.prems(1) b by (simp add: h_def)
  have h: "length h = length hist" "h \<noteq> []" "hist ! 0 \<le> h ! 0" "\<forall>i < length hist. h ! i \<le> hist ! i + 1"
    using Cons.prems(3) by (auto simp: h_def nth_list_update)
  have m: "h ! 0 = hist ! 0 + 1 \<and> (\<forall>i > 0. h ! i = hist ! i)" if "g = m"
    using that b Cons.prems(2,3) by (auto simp: h_def)
  note IH = Cons.IH [OF v Cons.prems(2) h(2)]
  show ?case
  proof (intro conjI allI impI)
    show "hist ! 0 + int (length (filter (\<lambda>x. x = m) (g # gs))) \<le> hist' ! 0" using IH h(3) m by auto
  next
    fix i
    assume i: "i < length hist" "0 < i"
    with IH h(1) have "hist' ! i \<le> h ! i + int (length (filter (\<lambda>x. x \<noteq> m) gs))" by simp
    moreover have "h ! i \<le> hist ! i + 1" using h(4) i by simp
    ultimately show "hist' ! i \<le> hist ! i + int (length (filter (\<lambda>x. x \<noteq> m) (g # gs)))" using m i(2) by auto
  qed
qed auto

lemma max_element_first: "\<forall>i < length xs. xs ! i \<le> xs ! 0 \<Longrightarrow> max_element xs = 0"
proof -
  assume m: "\<forall>i < length xs. xs ! i \<le> xs ! 0"
  have "foldl (\<lambda>b i. if xs ! b < xs ! i then i else b) 0 is = 0" if "\<forall>i \<in> set is. i < length xs" for "is"
    using that m by (induction "is") (auto simp: not_less)
  then show ?thesis by (simp add: max_element_def)
qed

lemma mode_at_min:
  assumes "\<forall>g \<in> set gaps. d_in g 0 65536" "Fin m \<in> set gaps" "\<forall>x. Fin x \<in> set gaps \<longrightarrow> m \<le> x" "fl64_num m"
    and "length (filter (\<lambda>x. x \<noteq> Fin m) gaps) \<le> length (filter (\<lambda>x. x = Fin m) gaps)"
  shows "modeGap gaps (Fin 4) = Some (round64 (m + 2))"
proof -
  obtain g gs where gaps: "gaps = g # gs" using assms(2) by (cases gaps) auto
  have fin: "\<forall>x \<in> set gaps. isfinite x" using assms(1) d_in_finite by blast
  let ?min = "d_min_element g gs"
  obtain x where x: "g = Fin x" "0 \<le> x" "x \<le> 65536" using assms(1) by (auto simp: gaps elim!: d_inE)
  have mn: "?min = Fin m"
  proof -
    obtain r where r: "?min = Fin r" "r \<le> x" "\<forall>v. Fin v \<in> set gs \<longrightarrow> r \<le> v"
      using min_element_least [of gs x] fin x(1) by (auto simp: gaps)
    have "?min \<in> insert g (set gs)" unfolding d_min_element_def
      by (induction gs arbitrary: g) auto
    then have "m \<le> r" using assms(3) r(1) by (auto simp: gaps)
    moreover have "r \<le> m" using assms(2) r x(1) by (auto simp: gaps)
    ultimately show ?thesis using r(1) by simp
  qed
  from modeGap_in [OF _ assms(1)] obtain s where s: "modeGap gaps (Fin 4) = Some s" by (auto simp: gaps)
  then obtain n hist where n: "gap_votes ?min (Fin 4) gaps (replicate n 0) = Some hist"
      "s = d_add ?min (d_mul (d_add (d_int (int (max_element hist))) (lit (1 / 2))) (Fin 4))"
    by (auto simp: modeGap_def gaps Let_def bind_eq_Some_conv simp del: gap_votes.simps split: if_splits)
  have bin: "gap_bin ?min (Fin 4) (Fin m) = Some 0"
    by (simp add: gap_bin_def mn d_sub_def round64_def d_to_int_def d_trunc_def int32_def int32_ok_def)
  have "max_element hist = 0"
  proof (cases "n = 0")
    case True
    then show ?thesis using gap_votes_length [OF n(1)] by (simp add: max_element_def)
  next
    case False
    then have "replicate n (0 :: int) \<noteq> []" by simp
    note v = gap_votes_mode [OF n(1) bin this]
    have l: "length hist = n" using gap_votes_length [OF n(1)] by simp
    have "hist ! i \<le> hist ! 0" if i: "i < length hist" for i
    proof (cases "i = 0")
      case False
      with v i l have "hist ! i \<le> int (length (filter (\<lambda>x. x \<noteq> Fin m) gaps))"
        "int (length (filter (\<lambda>x. x = Fin m) gaps)) \<le> hist ! 0" by auto
      with assms(5) show ?thesis by linarith
    qed simp
    then show ?thesis by (intro max_element_first) simp
  qed
  moreover have "round64 2 = Fin 2" "round64 (1 / 2) = Fin (1 / 2)"
    using lit_half(1) fl64_num_simps(3) [of "Num.Bit0 Num.One"] by (simp_all add: lit_def round64_def fl64_num_def Let_def)
  ultimately show ?thesis using s n(2) by (simp add: mn lit_half d_int_in)
qed

subsection \<open>Lines at equal distances\<close>

definition regular_lines :: "int \<Rightarrow> int \<Rightarrow> nat \<Rightarrow> double list" where
  "regular_lines a g M = map (\<lambda>k. Fin (of_int (a + g * int k))) [0..<M]"

lemma regular_lines_ok:
  assumes "0 \<le> a" "0 < g" "a + g * int M \<le> 65536"
  shows "lines_ok (regular_lines a g M)"
proof -
  have g: "0 \<le> g * int k" "g * int k \<le> g * int M" if "k < M" for k
    using that assms(2) by (simp, intro mult_left_mono) simp_all
  have b: "0 \<le> (of_int (a + g * int k) :: rat) \<and> (of_int (a + g * int k) :: rat) \<le> 65536" if "k < M" for k
  proof -
    have "of_int 0 \<le> (of_int (a + g * int k) :: rat)" "(of_int (a + g * int k) :: rat) \<le> of_int 65536"
      unfolding of_int_le_iff using g [OF that] assms by linarith+
    then show ?thesis by simp
  qed
  have "1 * int M \<le> g * int M" using assms(2) by (intro mult_right_mono) simp_all
  then have "M \<le> 65536" using assms by simp
  define xs where "xs = map (\<lambda>k. of_int (a + g * int k) :: rat) [0..<M]"
  have "sorted xs" using assms(2) by (simp add: sorted_iff_nth_mono xs_def)
  moreover have "\<forall>x \<in> set xs. 0 \<le> x \<and> x \<le> 65536" using b by (auto simp: xs_def)
  moreover have "regular_lines a g M = map Fin xs" "length (regular_lines a g M) = M"
    by (simp_all add: regular_lines_def xs_def)
  ultimately show ?thesis using \<open>M \<le> 65536\<close> unfolding lines_ok_def by metis
qed

text \<open>Gaps of lines whose numbers are known.\<close>

lemma regular_gaps:
  assumes "0 \<le> a" "0 < g" "a + g * int M \<le> 65536" "length cs = n"
    and "\<forall>i < n. cs ! i = Fin (of_int (a + g * int (e i)))" "\<forall>i < n - 1. e i < e (i + 1)" "\<forall>i < n. e i < M"
  shows "adjacent_gaps cs = map (\<lambda>i. Fin (of_int (g * (int (e (i + 1)) - int (e i))))) [0..<n - 1]"
proof -
  have "d_sub (cs ! (i + 1)) (cs ! i) = Fin (of_int (g * (int (e (i + 1)) - int (e i))))" if i: "i < n - 1" for i
  proof -
    let ?d = "g * (int (e (i + 1)) - int (e i))"
    have "e i < e (i + 1)" "e (i + 1) < M" using assms(6,7) i by simp_all
    then have "0 \<le> ?d" "?d \<le> g * int M" using assms(2) by (simp, intro mult_left_mono) simp_all
    then have "\<bar>?d\<bar> < 2 ^ 53" using assms(1,3) by simp
    from d_int_in [OF this] have "round64 (of_int ?d) = Fin (of_int ?d)" by (simp only: d_int_def)
    moreover have "(of_int (a + g * int (e (i + 1))) :: rat) + - of_int (a + g * int (e i)) = of_int ?d"
      by (simp add: algebra_simps)
    moreover have "cs ! (i + 1) = Fin (of_int (a + g * int (e (i + 1))))" "cs ! i = Fin (of_int (a + g * int (e i)))"
      using assms(5) i by simp_all
    ultimately show ?thesis by (simp only: d_sub_def d_neg.simps d_add.simps)
  qed
  then show ?thesis by (simp add: adjacent_gaps_def assms(4))
qed

text \<open>At most one of the gaps is wider.\<close>

lemma regular_mode:
  assumes "0 \<le> a" "0 < g" "a + g * int M \<le> 65536" "length cs = n" "5 \<le> n"
    and "\<forall>i < n. cs ! i = Fin (of_int (a + g * int (e i)))" "\<forall>i < n. e i < M"
    and "\<forall>i < n - 1. e i < e (i + 1)" "\<forall>i < n - 1. i \<noteq> d \<longrightarrow> e (i + 1) = e i + 1" "lines_ok cs"
  shows "modeGap (adjacent_gaps cs) (Fin 4) = Some (Fin (of_int (g + 2)))"
proof -
  let ?gap = "\<lambda>i. Fin (of_int (g * (int (e (i + 1)) - int (e i))) :: rat)" and ?m = "of_int g :: rat"
  have gs: "adjacent_gaps cs = map ?gap [0..<n - 1]" by (rule regular_gaps [OF assms(1-4,6,8,7)])
  have same: "adjacent_gaps cs ! i = Fin ?m" if "i < n - 1" "i \<noteq> d" for i using assms(9) that by (simp add: gs)
  have ge: "?m \<le> of_int (g * (int (e (i + 1)) - int (e i)))" if "i < n - 1" for i
  proof -
    have "g * 1 \<le> g * (int (e (i + 1)) - int (e i))" using assms(2,8) that by (intro mult_left_mono) force+
    then show ?thesis unfolding of_int_le_iff by simp
  qed
  have "{i. i < length (adjacent_gaps cs) \<and> adjacent_gaps cs ! i \<noteq> Fin ?m} \<subseteq> {d}" using same assms(4) by auto
  from card_mono [OF _ this] have ne: "length (filter (\<lambda>x. x \<noteq> Fin ?m) (adjacent_gaps cs)) \<le> 1"
    unfolding length_filter_conv_card by simp
  moreover have "length (filter (\<lambda>x. x = Fin ?m) (adjacent_gaps cs)) + length (filter (\<lambda>x. x \<noteq> Fin ?m) (adjacent_gaps cs)) = n - 1"
    using sum_length_filter_compl [of "\<lambda>x. x = Fin ?m" "adjacent_gaps cs"] assms(4) by simp
  ultimately have cnt: "length (filter (\<lambda>x. x \<noteq> Fin ?m) (adjacent_gaps cs)) \<le> length (filter (\<lambda>x. x = Fin ?m) (adjacent_gaps cs))"
    "filter (\<lambda>x. x = Fin ?m) (adjacent_gaps cs) \<noteq> []" using assms(5) by auto
  have gM: "g \<le> 65536"
  proof -
    have "e 0 < M" using assms(5,7) by simp
    then have "0 < M" by simp
    then have "g * 1 \<le> g * int M" using assms(2) by (intro mult_left_mono) simp_all
    then show ?thesis using assms(1,3) by simp
  qed
  have "modeGap (adjacent_gaps cs) (Fin 4) = Some (round64 (?m + 2))"
  proof (rule mode_at_min)
    show "\<forall>g \<in> set (adjacent_gaps cs). d_in g 0 65536" using gaps_in [OF assms(10)] by blast
    show "Fin ?m \<in> set (adjacent_gaps cs)" using cnt(2) by (auto simp: filter_empty_conv)
    show "\<forall>x. Fin x \<in> set (adjacent_gaps cs) \<longrightarrow> ?m \<le> x" unfolding gs using ge by auto
    show "fl64_num ?m" using gM assms(2) by (intro fl64_num_int) simp
  qed (rule cnt(1))
  moreover have "round64 (of_int (g + 2)) = Fin (of_int (g + 2))"
    using d_int_in [of "g + 2"] gM assms(2) by (simp only: d_int_def) simp
  ultimately show ?thesis by simp
qed

subsection \<open>The windows of regular lines\<close>

lemma regular_window_mode:
  assumes "0 \<le> a" "0 < g" "a + g * int M \<le> 65536" "6 \<le> M" "5 \<le> N" "v < variant_count M N"
  shows "modeGap (adjacent_gaps (fst (variant_window (regular_lines a g M) N v))) (Fin 4) = Some (Fin (of_int (g + 2)))"
proof -
  let ?cs = "regular_lines a g M"
  have len: "length ?cs = M" and at: "?cs ! i = Fin (of_int (a + g * int i))" if "i < M" for i
    using that by (simp_all add: regular_lines_def)
  have l: "length ?cs = M" by (simp add: regular_lines_def)
  have ok: "lines_ok ?cs" by (rule regular_lines_ok [OF assms(1-3)])
  show ?thesis
  proof (cases "v < window_count M N")
    case True
    define n where "n = (if M \<ge> N then N else M)"
    define w where "w = (if window_count M N = 1 then 0 else v)"
    have ws: "fst (variant_window ?cs N v) = take n (drop w ?cs)" using True by (simp add: variant_window_def Let_def l n_def w_def)
    have nw: "w + n \<le> M" "5 \<le> n" using True assms(4,5) by (auto simp: window_count_def n_def w_def)
    show ?thesis unfolding ws
      by (rule regular_mode [where n = n and e = "\<lambda>i. w + i" and d = 0 and M = M, OF assms(1-3)])
         (use nw l at lines_ok_take [OF lines_ok_drop [OF ok]] in auto)
  next
    case False
    with assms(6) have "M = N" by (auto simp: variant_count_def split: if_splits)
    define d where "d = v - window_count M N"
    have d: "d < M" using assms(6) False \<open>M = N\<close> by (auto simp: variant_count_def d_def)
    have ws: "fst (variant_window ?cs N v) = take d ?cs @ drop (Suc d) ?cs" using False
      by (simp add: variant_window_def Let_def l d_def)
    let ?e = "\<lambda>i. if i < d then i else i + 1"
    show ?thesis unfolding ws
      by (rule regular_mode [where n = "M - 1" and e = ?e and d = "d - 1" and M = M, OF assms(1-3)])
         (use d l at assms(4) lines_ok_without [OF ok, of d] in \<open>auto simp: nth_append min_def\<close>)
  qed
qed

text \<open>The lattice of regular lines has its lines two pixels too far apart.\<close>

lemma regular_lines_lattice:
  assumes "0 \<le> a" "0 < g" "a + g * int M \<le> 65536" "6 \<le> M" "isValidN N" "libm_ok lm"
  shows "\<exists>start. selectGridByLatticeFit lm (regular_lines a g M) N = Some (Some (lattice_grid N start (Fin (of_int (g + 2)))))"
proof -
  have l: "length (regular_lines a g M) = M" by (simp add: regular_lines_def)
  have "5 \<le> N" using assms(5) by (auto simp: isValidN_def)
  then have "\<forall>v < variant_count (length (regular_lines a g M)) N. \<forall>s.
      modeGap (adjacent_gaps (fst (variant_window (regular_lines a g M) N v))) (Fin 4) = Some s \<longrightarrow> s = Fin (of_int (g + 2))"
    using regular_window_mode [OF assms(1-4)] l by simp
  from selectGrid_spacing [OF regular_lines_ok [OF assms(1-3)] assms(6,5) _ this] l assms(4) show ?thesis by auto
qed

end
