(* ===== verification/Statistics.thy ===== *)
theory Statistics imports Doubles "HOL-Library.Multiset" begin

text \<open>
  \<open>src/vision/core/statistics.cpp\<close>: mean, variance and median of numbers. \<open>std::nth_element\<close> puts in place the
  element that sorting would put there; it needs a strict weak order, which NaN breaks: \<open>None\<close>, as for the failed
  \<open>assert\<close> of an empty vector.
\<close>

definition mean :: "double list \<Rightarrow> double" where
  "mean v = (if v = [] then Fin 0 else d_div (foldl d_add (Fin 0) v) (d_int (int (length v))))"

definition variance :: "double list \<Rightarrow> double" where
  "variance v =
     (if length v < 2 then Fin 0
      else let m = mean v;
               accum = foldl (\<lambda>acc x. d_add acc (d_mul (d_sub x m) (d_sub x m))) (Fin 0) v
           in d_div accum (d_int (int (length v))))"

definition stddev :: "double list \<Rightarrow> double" where
  "stddev v = d_sqrt (variance v)"

text \<open>The order of the numbers; NaN, which no comparison places, is put last.\<close>

definition double_rank :: "double \<Rightarrow> nat \<times> rat" where
  "double_rank d = (case d of MInf \<Rightarrow> (0, 0) | Fin x \<Rightarrow> (1, x) | PInf \<Rightarrow> (2, 0) | NaN \<Rightarrow> (3, 0))"

lemma double_rank_inj: "double_rank x = double_rank y \<longleftrightarrow> x = y"
  by (cases x; cases y) (simp_all add: double_rank_def)

instantiation double :: linorder
begin

definition less_eq_double :: "double \<Rightarrow> double \<Rightarrow> bool" where
  "less_eq_double x y \<longleftrightarrow> fst (double_rank x) < fst (double_rank y) \<or>
     fst (double_rank x) = fst (double_rank y) \<and> snd (double_rank x) \<le> snd (double_rank y)"

definition less_double :: "double \<Rightarrow> double \<Rightarrow> bool" where
  "less_double x y \<longleftrightarrow> x \<le> y \<and> x \<noteq> y"

instance
  by standard (auto simp: less_eq_double_def less_double_def simp flip: double_rank_inj intro: prod_eqI)

end

lemma d_less_order: "x \<noteq> NaN \<Longrightarrow> y \<noteq> NaN \<Longrightarrow> d_less x y \<longleftrightarrow> x < y"
  by (cases x; cases y) (auto simp: less_double_def less_eq_double_def double_rank_def)

lemma d_less_imp_less: "d_less x y \<Longrightarrow> x < y"
  using d_less_order d_less_not_NaN by blast

definition nth_element :: "double list \<Rightarrow> nat \<Rightarrow> double option" where
  "nth_element xs k = (if NaN \<in> set xs then None else vec_at (sort xs) k)"

definition median :: "double list \<Rightarrow> double option" where
  "median xs =
     (if xs = [] then None
      else do {
        let n = length xs;
        let mid = n div 2;
        m \<leftarrow> nth_element xs mid;
        if n mod 2 = 0
        then do { l \<leftarrow> nth_element xs (mid - 1); Some (d_mul (lit (1 / 2)) (d_add m l)) }
        else Some m
      })"

lemma median_defined: "xs \<noteq> [] \<Longrightarrow> NaN \<notin> set xs \<Longrightarrow> \<exists>m. median xs = Some m"
proof -
  assume xs: "xs \<noteq> []" "NaN \<notin> set xs"
  then have "length xs div 2 < length xs" "length xs div 2 - 1 < length xs" by (simp_all add: less_imp_diff_less)
  with xs show ?thesis by (simp add: median_def nth_element_def Let_def)
qed

text \<open>The median does not depend on the order; an odd number of numbers has fewer than half on either side of it.\<close>

lemma median_mset:
  assumes "mset xs = mset ys"
  shows "median xs = median ys"
proof -
  have "sort xs = sort ys" using assms by (intro properties_for_sort) simp_all
  with mset_eq_setD [OF assms] have e: "nth_element xs = nth_element ys" by (simp add: nth_element_def fun_eq_iff)
  have l: "length xs = length ys" using assms by (rule mset_eq_length)
  then have n: "xs = [] \<longleftrightarrow> ys = []" by auto
  show ?thesis unfolding median_def e l n by (rule refl)
qed

lemma filter_sort_card: "length (filter P xs) = card {i. i < length xs \<and> P (sort xs ! i)}" for xs :: "'a :: linorder list"
proof -
  have "length (filter P xs) = length (filter P (sort xs))" by (metis mset_filter mset_sort size_mset)
  then show ?thesis by (simp add: length_filter_conv_card)
qed

lemma median_odd:
  assumes "median xs = Some m" "odd (length xs)"
  shows "2 * length (filter (\<lambda>x. x < m) xs) < length xs" "2 * length (filter (\<lambda>x. m < x) xs) < length xs"
proof -
  obtain k where k: "length xs = 2 * k + 1" using assms(2) by (elim oddE)
  then have m: "m = sort xs ! k" using assms by (auto simp: median_def nth_element_def Let_def vec_at_def split: if_splits)
  have s: "sorted (sort xs)" by simp
  have "{i. i < length xs \<and> sort xs ! i < m} \<subseteq> {..<k}"
    using sorted_nth_mono [OF s] k by (force simp: m not_less [symmetric])
  from card_mono [OF _ this] show "2 * length (filter (\<lambda>x. x < m) xs) < length xs" by (simp add: filter_sort_card k)
  have "{i. i < length xs \<and> m < sort xs ! i} \<subseteq> {k<..<length xs}"
    using sorted_nth_mono [OF s] k by (force simp: m not_less [symmetric])
  from card_mono [OF _ this] show "2 * length (filter (\<lambda>x. m < x) xs) < length xs" by (simp add: filter_sort_card k)
qed

subsection \<open>Positions in an image\<close>

lemma mean_in:
  assumes "\<forall>x \<in> set xs. d_in x 0 65536" "length xs \<le> 65536"
  shows "d_in (mean xs) 0 65536"
proof (cases "xs = []")
  case False
  have "d_in (foldl d_add a ys) 0 (of_nat (n + length ys) * 65536)"
    if "d_in a 0 (of_nat n * 65536)" "\<forall>y \<in> set ys. d_in y 0 65536" "n + length ys \<le> 65536" for a n ys
    using that
  proof (induction ys arbitrary: a n)
    case (Cons y ys)
    have "\<bar>int (Suc n)\<bar> < 2 ^ 53" using Cons.prems(3) by simp
    from fl64_num_scaled [OF this, of 16] have "fl64_num (of_nat (Suc n) * 65536)" by simp
    from d_add_in [OF Cons.prems(1) _ _ this, of y 0 65536 0] Cons.prems(2) have "d_in (d_add a y) 0 (of_nat (Suc n) * 65536)"
      by (simp add: algebra_simps)
    from Cons.IH [OF this] Cons.prems(2,3) show ?case by simp
  qed simp
  from this [of "Fin 0" 0 xs] assms have f: "d_in (foldl d_add (Fin 0) xs) 0 (of_nat (length xs) * 65536)" by simp
  have i: "d_int (int (length xs)) = Fin (of_nat (length xs))" "0 < (of_nat (length xs) :: rat)"
    using assms(2) False by (simp_all add: d_int_in)
  have "d_in (d_div (foldl d_add (Fin 0) xs) (d_int (int (length xs)))) 0 65536" unfolding i(1)
    by (rule d_div_in [OF f, where c = "of_nat (length xs)" and d = "of_nat (length xs)"]) (use i(2) in simp_all)
  with False show ?thesis by (simp add: mean_def)
qed (simp add: mean_def)

lemma stddev_in:
  assumes "\<forall>x \<in> set xs. d_in x 0 65536" "length xs \<le> 65536"
  shows "d_in (variance xs) 0 (2 ^ 36)" "d_in (stddev xs) 0 (2 ^ 19)"
proof -
  have "\<forall>x \<in> set xs. d_in (d_sub x (mean xs)) (- 262144) 262144"
    using assms(1) by (auto intro!: d_sub_in [OF _ mean_in [OF assms], of _ 0 65536])
  with sum_squares_in [OF this] assms(2) show v: "d_in (variance xs) 0 (2 ^ 36)"
    by (cases xs) (auto simp: variance_def Let_def)
  then have "d_in (variance xs) 0 (2 ^ 18 * 2 ^ 18)" by simp
  from d_sqrt_in [OF this] show "d_in (stddev xs) 0 (2 ^ 19)" by (simp add: stddev_def)
qed

end
