(* ===== verification/Vision_Properties.thy ===== *)
theory Vision_Properties imports Regular_Lines Statistics begin

text \<open>
  The properties of the grid fitting of \<open>src/vision/core/gridFinder.cpp\<close>. The lines are positions in an image of
  at most 65536 pixels, in ascending order (\<open>lines_ok\<close>); \<open>libm_ok\<close> is what the search relies on of the sine, the
  cosine and the arc tangent of the standard library.
\<close>

definition constant_libm :: libm where
  "constant_libm = \<lparr>libm_sin = \<lambda>x. Fin 0, libm_cos = \<lambda>x. Fin 1, libm_atan2 = \<lambda>x y. Fin 0\<rparr>"

lemma constant_libm_ok: "libm_ok constant_libm"
  by (simp add: libm_ok_def constant_libm_def)

lemma pixel_lines_ok: "sorted xs \<Longrightarrow> \<forall>x \<in> set xs. 0 \<le> x \<and> x \<le> 65536 \<Longrightarrow> length xs \<le> 65536 \<Longrightarrow> lines_ok (map Fin xs)"
  by (auto simp: lines_ok_def)

text \<open>C31: the grid search never runs into undefined behaviour: no value leaves the range of its type and no index its
  vector, whatever lines were found and whatever sizes are asked for. Either no grid is found and the two vectors of
  the caller are as before, or both axes have at least six lines and the two grids have the same number of lines,
  one of the sizes asked for and a size of a board, in equal steps of at least two pixels (\<open>grid_ok\<close>).\<close>

theorem find_grid_never_faults:
  assumes "lines_ok vCenters" "lines_ok hCenters" "libm_ok lm"
  shows "findGrid lm vCenters hCenters grids candidateNs = Some (False, grids) \<or>
    6 \<le> length vCenters \<and> 6 \<le> length hCenters \<and> (\<exists>N \<in> set candidateNs. isValidN N \<and> (\<exists>v h. grid_ok N v \<and> grid_ok N h \<and>
      findGrid lm vCenters hCenters grids candidateNs = Some (True, v, h)))"
  using assms by (rule findGrid_ok)

theorem find_grid_never_faults_witness:
  "findGrid constant_libm (map Fin [10, 50, 90, 130, 170, 215]) (map Fin [20, 60, 100]) ([], []) [9, 13] =
     Some (False, [], [])"
  using find_grid_never_faults
    [of "map Fin [10, 50, 90, 130, 170, 215]" "map Fin [20, 60, 100]" constant_libm "([], [])" "[9, 13]"]
    constant_libm_ok pixel_lines_ok [of "[10, 50, 90, 130, 170, 215]"] pixel_lines_ok [of "[20, 60, 100]"] by simp

text \<open>The score of a lattice is bounded by the lattice: if the score is given then some line matched, the lines that
  matched lie within the span, the span within the lattice, and the offset is left alone.\<close>

theorem lattice_score_bounds:
  assumes "evaluateLatticeOffset centers start spacing N score = Some (True, score')"
  shows "0 < ls_inliers score' \<and> int (ls_inliers score') \<le> ls_span score' \<and> ls_span score' \<le> N \<and>
    ls_offset score' = ls_offset score"
  using assms by (rule evaluate_bounds)

theorem lattice_score_bounds_witness:
  "evaluateLatticeOffset [Fin 10, Fin 50, Fin 170] (Fin 10) (Fin 40) 5 lattice_score_new =
     Some (True, \<lparr>ls_rms = Fin 0, ls_inliers = 3, ls_span = 5, ls_offset = 0\<rparr>) \<and> (3::int) \<le> 5"
proof -
  have e: "evaluateLatticeOffset [Fin 10, Fin 50, Fin 170] (Fin 10) (Fin 40) 5 lattice_score_new =
     Some (True, \<lparr>ls_rms = Fin 0, ls_inliers = 3, ls_span = 5, ls_offset = 0\<rparr>)"
    by (simp add: whole_numbers evaluateLatticeOffset_def match_center_def Let_def d_sub_def d_int_def d_le_def
      vec_at_def vec_set_def upt_rec eval_nat_numeral count_match_def lattice_score_new_def)
  with lattice_score_bounds [OF e] show ?thesis by simp
qed

text \<open>C32: equally spaced lines do not get their own grid back: for \<open>M\<close> lines that are exactly \<open>g\<close> pixels apart the
  grid that is found has its lines \<open>g + 2\<close> pixels apart, since the spacing is the middle of a bin of four pixels whose
  lower end is the smallest gap.\<close>

theorem regular_lines_too_wide:
  assumes "0 \<le> a" "0 < g" "a + g * int M \<le> 65536" "6 \<le> M" "isValidN N" "libm_ok lm"
  shows "\<exists>start. selectGridByLatticeFit lm (regular_lines a g M) N = Some (Some (lattice_grid N start (Fin (of_int (g + 2)))))"
  using assms by (rule regular_lines_lattice)

theorem regular_lines_too_wide_witness:
  "\<exists>start. selectGridByLatticeFit constant_libm (regular_lines 10 40 9) 9 = Some (Some (lattice_grid 9 start (Fin 42)))"
  using regular_lines_too_wide [of 10 40 9 9 constant_libm] constant_libm_ok by (simp add: isValidN_def)

end
