(* ===== verification/Singles.thy ===== *)
theory Singles imports Statistics begin

text \<open>
  \<open>float\<close>: the same values as \<open>double\<close>, each operation rounded to 24 bits. Comparisons, sign, absolute value and
  clamping are exact and shared. \<open>std::sort\<close> needs numbers that can be compared: \<open>None\<close> when one of them is NaN.
\<close>

definition round32 :: "rat \<Rightarrow> double" where
  "round32 x = (let y = fl32 x in if 2 ^ 128 \<le> y then PInf else if y \<le> - (2 ^ 128) then MInf else Fin y)"

text \<open>A literal, and \<open>static_cast<float>\<close> of an integer.\<close>

definition flit :: "rat \<Rightarrow> double" where "flit x = round32 x"

definition f_int :: "int \<Rightarrow> double" where "f_int n = round32 (of_int n)"

definition f_add :: "double \<Rightarrow> double \<Rightarrow> double" where
  "f_add x y = (case (x, y) of (Fin a, Fin b) \<Rightarrow> round32 (a + b) | _ \<Rightarrow> d_add x y)"

definition f_sub :: "double \<Rightarrow> double \<Rightarrow> double" where "f_sub x y = f_add x (d_neg y)"

definition f_mul :: "double \<Rightarrow> double \<Rightarrow> double" where
  "f_mul x y = (case (x, y) of (Fin a, Fin b) \<Rightarrow> round32 (a * b) | _ \<Rightarrow> d_mul x y)"

definition f_div :: "double \<Rightarrow> double \<Rightarrow> double" where
  "f_div x y = (case (x, y) of (Fin a, Fin b) \<Rightarrow> if b = 0 then d_signed a PInf else round32 (a / b) | _ \<Rightarrow> d_div x y)"

text \<open>\<open>static_cast<float>\<close> of a \<open>double\<close>.\<close>

definition f_of_d :: "double \<Rightarrow> double" where
  "f_of_d x = (case x of Fin u \<Rightarrow> round32 u | _ \<Rightarrow> x)"

text \<open>\<open>std::min\<close> and \<open>std::max\<close>\<close>

definition d_min :: "double \<Rightarrow> double \<Rightarrow> double" where "d_min x y = (if d_less y x then y else x)"

definition d_max :: "double \<Rightarrow> double \<Rightarrow> double" where "d_max x y = (if d_less x y then y else x)"

definition d_sort :: "double list \<Rightarrow> double list option" where
  "d_sort xs = (if NaN \<in> set xs then None else Some (sort xs))"

text \<open>\<open>std::lround\<close>, which must be in the range of \<open>long\<close>, and conversions to \<open>std::size_t\<close> and \<open>int\<close>.\<close>

definition lround_long :: "double \<Rightarrow> int option" where
  "lround_long d = (case d of Fin x \<Rightarrow> if \<bar>round_away x\<bar> < 2 ^ 63 then Some (round_away x) else None | _ \<Rightarrow> None)"

definition size_of_int :: "int \<Rightarrow> nat" where "size_of_int n = nat (n mod 2 ^ 64)"

definition int_of_size :: "nat \<Rightarrow> int" where "int_of_size n = signed_take_bit 31 (int n)"

text \<open>\<open>std::clamp\<close> of integers, undefined when the bounds are crossed.\<close>

definition clamp_int :: "int \<Rightarrow> int \<Rightarrow> int \<Rightarrow> int option" where
  "clamp_int v lo hi = (if hi < lo then None else Some (if v < lo then lo else if hi < v then hi else v))"

subsection \<open>Values in range\<close>

definition fl32_num :: "rat \<Rightarrow> bool" where
  "fl32_num x \<longleftrightarrow> fl32 x = x \<and> \<bar>x\<bar> < 2 ^ 128"

lemma fl32_num_int: "\<bar>n\<bar> < 2 ^ 24 \<Longrightarrow> fl32_num (of_int n)"
  unfolding fl32_num_def
proof
  assume n: "\<bar>n\<bar> < 2 ^ 24"
  then show "fl32 (of_int n) = of_int n" by (rule fl32_int)
  from n have "(of_int \<bar>n\<bar> :: rat) < of_int (2 ^ 24)" by (simp only: of_int_less_iff)
  also have "\<dots> < 2 ^ 128" by simp
  finally show "\<bar>of_int n :: rat\<bar> < 2 ^ 128" by simp
qed

lemma fl32_num_simps [simp]: "fl32_num 0" "fl32_num 1" "fl32_num (- 1)"
  "numeral k < (2 ^ 24 :: int) \<Longrightarrow> fl32_num (numeral k)" "numeral k < (2 ^ 24 :: int) \<Longrightarrow> fl32_num (- numeral k)"
  using fl32_num_int [of 0] fl32_num_int [of 1] fl32_num_int [of "- 1"] fl32_num_int [of "numeral k"] fl32_num_int [of "- numeral k"]
  by simp_all

lemma fl32_num_minus: "fl32_num h \<Longrightarrow> fl32_num (- h)"
  by (simp add: fl32_num_def)

lemma fl32_num_pow2:
  assumes "-149 \<le> k" "k < 128"
  shows "fl32_num (pow2 k)"
proof -
  have "pow2 k < pow2 128" using assms by (simp only: pow2_less_iff)
  moreover have "pow2 128 = 2 ^ 128" using pow2_nat [of 128] by simp
  ultimately show ?thesis using assms rnd_pow2 [of 24 "-149" k] by (simp only: fl32_num_def abs_of_pos pow2_pos)
qed

lemma fl32_num_power: "k < 128 \<Longrightarrow> fl32_num (2 ^ k)"
  using fl32_num_pow2 [of "int k"] by (simp add: power_int_def)

lemma round32_in:
  assumes "fl32_num a" "fl32_num b" "a \<le> x" "x \<le> b"
  shows "d_in (round32 x) a b"
proof -
  have "a \<le> fl32 x" "fl32 x \<le> b" using assms by (auto simp: fl32_num_def intro: rnd_ge rnd_le)
  then show ?thesis using assms(1,2) by (auto simp: fl32_num_def round32_def d_in_def Let_def)
qed

lemma round32_exact: "fl32_num x \<Longrightarrow> round32 x = Fin x"
  using round32_in [of x x x] by (auto simp: d_in_def)

lemma round32_numerals [simp]: "round32 0 = Fin 0" "round32 1 = Fin 1" "round32 (- 1) = Fin (- 1)"
  "numeral k < (2 ^ 24 :: int) \<Longrightarrow> round32 (numeral k) = Fin (numeral k)"
  "numeral k < (2 ^ 24 :: int) \<Longrightarrow> round32 (- numeral k) = Fin (- numeral k)"
  by (simp_all add: round32_exact)

lemma f_ops_Fin [simp]:
  "f_add (Fin a) (Fin b) = round32 (a + b)" "f_sub (Fin a) (Fin b) = round32 (a - b)" "f_mul (Fin a) (Fin b) = round32 (a * b)"
  "f_div (Fin a) (Fin b) = (if b = 0 then d_signed a PInf else round32 (a / b))"
  by (simp_all add: f_add_def f_sub_def f_mul_def f_div_def)

lemma f_int_exact: "\<bar>n\<bar> < 2 ^ 24 \<Longrightarrow> f_int n = Fin (of_int n)"
  by (simp add: f_int_def round32_exact fl32_num_int)

lemma f_add_in:
  assumes "d_in x a b" "d_in y c d" "fl32_num l" "fl32_num h" "l \<le> a + c" "b + d \<le> h"
  shows "d_in (f_add x y) l h"
  using assms by (auto simp: d_in_def [of x] d_in_def [of y] intro!: round32_in)

lemma f_sub_in:
  assumes "d_in x a b" "d_in y c d" "fl32_num l" "fl32_num h" "l \<le> a - d" "b - c \<le> h"
  shows "d_in (f_sub x y) l h"
  using assms by (auto simp: d_in_def [of x] d_in_def [of y] intro!: round32_in)

lemma f_mul_in:
  assumes "d_in x a b" "d_in y c d" "0 \<le> a" "0 \<le> c" "fl32_num l" "fl32_num h" "l \<le> a * c" "b * d \<le> h"
  shows "d_in (f_mul x y) l h"
proof -
  obtain u v where xy: "x = Fin u" "a \<le> u" "u \<le> b" "y = Fin v" "c \<le> v" "v \<le> d" using assms(1,2) by (elim d_inE)
  have "a * c \<le> u * v" "u * v \<le> b * d" using xy assms(3,4) by (auto intro!: mult_mono)
  with assms xy(1,4) show ?thesis by (auto intro!: round32_in)
qed

lemma f_mul_abs:
  assumes "d_in x (- a) a" "d_in y (- b) b" "fl32_num h" "a * b \<le> h"
  shows "d_in (f_mul x y) (- h) h"
proof -
  obtain u v where xy: "x = Fin u" "\<bar>u\<bar> \<le> a" "y = Fin v" "\<bar>v\<bar> \<le> b" using assms(1,2) by (fastforce elim!: d_inE)
  have "\<bar>u * v\<bar> \<le> a * b" unfolding abs_mult using xy by (intro mult_mono) auto
  then have "\<bar>u * v\<bar> \<le> h" using assms(4) by linarith
  with assms(3) xy(1,3) show ?thesis by (auto simp: abs_le_iff intro!: round32_in fl32_num_minus)
qed

lemma f_square_in:
  assumes "d_in x (- a) a" "fl32_num h" "a * a \<le> h"
  shows "d_in (f_mul x x) 0 h"
proof -
  obtain u where x: "x = Fin u" "\<bar>u\<bar> \<le> a" using assms(1) by (fastforce elim!: d_inE)
  have "\<bar>u\<bar> * \<bar>u\<bar> \<le> a * a" using x by (intro mult_mono) auto
  then have "u * u \<le> h" using assms(3) by (simp add: abs_mult_self_eq)
  with assms(2) x(1) show ?thesis by (auto intro!: round32_in)
qed

lemma f_div_in:
  assumes "d_in x a b" "d_in y c d" "0 \<le> a" "0 < c" "fl32_num h" "b \<le> h * c"
  shows "d_in (f_div x y) 0 h"
proof -
  obtain u v where xy: "x = Fin u" "a \<le> u" "u \<le> b" "y = Fin v" "c \<le> v" "v \<le> d" using assms(1,2) by (elim d_inE)
  have v: "0 < v" using xy assms(4) by linarith
  have "0 \<le> h * c" using assms(3,6) xy by linarith
  then have "0 \<le> h" using assms(4) by (simp add: zero_le_mult_iff)
  then have "h * c \<le> h * v" using xy by (auto intro: mult_left_mono)
  then have "u \<le> h * v" using xy assms(6) by linarith
  then have "0 \<le> u / v" "u / v \<le> h" using v xy assms(3) by (simp_all add: pos_divide_le_eq)
  with assms(5) xy(1,4) v show ?thesis by (auto intro!: round32_in)
qed

lemma f_div_abs:
  assumes "d_in x (- a) a" "d_in y c d" "0 < c" "fl32_num h" "a \<le> h * c"
  shows "d_in (f_div x y) (- h) h"
proof -
  obtain u v where xy: "x = Fin u" "\<bar>u\<bar> \<le> a" "y = Fin v" "c \<le> v" using assms(1,2) by (fastforce elim!: d_inE)
  have v: "0 < v" using xy assms(3) by linarith
  have "0 \<le> h * c" using assms(5) xy(2) by linarith
  then have "0 \<le> h" using assms(3) by (simp add: zero_le_mult_iff)
  then have "h * c \<le> h * v" using xy(4) by (intro mult_left_mono)
  then have "\<bar>u\<bar> \<le> h * v" using xy(2) assms(5) by linarith
  then have "\<bar>u / v\<bar> \<le> h" using v by (simp add: pos_divide_le_eq)
  then have "- h \<le> u / v" "u / v \<le> h" by (simp_all only: abs_le_iff) linarith
  with assms(4) xy(1,3) v show ?thesis by (auto intro!: round32_in fl32_num_minus)
qed

lemma d_max_in: "d_in x a b \<Longrightarrow> d_in y a' b' \<Longrightarrow> b \<le> h \<Longrightarrow> b' \<le> h \<Longrightarrow> d_in (d_max x y) a h"
  by (auto simp: d_max_def d_in_def)

lemma d_neg_in: "d_in x a b \<Longrightarrow> d_in (d_neg x) (- b) (- a)"
  by (auto simp: d_in_def)

lemma d_abs_in: "d_in x (- a) a \<Longrightarrow> d_in (d_abs x) 0 a"
  by (auto simp: d_in_def d_abs_def)

lemma d_in_not_NaN: "d_in x a b \<Longrightarrow> x \<noteq> NaN"
  by (auto simp: d_in_def)

subsection \<open>Sorting and the median\<close>

lemma d_sort_in:
  assumes "\<forall>x \<in> set xs. d_in x a b"
  shows "d_sort xs = Some (sort xs)" "\<forall>x \<in> set (sort xs). d_in x a b"
  using assms by (auto simp: d_sort_def dest: d_in_not_NaN)

lemma lround_long_defined:
  assumes "d_in x (- of_int b) (of_int b)" "b < 2 ^ 63"
  shows "\<exists>n. lround_long x = Some n \<and> \<bar>n\<bar> \<le> b"
proof -
  obtain u where x: "x = Fin u" "\<bar>u\<bar> \<le> of_int b" using assms(1) by (fastforce elim!: d_inE)
  with round_away_bound [OF x(2)] assms(2) show ?thesis by (simp add: lround_long_def)
qed

end
