(* ===== verification/Stone_Config.thy ===== *)
theory Stone_Config imports Singles begin

text \<open>
  \<open>src/vision/core/include/camera/stoneFinder.hpp\<close>: the parameters of the recognition of stones and their defaults.
\<close>

record geometry_config =
  gc_innerRadiusFallback :: int
  gc_innerRadiusSpacingK :: double
  gc_innerRadiusMin :: int
  gc_innerRadiusMax :: int
  gc_bgRadiusMin :: int
  gc_bgRadiusMax :: int
  gc_bgOffsetSpacingK :: double
  gc_bgOffsetMinExtra :: int
  gc_bgOffsetFallbackAdd :: int
  gc_minBgSamples :: int
  gc_supportDelta :: double
  gc_labNeutral :: double
  gc_blurSigmaRadiusK :: double
  gc_blurSigmaMin :: double
  gc_blurSigmaMax :: double

definition geometry_config_default :: geometry_config where
  "geometry_config_default = \<lparr>gc_innerRadiusFallback = 6, gc_innerRadiusSpacingK = lit (24 / 100),
     gc_innerRadiusMin = 2, gc_innerRadiusMax = 30, gc_bgRadiusMin = 2, gc_bgRadiusMax = 12,
     gc_bgOffsetSpacingK = lit (48 / 100), gc_bgOffsetMinExtra = 2, gc_bgOffsetFallbackAdd = 6, gc_minBgSamples = 5,
     gc_supportDelta = flit 18, gc_labNeutral = flit 128, gc_blurSigmaRadiusK = lit (15 / 100),
     gc_blurSigmaMin = lit 1, gc_blurSigmaMax = lit 4\<rparr>"

record calibration_config =
  cc_madToSigma :: double
  cc_sigmaMin :: double
  cc_emptyBandSigma :: double
  cc_likelyEmptySupportSumMax :: double
  cc_calibMinEmptySamples :: int
  cc_calibMinEmptyFraction :: double
  cc_chromaTFallback :: double
  cc_chromaTMin :: double

definition calibration_config_default :: calibration_config where
  "calibration_config_default = \<lparr>cc_madToSigma = flit (14826 / 10000), cc_sigmaMin = flit 5,
     cc_emptyBandSigma = flit (18 / 10), cc_likelyEmptySupportSumMax = flit (35 / 100), cc_calibMinEmptySamples = 8,
     cc_calibMinEmptyFraction = flit (1 / 10), cc_chromaTFallback = flit 400, cc_chromaTMin = flit 100\<rparr>"

record scoring_config =
  sc_scoreWDelta :: double
  sc_scoreWSupport :: double
  sc_scoreWChroma :: double
  sc_margin0 :: double
  sc_edgePenalty :: double
  sc_confChromaDownweight :: double
  sc_emptyScoreBias :: double
  sc_emptyScoreZPenalty :: double
  sc_emptyScoreSupportPenalty :: double

definition scoring_config_default :: scoring_config where
  "scoring_config_default = \<lparr>sc_scoreWDelta = flit 1, sc_scoreWSupport = flit (2 / 10),
     sc_scoreWChroma = flit (9 / 10), sc_margin0 = flit (15 / 10), sc_edgePenalty = flit (2 / 10),
     sc_confChromaDownweight = flit (25 / 100), sc_emptyScoreBias = flit (3 / 10), sc_emptyScoreZPenalty = flit (75 / 100),
     sc_emptyScoreSupportPenalty = flit (15 / 100)\<rparr>"

record decision_config =
  dc_minZBlack :: double
  dc_minZBlackNearEdgeAdd :: double
  dc_minZBlackOnEdgeAdd :: double
  dc_minZWhite :: double
  dc_minSupportBlack :: double
  dc_minSupportWhite :: double
  dc_minSupportAdvantageBlack :: double
  dc_minSupportAdvantageWhite :: double
  dc_minSupportAdvantageWhiteFloor :: double
  dc_minNeighborContrastBlack :: double
  dc_minNeighborContrastWhite :: double
  dc_whiteStrongAdvMin :: double
  dc_whiteStrongNeighborMin :: double
  dc_whiteLowChromaMax :: double
  dc_whiteLowChromaMaxNearEdge :: double
  dc_whiteLowChromaMinZ :: double
  dc_whiteLowChromaMinBright :: double
  dc_whiteLowChromaMinBrightNearEdge :: double
  dc_edgeWhiteNearChromaSq :: double
  dc_edgeWhiteNearMinBrightFrac :: double
  dc_edgeWhiteNearWeakChromaSq :: double
  dc_edgeWhiteNearWeakBrightFrac :: double
  dc_edgeWhiteNearWeakMinConf :: double
  dc_edgeWhiteHighChromaSq :: double
  dc_edgeWhiteMinBrightFrac :: double
  dc_minConfidenceBlack :: double
  dc_minConfidenceBlackBoardSize :: u32
  dc_minConfidenceWhite :: double
  dc_minConfidenceWhiteBoardSize :: u32
  dc_minBlackMarginMult :: double
  dc_minWhiteMarginMult :: double
  dc_emptyRescueMinZ :: double
  dc_emptyRescueMinBright :: double
  dc_emptyRescueMinBrightAdv :: double
  dc_emptyRescueMinMarginMult :: double
  dc_refineTriggerMult :: double
  dc_refineSkipStableEmptyMarginMult :: double
  dc_refineAcceptGainMult :: double
  dc_refineAcceptFromEmptyGainMult :: double
  dc_refineMinAbsZWhite :: double
  dc_refineMinAbsZBlack :: double
  dc_refineMinSupportAdvWhite :: double
  dc_refineMinSupportAdvBlack :: double

definition decision_config_default :: decision_config where
  "decision_config_default = \<lparr>dc_minZBlack = flit (38 / 10), dc_minZBlackNearEdgeAdd = flit (4 / 10),
     dc_minZBlackOnEdgeAdd = flit (12 / 10), dc_minZWhite = flit (55 / 100), dc_minSupportBlack = flit (5 / 10),
     dc_minSupportWhite = flit (8 / 100), dc_minSupportAdvantageBlack = flit (8 / 100),
     dc_minSupportAdvantageWhite = flit (3 / 100), dc_minSupportAdvantageWhiteFloor = flit (- (13 / 100)),
     dc_minNeighborContrastBlack = flit 14, dc_minNeighborContrastWhite = flit 0,
     dc_whiteStrongAdvMin = flit (6 / 100), dc_whiteStrongNeighborMin = flit 14, dc_whiteLowChromaMax = flit 420,
     dc_whiteLowChromaMaxNearEdge = flit 420, dc_whiteLowChromaMinZ = flit (57 / 100),
     dc_whiteLowChromaMinBright = flit (95 / 1000), dc_whiteLowChromaMinBrightNearEdge = flit (11 / 100),
     dc_edgeWhiteNearChromaSq = flit 70, dc_edgeWhiteNearMinBrightFrac = flit (11 / 100),
     dc_edgeWhiteNearWeakChromaSq = flit 45, dc_edgeWhiteNearWeakBrightFrac = flit (11 / 100),
     dc_edgeWhiteNearWeakMinConf = flit (965 / 1000), dc_edgeWhiteHighChromaSq = flit 120,
     dc_edgeWhiteMinBrightFrac = flit (35 / 100), dc_minConfidenceBlack = flit (9 / 10),
     dc_minConfidenceBlackBoardSize = 13, dc_minConfidenceWhite = flit 0, dc_minConfidenceWhiteBoardSize = 13,
     dc_minBlackMarginMult = flit 1, dc_minWhiteMarginMult = flit (3 / 10), dc_emptyRescueMinZ = flit (35 / 100),
     dc_emptyRescueMinBright = flit (8 / 100), dc_emptyRescueMinBrightAdv = flit (2 / 100),
     dc_emptyRescueMinMarginMult = flit (35 / 100), dc_refineTriggerMult = flit (125 / 100),
     dc_refineSkipStableEmptyMarginMult = flit (8 / 10), dc_refineAcceptGainMult = flit (2 / 10),
     dc_refineAcceptFromEmptyGainMult = flit (1 / 10), dc_refineMinAbsZWhite = flit (12 / 10),
     dc_refineMinAbsZBlack = flit 2, dc_refineMinSupportAdvWhite = flit (2 / 10),
     dc_refineMinSupportAdvBlack = flit (35 / 100)\<rparr>"

record refinement_config =
  rc_refineExtentSpacingK :: double
  rc_refineExtentFallback :: int
  rc_refineExtentMin :: int
  rc_refineExtentMax :: int
  rc_refineStepPx :: int
  rc_refinePromoteFromEmptyEps :: double

definition refinement_config_default :: refinement_config where
  "refinement_config_default = \<lparr>rc_refineExtentSpacingK = lit (9 / 100), rc_refineExtentFallback = 6,
     rc_refineExtentMin = 4, rc_refineExtentMax = 8, rc_refineStepPx = 2,
     rc_refinePromoteFromEmptyEps = flit (1 / 10000)\<rparr>"

record stone_config =
  cfg_geometry :: geometry_config
  cfg_calibration :: calibration_config
  cfg_scoring :: scoring_config
  cfg_decision :: decision_config
  cfg_refinement :: refinement_config

definition stone_config_default :: stone_config where
  "stone_config_default = \<lparr>cfg_geometry = geometry_config_default, cfg_calibration = calibration_config_default,
     cfg_scoring = scoring_config_default, cfg_decision = decision_config_default, cfg_refinement = refinement_config_default\<rparr>"

text \<open>The state of an intersection and the result.\<close>

datatype stone_state = SEmpty | SBlack | SWhite

record stone_result =
  sr_success :: bool
  sr_stones :: "stone_state list"
  sr_confidence :: "double list"

end
