(* ===== verification/Board_Geometry.thy ===== *)
theory Board_Geometry imports Singles begin

text \<open>
  \<open>src/vision/core/include/camera/rectifier.hpp\<close> and \<open>boardFinder.hpp\<close>: what the rectification takes and gives. The
  coordinates of a point are \<open>float\<close>; images and homographies are both of the type \<open>cv::Mat\<close>.
\<close>

type_synonym point = "double \<times> double"

record 'i warp_result =
  wr_image :: 'i
  wr_H :: 'i

record 'i board_geometry =
  bg_image :: 'i
  bg_H :: 'i
  bg_intersections :: "point list"
  bg_spacing :: double
  bg_boardSize :: u32

end
