(* ===== verification/Stone_Sampling.thy ===== *)
theory Stone_Sampling imports Stone_Config Board_Geometry "HOL-Library.Signed_Division" begin

text \<open>
  \<open>src/vision/core/stoneFinder.cpp\<close>, the namespaces \<open>GeometrySampling\<close> and \<open>FeatureExtraction\<close>: the pixels looked at
  around an intersection, and what is measured there. OpenCV is the record \<open>opencv\<close> of the calls that the code makes.
  \<open>None\<close> is undefined behaviour: an overflow of \<open>int\<close>, a value that does not fit its type, an access out of range.
\<close>

subsection \<open>OpenCV\<close>

datatype color_conversion = COLOR_BGR2Lab | COLOR_BGRA2BGR | COLOR_GRAY2BGR

text \<open>
  A call that makes an image gives \<open>None\<close> where it throws: nothing here catches the exception. The blur is
  \<open>GaussianBlur\<close> with a kernel size computed from the deviation and the border replicated. \<open>cv_at\<close> is
  \<open>ptr<std::uint8_t>(y)[x]\<close>.
\<close>

record 'i opencv =
  cv_empty :: "'i \<Rightarrow> bool"
  cv_channels :: "'i \<Rightarrow> int"
  cv_rows :: "'i \<Rightarrow> int"
  cv_cols :: "'i \<Rightarrow> int"
  cv_cvtColor :: "'i \<Rightarrow> color_conversion \<Rightarrow> 'i option"
  cv_extractChannel :: "'i \<Rightarrow> nat \<Rightarrow> 'i option"
  cv_GaussianBlur :: "'i \<Rightarrow> double \<Rightarrow> 'i option"
  cv_at :: "'i \<Rightarrow> int \<Rightarrow> int \<Rightarrow> u8 option"

subsection \<open>Geometry\<close>

definition roundedSpacingValue :: "double \<Rightarrow> double \<Rightarrow> int \<Rightarrow> int \<Rightarrow> int \<Rightarrow> int option" where
  "roundedSpacingValue spacing scale fallback minValue maxValue =
     do {
       value \<leftarrow> (if isfinite spacing \<and> d_less (Fin 0) spacing then lround_int (d_mul spacing scale) else Some fallback);
       clamp_int value minValue maxValue
     }"

record radii =
  rd_innerRadius :: int
  rd_bgRadius :: int
  rd_bgOffset :: int

definition chooseRadii :: "double \<Rightarrow> geometry_config \<Rightarrow> radii option" where
  "chooseRadii spacing config =
     do {
       inner \<leftarrow> roundedSpacingValue spacing (gc_innerRadiusSpacingK config) (gc_innerRadiusFallback config)
                  (gc_innerRadiusMin config) (gc_innerRadiusMax config);
       bg \<leftarrow> clamp_int (inner sdiv 2) (gc_bgRadiusMin config) (gc_bgRadiusMax config);
       off \<leftarrow> (if isfinite spacing \<and> d_less (Fin 0) spacing
               then do {
                 bgOffset \<leftarrow> lround_int (d_mul spacing (gc_bgOffsetSpacingK config));
                 least \<leftarrow> int32 (inner + gc_bgOffsetMinExtra config);
                 Some (max bgOffset least)
               }
               else do { twice \<leftarrow> int32 (inner * 2); int32 (twice + gc_bgOffsetFallbackAdd config) });
       Some \<lparr>rd_innerRadius = inner, rd_bgRadius = bg, rd_bgOffset = off\<rparr>
     }"

type_synonym offset = "int \<times> int"

text \<open>The reserved size may overflow; the sums in the loop are smaller.\<close>

definition makeCircleOffsets :: "int \<Rightarrow> offset list option" where
  "makeCircleOffsets radius =
     do {
       twice \<leftarrow> int32 (2 * radius);
       side \<leftarrow> int32 (twice + 1);
       _ \<leftarrow> int32 (side * side);
       Some (concat (map (\<lambda>deltaY. map (\<lambda>deltaX. (deltaX, deltaY))
               (filter (\<lambda>deltaX. deltaX * deltaX + deltaY * deltaY \<le> radius * radius) [- radius..radius])) [- radius..radius]))
     }"

record offsets =
  os_inner :: "offset list"
  os_bg :: "offset list"

definition precomputeOffsets :: "radii \<Rightarrow> offsets option" where
  "precomputeOffsets radii =
     do {
       inner \<leftarrow> makeCircleOffsets (rd_innerRadius radii);
       bg \<leftarrow> (if rd_bgRadius radii = rd_innerRadius radii then Some inner else makeCircleOffsets (rd_bgRadius radii));
       Some \<lparr>os_inner = inner, os_bg = bg\<rparr>
     }"

subsection \<open>The image\<close>

text \<open>\<open>Some None\<close> is the result \<open>false\<close> of \<open>convertToLab\<close> and of \<open>prepareLabBlur\<close>.\<close>

definition convertToLab :: "'i opencv \<Rightarrow> 'i \<Rightarrow> 'i option option" where
  "convertToLab cv img =
     (if cv_channels cv img = 3 then map_option Some (cv_cvtColor cv img COLOR_BGR2Lab)
      else if cv_channels cv img = 4
      then do { bgr \<leftarrow> cv_cvtColor cv img COLOR_BGRA2BGR; map_option Some (cv_cvtColor cv bgr COLOR_BGR2Lab) }
      else if cv_channels cv img = 1
      then do { bgr \<leftarrow> cv_cvtColor cv img COLOR_GRAY2BGR; map_option Some (cv_cvtColor cv bgr COLOR_BGR2Lab) }
      else Some None)"

record 'i sample_context =
  sx_L :: 'i
  sx_A :: 'i
  sx_B :: 'i
  sx_rows :: int
  sx_cols :: int

text \<open>\<open>std::clamp\<close> is undefined for crossed bounds. The dimensions are those of the first channel.\<close>

definition std_clamp :: "double \<Rightarrow> double \<Rightarrow> double \<Rightarrow> double option" where
  "std_clamp v lo hi = (if d_less hi lo then None else Some (d_clamp v lo hi))"

definition prepareLabBlur :: "'i opencv \<Rightarrow> 'i \<Rightarrow> radii \<Rightarrow> geometry_config \<Rightarrow> 'i sample_context option option" where
  "prepareLabBlur cv img radii config =
     do {
       converted \<leftarrow> convertToLab cv img;
       case converted of
         None \<Rightarrow> Some None
       | Some lab \<Rightarrow> do {
           channelL \<leftarrow> cv_extractChannel cv lab 0;
           channelA \<leftarrow> cv_extractChannel cv lab 1;
           channelB \<leftarrow> cv_extractChannel cv lab 2;
           sigma \<leftarrow> std_clamp (d_mul (gc_blurSigmaRadiusK config) (d_int (rd_innerRadius radii)))
                     (gc_blurSigmaMin config) (gc_blurSigmaMax config);
           L \<leftarrow> cv_GaussianBlur cv channelL sigma;
           A \<leftarrow> cv_GaussianBlur cv channelA sigma;
           B \<leftarrow> cv_GaussianBlur cv channelB sigma;
           Some (Some \<lparr>sx_L = L, sx_A = A, sx_B = B, sx_rows = cv_rows cv L, sx_cols = cv_cols cv L\<rparr>)
         }
     }"

subsection \<open>Means\<close>

definition inside :: "'i sample_context \<Rightarrow> int \<Rightarrow> int \<Rightarrow> bool" where
  "inside context x y \<longleftrightarrow> \<not> (x < 0 \<or> x \<ge> sx_cols context \<or> y < 0 \<or> y \<ge> sx_rows context)"

definition f_u32 :: "u32 \<Rightarrow> double" where "f_u32 n = f_int (uint n)"

definition add_L :: "'i opencv \<Rightarrow> 'i sample_context \<Rightarrow> int \<Rightarrow> int \<Rightarrow> offset \<Rightarrow> u32 \<times> u32 \<Rightarrow> (u32 \<times> u32) option" where
  "add_L cv context centerX centerY off st =
     do {
       x \<leftarrow> int32 (centerX + fst off);
       y \<leftarrow> int32 (centerY + snd off);
       if \<not> inside context x y then Some st
       else do {
         l \<leftarrow> cv_at cv (sx_L context) y x;
         let (sum, count) = st;
         Some (sum + ucast l, count + 1)
       }
     }"

text \<open>The means are given when the result is \<open>true\<close>.\<close>

definition sampleMeanL :: "'i opencv \<Rightarrow> 'i sample_context \<Rightarrow> int \<Rightarrow> int \<Rightarrow> offset list \<Rightarrow> double option option" where
  "sampleMeanL cv context centerX centerY offs =
     do {
       (sum, count) \<leftarrow> loopM (add_L cv context centerX centerY) offs (0, 0);
       Some (if count = 0 then None else Some (f_div (f_u32 sum) (f_u32 count)))
     }"

definition add_Lab :: "'i opencv \<Rightarrow> 'i sample_context \<Rightarrow> int \<Rightarrow> int \<Rightarrow> offset \<Rightarrow>
    u32 \<times> u32 \<times> u32 \<times> u32 \<Rightarrow> (u32 \<times> u32 \<times> u32 \<times> u32) option" where
  "add_Lab cv context centerX centerY off st =
     do {
       x \<leftarrow> int32 (centerX + fst off);
       y \<leftarrow> int32 (centerY + snd off);
       if \<not> inside context x y then Some st
       else do {
         l \<leftarrow> cv_at cv (sx_L context) y x;
         a \<leftarrow> cv_at cv (sx_A context) y x;
         b \<leftarrow> cv_at cv (sx_B context) y x;
         let (sumL, sumA, sumB, count) = st;
         Some (sumL + ucast l, sumA + ucast a, sumB + ucast b, count + 1)
       }
     }"

definition sampleMeanLab :: "'i opencv \<Rightarrow> 'i sample_context \<Rightarrow> int \<Rightarrow> int \<Rightarrow> offset list \<Rightarrow>
    (double \<times> double \<times> double) option option" where
  "sampleMeanLab cv context centerX centerY offs =
     do {
       (sumL, sumA, sumB, count) \<leftarrow> loopM (add_Lab cv context centerX centerY) offs (0, 0, 0, 0);
       Some (if count = 0 then None
             else Some (f_div (f_u32 sumL) (f_u32 count), f_div (f_u32 sumA) (f_u32 count), f_div (f_u32 sumB) (f_u32 count)))
     }"

subsection \<open>Features\<close>

record features =
  ft_deltaL :: double
  ft_chromaSq :: double
  ft_darkFrac :: double
  ft_brightFrac :: double
  ft_valid :: bool

definition features_new :: features where
  "features_new = \<lparr>ft_deltaL = Fin 0, ft_chromaSq = Fin 0, ft_darkFrac = Fin 0, ft_brightFrac = Fin 0, ft_valid = False\<rparr>"

definition directions :: "offset list" where
  "directions = [(-1, -1), (1, -1), (-1, 1), (1, 1), (-1, 0), (1, 0), (0, -1), (0, 1)]"

definition sample_direction :: "'i opencv \<Rightarrow> 'i sample_context \<Rightarrow> offset list \<Rightarrow> radii \<Rightarrow> int \<Rightarrow> int \<Rightarrow> offset \<Rightarrow>
    double list \<Rightarrow> double list option" where
  "sample_direction cv context bg radii centerX centerY direction samples =
     do {
       dx \<leftarrow> int32 (fst direction * rd_bgOffset radii);
       sampleX \<leftarrow> int32 (centerX + dx);
       dy \<leftarrow> int32 (snd direction * rd_bgOffset radii);
       sampleY \<leftarrow> int32 (centerY + dy);
       mean \<leftarrow> sampleMeanL cv context sampleX sampleY bg;
       Some (case mean of None \<Rightarrow> samples | Some m \<Rightarrow> samples @ [m])
     }"

text \<open>The middle of a sorted array; without a value the index before the middle is out of range.\<close>

definition sorted_middle :: "double list \<Rightarrow> double option" where
  "sorted_middle xs =
     (let n = length xs
      in if odd n then vec_at xs (n div 2)
         else if n = 0 then None
         else do { a \<leftarrow> vec_at xs (n div 2 - 1); b \<leftarrow> vec_at xs (n div 2); Some (f_mul (flit (1 / 2)) (f_add a b)) })"

definition add_support :: "'i opencv \<Rightarrow> 'i sample_context \<Rightarrow> geometry_config \<Rightarrow> int \<Rightarrow> int \<Rightarrow> double \<Rightarrow> offset \<Rightarrow>
    u32 \<times> u32 \<times> u32 \<Rightarrow> (u32 \<times> u32 \<times> u32) option" where
  "add_support cv context config centerX centerY backgroundMedian off st =
     do {
       x \<leftarrow> int32 (centerX + fst off);
       y \<leftarrow> int32 (centerY + snd off);
       if \<not> inside context x y then Some st
       else do {
         l \<leftarrow> cv_at cv (sx_L context) y x;
         let diff = f_sub (f_int (uint l)) backgroundMedian;
         let (total, dark, bright) = st;
         Some (if d_le diff (d_neg (gc_supportDelta config)) then (total + 1, dark + 1, bright)
               else if d_le (gc_supportDelta config) diff then (total + 1, dark, bright + 1)
               else (total + 1, dark, bright))
       }
     }"

definition computeFeaturesAt :: "'i opencv \<Rightarrow> 'i sample_context \<Rightarrow> offsets \<Rightarrow> radii \<Rightarrow> geometry_config \<Rightarrow> int \<Rightarrow> int \<Rightarrow>
    (bool \<times> features) option" where
  "computeFeaturesAt cv context offs radii config centerX centerY =
     do {
       inner \<leftarrow> sampleMeanLab cv context centerX centerY (os_inner offs);
       case inner of
         None \<Rightarrow> Some (False, features_new)
       | Some (innerL, innerA, innerB) \<Rightarrow> do {
           samples \<leftarrow> loopM (sample_direction cv context (os_bg offs) radii centerX centerY) directions [];
           if int (length samples) < gc_minBgSamples config then Some (False, features_new)
           else do {
             sorted \<leftarrow> d_sort samples;
             backgroundMedian \<leftarrow> sorted_middle sorted;
             let deltaA = f_sub innerA (gc_labNeutral config);
             let deltaB = f_sub innerB (gc_labNeutral config);
             (total, dark, bright) \<leftarrow>
               loopM (add_support cv context config centerX centerY backgroundMedian) (os_inner offs) (0, 0, 0);
             Some (True,
               \<lparr>ft_deltaL = f_sub innerL backgroundMedian, ft_chromaSq = f_add (f_mul deltaA deltaA) (f_mul deltaB deltaB),
                ft_darkFrac = (if 0 < total then f_div (f_u32 dark) (f_u32 total) else Fin 0),
                ft_brightFrac = (if 0 < total then f_div (f_u32 bright) (f_u32 total) else Fin 0), ft_valid = True\<rparr>)
           }
         }
     }"

definition features_at :: "'i opencv \<Rightarrow> 'i sample_context \<Rightarrow> offsets \<Rightarrow> radii \<Rightarrow> geometry_config \<Rightarrow> point \<Rightarrow> features option" where
  "features_at cv context offs radii config p =
     do {
       centerX \<leftarrow> lround_int (fst p);
       centerY \<leftarrow> lround_int (snd p);
       map_option snd (computeFeaturesAt cv context offs radii config centerX centerY)
     }"

definition computeFeatures :: "'i opencv \<Rightarrow> point list \<Rightarrow> 'i sample_context \<Rightarrow> offsets \<Rightarrow> radii \<Rightarrow> geometry_config \<Rightarrow>
    features list option" where
  "computeFeatures cv intersections context offs radii config = those (map (features_at cv context offs radii config) intersections)"

end
