(* ===== verification/Stone_Scoring.thy ===== *)
theory Stone_Scoring imports Stone_Sampling begin

text \<open>
  \<open>src/vision/core/stoneFinder.cpp\<close>, the namespaces \<open>ModelCalibration\<close> and \<open>Scoring\<close>: what an empty intersection looks
  like in this image, and how much an intersection looks like a black stone, a white stone or none.
\<close>

subsection \<open>Calibration\<close>

record model =
  md_medianEmpty :: double
  md_sigmaEmpty :: double
  md_tChromaSq :: double

definition medianSorted :: "double list \<Rightarrow> double" where
  "medianSorted xs =
     (let n = length xs
      in if n = 0 then Fin 0
         else if odd n then xs ! ((n - 1) div 2)
         else f_mul (flit (1 / 2)) (f_add (xs ! (n div 2 - 1)) (xs ! (n div 2))))"

text \<open>The median and the deviation; \<open>Some None\<close> is the result \<open>false\<close>.\<close>

definition robustMedianSigma :: "double list \<Rightarrow> calibration_config \<Rightarrow> (double \<times> double) option option" where
  "robustMedianSigma values config =
     (if values = [] then Some None
      else do {
        sorted \<leftarrow> d_sort values;
        let median = medianSorted sorted;
        absoluteDeviation \<leftarrow> d_sort (map (\<lambda>value. d_abs (f_sub value median)) sorted);
        let mad = medianSorted absoluteDeviation;
        Some (Some (median, d_max (cc_sigmaMin config) (f_mul (cc_madToSigma config) mad)))
      })"

definition likely_empty :: "calibration_config \<Rightarrow> double \<Rightarrow> double \<Rightarrow> features \<Rightarrow> bool" where
  "likely_empty config medianInitial emptyBand f \<longleftrightarrow>
     d_le (d_abs (f_sub (ft_deltaL f) medianInitial)) emptyBand \<and>
     d_le (f_add (ft_darkFrac f) (ft_brightFrac f)) (cc_likelyEmptySupportSumMax config)"

definition min_empty_count :: "calibration_config \<Rightarrow> u32 \<Rightarrow> nat option" where
  "min_empty_count config boardSize =
     do {
       share \<leftarrow> lround_long (f_mul (f_mul (cc_calibMinEmptyFraction config) (f_u32 boardSize)) (f_u32 boardSize));
       Some (max (size_of_int (cc_calibMinEmptySamples config)) (size_of_int share))
     }"

definition final_statistics :: "calibration_config \<Rightarrow> nat \<Rightarrow> double list \<Rightarrow> double \<times> double \<Rightarrow> (double \<times> double) option" where
  "final_statistics config minEmptyCount likelyEmptyDelta initial =
     (if minEmptyCount \<le> length likelyEmptyDelta
      then map_option (\<lambda>r. case r of None \<Rightarrow> initial | Some likely \<Rightarrow> likely) (robustMedianSigma likelyEmptyDelta config)
      else Some initial)"

definition chroma_median :: "calibration_config \<Rightarrow> double list \<Rightarrow> double option" where
  "chroma_median config chromaSource =
     (if chromaSource = [] then Some (cc_chromaTFallback config) else map_option medianSorted (d_sort chromaSource))"

definition calibrateModel :: "features list \<Rightarrow> u32 \<Rightarrow> calibration_config \<Rightarrow> model option option" where
  "calibrateModel fs boardSize config =
     (let valid = filter ft_valid fs; allDelta = map ft_deltaL valid; allChroma = map ft_chromaSq valid
      in if allDelta = [] then Some None
         else do {
           initial \<leftarrow> robustMedianSigma allDelta config;
           case initial of
             None \<Rightarrow> Some None
           | Some (medianInitial, sigmaInitial) \<Rightarrow> do {
               let emptyBand = f_mul (cc_emptyBandSigma config) sigmaInitial;
               let likely = filter (likely_empty config medianInitial emptyBand) valid;
               let likelyEmptyDelta = map ft_deltaL likely;
               let likelyEmptyChroma = map ft_chromaSq likely;
               minEmptyCount \<leftarrow> min_empty_count config boardSize;
               (medianFinal, sigmaFinal) \<leftarrow> final_statistics config minEmptyCount likelyEmptyDelta (medianInitial, sigmaInitial);
               chromaMedian \<leftarrow> chroma_median config (if likelyEmptyChroma = [] then allChroma else likelyEmptyChroma);
               Some (Some \<lparr>md_medianEmpty = medianFinal, md_sigmaEmpty = d_max (cc_sigmaMin config) sigmaFinal,
                           md_tChromaSq = d_max (cc_chromaTMin config) chromaMedian\<rparr>)
             }
         })"

subsection \<open>Scores\<close>

definition edgeLevel :: "nat \<Rightarrow> int \<Rightarrow> int" where
  "edgeLevel index boardSize =
     (if boardSize \<le> 0 then 2
      else let gridX = int_of_size index sdiv boardSize;
               gridY = int_of_size index - gridX * boardSize
           in if gridX = 0 \<or> gridX = boardSize - 1 \<or> gridY = 0 \<or> gridY = boardSize - 1 then 2
              else if gridX \<le> 1 \<or> gridX \<ge> boardSize - 2 \<or> gridY \<le> 1 \<or> gridY \<ge> boardSize - 2 then 1 else 0)"

record scores =
  so_black :: double
  so_white :: double
  so_empty :: double
  so_chromaPenalty :: double
  so_z :: double

definition computeScores :: "features \<Rightarrow> model \<Rightarrow> scoring_config \<Rightarrow> scores" where
  "computeScores f m config =
     (let z = f_div (f_sub (ft_deltaL f) (md_medianEmpty m)) (md_sigmaEmpty m);
          supportBlack = f_sub (ft_darkFrac f) (ft_brightFrac f);
          supportWhite = f_sub (ft_brightFrac f) (ft_darkFrac f);
          chromaPenalty = f_div (ft_chromaSq f) (f_add (md_tChromaSq m) (ft_chromaSq f))
      in \<lparr>so_black = f_sub (f_add (f_mul (sc_scoreWDelta config) (d_neg z)) (f_mul (sc_scoreWSupport config) supportBlack))
                       (f_mul (sc_scoreWChroma config) chromaPenalty),
          so_white = f_sub (f_add (f_mul (sc_scoreWDelta config) z) (f_mul (sc_scoreWSupport config) supportWhite))
                       (f_mul (sc_scoreWChroma config) chromaPenalty),
          so_empty = f_sub (f_sub (sc_emptyScoreBias config) (f_mul (sc_emptyScoreZPenalty config) (d_abs z)))
                       (f_mul (sc_emptyScoreSupportPenalty config) (f_add (ft_darkFrac f) (ft_brightFrac f))),
          so_chromaPenalty = chromaPenalty, so_z = z\<rparr>)"

record eval_result =
  ev_state :: stone_state
  ev_bestScore :: double
  ev_secondScore :: double
  ev_margin :: double
  ev_required :: double
  ev_confidence :: double
  ev_z :: double

definition eval_new :: eval_result where
  "eval_new = \<lparr>ev_state = SEmpty, ev_bestScore = Fin 0, ev_secondScore = Fin 0, ev_margin = Fin 0, ev_required = Fin 0,
     ev_confidence = Fin 0, ev_z = Fin 0\<rparr>"

text \<open>The state with the best score, that score, and the second best.\<close>

definition best_state :: "scores \<Rightarrow> stone_state \<times> double \<times> double" where
  "best_state s =
     (let (state, best, second) =
            (if d_less (so_black s) (so_white s) then (SWhite, so_white s, so_black s) else (SBlack, so_black s, so_white s))
      in if d_less best (so_empty s) then (SEmpty, so_empty s, d_max (so_black s) (so_white s))
         else if d_less second (so_empty s) then (state, best, so_empty s)
         else (state, best, second))"

definition score_confidence :: "scoring_config \<Rightarrow> double \<Rightarrow> double \<Rightarrow> double \<Rightarrow> double" where
  "score_confidence config margin required chromaPenalty =
     (let c1 = d_clamp (f_div margin (f_add required (flit (1 / 10 ^ 6)))) (Fin 0) (Fin 1);
          c2 = f_mul c1 (d_clamp (f_sub (Fin 1) (f_mul (sc_confChromaDownweight config) chromaPenalty)) (Fin 0) (Fin 1))
      in d_clamp c2 (Fin 0) (Fin 1))"

definition evaluate :: "features \<Rightarrow> model \<Rightarrow> int \<Rightarrow> scoring_config \<Rightarrow> eval_result" where
  "evaluate f m edgeLevelValue config =
     (let scores = computeScores f m config;
          (state, best, second) = best_state scores;
          margin = f_sub best second;
          required = f_mul (sc_margin0 config) (f_add (Fin 1) (f_mul (sc_edgePenalty config) (f_int edgeLevelValue)))
      in \<lparr>ev_state = state, ev_bestScore = best, ev_secondScore = second, ev_margin = margin, ev_required = required,
          ev_confidence = score_confidence config margin required (so_chromaPenalty scores), ev_z = so_z scores\<rparr>)"

subsection \<open>Neighbours\<close>

definition neighbor_value :: "features list \<Rightarrow> int \<Rightarrow> int \<Rightarrow> int \<Rightarrow> int \<times> int \<Rightarrow> double list \<Rightarrow> double list option" where
  "neighbor_value fs gridX gridY boardSize d vs =
     (if fst d = 0 \<and> snd d = 0 then Some vs
      else do {
        neighborX \<leftarrow> int32 (gridX + fst d);
        neighborY \<leftarrow> int32 (gridY + snd d);
        if neighborX < 0 \<or> neighborX \<ge> boardSize \<or> neighborY < 0 \<or> neighborY \<ge> boardSize then Some vs
        else let i = (nat neighborX * nat boardSize + nat neighborY) mod 2 ^ 64
             in if i \<ge> length fs \<or> \<not> ft_valid (fs ! i) then Some vs else Some (vs @ [ft_deltaL (fs ! i)])
      })"

definition computeNeighborMedianDelta :: "features list \<Rightarrow> int \<Rightarrow> int \<Rightarrow> int \<Rightarrow> double \<Rightarrow> double option" where
  "computeNeighborMedianDelta fs gridX gridY boardSize fallback =
     do {
       values \<leftarrow> loopM (neighbor_value fs gridX gridY boardSize) [(dx, dy). dx \<leftarrow> [-1..1], dy \<leftarrow> [-1..1]] [];
       if values = [] then Some fallback
       else do { sorted \<leftarrow> d_sort values; sorted_middle sorted }
     }"

definition neighbor_median_at :: "features list \<Rightarrow> int \<Rightarrow> double \<Rightarrow> nat \<Rightarrow> double option" where
  "neighbor_median_at fs boardSize fallback index =
     (let gridX = int_of_size index sdiv boardSize
      in computeNeighborMedianDelta fs gridX (int_of_size index - gridX * boardSize) boardSize fallback)"

definition computeNeighborMedianMap :: "features list \<Rightarrow> int \<Rightarrow> double \<Rightarrow> double list option" where
  "computeNeighborMedianMap fs boardSize fallback =
     (if boardSize \<le> 0 then Some (replicate (length fs) fallback)
      else those (map (neighbor_median_at fs boardSize fallback) [0..<length fs]))"

end
