(* ===== verification/Stone_Decision.thy ===== *)
theory Stone_Decision imports Stone_Scoring begin

text \<open>
  \<open>src/vision/core/stoneFinder.cpp\<close>, the class \<open>DecisionPolicy\<close>: which scores are believed. A check gives the reason
  of its refusal, or \<open>None\<close> when it passes.
\<close>

record spatial_context =
  sp_edgeLevel :: int
  sp_neighborMedian :: double
  sp_boardSize :: u32

datatype rejection_reason = NoReason | WeakZ | LowConfidence | WeakSupport | WeakNeighborContrast | EdgeArtifact | MarginTooSmall | Other

datatype refinement_path = NoPath | EmptyRescue | StandardPath

definition brightAdvantage :: "features \<Rightarrow> double" where
  "brightAdvantage f = f_sub (ft_brightFrac f) (ft_darkFrac f)"

definition darkAdvantage :: "features \<Rightarrow> double" where
  "darkAdvantage f = f_sub (ft_darkFrac f) (ft_brightFrac f)"

subsection \<open>The checks\<close>

definition isWeakByZ :: "decision_config \<Rightarrow> stone_state \<Rightarrow> double \<Rightarrow> int \<Rightarrow> bool" where
  "isWeakByZ dc state z edgeLevelValue \<longleftrightarrow>
     (let minBlackZ = f_add (dc_minZBlack dc)
            (if edgeLevelValue = 1 then dc_minZBlackNearEdgeAdd dc
             else if edgeLevelValue = 2 then dc_minZBlackOnEdgeAdd dc else Fin 0)
      in state = SBlack \<and> d_less (d_neg z) minBlackZ \<or> state = SWhite \<and> d_less z (dc_minZWhite dc))"

definition failsBlackConfidence :: "decision_config \<Rightarrow> eval_result \<Rightarrow> u32 \<Rightarrow> bool" where
  "failsBlackConfidence dc ev boardSize \<longleftrightarrow>
     d_less (ev_confidence ev) (if dc_minConfidenceBlackBoardSize dc \<le> boardSize then dc_minConfidenceBlack dc else Fin 0)"

definition failsWhiteConfidence :: "decision_config \<Rightarrow> eval_result \<Rightarrow> u32 \<Rightarrow> bool" where
  "failsWhiteConfidence dc ev boardSize \<longleftrightarrow>
     d_less (ev_confidence ev) (if dc_minConfidenceWhiteBoardSize dc \<le> boardSize then dc_minConfidenceWhite dc else Fin 0)"

definition passesStatistical :: "decision_config \<Rightarrow> eval_result \<Rightarrow> spatial_context \<Rightarrow> rejection_reason option" where
  "passesStatistical dc ev cx =
     (if isWeakByZ dc (ev_state ev) (ev_z ev) (sp_edgeLevel cx) then Some WeakZ
      else if ev_state ev = SBlack \<and> failsBlackConfidence dc ev (sp_boardSize cx) then Some LowConfidence
      else if ev_state ev = SWhite \<and> failsWhiteConfidence dc ev (sp_boardSize cx) then Some LowConfidence
      else None)"

definition hasStrongWhiteSupport :: "decision_config \<Rightarrow> features \<Rightarrow> spatial_context \<Rightarrow> bool" where
  "hasStrongWhiteSupport dc f cx \<longleftrightarrow>
     d_le (dc_whiteStrongAdvMin dc) (brightAdvantage f) \<and>
     d_le (dc_whiteStrongNeighborMin dc) (f_sub (ft_deltaL f) (sp_neighborMedian cx))"

definition LOW_CHROMA_BAND_MAX :: double where "LOW_CHROMA_BAND_MAX = flit 90"

definition qualifiesLowChromaRescue :: "decision_config \<Rightarrow> features \<Rightarrow> spatial_context \<Rightarrow> double \<Rightarrow> bool" where
  "qualifiesLowChromaRescue dc f cx z \<longleftrightarrow>
     (let chromaCap = (if sp_edgeLevel cx = 1 then dc_whiteLowChromaMaxNearEdge dc else dc_whiteLowChromaMax dc);
          minBright = (if sp_edgeLevel cx = 1 then dc_whiteLowChromaMinBrightNearEdge dc else dc_whiteLowChromaMinBright dc)
      in if d_less chromaCap (ft_chromaSq f) \<or> d_less z (dc_whiteLowChromaMinZ dc) \<or> d_less (ft_brightFrac f) minBright then False
         else let inLowBand = d_le (ft_chromaSq f) LOW_CHROMA_BAND_MAX;
                  inHighBand = d_le (f_mul (flit (75 / 100)) chromaCap) (ft_chromaSq f)
              in if \<not> inLowBand \<and> \<not> inHighBand then False
                 else if sp_edgeLevel cx = 1 then inHighBand else True)"

definition failsWhiteSupport :: "decision_config \<Rightarrow> features \<Rightarrow> spatial_context \<Rightarrow> double \<Rightarrow> bool" where
  "failsWhiteSupport dc f cx z \<longleftrightarrow>
     (if d_less (brightAdvantage f) (dc_minSupportAdvantageWhiteFloor dc) then True
      else if d_less (ft_brightFrac f) (dc_minSupportWhite dc) then True
      else \<not> hasStrongWhiteSupport dc f cx \<and> \<not> qualifiesLowChromaRescue dc f cx z)"

definition passesSupport :: "decision_config \<Rightarrow> eval_result \<Rightarrow> features \<Rightarrow> spatial_context \<Rightarrow> rejection_reason option" where
  "passesSupport dc ev f cx =
     (let weakSupport = d_less (ft_darkFrac f) (dc_minSupportBlack dc);
          weakContrast = d_less (darkAdvantage f) (dc_minSupportAdvantageBlack dc);
          weakNeighbor = d_less (f_sub (sp_neighborMedian cx) (ft_deltaL f)) (dc_minNeighborContrastBlack dc)
      in if ev_state ev = SBlack \<and> (weakSupport \<or> weakContrast) then Some WeakSupport
         else if ev_state ev = SBlack \<and> weakNeighbor then Some WeakNeighborContrast
         else if ev_state ev = SWhite \<and> failsWhiteSupport dc f cx (ev_z ev) then Some WeakSupport
         else None)"

definition isNearEdgeColorArtifact :: "decision_config \<Rightarrow> features \<Rightarrow> spatial_context \<Rightarrow> bool" where
  "isNearEdgeColorArtifact dc f cx \<longleftrightarrow>
     sp_edgeLevel cx = 1 \<and> d_le (dc_edgeWhiteNearChromaSq dc) (ft_chromaSq f) \<and>
     d_less (ft_brightFrac f) (dc_edgeWhiteNearMinBrightFrac dc)"

definition isOnEdgeColorArtifact :: "decision_config \<Rightarrow> features \<Rightarrow> spatial_context \<Rightarrow> bool" where
  "isOnEdgeColorArtifact dc f cx \<longleftrightarrow>
     sp_edgeLevel cx \<ge> 2 \<and> d_le (dc_edgeWhiteHighChromaSq dc) (ft_chromaSq f) \<and>
     d_less (ft_brightFrac f) (dc_edgeWhiteMinBrightFrac dc)"

definition isEdgeColorArtifact :: "decision_config \<Rightarrow> features \<Rightarrow> spatial_context \<Rightarrow> bool" where
  "isEdgeColorArtifact dc f cx \<longleftrightarrow> isNearEdgeColorArtifact dc f cx \<or> isOnEdgeColorArtifact dc f cx"

definition isNearEdgeUnstableWhite :: "decision_config \<Rightarrow> features \<Rightarrow> spatial_context \<Rightarrow> double \<Rightarrow> bool" where
  "isNearEdgeUnstableWhite dc f cx confidence \<longleftrightarrow>
     sp_edgeLevel cx = 1 \<and> d_le (dc_edgeWhiteNearWeakChromaSq dc) (ft_chromaSq f) \<and>
     d_less (ft_brightFrac f) (dc_edgeWhiteNearWeakBrightFrac dc) \<and> d_less confidence (dc_edgeWhiteNearWeakMinConf dc)"

definition failsWhiteEdgeSanity :: "decision_config \<Rightarrow> features \<Rightarrow> spatial_context \<Rightarrow> double \<Rightarrow> bool" where
  "failsWhiteEdgeSanity dc f cx confidence \<longleftrightarrow> isEdgeColorArtifact dc f cx \<or> isNearEdgeUnstableWhite dc f cx confidence"

definition passesEdge :: "decision_config \<Rightarrow> eval_result \<Rightarrow> features \<Rightarrow> spatial_context \<Rightarrow> rejection_reason option" where
  "passesEdge dc ev f cx =
     (if ev_state ev = SWhite \<and> failsWhiteEdgeSanity dc f cx (ev_confidence ev) then Some EdgeArtifact else None)"

definition passesMargin :: "decision_config \<Rightarrow> eval_result \<Rightarrow> rejection_reason option" where
  "passesMargin dc ev =
     (if ev_state ev = SBlack \<and> d_less (ev_margin ev) (f_mul (dc_minBlackMarginMult dc) (ev_required ev)) then Some MarginTooSmall
      else if ev_state ev = SWhite \<and> d_less (ev_margin ev) (f_mul (dc_minWhiteMarginMult dc) (ev_required ev)) then Some MarginTooSmall
      else None)"

subsection \<open>The decision\<close>

definition rejected :: "eval_result \<Rightarrow> eval_result" where
  "rejected ev = ev\<lparr>ev_state := SEmpty, ev_confidence := Fin 0\<rparr>"

definition first_reason :: "rejection_reason option \<Rightarrow> rejection_reason option \<Rightarrow> rejection_reason option" where
  "first_reason r s = (case r of None \<Rightarrow> s | Some x \<Rightarrow> Some x)"

definition decide :: "decision_config \<Rightarrow> features \<Rightarrow> spatial_context \<Rightarrow> eval_result \<Rightarrow> eval_result \<times> rejection_reason" where
  "decide dc f cx ev =
     (case first_reason (passesStatistical dc ev cx) (first_reason (passesSupport dc ev f cx)
             (first_reason (passesEdge dc ev f cx) (passesMargin dc ev))) of
        Some r \<Rightarrow> (rejected ev, r)
      | None \<Rightarrow> (ev, NoReason))"

subsection \<open>Refinement\<close>

definition hasEmptyRescueHint :: "decision_config \<Rightarrow> features \<Rightarrow> eval_result \<Rightarrow> bool" where
  "hasEmptyRescueHint dc f ev \<longleftrightarrow>
     ev_state ev = SEmpty \<and> d_le (dc_emptyRescueMinZ dc) (ev_z ev) \<and> d_le (dc_emptyRescueMinBright dc) (ft_brightFrac f) \<and>
     d_le (dc_emptyRescueMinBrightAdv dc) (brightAdvantage f)"

definition hasStandardRefineHint :: "decision_config \<Rightarrow> features \<Rightarrow> eval_result \<Rightarrow> bool" where
  "hasStandardRefineHint dc f ev \<longleftrightarrow>
     (if ev_state ev = SEmpty then False
      else let baseSupportAdv = (if ev_state ev = SBlack then darkAdvantage f else brightAdvantage f);
               minAbsZ = (if ev_state ev = SWhite then dc_refineMinAbsZWhite dc else dc_refineMinAbsZBlack dc);
               minSupportAdv = (if ev_state ev = SWhite then dc_refineMinSupportAdvWhite dc else dc_refineMinSupportAdvBlack dc);
               allowed = d_le minAbsZ (d_abs (ev_z ev)) \<and> d_le minSupportAdv baseSupportAdv
           in allowed \<and> d_less (ev_margin ev) (f_mul (dc_refineTriggerMult dc) (ev_required ev)))"

definition refinementPath :: "decision_config \<Rightarrow> features \<Rightarrow> eval_result \<Rightarrow> refinement_path" where
  "refinementPath dc f ev =
     (if hasEmptyRescueHint dc f ev then EmptyRescue else if hasStandardRefineHint dc f ev then StandardPath else NoPath)"

definition shouldRunRefinement :: "decision_config \<Rightarrow> refinement_path \<Rightarrow> eval_result \<Rightarrow> bool" where
  "shouldRunRefinement dc path ev \<longleftrightarrow>
     (if path = NoPath then False
      else if ev_state ev = SEmpty
      then d_less (ev_margin ev) (f_mul (dc_refineSkipStableEmptyMarginMult dc) (ev_required ev))
      else d_less (ev_margin ev) (f_mul (dc_refineTriggerMult dc) (ev_required ev)))"

definition acceptsRefinement :: "decision_config \<Rightarrow> refinement_path \<Rightarrow> eval_result \<Rightarrow> features \<Rightarrow> eval_result \<Rightarrow> bool" where
  "acceptsRefinement dc path base refinedFeature refined \<longleftrightarrow>
     (case path of
        NoPath \<Rightarrow> False
      | StandardPath \<Rightarrow>
          d_less (f_add (ev_margin base) (f_mul (dc_refineAcceptGainMult dc) (ev_required base))) (ev_margin refined)
      | EmptyRescue \<Rightarrow>
          (let minGain = f_mul (dc_refineAcceptFromEmptyGainMult dc) (ev_required base)
           in ev_state refined = SWhite \<and> d_less (f_add (ev_margin base) minGain) (ev_margin refined) \<and>
              d_le (f_mul (dc_emptyRescueMinMarginMult dc) (ev_required refined)) (ev_margin refined) \<and>
              d_le (dc_minSupportAdvantageWhite dc) (brightAdvantage refinedFeature)))"

end
