(* ===== verification/Stone_Finder.thy ===== *)
theory Stone_Finder imports Stone_Decision begin

text \<open>
  \<open>src/vision/core/stoneFinder.cpp\<close>, the class \<open>RefinementEngine\<close>, \<open>classifyAll\<close> and \<open>analyseBoard\<close>. The images for
  debugging are left out; the report on the error stream, which reads the evaluations and reasons, is in \<open>Stone_Report\<close>.
\<close>

subsection \<open>Refinement\<close>

text \<open>What the search reads: the members of the class.\<close>

record 'i refinement_engine =
  re_sampleContext :: "'i sample_context"
  re_offsets :: offsets
  re_radii :: radii
  re_spacing :: double
  re_geometryConfig :: geometry_config
  re_scoringConfig :: scoring_config
  re_refinementConfig :: refinement_config

definition computeRefinementExtent :: "double \<Rightarrow> refinement_config \<Rightarrow> int option" where
  "computeRefinementExtent spacing config =
     roundedSpacingValue spacing (rc_refineExtentSpacingK config) (rc_refineExtentFallback config)
       (rc_refineExtentMin config) (rc_refineExtentMax config)"

text \<open>The values of the loop variable. A step that is not positive never reaches the end.\<close>

function steps_from :: "int \<Rightarrow> int \<Rightarrow> int \<Rightarrow> int list option" where
  "steps_from x end_at step =
     (if end_at < x then Some []
      else if step \<le> 0 then None
      else do { next \<leftarrow> int32 (x + step); xs \<leftarrow> steps_from next end_at step; Some (x # xs) })"
  by pat_completeness auto

termination
  by (relation "measure (\<lambda>(x, end_at, step). nat (end_at + 1 - x))") (auto simp: int32_def split: if_splits)

declare steps_from.simps [simp del]

definition isBetterCandidate :: "eval_result \<Rightarrow> eval_result \<Rightarrow> refinement_config \<Rightarrow> bool" where
  "isBetterCandidate currentBest candidate config \<longleftrightarrow>
     d_less (ev_margin currentBest) (ev_margin candidate) \<or>
     ev_state currentBest = SEmpty \<and> ev_state candidate \<noteq> SEmpty \<and>
       d_le (ev_margin currentBest) (f_add (ev_margin candidate) (rc_refinePromoteFromEmptyEps config))"

definition try_candidate :: "'i opencv \<Rightarrow> 'i refinement_engine \<Rightarrow> model \<Rightarrow> spatial_context \<Rightarrow> int \<Rightarrow> int \<Rightarrow> offset \<Rightarrow>
    bool \<times> features \<times> eval_result \<Rightarrow> (bool \<times> features \<times> eval_result) option" where
  "try_candidate cv re m cx centerX centerY off st =
     (if fst off = 0 \<and> snd off = 0 then Some st
      else do {
        x \<leftarrow> int32 (centerX + fst off);
        y \<leftarrow> int32 (centerY + snd off);
        (ok, candidateFeature) \<leftarrow>
          computeFeaturesAt cv (re_sampleContext re) (re_offsets re) (re_radii re) (re_geometryConfig re) x y;
        let (sampledAny, bestFeature, bestEval) = st;
        if \<not> ok then Some st
        else let candidateEval = evaluate candidateFeature m (sp_edgeLevel cx) (re_scoringConfig re)
             in Some (if isBetterCandidate bestEval candidateEval (re_refinementConfig re)
                      then (True, candidateFeature, candidateEval) else (True, bestFeature, bestEval))
      })"

definition searchBest :: "'i opencv \<Rightarrow> 'i refinement_engine \<Rightarrow> point \<Rightarrow> model \<Rightarrow> spatial_context \<Rightarrow> features \<Rightarrow> eval_result \<Rightarrow>
    (bool \<times> features \<times> eval_result) option" where
  "searchBest cv re intersection m cx baseFeature baseEval =
     do {
       extent \<leftarrow> computeRefinementExtent (re_spacing re) (re_refinementConfig re);
       centerX \<leftarrow> lround_int (fst intersection);
       centerY \<leftarrow> lround_int (snd intersection);
       first \<leftarrow> int32 (- extent);
       steps \<leftarrow> steps_from first extent (rc_refineStepPx (re_refinementConfig re));
       loopM (try_candidate cv re m cx centerX centerY) [(offsetX, offsetY). offsetY \<leftarrow> steps, offsetX \<leftarrow> steps]
         (False, baseFeature, baseEval)
     }"

subsection \<open>Classification\<close>

record debug_stats =
  st_blackCount :: int
  st_whiteCount :: int
  st_emptyCount :: int
  st_refinedTried :: int
  st_refinedAccepted :: int

definition debug_stats_new :: debug_stats where
  "debug_stats_new = \<lparr>st_blackCount = 0, st_whiteCount = 0, st_emptyCount = 0, st_refinedTried = 0, st_refinedAccepted = 0\<rparr>"

text \<open>The outputs for one intersection.\<close>

record classified =
  cl_state :: stone_state
  cl_confidence :: double
  cl_eval :: eval_result
  cl_reason :: rejection_reason

definition count_state :: "stone_state \<Rightarrow> debug_stats \<Rightarrow> debug_stats" where
  "count_state s st =
     (if s = SBlack then st\<lparr>st_blackCount := st_blackCount st + 1\<rparr>
      else if s = SWhite then st\<lparr>st_whiteCount := st_whiteCount st + 1\<rparr>
      else st\<lparr>st_emptyCount := st_emptyCount st + 1\<rparr>)"

text \<open>The decision, its reason and whether a refinement was accepted.\<close>

definition refined_decision :: "'i opencv \<Rightarrow> 'i refinement_engine \<Rightarrow> decision_config \<Rightarrow> point \<Rightarrow> model \<Rightarrow> spatial_context \<Rightarrow>
    features \<Rightarrow> eval_result \<Rightarrow> eval_result \<times> rejection_reason \<Rightarrow> refinement_path \<Rightarrow>
    ((eval_result \<times> rejection_reason) \<times> bool) option" where
  "refined_decision cv re dc p m cx f baseEval base path =
     (if path \<noteq> NoPath \<and> shouldRunRefinement dc path baseEval
      then do {
        (refined, refinedFeature, bestRawEval) \<leftarrow> searchBest cv re p m cx f baseEval;
        Some (if refined \<and> acceptsRefinement dc path baseEval refinedFeature bestRawEval
              then (decide dc refinedFeature cx bestRawEval, True) else (base, False))
      }
      else Some (base, False))"

definition classify_one :: "'i opencv \<Rightarrow> point list \<Rightarrow> features list \<Rightarrow> model \<Rightarrow> u32 \<Rightarrow> scoring_config \<Rightarrow> decision_config \<Rightarrow>
    'i refinement_engine \<Rightarrow> double list \<Rightarrow> nat \<Rightarrow> classified list \<times> debug_stats \<Rightarrow> (classified list \<times> debug_stats) option" where
  "classify_one cv ps fs m boardSize sc dc re neighborMedianMap index st =
     do {
       let (out, stats) = st;
       f \<leftarrow> vec_at fs index;
       if \<not> ft_valid f
       then Some (out @ [\<lparr>cl_state = SEmpty, cl_confidence = Fin 0, cl_eval = eval_new, cl_reason = Other\<rparr>],
                  stats\<lparr>st_emptyCount := st_emptyCount stats + 1\<rparr>)
       else do {
         neighborMedian \<leftarrow> vec_at neighborMedianMap index;
         p \<leftarrow> vec_at ps index;
         let cx = \<lparr>sp_edgeLevel = edgeLevel index (sint boardSize), sp_neighborMedian = neighborMedian, sp_boardSize = boardSize\<rparr>;
         let baseEval = evaluate f m (sp_edgeLevel cx) sc;
         let path = refinementPath dc f baseEval;
         ((decision, reason), accepted) \<leftarrow> refined_decision cv re dc p m cx f baseEval (decide dc f cx baseEval) path;
         Some (out @ [\<lparr>cl_state = ev_state decision, cl_confidence = ev_confidence decision, cl_eval = baseEval,
                       cl_reason = (if ev_state decision = SEmpty then reason else NoReason)\<rparr>],
               count_state (ev_state decision)
                 (stats\<lparr>st_refinedTried := st_refinedTried stats + (if path = NoPath then 0 else 1),
                        st_refinedAccepted := st_refinedAccepted stats + (if accepted then 1 else 0)\<rparr>))
       }
     }"

definition classifyAll :: "'i opencv \<Rightarrow> point list \<Rightarrow> features list \<Rightarrow> model \<Rightarrow> u32 \<Rightarrow> scoring_config \<Rightarrow> decision_config \<Rightarrow>
    'i refinement_engine \<Rightarrow> (classified list \<times> debug_stats) option" where
  "classifyAll cv ps fs m boardSize sc dc re =
     do {
       neighborMedianMap \<leftarrow> computeNeighborMedianMap fs (sint boardSize) (md_medianEmpty m);
       loopM (classify_one cv ps fs m boardSize sc dc re neighborMedianMap) [0..<length ps] ([], debug_stats_new)
     }"

subsection \<open>The board\<close>

definition no_stones :: stone_result where
  "no_stones = \<lparr>sr_success = False, sr_stones = [], sr_confidence = []\<rparr>"

definition analyseBoardV2 :: "'i opencv \<Rightarrow> 'i board_geometry \<Rightarrow> stone_config \<Rightarrow> stone_result option" where
  "analyseBoardV2 cv g config =
     (if cv_empty cv (bg_image g) then Some no_stones
      else if bg_boardSize g = 0 \<or> length (bg_intersections g) \<noteq> unat (bg_boardSize g * bg_boardSize g) then Some no_stones
      else do {
        radii \<leftarrow> chooseRadii (bg_spacing g) (cfg_geometry config);
        offs \<leftarrow> precomputeOffsets radii;
        blurred \<leftarrow> prepareLabBlur cv (bg_image g) radii (cfg_geometry config);
        case blurred of
          None \<Rightarrow> Some no_stones
        | Some context \<Rightarrow> do {
            fs \<leftarrow> computeFeatures cv (bg_intersections g) context offs radii (cfg_geometry config);
            calibrated \<leftarrow> calibrateModel fs (bg_boardSize g) (cfg_calibration config);
            case calibrated of
              None \<Rightarrow> Some no_stones
            | Some m \<Rightarrow> do {
                (out, stats) \<leftarrow> classifyAll cv (bg_intersections g) fs m (bg_boardSize g) (cfg_scoring config)
                  (cfg_decision config)
                  \<lparr>re_sampleContext = context, re_offsets = offs, re_radii = radii, re_spacing = bg_spacing g,
                   re_geometryConfig = cfg_geometry config, re_scoringConfig = cfg_scoring config,
                   re_refinementConfig = cfg_refinement config\<rparr>;
                Some \<lparr>sr_success = True, sr_stones = map cl_state out, sr_confidence = map cl_confidence out\<rparr>
              }
          }
      })"

definition analyseBoard :: "'i opencv \<Rightarrow> 'i board_geometry \<Rightarrow> stone_config \<Rightarrow> stone_result option" where
  "analyseBoard cv g config = analyseBoardV2 cv g config"

end
