(* ===== verification/Stone_Bounds.thy ===== *)
theory Stone_Bounds imports Stone_Finder begin

text \<open>
  What is measured around an intersection is in range, and measuring it does not fault: for sound parameters, an image
  of bytes, and intersections and spacing within \<open>2 ^ 20\<close> pixels.
\<close>

subsection \<open>Parameters\<close>

definition geometry_config_ok :: "geometry_config \<Rightarrow> bool" where
  "geometry_config_ok gc \<longleftrightarrow>
     0 \<le> gc_innerRadiusMin gc \<and> gc_innerRadiusMin gc \<le> gc_innerRadiusMax gc \<and> gc_innerRadiusMax gc \<le> 100 \<and>
     0 \<le> gc_bgRadiusMin gc \<and> gc_bgRadiusMin gc \<le> gc_bgRadiusMax gc \<and> gc_bgRadiusMax gc \<le> 100 \<and>
     d_in (gc_innerRadiusSpacingK gc) 0 1 \<and> d_in (gc_bgOffsetSpacingK gc) 0 1 \<and>
     0 \<le> gc_bgOffsetMinExtra gc \<and> gc_bgOffsetMinExtra gc \<le> 1000 \<and>
     0 \<le> gc_bgOffsetFallbackAdd gc \<and> gc_bgOffsetFallbackAdd gc \<le> 1000 \<and>
     1 \<le> gc_minBgSamples gc \<and> d_in (gc_labNeutral gc) 0 255 \<and> d_in (gc_blurSigmaRadiusK gc) 0 1 \<and>
     (\<exists>lo hi. gc_blurSigmaMin gc = Fin lo \<and> gc_blurSigmaMax gc = Fin hi \<and> 0 < lo \<and> lo \<le> hi \<and> hi \<le> 1000)"

definition spacing_ok :: "double \<Rightarrow> bool" where
  "spacing_ok s \<longleftrightarrow> (isfinite s \<longrightarrow> d_less (Fin 0) s \<longrightarrow> d_in s 0 (2 ^ 20))"

lemma spacing_scaled:
  assumes "spacing_ok s" "isfinite s" "d_less (Fin 0) s" "d_in k 0 1"
  shows "\<exists>n. lround_int (d_mul s k) = Some n \<and> \<bar>n\<bar> \<le> 2 ^ 20"
proof -
  have "d_in s 0 (2 ^ 20)" using assms(1-3) by (simp add: spacing_ok_def)
  from d_mul_in [OF this assms(4), of 0 "2 ^ 20"] have "d_in (d_mul s k) 0 (2 ^ 20)" by simp
  then have "d_in (d_mul s k) (- of_int (2 ^ 20)) (of_int (2 ^ 20))" by (rule d_in_weaken) simp_all
  from lround_int_small [OF this] show ?thesis by simp
qed

lemma clamp_int_ok: "lo \<le> hi \<Longrightarrow> \<exists>n. clamp_int v lo hi = Some n \<and> lo \<le> n \<and> n \<le> hi"
  by (auto simp: clamp_int_def)

lemma roundedSpacingValue_ok:
  assumes "spacing_ok s" "d_in k 0 1" "lo \<le> hi"
  shows "\<exists>n. roundedSpacingValue s k fallback lo hi = Some n \<and> lo \<le> n \<and> n \<le> hi"
  using spacing_scaled [OF assms(1) _ _ assms(2)] clamp_int_ok [OF assms(3)] by (fastforce simp: roundedSpacingValue_def)

definition radii_ok :: "radii \<Rightarrow> bool" where
  "radii_ok r \<longleftrightarrow> 0 \<le> rd_innerRadius r \<and> rd_innerRadius r \<le> 100 \<and> 0 \<le> rd_bgRadius r \<and> rd_bgRadius r \<le> 100 \<and>
     \<bar>rd_bgOffset r\<bar> \<le> 2 ^ 21"

lemma chooseRadii_ok:
  assumes "geometry_config_ok gc" "spacing_ok s"
  shows "\<exists>r. chooseRadii s gc = Some r \<and> radii_ok r"
proof -
  note g = assms(1) [unfolded geometry_config_ok_def]
  obtain i where i: "roundedSpacingValue s (gc_innerRadiusSpacingK gc) (gc_innerRadiusFallback gc) (gc_innerRadiusMin gc) (gc_innerRadiusMax gc) = Some i"
    "0 \<le> i" "i \<le> 100"
    using roundedSpacingValue_ok [OF assms(2), of "gc_innerRadiusSpacingK gc" "gc_innerRadiusMin gc" "gc_innerRadiusMax gc"] g by fastforce
  obtain b where b: "clamp_int (i sdiv 2) (gc_bgRadiusMin gc) (gc_bgRadiusMax gc) = Some b" "0 \<le> b" "b \<le> 100"
    using clamp_int_ok [of "gc_bgRadiusMin gc" "gc_bgRadiusMax gc" "i sdiv 2"] g by fastforce
  have "\<exists>x. (if isfinite s \<and> d_less (Fin 0) s
      then do { bgOffset \<leftarrow> lround_int (d_mul s (gc_bgOffsetSpacingK gc)); least \<leftarrow> int32 (i + gc_bgOffsetMinExtra gc); Some (max bgOffset least) }
      else do { twice \<leftarrow> int32 (i * 2); int32 (twice + gc_bgOffsetFallbackAdd gc) }) = Some x \<and> \<bar>x\<bar> \<le> 2 ^ 21"
  proof (cases "isfinite s \<and> d_less (Fin 0) s")
    case True
    then obtain n where "lround_int (d_mul s (gc_bgOffsetSpacingK gc)) = Some n" "\<bar>n\<bar> \<le> 2 ^ 20"
      using spacing_scaled [OF assms(2)] g by blast
    with True g i(2,3) show ?thesis by (auto simp: int32_small)
  next
    case False
    with g i(2,3) show ?thesis by (auto simp: int32_small)
  qed
  then obtain x where "(if isfinite s \<and> d_less (Fin 0) s
      then do { bgOffset \<leftarrow> lround_int (d_mul s (gc_bgOffsetSpacingK gc)); least \<leftarrow> int32 (i + gc_bgOffsetMinExtra gc); Some (max bgOffset least) }
      else do { twice \<leftarrow> int32 (i * 2); int32 (twice + gc_bgOffsetFallbackAdd gc) }) = Some x" "\<bar>x\<bar> \<le> 2 ^ 21" by blast
  with i b show ?thesis by (simp add: chooseRadii_def radii_ok_def)
qed

subsection \<open>The pixels around an intersection\<close>

lemma distinct_rows:
  "distinct ys \<Longrightarrow> distinct xs \<Longrightarrow> distinct (concat (map (\<lambda>y. map (\<lambda>x. (x, y)) (filter (P y) xs)) ys))"
  by (induction ys) (auto simp: distinct_map inj_on_def)

lemma makeCircleOffsets_ok:
  assumes "0 \<le> r" "r \<le> 100"
  shows "\<exists>os. makeCircleOffsets r = Some os \<and> set os = {(x, y). x * x + y * y \<le> r * r} \<and> distinct os"
proof -
  have "side * side \<le> 201 * 201" "0 \<le> side * side" if "side = 2 * r + 1" for side
    using that assms mult_mono [of side 201 side 201] by simp_all
  then have i: "int32 (2 * r) = Some (2 * r)" "int32 (2 * r + 1) = Some (2 * r + 1)" "int32 ((2 * r + 1) * (2 * r + 1)) = Some ((2 * r + 1) * (2 * r + 1))"
    using assms by (intro int32_small; simp)+
  let ?row = "\<lambda>y. map (\<lambda>x. (x, y)) (filter (\<lambda>x. x * x + y * y \<le> r * r) [- r..r])"
  have small: "- r \<le> x \<and> x \<le> r" if "x * x \<le> r * r" for x
  proof -
    have "\<bar>x\<bar> \<le> \<bar>r\<bar>" using that by (simp add: abs_le_square_iff power2_eq_square)
    with assms(1) show ?thesis by linarith
  qed
  have "x * x \<le> r * r" "y * y \<le> r * r" if "x * x + y * y \<le> r * r" for x y :: int
    using that zero_le_square [of x] zero_le_square [of y] by linarith+
  then have "y \<in> {- r..r} \<and> x \<in> {- r..r}" if "x * x + y * y \<le> r * r" for x y
    using small that by (metis atLeastAtMost_iff)
  then have "set (concat (map ?row [- r..r])) = {(x, y). x * x + y * y \<le> r * r}" by (fastforce simp: image_iff)
  moreover have "distinct (concat (map ?row [- r..r]))"
    by (rule distinct_rows) simp_all
  ultimately show ?thesis using i by (simp add: makeCircleOffsets_def)
qed

definition offs_ok :: "offset list \<Rightarrow> bool" where
  "offs_ok os \<longleftrightarrow> length os \<le> 40401 \<and> (\<forall>(x, y) \<in> set os. \<bar>x\<bar> \<le> 100 \<and> \<bar>y\<bar> \<le> 100)"

lemma circle_offs_ok:
  assumes "makeCircleOffsets r = Some os" "0 \<le> r" "r \<le> 100"
  shows "offs_ok os"
proof -
  from makeCircleOffsets_ok [OF assms(2,3)] assms(1)
  have os: "set os = {(x, y). x * x + y * y \<le> r * r}" "distinct os" by auto
  have sq: "\<bar>x\<bar> \<le> 100 \<and> \<bar>y\<bar> \<le> 100" if "x * x + y * y \<le> r * r" for x y
  proof -
    have "x * x \<le> r * r" "y * y \<le> r * r" using that zero_le_square [of x] zero_le_square [of y] by linarith+
    then have "\<bar>x\<bar> \<le> \<bar>r\<bar>" "\<bar>y\<bar> \<le> \<bar>r\<bar>" by (simp_all add: abs_le_square_iff power2_eq_square)
    with assms(2,3) show ?thesis by linarith
  qed
  then have "set os \<subseteq> {-100..100} \<times> {-100..100}" unfolding os(1) by (auto simp: abs_le_iff) (smt (verit))+
  from card_mono [OF _ this] have "card (set os) \<le> 40401" by simp
  then have "length os \<le> 40401" using distinct_card [OF os(2)] by simp
  with sq show ?thesis by (auto simp: offs_ok_def os(1))
qed

lemma precomputeOffsets_ok:
  assumes "radii_ok r"
  shows "\<exists>os. precomputeOffsets r = Some os \<and> offs_ok (os_inner os) \<and> offs_ok (os_bg os)"
proof -
  obtain i b where "makeCircleOffsets (rd_innerRadius r) = Some i" "makeCircleOffsets (rd_bgRadius r) = Some b"
    using makeCircleOffsets_ok assms by (fastforce simp: radii_ok_def)
  with circle_offs_ok assms show ?thesis by (auto simp: precomputeOffsets_def radii_ok_def)
qed

subsection \<open>Means\<close>

definition context_ok :: "'i opencv \<Rightarrow> 'i sample_context \<Rightarrow> bool" where
  "context_ok cv sx \<longleftrightarrow> (\<forall>x y. inside sx x y \<longrightarrow>
     cv_at cv (sx_L sx) y x \<noteq> None \<and> cv_at cv (sx_A sx) y x \<noteq> None \<and> cv_at cv (sx_B sx) y x \<noteq> None)"

text \<open>A sum of \<open>n\<close> bytes.\<close>

definition byte_sum :: "u32 \<Rightarrow> nat \<Rightarrow> bool" where
  "byte_sum s n \<longleftrightarrow> unat s \<le> 255 * n"

lemma byte_sum_new: "byte_sum 0 n"
  by (simp add: byte_sum_def)

lemma byte_sum_add: "byte_sum s n \<Longrightarrow> n \<le> 40401 \<Longrightarrow> byte_sum (s + ucast (b :: u8)) (Suc n)"
proof -
  assume s: "byte_sum s n" "n \<le> 40401"
  have "unat b < 2 ^ 8" using unsigned_less [of b, where ?'a = nat] by simp
  then have "unat (ucast b :: u32) \<le> 255" by (simp add: unsigned_ucast_eq take_bit_nat_eq_self)
  moreover have "unat (s + ucast b) \<le> unat s + unat (ucast b :: u32)" by (simp add: unat_word_ariths)
  ultimately show ?thesis using s by (simp add: byte_sum_def)
qed

definition count_ok :: "u32 \<Rightarrow> nat \<Rightarrow> bool" where
  "count_ok c k \<longleftrightarrow> unat c \<le> k"

lemma count_ok_new: "count_ok 0 k"
  by (simp add: count_ok_def)

lemma count_add: "count_ok c k \<Longrightarrow> k \<le> 40401 \<Longrightarrow> unat (c + 1) = Suc (unat c) \<and> count_ok (c + 1) (Suc k)"
proof -
  assume c: "count_ok c k" "k \<le> 40401"
  then have "unat (c + 1) = Suc (unat c)" by (simp add: count_ok_def unat_word_ariths)
  with c show ?thesis by (simp add: count_ok_def)
qed

lemma count_keep: "count_ok c k \<Longrightarrow> count_ok c (Suc k)"
  by (simp add: count_ok_def)

lemma f_u32_eq: "unat n = k \<Longrightarrow> k \<le> 16777215 \<Longrightarrow> f_u32 n = Fin (of_nat k)"
proof -
  assume "unat n = k" "k \<le> 16777215"
  then have "uint n = int k" "\<bar>int k\<bar> < 2 ^ 24" by auto
  then show ?thesis unfolding f_u32_def by (simp only: f_int_exact of_int_of_nat_eq)
qed

lemma fraction_in:
  assumes "unat s \<le> h * unat c" "count_ok c 40401" "c \<noteq> 0" "h \<le> 255"
  shows "d_in (f_div (f_u32 s) (f_u32 c)) 0 (of_nat h)"
proof -
  obtain n k where n: "unat c = n" "unat s = k" by simp
  have c: "0 < n" "n \<le> 40401" "k \<le> h * n" using assms(1-3) n by (auto simp: count_ok_def unat_gt_0)
  have "h * n \<le> 255 * 40401" using c(2) assms(4) by (rule mult_le_mono [rotated])
  then have s: "f_u32 s = Fin (of_nat k)" "f_u32 c = Fin (of_nat n)" using n c by (simp_all add: f_u32_eq)
  have "(of_nat k :: rat) \<le> of_nat (h * n)" using c(3) by (simp only: of_nat_le_iff)
  then have d: "d_in (f_u32 s) 0 (of_nat h * of_nat n)" "d_in (f_u32 c) (of_nat n) (of_nat n)" by (simp_all add: s)
  have "fl32_num (of_nat h)" using fl32_num_int [of "int h"] assms(4) by simp
  from f_div_in [OF d _ _ this] show ?thesis using c(1) by simp
qed

lemma byte_mean_in: "byte_sum s (unat c) \<Longrightarrow> count_ok c 40401 \<Longrightarrow> c \<noteq> 0 \<Longrightarrow> d_in (f_div (f_u32 s) (f_u32 c)) 0 255"
  using fraction_in [of s 255 c] by (simp add: byte_sum_def)

lemma share_in: "unat s \<le> unat c \<Longrightarrow> count_ok c 40401 \<Longrightarrow> c \<noteq> 0 \<Longrightarrow> d_in (f_div (f_u32 s) (f_u32 c)) 0 1"
  using fraction_in [of s 1 c] by simp

text \<open>A pixel near a point of the image.\<close>

lemma near_int32:
  assumes "\<bar>c\<bar> \<le> 2 ^ 30" "\<bar>d\<bar> \<le> 2 ^ 22"
  shows "int32 (c + d) = Some (c + d)"
  using assms by (intro int32_small) simp

lemma offs_near:
  assumes "offs_ok os" "os = done @ (x, y) # rest"
  shows "\<bar>x\<bar> \<le> 2 ^ 22" "\<bar>y\<bar> \<le> 2 ^ 22" "length done \<le> 40401"
  using assms by (auto simp: offs_ok_def)

lemma sampleMeanL_ok:
  assumes "context_ok cv sx" "offs_ok os" "\<bar>cx\<bar> \<le> 2 ^ 30" "\<bar>cy\<bar> \<le> 2 ^ 30"
  shows "\<exists>r. sampleMeanL cv sx cx cy os = Some r \<and> (\<forall>m. r = Some m \<longrightarrow> d_in m 0 255)"
proof -
  let ?I = "\<lambda>done (sum, count). byte_sum sum (unat count) \<and> count_ok count (length done)"
  have "\<exists>s'. loopM (add_L cv sx cx cy) os (0, 0) = Some s' \<and> ?I os s'"
  proof (rule loopM_prefix)
    show "?I [] (0, 0)" by (simp add: byte_sum_new count_ok_new)
    fix "done" off rest st
    assume p: "os = done @ off # rest" and I: "?I done st"
    obtain x y where o: "off = (x, y)" by (cases off)
    obtain s c where st: "st = (s, c)" by (cases st)
    note n = offs_near [OF assms(2) p [unfolded o]]
    note i = near_int32 [OF assms(3) n(1)] near_int32 [OF assms(4) n(2)]
    show "\<exists>s'. add_L cv sx cx cy off st = Some s' \<and> ?I (done @ [off]) s'"
    proof (cases "inside sx (cx + x) (cy + y)")
      case True
      then obtain l where "cv_at cv (sx_L sx) (cy + y) (cx + x) = Some l" using assms(1) by (auto simp: context_ok_def)
      moreover have "byte_sum (s + ucast l) (unat (c + 1)) \<and> count_ok (c + 1) (Suc (length done))"
        using I count_add [of c "length done"] byte_sum_add [of s "unat c" l] n(3) by (simp add: st count_ok_def)
      ultimately show ?thesis using True i by (simp add: add_L_def o st)
    qed (use I i in \<open>simp add: add_L_def o st count_keep\<close>)
  qed
  then obtain s c where r: "loopM (add_L cv sx cx cy) os (0, 0) = Some (s, c)" "byte_sum s (unat c)" "count_ok c (length os)"
    by auto
  from r(3) assms(2) have "count_ok c 40401" by (simp add: count_ok_def offs_ok_def)
  with r byte_mean_in show ?thesis by (auto simp: sampleMeanL_def)
qed

lemma sampleMeanLab_ok:
  assumes "context_ok cv sx" "offs_ok os" "\<bar>cx\<bar> \<le> 2 ^ 30" "\<bar>cy\<bar> \<le> 2 ^ 30"
  shows "\<exists>r. sampleMeanLab cv sx cx cy os = Some r \<and>
    (\<forall>l a b. r = Some (l, a, b) \<longrightarrow> d_in l 0 255 \<and> d_in a 0 255 \<and> d_in b 0 255)"
proof -
  let ?I = "\<lambda>done (sumL, sumA, sumB, count).
    byte_sum sumL (unat count) \<and> byte_sum sumA (unat count) \<and> byte_sum sumB (unat count) \<and> count_ok count (length done)"
  have "\<exists>s'. loopM (add_Lab cv sx cx cy) os (0, 0, 0, 0) = Some s' \<and> ?I os s'"
  proof (rule loopM_prefix)
    show "?I [] (0, 0, 0, 0)" by (simp add: byte_sum_new count_ok_new)
    fix "done" off rest st
    assume p: "os = done @ off # rest" and I: "?I done st"
    obtain x y where o: "off = (x, y)" by (cases off)
    obtain sl sa sb c where st: "st = (sl, sa, sb, c)" by (cases st)
    note n = offs_near [OF assms(2) p [unfolded o]]
    note i = near_int32 [OF assms(3) n(1)] near_int32 [OF assms(4) n(2)]
    show "\<exists>s'. add_Lab cv sx cx cy off st = Some s' \<and> ?I (done @ [off]) s'"
    proof (cases "inside sx (cx + x) (cy + y)")
      case True
      then obtain l a b where "cv_at cv (sx_L sx) (cy + y) (cx + x) = Some l" "cv_at cv (sx_A sx) (cy + y) (cx + x) = Some a"
        "cv_at cv (sx_B sx) (cy + y) (cx + x) = Some b" using assms(1) unfolding context_ok_def by blast
      moreover have "unat (c + 1) = Suc (unat c)" "count_ok (c + 1) (Suc (length done))" "unat c \<le> 40401"
        using I count_add [of c "length done"] n(3) by (simp_all add: st count_ok_def)
      ultimately show ?thesis using True i I by (simp add: add_Lab_def o st byte_sum_add)
    qed (use I i in \<open>simp add: add_Lab_def o st count_keep\<close>)
  qed
  then obtain sl sa sb c where r: "loopM (add_Lab cv sx cx cy) os (0, 0, 0, 0) = Some (sl, sa, sb, c)"
    "byte_sum sl (unat c)" "byte_sum sa (unat c)" "byte_sum sb (unat c)" "count_ok c (length os)"
    by auto
  from r(5) assms(2) have "count_ok c 40401" by (simp add: count_ok_def offs_ok_def)
  with r byte_mean_in show ?thesis by (auto simp: sampleMeanLab_def)
qed

subsection \<open>Features\<close>

definition features_ok :: "features \<Rightarrow> bool" where
  "features_ok f \<longleftrightarrow> d_in (ft_deltaL f) (-255) 255 \<and> d_in (ft_chromaSq f) 0 (2 ^ 17) \<and>
     d_in (ft_darkFrac f) 0 1 \<and> d_in (ft_brightFrac f) 0 1"

lemma features_new_ok: "features_ok features_new" "\<not> ft_valid features_new"
  by (simp_all add: features_ok_def features_new_def)

lemma half_in: "d_in x a b \<Longrightarrow> d_in y a b \<Longrightarrow> fl32_num (2 * a) \<Longrightarrow> fl32_num (2 * b) \<Longrightarrow> fl32_num a \<Longrightarrow> fl32_num b \<Longrightarrow>
  d_in (f_mul (flit (1 / 2)) (f_add x y)) a b"
proof -
  assume xy: "d_in x a b" "d_in y a b" and n: "fl32_num (2 * a)" "fl32_num (2 * b)" "fl32_num a" "fl32_num b"
  from f_add_in [OF xy n(1,2)] obtain s where s: "f_add x y = Fin s" "2 * a \<le> s" "s \<le> 2 * b" by (auto elim: d_inE)
  have "flit (1 / 2) = Fin (1 / 2)" using fl32_num_pow2 [of "-1"] by (simp add: flit_def round32_exact power_int_def)
  with s n(3,4) show ?thesis by (auto intro!: round32_in)
qed

lemma sorted_middle_in:
  assumes "\<forall>x \<in> set xs. d_in x a b" "xs \<noteq> []" "fl32_num (2 * a)" "fl32_num (2 * b)" "fl32_num a" "fl32_num b"
  shows "\<exists>m. sorted_middle xs = Some m \<and> d_in m a b"
proof (cases "odd (length xs)")
  case True
  then have "length xs div 2 < length xs" by (cases xs) simp_all
  with True assms(1) show ?thesis by (auto simp: sorted_middle_def Let_def)
next
  case False
  then have "length xs div 2 < length xs" "length xs div 2 - 1 < length xs" using assms(2) by (simp_all add: less_imp_diff_less)
  with False assms half_in show ?thesis by (auto simp: sorted_middle_def Let_def)
qed

lemma sample_direction_ok:
  assumes "context_ok cv sx" "offs_ok os" "radii_ok r" "\<bar>cx\<bar> \<le> 2 ^ 25" "\<bar>cy\<bar> \<le> 2 ^ 25" "dir \<in> set directions"
  shows "\<exists>ss'. sample_direction cv sx os r cx cy dir ss = Some ss' \<and> (\<forall>m \<in> set ss'. m \<in> set ss \<or> d_in m 0 255)"
proof -
  have d: "\<bar>fst dir\<bar> \<le> 1" "\<bar>snd dir\<bar> \<le> 1" using assms(6) by (auto simp: directions_def)
  have m: "\<bar>x * rd_bgOffset r\<bar> \<le> 2 ^ 21" if "\<bar>x\<bar> \<le> 1" for x
    using mult_mono [OF that, of "\<bar>rd_bgOffset r\<bar>" "2 ^ 21"] assms(3) by (simp add: radii_ok_def abs_mult)
  note x = m [OF d(1)] and y = m [OF d(2)]
  have i: "int32 (fst dir * rd_bgOffset r) = Some (fst dir * rd_bgOffset r)" "int32 (snd dir * rd_bgOffset r) = Some (snd dir * rd_bgOffset r)"
    "int32 (cx + fst dir * rd_bgOffset r) = Some (cx + fst dir * rd_bgOffset r)"
    "int32 (cy + snd dir * rd_bgOffset r) = Some (cy + snd dir * rd_bgOffset r)"
    using x y assms(4,5) by (intro int32_small; simp)+
  have "\<bar>cx + fst dir * rd_bgOffset r\<bar> \<le> 2 ^ 30" "\<bar>cy + snd dir * rd_bgOffset r\<bar> \<le> 2 ^ 30" using x y assms(4,5) by simp_all
  from sampleMeanL_ok [OF assms(1,2) this] i show ?thesis by (auto simp: sample_direction_def split: option.splits)
qed

lemma samples_ok:
  assumes "context_ok cv sx" "offs_ok os" "radii_ok r" "\<bar>cx\<bar> \<le> 2 ^ 25" "\<bar>cy\<bar> \<le> 2 ^ 25"
  shows "\<exists>ss. loopM (sample_direction cv sx os r cx cy) directions [] = Some ss \<and> (\<forall>m \<in> set ss. d_in m 0 255)"
proof (rule loopM_rule [where I = "\<lambda>_ ss. \<forall>m \<in> set ss. d_in m 0 255"])
  fix "done" dir ss
  assume "dir \<in> set directions" "\<forall>m \<in> set ss. d_in m 0 255"
  then show "\<exists>ss'. sample_direction cv sx os r cx cy dir ss = Some ss' \<and> (\<forall>m \<in> set ss'. d_in m 0 255)"
    using sample_direction_ok [OF assms] by blast
qed simp

lemma support_ok:
  assumes "context_ok cv sx" "offs_ok os" "\<bar>cx\<bar> \<le> 2 ^ 30" "\<bar>cy\<bar> \<le> 2 ^ 30"
  shows "\<exists>t d b. loopM (add_support cv sx gc cx cy bm) os (0, 0, 0) = Some (t, d, b) \<and>
    (0 < t \<longrightarrow> d_in (f_div (f_u32 d) (f_u32 t)) 0 1 \<and> d_in (f_div (f_u32 b) (f_u32 t)) 0 1)"
proof -
  let ?I = "\<lambda>done (t :: u32, d :: u32, b :: u32). unat d + unat b \<le> unat t \<and> count_ok t (length done)"
  have "\<exists>s'. loopM (add_support cv sx gc cx cy bm) os (0, 0, 0) = Some s' \<and> ?I os s'"
  proof (rule loopM_prefix)
    show "?I [] (0, 0, 0)" by (simp add: count_ok_new)
    fix "done" off rest st
    assume p: "os = done @ off # rest" and I: "?I done st"
    obtain x y where o: "off = (x, y)" by (cases off)
    obtain t d b where st: "st = (t, d, b)" by (cases st)
    note n = offs_near [OF assms(2) p [unfolded o]]
    note i = near_int32 [OF assms(3) n(1)] near_int32 [OF assms(4) n(2)]
    show "\<exists>s'. add_support cv sx gc cx cy bm off st = Some s' \<and> ?I (done @ [off]) s'"
    proof (cases "inside sx (cx + x) (cy + y)")
      case True
      then obtain l where "cv_at cv (sx_L sx) (cy + y) (cx + x) = Some l" using assms(1) unfolding context_ok_def by blast
      moreover have "unat (t + 1) = Suc (unat t)" "count_ok (t + 1) (Suc (length done))"
        using I count_add [of t "length done"] n(3) by (simp_all add: st)
      moreover have "unat (d + 1) = Suc (unat d)" "unat (b + 1) = Suc (unat b)"
        using I n(3) count_add [of d "length done"] count_add [of b "length done"] by (simp_all add: st count_ok_def)
      ultimately show ?thesis using True i I by (simp add: add_support_def o st Let_def)
    qed (use I i in \<open>simp add: add_support_def o st count_keep\<close>)
  qed
  then obtain t d b where r: "loopM (add_support cv sx gc cx cy bm) os (0, 0, 0) = Some (t, d, b)"
    "unat d + unat b \<le> unat t" "count_ok t (length os)" by auto
  from r(3) assms(2) have "count_ok t 40401" by (simp add: count_ok_def offs_ok_def)
  with r share_in [of d t] share_in [of b t] show ?thesis by auto
qed

lemma chroma_in:
  assumes "d_in a 0 255" "d_in b 0 255" "d_in n 0 255"
  shows "d_in (f_add (f_mul (f_sub a n) (f_sub a n)) (f_mul (f_sub b n) (f_sub b n))) 0 (2 ^ 17)"
proof -
  have "d_in (f_mul (f_sub x n) (f_sub x n)) 0 65536" if "d_in x 0 255" for x
  proof -
    from f_sub_in [OF that assms(3), of "-255" 255] have "d_in (f_sub x n) (- 255) 255" by simp
    from f_square_in [OF this] show ?thesis by simp
  qed
  from f_add_in [OF this [OF assms(1)] this [OF assms(2)], of 0 131072] show ?thesis by simp
qed

lemma computeFeaturesAt_ok:
  assumes "context_ok cv sx" "offs_ok (os_inner os)" "offs_ok (os_bg os)" "radii_ok r" "geometry_config_ok gc"
    and "\<bar>cx\<bar> \<le> 2 ^ 25" "\<bar>cy\<bar> \<le> 2 ^ 25"
  shows "\<exists>ok f. computeFeaturesAt cv sx os r gc cx cy = Some (ok, f) \<and> features_ok f \<and> ft_valid f = ok"
proof -
  have c: "\<bar>cx\<bar> \<le> 2 ^ 30" "\<bar>cy\<bar> \<le> 2 ^ 30" using assms(6,7) by simp_all
  obtain inner where i: "sampleMeanLab cv sx cx cy (os_inner os) = Some inner"
    "\<And>l a b. inner = Some (l, a, b) \<Longrightarrow> d_in l 0 255 \<and> d_in a 0 255 \<and> d_in b 0 255"
    using sampleMeanLab_ok [OF assms(1,2) c] by blast
  obtain ss where s: "loopM (sample_direction cv sx (os_bg os) r cx cy) directions [] = Some ss" "\<forall>m \<in> set ss. d_in m 0 255"
    using samples_ok [OF assms(1,3,4,6,7)] by blast
  show ?thesis
  proof (cases "inner = None \<or> int (length ss) < gc_minBgSamples gc")
    case True
    then show ?thesis using i(1) s(1) features_new_ok by (cases inner) (auto simp: computeFeaturesAt_def)
  next
    case False
    then obtain l a b where lab: "inner = Some (l, a, b)" by (cases inner) auto
    have "length ss \<noteq> 0" using False assms(5) by (auto simp: geometry_config_ok_def)
    then have ss: "sort ss \<noteq> []" by (metis length_sort list.size(3))
    note srt = d_sort_in [OF s(2)]
    obtain m where m: "sorted_middle (sort ss) = Some m" "d_in m 0 255"
      using sorted_middle_in [OF srt(2) ss] by auto
    obtain t d b' where u: "loopM (add_support cv sx gc cx cy m) (os_inner os) (0, 0, 0) = Some (t, d, b')"
      "0 < t \<longrightarrow> d_in (f_div (f_u32 d) (f_u32 t)) 0 1 \<and> d_in (f_div (f_u32 b') (f_u32 t)) 0 1"
      using support_ok [OF assms(1,2) c] by blast
    have "d_in (f_sub l m) (-255) 255" using f_sub_in [OF _ m(2), of l 0 255 "-255" 255] i(2) [OF lab] by simp
    moreover have "d_in (f_add (f_mul (f_sub a (gc_labNeutral gc)) (f_sub a (gc_labNeutral gc)))
        (f_mul (f_sub b (gc_labNeutral gc)) (f_sub b (gc_labNeutral gc)))) 0 (2 ^ 17)"
      using chroma_in i(2) [OF lab] assms(5) by (simp add: geometry_config_ok_def)
    ultimately show ?thesis using i(1) lab s(1) False srt(1) m(1) u
      by (simp add: computeFeaturesAt_def features_ok_def Let_def) (rule exI [of _ True], simp)
  qed
qed

definition point_ok :: "point \<Rightarrow> bool" where
  "point_ok p \<longleftrightarrow> d_in (fst p) (- (2 ^ 20)) (2 ^ 20) \<and> d_in (snd p) (- (2 ^ 20)) (2 ^ 20)"

lemma point_centre:
  assumes "point_ok p"
  shows "\<exists>x y. lround_int (fst p) = Some x \<and> \<bar>x\<bar> \<le> 2 ^ 20 \<and> lround_int (snd p) = Some y \<and> \<bar>y\<bar> \<le> 2 ^ 20"
  using assms lround_int_small [of "fst p" "2 ^ 20"] lround_int_small [of "snd p" "2 ^ 20"] by (auto simp: point_ok_def)

lemma computeFeatures_ok:
  assumes "context_ok cv sx" "offs_ok (os_inner os)" "offs_ok (os_bg os)" "radii_ok r" "geometry_config_ok gc" "\<forall>p \<in> set ps. point_ok p"
  shows "\<exists>fs. computeFeatures cv ps sx os r gc = Some fs \<and> length fs = length ps \<and> (\<forall>f \<in> set fs. features_ok f)"
proof -
  have "\<exists>f. features_at cv sx os r gc p = Some f \<and> features_ok f" if p: "p \<in> set ps" for p
  proof -
    obtain x y where xy: "lround_int (fst p) = Some x" "\<bar>x\<bar> \<le> 2 ^ 20" "lround_int (snd p) = Some y" "\<bar>y\<bar> \<le> 2 ^ 20"
      using point_centre [of p] p assms(6) by blast
    then have "\<bar>x\<bar> \<le> 2 ^ 25" "\<bar>y\<bar> \<le> 2 ^ 25" by simp_all
    from computeFeaturesAt_ok [OF assms(1-5) this] xy show ?thesis by (auto simp: features_at_def)
  qed
  then have "\<forall>p \<in> set ps. \<exists>f. features_at cv sx os r gc p = Some f \<and> features_ok f" by blast
  from those_map [OF this] obtain fs where "computeFeatures cv ps sx os r gc = Some fs" "list_all2 (\<lambda>p f. features_ok f) ps fs"
    by (auto simp: computeFeatures_def)
  then show ?thesis by (auto simp: list_all2_conv_all_nth in_set_conv_nth)
qed

end
