(* ===== verification/Stone_Analysis.thy ===== *)
theory Stone_Analysis imports Stone_Bounds begin

text \<open>
  The analysis of a board does not fault, and every confidence is a number between zero and one.
\<close>

subsection \<open>Calibration\<close>

definition calibration_config_ok :: "calibration_config \<Rightarrow> bool" where
  "calibration_config_ok cc \<longleftrightarrow> d_in (cc_madToSigma cc) 0 1024 \<and> d_in (cc_sigmaMin cc) 1 1024 \<and>
     d_in (cc_calibMinEmptyFraction cc) 0 1 \<and> d_in (cc_chromaTMin cc) 1 (2 ^ 17)"

definition model_ok :: "model \<Rightarrow> bool" where
  "model_ok m \<longleftrightarrow> d_in (md_medianEmpty m) (-255) 255 \<and> d_in (md_sigmaEmpty m) 1 (2 ^ 19) \<and> d_in (md_tChromaSq m) 1 (2 ^ 17)"

lemma medianSorted_in:
  assumes "\<forall>x \<in> set xs. d_in x a b" "xs \<noteq> []" "fl32_num (2 * a)" "fl32_num (2 * b)" "fl32_num a" "fl32_num b"
  shows "d_in (medianSorted xs) a b"
proof -
  have l: "(length xs - 1) div 2 < length xs" "length xs div 2 < length xs" "length xs div 2 - 1 < length xs"
    using assms(2) by (simp_all add: less_imp_diff_less div_less_dividend less_mult_imp_div_less)
  with assms half_in show ?thesis by (auto simp: medianSorted_def Let_def)
qed

lemma robustMedianSigma_ok:
  assumes "\<forall>x \<in> set xs. d_in x (-255) 255" "xs \<noteq> []" "calibration_config_ok cc"
  shows "\<exists>med sig. robustMedianSigma xs cc = Some (Some (med, sig)) \<and> d_in med (-255) 255 \<and> d_in sig 1 (2 ^ 19)"
proof -
  note s = d_sort_in [OF assms(1)]
  have ne: "sort xs \<noteq> []" using assms(2) by (metis length_0_conv length_sort)
  from medianSorted_in [OF s(2) ne] have med: "d_in (medianSorted (sort xs)) (-255) 255" by simp
  let ?dev = "map (\<lambda>value. d_abs (f_sub value (medianSorted (sort xs)))) (sort xs)"
  have dev: "\<forall>x \<in> set ?dev. d_in x 0 510"
  proof
    fix x assume "x \<in> set ?dev"
    then obtain v where v: "v \<in> set (sort xs)" "x = d_abs (f_sub v (medianSorted (sort xs)))" by auto
    from f_sub_in [OF s(2) [rule_format, OF v(1)] med, of "-510" 510] have "d_in (f_sub v (medianSorted (sort xs))) (- 510) 510" by simp
    then show "d_in x 0 510" unfolding v(2) by (rule d_abs_in)
  qed
  note t = d_sort_in [OF dev]
  have "sort ?dev \<noteq> []" using ne by (metis length_0_conv length_map length_sort)
  from medianSorted_in [OF t(2) this] have mad: "d_in (medianSorted (sort ?dev)) 0 510" by simp
  have "d_in (cc_madToSigma cc) 0 1024" "d_in (cc_sigmaMin cc) 1 1024" using assms(3) by (simp_all add: calibration_config_ok_def)
  with f_mul_in [OF this(1) mad, of 0 "2 ^ 19"] have
    "d_in (d_max (cc_sigmaMin cc) (f_mul (cc_madToSigma cc) (medianSorted (sort ?dev)))) 1 (2 ^ 19)"
    by (auto intro!: d_max_in)
  with assms(2) s(1) t(1) med show ?thesis by (simp add: robustMedianSigma_def Let_def)
qed

lemma fl32_num_big [simp]:
  "fl32_num (2 ^ 25)" "fl32_num (2 ^ 27)" "fl32_num (2 ^ 28)" "fl32_num (2 ^ 29)" "fl32_num (2 ^ 30)" "fl32_num (2 ^ 49)"
  by (rule fl32_num_power, simp)+

lemmas fl32_num_numerals [simp] = fl32_num_big [simplified]

lemma min_empty_count_ok:
  assumes "calibration_config_ok cc" "unat b < 2 ^ 15"
  shows "\<exists>n. min_empty_count cc b = Some n"
proof -
  obtain k where k: "unat b = k" "k \<le> 2 ^ 15" using assms(2) by simp
  then have "f_u32 b = Fin (of_nat k)" by (intro f_u32_eq) simp_all
  moreover have "(of_nat k :: rat) \<le> of_nat (2 ^ 15)" using k(2) by (simp only: of_nat_le_iff)
  ultimately have b: "d_in (f_u32 b) 0 (2 ^ 15)" by simp
  have "d_in (cc_calibMinEmptyFraction cc) 0 1" using assms(1) by (simp add: calibration_config_ok_def)
  from f_mul_in [OF this b, of 0 "2 ^ 15"] have "d_in (f_mul (cc_calibMinEmptyFraction cc) (f_u32 b)) 0 (2 ^ 15)" by simp
  from f_mul_in [OF this b, of 0 "2 ^ 30"] have "d_in (f_mul (f_mul (cc_calibMinEmptyFraction cc) (f_u32 b)) (f_u32 b)) (- of_int (2 ^ 30)) (of_int (2 ^ 30))"
    by (auto elim!: d_in_weaken)
  from lround_long_defined [OF this] show ?thesis by (auto simp: min_empty_count_def)
qed

lemma final_statistics_ok:
  assumes "\<forall>x \<in> set xs. d_in x (-255) 255" "calibration_config_ok cc" "d_in med (-255) 255" "d_in sig 1 (2 ^ 19)"
  shows "\<exists>mf sf. final_statistics cc n xs (med, sig) = Some (mf, sf) \<and> d_in mf (-255) 255 \<and> d_in sf 1 (2 ^ 19)"
proof (cases "xs = []")
  case True
  with assms(3,4) show ?thesis by (simp add: final_statistics_def robustMedianSigma_def)
next
  case False
  with robustMedianSigma_ok [OF assms(1) _ assms(2)] assms(3,4) show ?thesis by (fastforce simp: final_statistics_def)
qed

lemma chroma_median_ok:
  assumes "\<forall>x \<in> set xs. d_in x 0 (2 ^ 17)" "xs \<noteq> []"
  shows "\<exists>c. chroma_median cc xs = Some c \<and> d_in c 0 (2 ^ 17)"
proof -
  note s = d_sort_in [OF assms(1)]
  have "sort xs \<noteq> []" using assms(2) by (metis length_0_conv length_sort)
  from medianSorted_in [OF s(2) this] assms(2) s(1) show ?thesis by (simp add: chroma_median_def)
qed

lemma calibrateModel_ok:
  assumes "\<forall>f \<in> set fs. features_ok f" "calibration_config_ok cc" "unat b < 2 ^ 15"
  shows "\<exists>r. calibrateModel fs b cc = Some r \<and> (\<forall>m. r = Some m \<longrightarrow> model_ok m)"
proof (cases "filter ft_valid fs = []")
  case False
  define valid where "valid = filter ft_valid fs"
  have v: "set valid \<subseteq> set fs" "valid \<noteq> []" using False by (auto simp: valid_def)
  have d: "\<forall>x \<in> set (map ft_deltaL l). d_in x (-255) 255" and c: "\<forall>x \<in> set (map ft_chromaSq l). d_in x 0 (2 ^ 17)"
    if "set l \<subseteq> set fs" for l using assms(1) that by (auto simp: features_ok_def)
  obtain med sig where i: "robustMedianSigma (map ft_deltaL valid) cc = Some (Some (med, sig))" "d_in med (-255) 255" "d_in sig 1 (2 ^ 19)"
    using robustMedianSigma_ok [OF d [OF v(1)] _ assms(2)] v(2) by auto
  obtain n where n: "min_empty_count cc b = Some n" using min_empty_count_ok [OF assms(2,3)] by blast
  define likely where "likely = filter (likely_empty cc med (f_mul (cc_emptyBandSigma cc) sig)) valid"
  have l: "set likely \<subseteq> set fs" using v(1) by (auto simp: likely_def)
  obtain mf sf where f: "final_statistics cc n (map ft_deltaL likely) (med, sig) = Some (mf, sf)" "d_in mf (-255) 255" "d_in sf 1 (2 ^ 19)"
    using final_statistics_ok [OF d [OF l] assms(2) i(2,3)] by blast
  obtain t where t: "chroma_median cc (if map ft_chromaSq likely = [] then map ft_chromaSq valid else map ft_chromaSq likely) = Some t" "d_in t 0 (2 ^ 17)"
    using chroma_median_ok [OF c [OF l]] chroma_median_ok [OF c [OF v(1)]] v(2) by (cases "likely = []") auto
  have "d_in (cc_sigmaMin cc) 1 1024" "d_in (cc_chromaTMin cc) 1 (2 ^ 17)" using assms(2) by (simp_all add: calibration_config_ok_def)
  with f(3) t(2) have "d_in (d_max (cc_sigmaMin cc) sf) 1 (2 ^ 19)" "d_in (d_max (cc_chromaTMin cc) t) 1 (2 ^ 17)"
    by (auto intro!: d_max_in)
  with f(2) have m: "model_ok \<lparr>md_medianEmpty = mf, md_sigmaEmpty = d_max (cc_sigmaMin cc) sf, md_tChromaSq = d_max (cc_chromaTMin cc) t\<rparr>"
    by (simp add: model_ok_def)
  have "calibrateModel fs b cc =
    Some (Some \<lparr>md_medianEmpty = mf, md_sigmaEmpty = d_max (cc_sigmaMin cc) sf, md_tChromaSq = d_max (cc_chromaTMin cc) t\<rparr>)"
    unfolding calibrateModel_def Let_def valid_def [symmetric] using v(2) i(1) n f(1) t(1)
    by (cases "likely = []") (simp_all flip: likely_def)
  with m show ?thesis by simp
qed (simp add: calibrateModel_def)

subsection \<open>Scores\<close>

definition scoring_config_ok :: "scoring_config \<Rightarrow> bool" where
  "scoring_config_ok sc \<longleftrightarrow> d_in (sc_scoreWDelta sc) 0 1024 \<and> d_in (sc_scoreWSupport sc) 0 1024 \<and> d_in (sc_scoreWChroma sc) 0 1024 \<and>
     d_in (sc_margin0 sc) 0 1024 \<and> d_in (sc_edgePenalty sc) 0 1024 \<and> d_in (sc_confChromaDownweight sc) 0 1024 \<and>
     d_in (sc_emptyScoreBias sc) (-1024) 1024 \<and> d_in (sc_emptyScoreZPenalty sc) 0 1024 \<and> d_in (sc_emptyScoreSupportPenalty sc) 0 1024"

lemma weighted_in:
  assumes "d_in w 0 1024" "d_in x (- a) a" "fl32_num h" "1024 * a \<le> h"
  shows "d_in (f_mul w x) (- h) h"
  by (rule f_mul_abs [of w 1024 x a]) (use assms in \<open>auto elim: d_in_weaken\<close>)

lemma so_z_in:
  assumes "features_ok f" "model_ok m"
  shows "d_in (so_z (computeScores f m sc)) (- 512) 512"
proof -
  note f = assms(1) [unfolded features_ok_def] and m = assms(2) [unfolded model_ok_def]
  have "d_in (f_sub (ft_deltaL f) (md_medianEmpty m)) (- 510) 510"
    using f_sub_in [of "ft_deltaL f" "-255" 255 "md_medianEmpty m" "-255" 255 "-510" 510] f m by simp
  from f_div_abs [OF this, of "md_sigmaEmpty m" 1 "2 ^ 19" 512] m show ?thesis by (simp add: computeScores_def Let_def)
qed

lemma scores_in:
  assumes "features_ok f" "model_ok m" "scoring_config_ok sc"
  shows "d_in (so_black (computeScores f m sc)) (- (2 ^ 28)) (2 ^ 28)" "d_in (so_white (computeScores f m sc)) (- (2 ^ 28)) (2 ^ 28)"
    "d_in (so_empty (computeScores f m sc)) (- (2 ^ 28)) (2 ^ 28)" "d_in (so_chromaPenalty (computeScores f m sc)) 0 (2 ^ 17)"
proof -
  note f = assms(1) [unfolded features_ok_def] and m = assms(2) [unfolded model_ok_def] and sc = assms(3) [unfolded scoring_config_ok_def]
  define z where "z = f_div (f_sub (ft_deltaL f) (md_medianEmpty m)) (md_sigmaEmpty m)"
  define p where "p = f_div (ft_chromaSq f) (f_add (md_tChromaSq m) (ft_chromaSq f))"
  have z: "d_in z (- 512) 512" using so_z_in [OF assms(1,2), of sc] by (simp add: computeScores_def Let_def z_def)
  then have nz: "d_in (d_neg z) (- 512) 512" using d_neg_in by fastforce
  have "d_in (f_add (md_tChromaSq m) (ft_chromaSq f)) 1 (2 ^ 18)"
    using f_add_in [of "md_tChromaSq m" 1 "2 ^ 17" "ft_chromaSq f" 0 "2 ^ 17" 1 "2 ^ 18"] f m by simp
  from f_div_in [of "ft_chromaSq f" 0 "2 ^ 17", OF _ this, of "2 ^ 17"] f have p: "d_in p 0 (2 ^ 17)" by (simp add: p_def)
  then have p': "d_in p (- (2 ^ 17)) (2 ^ 17)" by (rule d_in_weaken) simp_all
  have s: "d_in (f_sub (ft_darkFrac f) (ft_brightFrac f)) (- 1) 1" "d_in (f_sub (ft_brightFrac f) (ft_darkFrac f)) (- 1) 1"
    "d_in (f_add (ft_darkFrac f) (ft_brightFrac f)) (- 2) 2"
    using f_sub_in [of "ft_darkFrac f" 0 1 "ft_brightFrac f" 0 1 "-1" 1] f_sub_in [of "ft_brightFrac f" 0 1 "ft_darkFrac f" 0 1 "-1" 1]
      f_add_in [of "ft_darkFrac f" 0 1 "ft_brightFrac f" 0 1 "-2" 2] f fl32_num_int [of "-1"] by simp_all
  have wc: "d_in (f_mul (sc_scoreWChroma sc) p) (- (2 ^ 27)) (2 ^ 27)" using weighted_in [OF _ p'] sc by simp
  have colour: "d_in (f_sub (f_add (f_mul (sc_scoreWDelta sc) x) (f_mul (sc_scoreWSupport sc) y)) (f_mul (sc_scoreWChroma sc) p)) (- (2 ^ 28)) (2 ^ 28)"
    if "d_in x (- 512) 512" "d_in y (- 1) 1" for x y
  proof -
    have "d_in (f_mul (sc_scoreWDelta sc) x) (- (2 ^ 19)) (2 ^ 19)" "d_in (f_mul (sc_scoreWSupport sc) y) (- 1024) 1024"
      using weighted_in [OF _ that(1)] weighted_in [OF _ that(2)] sc by simp_all
    from f_add_in [OF this, of "- (2 ^ 20)" "2 ^ 20"] have "d_in (f_add (f_mul (sc_scoreWDelta sc) x) (f_mul (sc_scoreWSupport sc) y)) (- (2 ^ 20)) (2 ^ 20)"
      by simp
    from f_sub_in [OF this wc, of "- (2 ^ 28)" "2 ^ 28"] show ?thesis by (simp add: fl32_num_minus)
  qed
  from colour [OF nz s(1)] colour [OF z s(2)]
  show "d_in (so_black (computeScores f m sc)) (- (2 ^ 28)) (2 ^ 28)" "d_in (so_white (computeScores f m sc)) (- (2 ^ 28)) (2 ^ 28)"
    by (simp_all add: computeScores_def Let_def flip: z_def p_def)
  show "d_in (so_chromaPenalty (computeScores f m sc)) 0 (2 ^ 17)" using p by (simp add: computeScores_def Let_def flip: p_def)
  have "d_in (d_abs z) (- 512) 512" using d_abs_in [OF z] by (rule d_in_weaken) simp_all
  from weighted_in [OF _ this, of "sc_emptyScoreZPenalty sc" "2 ^ 19"] weighted_in [OF _ s(3), of "sc_emptyScoreSupportPenalty sc" 2048] sc
  have e: "d_in (f_mul (sc_emptyScoreZPenalty sc) (d_abs z)) (- (2 ^ 19)) (2 ^ 19)"
    "d_in (f_mul (sc_emptyScoreSupportPenalty sc) (f_add (ft_darkFrac f) (ft_brightFrac f))) (- 2048) 2048" by simp_all
  from f_sub_in [OF _ e(1), of "sc_emptyScoreBias sc" "-1024" 1024 "- (2 ^ 20)" "2 ^ 20"] sc
  have "d_in (f_sub (sc_emptyScoreBias sc) (f_mul (sc_emptyScoreZPenalty sc) (d_abs z))) (- (2 ^ 20)) (2 ^ 20)" by simp
  from f_sub_in [OF this e(2), of "- (2 ^ 28)" "2 ^ 28"]
  show "d_in (so_empty (computeScores f m sc)) (- (2 ^ 28)) (2 ^ 28)"
    by (simp add: computeScores_def Let_def fl32_num_minus flip: z_def)
qed

lemma edgeLevel_values: "edgeLevel i n \<in> {0, 1, 2}"
  by (simp add: edgeLevel_def Let_def)

lemma required_in:
  assumes "scoring_config_ok sc" "lv \<in> {0, 1, 2}"
  shows "d_in (f_mul (sc_margin0 sc) (f_add (Fin 1) (f_mul (sc_edgePenalty sc) (f_int lv)))) 0 (2 ^ 22)"
proof -
  have "d_in (f_int lv) 0 2" using assms(2) by (auto simp: f_int_def)
  from f_mul_in [of "sc_edgePenalty sc" 0 1024, OF _ this, of 0 2048] assms(1)
  have "d_in (f_mul (sc_edgePenalty sc) (f_int lv)) 0 2048" by (simp add: scoring_config_ok_def)
  from f_add_in [of "Fin 1" 1 1, OF _ this, of 0 4096] have "d_in (f_add (Fin 1) (f_mul (sc_edgePenalty sc) (f_int lv))) 0 4096" by simp
  from f_mul_in [of "sc_margin0 sc" 0 1024, OF _ this, of 0 "2 ^ 22"] assms(1) show ?thesis by (simp add: scoring_config_ok_def)
qed

lemma unit_clamp: "d_in x a b \<Longrightarrow> d_in (d_clamp x (Fin 0) (Fin 1)) 0 1"
  by (rule d_clamp_in) (auto dest: d_in_finite)

lemma score_confidence_in:
  assumes "scoring_config_ok sc" "d_in margin (- (2 ^ 29)) (2 ^ 29)" "d_in required 0 (2 ^ 22)" "d_in penalty 0 (2 ^ 17)"
  shows "d_in (score_confidence sc margin required penalty) 0 1"
proof -
  have n: "fl32_num (1 / 2 ^ 20)" using fl32_num_pow2 [of "-20"] by (simp add: power_int_minus)
  have "d_in (flit (1 / 10 ^ 6)) (1 / 2 ^ 20) 1" unfolding flit_def by (rule round32_in) (use n in simp_all)
  from f_add_in [OF assms(3) this n, of "2 ^ 23"] have "d_in (f_add required (flit (1 / 10 ^ 6))) (1 / 2 ^ 20) (2 ^ 23)" by simp
  from f_div_abs [OF assms(2) this, of "2 ^ 49"] have "d_in (f_div margin (f_add required (flit (1 / 10 ^ 6)))) (- (2 ^ 49)) (2 ^ 49)" by simp
  note c1 = unit_clamp [OF this]
  from f_mul_in [of "sc_confChromaDownweight sc" 0 1024, OF _ assms(4), of 0 "2 ^ 27"] assms(1)
  have "d_in (f_mul (sc_confChromaDownweight sc) penalty) 0 (2 ^ 27)" by (simp add: scoring_config_ok_def)
  from f_sub_in [of "Fin 1" 1 1, OF _ this, of "- (2 ^ 27)" 1]
  have "d_in (f_sub (Fin 1) (f_mul (sc_confChromaDownweight sc) penalty)) (- (2 ^ 27)) 1" by (simp add: fl32_num_minus)
  from f_mul_in [OF c1 unit_clamp [OF this], of 0 1] show ?thesis
    unfolding score_confidence_def Let_def by (intro unit_clamp) simp
qed

definition conf_ok :: "eval_result \<Rightarrow> bool" where
  "conf_ok ev \<longleftrightarrow> d_in (ev_confidence ev) 0 1"

lemma best_state_in:
  assumes "d_in (so_black s) a b" "d_in (so_white s) a b" "d_in (so_empty s) a b" "best_state s = (st, best, second)"
  shows "d_in best a b" "d_in second a b"
  using assms by (auto simp: best_state_def d_max_def Let_def split: if_splits)

lemma evaluate_conf_ok:
  assumes "features_ok f" "model_ok m" "scoring_config_ok sc" "lv \<in> {0, 1, 2}"
  shows "conf_ok (evaluate f m lv sc)"
proof -
  obtain st best second where b: "best_state (computeScores f m sc) = (st, best, second)" by (cases "best_state (computeScores f m sc)") auto
  note s = scores_in [OF assms(1-3)]
  from f_sub_in [OF best_state_in [OF s(1-3) b], of "- (2 ^ 29)" "2 ^ 29"]
  have "d_in (f_sub best second) (- (2 ^ 29)) (2 ^ 29)" by (simp add: fl32_num_minus)
  from score_confidence_in [OF assms(3) this required_in [OF assms(3,4)] s(4)] b show ?thesis
    by (simp add: conf_ok_def evaluate_def Let_def)
qed

end
