(* ===== verification/Stone_Classification.thy ===== *)
theory Stone_Classification imports Stone_Analysis begin

text \<open>
  The classification of all intersections: it does not fault, it says why it reports a stone, and its counts add up.
\<close>

subsection \<open>The decision\<close>

text \<open>Every check passes.\<close>

definition accepted :: "decision_config \<Rightarrow> features \<Rightarrow> spatial_context \<Rightarrow> eval_result \<Rightarrow> bool" where
  "accepted dc f cx ev \<longleftrightarrow>
     passesStatistical dc ev cx = None \<and> passesSupport dc ev f cx = None \<and> passesEdge dc ev f cx = None \<and> passesMargin dc ev = None"

lemma decide_cases:
  "accepted dc f cx ev \<and> decide dc f cx ev = (ev, NoReason) \<or>
   \<not> accepted dc f cx ev \<and> (\<exists>r. decide dc f cx ev = (rejected ev, r))"
  by (auto simp: decide_def accepted_def first_reason_def split: option.splits)

lemma decide_stone: "decide dc f cx ev = (d, r) \<Longrightarrow> ev_state d \<noteq> SEmpty \<Longrightarrow> d = ev \<and> accepted dc f cx ev"
  using decide_cases [of dc f cx ev] by (auto simp: rejected_def)

lemma decide_conf_ok: "conf_ok ev \<Longrightarrow> conf_ok (fst (decide dc f cx ev))"
  using decide_cases [of dc f cx ev] by (auto simp: rejected_def conf_ok_def)

text \<open>An intersection without a stone passes every check, and keeps the confidence of its evaluation.\<close>

lemma decide_empty: "ev_state ev = SEmpty \<Longrightarrow> decide dc f cx ev = (ev, NoReason)"
  by (simp add: decide_def first_reason_def passesStatistical_def passesSupport_def passesEdge_def passesMargin_def isWeakByZ_def Let_def)

subsection \<open>Neighbours\<close>

lemma sdiv_nonneg: "0 \<le> x \<Longrightarrow> 0 < b \<Longrightarrow> x sdiv b = x div b" for x :: int
  by (simp add: signed_divide_int_def sgn_if)

lemma int_of_size_small: "n < 2 ^ 31 \<Longrightarrow> int_of_size n = int n"
  unfolding int_of_size_def by (rule signed_take_bit_int_eq_self) simp_all

lemma grid_coordinates:
  assumes "i < 2 ^ 30" "0 < b"
  shows "int_of_size i sdiv b = int i div b" "int_of_size i - int_of_size i sdiv b * b = int i mod b"
    "\<bar>int i div b\<bar> < 2 ^ 30" "\<bar>int i mod b\<bar> < 2 ^ 30"
proof -
  show d: "int_of_size i sdiv b = int i div b" using assms int_of_size_small [of i] by (simp add: sdiv_nonneg)
  show "int_of_size i - int_of_size i sdiv b * b = int i mod b"
    unfolding d using assms(1) int_of_size_small [of i] by (simp add: minus_div_mult_eq_mod)
  have "int i div b \<le> int i" "0 \<le> int i div b" using assms(2) zdiv_mono2 [of "int i" 1 b] by (simp_all add: pos_imp_zdiv_nonneg_iff)
  then show "\<bar>int i div b\<bar> < 2 ^ 30" using assms(1) by simp
  have "int i mod b \<le> int i" "0 \<le> int i mod b" using assms(2) by (simp_all add: zmod_le_nonneg_dividend)
  then show "\<bar>int i mod b\<bar> < 2 ^ 30" using assms(1) by simp
qed

lemma neighbor_median_ok:
  assumes "\<forall>f \<in> set fs. features_ok f" "\<bar>x\<bar> < 2 ^ 30" "\<bar>y\<bar> < 2 ^ 30"
  shows "\<exists>m. computeNeighborMedianDelta fs x y b fallback = Some m"
proof -
  let ?ds = "[(dx, dy). dx \<leftarrow> [-1..1], dy \<leftarrow> [-1..1]] :: (int \<times> int) list"
  have "\<exists>vs. loopM (neighbor_value fs x y b) ?ds [] = Some vs \<and> (\<forall>v \<in> set vs. d_in v (-255) 255)"
  proof (rule loopM_rule [where I = "\<lambda>_ vs. \<forall>v \<in> set vs. d_in v (-255) 255"])
    fix "done" d vs
    assume d: "d \<in> set ?ds" and vs: "\<forall>v \<in> set vs. d_in v (-255) 255"
    have "\<bar>fst d\<bar> \<le> 1" "\<bar>snd d\<bar> \<le> 1" using d by auto
    then have i: "int32 (x + fst d) = Some (x + fst d)" "int32 (y + snd d) = Some (y + snd d)"
      using assms(2,3) by (intro int32_small; simp)+
    show "\<exists>vs'. neighbor_value fs x y b d vs = Some vs' \<and> (\<forall>v \<in> set vs'. d_in v (-255) 255)"
      using vs i assms(1) by (auto simp: neighbor_value_def features_ok_def Let_def)
  qed simp
  then obtain vs where vs: "loopM (neighbor_value fs x y b) ?ds [] = Some vs" "\<forall>v \<in> set vs. d_in v (-255) 255" by blast
  show ?thesis
  proof (cases "vs = []")
    case False
    note s = d_sort_in [OF vs(2)]
    have "sort vs \<noteq> []" using False by (metis length_0_conv length_sort)
    from sorted_middle_in [OF s(2) this] have "\<exists>m. sorted_middle (sort vs) = Some m" by auto
    with vs(1) s(1) False show ?thesis by (simp add: computeNeighborMedianDelta_def)
  qed (use vs(1) in \<open>simp add: computeNeighborMedianDelta_def\<close>)
qed

lemma neighborMap_ok:
  assumes "\<forall>f \<in> set fs. features_ok f" "length fs \<le> 2 ^ 30"
  shows "\<exists>ms. computeNeighborMedianMap fs b fallback = Some ms \<and> length ms = length fs"
proof (cases "b \<le> 0")
  case False
  have "\<exists>m. neighbor_median_at fs b fallback i = Some m \<and> True" if "i \<in> set [0..<length fs]" for i
  proof -
    have i: "i < 2 ^ 30" "0 < b" using that assms(2) False by simp_all
    note g = grid_coordinates [OF i]
    from neighbor_median_ok [OF assms(1) g(3,4)] show ?thesis
      by (simp add: neighbor_median_at_def Let_def g(1) flip: g(2) )
  qed
  then have "\<forall>i \<in> set [0..<length fs]. \<exists>m. neighbor_median_at fs b fallback i = Some m \<and> True" by blast
  from those_map [OF this] obtain ms where "those (map (neighbor_median_at fs b fallback) [0..<length fs]) = Some ms"
    "list_all2 (\<lambda>_ _. True) [0..<length fs] ms" by blast
  with False show ?thesis by (auto simp: computeNeighborMedianMap_def dest: list_all2_lengthD)
qed (simp add: computeNeighborMedianMap_def)

subsection \<open>The search around an intersection\<close>

definition refinement_config_ok :: "refinement_config \<Rightarrow> bool" where
  "refinement_config_ok rc \<longleftrightarrow> d_in (rc_refineExtentSpacingK rc) 0 1 \<and> 0 \<le> rc_refineExtentMin rc \<and>
     rc_refineExtentMin rc \<le> rc_refineExtentMax rc \<and> rc_refineExtentMax rc \<le> 1000 \<and>
     1 \<le> rc_refineStepPx rc \<and> rc_refineStepPx rc \<le> 1000"

lemma steps_from_ok:
  assumes "1 \<le> step" "step \<le> 1000" "\<bar>x\<bar> \<le> 10000" "\<bar>end_at\<bar> \<le> 1000"
  shows "\<exists>xs. steps_from x end_at step = Some xs \<and> (\<forall>y \<in> set xs. x \<le> y \<and> y \<le> end_at)"
  using assms
proof (induction x end_at step rule: steps_from.induct)
  case (1 x end_at step)
  show ?case
  proof (cases "end_at < x")
    case False
    have i: "int32 (x + step) = Some (x + step)" using 1(2-5) False by (intro int32_small) simp
    obtain xs where xs: "steps_from (x + step) end_at step = Some xs" "\<forall>y \<in> set xs. x + step \<le> y \<and> y \<le> end_at"
      using 1(1) [OF False] i 1(2-5) False by fastforce
    have "steps_from x end_at step = Some (x # xs)" using i xs(1) False 1(2) by (subst steps_from.simps) simp
    moreover have "\<forall>y \<in> set (x # xs). x \<le> y \<and> y \<le> end_at" using xs(2) False 1(2) by auto
    ultimately show ?thesis by blast
  qed (subst steps_from.simps, simp)
qed

definition engine_ok :: "'i opencv \<Rightarrow> 'i refinement_engine \<Rightarrow> bool" where
  "engine_ok cv re \<longleftrightarrow> context_ok cv (re_sampleContext re) \<and> offs_ok (os_inner (re_offsets re)) \<and> offs_ok (os_bg (re_offsets re)) \<and>
     radii_ok (re_radii re) \<and> geometry_config_ok (re_geometryConfig re) \<and> spacing_ok (re_spacing re) \<and>
     scoring_config_ok (re_scoringConfig re) \<and> refinement_config_ok (re_refinementConfig re)"

lemma searchBest_ok:
  assumes "engine_ok cv re" "point_ok p" "model_ok m" "features_ok f" "sp_edgeLevel cx \<in> {0, 1, 2}"
  shows "\<exists>any f' ev'. searchBest cv re p m cx f ev = Some (any, f', ev') \<and>
    (f' = f \<and> ev' = ev \<or> features_ok f' \<and> ev' = evaluate f' m (sp_edgeLevel cx) (re_scoringConfig re) \<and> conf_ok ev')"
proof -
  note e = assms(1) [unfolded engine_ok_def] and rc = assms(1) [unfolded engine_ok_def refinement_config_ok_def]
  obtain extent where ex: "computeRefinementExtent (re_spacing re) (re_refinementConfig re) = Some extent" "0 \<le> extent" "extent \<le> 1000"
    using roundedSpacingValue_ok [of "re_spacing re" "rc_refineExtentSpacingK (re_refinementConfig re)" "rc_refineExtentMin (re_refinementConfig re)"
      "rc_refineExtentMax (re_refinementConfig re)"] rc by (fastforce simp: computeRefinementExtent_def)
  obtain x y where xy: "lround_int (fst p) = Some x" "\<bar>x\<bar> \<le> 2 ^ 20" "lround_int (snd p) = Some y" "\<bar>y\<bar> \<le> 2 ^ 20"
    using point_centre [OF assms(2)] by blast
  obtain steps where st: "steps_from (- extent) extent (rc_refineStepPx (re_refinementConfig re)) = Some steps"
    "\<forall>d \<in> set steps. - extent \<le> d \<and> d \<le> extent"
    using steps_from_ok [of "rc_refineStepPx (re_refinementConfig re)" "- extent" extent] rc ex by auto
  let ?P = "\<lambda>(any :: bool, f', ev'). f' = f \<and> ev' = ev \<or>
    features_ok f' \<and> ev' = evaluate f' m (sp_edgeLevel cx) (re_scoringConfig re) \<and> conf_ok ev'"
  have "\<exists>s'. loopM (try_candidate cv re m cx x y) [(offsetX, offsetY). offsetY \<leftarrow> steps, offsetX \<leftarrow> steps] (False, f, ev) = Some s' \<and> ?P s'"
  proof (rule loopM_rule [where I = "\<lambda>_. ?P"])
    fix "done" d s
    assume d: "d \<in> set [(offsetX, offsetY). offsetY \<leftarrow> steps, offsetX \<leftarrow> steps]" and s: "?P s"
    have "\<bar>fst d\<bar> \<le> 1000" "\<bar>snd d\<bar> \<le> 1000" using d st(2) ex(2,3) by (auto simp: abs_le_iff)
    then have n: "\<bar>x + fst d\<bar> \<le> 2 ^ 25" "\<bar>y + snd d\<bar> \<le> 2 ^ 25" using xy(2,4) by simp_all
    then have i: "int32 (x + fst d) = Some (x + fst d)" "int32 (y + snd d) = Some (y + snd d)" by (intro int32_small; simp)+
    obtain ok c where c: "computeFeaturesAt cv (re_sampleContext re) (re_offsets re) (re_radii re) (re_geometryConfig re) (x + fst d) (y + snd d) = Some (ok, c)"
      "features_ok c" using computeFeaturesAt_ok [of cv, OF _ _ _ _ _ n] e by blast
    have "conf_ok (evaluate c m (sp_edgeLevel cx) (re_scoringConfig re))" using evaluate_conf_ok [OF c(2) assms(3) _ assms(5)] e by blast
    with i c s show "\<exists>s'. try_candidate cv re m cx x y d s = Some s' \<and> ?P s'"
      by (cases s) (auto simp: try_candidate_def Let_def)
  qed simp
  moreover have "int32 (- extent) = Some (- extent)" using ex(2,3) by (intro int32_small) simp
  ultimately show ?thesis using ex(1) xy(1,3) st(1) by (fastforce simp: searchBest_def)
qed

subsection \<open>Where a result comes from\<close>

lemma steps_from_range: "steps_from x end_at step = Some xs \<Longrightarrow> y \<in> set xs \<Longrightarrow> x \<le> y \<and> y \<le> end_at"
proof (induction x end_at step arbitrary: xs rule: steps_from.induct)
  case (1 x end_at step)
  show ?case
  proof (cases "end_at < x \<or> step \<le> 0")
    case False
    then obtain n ys where n: "int32 (x + step) = Some n" "steps_from n end_at step = Some ys" "xs = x # ys"
      using 1(2) by (subst (asm) steps_from.simps) (auto simp: bind_eq_Some_conv)
    then have "n = x + step" by (simp add: int32_def split: if_splits)
    with 1(1) [of n ys] n 1(3) False show ?thesis by auto
  qed (use 1(2,3) in \<open>subst (asm) steps_from.simps, auto split: if_splits\<close>)
qed

text \<open>Features measured near an intersection: not further away on either axis than the search goes.\<close>

definition measured :: "'i opencv \<Rightarrow> 'i refinement_engine \<Rightarrow> point \<Rightarrow> features \<Rightarrow> bool" where
  "measured cv re p f \<longleftrightarrow> (\<exists>extent cx cy x y. computeRefinementExtent (re_spacing re) (re_refinementConfig re) = Some extent \<and>
     lround_int (fst p) = Some cx \<and> lround_int (snd p) = Some cy \<and> \<bar>x - cx\<bar> \<le> extent \<and> \<bar>y - cy\<bar> \<le> extent \<and>
     computeFeaturesAt cv (re_sampleContext re) (re_offsets re) (re_radii re) (re_geometryConfig re) x y = Some (True, f))"

lemma searchBest_source:
  assumes "searchBest cv re p m cx f ev = Some (any, f', ev')"
  shows "f' = f \<and> ev' = ev \<or> measured cv re p f' \<and> ev' = evaluate f' m (sp_edgeLevel cx) (re_scoringConfig re)"
proof -
  obtain extent x y first steps where e: "computeRefinementExtent (re_spacing re) (re_refinementConfig re) = Some extent"
    "lround_int (fst p) = Some x" "lround_int (snd p) = Some y" "int32 (- extent) = Some first"
    "steps_from first extent (rc_refineStepPx (re_refinementConfig re)) = Some steps"
    and l: "loopM (try_candidate cv re m cx x y) [(offsetX, offsetY). offsetY \<leftarrow> steps, offsetX \<leftarrow> steps] (False, f, ev) = Some (any, f', ev')"
    using assms by (auto simp: searchBest_def bind_eq_Some_conv)
  have first: "first = - extent" using e(4) by (simp add: int32_def split: if_splits)
  let ?P = "\<lambda>(any :: bool, f', ev'). f' = f \<and> ev' = ev \<or>
    measured cv re p f' \<and> ev' = evaluate f' m (sp_edgeLevel cx) (re_scoringConfig re)"
  have "?P (any, f', ev')"
  proof (rule loopM_invariant [OF l])
    fix d s s'
    assume d: "d \<in> set [(offsetX, offsetY). offsetY \<leftarrow> steps, offsetX \<leftarrow> steps]" and s: "?P s" and t: "try_candidate cv re m cx x y d s = Some s'"
    have r: "\<bar>fst d\<bar> \<le> extent" "\<bar>snd d\<bar> \<le> extent" using d steps_from_range [OF e(5)] first by (auto simp: abs_le_iff minus_le_iff)
    have "int32 n = Some n' \<Longrightarrow> n' = n" for n n' by (simp add: int32_def split: if_splits)
    then have m: "measured cv re p c" if "computeFeaturesAt cv (re_sampleContext re) (re_offsets re) (re_radii re) (re_geometryConfig re) x' y' = Some (True, c)"
      "int32 (x + fst d) = Some x'" "int32 (y + snd d) = Some y'" for x' y' c
      using that e(1-3) r unfolding measured_def by (metis add_diff_cancel_left')
    show "?P s'" using s t by (auto simp: try_candidate_def bind_eq_Some_conv Let_def split: if_splits dest: m)
  qed simp
  then show ?thesis by simp
qed

text \<open>The stone reported at an intersection has features, measured there or nearby, that pass every check.\<close>

definition evidence :: "'i opencv \<Rightarrow> point list \<Rightarrow> features list \<Rightarrow> model \<Rightarrow> u32 \<Rightarrow> scoring_config \<Rightarrow> decision_config \<Rightarrow>
    'i refinement_engine \<Rightarrow> double list \<Rightarrow> nat \<Rightarrow> classified \<Rightarrow> bool" where
  "evidence cv ps fs m b sc dc re ms i c \<longleftrightarrow> cl_state c \<noteq> SEmpty \<longrightarrow> i < length ms \<and>
     (\<exists>f. (f = fs ! i \<or> measured cv re (ps ! i) f) \<and>
        (let cx = \<lparr>sp_edgeLevel = edgeLevel i (sint b), sp_neighborMedian = ms ! i, sp_boardSize = b\<rparr>;
             ev = evaluate f m (edgeLevel i (sint b)) sc
         in accepted dc f cx ev \<and> cl_state c = ev_state ev \<and> cl_confidence c = ev_confidence ev))"

lemma classify_one_evidence:
  assumes "classify_one cv ps fs m b sc dc re ms i (out, st) = Some (out', st')" "re_scoringConfig re = sc"
  shows "\<exists>c. out' = out @ [c] \<and> evidence cv ps fs m b sc dc re ms i c"
proof -
  obtain f where f: "vec_at fs i = Some f" using assms(1) by (auto simp: classify_one_def bind_eq_Some_conv)
  then have fi: "f = fs ! i" by (simp add: vec_at_def split: if_splits)
  show ?thesis
  proof (cases "ft_valid f")
    case False
    with assms(1) f show ?thesis by (auto simp: classify_one_def evidence_def)
  next
    case True
    then obtain nm p d r acc where q: "vec_at ms i = Some nm" "vec_at ps i = Some p"
      and d: "refined_decision cv re dc p m \<lparr>sp_edgeLevel = edgeLevel i (sint b), sp_neighborMedian = nm, sp_boardSize = b\<rparr> f
        (evaluate f m (edgeLevel i (sint b)) sc)
        (decide dc f \<lparr>sp_edgeLevel = edgeLevel i (sint b), sp_neighborMedian = nm, sp_boardSize = b\<rparr> (evaluate f m (edgeLevel i (sint b)) sc))
        (refinementPath dc f (evaluate f m (edgeLevel i (sint b)) sc)) = Some ((d, r), acc)"
      and out: "\<exists>e re. out' = out @ [\<lparr>cl_state = ev_state d, cl_confidence = ev_confidence d, cl_eval = e, cl_reason = re\<rparr>]"
      using assms(1) f by (auto simp: classify_one_def bind_eq_Some_conv Let_def)
    let ?cx = "\<lparr>sp_edgeLevel = edgeLevel i (sint b), sp_neighborMedian = nm, sp_boardSize = b\<rparr>"
    have p: "p = ps ! i" and nm: "nm = ms ! i" "i < length ms" using q by (simp_all add: vec_at_def split: if_splits)
    have "\<exists>f'. (f' = f \<or> measured cv re p f') \<and> decide dc f' ?cx (evaluate f' m (edgeLevel i (sint b)) sc) = (d, r)"
      using d searchBest_source [of cv re p m ?cx f] assms(2)
      by (fastforce simp: refined_decision_def bind_eq_Some_conv split: if_splits)
    then obtain f' where f': "f' = f \<or> measured cv re p f'" "decide dc f' ?cx (evaluate f' m (edgeLevel i (sint b)) sc) = (d, r)" by blast
    from decide_stone [OF f'(2)] f'(1) out show ?thesis using nm(2) unfolding evidence_def fi p nm(1) Let_def
      by (auto intro!: exI [of _ f'])
  qed
qed

lemma classifyAll_evidence:
  assumes "classifyAll cv ps fs m b sc dc re = Some (out, st)" "re_scoringConfig re = sc"
  shows "\<exists>ms. computeNeighborMedianMap fs (sint b) (md_medianEmpty m) = Some ms \<and> length out = length ps \<and>
    (\<forall>i < length ps. evidence cv ps fs m b sc dc re ms i (out ! i))"
proof -
  obtain ms where ms: "computeNeighborMedianMap fs (sint b) (md_medianEmpty m) = Some ms" and l: "loopM (classify_one cv ps fs m b sc dc re ms) [0..<length ps] ([], debug_stats_new) = Some (out, st)"
    using assms(1) by (auto simp: classifyAll_def bind_eq_Some_conv)
  have "length ys' = length ys + n \<and> (\<forall>i < length ys'. evidence cv ps fs m b sc dc re ms i (ys' ! i))"
    if "loopM (classify_one cv ps fs m b sc dc re ms) [length ys..<length ys + n] (ys, s) = Some (ys', s')"
      "\<forall>i < length ys. evidence cv ps fs m b sc dc re ms i (ys ! i)" for ys s ys' s' n
    using that
  proof (induction n arbitrary: ys s)
    case (Suc n)
    from Suc.prems(1) obtain o1 s1 where c: "classify_one cv ps fs m b sc dc re ms (length ys) (ys, s) = Some (o1, s1)"
      "loopM (classify_one cv ps fs m b sc dc re ms) [Suc (length ys)..<length ys + Suc n] (o1, s1) = Some (ys', s')"
      by (auto simp: upt_rec [of "length ys"] split: option.splits simp del: upt_Suc)
    from classify_one_evidence [OF c(1) assms(2)] obtain e where e: "o1 = ys @ [e]" "evidence cv ps fs m b sc dc re ms (length ys) e" by blast
    with Suc.prems(2) have "\<forall>i < length o1. evidence cv ps fs m b sc dc re ms i (o1 ! i)" by (auto simp: nth_append less_Suc_eq)
    with Suc.IH [of o1 s1] c(2) e(1) show ?case by simp
  qed simp
  from this [of "[]" "length ps" debug_stats_new out st] l ms show ?thesis by simp
qed

subsection \<open>The counts\<close>

definition counts_ok :: "classified list \<Rightarrow> debug_stats \<Rightarrow> bool" where
  "counts_ok out st \<longleftrightarrow>
     st_blackCount st = int (count_list (map cl_state out) SBlack) \<and> st_whiteCount st = int (count_list (map cl_state out) SWhite) \<and>
     st_emptyCount st = int (count_list (map cl_state out) SEmpty) \<and>
     0 \<le> st_refinedAccepted st \<and> st_refinedAccepted st \<le> st_refinedTried st \<and> st_refinedTried st \<le> int (length out)"

lemma count_list_snoc: "count_list (xs @ [x]) y = count_list xs y + (if x = y then 1 else 0)"
  by (induction xs) auto

lemma classify_one_counts:
  assumes "classify_one cv ps fs m b sc dc re ms i (out, st) = Some (out', st')" "counts_ok out st"
  shows "counts_ok out' st'"
proof -
  obtain f where f: "vec_at fs i = Some f" using assms(1) by (auto simp: classify_one_def bind_eq_Some_conv)
  show ?thesis
  proof (cases "ft_valid f")
    case False
    with assms f show ?thesis by (auto simp: classify_one_def counts_ok_def count_list_snoc)
  next
    case True
    then obtain c path acc where "out' = out @ [c]" "acc \<longrightarrow> path \<noteq> NoPath"
      "st' = count_state (cl_state c) (st\<lparr>st_refinedTried := st_refinedTried st + (if path = NoPath then 0 else 1),
         st_refinedAccepted := st_refinedAccepted st + (if acc then 1 else 0)\<rparr>)"
      using assms(1) f
      by (fastforce simp: classify_one_def refined_decision_def bind_eq_Some_conv Let_def split: if_splits)
    with assms(2) show ?thesis by (cases "cl_state c") (auto simp: counts_ok_def count_state_def count_list_snoc)
  qed
qed

lemma classifyAll_counts:
  assumes "classifyAll cv ps fs m b sc dc re = Some (out, st)"
  shows "counts_ok out st"
proof -
  obtain ms where l: "loopM (classify_one cv ps fs m b sc dc re ms) [0..<length ps] ([], debug_stats_new) = Some (out, st)"
    using assms by (auto simp: classifyAll_def bind_eq_Some_conv)
  have "(\<lambda>(out, st). counts_ok out st) (out, st)"
    by (rule loopM_invariant [OF l]) (auto simp: counts_ok_def debug_stats_new_def dest: classify_one_counts)
  then show ?thesis by simp
qed

subsection \<open>No fault\<close>

lemma classify_one_ok:
  assumes "engine_ok cv re" "\<forall>p \<in> set ps. point_ok p" "model_ok m" "\<forall>f \<in> set fs. features_ok f" "re_scoringConfig re = sc"
    and "i < length ps" "length fs = length ps" "length ms = length ps"
  shows "\<exists>c st'. classify_one cv ps fs m b sc dc re ms i (out, st) = Some (out @ [c], st') \<and> d_in (cl_confidence c) 0 1"
proof (cases "ft_valid (fs ! i)")
  case False
  with assms(6-8) show ?thesis by (simp add: classify_one_def)
next
  case True
  let ?cx = "\<lparr>sp_edgeLevel = edgeLevel i (sint b), sp_neighborMedian = ms ! i, sp_boardSize = b\<rparr>"
  let ?ev = "evaluate (fs ! i) m (edgeLevel i (sint b)) sc"
  have f: "features_ok (fs ! i)" and p: "point_ok (ps ! i)" using assms(2,4,6,7) by auto
  have sc: "scoring_config_ok sc" using assms(1,5) by (simp add: engine_ok_def)
  have ev: "conf_ok ?ev" by (rule evaluate_conf_ok [OF f assms(3) sc edgeLevel_values])
  have "\<exists>d r acc. refined_decision cv re dc (ps ! i) m ?cx (fs ! i) ?ev (decide dc (fs ! i) ?cx ?ev) (refinementPath dc (fs ! i) ?ev) = Some ((d, r), acc) \<and> conf_ok d"
  proof -
    obtain any f' ev' where s: "searchBest cv re (ps ! i) m ?cx (fs ! i) ?ev = Some (any, f', ev')" "conf_ok ev'"
      using searchBest_ok [OF assms(1) p assms(3) f, of ?cx ?ev] edgeLevel_values ev by auto
    show ?thesis using s decide_conf_ok [OF ev, of dc "fs ! i" ?cx] decide_conf_ok [OF s(2), of dc f' ?cx]
      by (cases "decide dc (fs ! i) ?cx ?ev"; cases "decide dc f' ?cx ev'") (auto simp: refined_decision_def)
  qed
  then obtain d r acc where "refined_decision cv re dc (ps ! i) m ?cx (fs ! i) ?ev (decide dc (fs ! i) ?cx ?ev) (refinementPath dc (fs ! i) ?ev) = Some ((d, r), acc)"
    "conf_ok d" by blast
  with True assms(6-8) show ?thesis by (simp add: classify_one_def Let_def conf_ok_def)
qed

lemma classifyAll_ok:
  assumes "engine_ok cv re" "\<forall>p \<in> set ps. point_ok p" "model_ok m" "\<forall>f \<in> set fs. features_ok f" "re_scoringConfig re = sc"
    and "length fs = length ps" "length ps \<le> 2 ^ 30"
  shows "\<exists>out st. classifyAll cv ps fs m b sc dc re = Some (out, st) \<and> (\<forall>c \<in> set out. d_in (cl_confidence c) 0 1)"
proof -
  have "length fs \<le> 2 ^ 30" using assms(6,7) by simp
  from neighborMap_ok [OF assms(4) this] obtain ms where ms: "computeNeighborMedianMap fs (sint b) (md_medianEmpty m) = Some ms" "length ms = length ps"
    unfolding assms(6) by blast
  let ?I = "\<lambda>_ (out :: classified list, st :: debug_stats). \<forall>c \<in> set out. d_in (cl_confidence c) 0 1"
  have "\<exists>s'. loopM (classify_one cv ps fs m b sc dc re ms) [0..<length ps] ([], debug_stats_new) = Some s' \<and> ?I [0..<length ps] s'"
  proof (rule loopM_rule)
    fix "done" i s
    assume "i \<in> set [0..<length ps]" and s: "?I (done :: nat list) s"
    then have i: "i < length ps" by simp
    obtain out st where o: "s = (out, st)" by (cases s)
    from classify_one_ok [OF assms(1-5) i assms(6) ms(2), of b dc out st] s o
    show "\<exists>s'. classify_one cv ps fs m b sc dc re ms i s = Some s' \<and> ?I (done @ [i]) s'" by auto
  qed simp
  with ms(1) show ?thesis by (auto simp: classifyAll_def)
qed

text \<open>
  What OpenCV documents of the calls. Of an image of bytes that is not empty a conversion from the right number of
  channels gives such an image with the same dimensions and three channels, a channel that exists can be taken out,
  a blur with a positive deviation keeps the dimensions, and every pixel of an image of bytes can be read. Nothing is
  said of an empty image, of a wrong number of channels, or of a deviation that is not positive: there the calls throw.
\<close>

definition same_bytes :: "'i opencv \<Rightarrow> ('i \<Rightarrow> bool) \<Rightarrow> 'i \<Rightarrow> int \<Rightarrow> 'i option \<Rightarrow> bool" where
  "same_bytes cv bytes i channels r \<longleftrightarrow> (\<exists>j. r = Some j \<and>
     bytes j \<and> \<not> cv_empty cv j \<and> cv_rows cv j = cv_rows cv i \<and> cv_cols cv j = cv_cols cv i \<and> cv_channels cv j = channels)"

definition opencv_laws :: "'i opencv \<Rightarrow> ('i \<Rightarrow> bool) \<Rightarrow> bool" where
  "opencv_laws cv bytes \<longleftrightarrow> (\<forall>i. bytes i \<and> \<not> cv_empty cv i \<longrightarrow>
     (cv_channels cv i = 3 \<longrightarrow> same_bytes cv bytes i 3 (cv_cvtColor cv i COLOR_BGR2Lab)) \<and>
     (cv_channels cv i = 4 \<longrightarrow> same_bytes cv bytes i 3 (cv_cvtColor cv i COLOR_BGRA2BGR)) \<and>
     (cv_channels cv i = 1 \<longrightarrow> same_bytes cv bytes i 3 (cv_cvtColor cv i COLOR_GRAY2BGR)) \<and>
     (\<forall>k. int k < cv_channels cv i \<longrightarrow> same_bytes cv bytes i 1 (cv_extractChannel cv i k)) \<and>
     (\<forall>sigma. 0 < sigma \<and> sigma \<le> 1000 \<longrightarrow> same_bytes cv bytes i (cv_channels cv i) (cv_GaussianBlur cv i (Fin sigma))) \<and>
     (\<forall>x y. 0 \<le> x \<and> x < cv_cols cv i \<and> 0 \<le> y \<and> y < cv_rows cv i \<longrightarrow> cv_at cv i y x \<noteq> None))"

lemma opencv_lawsD:
  assumes "opencv_laws cv bytes" "bytes i" "\<not> cv_empty cv i"
  shows "cv_channels cv i = 3 \<Longrightarrow> same_bytes cv bytes i 3 (cv_cvtColor cv i COLOR_BGR2Lab)"
    "cv_channels cv i = 4 \<Longrightarrow> same_bytes cv bytes i 3 (cv_cvtColor cv i COLOR_BGRA2BGR)"
    "cv_channels cv i = 1 \<Longrightarrow> same_bytes cv bytes i 3 (cv_cvtColor cv i COLOR_GRAY2BGR)"
    "int k < cv_channels cv i \<Longrightarrow> same_bytes cv bytes i 1 (cv_extractChannel cv i k)"
    "0 < sigma \<Longrightarrow> sigma \<le> 1000 \<Longrightarrow> same_bytes cv bytes i (cv_channels cv i) (cv_GaussianBlur cv i (Fin sigma))"
    "0 \<le> x \<Longrightarrow> x < cv_cols cv i \<Longrightarrow> 0 \<le> y \<Longrightarrow> y < cv_rows cv i \<Longrightarrow> cv_at cv i y x \<noteq> None"
  using assms by (simp_all add: opencv_laws_def)

lemma same_bytesE:
  assumes "same_bytes cv bytes i n r"
  obtains j where "r = Some j" "bytes j" "\<not> cv_empty cv j" "cv_rows cv j = cv_rows cv i" "cv_cols cv j = cv_cols cv i"
    "cv_channels cv j = n"
  using assms by (auto simp: same_bytes_def)

lemma convertToLab_ok:
  assumes "opencv_laws cv bytes" "bytes img" "\<not> cv_empty cv img"
  shows "convertToLab cv img = Some None \<or> (\<exists>lab. convertToLab cv img = Some (Some lab) \<and> same_bytes cv bytes img 3 (Some lab))"
proof -
  note l = opencv_lawsD [OF assms(1)]
  have two: "\<exists>bgr lab. r = Some bgr \<and> cv_cvtColor cv bgr COLOR_BGR2Lab = Some lab \<and> same_bytes cv bytes img 3 (Some lab)"
    if r: "same_bytes cv bytes img 3 r" for r
  proof -
    from r obtain bgr where b: "r = Some bgr" "bytes bgr" "\<not> cv_empty cv bgr" "cv_rows cv bgr = cv_rows cv img"
      "cv_cols cv bgr = cv_cols cv img" "cv_channels cv bgr = 3" by (rule same_bytesE)
    from l(1) [OF b(2,3,6)] b show ?thesis by (auto simp: same_bytes_def)
  qed
  consider "cv_channels cv img = 3" | "cv_channels cv img = 4" | "cv_channels cv img = 1"
    | "cv_channels cv img \<noteq> 3" "cv_channels cv img \<noteq> 4" "cv_channels cv img \<noteq> 1" by blast
  then show ?thesis
  proof cases
    case 1
    from l(1) [OF assms(2,3) 1] 1 show ?thesis by (auto simp: convertToLab_def same_bytes_def)
  next
    case 2
    from two [OF l(2) [OF assms(2,3) 2]] 2 show ?thesis by (auto simp: convertToLab_def)
  next
    case 3
    from two [OF l(3) [OF assms(2,3) 3]] 3 show ?thesis by (auto simp: convertToLab_def)
  qed (simp add: convertToLab_def)
qed

lemma blur_sigma_ok:
  assumes "geometry_config_ok gc" "radii_ok r"
  shows "\<exists>s. std_clamp (d_mul (gc_blurSigmaRadiusK gc) (d_int (rd_innerRadius r))) (gc_blurSigmaMin gc) (gc_blurSigmaMax gc) =
    Some (Fin s) \<and> 0 < s \<and> s \<le> 1000"
proof -
  from assms(1) obtain lo hi where c: "gc_blurSigmaMin gc = Fin lo" "gc_blurSigmaMax gc = Fin hi" "0 < lo" "lo \<le> hi" "hi \<le> 1000"
    "d_in (gc_blurSigmaRadiusK gc) 0 1" by (auto simp: geometry_config_ok_def)
  have "d_in (d_int (rd_innerRadius r)) 0 100" using assms(2) by (simp add: radii_ok_def d_int_in)
  from d_mul_in [OF c(6) this, of 0 100] have "isfinite (d_mul (gc_blurSigmaRadiusK gc) (d_int (rd_innerRadius r)))"
    by (auto dest: d_in_finite)
  from d_clamp_in [OF this c(4)] show ?thesis using c(1-5)
    by (auto simp: std_clamp_def elim!: d_inE)
qed

lemma prepareLabBlur_ok:
  assumes "opencv_laws cv bytes" "bytes img" "\<not> cv_empty cv img" "geometry_config_ok gc" "radii_ok r"
  shows "prepareLabBlur cv img r gc = Some None \<or> (\<exists>sx. prepareLabBlur cv img r gc = Some (Some sx) \<and> context_ok cv sx)"
proof (cases "convertToLab cv img = Some None")
  case False
  with convertToLab_ok [OF assms(1-3)] obtain lab where lab: "convertToLab cv img = Some (Some lab)" "bytes lab"
    "\<not> cv_empty cv lab" "cv_channels cv lab = 3" by (auto simp: same_bytes_def)
  note l = opencv_lawsD [OF assms(1)]
  obtain s where s: "std_clamp (d_mul (gc_blurSigmaRadiusK gc) (d_int (rd_innerRadius r))) (gc_blurSigmaMin gc) (gc_blurSigmaMax gc) =
    Some (Fin s)" "0 < s" "s \<le> 1000" using blur_sigma_ok [OF assms(4,5)] by blast
  have c: "\<exists>e j. cv_extractChannel cv lab k = Some e \<and> cv_GaussianBlur cv e (Fin s) = Some j \<and> bytes j \<and> \<not> cv_empty cv j \<and>
      cv_rows cv j = cv_rows cv lab \<and> cv_cols cv j = cv_cols cv lab" if k: "k < 3" for k
  proof -
    have "same_bytes cv bytes lab 1 (cv_extractChannel cv lab k)" using l(4) [OF lab(2,3)] lab(4) k by simp
    then obtain e where e: "cv_extractChannel cv lab k = Some e" "bytes e" "\<not> cv_empty cv e" "cv_rows cv e = cv_rows cv lab"
      "cv_cols cv e = cv_cols cv lab" by (auto elim: same_bytesE)
    from l(5) [OF e(2,3) s(2,3)] e show ?thesis by (auto simp: same_bytes_def)
  qed
  have at: False if "cv_at cv i y x = None" "bytes i" "\<not> cv_empty cv i" "\<not> x < 0" "\<not> cv_cols cv i \<le> x"
      "\<not> y < 0" "\<not> cv_rows cv i \<le> y" for i x y
    using l(6) [OF that(2,3), of x y] that by simp
  show ?thesis using c [of 0] c [of 1] c [of 2] lab(1) s(1)
    by (auto simp: prepareLabBlur_def context_ok_def inside_def dest!: at)
qed (simp add: prepareLabBlur_def)

definition stone_config_ok :: "stone_config \<Rightarrow> bool" where
  "stone_config_ok c \<longleftrightarrow> geometry_config_ok (cfg_geometry c) \<and> calibration_config_ok (cfg_calibration c) \<and>
     scoring_config_ok (cfg_scoring c) \<and> refinement_config_ok (cfg_refinement c)"

lemma analyseBoard_ok:
  assumes "opencv_laws cv bytes" "bytes (bg_image g)" "stone_config_ok config" "spacing_ok (bg_spacing g)"
    and "\<forall>p \<in> set (bg_intersections g). point_ok p" "unat (bg_boardSize g) < 2 ^ 15"
  shows "\<exists>r. analyseBoard cv g config = Some r \<and>
    (if sr_success r
     then length (sr_stones r) = unat (bg_boardSize g) * unat (bg_boardSize g) \<and> length (sr_confidence r) = length (sr_stones r) \<and>
       (\<forall>c \<in> set (sr_confidence r). d_in c 0 1)
     else sr_stones r = [] \<and> sr_confidence r = [])"
proof -
  note cfg = assms(3) [unfolded stone_config_ok_def]
  let ?b = "unat (bg_boardSize g)"
  have "?b * ?b \<le> 2 ^ 15 * 2 ^ 15" using assms(6) by (intro mult_le_mono) simp_all
  then have bb: "unat (bg_boardSize g * bg_boardSize g) = ?b * ?b" "?b * ?b \<le> 2 ^ 30" by (simp_all add: unat_word_ariths)
  obtain r where r: "chooseRadii (bg_spacing g) (cfg_geometry config) = Some r" "radii_ok r"
    using chooseRadii_ok [OF _ assms(4)] cfg by blast
  obtain os where os: "precomputeOffsets r = Some os" "offs_ok (os_inner os)" "offs_ok (os_bg os)" using precomputeOffsets_ok [OF r(2)] by blast
  have blur: "prepareLabBlur cv (bg_image g) r (cfg_geometry config) = Some None \<or>
      (\<exists>sx. prepareLabBlur cv (bg_image g) r (cfg_geometry config) = Some (Some sx) \<and> context_ok cv sx)"
    if "\<not> cv_empty cv (bg_image g)"
    using prepareLabBlur_ok [OF assms(1,2) that _ r(2)] cfg by blast
  show ?thesis
  proof (cases "cv_empty cv (bg_image g) \<or> bg_boardSize g = 0 \<or> length (bg_intersections g) \<noteq> ?b * ?b \<or> prepareLabBlur cv (bg_image g) r (cfg_geometry config) = Some None")
    case True
    then show ?thesis using r(1) os(1) by (auto simp: analyseBoard_def analyseBoardV2_def no_stones_def bb(1))
  next
    case False
    with blur obtain sx where sx: "prepareLabBlur cv (bg_image g) r (cfg_geometry config) = Some (Some sx)"
      and cx: "context_ok cv sx" by blast
    obtain fs where fs: "computeFeatures cv (bg_intersections g) sx os r (cfg_geometry config) = Some fs" "length fs = length (bg_intersections g)"
      "\<forall>f \<in> set fs. features_ok f" using computeFeatures_ok [OF cx os(2,3) r(2) _ assms(5)] cfg by blast
    obtain mo where mo: "calibrateModel fs (bg_boardSize g) (cfg_calibration config) = Some mo" "\<forall>m. mo = Some m \<longrightarrow> model_ok m"
      using calibrateModel_ok [OF fs(3) _ assms(6)] cfg by blast
    show ?thesis
    proof (cases mo)
      case None
      with False sx r(1) os(1) fs(1) mo(1) show ?thesis by (simp add: analyseBoard_def analyseBoardV2_def no_stones_def bb(1))
    next
      case (Some m)
      let ?re = "\<lparr>re_sampleContext = sx, re_offsets = os, re_radii = r, re_spacing = bg_spacing g,
        re_geometryConfig = cfg_geometry config, re_scoringConfig = cfg_scoring config, re_refinementConfig = cfg_refinement config\<rparr>"
      have re: "engine_ok cv ?re" using cx os(2,3) r(2) cfg assms(4) by (simp add: engine_ok_def)
      have n: "length (bg_intersections g) \<le> 2 ^ 30" using False bb(2) by simp
      have m: "model_ok m" using mo(2) Some by blast
      obtain out st where o: "classifyAll cv (bg_intersections g) fs m (bg_boardSize g) (cfg_scoring config) (cfg_decision config) ?re = Some (out, st)"
        "\<forall>c \<in> set out. d_in (cl_confidence c) 0 1"
        using classifyAll_ok [OF re assms(5) m fs(3) _ fs(2) n, of "cfg_scoring config" "bg_boardSize g" "cfg_decision config"] by auto
      have "length out = ?b * ?b" using classifyAll_evidence [OF o(1)] False by auto
      with False sx r(1) os(1) fs(1) mo(1) Some o show ?thesis by (simp add: analyseBoard_def analyseBoardV2_def bb(1))
    qed
  qed
qed

end
