(* ===== verification/Stone_Report.thy ===== *)
theory Stone_Report imports Stone_Classification begin

text \<open>
  \<open>src/vision/core/stoneFinder.cpp\<close>, the namespace \<open>Debugging\<close>: the report on the error stream that \<open>GO_STONE_DEBUG\<close>
  asks for, the circles around the stones and the tile of counts. A report is the list of its lines, with the values
  that are printed. \<open>None\<close> is undefined behaviour.
\<close>

subsection \<open>Pictures\<close>

text \<open>A circle: centre, radius, colour.\<close>

type_synonym circle = "point \<times> int \<times> (int \<times> int \<times> int)"

definition drawOverlay :: "point list \<Rightarrow> stone_state list \<Rightarrow> int \<Rightarrow> circle list" where
  "drawOverlay intersections states radius =
     concat (map (\<lambda>(p, s). if s = SBlack then [(p, radius, (0, 0, 0))] else if s = SWhite then [(p, radius, (255, 0, 0))] else [])
       (zip intersections states))"

text \<open>A line of the tile: a title, a number with its decimals, or a count; the first component is its height.\<close>

datatype stats_line = Title string | Decimals string double nat | Tally string int

definition renderStatsTile :: "model \<Rightarrow> debug_stats \<Rightarrow> (int \<times> stats_line) list" where
  "renderStatsTile m stats =
     map (\<lambda>(i, l). (24 + 22 * int i, l)) (enumerate 0
       [Title ''Stone Detection v2'', Decimals ''medianEmpty'' (md_medianEmpty m) 2, Decimals ''sigmaEmpty'' (md_sigmaEmpty m) 2,
        Decimals ''chromaT'' (md_tChromaSq m) 1, Tally ''black'' (st_blackCount stats), Tally ''white'' (st_whiteCount stats),
        Tally ''empty'' (st_emptyCount stats), Tally ''refine tried'' (st_refinedTried stats),
        Tally ''refine accepted'' (st_refinedAccepted stats)])"

subsection \<open>The report\<close>

definition isRuntimeDebugEnabled :: "string option \<Rightarrow> bool" where
  "isRuntimeDebugEnabled debugEnv \<longleftrightarrow> debugEnv = Some ''1'' \<or> debugEnv = Some ''2''"

definition reasons :: "rejection_reason list" where
  "reasons = [NoReason, WeakZ, LowConfidence, WeakSupport, WeakNeighborContrast, EdgeArtifact, MarginTooSmall, Other]"

fun rejectionReasonLabel :: "rejection_reason \<Rightarrow> string" where
  "rejectionReasonLabel NoReason = ''None''"
| "rejectionReasonLabel WeakZ = ''WeakZ''"
| "rejectionReasonLabel LowConfidence = ''LowConfidence''"
| "rejectionReasonLabel WeakSupport = ''WeakSupport''"
| "rejectionReasonLabel WeakNeighborContrast = ''WeakNeighborContrast''"
| "rejectionReasonLabel EdgeArtifact = ''EdgeArtifact''"
| "rejectionReasonLabel MarginTooSmall = ''MarginTooSmall''"
| "rejectionReasonLabel Other = ''Other''"

text \<open>An intersection is printed as its index and its coordinates.\<close>

type_synonym place = "nat \<times> nat \<times> nat"

datatype report_line =
    Summary u32 model debug_stats
  | StoneRow place point stone_state double double features double
  | EmptyCand place double features eval_result double
  | BrightCand place double double features eval_result double
  | Cand place double features
  | Rejections "(string \<times> int) list"

text \<open>The arguments of \<open>emitRuntimeDebug\<close>.\<close>

record report_input =
  ri_boardSize :: u32
  ri_intersections :: "point list"
  ri_features :: "features list"
  ri_model :: model
  ri_states :: "stone_state list"
  ri_confidence :: "double list"
  ri_evaluations :: "eval_result list"
  ri_neighborMedianMap :: "double list"
  ri_stats :: debug_stats
  ri_rejectionReasons :: "rejection_reason list option"

definition hasEvaluations :: "report_input \<Rightarrow> bool" where
  "hasEvaluations ri \<longleftrightarrow> length (ri_evaluations ri) = length (ri_states ri)"

definition zForIndex :: "report_input \<Rightarrow> nat \<Rightarrow> features \<Rightarrow> double option" where
  "zForIndex ri index f =
     (if hasEvaluations ri then map_option ev_z (vec_at (ri_evaluations ri) index)
      else Some (f_div (f_sub (ft_deltaL f) (md_medianEmpty (ri_model ri))) (md_sigmaEmpty (ri_model ri))))"

text \<open>The state, margin, requirement and confidence of the evaluation, empty and zero when there is none.\<close>

definition rawForIndex :: "report_input \<Rightarrow> nat \<Rightarrow> eval_result option" where
  "rawForIndex ri index = (if hasEvaluations ri then vec_at (ri_evaluations ri) index else Some eval_new)"

definition neighborForIndex :: "report_input \<Rightarrow> nat \<Rightarrow> double option" where
  "neighborForIndex ri index =
     (if length (ri_neighborMedianMap ri) = length (ri_states ri) then vec_at (ri_neighborMedianMap ri) index
      else if ri_boardSize ri = 0 then None
      else neighbor_median_at (ri_features ri) (sint (ri_boardSize ri)) (md_medianEmpty (ri_model ri)) index)"

definition place_of :: "report_input \<Rightarrow> nat \<Rightarrow> place option" where
  "place_of ri index =
     (let n = unat (ri_boardSize ri) in if n = 0 then None else Some (index, index div n, index mod n))"

definition stone_row :: "report_input \<Rightarrow> nat \<Rightarrow> report_line list option" where
  "stone_row ri index =
     do {
       state \<leftarrow> vec_at (ri_states ri) index;
       if state = SEmpty then Some []
       else do {
         place \<leftarrow> place_of ri index;
         f \<leftarrow> vec_at (ri_features ri) index;
         z \<leftarrow> zForIndex ri index f;
         neighborMedian \<leftarrow> neighborForIndex ri index;
         let neighborContrast = (if state = SBlack then f_sub neighborMedian (ft_deltaL f) else f_sub (ft_deltaL f) neighborMedian);
         p \<leftarrow> vec_at (ri_intersections ri) index;
         conf \<leftarrow> vec_at (ri_confidence ri) index;
         Some [StoneRow place p state conf z f neighborContrast]
       }
     }"

text \<open>The rows of a list of candidates: intersections with valid features, all of them or the empty ones, with a value.\<close>

definition cand_row :: "report_input \<Rightarrow> bool \<Rightarrow> (nat \<Rightarrow> features \<Rightarrow> double option) \<Rightarrow> nat \<Rightarrow> (nat \<times> double) list option" where
  "cand_row ri only_empty value index =
     do {
       f \<leftarrow> vec_at (ri_features ri) index;
       if \<not> ft_valid f then Some []
       else do {
         skip \<leftarrow> (if only_empty then map_option (\<lambda>s. s \<noteq> SEmpty) (vec_at (ri_states ri) index) else Some False);
         if skip then Some [] else map_option (\<lambda>v. [(index, v)]) (value index f)
       }
     }"

text \<open>The rows with the greatest values; \<open>std::sort\<close> leaves the order of equal ones open, and needs numbers.\<close>

type_synonym row_sort = "(nat \<times> double) list \<Rightarrow> (nat \<times> double) list"

definition top_rows :: "row_sort \<Rightarrow> nat \<Rightarrow> report_input \<Rightarrow> bool \<Rightarrow> (nat \<Rightarrow> features \<Rightarrow> double option) \<Rightarrow> (nat \<times> double) list option" where
  "top_rows srt limit ri only_empty value =
     do {
       rows \<leftarrow> map_option concat (those (map (cand_row ri only_empty value) [0..<length (ri_features ri)]));
       if NaN \<in> snd ` set rows then None else Some (take limit (srt rows))
     }"

definition empty_cand :: "report_input \<Rightarrow> nat \<times> double \<Rightarrow> report_line option" where
  "empty_cand ri row =
     do {
       place \<leftarrow> place_of ri (fst row);
       raw \<leftarrow> rawForIndex ri (fst row);
       neighborMedian \<leftarrow> neighborForIndex ri (fst row);
       f \<leftarrow> vec_at (ri_features ri) (fst row);
       Some (EmptyCand place (snd row) f raw (f_sub (ft_deltaL f) neighborMedian))
     }"

definition bright_cand :: "report_input \<Rightarrow> nat \<times> double \<Rightarrow> report_line option" where
  "bright_cand ri row =
     do {
       place \<leftarrow> place_of ri (fst row);
       f \<leftarrow> vec_at (ri_features ri) (fst row);
       z \<leftarrow> zForIndex ri (fst row) f;
       raw \<leftarrow> rawForIndex ri (fst row);
       neighborMedian \<leftarrow> neighborForIndex ri (fst row);
       Some (BrightCand place (snd row) z f raw (f_sub (ft_deltaL f) neighborMedian))
     }"

definition plain_cand :: "report_input \<Rightarrow> nat \<times> double \<Rightarrow> report_line option" where
  "plain_cand ri row =
     do {
       place \<leftarrow> place_of ri (fst row);
       f \<leftarrow> vec_at (ri_features ri) (fst row);
       z \<leftarrow> zForIndex ri (fst row) f;
       Some (Cand place z f)
     }"

definition verbose_lines :: "row_sort \<Rightarrow> report_input \<Rightarrow> report_line list option" where
  "verbose_lines srt ri =
     do {
       emptyRows \<leftarrow> top_rows srt 20 ri True (zForIndex ri);
       empties \<leftarrow> those (map (empty_cand ri) emptyRows);
       brightRows \<leftarrow> top_rows srt 20 ri True (\<lambda>index f. Some (ft_brightFrac f));
       brights \<leftarrow> those (map (bright_cand ri) brightRows);
       Some (empties @ brights)
     }"

definition candidate_lines :: "row_sort \<Rightarrow> report_input \<Rightarrow> report_line list option" where
  "candidate_lines srt ri =
     do {
       rows \<leftarrow> top_rows srt 10 ri False (\<lambda>index f. map_option d_abs (zForIndex ri index f));
       those (map (plain_cand ri) rows)
     }"

definition rejection_lines :: "report_input \<Rightarrow> report_line list" where
  "rejection_lines ri =
     (case ri_rejectionReasons ri of
        None \<Rightarrow> []
      | Some rs \<Rightarrow>
          if length rs \<noteq> length (ri_states ri) then []
          else [Rejections (map (\<lambda>reason. (rejectionReasonLabel reason,
                  int (length (filter (\<lambda>(s, r). s = SEmpty \<and> r = reason) (zip (ri_states ri) rs))))) reasons)])"

definition emitRuntimeDebug :: "string option \<Rightarrow> row_sort \<Rightarrow> report_input \<Rightarrow> report_line list option" where
  "emitRuntimeDebug debugEnv srt ri =
     (if \<not> isRuntimeDebugEnabled debugEnv then Some []
      else do {
        stones \<leftarrow> map_option concat (those (map (stone_row ri) [0..<length (ri_states ri)]));
        verbose \<leftarrow> (if debugEnv = Some ''2'' then verbose_lines srt ri else Some []);
        n \<leftarrow> int32 (st_blackCount (ri_stats ri) + st_whiteCount (ri_stats ri));
        cands \<leftarrow> (if n = 0 then candidate_lines srt ri else Some []);
        Some (Summary (ri_boardSize ri) (ri_model ri) (ri_stats ri) # stones @ verbose @ cands @ rejection_lines ri)
      })"

text \<open>What \<open>analyseBoardV2\<close> hands to the report.\<close>

definition report_of :: "'i board_geometry \<Rightarrow> features list \<Rightarrow> model \<Rightarrow> double list \<Rightarrow> classified list \<Rightarrow> debug_stats \<Rightarrow> report_input" where
  "report_of g fs m neighborMedianMap out stats =
     \<lparr>ri_boardSize = bg_boardSize g, ri_intersections = bg_intersections g, ri_features = fs, ri_model = m,
      ri_states = map cl_state out, ri_confidence = map cl_confidence out, ri_evaluations = map cl_eval out,
      ri_neighborMedianMap = neighborMedianMap, ri_stats = stats, ri_rejectionReasons = Some (map cl_reason out)\<rparr>"

subsection \<open>What the report says\<close>

fun stone_of :: "report_line \<Rightarrow> (place \<times> stone_state \<times> double) list" where
  "stone_of (StoneRow place p state conf z f nc) = [(place, state, conf)]"
| "stone_of _ = []"

definition reported_stones :: "report_line list \<Rightarrow> (place \<times> stone_state \<times> double) list" where
  "reported_stones ls = concat (map stone_of ls)"

lemma reported_stones_simps [simp]:
  "reported_stones [] = []" "reported_stones (l # ls) = stone_of l @ reported_stones ls"
  "reported_stones (ls @ ls') = reported_stones ls @ reported_stones ls'"
  by (simp_all add: reported_stones_def)

lemma rows_no_stones:
  "those (map f rows) = Some ls \<Longrightarrow> (\<And>row l. f row = Some l \<Longrightarrow> stone_of l = []) \<Longrightarrow> reported_stones ls = []"
  by (induction rows arbitrary: ls) (auto split: option.splits)

lemma cand_lines_no_stones:
  "empty_cand ri row = Some l \<Longrightarrow> stone_of l = []" "bright_cand ri row = Some l \<Longrightarrow> stone_of l = []"
  "plain_cand ri row = Some l \<Longrightarrow> stone_of l = []"
  by (auto simp: empty_cand_def bright_cand_def plain_cand_def bind_eq_Some_conv)

lemma verbose_no_stones: "verbose_lines srt ri = Some ls \<Longrightarrow> reported_stones ls = []"
  by (auto simp: verbose_lines_def bind_eq_Some_conv cand_lines_no_stones rows_no_stones)

lemma candidates_no_stones: "candidate_lines srt ri = Some ls \<Longrightarrow> reported_stones ls = []"
  by (auto simp: candidate_lines_def bind_eq_Some_conv cand_lines_no_stones rows_no_stones)

text \<open>What is printed of the stone at an index.\<close>

definition stone_at :: "report_input \<Rightarrow> nat \<Rightarrow> place \<times> stone_state \<times> double" where
  "stone_at ri i =
     (let n = unat (ri_boardSize ri) in ((i, i div n, i mod n), ri_states ri ! i, ri_confidence ri ! i))"

lemma stone_row_says:
  "stone_row ri i = Some ls \<Longrightarrow> reported_stones ls = (if ri_states ri ! i = SEmpty then [] else [stone_at ri i])"
  by (auto simp: stone_row_def stone_at_def place_of_def vec_at_def bind_eq_Some_conv Let_def split: if_splits)

lemma stone_rows_say:
  "those (map (stone_row ri) is) = Some lss \<Longrightarrow>
     reported_stones (concat lss) = map (stone_at ri) (filter (\<lambda>i. ri_states ri ! i \<noteq> SEmpty) is)"
proof (induction "is" arbitrary: lss)
  case (Cons i "is")
  then obtain ls r where l: "stone_row ri i = Some ls" "those (map (stone_row ri) is) = Some r" "lss = ls # r"
    by (auto split: option.splits)
  with Cons.IH [OF l(2)] stone_row_says [OF l(1)] show ?case by simp
qed simp

lemma report_stones:
  assumes "emitRuntimeDebug env srt ri = Some ls" "isRuntimeDebugEnabled env"
  shows "reported_stones ls = map (stone_at ri) (filter (\<lambda>i. ri_states ri ! i \<noteq> SEmpty) [0..<length (ri_states ri)])"
proof -
  from assms obtain lss v c where l: "those (map (stone_row ri) [0..<length (ri_states ri)]) = Some lss"
    "verbose_lines srt ri = Some v \<or> v = []" "candidate_lines srt ri = Some c \<or> c = []"
    "ls = Summary (ri_boardSize ri) (ri_model ri) (ri_stats ri) # concat lss @ v @ c @ rejection_lines ri"
    by (auto simp: emitRuntimeDebug_def bind_eq_Some_conv split: if_splits)
  have "reported_stones v = []" "reported_stones c = []"
    using l(2,3) by (auto intro: verbose_no_stones candidates_no_stones)
  moreover have "reported_stones (rejection_lines ri) = []" by (simp add: rejection_lines_def split: option.splits)
  ultimately show ?thesis using stone_rows_say [OF l(1)] by (simp add: l(4))
qed

text \<open>The counts of the reasons add up to the number of empty intersections.\<close>

lemma reason_counts:
  "sum_list (map (\<lambda>reason. int (length (filter (\<lambda>(s, r). P s \<and> r = reason) ps))) reasons) = int (length (filter (\<lambda>(s, r). P s) ps))"
proof (induction ps)
  case (Cons p ps)
  obtain s r where p: "p = (s, r)" by (cases p)
  show ?case using Cons by (cases r) (auto simp: p reasons_def)
qed (simp add: reasons_def)

lemma last_line:
  "emitRuntimeDebug env srt ri = Some ls \<Longrightarrow> isRuntimeDebugEnabled env \<Longrightarrow> rejection_lines ri = [l] \<Longrightarrow> last ls = l"
  by (auto simp: emitRuntimeDebug_def bind_eq_Some_conv)

lemma rejections_add_up:
  assumes "counts_ok out st"
  shows "\<exists>rs. rejection_lines (report_of g fs m ms out st) = [Rejections rs] \<and> sum_list (map snd rs) = st_emptyCount st \<and>
    map fst rs = map rejectionReasonLabel reasons"
proof -
  have "length (filter (\<lambda>(s, r). s = SEmpty) (zip (map cl_state out) (map cl_reason out))) = count_list (map cl_state out) SEmpty"
    by (induction out) auto
  with assms reason_counts [of "\<lambda>s. s = SEmpty" "zip (map cl_state out) (map cl_reason out)"] show ?thesis
    by (simp add: rejection_lines_def report_of_def comp_def counts_ok_def)
qed

subsection \<open>No fault\<close>

text \<open>The arguments that are handed over fit together, and the values that are sorted are numbers.\<close>

definition input_ok :: "report_input \<Rightarrow> bool" where
  "input_ok ri \<longleftrightarrow> ri_boardSize ri \<noteq> 0 \<and> (let n = length (ri_states ri) in
     n < 2 ^ 31 \<and> length (ri_intersections ri) = n \<and> length (ri_features ri) = n \<and> length (ri_confidence ri) = n \<and>
     length (ri_evaluations ri) = n \<and> length (ri_neighborMedianMap ri) = n) \<and>
     (\<forall>f \<in> set (ri_features ri). ft_brightFrac f \<noteq> NaN) \<and> (\<forall>e \<in> set (ri_evaluations ri). ev_z e \<noteq> NaN) \<and>
     0 \<le> st_blackCount (ri_stats ri) \<and> 0 \<le> st_whiteCount (ri_stats ri) \<and>
     st_blackCount (ri_stats ri) + st_whiteCount (ri_stats ri) \<le> int (length (ri_states ri))"

definition row_sort_ok :: "row_sort \<Rightarrow> bool" where
  "row_sort_ok srt \<longleftrightarrow> (\<forall>rows. NaN \<notin> snd ` set rows \<longrightarrow> mset (srt rows) = mset rows \<and>
     sorted_wrt (\<lambda>a b. \<not> d_less (snd a) (snd b)) (srt rows))"

lemma input_okD:
  assumes "input_ok ri" "i < length (ri_states ri)"
  shows "\<exists>p. place_of ri i = Some p" "neighborForIndex ri i = Some (ri_neighborMedianMap ri ! i)"
    "zForIndex ri i f = Some (ev_z (ri_evaluations ri ! i))" "rawForIndex ri i = Some (ri_evaluations ri ! i)"
    "vec_at (ri_features ri) i = Some (ri_features ri ! i)" "vec_at (ri_states ri) i = Some (ri_states ri ! i)"
    "vec_at (ri_intersections ri) i = Some (ri_intersections ri ! i)" "vec_at (ri_confidence ri) i = Some (ri_confidence ri ! i)"
    "ev_z (ri_evaluations ri ! i) \<noteq> NaN" "ft_brightFrac (ri_features ri ! i) \<noteq> NaN"
  using assms by (auto simp: input_ok_def Let_def place_of_def neighborForIndex_def zForIndex_def rawForIndex_def hasEvaluations_def
    unat_eq_0)

lemma stone_row_defined:
  assumes "input_ok ri" "i < length (ri_states ri)"
  shows "\<exists>ls. stone_row ri i = Some ls"
  using input_okD [OF assms] by (auto simp: stone_row_def Let_def)

lemma cand_row_defined:
  assumes "input_ok ri" "i < length (ri_states ri)" "\<And>f. f = ri_features ri ! i \<Longrightarrow> \<exists>v. value i f = Some v \<and> v \<noteq> NaN"
  shows "\<exists>rows. cand_row ri b value i = Some rows \<and> (\<forall>r \<in> set rows. fst r = i \<and> snd r \<noteq> NaN)"
  using input_okD(5,6) [OF assms(1,2)] assms(3) by (auto simp: cand_row_def)

lemma top_rows_defined:
  assumes "input_ok ri" "row_sort_ok srt" "\<And>i. i < length (ri_states ri) \<Longrightarrow> \<exists>v. value i (ri_features ri ! i) = Some v \<and> v \<noteq> NaN"
  shows "\<exists>rows. top_rows srt limit ri b value = Some rows \<and> (\<forall>r \<in> set rows. fst r < length (ri_states ri))"
proof -
  have n: "length (ri_features ri) = length (ri_states ri)" using assms(1) by (simp add: input_ok_def Let_def)
  have "\<exists>rows. cand_row ri b value i = Some rows \<and> (\<forall>r \<in> set rows. fst r < length (ri_states ri) \<and> snd r \<noteq> NaN)"
    if "i \<in> set [0..<length (ri_features ri)]" for i
    using cand_row_defined [OF assms(1), of i "value" b] assms(3) [of i] that n by fastforce
  from those_map_ok [where f = "cand_row ri b value", OF this] obtain rss where r: "those (map (cand_row ri b value) [0..<length (ri_features ri)]) = Some rss"
    "\<forall>rows \<in> set rss. \<forall>r \<in> set rows. fst r < length (ri_states ri) \<and> snd r \<noteq> NaN" by blast
  then have nan: "NaN \<notin> snd ` set (concat rss)" by fastforce
  with assms(2) have "set (srt (concat rss)) = set (concat rss)" unfolding row_sort_ok_def by (metis set_mset_mset)
  then have "\<forall>r \<in> set (take limit (srt (concat rss))). fst r < length (ri_states ri)" using r(2) by (auto dest!: in_set_takeD)
  with r(1) nan show ?thesis by (simp add: top_rows_def)
qed

lemma cands_defined:
  assumes "input_ok ri" "\<forall>r \<in> set rows. fst r < length (ri_states ri)"
  shows "\<exists>ls. those (map (empty_cand ri) rows) = Some ls" "\<exists>ls. those (map (bright_cand ri) rows) = Some ls"
    "\<exists>ls. those (map (plain_cand ri) rows) = Some ls"
proof -
  have "empty_cand ri r \<noteq> None \<and> bright_cand ri r \<noteq> None \<and> plain_cand ri r \<noteq> None" if "r \<in> set rows" for r
  proof -
    have i: "fst r < length (ri_states ri)" using assms(2) that by blast
    from input_okD [OF assms(1) i] show ?thesis by (auto simp: empty_cand_def bright_cand_def plain_cand_def)
  qed
  then show "\<exists>ls. those (map (empty_cand ri) rows) = Some ls" "\<exists>ls. those (map (bright_cand ri) rows) = Some ls"
    "\<exists>ls. those (map (plain_cand ri) rows) = Some ls"
    by (intro those_defined; simp)+
qed

lemma report_defined:
  assumes "input_ok ri" "row_sort_ok srt"
  shows "\<exists>ls. emitRuntimeDebug env srt ri = Some ls"
proof -
  have "\<forall>x \<in> set (map (stone_row ri) [0..<length (ri_states ri)]). x \<noteq> None" using stone_row_defined [OF assms(1)] by auto
  from those_defined [OF this] obtain s where s: "those (map (stone_row ri) [0..<length (ri_states ri)]) = Some s" by blast
  have z: "\<exists>v. zForIndex ri i (ri_features ri ! i) = Some v \<and> v \<noteq> NaN" if "i < length (ri_states ri)" for i
    using input_okD(3,9) [OF assms(1) that] by blast
  have abs: "\<exists>v. map_option d_abs (zForIndex ri i (ri_features ri ! i)) = Some v \<and> v \<noteq> NaN" if i: "i < length (ri_states ri)" for i
  proof -
    obtain v where "zForIndex ri i (ri_features ri ! i) = Some v" "v \<noteq> NaN" using z i by blast
    then show ?thesis by (cases v) (simp_all add: d_abs_def)
  qed
  obtain e where e: "top_rows srt 20 ri True (zForIndex ri) = Some e" "\<forall>r \<in> set e. fst r < length (ri_states ri)"
    using top_rows_defined [OF assms, of "zForIndex ri" 20 True] z by blast
  obtain b where b: "top_rows srt 20 ri True (\<lambda>i f. Some (ft_brightFrac f)) = Some b" "\<forall>r \<in> set b. fst r < length (ri_states ri)"
    using top_rows_defined [OF assms, of "\<lambda>i f. Some (ft_brightFrac f)" 20 True] input_okD(10) [OF assms(1)] by auto
  obtain c where c: "top_rows srt 10 ri False (\<lambda>i f. map_option d_abs (zForIndex ri i f)) = Some c" "\<forall>r \<in> set c. fst r < length (ri_states ri)"
    using top_rows_defined [OF assms, of "\<lambda>i f. map_option d_abs (zForIndex ri i f)" 10 False] abs by blast
  have v: "\<exists>ls. verbose_lines srt ri = Some ls" "\<exists>ls. candidate_lines srt ri = Some ls"
    using cands_defined [OF assms(1) e(2)] cands_defined [OF assms(1) b(2)] cands_defined [OF assms(1) c(2)] e(1) b(1) c(1)
    by (auto simp: verbose_lines_def candidate_lines_def)
  have "\<exists>k. int32 (st_blackCount (ri_stats ri) + st_whiteCount (ri_stats ri)) = Some k"
    using assms(1) by (auto simp: input_ok_def Let_def int32_def int32_ok_def)
  with s v show ?thesis by (auto simp: emitRuntimeDebug_def)
qed

subsection \<open>The report on a classification\<close>

lemma classify_one_eval:
  assumes "classify_one cv ps fs m b sc dc re ms i (out, st) = Some (out', st')"
  shows "\<exists>c. out' = out @ [c] \<and> (cl_eval c = eval_new \<or> (\<exists>f \<in> set fs. \<exists>lv. cl_eval c = evaluate f m lv sc))"
proof -
  obtain f where f: "vec_at fs i = Some f" using assms by (auto simp: classify_one_def bind_eq_Some_conv)
  then have m: "f \<in> set fs" by (auto simp: vec_at_def split: if_splits)
  show ?thesis
  proof (cases "ft_valid f")
    case False
    with assms f show ?thesis by (auto simp: classify_one_def)
  next
    case True
    with assms f m show ?thesis by (fastforce simp: classify_one_def bind_eq_Some_conv Let_def)
  qed
qed

lemma classifyAll_evals:
  assumes "classifyAll cv ps fs m b sc dc re = Some (out, st)" "\<forall>f \<in> set fs. features_ok f" "model_ok m"
  shows "\<forall>c \<in> set out. ev_z (cl_eval c) \<noteq> NaN"
proof -
  obtain ms where l: "loopM (classify_one cv ps fs m b sc dc re ms) [0..<length ps] ([], debug_stats_new) = Some (out, st)"
    using assms(1) by (auto simp: classifyAll_def bind_eq_Some_conv)
  have z: "ev_z (evaluate f m lv sc) \<noteq> NaN" if "f \<in> set fs" for f lv
    using d_in_not_NaN [OF so_z_in [of f m sc]] assms(2,3) that by (auto simp: evaluate_def Let_def split: prod.split)
  have "(\<lambda>(out, st). \<forall>c \<in> set out. ev_z (cl_eval c) \<noteq> NaN) (out, st)"
  proof (rule loopM_invariant [OF l])
    fix i s s'
    assume "case s of (out, st) \<Rightarrow> \<forall>c \<in> set out. ev_z (cl_eval c) \<noteq> NaN" "classify_one cv ps fs m b sc dc re ms i s = Some s'"
    then show "case s' of (out, st) \<Rightarrow> \<forall>c \<in> set out. ev_z (cl_eval c) \<noteq> NaN"
      by (cases s; cases s') (auto dest!: classify_one_eval simp: z eval_new_def)
  qed simp
  then show ?thesis by simp
qed

lemma count_states: "count_list xs SBlack + count_list xs SWhite \<le> length xs" for xs :: "stone_state list"
  by (induction xs) auto

lemma report_of_ok:
  assumes "classifyAll cv (bg_intersections g) fs m b sc dc re = Some (out, st)" "re_scoringConfig re = sc"
    and "\<forall>f \<in> set fs. features_ok f" "model_ok m" "length fs = length (bg_intersections g)" "length ms = length fs"
    and "length fs < 2 ^ 31" "bg_boardSize g \<noteq> 0"
  shows "input_ok (report_of g fs m ms out st)"
proof -
  have "length out = length fs" using classifyAll_evidence [OF assms(1,2)] assms(5) by auto
  moreover have "ft_brightFrac f \<noteq> NaN" if "f \<in> set fs" for f
    using assms(3) that by (auto simp: features_ok_def dest: d_in_not_NaN)
  moreover have "\<forall>c \<in> set out. ev_z (cl_eval c) \<noteq> NaN" by (rule classifyAll_evals [OF assms(1,3,4)])
  moreover have "counts_ok out st" by (rule classifyAll_counts [OF assms(1)])
  moreover have "count_list (map cl_state out) SBlack + count_list (map cl_state out) SWhite \<le> length out"
    using count_states [of "map cl_state out"] by simp
  ultimately show ?thesis using assms(5-8) by (simp add: input_ok_def report_of_def counts_ok_def Let_def flip: of_nat_add)
qed

text \<open>With the environment variable set, the report never faults, prints exactly the stones, with the state and the
  confidence that the analysis returns, and its counts of reasons add up to the empty intersections.\<close>

theorem report_tells_the_result:
  assumes "classifyAll cv (bg_intersections g) fs m b sc dc re = Some (out, st)" "re_scoringConfig re = sc"
    and "\<forall>f \<in> set fs. features_ok f" "model_ok m" "length fs = length (bg_intersections g)" "length ms = length fs"
    and "length fs < 2 ^ 31" "bg_boardSize g \<noteq> 0" "row_sort_ok srt" "isRuntimeDebugEnabled env"
  shows "\<exists>ls. emitRuntimeDebug env srt (report_of g fs m ms out st) = Some ls \<and>
    map (\<lambda>((i, x, y), s, c). (i, s, c)) (reported_stones ls) =
      map (\<lambda>i. (i, cl_state (out ! i), cl_confidence (out ! i))) (filter (\<lambda>i. cl_state (out ! i) \<noteq> SEmpty) [0..<length out]) \<and>
    (\<exists>rs. last ls = Rejections rs \<and> sum_list (map snd rs) = st_emptyCount st)"
proof -
  let ?ri = "report_of g fs m ms out st"
  from report_defined [OF report_of_ok [OF assms(1-8)] assms(9)] obtain ls where ls: "emitRuntimeDebug env srt ?ri = Some ls" by blast
  have "ri_states ?ri = map cl_state out" "ri_confidence ?ri = map cl_confidence out" by (simp_all add: report_of_def)
  moreover have "map (\<lambda>i. (i, map cl_state out ! i, map cl_confidence out ! i)) (filter (\<lambda>i. map cl_state out ! i \<noteq> SEmpty) [0..<length out]) =
      map (\<lambda>i. (i, cl_state (out ! i), cl_confidence (out ! i))) (filter (\<lambda>i. cl_state (out ! i) \<noteq> SEmpty) [0..<length out])"
    by (rule map_cong [OF filter_cong [OF refl]]) auto
  moreover note report_stones [OF ls assms(10)]
  ultimately have "map (\<lambda>((i, x, y), s, c). (i, s, c)) (reported_stones ls) =
      map (\<lambda>i. (i, cl_state (out ! i), cl_confidence (out ! i))) (filter (\<lambda>i. cl_state (out ! i) \<noteq> SEmpty) [0..<length out])"
    by (simp add: stone_at_def Let_def comp_def)
  with ls rejections_add_up [OF classifyAll_counts [OF assms(1)], of g fs m ms] last_line [OF ls assms(10)] show ?thesis by blast
qed

end
