(* ===== verification/Stone_Properties.thy ===== *)
theory Stone_Properties imports Stone_Report begin

text \<open>The properties of the recognition of stones, \<open>src/vision/core/stoneFinder.cpp\<close>.\<close>

subsection \<open>The default parameters\<close>

lemma flit_in: "fl32_num a \<Longrightarrow> fl32_num b \<Longrightarrow> a \<le> x \<Longrightarrow> x \<le> b \<Longrightarrow> d_in (flit x) a b"
  unfolding flit_def by (rule round32_in)

lemma lit_exact: "fl64_num a \<Longrightarrow> lit a = Fin a"
  using lit_in [of a a a] by (auto elim: d_inE)

lemma stone_config_default_ok: "stone_config_ok stone_config_default"
  by (simp add: stone_config_ok_def stone_config_default_def geometry_config_ok_def geometry_config_default_def
    calibration_config_ok_def calibration_config_default_def scoring_config_ok_def scoring_config_default_def
    refinement_config_ok_def refinement_config_default_def flit_in lit_in lit_exact)

subsection \<open>No fault\<close>

text \<open>Images as rows, columns, channels and values, for the witness.\<close>

type_synonym plain_image = "int \<times> int \<times> int \<times> (int \<Rightarrow> int \<Rightarrow> u8)"

definition plain_opencv :: "plain_image opencv" where
  "plain_opencv = \<lparr>cv_empty = \<lambda>(r, c, n, v). r \<le> 0 \<or> c \<le> 0, cv_channels = \<lambda>(r, c, n, v). n,
     cv_rows = \<lambda>(r, c, n, v). r, cv_cols = \<lambda>(r, c, n, v). c,
     cv_cvtColor = \<lambda>(r, c, n, v) k. if r \<le> 0 \<or> c \<le> 0 then None else Some (r, c, 3, v),
     cv_extractChannel = \<lambda>(r, c, n, v) k. Some (r, c, 1, v),
     cv_GaussianBlur = \<lambda>i s. if d_less (Fin 0) s then Some i else None,
     cv_at = \<lambda>(r, c, n, v) y x. if 0 \<le> x \<and> x < c \<and> 0 \<le> y \<and> y < r then Some (v y x) else None\<rparr>"

lemma plain_opencv_laws: "opencv_laws plain_opencv (\<lambda>i. True)"
  by (simp add: opencv_laws_def same_bytes_def plain_opencv_def split: prod.splits)

text \<open>C33: the recognition of stones never runs into undefined behaviour or an exception, for an image of bytes, sound
  parameters, and a grid within \<open>2 ^ 20\<close> pixels. It fails with two empty lists, or gives a state and a confidence for every intersection
  of the board, each confidence a number from zero to one.\<close>

theorem analyse_board_never_faults:
  assumes "opencv_laws cv bytes" "bytes (bg_image g)" "stone_config_ok config" "spacing_ok (bg_spacing g)"
    and "\<forall>p \<in> set (bg_intersections g). point_ok p" "unat (bg_boardSize g) < 2 ^ 15"
  shows "\<exists>r. analyseBoard cv g config = Some r \<and>
    (if sr_success r
     then length (sr_stones r) = unat (bg_boardSize g) * unat (bg_boardSize g) \<and> length (sr_confidence r) = length (sr_stones r) \<and>
       (\<forall>c \<in> set (sr_confidence r). d_in c 0 1)
     else sr_stones r = [] \<and> sr_confidence r = [])"
  using assms by (rule analyseBoard_ok)

definition ex_geometry :: "plain_image board_geometry" where
  "ex_geometry = \<lparr>bg_image = (100, 100, 3, \<lambda>y x. 90), bg_H = (3, 3, 1, \<lambda>y x. 0),
     bg_intersections = [(Fin 20, Fin 20), (Fin 20, Fin 60), (Fin 60, Fin 20), (Fin 60, Fin 60)],
     bg_spacing = Fin 40, bg_boardSize = 2\<rparr>"

theorem analyse_board_never_faults_witness:
  "\<exists>r. analyseBoard plain_opencv ex_geometry stone_config_default = Some r \<and>
    (if sr_success r then length (sr_stones r) = 4 \<and> length (sr_confidence r) = 4 \<and> (\<forall>c \<in> set (sr_confidence r). d_in c 0 1)
     else sr_stones r = [] \<and> sr_confidence r = [])"
  using analyse_board_never_faults [of plain_opencv "\<lambda>i. True" ex_geometry stone_config_default]
    plain_opencv_laws stone_config_default_ok
  by (simp add: ex_geometry_def spacing_ok_def point_ok_def cong: if_cong conj_cong)

subsection \<open>Why a stone is reported\<close>

text \<open>What the code demands of a black and of a white stone, next to the median \<open>nm\<close> of the neighbours.\<close>

definition black_evidence :: "decision_config \<Rightarrow> features \<Rightarrow> double \<Rightarrow> int \<Rightarrow> u32 \<Rightarrow> eval_result \<Rightarrow> bool" where
  "black_evidence dc f nm level boardSize ev \<longleftrightarrow>
     \<not> d_less (d_neg (ev_z ev)) (f_add (dc_minZBlack dc)
         (if level = 1 then dc_minZBlackNearEdgeAdd dc else if level = 2 then dc_minZBlackOnEdgeAdd dc else Fin 0)) \<and>
     \<not> d_less (ev_confidence ev) (if dc_minConfidenceBlackBoardSize dc \<le> boardSize then dc_minConfidenceBlack dc else Fin 0) \<and>
     \<not> d_less (ft_darkFrac f) (dc_minSupportBlack dc) \<and>
     \<not> d_less (f_sub (ft_darkFrac f) (ft_brightFrac f)) (dc_minSupportAdvantageBlack dc) \<and>
     \<not> d_less (f_sub nm (ft_deltaL f)) (dc_minNeighborContrastBlack dc) \<and>
     \<not> d_less (ev_margin ev) (f_mul (dc_minBlackMarginMult dc) (ev_required ev))"

text \<open>A white stone needs strong support: pixels brighter than the neighbourhood; or else little colour: the square of
  its chroma under a cap and in the band near zero or near the cap (next to the edge only near the cap), far enough from
  the empty board and with a minimum of bright pixels. At and next to the edge it must not look like a reflection.\<close>

definition low_chroma :: "decision_config \<Rightarrow> features \<Rightarrow> int \<Rightarrow> eval_result \<Rightarrow> bool" where
  "low_chroma dc f level ev \<longleftrightarrow>
     (let cap = (if level = 1 then dc_whiteLowChromaMaxNearEdge dc else dc_whiteLowChromaMax dc)
      in \<not> d_less cap (ft_chromaSq f) \<and> \<not> d_less (ev_z ev) (dc_whiteLowChromaMinZ dc) \<and>
         \<not> d_less (ft_brightFrac f)
            (if level = 1 then dc_whiteLowChromaMinBrightNearEdge dc else dc_whiteLowChromaMinBright dc) \<and>
         (d_le (f_mul (flit (75 / 100)) cap) (ft_chromaSq f) \<or> level \<noteq> 1 \<and> d_le (ft_chromaSq f) (flit 90)))"

definition white_evidence :: "decision_config \<Rightarrow> features \<Rightarrow> double \<Rightarrow> int \<Rightarrow> u32 \<Rightarrow> eval_result \<Rightarrow> bool" where
  "white_evidence dc f nm level boardSize ev \<longleftrightarrow>
     \<not> d_less (ev_z ev) (dc_minZWhite dc) \<and>
     \<not> d_less (ev_confidence ev) (if dc_minConfidenceWhiteBoardSize dc \<le> boardSize then dc_minConfidenceWhite dc else Fin 0) \<and>
     \<not> d_less (f_sub (ft_brightFrac f) (ft_darkFrac f)) (dc_minSupportAdvantageWhiteFloor dc) \<and>
     \<not> d_less (ft_brightFrac f) (dc_minSupportWhite dc) \<and>
     (d_le (dc_whiteStrongAdvMin dc) (f_sub (ft_brightFrac f) (ft_darkFrac f)) \<and>
        d_le (dc_whiteStrongNeighborMin dc) (f_sub (ft_deltaL f) nm) \<or> low_chroma dc f level ev) \<and>
     \<not> (level = 1 \<and> d_le (dc_edgeWhiteNearChromaSq dc) (ft_chromaSq f) \<and> d_less (ft_brightFrac f) (dc_edgeWhiteNearMinBrightFrac dc)) \<and>
     \<not> (level \<ge> 2 \<and> d_le (dc_edgeWhiteHighChromaSq dc) (ft_chromaSq f) \<and> d_less (ft_brightFrac f) (dc_edgeWhiteMinBrightFrac dc)) \<and>
     \<not> (level = 1 \<and> d_le (dc_edgeWhiteNearWeakChromaSq dc) (ft_chromaSq f) \<and>
          d_less (ft_brightFrac f) (dc_edgeWhiteNearWeakBrightFrac dc) \<and> d_less (ev_confidence ev) (dc_edgeWhiteNearWeakMinConf dc)) \<and>
     \<not> d_less (ev_margin ev) (f_mul (dc_minWhiteMarginMult dc) (ev_required ev))"

text \<open>These are all the checks, and nothing else is demanded.\<close>

lemma accepted_black:
  assumes "ev_state ev = SBlack"
  shows "accepted dc f cx ev \<longleftrightarrow> black_evidence dc f (sp_neighborMedian cx) (sp_edgeLevel cx) (sp_boardSize cx) ev"
  unfolding accepted_def black_evidence_def passesStatistical_def passesSupport_def passesEdge_def passesMargin_def
    isWeakByZ_def failsBlackConfidence_def darkAdvantage_def Let_def
  by (simp add: assms)

lemma accepted_white:
  assumes "ev_state ev = SWhite"
  shows "accepted dc f cx ev \<longleftrightarrow> white_evidence dc f (sp_neighborMedian cx) (sp_edgeLevel cx) (sp_boardSize cx) ev"
proof -
  have "qualifiesLowChromaRescue dc f cx (ev_z ev) \<longleftrightarrow> low_chroma dc f (sp_edgeLevel cx) ev"
    by (auto simp: qualifiesLowChromaRescue_def low_chroma_def LOW_CHROMA_BAND_MAX_def Let_def)
  then show ?thesis
    unfolding accepted_def white_evidence_def passesStatistical_def passesSupport_def passesEdge_def passesMargin_def
      isWeakByZ_def failsWhiteConfidence_def failsWhiteSupport_def failsWhiteEdgeSanity_def isEdgeColorArtifact_def
      isNearEdgeColorArtifact_def isOnEdgeColorArtifact_def isNearEdgeUnstableWhite_def hasStrongWhiteSupport_def
      brightAdvantage_def Let_def
    by (simp add: assms)
qed

text \<open>C34: a stone is only reported on evidence: features measured at the intersection, or not further away than the search
  goes, whose evaluation has that colour and that confidence and passes every check that the code makes of the
  colour: distance from the empty board, confidence, share of dark or bright pixels, contrast with the median that
  \<open>computeNeighborMedianMap\<close> gives for the intersection, little colour (for white without that contrast), no reflection
  at or next to the edge, and margin.\<close>

theorem stones_are_reported_on_evidence:
  assumes "classifyAll cv ps fs m boardSize (re_scoringConfig re) dc re = Some (out, st)"
    and "i < length ps" "cl_state (out ! i) \<noteq> SEmpty"
  shows "\<exists>f medians. (f = fs ! i \<or> measured cv re (ps ! i) f) \<and>
    computeNeighborMedianMap fs (sint boardSize) (md_medianEmpty m) = Some medians \<and> i < length medians \<and>
    (let level = edgeLevel i (sint boardSize); ev = evaluate f m level (re_scoringConfig re)
     in cl_state (out ! i) = ev_state ev \<and> cl_confidence (out ! i) = ev_confidence ev \<and>
        (if cl_state (out ! i) = SBlack then black_evidence dc f (medians ! i) level boardSize ev
         else white_evidence dc f (medians ! i) level boardSize ev))"
proof -
  let ?ev = "\<lambda>f. evaluate f m (edgeLevel i (sint boardSize)) (re_scoringConfig re)"
  obtain ms where ms: "computeNeighborMedianMap fs (sint boardSize) (md_medianEmpty m) = Some ms"
    "evidence cv ps fs m boardSize (re_scoringConfig re) dc re ms i (out ! i)" using classifyAll_evidence [OF assms(1)] assms(2) by blast
  let ?cx = "\<lparr>sp_edgeLevel = edgeLevel i (sint boardSize), sp_neighborMedian = ms ! i, sp_boardSize = boardSize\<rparr>"
  from ms(2) assms(3) obtain f where f: "f = fs ! i \<or> measured cv re (ps ! i) f" "i < length ms"
    and a: "accepted dc f ?cx (?ev f)" "cl_state (out ! i) = ev_state (?ev f)" "cl_confidence (out ! i) = ev_confidence (?ev f)"
    unfolding evidence_def Let_def by blast
  have "if cl_state (out ! i) = SBlack then black_evidence dc f (ms ! i) (edgeLevel i (sint boardSize)) boardSize (?ev f)
      else white_evidence dc f (ms ! i) (edgeLevel i (sint boardSize)) boardSize (?ev f)"
    using a(1) accepted_black [of "?ev f" dc f ?cx] accepted_white [of "?ev f" dc f ?cx] a(2) assms(3)
    by (cases "ev_state (?ev f)") simp_all
  with ms(1) f a(2,3) show ?thesis unfolding Let_def by blast
qed

text \<open>A board of one intersection with a dark stone, for the witness; thresholds and weights are whole numbers.\<close>

definition ex_scoring :: scoring_config where
  "ex_scoring = \<lparr>sc_scoreWDelta = Fin 1, sc_scoreWSupport = Fin 0, sc_scoreWChroma = Fin 0, sc_margin0 = Fin 1, sc_edgePenalty = Fin 0,
     sc_confChromaDownweight = Fin 0, sc_emptyScoreBias = Fin 0, sc_emptyScoreZPenalty = Fin 0, sc_emptyScoreSupportPenalty = Fin 0\<rparr>"

definition ex_engine :: "plain_image refinement_engine" where
  "ex_engine = \<lparr>re_sampleContext = \<lparr>sx_L = (9, 9, 1, \<lambda>y x. 0), sx_A = (9, 9, 1, \<lambda>y x. 0), sx_B = (9, 9, 1, \<lambda>y x. 0), sx_rows = 9, sx_cols = 9\<rparr>,
     re_offsets = \<lparr>os_inner = [(0, 0)], os_bg = [(0, 0)]\<rparr>, re_radii = \<lparr>rd_innerRadius = 0, rd_bgRadius = 0, rd_bgOffset = 1\<rparr>,
     re_spacing = Fin 40, re_geometryConfig = geometry_config_default, re_scoringConfig = ex_scoring,
     re_refinementConfig = refinement_config_default\<rparr>"

definition ex_features :: features where
  "ex_features = \<lparr>ft_deltaL = Fin (-40), ft_chromaSq = Fin 0, ft_darkFrac = Fin 1, ft_brightFrac = Fin 0, ft_valid = True\<rparr>"

definition ex_model :: model where "ex_model = \<lparr>md_medianEmpty = Fin 0, md_sigmaEmpty = Fin 5, md_tChromaSq = Fin 100\<rparr>"

lemma ex_evaluate:
  "evaluate ex_features ex_model 2 ex_scoring =
     \<lparr>ev_state = SBlack, ev_bestScore = Fin 8, ev_secondScore = Fin 0, ev_margin = Fin 8, ev_required = Fin 1,
      ev_confidence = Fin 1, ev_z = Fin (-8)\<rparr>"
proof -
  have "d_in (flit (1 / 10 ^ 6)) 0 1" by (rule flit_in) simp_all
  from f_add_in [of "Fin 1" 1 1, OF _ this, of 1 2] have "d_in (f_add (Fin 1) (flit (1 / 10 ^ 6))) 1 2" by simp
  then obtain r where r: "f_add (Fin 1) (flit (1 / 10 ^ 6)) = Fin r" "1 \<le> r" "r \<le> 2" by (elim d_inE)
  then have "4 \<le> 8 / r" "8 / r \<le> 8" by (simp_all add: pos_le_divide_eq pos_divide_le_eq)
  then have "d_in (round32 (8 / r)) 4 8" by (intro round32_in) simp_all
  with r have "d_clamp (f_div (Fin 8) (f_add (Fin 1) (flit (1 / 10 ^ 6)))) (Fin 0) (Fin 1) = Fin 1"
    by (auto simp: d_clamp_def d_in_def)
  then have c: "score_confidence ex_scoring (Fin 8) (Fin 1) (Fin 0) = Fin 1"
    by (simp add: score_confidence_def ex_scoring_def d_clamp_def)
  have s: "computeScores ex_features ex_model ex_scoring =
    \<lparr>so_black = Fin 8, so_white = Fin (-8), so_empty = Fin 0, so_chromaPenalty = Fin 0, so_z = Fin (-8)\<rparr>"
    by (simp add: computeScores_def ex_features_def ex_model_def ex_scoring_def Let_def d_abs_def)
  have "f_mul (sc_margin0 ex_scoring) (f_add (Fin 1) (f_mul (sc_edgePenalty ex_scoring) (f_int 2))) = Fin 1"
    by (simp add: ex_scoring_def f_int_def)
  then show ?thesis by (simp add: evaluate_def s best_state_def Let_def c)
qed

definition ex_decision :: decision_config where
  "ex_decision = decision_config_default\<lparr>dc_minZBlack := Fin 3, dc_minZBlackOnEdgeAdd := Fin 1, dc_minConfidenceBlack := Fin 1,
     dc_minSupportBlack := Fin 1, dc_minSupportAdvantageBlack := Fin 1, dc_minNeighborContrastBlack := Fin 14,
     dc_minBlackMarginMult := Fin 1, dc_refineTriggerMult := Fin 1\<rparr>"

lemma ex_medians: "computeNeighborMedianMap [ex_features] (sint (1 :: u32)) (md_medianEmpty ex_model) = Some [Fin 0]"
  by (simp add: computeNeighborMedianMap_def neighbor_median_at_def computeNeighborMedianDelta_def neighbor_value_def
    int_of_size_small sdiv_nonneg int32_small ex_model_def Let_def upto.simps)

lemma ex_classify:
  "\<exists>c st. classifyAll plain_opencv [(Fin 20, Fin 20)] [ex_features] ex_model 1 (re_scoringConfig ex_engine) ex_decision ex_engine =
     Some ([c], st) \<and> cl_state c = SBlack"
proof -
  note n = ex_medians
  have v: "decide ex_decision ex_features \<lparr>sp_edgeLevel = 2, sp_neighborMedian = Fin 0, sp_boardSize = 1\<rparr>
      (evaluate ex_features ex_model 2 ex_scoring) = (evaluate ex_features ex_model 2 ex_scoring, NoReason)"
    unfolding ex_evaluate by (simp add: decide_def first_reason_def passesStatistical_def passesSupport_def passesEdge_def passesMargin_def
      isWeakByZ_def failsBlackConfidence_def darkAdvantage_def ex_decision_def decision_config_default_def ex_features_def Let_def)
  have p: "refinementPath ex_decision ex_features (evaluate ex_features ex_model 2 ex_scoring) = NoPath"
    unfolding ex_evaluate by (simp add: refinementPath_def hasEmptyRescueHint_def hasStandardRefineHint_def ex_decision_def
      decision_config_default_def Let_def)
  have "ft_valid ex_features" "edgeLevel 0 (sint (1 :: u32)) = 2" "re_scoringConfig ex_engine = ex_scoring"
    by (simp_all add: ex_features_def edgeLevel_def int_of_size_small sdiv_nonneg Let_def ex_engine_def)
  then show ?thesis using n v p
    by (simp add: classifyAll_def classify_one_def refined_decision_def Let_def) (simp add: ex_evaluate)
qed

theorem stones_are_reported_on_evidence_witness:
  "\<exists>out st. classifyAll plain_opencv [(Fin 20, Fin 20)] [ex_features] ex_model 1 (re_scoringConfig ex_engine) ex_decision ex_engine = Some (out, st) \<and>
     (\<exists>f. (f = ex_features \<or> measured plain_opencv ex_engine (Fin 20, Fin 20) f) \<and>
        black_evidence ex_decision f (Fin 0) 2 1 (evaluate f ex_model 2 ex_scoring))"
proof -
  obtain c st where c: "classifyAll plain_opencv [(Fin 20, Fin 20)] [ex_features] ex_model 1 (re_scoringConfig ex_engine) ex_decision ex_engine =
     Some ([c], st)" "cl_state c = SBlack" using ex_classify by blast
  have "edgeLevel 0 (sint (1 :: u32)) = 2" "re_scoringConfig ex_engine = ex_scoring"
    by (simp_all add: edgeLevel_def int_of_size_small sdiv_nonneg Let_def ex_engine_def)
  with c stones_are_reported_on_evidence [OF c(1), of 0] ex_medians show ?thesis by (auto simp: Let_def)
qed

text \<open>The counts that are shown add up: as many black, white and empty intersections are counted as are reported,
  and no more refinements are accepted than tried, and no more tried than there are intersections.\<close>

theorem stone_counts_add_up:
  assumes "classifyAll cv ps fs m boardSize sc dc re = Some (out, st)"
  shows "st_blackCount st = int (count_list (map cl_state out) SBlack) \<and> st_whiteCount st = int (count_list (map cl_state out) SWhite) \<and>
    st_emptyCount st = int (count_list (map cl_state out) SEmpty) \<and>
    0 \<le> st_refinedAccepted st \<and> st_refinedAccepted st \<le> st_refinedTried st \<and> st_refinedTried st \<le> int (length out)"
  using classifyAll_counts [OF assms] by (simp add: counts_ok_def)

theorem stone_counts_add_up_witness:
  "\<exists>out st. classifyAll plain_opencv [(Fin 20, Fin 20)] [ex_features] ex_model 1 (re_scoringConfig ex_engine) ex_decision ex_engine = Some (out, st) \<and>
     st_blackCount st = 1 \<and> st_whiteCount st = 0 \<and> st_emptyCount st = 0"
proof -
  obtain c st where c: "classifyAll plain_opencv [(Fin 20, Fin 20)] [ex_features] ex_model 1 (re_scoringConfig ex_engine) ex_decision ex_engine =
     Some ([c], st)" "cl_state c = SBlack" using ex_classify by blast
  with stone_counts_add_up [OF c(1)] show ?thesis by simp
qed

end
