(* ===== verification/Rectifier.thy ===== *)
theory Rectifier imports Board_Geometry Grid_Finder begin

text \<open>
  \<open>src/vision/core/rectifier.cpp\<close>: from the segments in the image of a board to its grid, and to the image with the
  grid and a border of half a stone. OpenCV is the record \<open>warp_opencv\<close> of the calls that the code makes; a call that
  throws gives \<open>None\<close>, and as nothing catches the exception, so does the code. \<open>None\<close> is also undefined behaviour and a
  failed \<open>assert\<close>; the images and output for debugging are left out.
\<close>

subsection \<open>OpenCV and the standard library\<close>

text \<open>A segment is a \<open>cv::Vec4i\<close>: two points.\<close>

type_synonym segment = "int \<times> int \<times> int \<times> int"

text \<open>Width and height.\<close>

type_synonym image_size = "int \<times> int"

text \<open>\<open>wc_cvtGray\<close> is \<open>cvtColor\<close> with \<open>COLOR_BGR2GRAY\<close>, \<open>wc_warpPerspective\<close> takes the side of the square that it makes.\<close>

record 'i warp_opencv =
  wc_empty :: "'i \<Rightarrow> bool"
  wc_channels :: "'i \<Rightarrow> int"
  wc_size :: "'i \<Rightarrow> image_size"
  wc_cvtGray :: "'i \<Rightarrow> 'i option"
  wc_GaussianBlur :: "'i \<Rightarrow> int \<Rightarrow> double \<Rightarrow> 'i option"
  wc_Canny :: "'i \<Rightarrow> double \<Rightarrow> double \<Rightarrow> 'i option"
  wc_dilate :: "'i \<Rightarrow> 'i option"
  wc_HoughLinesP :: "'i \<Rightarrow> double \<Rightarrow> double \<Rightarrow> int \<Rightarrow> double \<Rightarrow> double \<Rightarrow> segment list option"
  wc_inv :: "'i \<Rightarrow> 'i option"
  wc_perspectiveTransform :: "point list \<Rightarrow> 'i \<Rightarrow> point list option"
  wc_getPerspectiveTransform :: "point list \<Rightarrow> point list \<Rightarrow> 'i option"
  wc_warpPerspective :: "'i \<Rightarrow> 'i \<Rightarrow> int \<Rightarrow> 'i option"
  wc_norm :: "point \<Rightarrow> double"

record line1d =
  ln_pos :: double
  ln_weight :: double

text \<open>What the standard library leaves open: \<open>std::sort\<close> need not keep the order of lines with the same position.
  \<open>atan2\<close> of two \<open>float\<close> is a \<open>float\<close>.\<close>

record stdlib =
  sl_sort :: "line1d list \<Rightarrow> line1d list"
  sl_atan2f :: "double \<Rightarrow> double \<Rightarrow> double"

subsection \<open>Lines\<close>

text \<open>The clusters of the sorted lines after the line at \<open>prev\<close>, with the sums of the cluster it is in.\<close>

fun clusters :: "double \<Rightarrow> double \<Rightarrow> double \<Rightarrow> double \<Rightarrow> line1d list \<Rightarrow> double list" where
  "clusters eps prev wSum pSum [] = [d_div pSum wSum]"
| "clusters eps prev wSum pSum (v # vs) =
     (if d_le (d_abs (d_sub (ln_pos v) prev)) eps
      then clusters eps (ln_pos v) (d_add wSum (ln_weight v)) (d_add pSum (d_mul (ln_pos v) (ln_weight v))) vs
      else d_div pSum wSum # clusters eps (ln_pos v) (ln_weight v) (d_mul (ln_pos v) (ln_weight v)) vs)"

definition clusterWeighted1D :: "stdlib \<Rightarrow> line1d list \<Rightarrow> double \<Rightarrow> double list option" where
  "clusterWeighted1D sl values eps =
     (if values = [] then Some []
      else if NaN \<in> ln_pos ` set values then None
      else case sl_sort sl values of
             [] \<Rightarrow> None
           | v # vs \<Rightarrow> Some (clusters eps (ln_pos v) (ln_weight v) (d_mul (ln_pos v) (ln_weight v)) vs))"

definition computeMedianSpacing :: "double list \<Rightarrow> double option" where
  "computeMedianSpacing grid =
     (if length grid < 2 then Some (Fin 0)
      else median (map (\<lambda>i. d_sub (grid ! i) (grid ! (i - 1))) [1..<length grid]))"

text \<open>The loops that bring an angle into the range from -90 to 90.\<close>

partial_function (option) angle_up :: "double \<Rightarrow> double option" where
  "angle_up angle = (if d_less angle (Fin (-90)) then angle_up (f_add angle (Fin 180)) else Some angle)"

partial_function (option) angle_down :: "double \<Rightarrow> double option" where
  "angle_down angle = (if d_less (Fin 90) angle then angle_down (f_sub angle (Fin 180)) else Some angle)"

definition segment_angle :: "stdlib \<Rightarrow> segment \<Rightarrow> double option" where
  "segment_angle sl l =
     (let (x0, y0, x1, y1) = l
      in do {
           dx \<leftarrow> int32 (x1 - x0);
           dy \<leftarrow> int32 (y1 - y0);
           a \<leftarrow> angle_up (f_of_d (d_div (f_mul (sl_atan2f sl (f_int dy) (f_int dx)) (flit 180)) d_pi));
           angle_down a
         })"

text \<open>The vertical and the horizontal segments.\<close>

definition add_segment :: "stdlib \<Rightarrow> segment \<Rightarrow> segment list \<times> segment list \<Rightarrow> (segment list \<times> segment list) option" where
  "add_segment sl l st =
     do {
       angle \<leftarrow> segment_angle sl l;
       let (vertical, horizontal) = st;
       Some (if d_less (d_abs angle) (Fin 15) then (vertical, horizontal @ [l])
             else if d_less (Fin 75) (d_abs angle) then (vertical @ [l], horizontal)
             else (vertical, horizontal))
     }"

definition segLen :: "segment \<Rightarrow> double option" where
  "segLen l =
     (let (x0, y0, x1, y1) = l
      in do {
           dx \<leftarrow> int32 (x1 - x0);
           dy \<leftarrow> int32 (y1 - y0);
           Some (d_sqrt (d_add (d_mul (d_int dx) (d_int dx)) (d_mul (d_int dy) (d_int dy))))
         })"

definition vertical_line :: "segment \<Rightarrow> line1d option" where
  "vertical_line l =
     (let (x0, y0, x1, y1) = l
      in do { s \<leftarrow> int32 (x0 + x1); w \<leftarrow> segLen l; Some \<lparr>ln_pos = d_mul (lit (1 / 2)) (d_int s), ln_weight = w\<rparr> })"

definition horizontal_line :: "segment \<Rightarrow> line1d option" where
  "horizontal_line l =
     (let (x0, y0, x1, y1) = l
      in do { s \<leftarrow> int32 (y0 + y1); w \<leftarrow> segLen l; Some \<lparr>ln_pos = d_mul (lit (1 / 2)) (d_int s), ln_weight = w\<rparr> })"

subsection \<open>Borders\<close>

definition coverTol :: double where "coverTol = Fin 8"

definition covers :: "double \<Rightarrow> bool \<Rightarrow> segment \<Rightarrow> bool" where
  "covers c centersAreX s \<longleftrightarrow>
     (let (x0, y0, x1, y1) = s;
          a = (if centersAreX then d_int x0 else d_int y0);
          b = (if centersAreX then d_int x1 else d_int y1)
      in d_le (d_sub (d_min a b) coverTol) c \<and> d_le c (d_add (d_max a b) coverTol))"

definition computeCoverageCounts :: "double list \<Rightarrow> segment list \<Rightarrow> bool \<Rightarrow> int list" where
  "computeCoverageCounts centers orthSegments centersAreX =
     map (\<lambda>c. int (length (filter (covers c centersAreX) orthSegments))) centers"

definition is_artifact :: "int \<Rightarrow> int list \<Rightarrow> nat \<Rightarrow> nat \<Rightarrow> bool" where
  "is_artifact thresh counts n i \<longleftrightarrow> (i = 0 \<or> i + 1 = n) \<and> counts ! i < thresh"

definition pruneEdgeArtifactsByCoverage :: "double list \<Rightarrow> int list \<Rightarrow> double list option" where
  "pruneEdgeArtifactsByCoverage centers counts =
     (if length centers < 3 then Some centers
      else let maxCount = counts ! max_element counts
           in if maxCount \<le> 0 then Some centers
              else do {
                t \<leftarrow> lround_int (d_mul (lit (15 / 100)) (d_int maxCount));
                let thresh = max 1 t;
                let pruned = map (\<lambda>i. centers ! i) (filter (\<lambda>i. \<not> is_artifact thresh counts (length centers) i) [0..<length centers]);
                Some (if length pruned \<ge> 9 then pruned else centers)
              })"

subsection \<open>The grid\<close>

text \<open>The lines found on both axes.\<close>

definition grid_candidates :: "stdlib \<Rightarrow> segment list \<Rightarrow> (double list \<times> double list) option" where
  "grid_candidates sl lines =
     do {
       (vertical, horizontal) \<leftarrow> loopM (add_segment sl) lines ([], []);
       v1d \<leftarrow> those (map vertical_line vertical);
       h1d \<leftarrow> those (map horizontal_line horizontal);
       vGrid \<leftarrow> clusterWeighted1D sl v1d (Fin 15);
       hGrid \<leftarrow> clusterWeighted1D sl h1d (Fin 15);
       vPruned \<leftarrow> pruneEdgeArtifactsByCoverage vGrid (computeCoverageCounts vGrid horizontal True);
       hPruned \<leftarrow> pruneEdgeArtifactsByCoverage hGrid (computeCoverageCounts hGrid vertical False);
       Some (vPruned, hPruned)
     }"

text \<open>The lines as they are, which a build with assertions validates, or the grid that fits them; \<open>Some None\<close> when there
  is no grid.\<close>

definition choose_grid :: "libm \<Rightarrow> double list \<Rightarrow> double list \<Rightarrow> (double list \<times> double list) option option" where
  "choose_grid lm vGrid hGrid =
     do {
       r \<leftarrow> (if length vGrid = length hGrid \<and> isValidN (length vGrid)
             then map_option (\<lambda>validated. Some (vGrid, hGrid)) (findGrid lm vGrid hGrid ([], []) [length vGrid])
             else map_option (\<lambda>(ok, v, h). if ok then Some (v, h) else None) (findGrid_default lm vGrid hGrid ([], [])));
       Some (case r of
               None \<Rightarrow> None
             | Some (v, h) \<Rightarrow> if length v \<noteq> length h \<or> \<not> isValidN (length v) then None else Some (v, h))
     }"

definition outSize :: int where "outSize = 1000"

definition warp_corners :: "double list \<Rightarrow> double list \<Rightarrow> double \<Rightarrow> point list" where
  "warp_corners vGrid hGrid spacing =
     (let stoneBuffer = d_mul (lit (1 / 2)) spacing;
          xmin = f_of_d (d_sub (hd vGrid) stoneBuffer); xmax = f_of_d (d_add (last vGrid) stoneBuffer);
          ymin = f_of_d (d_sub (hd hGrid) stoneBuffer); ymax = f_of_d (d_add (last hGrid) stoneBuffer)
      in [(xmin, ymin), (xmax, ymin), (xmax, ymax), (xmin, ymax)])"

definition out_corners :: "point list" where
  "out_corners = (let e = f_sub (f_int outSize) (Fin 1) in [(Fin 0, Fin 0), (e, Fin 0), (e, e), (Fin 0, e)])"

definition grid_points :: "double list \<Rightarrow> double list \<Rightarrow> point list" where
  "grid_points vGrid hGrid = concat (map (\<lambda>x. map (\<lambda>y. (f_of_d x, f_of_d y)) hGrid) vGrid)"

definition point_distance :: "'i warp_opencv \<Rightarrow> point list \<Rightarrow> nat \<Rightarrow> nat \<Rightarrow> double option" where
  "point_distance cv ps i j =
     do { p \<leftarrow> vec_at ps i; q \<leftarrow> vec_at ps j; Some (wc_norm cv (f_sub (fst p) (fst q), f_sub (snd p) (snd q))) }"

text \<open>The distances of neighbours, along the second axis and then along the first.\<close>

definition spacing_samples :: "'i warp_opencv \<Rightarrow> nat \<Rightarrow> point list \<Rightarrow> double list option" where
  "spacing_samples cv N ps =
     (if N \<ge> 2 \<and> length ps = N * N
      then map_option (filter (\<lambda>d. isfinite d \<and> d_less (Fin 0) d))
             (those (map (\<lambda>(x, y). point_distance cv ps (x * N + (y + 1)) (x * N + y)) [(x, y). x \<leftarrow> [0..<N], y \<leftarrow> [0..<N - 1]] @
                     map (\<lambda>(x, y). point_distance cv ps ((x + 1) * N + y) (x * N + y)) [(x, y). x \<leftarrow> [0..<N - 1], y \<leftarrow> [0..<N]]))
      else Some [])"

text \<open>The preprocessing, up to the segments.\<close>

definition find_segments :: "'i warp_opencv \<Rightarrow> 'i \<Rightarrow> segment list option" where
  "find_segments cv img =
     do {
       gray \<leftarrow> wc_cvtGray cv img;
       blur \<leftarrow> wc_GaussianBlur cv gray 9 (lit (15 / 10));
       canny \<leftarrow> wc_Canny cv blur (Fin 50) (Fin 120);
       edges \<leftarrow> wc_dilate cv canny;
       wc_HoughLinesP cv edges (Fin 1) (d_div d_pi (Fin 180)) 80 (Fin 100) (Fin 20)
     }"

text \<open>The original image warped to the grid, with its intersections.\<close>

definition warp_to_grid :: "'i warp_opencv \<Rightarrow> 'i \<Rightarrow> 'i \<Rightarrow> double list \<Rightarrow> double list \<Rightarrow> 'i board_geometry option" where
  "warp_to_grid cv originalImg H vGrid hGrid =
     do {
       spacingX \<leftarrow> computeMedianSpacing vGrid;
       spacingY \<leftarrow> computeMedianSpacing hGrid;
       let spacing = d_mul (lit (1 / 2)) (d_add spacingX spacingY);
       Hinv \<leftarrow> wc_inv cv H;
       srcOriginal \<leftarrow> wc_perspectiveTransform cv (warp_corners vGrid hGrid spacing) Hinv;
       homographyFinal \<leftarrow> wc_getPerspectiveTransform cv srcOriginal out_corners;
       refined \<leftarrow> wc_warpPerspective cv originalImg homographyFinal outSize;
       intersectionsOriginal \<leftarrow> wc_perspectiveTransform cv (grid_points vGrid hGrid) Hinv;
       intersectionsRefined \<leftarrow> wc_perspectiveTransform cv intersectionsOriginal homographyFinal;
       let N = length vGrid;
       samples \<leftarrow> spacing_samples cv N intersectionsRefined;
       refinedSpacing \<leftarrow> (if samples = [] then Some (Fin 0) else median samples);
       if length vGrid = length hGrid \<and> length intersectionsRefined = N * N \<and> isValidN N \<and> \<not> wc_empty cv refined
       then Some \<lparr>bg_image = refined, bg_H = homographyFinal, bg_intersections = intersectionsRefined,
                  bg_spacing = refinedSpacing, bg_boardSize = of_nat N\<rparr>
       else None
     }"

text \<open>\<open>Some None\<close> is the empty result \<open>{}\<close>.\<close>

definition rectifyImage :: "'i warp_opencv \<Rightarrow> stdlib \<Rightarrow> libm \<Rightarrow> 'i \<Rightarrow> 'i warp_result \<Rightarrow> 'i board_geometry option option" where
  "rectifyImage cv sl lm originalImg input =
     (if wc_empty cv (wr_image input) \<or> wc_empty cv (wr_H input) then Some None
      else do {
        lines \<leftarrow> find_segments cv (wr_image input);
        (vLines, hLines) \<leftarrow> grid_candidates sl lines;
        grid \<leftarrow> choose_grid lm vLines hLines;
        case grid of
          None \<Rightarrow> Some None
        | Some (vGrid, hGrid) \<Rightarrow> map_option Some (warp_to_grid cv originalImg (wr_H input) vGrid hGrid)
      })"

end
