(* ===== verification/Board_Finder.thy ===== *)
theory Board_Finder imports Rectifier "HOL-Library.Product_Lexorder" begin

text \<open>
  \<open>src/vision/core/boardFinder.cpp\<close>: contours of the image are approximated by four corners, the corners that can be
  a board are scored, the best six are scored again by the lines within them, and the image is warped to the best.
  OpenCV is the record \<open>board_opencv\<close>. \<open>None\<close> is undefined behaviour, a failed assertion, or an exception: a call of
  OpenCV that throws gives \<open>None\<close>, and nothing here catches it. Vectors are taken to have fewer
  than \<open>2 ^ 31\<close> elements, so that their size is an \<open>int\<close>. The messages of
  \<open>GO_BOARD_DEBUG\<close> and the images for debugging are left out.
\<close>

subsection \<open>OpenCV and the standard library\<close>

type_synonym contour = "(int \<times> int) list"

text \<open>\<open>bo_cv\<close> has the calls that the rectification makes too; \<open>bo_close\<close> is \<open>morphologyEx\<close> with \<open>MORPH_CLOSE\<close> and a
  rectangle of that size, \<open>bo_otsu\<close> the threshold, \<open>bo_findContours\<close> takes the retrieval mode.\<close>

datatype retrieval = RETR_EXTERNAL | RETR_TREE

record 'i board_opencv =
  bo_cv :: "'i warp_opencv"
  bo_cvtGrayA :: "'i \<Rightarrow> 'i option"
  bo_close :: "'i \<Rightarrow> int \<Rightarrow> 'i option"
  bo_otsu :: "'i \<Rightarrow> 'i option"
  bo_invert :: "'i \<Rightarrow> 'i option"
  bo_findContours :: "'i \<Rightarrow> retrieval \<Rightarrow> contour list option"
  bo_contourArea :: "contour \<Rightarrow> double"
  bo_quadArea :: "point list \<Rightarrow> double"
  bo_arcLength :: "contour \<Rightarrow> double"
  bo_approxPolyDP :: "contour \<Rightarrow> double \<Rightarrow> contour option"
  bo_isContourConvex :: "contour \<Rightarrow> bool"
  bo_minAreaRect :: "contour \<Rightarrow> point \<times> point \<times> point \<times> point"

abbreviation bo_size :: "'i board_opencv \<Rightarrow> 'i \<Rightarrow> image_size" where "bo_size cv \<equiv> wc_size (bo_cv cv)"

record board_candidate =
  bc_quad :: "point list"
  bc_contourIdx :: nat
  bc_score :: double
  bc_area :: double
  bc_verticalCount :: int
  bc_horizontalCount :: int

text \<open>\<open>std::sort\<close> of elements that the order does not tell apart: the indices by area, two corners by \<open>x\<close>, and the
  candidates by score.\<close>

record board_stdlib =
  bs_stdlib :: stdlib
  bs_sort_indices :: "(nat \<Rightarrow> double) \<Rightarrow> nat list \<Rightarrow> nat list"
  bs_sort_row :: "point list \<Rightarrow> point list"
  bs_sort_candidates :: "board_candidate list \<Rightarrow> board_candidate list"

definition WARP_OUT_SIZE :: int where "WARP_OUT_SIZE = 1000"

definition MAX_CANDIDATE_CONTOURS :: nat where "MAX_CANDIDATE_CONTOURS = 24"

definition MIN_CONTOUR_AREA_FRAC :: double where "MIN_CONTOUR_AREA_FRAC = lit (8 / 100)"

subsection \<open>Preprocessing\<close>

definition makeOddKernelSize :: "int \<Rightarrow> int" where
  "makeOddKernelSize value = (if value mod 2 = 0 then value + 1 else value)"

record preprocess_settings =
  ps_blurKernelSize :: int
  ps_closeKernelSize :: int
  ps_cannyLow :: double
  ps_cannyHigh :: double

definition clamp :: "int \<Rightarrow> int \<Rightarrow> int \<Rightarrow> int" where
  "clamp v lo hi = (if v < lo then lo else if hi < v then hi else v)"

definition choosePreprocessSettings :: "image_size \<Rightarrow> preprocess_settings" where
  "choosePreprocessSettings imageSize =
     (let minDim = max 1 (min (fst imageSize) (snd imageSize));
          cannyLow = d_clamp (d_mul (lit (5 / 100)) (d_int minDim)) (Fin 45) (Fin 60);
          cannyHigh = d_clamp (d_mul (lit (15 / 100)) (d_int minDim)) (Fin 135) (Fin 180)
      in \<lparr>ps_blurKernelSize = makeOddKernelSize (clamp (minDim div 150) 3 9),
          ps_closeKernelSize = makeOddKernelSize (clamp (minDim div 68) 9 25),
          ps_cannyLow = cannyLow,
          ps_cannyHigh = (if d_le cannyHigh (d_add cannyLow (Fin 1)) then d_add cannyLow (Fin 1) else cannyHigh)\<rparr>)"

text \<open>\<open>Some None\<close> is the result \<open>false\<close>.\<close>

definition convertToGray :: "'i board_opencv \<Rightarrow> 'i \<Rightarrow> 'i option option" where
  "convertToGray cv img =
     (if wc_channels (bo_cv cv) img = 1 then Some (Some img)
      else if wc_channels (bo_cv cv) img = 3 then map_option Some (wc_cvtGray (bo_cv cv) img)
      else if wc_channels (bo_cv cv) img = 4 then map_option Some (bo_cvtGrayA cv img)
      else Some None)"

text \<open>The edge, the bright and the dark mask.\<close>

definition buildCandidateMasks :: "'i board_opencv \<Rightarrow> 'i \<Rightarrow> preprocess_settings \<Rightarrow> ('i \<times> 'i \<times> 'i) option" where
  "buildCandidateMasks cv blurredGray settings =
     do {
       edges \<leftarrow> wc_Canny (bo_cv cv) blurredGray (ps_cannyLow settings) (ps_cannyHigh settings);
       edgeMask \<leftarrow> bo_close cv edges (ps_closeKernelSize settings);
       otsuMask \<leftarrow> bo_otsu cv blurredGray;
       let intensityKernelSize = makeOddKernelSize (ps_closeKernelSize settings + 4);
       brightMask \<leftarrow> bo_close cv otsuMask intensityKernelSize;
       inverted \<leftarrow> bo_invert cv otsuMask;
       darkMask \<leftarrow> bo_close cv inverted intensityKernelSize;
       Some (edgeMask, brightMask, darkMask)
     }"

subsection \<open>Corners\<close>

definition sum_less :: "point \<Rightarrow> point \<Rightarrow> bool" where
  "sum_less left right \<longleftrightarrow> d_less (f_add (fst left) (snd left)) (f_add (fst right) (snd right))"

definition diff_less :: "point \<Rightarrow> point \<Rightarrow> bool" where
  "diff_less left right \<longleftrightarrow> d_less (f_sub (fst left) (snd left)) (f_sub (fst right) (snd right))"

text \<open>\<open>std::min_element\<close> and \<open>std::max_element\<close>: the index of the first.\<close>

definition first_min :: "(point \<Rightarrow> point \<Rightarrow> bool) \<Rightarrow> point list \<Rightarrow> nat" where
  "first_min lt ps = foldl (\<lambda>b i. if lt (ps ! i) (ps ! b) then i else b) 0 [0..<length ps]"

definition first_max :: "(point \<Rightarrow> point \<Rightarrow> bool) \<Rightarrow> point list \<Rightarrow> nat" where
  "first_max lt ps = foldl (\<lambda>b i. if lt (ps ! b) (ps ! i) then i else b) 0 [0..<length ps]"

text \<open>The corners by rows; sorting needs numbers.\<close>

definition corners_by_rows :: "board_stdlib \<Rightarrow> point list \<Rightarrow> point list option" where
  "corners_by_rows bs quad =
     (if \<exists>p \<in> set quad. fst p = NaN \<or> snd p = NaN then None
      else let sortedByY = sort_key (\<lambda>p. (snd p, fst p)) quad;
               topRow = bs_sort_row bs [sortedByY ! 0, sortedByY ! 1];
               bottomRow = bs_sort_row bs [sortedByY ! 2, sortedByY ! 3]
           in Some [topRow ! 0, topRow ! 1, bottomRow ! 1, bottomRow ! 0])"

definition orderCorners :: "board_stdlib \<Rightarrow> point list \<Rightarrow> point list option" where
  "orderCorners bs quad =
     (if length quad \<noteq> 4 then None
      else let idxMinSum = first_min sum_less quad; idxMinDiff = first_min diff_less quad;
               idxMaxSum = first_max sum_less quad; idxMaxDiff = first_max diff_less quad
           in if distinct [idxMinSum, idxMinDiff, idxMaxSum, idxMaxDiff]
              then Some [quad ! idxMinSum, quad ! idxMinDiff, quad ! idxMaxSum, quad ! idxMaxDiff]
              else corners_by_rows bs quad)"

text \<open>Arithmetic of \<open>cv::Point2f\<close>.\<close>

definition pt_sub :: "point \<Rightarrow> point \<Rightarrow> point" where "pt_sub p q = (f_sub (fst p) (fst q), f_sub (snd p) (snd q))"

definition pt_add :: "point \<Rightarrow> point \<Rightarrow> point" where "pt_add p q = (f_add (fst p) (fst q), f_add (snd p) (snd q))"

definition pt_dot :: "point \<Rightarrow> point \<Rightarrow> double" where "pt_dot v w = f_add (f_mul (fst v) (fst w)) (f_mul (snd v) (snd w))"

definition cornerCosine :: "'i board_opencv \<Rightarrow> point \<Rightarrow> point \<Rightarrow> point \<Rightarrow> double" where
  "cornerCosine cv p0 p1 p2 =
     (let v1 = pt_sub p0 p1; v2 = pt_sub p2 p1; norm1 = wc_norm (bo_cv cv) v1; norm2 = wc_norm (bo_cv cv) v2
      in if d_le norm1 (lit (1 / 10 ^ 6)) \<or> d_le norm2 (lit (1 / 10 ^ 6)) then Fin 1
         else d_abs (d_div (pt_dot v1 v2) (d_mul norm1 norm2)))"

definition parallelCosine :: "'i board_opencv \<Rightarrow> point \<Rightarrow> point \<Rightarrow> double" where
  "parallelCosine cv v0 v1 =
     (let norm0 = wc_norm (bo_cv cv) v0; norm1 = wc_norm (bo_cv cv) v1
      in if d_le norm0 (lit (1 / 10 ^ 6)) \<or> d_le norm1 (lit (1 / 10 ^ 6)) then Fin 0
         else d_abs (d_div (pt_dot v0 v1) (d_mul norm0 norm1)))"

subsection \<open>Contours\<close>

record quad_candidate =
  qc_quad :: "point list"
  qc_fromApprox :: bool
  qc_contourArea :: double

definition epsFactors :: "double list" where
  "epsFactors = map lit [12 / 1000, 16 / 1000, 20 / 1000, 26 / 1000, 32 / 1000, 40 / 1000]"

text \<open>\<open>Some None\<close> when no factor gives a convex polygon of four corners.\<close>

fun try_eps :: "'i board_opencv \<Rightarrow> board_stdlib \<Rightarrow> contour \<Rightarrow> double \<Rightarrow> double list \<Rightarrow> point list option option" where
  "try_eps cv bs cont perimeter [] = Some None"
| "try_eps cv bs cont perimeter (epsFactor # es) =
     do {
       polygon \<leftarrow> bo_approxPolyDP cv cont (d_mul epsFactor perimeter);
       if length polygon = 4 \<and> bo_isContourConvex cv polygon
       then map_option Some (orderCorners bs (map (\<lambda>(x, y). (f_int x, f_int y)) polygon))
       else try_eps cv bs cont perimeter es
     }"

definition contourToApproxQuad :: "'i board_opencv \<Rightarrow> board_stdlib \<Rightarrow> contour \<Rightarrow> point list option option" where
  "contourToApproxQuad cv bs cont = try_eps cv bs cont (bo_arcLength cv cont) epsFactors"

definition contourToQuad :: "'i board_opencv \<Rightarrow> board_stdlib \<Rightarrow> contour \<Rightarrow> quad_candidate option" where
  "contourToQuad cv bs cont =
     (let contourArea = d_abs (bo_contourArea cv cont)
      in do {
           approx \<leftarrow> contourToApproxQuad cv bs cont;
           case approx of
             Some approxQuad \<Rightarrow> Some \<lparr>qc_quad = approxQuad, qc_fromApprox = True, qc_contourArea = contourArea\<rparr>
           | None \<Rightarrow>
               let (a, b, c, d) = bo_minAreaRect cv cont
               in map_option (\<lambda>quad. \<lparr>qc_quad = quad, qc_fromApprox = False, qc_contourArea = contourArea\<rparr>)
                    (orderCorners bs [a, b, c, d])
         })"

subsection \<open>The lines within a candidate\<close>

record grid_evidence =
  ge_score :: double
  ge_verticalCount :: int
  ge_horizontalCount :: int

definition no_evidence :: grid_evidence where
  "no_evidence = \<lparr>ge_score = Fin 0, ge_verticalCount = 0, ge_horizontalCount = 0\<rparr>"

definition boardLineCountScore :: "int \<Rightarrow> double" where
  "boardLineCountScore n =
     (let best = min \<bar>n - 9\<bar> (min \<bar>n - 13\<bar> \<bar>n - 19\<bar>)
      in d_clamp (d_sub (Fin 1) (d_div (d_int best) (Fin 8))) (Fin 0) (Fin 1))"

text \<open>The angle of a segment in \<open>double\<close>, brought into the range from -90 to 90.\<close>

partial_function (option) angle64_up :: "double \<Rightarrow> double option" where
  "angle64_up angle = (if d_less angle (Fin (-90)) then angle64_up (d_add angle (Fin 180)) else Some angle)"

partial_function (option) angle64_down :: "double \<Rightarrow> double option" where
  "angle64_down angle = (if d_less (Fin 90) angle then angle64_down (d_sub angle (Fin 180)) else Some angle)"

definition segment_angle64 :: "libm \<Rightarrow> segment \<Rightarrow> double option" where
  "segment_angle64 lm l =
     (let (x0, y0, x1, y1) = l
      in do {
           dx \<leftarrow> int32 (x1 - x0);
           dy \<leftarrow> int32 (y1 - y0);
           a \<leftarrow> angle64_up (d_div (d_mul (libm_atan2 lm (d_int dy) (d_int dx)) (Fin 180)) d_pi);
           angle64_down a
         })"

text \<open>The positions and lengths of the vertical and of the horizontal segments.\<close>

definition add_line :: "libm \<Rightarrow> segment \<Rightarrow> line1d list \<times> line1d list \<Rightarrow> (line1d list \<times> line1d list) option" where
  "add_line lm l st =
     do {
       angle \<leftarrow> segment_angle64 lm l;
       let (vertical, horizontal) = st;
       if d_less (d_abs angle) (Fin 15) then do { h \<leftarrow> horizontal_line l; Some (vertical, horizontal @ [h]) }
       else if d_less (Fin 75) (d_abs angle) then do { v \<leftarrow> vertical_line l; Some (vertical @ [v], horizontal) }
       else Some (vertical, horizontal)
     }"

text \<open>The score of the lines found.\<close>

definition evidence_of_lines :: "nat \<Rightarrow> nat \<Rightarrow> nat \<Rightarrow> nat \<Rightarrow> grid_evidence" where
  "evidence_of_lines verticals horizontals vCenters hCenters =
     (let fitV = boardLineCountScore (int vCenters);
          fitH = boardLineCountScore (int hCenters);
          pairFit = d_sqrt (d_mul fitV fitH);
          balance = d_clamp (d_sub (Fin 1) (d_div (d_int \<bar>int vCenters - int hCenters\<bar>) (Fin 12))) (Fin 0) (Fin 1);
          segmentSupport = d_clamp (d_div (d_add (d_int (int verticals)) (d_int (int horizontals))) (Fin 220)) (Fin 0) (Fin 1)
      in \<lparr>ge_score = d_add (d_add (d_mul (Fin 2) pairFit) (d_mul (lit (8 / 10)) balance)) (d_mul (lit (4 / 10)) segmentSupport),
          ge_verticalCount = int vCenters, ge_horizontalCount = int hCenters\<rparr>)"

definition warp_dst :: "point list" where
  "warp_dst = (let e = f_sub (f_int WARP_OUT_SIZE) (Fin 1) in [(Fin 0, Fin 0), (e, Fin 0), (e, e), (Fin 0, e)])"

definition evaluateGridEvidence :: "'i board_opencv \<Rightarrow> board_stdlib \<Rightarrow> libm \<Rightarrow> 'i \<Rightarrow> point list \<Rightarrow> grid_evidence option" where
  "evaluateGridEvidence cv bs lm img quad =
     (let wc = bo_cv cv
      in if wc_empty wc img \<or> length quad \<noteq> 4 then Some no_evidence
         else do {
           H \<leftarrow> wc_getPerspectiveTransform wc quad warp_dst;
           warped \<leftarrow> wc_warpPerspective wc img H WARP_OUT_SIZE;
           if wc_empty wc warped then Some no_evidence
           else do {
             converted \<leftarrow> convertToGray cv warped;
             case converted of
               None \<Rightarrow> Some no_evidence
             | Some gray \<Rightarrow> do {
                 blur \<leftarrow> wc_GaussianBlur wc gray 9 (lit (15 / 10));
                 canny \<leftarrow> wc_Canny wc blur (Fin 50) (Fin 120);
                 edges \<leftarrow> wc_dilate wc canny;
                 lines \<leftarrow> wc_HoughLinesP wc edges (Fin 1) (d_div d_pi (Fin 180)) 80 (Fin 100) (Fin 20);
                 if lines = [] then Some no_evidence
                 else do {
                   (vertical, horizontal) \<leftarrow> loopM (add_line lm) lines ([], []);
                   vCenters \<leftarrow> clusterWeighted1D (bs_stdlib bs) vertical (Fin 15);
                   hCenters \<leftarrow> clusterWeighted1D (bs_stdlib bs) horizontal (Fin 15);
                   Some (evidence_of_lines (length vertical) (length horizontal) (length vCenters) (length hCenters))
                 }
               }
           }
         })"

subsection \<open>What can be a board\<close>

definition side :: "'i board_opencv \<Rightarrow> point list \<Rightarrow> nat \<Rightarrow> nat \<Rightarrow> double" where
  "side cv quad i j = wc_norm (bo_cv cv) (pt_sub (quad ! i) (quad ! j))"

definition ratio :: "double \<Rightarrow> double \<Rightarrow> double" where "ratio a b = d_div (d_min a b) (d_max a b)"

text \<open>The greatest cosine of the four corners.\<close>

definition max_cosine :: "'i board_opencv \<Rightarrow> point list \<Rightarrow> double" where
  "max_cosine cv quad =
     (let c0 = cornerCosine cv (quad ! 3) (quad ! 0) (quad ! 1);
          c1 = cornerCosine cv (quad ! 0) (quad ! 1) (quad ! 2);
          c2 = cornerCosine cv (quad ! 1) (quad ! 2) (quad ! 3);
          c3 = cornerCosine cv (quad ! 2) (quad ! 3) (quad ! 0)
      in d_max_element c0 [c1, c2, c3])"

definition near_border :: "image_size \<Rightarrow> double \<Rightarrow> point \<Rightarrow> bool" where
  "near_border imageSize borderTol p \<longleftrightarrow>
     d_le (fst p) borderTol \<or> d_le (snd p) borderTol \<or>
     d_le (d_sub (d_int (fst imageSize - 1)) borderTol) (fst p) \<or> d_le (d_sub (d_int (snd imageSize - 1)) borderTol) (snd p)"

definition isPlausibleBoardQuad :: "'i board_opencv \<Rightarrow> point list \<Rightarrow> image_size \<Rightarrow> bool" where
  "isPlausibleBoardQuad cv quad imageSize =
     (if length quad \<noteq> 4 then False
      else
        let imageArea = d_mul (d_int (fst imageSize)) (d_int (snd imageSize));
            area = d_abs (bo_quadArea cv quad);
            top = side cv quad 1 0; right = side cv quad 2 1; bottom = side cv quad 2 3; left = side cv quad 3 0;
            minLen = d_min_element top [right, bottom, left];
            minDim = d_int (min (fst imageSize) (snd imageSize));
            widthEstimate = d_mul (lit (1 / 2)) (d_add top bottom);
            heightEstimate = d_mul (lit (1 / 2)) (d_add left right);
            parallelTopBottom = parallelCosine cv (pt_sub (quad ! 1) (quad ! 0)) (pt_sub (quad ! 2) (quad ! 3));
            parallelLeftRight = parallelCosine cv (pt_sub (quad ! 2) (quad ! 1)) (pt_sub (quad ! 3) (quad ! 0));
            borderTol = d_max (Fin 4) (d_mul (lit (1 / 100)) minDim)
        in if d_less area (d_mul MIN_CONTOUR_AREA_FRAC imageArea) then False
           else if d_less (d_mul (lit (75 / 100)) imageArea) area then False
           else if d_less minLen (d_mul (lit (5 / 100)) minDim) then False
           else if d_less (ratio widthEstimate heightEstimate) (lit (25 / 100)) then False
           else if d_less (ratio top bottom) (lit (20 / 100)) \<or> d_less (ratio left right) (lit (20 / 100)) then False
           else if d_less parallelTopBottom (lit (45 / 100)) \<or> d_less parallelLeftRight (lit (45 / 100)) then False
           else if d_less (lit (995 / 1000)) (max_cosine cv quad) then False
           else if length (filter (near_border imageSize borderTol) quad) \<ge> 4 then False
           else True)"

definition boardQuadScore :: "'i board_opencv \<Rightarrow> point list \<Rightarrow> image_size \<Rightarrow> bool \<Rightarrow> double" where
  "boardQuadScore cv quad imageSize fromApprox =
     (let width = fst imageSize; height = snd imageSize;
          imageArea = d_mul (d_int width) (d_int height);
          areaFrac = d_div (d_abs (bo_quadArea cv quad)) imageArea;
          top = side cv quad 1 0; right = side cv quad 2 1; bottom = side cv quad 2 3; left = side cv quad 3 0;
          widthEstimate = d_mul (lit (1 / 2)) (d_add top bottom);
          heightEstimate = d_mul (lit (1 / 2)) (d_add left right);
          squareness = ratio widthEstimate heightEstimate;
          edgeBalance = d_mul (ratio top bottom) (ratio left right);
          parallelScore = d_mul (lit (1 / 2)) (d_add (parallelCosine cv (pt_sub (quad ! 1) (quad ! 0)) (pt_sub (quad ! 2) (quad ! 3)))
            (parallelCosine cv (pt_sub (quad ! 2) (quad ! 1)) (pt_sub (quad ! 3) (quad ! 0))));
          rightness = d_sub (Fin 1) (max_cosine cv quad);
          total = pt_add (pt_add (pt_add (quad ! 0) (quad ! 1)) (quad ! 2)) (quad ! 3);
          center = (f_mul (flit (1 / 4)) (fst total), f_mul (flit (1 / 4)) (snd total));
          imageCenter = (f_mul (flit (1 / 2)) (f_int (width - 1)), f_mul (flit (1 / 2)) (f_int (height - 1)));
          centerDist = wc_norm (bo_cv cv) (pt_sub center imageCenter);
          diag = d_sqrt (d_add (d_mul (d_int width) (d_int width)) (d_mul (d_int height) (d_int height)));
          centerScore = d_clamp (d_sub (Fin 1) (d_div centerDist (d_mul (lit (60 / 100)) diag))) (Fin 0) (Fin 1);
          approxBonus = (if fromApprox then lit (15 / 100) else Fin 0)
      in foldl d_add (d_mul (lit (12 / 10)) areaFrac)
           [d_mul (lit (13 / 10)) squareness, d_mul (lit (12 / 10)) edgeBalance, d_mul (lit (11 / 10)) parallelScore,
            d_mul (lit (6 / 10)) rightness, d_mul (lit (8 / 10)) centerScore, approxBonus])"

subsection \<open>The best candidate\<close>

text \<open>The candidate of a contour; \<open>Some None\<close> when the code skips it.\<close>

definition candidate_of :: "'i board_opencv \<Rightarrow> board_stdlib \<Rightarrow> contour list \<Rightarrow> image_size \<Rightarrow> nat \<Rightarrow> board_candidate option option" where
  "candidate_of cv bs contours imageSize contourIdx =
     do {
       cont \<leftarrow> vec_at contours contourIdx;
       q \<leftarrow> contourToQuad cv bs cont;
       let candidateA = d_abs (bo_quadArea cv (qc_quad q));
       if \<not> isPlausibleBoardQuad cv (qc_quad q) imageSize then Some None
       else
         let quadArea = d_max (Fin 1) candidateA;
             rectFill = d_div (qc_contourArea q) quadArea
         in if \<not> qc_fromApprox q \<and> d_less rectFill (lit (8 / 100)) then Some None
            else
              let score = d_add (d_add (boardQuadScore cv (qc_quad q) imageSize (qc_fromApprox q))
                            (if qc_fromApprox q then lit (45 / 100) else Fin 0)) (d_mul (lit (90 / 100)) rectFill)
              in Some (Some \<lparr>bc_quad = qc_quad q, bc_contourIdx = contourIdx, bc_score = score, bc_area = candidateA,
                            bc_verticalCount = 0, bc_horizontalCount = 0\<rparr>)
     }"

definition REFINED_CANDIDATES :: nat where "REFINED_CANDIDATES = 6"

definition GRID_SCORE_W :: double where "GRID_SCORE_W = lit (125 / 100)"

definition refine :: "'i board_opencv \<Rightarrow> board_stdlib \<Rightarrow> libm \<Rightarrow> 'i \<Rightarrow> board_candidate \<Rightarrow> board_candidate \<times> double \<Rightarrow>
    (board_candidate \<times> double) option" where
  "refine cv bs lm img candidate st =
     do {
       evidence \<leftarrow> evaluateGridEvidence cv bs lm img (bc_quad candidate);
       let current = candidate\<lparr>bc_verticalCount := ge_verticalCount evidence, bc_horizontalCount := ge_horizontalCount evidence\<rparr>;
       let finalScore = d_add (bc_score current) (d_mul GRID_SCORE_W (ge_score evidence));
       Some (if d_less (snd st) finalScore then (current\<lparr>bc_score := finalScore\<rparr>, finalScore) else st)
     }"

definition selectBestBoardCandidate :: "'i board_opencv \<Rightarrow> board_stdlib \<Rightarrow> libm \<Rightarrow> contour list \<Rightarrow> 'i \<Rightarrow> board_candidate option option" where
  "selectBestBoardCandidate cv bs lm contours img =
     (if contours = [] then Some None
      else
        let area = (\<lambda>i. d_abs (bo_contourArea cv (contours ! i)))
        in if NaN \<in> area ` {..<length contours} then None
           else do {
             let sortedIndices = bs_sort_indices bs area [0..<length contours];
             found \<leftarrow> those (map (candidate_of cv bs contours (bo_size cv img)) (take MAX_CANDIDATE_CONTOURS sortedIndices));
             let candidates = List.map_filter id found;
             if candidates = [] then Some None
             else if NaN \<in> bc_score ` set candidates then None
             else do {
               let ranked = bs_sort_candidates bs candidates;
               front \<leftarrow> vec_at ranked 0;
               (best, bestFinalScore) \<leftarrow> loopM (refine cv bs lm img) (take REFINED_CANDIDATES ranked) (front, MInf);
               Some (Some best)
             }
           })"

subsection \<open>The whole\<close>

text \<open>\<open>outMerged\<close>; the second list is only drawn.\<close>

definition appendContours :: "'i board_opencv \<Rightarrow> 'i \<Rightarrow> contour list \<Rightarrow> contour list option" where
  "appendContours cv binaryMask outMerged =
     do {
       externalContours \<leftarrow> bo_findContours cv binaryMask RETR_EXTERNAL;
       allContours \<leftarrow> bo_findContours cv binaryMask RETR_TREE;
       Some (outMerged @ externalContours @ allContours)
     }"

text \<open>\<open>Some None\<close> is the empty result of \<open>fail\<close>.\<close>

definition warpToBoard :: "'i board_opencv \<Rightarrow> board_stdlib \<Rightarrow> libm \<Rightarrow> 'i \<Rightarrow> 'i warp_result option option" where
  "warpToBoard cv bs lm img =
     (let wc = bo_cv cv
      in if wc_empty wc img then Some None
         else do {
           converted \<leftarrow> convertToGray cv img;
           case converted of
             None \<Rightarrow> Some None
           | Some gray \<Rightarrow> do {
               let settings = choosePreprocessSettings (bo_size cv img);
               blurred \<leftarrow> wc_GaussianBlur wc gray (ps_blurKernelSize settings) (lit (15 / 10));
               (edgeMask, brightMask, darkMask) \<leftarrow> buildCandidateMasks cv blurred settings;
               edgeContours \<leftarrow> appendContours cv edgeMask [];
               brightContours \<leftarrow> appendContours cv brightMask edgeContours;
               contours \<leftarrow> appendContours cv darkMask brightContours;
               if contours = [] then Some None
               else do {
                 bestCandidate \<leftarrow> selectBestBoardCandidate cv bs lm contours img;
                 case bestCandidate of
                   None \<Rightarrow> Some None
                 | Some best \<Rightarrow> do {
                     H \<leftarrow> wc_getPerspectiveTransform wc (bc_quad best) warp_dst;
                     warped \<leftarrow> wc_warpPerspective wc img H WARP_OUT_SIZE;
                     Some (Some \<lparr>wr_image = warped, wr_H = H\<rparr>)
                   }
               }
             }
         })"

end
