(* ===== verification/Line_Clusters.thy ===== *)
theory Line_Clusters imports Rectifier Grid_Search begin

text \<open>
  The clusters of \<open>clusterWeighted1D\<close> for lines of an image of at most \<open>2 ^ 15\<close> pixels a side, with weights of at least
  64: the centre of a cluster lies within it, up to the rounding of its sums, so that the centres come out in order.
  There can be as many lines as a vector of OpenCV holds, fewer than \<open>2 ^ 31\<close>, so the rounding is bounded relative to
  the sums.
\<close>

subsection \<open>Clusters\<close>

lemma binade:
  fixes z :: rat
  assumes "1 \<le> z" "z < 2 ^ n"
  shows "\<exists>e < n. 2 ^ e \<le> z \<and> z < 2 ^ Suc e"
  using assms(2)
proof (induction n)
  case 0
  with assms(1) show ?case by simp
next
  case (Suc n)
  then show ?case
  proof (cases "z < 2 ^ n")
    case True
    with Suc.IH show ?thesis by (meson less_Suc_eq)
  qed (use Suc.prems in \<open>auto simp: not_less\<close>)
qed

lemma round64_relative:
  assumes "0 \<le> z" "z < 2 ^ 80"
  shows "\<exists>y. round64 z = Fin y \<and> \<bar>y - z\<bar> \<le> z / 2 ^ 53 + 1 / 2 ^ 54"
proof (cases "1 \<le> z")
  case True
  from binade [OF True assms(2)] obtain e where e: "e < 80" "2 ^ e \<le> z" "z < 2 ^ Suc e" by blast
  then have "\<bar>z\<bar> < pow2 (int (Suc e))" using assms(1) by (simp only: power_int_of_nat abs_of_nonneg)
  from round64_error [OF this] e(1) obtain y where y: "round64 z = Fin y" "\<bar>y - z\<bar> \<le> pow2 (int (Suc e) - 54)" by auto
  have "int (Suc e) - 54 = int e + (- 53)" by simp
  then have "pow2 (int (Suc e) - 54) = pow2 (int e) * pow2 (- 53)" by (simp only: pow2_add)
  also have "\<dots> = 2 ^ e / 2 ^ 53" by (simp add: power_int_minus)
  also have "\<dots> \<le> z / 2 ^ 53" using e(2) by (simp add: divide_right_mono)
  finally have "\<bar>y - z\<bar> \<le> z / 2 ^ 53" using y(2) by linarith
  then have "\<bar>y - z\<bar> \<le> z / 2 ^ 53 + 1 / 2 ^ 54" by (rule order_trans) simp
  with y(1) show ?thesis by blast
next
  case False
  then have "\<bar>z\<bar> < pow2 0" using assms(1) by simp
  from round64_error [OF this] obtain y where y: "round64 z = Fin y" "\<bar>y - z\<bar> \<le> pow2 (- 54)" by auto
  have "pow2 (- 54) \<le> z / 2 ^ 53 + 1 / 2 ^ 54" using assms(1) by (simp add: power_int_minus)
  with y show ?thesis by (meson order_trans)
qed

text \<open>The sums of a cluster of \<open>k\<close> lines between \<open>lo\<close> and \<open>hi\<close>: the position is within the cluster, up to rounding.\<close>

definition cluster_sums :: "rat \<Rightarrow> rat \<Rightarrow> nat \<Rightarrow> double \<Rightarrow> double \<Rightarrow> bool" where
  "cluster_sums lo hi k wSum pSum \<longleftrightarrow>
     (\<exists>w p. wSum = Fin w \<and> pSum = Fin p \<and> 64 \<le> w \<and> of_nat k \<le> w \<and> w \<le> of_nat k * 2 ^ 17 \<and> 0 \<le> p \<and>
        lo * w - of_nat k * (w / 2 ^ 34 + 1 / 2 ^ 9) \<le> p \<and> p \<le> hi * w + of_nat k * (w / 2 ^ 34 + 1 / 2 ^ 9))"

lemma mul_error:
  assumes "0 \<le> x" "x \<le> 2 ^ 15" "64 \<le> t" "t \<le> 2 ^ 17"
  shows "\<exists>m. d_mul (Fin x) (Fin t) = Fin m \<and> 0 \<le> m \<and> m \<le> x * t + 1 / 4096 \<and> x * t - 1 / 4096 \<le> m"
proof -
  have b: "x * t \<le> 2 ^ 15 * 2 ^ 17" using assms by (intro mult_mono) simp_all
  have p: "0 \<le> x * t" using assms by simp
  have "\<bar>x * t\<bar> < pow2 34" using b p by simp
  from round64_error [OF this] obtain m where m: "round64 (x * t) = Fin m" "\<bar>m - x * t\<bar> \<le> pow2 (- 20)" by auto
  have "pow2 (- 20) \<le> 1 / 4096" by (simp add: power_int_minus)
  with m(2) have "m \<le> x * t + 1 / 4096" "x * t - 1 / 4096 \<le> m" by linarith+
  moreover have "d_in (round64 (x * t)) 0 (2 ^ 60)" using b p by (intro round64_in) simp_all
  ultimately show ?thesis using m(1) by simp
qed

lemma cluster_first:
  assumes "0 \<le> x" "x \<le> 2 ^ 15" "64 \<le> t" "t \<le> 2 ^ 17"
  shows "cluster_sums x x 1 (Fin t) (d_mul (Fin x) (Fin t))"
proof -
  obtain m where m: "d_mul (Fin x) (Fin t) = Fin m" "0 \<le> m" "m \<le> x * t + 1 / 4096" "x * t - 1 / 4096 \<le> m"
    using mul_error [OF assms] by blast
  have "1 / 4096 \<le> t / 2 ^ 34 + 1 / 2 ^ 9" using assms(3) by simp
  then have "x * t - (t / 2 ^ 34 + 1 / 2 ^ 9) \<le> m" "m \<le> x * t + (t / 2 ^ 34 + 1 / 2 ^ 9)" using m(3,4) by linarith+
  with m(1,2) assms(3,4) show ?thesis unfolding cluster_sums_def by (intro exI [of _ t] exI [of _ m]) simp
qed

text \<open>The sum of the weights: it grows, and its rounding is small.\<close>

lemma weight_sum:
  assumes "64 \<le> w" "of_nat k \<le> w" "w \<le> of_nat k * 2 ^ 17" "64 \<le> t" "t \<le> 2 ^ 17" "k < 2 ^ 31"
  shows "\<exists>w'. d_add (Fin w) (Fin t) = Fin w' \<and> 64 \<le> w' \<and> of_nat (Suc k) \<le> w' \<and> w' \<le> of_nat (Suc k) * 2 ^ 17 \<and>
    w \<le> w' \<and> w + t \<le> 2 * w' \<and> \<bar>w' - (w + t)\<bar> \<le> (w + t) / 2 ^ 52 \<and> w + t \<le> 2 ^ 48"
proof -
  have k: "of_nat (Suc k) \<le> (2 ^ 31 :: rat)" using assms(6) of_nat_le_iff [of "Suc k" "2 ^ 31", where ?'a = rat] by simp
  have wt: "w + t \<le> of_nat (Suc k) * 2 ^ 17" using assms(3,5) by (simp add: distrib_right)
  also have "\<dots> \<le> 2 ^ 31 * 2 ^ 17" using k by (intro mult_right_mono) simp_all
  finally have b: "w + t \<le> 2 ^ 48" by simp
  from round64_relative [of "w + t"] b assms(1,4) obtain w' where
    w': "round64 (w + t) = Fin w'" "\<bar>w' - (w + t)\<bar> \<le> (w + t) / 2 ^ 53 + 1 / 2 ^ 54" by auto
  have "(w + t) / 2 ^ 53 + 1 / 2 ^ 54 \<le> (w + t) / 2 ^ 52" using assms(1,4) by (simp add: field_simps)
  with w'(2) have e: "\<bar>w' - (w + t)\<bar> \<le> (w + t) / 2 ^ 52" by (rule order_trans)
  moreover have "(w + t) / 2 ^ 52 \<le> 1" using b by simp
  ultimately have "w + 63 \<le> w'" "w + t \<le> w' + 1" using assms(4) by linarith+
  moreover have "fl64_num (of_int (int (Suc k)) * pow2 17)" using assms(6) by (intro fl64_num_scaled) simp_all
  then have "d_in (round64 (w + t)) 0 (of_nat (Suc k) * 2 ^ 17)" using wt assms(1,4) by (intro round64_in) simp_all
  ultimately show ?thesis using w'(1) e b assms(1,2) by (intro exI [of _ w']) simp
qed

lemma cluster_next:
  assumes c: "cluster_sums lo hi k wSum pSum" and "0 \<le> lo" "lo \<le> hi" "hi \<le> x" "x \<le> 2 ^ 15" "64 \<le> t" "t \<le> 2 ^ 17" "k < 2 ^ 31"
  shows "cluster_sums lo x (Suc k) (d_add wSum (Fin t)) (d_add pSum (d_mul (Fin x) (Fin t)))"
proof -
  obtain w p where wp: "wSum = Fin w" "pSum = Fin p" "64 \<le> w" "of_nat k \<le> w" "w \<le> of_nat k * 2 ^ 17" "0 \<le> p"
    "lo * w - of_nat k * (w / 2 ^ 34 + 1 / 2 ^ 9) \<le> p" "p \<le> hi * w + of_nat k * (w / 2 ^ 34 + 1 / 2 ^ 9)"
    using c by (auto simp: cluster_sums_def)
  have x0: "0 \<le> x" using assms by linarith
  obtain m where m: "d_mul (Fin x) (Fin t) = Fin m" "0 \<le> m" "m \<le> x * t + 1 / 4096" "x * t - 1 / 4096 \<le> m"
    using mul_error [OF x0 assms(5-7)] by blast
  obtain w' where w': "d_add (Fin w) (Fin t) = Fin w'" "64 \<le> w'" "of_nat (Suc k) \<le> w'" "w' \<le> of_nat (Suc k) * 2 ^ 17"
    "w \<le> w'" "w + t \<le> 2 * w'" "\<bar>w' - (w + t)\<bar> \<le> (w + t) / 2 ^ 52" "w + t \<le> 2 ^ 48"
    using weight_sum [OF wp(3-5) assms(6-8)] by blast
  define D err where "D = w + t" and "err = of_nat k * (w / 2 ^ 34 + 1 / 2 ^ 9)"
  have k31: "of_nat k \<le> (2 ^ 31 :: rat)" using assms(8) of_nat_le_iff [of k "2 ^ 31", where ?'a = rat] by simp
  have err: "err = of_nat k * w / 17179869184 + of_nat k / 512" by (simp add: err_def distrib_left)
  have "of_nat k * w \<le> 2147483648 * w" using k31 wp(3) by (intro mult_right_mono) simp_all
  then have errD: "err \<le> D" using wp(3,4) assms(6) unfolding err D_def by linarith
  have le: "lo * w \<le> x * w" "hi * w \<le> x * w" "lo * t \<le> x * t" using assms wp(3) by (auto intro!: mult_right_mono)
  have D: "lo * D = lo * w + lo * t" "x * D = x * w + x * t" by (simp_all add: D_def distrib_left)
  have "x * D \<le> 32768 * D" using assms wp(3) by (intro mult_right_mono) (simp_all add: D_def)
  moreover have "lo * w - err \<le> p" "p \<le> hi * w + err" "1 \<le> D" using wp(3,7,8) assms(6) by (simp_all add: err_def D_def)
  ultimately have P: "lo * D - err - 1 / 4096 \<le> p + m" "p + m \<le> x * D + err + 1 / 4096" "p + m \<le> 32770 * D"
    using le D m(3,4) errD by linarith+
  from round64_relative [of "p + m"] P(3) wp(6) m(2) w'(8) obtain p' where
    p': "round64 (p + m) = Fin p'" "\<bar>p' - (p + m)\<bar> \<le> (p + m) / 2 ^ 53 + 1 / 2 ^ 54" by (auto simp: D_def)
  have "d_in (round64 (p + m)) 0 (2 ^ 80)" using P(3) wp(6) m(2) w'(8)
    by (intro round64_in fl64_num_power) (simp_all add: D_def)
  then have p0: "0 \<le> p'" using p'(1) by simp
  have "64 \<le> D" using wp(3) assms(6) by (simp add: D_def)
  then have "32770 * D / 2 ^ 53 + 1 / 2 ^ 54 \<le> D / 2 ^ 37" by (simp add: field_simps)
  moreover have "(p + m) / 2 ^ 53 \<le> 32770 * D / 2 ^ 53" using P(3) by (intro divide_right_mono) simp_all
  ultimately have "(p + m) / 2 ^ 53 + 1 / 2 ^ 54 \<le> D / 2 ^ 37" by (meson add_right_mono order_trans)
  with p'(2) have e: "\<bar>p' - (p + m)\<bar> \<le> D / 2 ^ 37" by linarith
  have scale: "y * \<bar>w' - D\<bar> \<le> D / 2 ^ 37" if "0 \<le> y" "y \<le> 2 ^ 15" for y
  proof -
    have "y * \<bar>w' - D\<bar> \<le> 2 ^ 15 * (D / 2 ^ 52)" using that w'(7) by (intro mult_mono) (simp_all add: D_def)
    then show ?thesis by simp
  qed
  have "lo * (w' - D) \<le> lo * \<bar>w' - D\<bar>" using assms(2) by (intro mult_left_mono) simp_all
  moreover have "x * (D - w') \<le> x * \<bar>w' - D\<bar>" using x0 by (intro mult_left_mono) simp_all
  ultimately have s: "lo * w' \<le> lo * D + D / 2 ^ 37" "x * D \<le> x * w' + D / 2 ^ 37"
    using scale [of lo] scale [of x] assms(2-5) x0 by (simp_all add: right_diff_distrib)
  have kw: "of_nat k * w \<le> of_nat k * w'" using w'(5) by (intro mult_left_mono) simp_all
  have "err + 1 / 4096 + D / 68719476736 \<le> of_nat k * w' / 17179869184 + w' / 17179869184 + of_nat k / 512 + 1 / 512"
  proof -
    have "a / 17179869184 + n / 512 + 1 / 4096 + d / 68719476736 \<le> b / 17179869184 + y / 17179869184 + n / 512 + 1 / 512"
      if "a \<le> b" "64 \<le> y" "d \<le> 2 * y" for a b d n y :: rat using that by linarith
    from this [OF kw w'(2,6)] show ?thesis by (simp only: err D_def)
  qed
  then have g: "err + 1 / 4096 + 2 * (D / 2 ^ 37) \<le> of_nat (Suc k) * (w' / 2 ^ 34 + 1 / 2 ^ 9)"
    by (simp add: algebra_simps add_divide_distrib)
  have "lo * w' - of_nat (Suc k) * (w' / 2 ^ 34 + 1 / 2 ^ 9) \<le> p'" "p' \<le> x * w' + of_nat (Suc k) * (w' / 2 ^ 34 + 1 / 2 ^ 9)"
    using P(1,2) e s g by linarith+
  with wp(1,2) m(1) w' p'(1) p0 show ?thesis unfolding cluster_sums_def
    by (intro exI [of _ w'] exI [of _ p']) simp
qed

lemma cluster_centre:
  assumes "cluster_sums lo hi k wSum pSum" "0 \<le> lo" "lo \<le> hi" "hi \<le> 2 ^ 15" "k \<le> 2 ^ 31"
  shows "\<exists>c. d_div pSum wSum = Fin c \<and> 0 \<le> c \<and> lo - 3 \<le> c \<and> c \<le> hi + 3"
proof -
  obtain w p where wp: "wSum = Fin w" "pSum = Fin p" "64 \<le> w" "of_nat k \<le> w" "0 \<le> p"
    "lo * w - of_nat k * (w / 2 ^ 34 + 1 / 2 ^ 9) \<le> p" "p \<le> hi * w + of_nat k * (w / 2 ^ 34 + 1 / 2 ^ 9)"
    using assms(1) by (auto simp: cluster_sums_def)
  have "of_nat k \<le> (2 ^ 31 :: rat)" using assms(5) of_nat_le_iff [of k "2 ^ 31", where ?'a = rat] by simp
  then have kw: "of_nat k * w \<le> 2147483648 * w" using wp(3) by (intro mult_right_mono) simp_all
  have "of_nat k * (w / 2 ^ 34 + 1 / 2 ^ 9) = of_nat k * w / 17179869184 + of_nat k / 512" by (simp add: distrib_left)
  also have "\<dots> \<le> w" using kw wp(3,4) by linarith
  finally have "of_nat k * (w / 2 ^ 34 + 1 / 2 ^ 9) \<le> w" .
  then have "(lo - 2) * w \<le> p" "p \<le> (hi + 2) * w" using wp(3,6,7) by (simp_all add: algebra_simps)
  then have b: "lo - 2 \<le> p / w" "p / w \<le> hi + 2" "0 \<le> p / w" using wp(3,5) by (simp_all add: pos_le_divide_eq pos_divide_le_eq)
  then have "\<bar>p / w\<bar> < pow2 16" using assms(4) by simp
  from round64_error [OF this] obtain c where c: "round64 (p / w) = Fin c" "\<bar>c - p / w\<bar> \<le> pow2 (- 38)" by auto
  have "pow2 (- 38) \<le> 1" by (simp add: power_int_minus)
  with c(2) b have "lo - 3 \<le> c" "c \<le> hi + 3" by linarith+
  moreover have "d_in (round64 (p / w)) 0 (2 ^ 60)" using b assms(4) by (intro round64_in) simp_all
  ultimately show ?thesis using wp(1-3) c(1) by simp
qed

text \<open>What is relied on of the standard library.\<close>

definition stdlib_ok :: "stdlib \<Rightarrow> bool" where
  "stdlib_ok sl \<longleftrightarrow>
     (\<forall>ls. NaN \<notin> ln_pos ` set ls \<longrightarrow> mset (sl_sort sl ls) = mset ls \<and>
        sorted_wrt (\<lambda>a b. \<not> d_less (ln_pos b) (ln_pos a)) (sl_sort sl ls)) \<and>
     (\<forall>x y. isfinite x \<longrightarrow> isfinite y \<longrightarrow> d_in (sl_atan2f sl x y) (-4) 4)"

definition line_ok :: "line1d \<Rightarrow> bool" where
  "line_ok l \<longleftrightarrow> d_in (ln_pos l) 0 (2 ^ 15) \<and> d_in (ln_weight l) 64 (2 ^ 17)"

lemma line_okE:
  assumes "line_ok l"
  obtains x t where "ln_pos l = Fin x" "ln_weight l = Fin t" "0 \<le> x" "x \<le> 2 ^ 15" "64 \<le> t" "t \<le> 2 ^ 17"
  using assms by (auto simp: line_ok_def d_in_def)

lemma clusters_ok:
  assumes "cluster_sums lo hi k wSum pSum" "0 \<le> lo" "lo \<le> hi" "hi \<le> 2 ^ 15" "k + length vs \<le> 2 ^ 31"
    and "\<forall>v \<in> set vs. line_ok v" "sorted_wrt (\<lambda>a b. \<not> d_less (ln_pos b) (ln_pos a)) vs" "\<forall>v \<in> set vs. d_le (Fin hi) (ln_pos v)"
  shows "\<exists>cs. clusters (Fin 15) (Fin hi) wSum pSum vs = map Fin cs \<and> sorted cs \<and> 15 * of_nat (length cs) \<le> 32783 - hi \<and>
    (\<forall>c \<in> set cs. 0 \<le> c \<and> c \<le> 65536 \<and> lo - 3 \<le> c)"
  using assms
proof (induction vs arbitrary: lo hi k wSum pSum)
  case Nil
  from cluster_centre [OF Nil(1-4)] Nil(5) obtain c where
    "d_div pSum wSum = Fin c" "0 \<le> c" "lo - 3 \<le> c" "c \<le> hi + 3" by auto
  with Nil(4) show ?case by (intro exI [of _ "[c]"]) simp
next
  case (Cons v vs)
  have "line_ok v" using Cons.prems(6) by simp
  then obtain x t where v: "ln_pos v = Fin x" "ln_weight v = Fin t" "0 \<le> x" "x \<le> 2 ^ 15" "64 \<le> t" "t \<le> 2 ^ 17" by (rule line_okE)
  have hx: "hi \<le> x" using Cons.prems(8) v(1) by (auto simp: d_le_def)
  have next_le: "\<forall>u \<in> set vs. d_le (Fin x) (ln_pos u)"
  proof
    fix u assume u: "u \<in> set vs"
    then have "line_ok u" "\<not> d_less (ln_pos u) (Fin x)" using Cons.prems(6,7) v(1) by auto
    then show "d_le (Fin x) (ln_pos u)" by (auto elim!: line_okE simp: d_le_def)
  qed
  have rest: "k + 1 + length vs \<le> 2 ^ 31" "\<forall>u \<in> set vs. line_ok u" "sorted_wrt (\<lambda>a b. \<not> d_less (ln_pos b) (ln_pos a)) vs"
    using Cons.prems(5-7) by simp_all
  have d: "d_in (d_sub (Fin x) (Fin hi)) 0 65536" using hx v(4) Cons.prems(2,3) by (intro d_sub_in [of _ x x _ hi hi]) simp_all
  show ?case
  proof (cases "d_le (d_abs (d_sub (ln_pos v) (Fin hi))) (Fin 15)")
    case True
    have "cluster_sums lo x (Suc k) (d_add wSum (Fin t)) (d_add pSum (d_mul (Fin x) (Fin t)))"
      using rest(1) by (intro cluster_next [OF Cons.prems(1-3) hx v(4-6)]) simp
    from Cons.IH [OF this Cons.prems(2) _ v(4) _ rest(2,3) next_le] hx Cons.prems(3) rest(1) obtain cs where
      "clusters (Fin 15) (Fin x) (d_add wSum (Fin t)) (d_add pSum (d_mul (Fin x) (Fin t))) vs = map Fin cs"
      "sorted cs" "15 * of_nat (length cs) \<le> 32783 - x" "\<forall>c \<in> set cs. 0 \<le> c \<and> c \<le> 65536 \<and> lo - 3 \<le> c" by auto
    with True v(1,2) hx show ?thesis by (intro exI [of _ cs]) simp
  next
    case False
    have far: "15 < x - hi"
    proof (rule ccontr)
      assume "\<not> 15 < x - hi"
      then have "d_in (d_sub (Fin x) (Fin hi)) 0 15" using hx by (intro d_sub_in [of _ x x _ hi hi]) simp_all
      with False v(1) show False by (auto simp: d_in_def d_abs_def d_le_def)
    qed
    from cluster_centre [OF Cons.prems(1-4)] Cons.prems(5) obtain c where
      c: "d_div pSum wSum = Fin c" "0 \<le> c" "lo - 3 \<le> c" "c \<le> hi + 3" by auto
    from Cons.IH [OF cluster_first [OF v(3-6)] v(3) order_refl v(4) _ rest(2,3) next_le] rest(1) obtain cs where
      cs: "clusters (Fin 15) (Fin x) (Fin t) (d_mul (Fin x) (Fin t)) vs = map Fin cs"
      "sorted cs" "15 * of_nat (length cs) \<le> 32783 - x" "\<forall>c \<in> set cs. 0 \<le> c \<and> c \<le> 65536 \<and> x - 3 \<le> c" by auto
    have "\<forall>y \<in> set cs. c \<le> y \<and> lo - 3 \<le> y" using cs(4) c(4) far Cons.prems(3) by fastforce
    with False v(1,2) c cs far Cons.prems(4) show ?thesis by (intro exI [of _ "c # cs"]) auto
  qed
qed

lemma clusterWeighted1D_ok:
  assumes "stdlib_ok sl" "\<forall>l \<in> set ls. line_ok l" "length ls < 2 ^ 31"
  shows "\<exists>cs. clusterWeighted1D sl ls (Fin 15) = Some cs \<and> lines_ok cs"
proof (cases "ls = []")
  case True
  then show ?thesis by (simp add: clusterWeighted1D_def lines_ok_def)
next
  case False
  have "NaN \<notin> ln_pos ` set ls" using assms(2) by (auto elim!: line_okE)
  with assms(1) have s: "mset (sl_sort sl ls) = mset ls" "sorted_wrt (\<lambda>a b. \<not> d_less (ln_pos b) (ln_pos a)) (sl_sort sl ls)"
    by (auto simp: stdlib_ok_def)
  have set: "set (sl_sort sl ls) = set ls" "length (sl_sort sl ls) = length ls"
    using s(1) by (rule mset_eq_setD, rule mset_eq_length)
  with False obtain v vs where v: "sl_sort sl ls = v # vs" by (cases "sl_sort sl ls") auto
  then have "line_ok v" using set assms(2) by auto
  then obtain x t where l: "ln_pos v = Fin x" "ln_weight v = Fin t" "0 \<le> x" "x \<le> 2 ^ 15" "64 \<le> t" "t \<le> 2 ^ 17" by (rule line_okE)
  have ok: "\<forall>u \<in> set vs. line_ok u" using v set(1) assms(2) by auto
  have le: "\<forall>u \<in> set vs. d_le (Fin x) (ln_pos u)"
  proof
    fix u assume u: "u \<in> set vs"
    then have "line_ok u" "\<not> d_less (ln_pos u) (Fin x)" using ok s(2) v l(1) by auto
    then show "d_le (Fin x) (ln_pos u)" by (auto elim!: line_okE simp: d_le_def)
  qed
  have "1 + length vs \<le> 2 ^ 31" using v set(2) assms(3) by simp
  from clusters_ok [OF cluster_first [OF l(3-6)] l(3) order_refl l(4) this ok _ le] s(2) v obtain cs where cs:
    "clusters (Fin 15) (Fin x) (Fin t) (d_mul (Fin x) (Fin t)) vs = map Fin cs" "sorted cs" "15 * of_nat (length cs) \<le> 32783 - x"
    "\<forall>c \<in> set cs. 0 \<le> c \<and> c \<le> 65536 \<and> x - 3 \<le> c" by auto
  have "of_nat (length cs) \<le> (65536 :: rat)" using cs(3) l(3) by linarith
  then have "length cs \<le> 65536" using of_nat_le_iff [of "length cs" 65536, where ?'a = rat] by simp
  with cs False v l(1,2) \<open>NaN \<notin> ln_pos ` set ls\<close> show ?thesis
    by (auto simp: clusterWeighted1D_def lines_ok_def)
qed

end
