(* ===== verification/Rectifier_Bounds.thy ===== *)
theory Rectifier_Bounds imports Line_Clusters begin

text \<open>
  No step of the rectification faults: the angles of the segments come into range, the lines found are lines of an
  image (\<open>lines_ok\<close>), the grid is finite, and the geometry that is returned passes the assertions of the code.
\<close>

subsection \<open>Segments\<close>

text \<open>A segment of at least 100 pixels, the least length that the Hough transform is asked for.\<close>

definition segment_ok :: "segment \<Rightarrow> bool" where
  "segment_ok l \<longleftrightarrow>
     (let (x0, y0, x1, y1) = l
      in 0 \<le> x0 \<and> x0 \<le> 2 ^ 15 \<and> 0 \<le> y0 \<and> y0 \<le> 2 ^ 15 \<and> 0 \<le> x1 \<and> x1 \<le> 2 ^ 15 \<and> 0 \<le> y1 \<and> y1 \<le> 2 ^ 15 \<and>
         10000 \<le> (x1 - x0) * (x1 - x0) + (y1 - y0) * (y1 - y0))"

lemma angle_loops_ok:
  assumes "d_in x (- 240) 240"
  shows "\<exists>b. angle_up x = Some b \<and> d_in b (- 90) 240" "d_in x (- 90) 240 \<Longrightarrow> \<exists>b. angle_down x = Some b \<and> d_in b (- 90) 90"
proof -
  show "\<exists>b. angle_up x = Some b \<and> d_in b (- 90) 240"
  proof (cases "d_less x (Fin (- 90))")
    case True
    have "d_in x (- 240) (- 90)" using assms True by (auto simp: d_in_def)
    then have "d_in (f_add x (Fin 180)) (- 90) 90" by (intro f_add_in [of _ "- 240" "- 90" _ 180 180]) simp_all
    then show ?thesis using True by (auto simp: angle_up.simps [of x] angle_up.simps [of "f_add x (Fin 180)"] d_in_def)
  next
    case False
    with assms show ?thesis by (auto simp: angle_up.simps [of x] d_in_def)
  qed
  show "\<exists>b. angle_down x = Some b \<and> d_in b (- 90) 90" if x: "d_in x (- 90) 240"
  proof (cases "d_less (Fin 90) x")
    case True
    have "d_in x 90 240" using x True by (auto simp: d_in_def)
    then have "d_in (f_sub x (Fin 180)) (- 90) 90" by (intro f_sub_in [of _ 90 240 _ 180 180]) simp_all
    then show ?thesis using True by (auto simp: angle_down.simps [of x] angle_down.simps [of "f_sub x (Fin 180)"] d_in_def)
  next
    case False
    with x show ?thesis by (auto simp: angle_down.simps [of x] d_in_def)
  qed
qed

lemma f_of_d_in: "d_in x a b \<Longrightarrow> fl32_num a \<Longrightarrow> fl32_num b \<Longrightarrow> d_in (f_of_d x) a b"
  by (auto simp: d_in_def [of x] f_of_d_def intro!: round32_in)

lemma segment_angle_ok:
  assumes "stdlib_ok sl" "segment_ok l"
  shows "\<exists>a. segment_angle sl l = Some a \<and> d_in a (- 90) 90"
proof -
  obtain x0 y0 x1 y1 where l: "l = (x0, y0, x1, y1)" by (cases l)
  let ?a = "sl_atan2f sl (f_int (y1 - y0)) (f_int (x1 - x0))"
  have d: "\<bar>x1 - x0\<bar> \<le> 2 ^ 15" "\<bar>y1 - y0\<bar> \<le> 2 ^ 15" using assms(2) by (auto simp: segment_ok_def l)
  then have "isfinite (f_int (y1 - y0))" "isfinite (f_int (x1 - x0))" by (simp_all add: f_int_exact isfinite_def)
  with assms(1) have a: "d_in ?a (- 4) 4" by (simp add: stdlib_ok_def)
  have "d_in (f_mul ?a (flit 180)) (- 720) 720" by (rule f_mul_abs [OF a, of _ 180]) (simp_all add: flit_def)
  then have "d_in (d_div (f_mul ?a (flit 180)) d_pi) (- 240) 240"
    by (rule d_div_abs [where c = 3 and d = 4]) (simp_all add: d_pi_def)
  from f_of_d_in [OF this] have i: "d_in (f_of_d (d_div (f_mul ?a (flit 180)) d_pi)) (- 240) 240" by simp
  from angle_loops_ok(1) [OF this] obtain b where
    b: "angle_up (f_of_d (d_div (f_mul ?a (flit 180)) d_pi)) = Some b" "d_in b (- 90) 240" by blast
  from b(2) have "d_in b (- 240) 240" by (rule d_in_weaken) simp_all
  from angle_loops_ok(2) [OF this b(2)] obtain c where "angle_down b = Some c" "d_in c (- 90) 90" by blast
  with b d show ?thesis by (simp add: segment_angle_def l int32_small)
qed

lemma segments_ok:
  assumes "stdlib_ok sl" "\<forall>l \<in> set ls. segment_ok l"
  shows "\<exists>v h. loopM (add_segment sl) ls ([], []) = Some (v, h) \<and> set v \<subseteq> set ls \<and> set h \<subseteq> set ls \<and> length v + length h \<le> length ls"
proof -
  have "\<exists>s'. loopM (add_segment sl) ls ([], []) = Some s' \<and>
    (set (fst s') \<subseteq> set ls \<and> set (snd s') \<subseteq> set ls \<and> length (fst s') + length (snd s') \<le> length ls)"
  proof (rule loopM_rule [where I = "\<lambda>done s. set (fst s) \<subseteq> set done \<and> set (snd s) \<subseteq> set done \<and> length (fst s) + length (snd s) \<le> length done"])
    fix l :: segment and "done" and s :: "segment list \<times> segment list" assume l: "l \<in> set ls"
      and I: "set (fst s) \<subseteq> set done \<and> set (snd s) \<subseteq> set done \<and> length (fst s) + length (snd s) \<le> length done"
    from segment_angle_ok [OF assms(1)] assms(2) l obtain a where "segment_angle sl l = Some a" by blast
    with I show "\<exists>s'. add_segment sl l s = Some s' \<and> set (fst s') \<subseteq> set (done @ [l]) \<and> set (snd s') \<subseteq> set (done @ [l]) \<and>
        length (fst s') + length (snd s') \<le> length (done @ [l])"
      by (cases s) (auto simp: add_segment_def)
  qed simp
  then show ?thesis by auto
qed

lemma segLen_ok:
  assumes "segment_ok l"
  shows "\<exists>w. segLen l = Some w \<and> d_in w 64 (2 ^ 17)"
proof -
  obtain x0 y0 x1 y1 where l: "l = (x0, y0, x1, y1)" by (cases l)
  define dx dy where "dx = x1 - x0" and "dy = y1 - y0"
  have d: "\<bar>dx\<bar> \<le> 2 ^ 15" "\<bar>dy\<bar> \<le> 2 ^ 15" "10000 \<le> dx * dx + dy * dy"
    using assms by (auto simp: segment_ok_def l dx_def dy_def)
  have sq: "0 \<le> a * a \<and> a * a \<le> 2 ^ 15 * 2 ^ 15" if "\<bar>a\<bar> \<le> 2 ^ 15" for a :: int
    using mult_mono [OF that that] by (simp flip: abs_mult)
  have m: "d_mul (d_int a) (d_int a) = Fin (of_int (a * a))" if "\<bar>a\<bar> \<le> 2 ^ 15" for a
    using sq [OF that] that round64_int [of "a * a"] by (simp add: d_int_in)
  let ?n = "dx * dx + dy * dy"
  have n: "?n \<le> 2 ^ 32" using sq [OF d(1)] sq [OF d(2)] by simp
  have s: "d_add (d_mul (d_int dx) (d_int dx)) (d_mul (d_int dy) (d_int dy)) = Fin (of_int ?n)"
    using round64_int [of ?n] n d(3) by (simp add: m [OF d(1)] m [OF d(2)])
  have "(of_int ?n :: rat) \<le> of_int (2 ^ 32)" "(of_int 10000 :: rat) \<le> of_int ?n" using n d(3) by (simp_all only: of_int_le_iff)
  then have n': "(of_int ?n :: rat) \<le> 2 ^ 32" "(10000 :: rat) \<le> of_int ?n" by simp_all
  have "100 - 1 / 2 \<le> fl64_sqrt (of_int ?n)" by (rule fl64_sqrt_ge) (use n' in simp_all)
  moreover have "fl64_sqrt (of_int ?n) \<le> 2 * 2 ^ 16" by (rule fl64_sqrt_bounds(2)) (use n' in simp_all)
  moreover have "d_sqrt (Fin r) = Fin (fl64_sqrt r)" if "10000 \<le> r" for r using that by simp
  ultimately have "d_in (d_sqrt (Fin (of_int ?n))) 64 (2 ^ 17)" using n'(2) by (simp only: d_in_Fin) simp
  then show ?thesis using d(1,2) s by (simp add: segLen_def l int32_small flip: dx_def dy_def)
qed

lemma lines_from_segments:
  assumes "segment_ok l"
  shows "\<exists>v. vertical_line l = Some v \<and> line_ok v" "\<exists>h. horizontal_line l = Some h \<and> line_ok h"
proof -
  obtain x0 y0 x1 y1 where l: "l = (x0, y0, x1, y1)" by (cases l)
  have p: "d_in (d_mul (lit (1 / 2)) (d_int s)) 0 (2 ^ 15)" if "0 \<le> s" "s \<le> 65536" for s
  proof -
    have "(of_int 0 :: rat) \<le> of_int s" "(of_int s :: rat) \<le> of_int 65536" using that by (simp_all only: of_int_le_iff)
    then have "d_in (d_int s) 0 65536" using that by (simp add: d_int_in)
    then show ?thesis unfolding lit_half(1) by (rule d_mul_in [where a = "1 / 2" and b = "1 / 2", rotated]) simp_all
  qed
  have c: "0 \<le> x0 + x1" "x0 + x1 \<le> 65536" "0 \<le> y0 + y1" "y0 + y1 \<le> 65536" using assms by (auto simp: segment_ok_def l)
  obtain w where w: "segLen (x0, y0, x1, y1) = Some w" "d_in w 64 (2 ^ 17)" using segLen_ok [OF assms] l by blast
  show "\<exists>v. vertical_line l = Some v \<and> line_ok v" "\<exists>h. horizontal_line l = Some h \<and> line_ok h"
    using c w p by (simp_all add: vertical_line_def horizontal_line_def l int32_def int32_ok_def line_ok_def)
qed

subsection \<open>Borders\<close>

lemma lines_ok_select:
  assumes "lines_ok cs"
  shows "lines_ok (map ((!) cs) (filter P [0..<length cs]))"
proof -
  obtain xs where xs: "cs = map Fin xs" "sorted xs" "\<forall>x \<in> set xs. 0 \<le> x \<and> x \<le> 65536" "length cs \<le> 65536"
    using assms by (auto simp: lines_ok_def)
  have "sorted_wrt (<) (filter P [0..<length xs])" by (rule sorted_wrt_filter) simp
  then have "sorted (map ((!) xs) (filter P [0..<length xs]))"
    unfolding sorted_wrt_map by (rule sorted_wrt_mono_rel [rotated]) (use xs(2) in \<open>auto simp: sorted_nth_mono\<close>)
  moreover have "map ((!) cs) (filter P [0..<length cs]) = map Fin (map ((!) xs) (filter P [0..<length xs]))" by (simp add: xs(1))
  moreover have "length (filter P [0..<length xs]) \<le> 65536" using length_filter_le [of P "[0..<length xs]"] xs(1,4) by simp
  ultimately show ?thesis using xs(3) unfolding lines_ok_def by (intro conjI exI [of _ "map ((!) xs) (filter P [0..<length xs])"]) auto
qed

lemma prune_ok:
  assumes "lines_ok cs" "length counts = length cs" "\<forall>n \<in> set counts. n < 2 ^ 31"
  shows "\<exists>cs'. pruneEdgeArtifactsByCoverage cs counts = Some cs' \<and> lines_ok cs'"
proof (cases "length cs < 3 \<or> counts ! max_element counts \<le> 0")
  case True
  with assms(1) show ?thesis by (auto simp: pruneEdgeArtifactsByCoverage_def Let_def)
next
  case False
  let ?m = "counts ! max_element counts"
  have "counts \<noteq> []" using False assms(2) by auto
  from max_element_less [OF this] assms(3) have m: "?m < 2 ^ 31" by simp
  have "(of_int ?m :: rat) \<le> of_int (2 ^ 31)" using m by (simp only: of_int_le_iff)
  then have i: "d_in (d_int ?m) 0 (2 ^ 31)" using False m by (simp add: d_int_in)
  have "d_in (lit (15 / 100)) 0 (1 / 4)" by (rule lit_in) (simp_all add: fl64_num_small)
  then have "d_in (d_mul (lit (15 / 100)) (d_int ?m)) 0 (2 ^ 29)" by (rule d_mul_in [OF _ i]) simp_all
  then have "d_in (d_mul (lit (15 / 100)) (d_int ?m)) (- of_int (2 ^ 29)) (of_int (2 ^ 29))" by (rule d_in_weaken) simp_all
  from lround_int_small [OF this] obtain t where "lround_int (d_mul (lit (15 / 100)) (d_int ?m)) = Some t" by auto
  with False assms(1) lines_ok_select [OF assms(1)] show ?thesis by (simp add: pruneEdgeArtifactsByCoverage_def Let_def)
qed

lemma coverage_ok:
  "length segs < 2 ^ 31 \<Longrightarrow> length (computeCoverageCounts cs segs x) = length cs \<and> (\<forall>n \<in> set (computeCoverageCounts cs segs x). n < 2 ^ 31)"
  by (auto simp: computeCoverageCounts_def intro: order.strict_trans1 [OF length_filter_le])

lemma grid_candidates_ok:
  assumes "stdlib_ok sl" "\<forall>l \<in> set ls. segment_ok l" "length ls < 2 ^ 31"
  shows "\<exists>v h. grid_candidates sl ls = Some (v, h) \<and> lines_ok v \<and> lines_ok h"
proof -
  obtain vs hs where s: "loopM (add_segment sl) ls ([], []) = Some (vs, hs)" "set vs \<subseteq> set ls" "set hs \<subseteq> set ls"
    "length vs + length hs \<le> length ls" using segments_ok [OF assms(1,2)] by blast
  have "\<exists>y. vertical_line x = Some y \<and> line_ok y" if "x \<in> set vs" for x using lines_from_segments(1) s(2) assms(2) that by blast
  from those_map_ok [of vs vertical_line line_ok, OF this] obtain v1d where v1d: "those (map vertical_line vs) = Some v1d" "\<forall>y \<in> set v1d. line_ok y"
    "length v1d = length vs" by blast
  have "\<exists>y. horizontal_line x = Some y \<and> line_ok y" if "x \<in> set hs" for x using lines_from_segments(2) s(3) assms(2) that by blast
  from those_map_ok [of hs horizontal_line line_ok, OF this] obtain h1d where h1d: "those (map horizontal_line hs) = Some h1d" "\<forall>y \<in> set h1d. line_ok y"
    "length h1d = length hs" by blast
  have n: "length v1d < 2 ^ 31" "length h1d < 2 ^ 31" "length vs < 2 ^ 31" "length hs < 2 ^ 31" using v1d(3) h1d(3) s(4) assms(3) by simp_all
  obtain v h where c: "clusterWeighted1D sl v1d (Fin 15) = Some v" "lines_ok v" "clusterWeighted1D sl h1d (Fin 15) = Some h" "lines_ok h"
    using clusterWeighted1D_ok [OF assms(1) v1d(2) n(1)] clusterWeighted1D_ok [OF assms(1) h1d(2) n(2)] by blast
  obtain v' h' where "pruneEdgeArtifactsByCoverage v (computeCoverageCounts v hs True) = Some v'" "lines_ok v'"
    "pruneEdgeArtifactsByCoverage h (computeCoverageCounts h vs False) = Some h'" "lines_ok h'"
    using prune_ok [OF c(2), of "computeCoverageCounts v hs True"] prune_ok [OF c(4), of "computeCoverageCounts h vs False"]
      coverage_ok n(3,4) by blast
  with s(1) v1d(1) h1d(1) c show ?thesis by (simp add: grid_candidates_def)
qed

subsection \<open>The grid\<close>

lemma grid_ok_in:
  assumes "grid_ok N grid" "N \<le> 19"
  shows "length grid = N" "\<forall>x \<in> set grid. d_in x (- (2 ^ 38)) (2 ^ 38)"
proof -
  obtain start spacing where g: "grid = lattice_grid N start spacing" "d_in start (- (2 ^ 37)) (2 ^ 37)" "d_in spacing 2 262144"
    using assms(1) by (auto simp: grid_ok_def)
  then show "length grid = N" by simp
  have "d_in (d_add start (d_mul (d_int (int k)) spacing)) (- (2 ^ 38)) (2 ^ 38)" if "k < N" for k
  proof -
    have "(of_nat k :: rat) \<le> of_nat 32" using that assms(2) by (simp only: of_nat_le_iff)
    then have "d_in (d_int (int k)) 0 32" using that assms(2) by (simp add: d_int_in)
    then have "d_in (d_mul (d_int (int k)) spacing) 0 8388608" by (rule d_mul_in [OF _ g(3)]) simp_all
    from d_add_in [OF g(2) this, of "- (2 ^ 38)" "2 ^ 38"] show ?thesis by simp
  qed
  then show "\<forall>x \<in> set grid. d_in x (- (2 ^ 38)) (2 ^ 38)" by (auto simp: g(1) lattice_grid_def)
qed

text \<open>The two axes of a board: finite, with as many lines as a board has.\<close>

definition axes_ok :: "double list \<Rightarrow> double list \<Rightarrow> bool" where
  "axes_ok v h \<longleftrightarrow> length v = length h \<and> isValidN (length v) \<and> (\<forall>x \<in> set v \<union> set h. d_in x (- (2 ^ 38)) (2 ^ 38))"

lemma choose_grid_ok:
  assumes "lines_ok v" "lines_ok h" "libm_ok lm"
  shows "\<exists>r. choose_grid lm v h = Some r \<and> (\<forall>v' h'. r = Some (v', h') \<longrightarrow> axes_ok v' h')"
proof (cases "length v = length h \<and> isValidN (length v)")
  case True
  have "d_in x (- (2 ^ 38)) (2 ^ 38)" if "d_in x 0 65536" for x using that by (rule d_in_weaken) simp_all
  then have "\<forall>x \<in> set v \<union> set h. d_in x (- (2 ^ 38)) (2 ^ 38)" using lines_ok_in assms(1,2) by blast
  moreover obtain r where "findGrid lm v h ([], []) [length v] = Some r" using findGrid_ok [OF assms] by blast
  ultimately show ?thesis using True by (auto simp: choose_grid_def axes_ok_def)
next
  case False
  from findGrid_ok [OF assms, of "([], [])" "[19, 13, 9]"] show ?thesis
  proof
    assume "findGrid lm v h ([], []) [19, 13, 9] = Some (False, [], [])"
    with False show ?thesis by (auto simp: choose_grid_def findGrid_default_def)
  next
    assume "6 \<le> length v \<and> 6 \<le> length h \<and> (\<exists>N \<in> set [19, 13, 9]. isValidN N \<and> (\<exists>v' h'. grid_ok N v' \<and> grid_ok N h' \<and>
      findGrid lm v h ([], []) [19, 13, 9] = Some (True, v', h')))"
    then obtain N v' h' where N: "isValidN N" "grid_ok N v'" "grid_ok N h'" "findGrid lm v h ([], []) [19, 13, 9] = Some (True, v', h')"
      by blast
    have "N \<le> 19" using N(1) by (auto simp: isValidN_def)
    from grid_ok_in [OF N(2) this] grid_ok_in [OF N(3) this] N(1,4) False show ?thesis
      by (auto simp: choose_grid_def findGrid_default_def axes_ok_def)
  qed
qed

lemma spacing_defined:
  assumes "\<forall>x \<in> set g. d_in x (- (2 ^ 38)) (2 ^ 38)"
  shows "\<exists>s. computeMedianSpacing g = Some s"
proof (cases "length g < 2")
  case True
  then show ?thesis by (simp add: computeMedianSpacing_def)
next
  case False
  let ?d = "map (\<lambda>i. d_sub (g ! i) (g ! (i - 1))) [1..<length g]"
  have "d_sub (g ! i) (g ! (i - 1)) \<noteq> NaN" if "i < length g" for i
    by (rule d_in_not_NaN, rule d_sub_in [of _ "- (2 ^ 38)" "2 ^ 38" _ "- (2 ^ 38)" "2 ^ 38" "- (2 ^ 39)" "2 ^ 39"]) (use assms that in simp_all)
  then have "NaN \<notin> set ?d" by (auto simp: eq_commute [of NaN])
  moreover have "length ?d = length g - 1" by simp
  then have "?d \<noteq> []" using False by (metis One_nat_def Suc_1 diff_is_0_eq le_simps(3) linorder_not_le list.size(3))
  ultimately show ?thesis using median_defined [of ?d] False by (simp add: computeMedianSpacing_def)
qed

lemma samples_defined:
  "\<exists>s. spacing_samples cv N ps = Some s \<and> NaN \<notin> set s"
proof (cases "N \<ge> 2 \<and> length ps = N * N")
  case True
  have at: "\<exists>d. point_distance cv ps i j = Some d" if "i < N * N" "j < N * N" for i j
    using that True by (simp add: point_distance_def vec_at_def)
  have idx: "a * N + b < N * N" if "a < N" "b < N" for a b
  proof -
    have "(a + 1) * N \<le> N * N" using that(1) by (intro mult_right_mono) simp_all
    then show ?thesis using that(2) by simp
  qed
  have a: "point_distance cv ps (x * N + (y + 1)) (x * N + y) \<noteq> None" if "x < N" "y < N - 1" for x y
    using at [OF idx [of x "y + 1"] idx [of x y]] that by auto
  have b: "point_distance cv ps ((x + 1) * N + y) (x * N + y) \<noteq> None" if "x < N - 1" "y < N" for x y
    using at [OF idx [of "x + 1" y] idx [of x y]] that by auto
  let ?a = "map (\<lambda>(x, y). point_distance cv ps (x * N + (y + 1)) (x * N + y)) [(x, y). x \<leftarrow> [0..<N], y \<leftarrow> [0..<N - 1]]"
  let ?b = "map (\<lambda>(x, y). point_distance cv ps ((x + 1) * N + y) (x * N + y)) [(x, y). x \<leftarrow> [0..<N - 1], y \<leftarrow> [0..<N]]"
  have "\<forall>d \<in> set ?a. d \<noteq> None" using a by auto
  moreover have "\<forall>d \<in> set ?b. d \<noteq> None" using b by auto
  ultimately have "\<forall>d \<in> set (?a @ ?b). d \<noteq> None" by (simp only: set_append ball_Un)
  from those_defined [OF this] obtain ds where "those (?a @ ?b) = Some ds" by blast
  with True show ?thesis by (auto simp: spacing_samples_def isfinite_def)
next
  case False
  then have "spacing_samples cv N ps = Some []" unfolding spacing_samples_def by (rule if_not_P)
  then show ?thesis by simp
qed

subsection \<open>The whole\<close>

text \<open>
  What is relied on of OpenCV. \<open>bytes\<close> are the images of 8 bits a channel and \<open>hom\<close> the matrices of three by three
  floating-point numbers. Every law is about an image that is not empty and has the channels that the call is documented
  for, or about a matrix and points of the number that it is documented for; of any other argument nothing is said, and
  there the call may throw. Segments lie in the image and have the least length asked for, and an array holds fewer than
  \<open>2 ^ 31\<close> of them. \<open>warpPerspective\<close> is limited to images of fewer than 32767 pixels a side.
\<close>

definition gives :: "'a option \<Rightarrow> ('a \<Rightarrow> bool) \<Rightarrow> bool" where
  "gives r P \<longleftrightarrow> (\<exists>x. r = Some x \<and> P x)"

lemma givesE:
  assumes "gives r P"
  obtains x where "r = Some x" "P x"
  using assms by (auto simp: gives_def)

definition image_ok :: "'i warp_opencv \<Rightarrow> ('i \<Rightarrow> bool) \<Rightarrow> int \<Rightarrow> image_size \<Rightarrow> 'i \<Rightarrow> bool" where
  "image_ok cv bytes channels sz img \<longleftrightarrow>
     bytes img \<and> \<not> wc_empty cv img \<and> wc_channels cv img = channels \<and> wc_size cv img = sz"

definition segment_in :: "image_size \<Rightarrow> segment \<Rightarrow> bool" where
  "segment_in sz l \<longleftrightarrow>
     (let (x0, y0, x1, y1) = l
      in 0 \<le> x0 \<and> x0 < fst sz \<and> 0 \<le> y0 \<and> y0 < snd sz \<and> 0 \<le> x1 \<and> x1 < fst sz \<and> 0 \<le> y1 \<and> y1 < snd sz \<and>
         10000 \<le> (x1 - x0) * (x1 - x0) + (y1 - y0) * (y1 - y0))"

definition warp_opencv_ok :: "'i warp_opencv \<Rightarrow> ('i \<Rightarrow> bool) \<Rightarrow> ('i \<Rightarrow> bool) \<Rightarrow> bool" where
  "warp_opencv_ok cv bytes hom \<longleftrightarrow>
     (\<forall>img n sz. image_ok cv bytes n sz img \<longrightarrow>
        1 \<le> fst sz \<and> 1 \<le> snd sz \<and>
        (n = 3 \<or> n = 4 \<longrightarrow> gives (wc_cvtGray cv img) (image_ok cv bytes 1 sz)) \<and>
        (\<forall>k sigma. odd k \<and> 0 < k \<and> isfinite sigma \<longrightarrow> gives (wc_GaussianBlur cv img k sigma) (image_ok cv bytes n sz)) \<and>
        (\<forall>a b. n = 1 \<and> isfinite a \<and> isfinite b \<longrightarrow> gives (wc_Canny cv img a b) (image_ok cv bytes 1 sz)) \<and>
        gives (wc_dilate cv img) (image_ok cv bytes n sz) \<and>
        (n = 1 \<longrightarrow> gives (wc_HoughLinesP cv img (Fin 1) (d_div d_pi (Fin 180)) 80 (Fin 100) (Fin 20))
           (\<lambda>ls. (\<forall>l \<in> set ls. segment_in sz l) \<and> length ls < 2 ^ 31)) \<and>
        (\<forall>H k. n \<le> 4 \<and> fst sz < 32767 \<and> snd sz < 32767 \<and> hom H \<and> 0 < k \<and> k < 32767 \<longrightarrow>
           gives (wc_warpPerspective cv img H k) (image_ok cv bytes n (k, k)))) \<and>
     (\<forall>H. hom H \<longrightarrow> gives (wc_inv cv H) hom) \<and>
     (\<forall>H ps. hom H \<and> ps \<noteq> [] \<longrightarrow> gives (wc_perspectiveTransform cv ps H) (\<lambda>qs. length qs = length ps)) \<and>
     (\<forall>ps qs. length ps = 4 \<and> length qs = 4 \<longrightarrow> gives (wc_getPerspectiveTransform cv ps qs) hom)"

lemma warp_opencv_okD:
  assumes "warp_opencv_ok cv bytes hom"
  shows "image_ok cv bytes n sz img \<Longrightarrow> 1 \<le> fst sz \<and> 1 \<le> snd sz"
    "image_ok cv bytes n sz img \<Longrightarrow> n = 3 \<or> n = 4 \<Longrightarrow> gives (wc_cvtGray cv img) (image_ok cv bytes 1 sz)"
    "image_ok cv bytes n sz img \<Longrightarrow> odd k \<Longrightarrow> 0 < k \<Longrightarrow> isfinite sigma \<Longrightarrow>
       gives (wc_GaussianBlur cv img k sigma) (image_ok cv bytes n sz)"
    "image_ok cv bytes 1 sz img \<Longrightarrow> isfinite a \<Longrightarrow> isfinite b \<Longrightarrow> gives (wc_Canny cv img a b) (image_ok cv bytes 1 sz)"
    "image_ok cv bytes n sz img \<Longrightarrow> gives (wc_dilate cv img) (image_ok cv bytes n sz)"
    "image_ok cv bytes 1 sz img \<Longrightarrow> gives (wc_HoughLinesP cv img (Fin 1) (d_div d_pi (Fin 180)) 80 (Fin 100) (Fin 20))
       (\<lambda>ls. (\<forall>l \<in> set ls. segment_in sz l) \<and> length ls < 2 ^ 31)"
    "image_ok cv bytes n sz img \<Longrightarrow> n \<le> 4 \<Longrightarrow> fst sz < 32767 \<Longrightarrow> snd sz < 32767 \<Longrightarrow> hom H \<Longrightarrow> 0 < m \<Longrightarrow> m < 32767 \<Longrightarrow>
       gives (wc_warpPerspective cv img H m) (image_ok cv bytes n (m, m))"
    "hom H \<Longrightarrow> gives (wc_inv cv H) hom"
    "hom H \<Longrightarrow> ps \<noteq> [] \<Longrightarrow> gives (wc_perspectiveTransform cv ps H) (\<lambda>qs. length qs = length ps)"
    "length ps = 4 \<Longrightarrow> length qs = 4 \<Longrightarrow> gives (wc_getPerspectiveTransform cv ps qs) hom"
  using assms unfolding warp_opencv_ok_def by blast+

lemma length_grid_points [simp]: "length (grid_points v h) = length v * length h"
  by (simp add: grid_points_def length_concat o_def sum_list_triv)

lemma length_corners [simp]: "length (warp_corners v h s) = 4" "length out_corners = 4"
  by (simp_all add: warp_corners_def out_corners_def Let_def)

text \<open>The segments in the edges of a grey image, as both searches look for them.\<close>

lemma grey_segments:
  assumes "warp_opencv_ok cv bytes hom" "image_ok cv bytes 1 sz gray" "fst sz \<le> 2 ^ 15" "snd sz \<le> 2 ^ 15"
  shows "\<exists>blur canny edges ls. wc_GaussianBlur cv gray 9 (lit (15 / 10)) = Some blur \<and>
    wc_Canny cv blur (Fin 50) (Fin 120) = Some canny \<and> wc_dilate cv canny = Some edges \<and>
    wc_HoughLinesP cv edges (Fin 1) (d_div d_pi (Fin 180)) 80 (Fin 100) (Fin 20) = Some ls \<and>
    (\<forall>l \<in> set ls. segment_ok l) \<and> length ls < 2 ^ 31"
proof -
  note cv = warp_opencv_okD [OF assms(1)]
  have "d_in (lit (15 / 10)) 1 2" by (rule lit_in) simp_all
  then have f: "isfinite (lit (15 / 10))" by (rule d_in_finite)
  obtain blur where b: "wc_GaussianBlur cv gray 9 (lit (15 / 10)) = Some blur" "image_ok cv bytes 1 sz blur"
    using cv(3) [OF assms(2) _ _ f, of 9] by (auto elim: givesE)
  obtain canny where c: "wc_Canny cv blur (Fin 50) (Fin 120) = Some canny" "image_ok cv bytes 1 sz canny"
    using cv(4) [OF b(2), of "Fin 50" "Fin 120"] by (auto simp: isfinite_def elim: givesE)
  obtain edges where e: "wc_dilate cv canny = Some edges" "image_ok cv bytes 1 sz edges"
    using cv(5) [OF c(2)] by (auto elim: givesE)
  obtain ls where l: "wc_HoughLinesP cv edges (Fin 1) (d_div d_pi (Fin 180)) 80 (Fin 100) (Fin 20) = Some ls"
    "\<forall>l \<in> set ls. segment_in sz l" "length ls < 2 ^ 31" using cv(6) [OF e(2)] by (auto elim: givesE)
  have "segment_ok l" if "segment_in sz l" for l
    using that assms(3,4) by (auto simp: segment_ok_def segment_in_def)
  with b c e l show ?thesis by blast
qed

text \<open>The images that the rectification is given.\<close>

definition source_ok :: "'i warp_opencv \<Rightarrow> ('i \<Rightarrow> bool) \<Rightarrow> 'i \<Rightarrow> bool" where
  "source_ok cv bytes img \<longleftrightarrow>
     (\<exists>n sz. image_ok cv bytes n sz img \<and> n \<le> 4 \<and> fst sz < 32767 \<and> snd sz < 32767)"

definition warp_result_ok :: "'i warp_opencv \<Rightarrow> ('i \<Rightarrow> bool) \<Rightarrow> ('i \<Rightarrow> bool) \<Rightarrow> 'i warp_result \<Rightarrow> bool" where
  "warp_result_ok cv bytes hom w \<longleftrightarrow>
     wc_empty cv (wr_image w) \<or> wc_empty cv (wr_H w) \<or>
     hom (wr_H w) \<and> (\<exists>n sz. image_ok cv bytes n sz (wr_image w) \<and> (n = 3 \<or> n = 4) \<and> fst sz \<le> 2 ^ 15 \<and> snd sz \<le> 2 ^ 15)"

definition geometry_ok :: "'i warp_opencv \<Rightarrow> ('i \<Rightarrow> bool) \<Rightarrow> 'i board_geometry \<Rightarrow> bool" where
  "geometry_ok cv bytes g \<longleftrightarrow>
     bytes (bg_image g) \<and> \<not> wc_empty cv (bg_image g) \<and> wc_size cv (bg_image g) = (outSize, outSize) \<and>
     isValidN (unat (bg_boardSize g)) \<and> length (bg_intersections g) = unat (bg_boardSize g) * unat (bg_boardSize g)"

lemma warp_to_grid_ok:
  assumes "warp_opencv_ok cv bytes hom" "axes_ok v h" "source_ok cv bytes img" "hom H"
  shows "\<exists>g. warp_to_grid cv img H v h = Some g \<and> geometry_ok cv bytes g"
proof -
  note cv = warp_opencv_okD [OF assms(1)]
  have ax: "length v = length h" "isValidN (length h)" "\<forall>x \<in> set v. d_in x (- (2 ^ 38)) (2 ^ 38)"
    "\<forall>x \<in> set h. d_in x (- (2 ^ 38)) (2 ^ 38)" using assms(2) by (auto simp: axes_ok_def)
  obtain sx sy where sp: "computeMedianSpacing v = Some sx" "computeMedianSpacing h = Some sy"
    using spacing_defined [OF ax(3)] spacing_defined [OF ax(4)] by blast
  define corners where "corners = warp_corners v h (d_mul (lit (1 / 2)) (d_add sx sy))"
  have corners: "length corners = 4" by (simp add: corners_def)
  then have ne: "corners \<noteq> []" by auto
  obtain Hinv where i: "wc_inv cv H = Some Hinv" "hom Hinv" using cv(8) [OF assms(4)] by (auto elim: givesE)
  obtain src where s: "wc_perspectiveTransform cv corners Hinv = Some src" "length src = 4"
    using cv(9) [OF i(2) ne] corners by (auto elim: givesE)
  obtain F where F: "wc_getPerspectiveTransform cv src out_corners = Some F" "hom F"
    using cv(10) [OF s(2) length_corners(2)] by (auto elim: givesE)
  from assms(3) obtain n sz where "image_ok cv bytes n sz img" "n \<le> 4" "fst sz < 32767" "snd sz < 32767"
    by (auto simp: source_ok_def)
  from cv(7) [OF this F(2), of outSize] obtain refined where
    r: "wc_warpPerspective cv img F outSize = Some refined" "image_ok cv bytes n (outSize, outSize) refined"
    by (auto simp: outSize_def elim: givesE)
  have "v \<noteq> []" "h \<noteq> []" using ax(1,2) by (auto simp: isValidN_def)
  then have "grid_points v h \<noteq> []" by (metis length_0_conv length_grid_points mult_is_0)
  then obtain orig where o: "wc_perspectiveTransform cv (grid_points v h) Hinv = Some orig" "length orig = length v * length h"
    using cv(9) [OF i(2)] by (force elim: givesE)
  then have "orig \<noteq> []" using \<open>v \<noteq> []\<close> \<open>h \<noteq> []\<close> by auto
  then obtain fin where f: "wc_perspectiveTransform cv orig F = Some fin" "length fin = length h * length h"
    using cv(9) [OF F(2)] o(2) ax(1) by (force elim: givesE)
  obtain ss where ss: "spacing_samples cv (length h) fin = Some ss" "NaN \<notin> set ss" using samples_defined by blast
  then obtain m where m: "(if ss = [] then Some (Fin 0) else median ss) = Some m"
    using median_defined [of ss] by (cases "ss = []") auto
  have "unat (of_nat (length h) :: u32) = length h" using ax(2) by (auto simp: isValidN_def)
  with r(2) ax(2) f(2) show ?thesis
    unfolding warp_to_grid_def Let_def sp ax(1) bind.bind_lunit corners_def [symmetric] i(1) s(1) F(1) r(1) o(1) f(1) ss(1) m
    by (simp add: geometry_ok_def image_ok_def)
qed

lemma find_segments_ok:
  assumes "warp_opencv_ok cv bytes hom" "image_ok cv bytes n sz img" "n = 3 \<or> n = 4" "fst sz \<le> 2 ^ 15" "snd sz \<le> 2 ^ 15"
  shows "\<exists>ls. find_segments cv img = Some ls \<and> (\<forall>l \<in> set ls. segment_ok l) \<and> length ls < 2 ^ 31"
proof -
  obtain gray where g: "wc_cvtGray cv img = Some gray" "image_ok cv bytes 1 sz gray"
    using warp_opencv_okD(2) [OF assms(1-3)] by (auto elim: givesE)
  from grey_segments [OF assms(1) g(2) assms(4,5)] g(1) show ?thesis by (auto simp: find_segments_def)
qed

lemma rectifyImage_ok:
  assumes "warp_opencv_ok cv bytes hom" "stdlib_ok sl" "libm_ok lm" "source_ok cv bytes img" "warp_result_ok cv bytes hom input"
  shows "\<exists>r. rectifyImage cv sl lm img input = Some r \<and> (\<forall>g. r = Some g \<longrightarrow> geometry_ok cv bytes g)"
proof (cases "wc_empty cv (wr_image input) \<or> wc_empty cv (wr_H input)")
  case True
  then show ?thesis by (simp add: rectifyImage_def)
next
  case False
  with assms(5) obtain n sz where H: "hom (wr_H input)" and im: "image_ok cv bytes n sz (wr_image input)" "n = 3 \<or> n = 4"
    "fst sz \<le> 2 ^ 15" "snd sz \<le> 2 ^ 15" by (auto simp: warp_result_ok_def)
  from find_segments_ok [OF assms(1) im] obtain ls where
    ls: "find_segments cv (wr_image input) = Some ls" "\<forall>l \<in> set ls. segment_ok l" "length ls < 2 ^ 31" by blast
  from grid_candidates_ok [OF assms(2) ls(2,3)] obtain v h where vh: "grid_candidates sl ls = Some (v, h)" "lines_ok v" "lines_ok h" by blast
  from choose_grid_ok [OF vh(2,3) assms(3)] obtain r where
    r: "choose_grid lm v h = Some r" "\<And>v' h'. r = Some (v', h') \<Longrightarrow> axes_ok v' h'" by blast
  show ?thesis
  proof (cases r)
    case None
    with False ls(1) vh(1) r(1) show ?thesis by (simp add: rectifyImage_def)
  next
    case (Some g)
    with r(2) have "axes_ok (fst g) (snd g)" by (cases g) simp
    from warp_to_grid_ok [OF assms(1) this assms(4) H] obtain b where
      "warp_to_grid cv img (wr_H input) (fst g) (snd g) = Some b" "geometry_ok cv bytes b" by blast
    with False ls(1) vh(1) r(1) Some show ?thesis by (simp add: rectifyImage_def case_prod_beta)
  qed
qed

text \<open>An image that is not empty and cannot be converted, such as one of a single channel, is an exception.\<close>

lemma rectifyImage_unconverted:
  assumes "\<not> wc_empty cv (wr_image input)" "\<not> wc_empty cv (wr_H input)" "wc_cvtGray cv (wr_image input) = None"
  shows "rectifyImage cv sl lm img input = None"
  using assms by (simp add: rectifyImage_def find_segments_def)

end
