(* ===== verification/Board_Search.thy ===== *)
theory Board_Search imports Board_Finder Rectifier_Bounds begin

text \<open>
  What the search for the board gives: kernels of the sizes that OpenCV takes, corners in an order, and the best of the
  candidates that can be a board.
\<close>

subsection \<open>Preprocessing\<close>

lemma makeOdd: "odd (makeOddKernelSize n)" "n \<le> makeOddKernelSize n" "odd h \<Longrightarrow> n \<le> h \<Longrightarrow> makeOddKernelSize n \<le> h"
  by (auto simp: makeOddKernelSize_def elim!: oddE)

lemma preprocess_settings:
  assumes "fst sz < 2 ^ 31"
  shows "odd (ps_blurKernelSize (choosePreprocessSettings sz))"
    "3 \<le> ps_blurKernelSize (choosePreprocessSettings sz)" "ps_blurKernelSize (choosePreprocessSettings sz) \<le> 9"
    "odd (ps_closeKernelSize (choosePreprocessSettings sz))"
    "9 \<le> ps_closeKernelSize (choosePreprocessSettings sz)" "ps_closeKernelSize (choosePreprocessSettings sz) \<le> 25"
    "d_in (ps_cannyLow (choosePreprocessSettings sz)) 45 60" "d_in (ps_cannyHigh (choosePreprocessSettings sz)) 135 180"
proof -
  let ?s = "choosePreprocessSettings sz"
  define m where "m = max 1 (min (fst sz) (snd sz))"
  have k: "ps_blurKernelSize ?s = makeOddKernelSize (clamp (m div 150) 3 9)"
    "ps_closeKernelSize ?s = makeOddKernelSize (clamp (m div 68) 9 25)"
    by (simp_all add: choosePreprocessSettings_def Let_def m_def)
  have cb: "3 \<le> clamp (m div 150) 3 9" "clamp (m div 150) 3 9 \<le> 9" "9 \<le> clamp (m div 68) 9 25" "clamp (m div 68) 9 25 \<le> 25"
    by (simp_all add: clamp_def)
  show "odd (ps_blurKernelSize ?s)" "odd (ps_closeKernelSize ?s)" unfolding k by (rule makeOdd)+
  show "3 \<le> ps_blurKernelSize ?s" "9 \<le> ps_closeKernelSize ?s" unfolding k
    by (rule order_trans [OF cb(1) makeOdd(2)], rule order_trans [OF cb(3) makeOdd(2)])
  show "ps_blurKernelSize ?s \<le> 9" "ps_closeKernelSize ?s \<le> 25" unfolding k
    by (rule makeOdd(3) [OF _ cb(2)], simp, rule makeOdd(3) [OF _ cb(4)], simp)
  have m: "1 \<le> m" "m < 2 ^ 31" using assms by (auto simp: m_def)
  have "(of_int 1 :: rat) \<le> of_int m" "(of_int m :: rat) \<le> of_int (2 ^ 31)" using m by (simp_all only: of_int_le_iff)
  then have i: "d_in (d_int m) 0 (2 ^ 60)" using m by (simp add: d_int_in)
  have "isfinite (d_mul (lit x) (d_int m))" if "0 \<le> x" "x \<le> 1" for x
  proof -
    have "d_in (lit x) 0 1" unfolding lit_def using that by (intro round64_in) simp_all
    then have "d_in (d_mul (lit x) (d_int m)) 0 (2 ^ 60)" by (rule d_mul_in [OF _ i]) simp_all
    then show ?thesis by (rule d_in_finite)
  qed
  from this [of "5 / 100"] this [of "15 / 100"]
  have c: "d_in (d_clamp (d_mul (lit (5 / 100)) (d_int m)) (Fin 45) (Fin 60)) 45 60"
    "d_in (d_clamp (d_mul (lit (15 / 100)) (d_int m)) (Fin 135) (Fin 180)) 135 180" by (simp_all add: d_clamp_in)
  from c(1) show "d_in (ps_cannyLow ?s) 45 60" by (simp add: choosePreprocessSettings_def Let_def m_def)
  have "d_in (d_add (d_clamp (d_mul (lit (5 / 100)) (d_int m)) (Fin 45) (Fin 60)) (Fin 1)) 46 61"
    by (rule d_add_in [OF c(1), of _ 1 1]) simp_all
  with c(2) show "d_in (ps_cannyHigh ?s) 135 180"
    by (auto simp: choosePreprocessSettings_def Let_def d_in_def d_le_def m_def)
qed

subsection \<open>Corners\<close>

lemma foldl_finds:
  fixes f :: "nat \<Rightarrow> nat \<Rightarrow> nat"
  assumes "\<And>b i. b < n \<Longrightarrow> i < n \<Longrightarrow> f b i < n" "\<And>b i. b < n \<Longrightarrow> i < n \<Longrightarrow> P b \<or> P i \<Longrightarrow> P (f b i)"
  shows "b < n \<Longrightarrow> \<forall>i \<in> set is. i < n \<Longrightarrow> P b \<or> (\<exists>i \<in> set is. P i) \<Longrightarrow> P (foldl f b is)"
proof (induction "is" arbitrary: b)
  case (Cons i "is")
  with assms [of b i] show ?case by auto
qed simp

text \<open>The first of the least elements, when there is only one.\<close>

lemma extreme_index:
  assumes "m \<in> set ps" "\<forall>p \<in> set ps. p \<noteq> m \<longrightarrow> R m p \<and> \<not> R p m"
  shows "ps ! (foldl (\<lambda>b i. if R (ps ! i) (ps ! b) then i else b) 0 [0..<length ps]) = m"
proof (rule foldl_finds [where n = "length ps"])
  fix b i assume l: "b < length ps" "i < length ps" and m: "ps ! b = m \<or> ps ! i = m"
  have "ps ! i \<noteq> m \<Longrightarrow> R m (ps ! i) \<and> \<not> R (ps ! i) m" "ps ! b \<noteq> m \<Longrightarrow> R m (ps ! b) \<and> \<not> R (ps ! b) m"
    using assms(2) l by simp_all
  with m show "ps ! (if R (ps ! i) (ps ! b) then i else b) = m" by auto
qed (use assms(1) in \<open>auto simp: in_set_conv_nth\<close>)

text \<open>The corner at a pixel.\<close>

definition pixel :: "int \<Rightarrow> int \<Rightarrow> point" where "pixel x y = (f_int x, f_int y)"


lemma pixel_sums:
  assumes "\<bar>x\<bar> < 2 ^ 22" "\<bar>y\<bar> < 2 ^ 22" "\<bar>x'\<bar> < 2 ^ 22" "\<bar>y'\<bar> < 2 ^ 22"
  shows "sum_less (pixel x y) (pixel x' y') \<longleftrightarrow> x + y < x' + y'" "diff_less (pixel x y) (pixel x' y') \<longleftrightarrow> x - y < x' - y'"
proof -
  have s: "f_add (f_int x) (f_int y) = Fin (of_int (x + y))" "f_sub (f_int x) (f_int y) = Fin (of_int (x - y))"
    if "\<bar>x\<bar> < 2 ^ 22" "\<bar>y\<bar> < 2 ^ 22" for x y
  proof -
    have "\<bar>x + y\<bar> < 2 ^ 24" "\<bar>x - y\<bar> < 2 ^ 24" using that by auto
    note f_int_exact [OF this(1), unfolded f_int_def] f_int_exact [OF this(2), unfolded f_int_def]
    moreover have "f_int x = Fin (of_int x)" "f_int y = Fin (of_int y)" using that by (simp_all add: f_int_exact)
    ultimately show "f_add (f_int x) (f_int y) = Fin (of_int (x + y))" "f_sub (f_int x) (f_int y) = Fin (of_int (x - y))"
      by simp_all
  qed
  show "sum_less (pixel x y) (pixel x' y') \<longleftrightarrow> x + y < x' + y'" "diff_less (pixel x y) (pixel x' y') \<longleftrightarrow> x - y < x' - y'"
    unfolding sum_less_def diff_less_def pixel_def fst_conv snd_conv s [OF assms(1,2)] s [OF assms(3,4)] d_less.simps of_int_less_iff
    by (rule refl)+
qed

lemma rectangle_corners:
  assumes "\<bar>l\<bar> < 2 ^ 22" "\<bar>r\<bar> < 2 ^ 22" "\<bar>t\<bar> < 2 ^ 22" "\<bar>b\<bar> < 2 ^ 22" "l < r" "t < b"
    and q: "mset quad = mset [pixel l t, pixel r t, pixel r b, pixel l b]"
  shows "orderCorners bs quad = Some [pixel l t, pixel l b, pixel r b, pixel r t]"
proof -
  have set: "set quad = {pixel l t, pixel r t, pixel r b, pixel l b}" using mset_eq_setD [OF q] by simp
  have len: "length quad = 4" using mset_eq_length [OF q] by simp
  note less = pixel_sums [OF assms(1,3,1,4)] pixel_sums [OF assms(1,3,2,3)] pixel_sums [OF assms(1,3,2,4)]
    pixel_sums [OF assms(1,4,1,3)] pixel_sums [OF assms(1,4,2,3)] pixel_sums [OF assms(1,4,2,4)]
    pixel_sums [OF assms(2,3,1,3)] pixel_sums [OF assms(2,3,1,4)] pixel_sums [OF assms(2,3,2,4)]
    pixel_sums [OF assms(2,4,1,3)] pixel_sums [OF assms(2,4,1,4)] pixel_sums [OF assms(2,4,2,3)]
  have at: "quad ! first_min sum_less quad = pixel l t" "quad ! first_min diff_less quad = pixel l b"
    unfolding first_min_def by (rule extreme_index; use set less assms(5,6) in simp)+
  have at': "quad ! first_max sum_less quad = pixel r b" "quad ! first_max diff_less quad = pixel r t"
    unfolding first_max_def
    by (rule extreme_index [of _ _ "\<lambda>p q. sum_less q p"]; use set less assms(5,6) in simp)
       (rule extreme_index [of _ _ "\<lambda>p q. diff_less q p"]; use set less assms(5,6) in simp)
  have ne: "pixel l t \<noteq> pixel l b" "pixel l t \<noteq> pixel r b" "pixel l t \<noteq> pixel r t" "pixel l b \<noteq> pixel r b"
    "pixel l b \<noteq> pixel r t" "pixel r b \<noteq> pixel r t"
    using less assms(5,6) by (auto simp: sum_less_def diff_less_def)
  have "distinct [first_min sum_less quad, first_min diff_less quad, first_max sum_less quad, first_max diff_less quad]"
    using ne at at' by auto
  with len at at' show ?thesis by (simp add: orderCorners_def)
qed

subsection \<open>The best candidate\<close>

text \<open>What is relied on of \<open>std::sort\<close>: the elements are kept, and come in the order asked for.\<close>

definition board_stdlib_ok :: "board_stdlib \<Rightarrow> bool" where
  "board_stdlib_ok bs \<longleftrightarrow>
     stdlib_ok (bs_stdlib bs) \<and>
     (\<forall>key is. NaN \<notin> key ` set is \<longrightarrow> mset (bs_sort_indices bs key is) = mset is \<and>
        sorted_wrt (\<lambda>i j. \<not> d_less (key i) (key j)) (bs_sort_indices bs key is)) \<and>
     (\<forall>ps. NaN \<notin> fst ` set ps \<longrightarrow> mset (bs_sort_row bs ps) = mset ps \<and>
        sorted_wrt (\<lambda>p q. \<not> d_less (fst q) (fst p)) (bs_sort_row bs ps)) \<and>
     (\<forall>cs. NaN \<notin> bc_score ` set cs \<longrightarrow> mset (bs_sort_candidates bs cs) = mset cs \<and>
        sorted_wrt (\<lambda>a b. \<not> d_less (bc_score a) (bc_score b)) (bs_sort_candidates bs cs))"

text \<open>A candidate comes from a contour, and can be a board.\<close>

definition candidate_ok :: "'i board_opencv \<Rightarrow> board_stdlib \<Rightarrow> contour list \<Rightarrow> image_size \<Rightarrow> board_candidate \<Rightarrow> bool" where
  "candidate_ok cv bs contours imageSize c \<longleftrightarrow>
     bc_contourIdx c < length contours \<and> isPlausibleBoardQuad cv (bc_quad c) imageSize \<and>
     (\<exists>q. contourToQuad cv bs (contours ! bc_contourIdx c) = Some q \<and> bc_quad c = qc_quad q)"

lemma candidate_of_ok:
  assumes "candidate_of cv bs contours imageSize i = Some (Some c)"
  shows "candidate_ok cv bs contours imageSize c \<and> bc_contourIdx c = i"
  using assms
  by (auto simp: candidate_of_def candidate_ok_def vec_at_def Let_def split: bind_splits if_splits)

text \<open>The score of a candidate with the lines within it.\<close>

definition final_score :: "'i board_opencv \<Rightarrow> board_stdlib \<Rightarrow> libm \<Rightarrow> 'i \<Rightarrow> board_candidate \<Rightarrow> double option" where
  "final_score cv bs lm img c =
     map_option (\<lambda>e. d_add (bc_score c) (d_mul GRID_SCORE_W (ge_score e))) (evaluateGridEvidence cv bs lm img (bc_quad c))"

text \<open>The candidate with its evidence and its final score.\<close>

definition with_evidence :: "board_candidate \<Rightarrow> grid_evidence \<Rightarrow> double \<Rightarrow> board_candidate" where
  "with_evidence c e s =
     c\<lparr>bc_verticalCount := ge_verticalCount e, bc_horizontalCount := ge_horizontalCount e, bc_score := s\<rparr>"

text \<open>The first of the candidates with the highest final score.\<close>

definition best_of :: "'i board_opencv \<Rightarrow> board_stdlib \<Rightarrow> libm \<Rightarrow> 'i \<Rightarrow> board_candidate list \<Rightarrow> nat \<Rightarrow> double \<Rightarrow> bool" where
  "best_of cv bs lm img cs i s \<longleftrightarrow>
     i < length cs \<and> final_score cv bs lm img (cs ! i) = Some s \<and>
     (\<forall>j < i. \<exists>t. final_score cv bs lm img (cs ! j) = Some t \<and> d_less t s) \<and>
     (\<forall>c \<in> set cs. \<exists>t. final_score cv bs lm img c = Some t \<and> \<not> d_less s t)"

lemma best_of_next:
  assumes "best_of cv bs lm img cs i s" "final_score cv bs lm img c = Some t" "d_less t s"
  shows "best_of cv bs lm img (c # cs) (Suc i) s"
proof -
  have "\<not> d_less s t" using assms(3) by (cases s; cases t) auto
  with assms show ?thesis by (auto simp: best_of_def All_less_Suc2)
qed

lemma refine_step:
  assumes "evaluateGridEvidence cv bs lm img (bc_quad c) = Some e" "final_score cv bs lm img c = Some t"
  shows "refine cv bs lm img c (b, s) = Some (if d_less s t then (with_evidence c e t, t) else (b, s))"
  using assms by (simp add: refine_def final_score_def with_evidence_def Let_def)

lemma refine_finds:
  assumes "loopM (refine cv bs lm img) cs (b0, s0) = Some (best, s)"
    and "\<forall>c \<in> set cs. \<exists>t. final_score cv bs lm img c = Some (Fin t)" "s0 = MInf \<or> s0 = Fin q"
  shows "best = b0 \<and> s = s0 \<and> (\<forall>c \<in> set cs. \<exists>t. final_score cv bs lm img c = Some t \<and> \<not> d_less s0 t) \<or>
    (\<exists>i e. best_of cv bs lm img cs i s \<and> d_less s0 s \<and>
       evaluateGridEvidence cv bs lm img (bc_quad (cs ! i)) = Some e \<and> best = with_evidence (cs ! i) e s)"
  using assms
proof (induction cs arbitrary: b0 s0 q)
  case (Cons c cs)
  from Cons.prems(2) obtain t where t: "final_score cv bs lm img c = Some (Fin t)" by auto
  then obtain e where e: "evaluateGridEvidence cv bs lm img (bc_quad c) = Some e" by (auto simp: final_score_def)
  note r = refine_step [OF e t]
  have fin: "\<forall>c \<in> set cs. \<exists>t. final_score cv bs lm img c = Some (Fin t)" using Cons.prems(2) by simp
  show ?case
  proof (cases "d_less s0 (Fin t)")
    case True
    then have "loopM (refine cv bs lm img) cs (with_evidence c e (Fin t), Fin t) = Some (best, s)" using Cons.prems(1) by (simp add: r)
    from Cons.IH [OF this fin disjI2 [OF refl]] show ?thesis
    proof
      assume "best = with_evidence c e (Fin t) \<and> s = Fin t \<and> (\<forall>c \<in> set cs. \<exists>t'. final_score cv bs lm img c = Some t' \<and> \<not> d_less (Fin t) t')"
      moreover from this t have "best_of cv bs lm img (c # cs) 0 (Fin t)" by (auto simp: best_of_def)
      ultimately show ?thesis using True e by (intro disjI2 exI [of _ 0] exI [of _ e]) simp
    next
      assume "\<exists>i e. best_of cv bs lm img cs i s \<and> d_less (Fin t) s \<and>
        evaluateGridEvidence cv bs lm img (bc_quad (cs ! i)) = Some e \<and> best = with_evidence (cs ! i) e s"
      then obtain i e' where i: "best_of cv bs lm img cs i s" "d_less (Fin t) s"
        "evaluateGridEvidence cv bs lm img (bc_quad (cs ! i)) = Some e'" "best = with_evidence (cs ! i) e' s" by blast
      from best_of_next [OF i(1) t i(2)] d_less_trans [OF True i(2)] i(3,4) show ?thesis
        by (intro disjI2 exI [of _ "Suc i"] exI [of _ e']) simp
    qed
  next
    case False
    then have "loopM (refine cv bs lm img) cs (b0, s0) = Some (best, s)" using Cons.prems(1) by (simp add: r)
    from Cons.IH [OF this fin Cons.prems(3)] show ?thesis
    proof
      assume "best = b0 \<and> s = s0 \<and> (\<forall>c \<in> set cs. \<exists>t. final_score cv bs lm img c = Some t \<and> \<not> d_less s0 t)"
      with False t show ?thesis by auto
    next
      assume "\<exists>i e. best_of cv bs lm img cs i s \<and> d_less s0 s \<and>
        evaluateGridEvidence cv bs lm img (bc_quad (cs ! i)) = Some e \<and> best = with_evidence (cs ! i) e s"
      then obtain i e' where i: "best_of cv bs lm img cs i s" "d_less s0 s"
        "evaluateGridEvidence cv bs lm img (bc_quad (cs ! i)) = Some e'" "best = with_evidence (cs ! i) e' s" by blast
      have "d_less (Fin t) s" using False Cons.prems(3) i(2) by (cases s) auto
      from best_of_next [OF i(1) t this] i(2-4) show ?thesis
        by (intro disjI2 exI [of _ "Suc i"] exI [of _ e']) simp
    qed
  qed
qed simp

text \<open>The contours that are looked at.\<close>

definition largest_contours :: "'i board_opencv \<Rightarrow> board_stdlib \<Rightarrow> contour list \<Rightarrow> nat list" where
  "largest_contours cv bs contours =
     take MAX_CANDIDATE_CONTOURS (bs_sort_indices bs (\<lambda>i. d_abs (bo_contourArea cv (contours ! i))) [0..<length contours])"

lemma set_map_filter_id: "set (List.map_filter id xs) = {x. Some x \<in> set xs}"
  by (force simp: map_filter_def)

text \<open>The candidates that these contours give.\<close>

definition board_candidates :: "'i board_opencv \<Rightarrow> board_stdlib \<Rightarrow> contour list \<Rightarrow> 'i \<Rightarrow> board_candidate set" where
  "board_candidates cv bs contours img =
     {c. \<exists>i \<in> set (largest_contours cv bs contours). candidate_of cv bs contours (bo_size cv img) i = Some (Some c)}"

text \<open>Every contour gives at most one of them.\<close>

lemma candidates_distinct:
  assumes "those (map (candidate_of cv bs contours sz) is) = Some fs"
  shows "bc_contourIdx ` set (List.map_filter id fs) \<subseteq> set is" "distinct is \<Longrightarrow> distinct (map bc_contourIdx (List.map_filter id fs))"
proof -
  have "bc_contourIdx ` set (List.map_filter id fs) \<subseteq> set is \<and> (distinct is \<longrightarrow> distinct (map bc_contourIdx (List.map_filter id fs)))"
    using assms
  proof (induction "is" arbitrary: fs)
    case (Cons i "is")
    then obtain r rs where f: "candidate_of cv bs contours sz i = Some r" "those (map (candidate_of cv bs contours sz) is) = Some rs" "fs = r # rs"
      by (auto split: option.splits)
    with Cons.IH [OF f(2)] candidate_of_ok [of cv bs contours sz i] show ?case
      by (cases r) (auto simp: map_filter_simps)
  qed (simp add: map_filter_simps)
  then show "bc_contourIdx ` set (List.map_filter id fs) \<subseteq> set is" "distinct is \<Longrightarrow> distinct (map bc_contourIdx (List.map_filter id fs))"
    by blast+
qed

text \<open>The candidates in the order in which the code looks at them, the highest score first.\<close>

definition ranking :: "'i board_opencv \<Rightarrow> board_stdlib \<Rightarrow> contour list \<Rightarrow> 'i \<Rightarrow> board_candidate list \<Rightarrow> bool" where
  "ranking cv bs contours img ranked \<longleftrightarrow>
     set ranked = board_candidates cv bs contours img \<and> distinct ranked \<and>
     sorted_wrt (\<lambda>a b. \<not> d_less (bc_score a) (bc_score b)) ranked"

lemma selectBest_spec:
  assumes "board_stdlib_ok bs" "selectBestBoardCandidate cv bs lm contours img = Some (Some best)"
    and "\<forall>c \<in> board_candidates cv bs contours img. \<exists>t. final_score cv bs lm img c = Some (Fin t)"
  shows "\<exists>ranked i e s. ranking cv bs contours img ranked \<and> best_of cv bs lm img (take REFINED_CANDIDATES ranked) i s \<and>
    evaluateGridEvidence cv bs lm img (bc_quad (ranked ! i)) = Some e \<and> best = with_evidence (ranked ! i) e s"
proof -
  let ?cands = "board_candidates cv bs contours img"
  from assms(2) obtain found s where f: "those (map (candidate_of cv bs contours (bo_size cv img)) (largest_contours cv bs contours)) = Some found"
    "List.map_filter id found \<noteq> []" "NaN \<notin> bc_score ` set (List.map_filter id found)"
    "NaN \<notin> (\<lambda>i. d_abs (bo_contourArea cv (contours ! i))) ` {..<length contours}"
    "loopM (refine cv bs lm img) (take REFINED_CANDIDATES (bs_sort_candidates bs (List.map_filter id found)))
      (bs_sort_candidates bs (List.map_filter id found) ! 0, MInf) = Some (best, s)"
    by (auto simp: selectBestBoardCandidate_def Let_def largest_contours_def vec_at_def split: if_splits bind_splits)
  define ranked where "ranked = bs_sort_candidates bs (List.map_filter id found)"
  from assms(1) f(3) have r: "mset ranked = mset (List.map_filter id found)" "sorted_wrt (\<lambda>a b. \<not> d_less (bc_score a) (bc_score b)) ranked"
    by (auto simp: board_stdlib_ok_def ranked_def)
  have "set ranked = {c. Some c \<in> set found}" using mset_eq_setD [OF r(1)] by (simp add: set_map_filter_id)
  also have "\<dots> = {c. Some (Some c) \<in> Some ` set found}" by (simp add: image_iff)
  also have "\<dots> = ?cands" unfolding those_Some_set [OF f(1), symmetric] board_candidates_def by (auto simp: image_iff eq_commute [of "Some (Some _)"])
  finally have set: "set ranked = ?cands" .
  have "NaN \<notin> (\<lambda>i. d_abs (bo_contourArea cv (contours ! i))) ` set [0..<length contours]" using f(4) by (simp add: atLeast0LessThan)
  then have "mset (bs_sort_indices bs (\<lambda>i. d_abs (bo_contourArea cv (contours ! i))) [0..<length contours]) = mset [0..<length contours]"
    using assms(1) unfolding board_stdlib_ok_def by blast
  then have "distinct (largest_contours cv bs contours)"
    unfolding largest_contours_def by (metis distinct_take distinct_upt mset_eq_imp_distinct_iff)
  from candidates_distinct(2) [OF f(1) this] have "distinct (List.map_filter id found)" by (simp add: distinct_map)
  with r(1) have "distinct ranked" by (metis mset_eq_imp_distinct_iff)
  with set r(2) have rank: "ranking cv bs contours img ranked" by (simp add: ranking_def)
  have ne: "take REFINED_CANDIDATES ranked \<noteq> []" using r(1) f(2) by (auto simp: REFINED_CANDIDATES_def)
  have fin: "\<forall>c \<in> set (take REFINED_CANDIDATES ranked). \<exists>t. final_score cv bs lm img c = Some (Fin t)"
    using assms(3) set by (auto dest: in_set_takeD)
  then obtain c t where "c \<in> set (take REFINED_CANDIDATES ranked)" "final_score cv bs lm img c = Some (Fin t)"
    using ne by (metis last_in_set)
  then have "\<not> (\<forall>c \<in> set (take REFINED_CANDIDATES ranked). \<exists>t. final_score cv bs lm img c = Some t \<and> \<not> d_less MInf t)" by fastforce
  with refine_finds [OF f(5) [folded ranked_def] fin disjI1 [OF refl]] obtain i e where
    i: "best_of cv bs lm img (take REFINED_CANDIDATES ranked) i s"
      "evaluateGridEvidence cv bs lm img (bc_quad (take REFINED_CANDIDATES ranked ! i)) = Some e"
      "best = with_evidence (take REFINED_CANDIDATES ranked ! i) e s"
    by blast
  from i(1) have "i < REFINED_CANDIDATES" by (simp add: best_of_def)
  then have "take REFINED_CANDIDATES ranked ! i = ranked ! i" by simp
  with rank i show ?thesis by (intro exI [of _ ranked] exI [of _ i] exI [of _ e] exI [of _ s]) simp
qed

lemma selectBest_None:
  assumes "board_stdlib_ok bs" "selectBestBoardCandidate cv bs lm contours img = Some r"
  shows "r = None \<longleftrightarrow> board_candidates cv bs contours img = {}"
proof (cases "contours = []")
  case True
  have "mset (bs_sort_indices bs (\<lambda>i. d_abs (bo_contourArea cv (contours ! i))) []) = mset []"
    using assms(1) unfolding board_stdlib_ok_def by fastforce
  with True assms(2) show ?thesis by (simp add: selectBestBoardCandidate_def board_candidates_def largest_contours_def)
next
  case False
  with assms(2) obtain found where f: "those (map (candidate_of cv bs contours (bo_size cv img)) (largest_contours cv bs contours)) = Some found"
    "r = None \<longleftrightarrow> List.map_filter id found = []"
    by (auto simp: selectBestBoardCandidate_def Let_def largest_contours_def split: if_splits bind_splits)
  have "List.map_filter id found = [] \<longleftrightarrow> (\<forall>c. Some c \<notin> set found)"
    using set_map_filter_id [of found] by (cases "List.map_filter id found") auto
  moreover have "Some c \<in> set found \<longleftrightarrow> c \<in> board_candidates cv bs contours img" for c
  proof -
    have "Some c \<in> set found \<longleftrightarrow> Some (Some c) \<in> Some ` set found" by (simp add: image_iff)
    also have "\<dots> \<longleftrightarrow> c \<in> board_candidates cv bs contours img" unfolding those_Some_set [OF f(1), symmetric] board_candidates_def
      by (auto simp: image_iff eq_commute [of "Some (Some _)"])
    finally show ?thesis .
  qed
  ultimately show ?thesis using f(2) by auto
qed

end
