(* ===== verification/Board_Search_Bounds.thy ===== *)
theory Board_Search_Bounds imports Board_Search begin

text \<open>
  No step of the search for the board faults: the corners are finite, the sides of what can be a board are not too
  short to divide by, and so every score that is sorted is a number.
\<close>

subsection \<open>OpenCV\<close>

definition vec_ok :: "rat \<Rightarrow> point \<Rightarrow> bool" where
  "vec_ok b p \<longleftrightarrow> d_in (fst p) (- b) b \<and> d_in (snd p) (- b) b"

abbreviation corner_ok :: "point \<Rightarrow> bool" where "corner_ok \<equiv> vec_ok (2 ^ 21)"

text \<open>A contour of an image of at most \<open>2 ^ 15\<close> pixels on a side.\<close>

definition contour_ok :: "contour \<Rightarrow> bool" where
  "contour_ok c \<longleftrightarrow> c \<noteq> [] \<and> length c < 2 ^ 31 \<and> (\<forall>(x, y) \<in> set c. 0 \<le> x \<and> x \<le> 2 ^ 15 \<and> 0 \<le> y \<and> y \<le> 2 ^ 15)"

text \<open>
  What is relied on of OpenCV besides \<open>warp_opencv_ok\<close>. A call keeps the size of an image of bytes with the channels it
  is documented for; contours lie in the image, their approximation has points of the contour, and lengths and areas are
  in the range of the points.
\<close>

definition board_opencv_ok :: "'i board_opencv \<Rightarrow> ('i \<Rightarrow> bool) \<Rightarrow> ('i \<Rightarrow> bool) \<Rightarrow> bool" where
  "board_opencv_ok cv bytes hom \<longleftrightarrow>
     warp_opencv_ok (bo_cv cv) bytes hom \<and>
     (\<forall>img n sz. image_ok (bo_cv cv) bytes n sz img \<longrightarrow>
        (n = 4 \<longrightarrow> gives (bo_cvtGrayA cv img) (image_ok (bo_cv cv) bytes 1 sz)) \<and>
        (\<forall>k. 0 < k \<longrightarrow> gives (bo_close cv img k) (image_ok (bo_cv cv) bytes n sz)) \<and>
        (n = 1 \<longrightarrow> gives (bo_otsu cv img) (image_ok (bo_cv cv) bytes 1 sz)) \<and>
        gives (bo_invert cv img) (image_ok (bo_cv cv) bytes n sz) \<and>
        (\<forall>mode. n = 1 \<and> fst sz \<le> 2 ^ 15 \<and> snd sz \<le> 2 ^ 15 \<longrightarrow>
           gives (bo_findContours cv img mode) (\<lambda>cs. \<forall>c \<in> set cs. contour_ok c))) \<and>
     (\<forall>c. contour_ok c \<longrightarrow>
        d_in (bo_contourArea cv c) (- (2 ^ 62)) (2 ^ 62) \<and>
        d_in (bo_arcLength cv c) 0 (2 ^ 50) \<and>
        (\<forall>eps. d_in eps 0 (2 ^ 50) \<longrightarrow> gives (bo_approxPolyDP cv c eps) contour_ok) \<and>
        (\<forall>p q r s. bo_minAreaRect cv c = (p, q, r, s) \<longrightarrow> corner_ok p \<and> corner_ok q \<and> corner_ok r \<and> corner_ok s)) \<and>
     (\<forall>ps. length ps = 4 \<and> (\<forall>p \<in> set ps. corner_ok p) \<longrightarrow> d_in (bo_quadArea cv ps) (- (2 ^ 44)) (2 ^ 44)) \<and>
     (\<forall>v k. k \<le> 22 \<longrightarrow> vec_ok (2 ^ k) v \<longrightarrow> d_in (wc_norm (bo_cv cv) v) 0 (2 ^ (k + 1)))"

lemma board_opencv_okD:
  assumes "board_opencv_ok cv bytes hom"
  shows "warp_opencv_ok (bo_cv cv) bytes hom"
    "contour_ok c \<Longrightarrow> d_in (bo_contourArea cv c) (- (2 ^ 62)) (2 ^ 62)"
    "contour_ok c \<Longrightarrow> d_in (bo_arcLength cv c) 0 (2 ^ 50)"
    "contour_ok c \<Longrightarrow> d_in eps 0 (2 ^ 50) \<Longrightarrow> gives (bo_approxPolyDP cv c eps) contour_ok"
    "contour_ok c \<Longrightarrow> bo_minAreaRect cv c = (p, q, r, s) \<Longrightarrow> corner_ok p \<and> corner_ok q \<and> corner_ok r \<and> corner_ok s"
    "length ps = 4 \<Longrightarrow> \<forall>p \<in> set ps. corner_ok p \<Longrightarrow> d_in (bo_quadArea cv ps) (- (2 ^ 44)) (2 ^ 44)"
    "k \<le> 22 \<Longrightarrow> vec_ok (2 ^ k) v \<Longrightarrow> d_in (wc_norm (bo_cv cv) v) 0 (2 ^ (k + 1))"
  using assms unfolding board_opencv_ok_def by (elim conjE; blast)+

lemma image_callsD:
  assumes "board_opencv_ok cv bytes hom"
  shows "image_ok (bo_cv cv) bytes 4 sz img \<Longrightarrow> gives (bo_cvtGrayA cv img) (image_ok (bo_cv cv) bytes 1 sz)"
    "image_ok (bo_cv cv) bytes n sz img \<Longrightarrow> 0 < k \<Longrightarrow> gives (bo_close cv img k) (image_ok (bo_cv cv) bytes n sz)"
    "image_ok (bo_cv cv) bytes 1 sz img \<Longrightarrow> gives (bo_otsu cv img) (image_ok (bo_cv cv) bytes 1 sz)"
    "image_ok (bo_cv cv) bytes n sz img \<Longrightarrow> gives (bo_invert cv img) (image_ok (bo_cv cv) bytes n sz)"
    "image_ok (bo_cv cv) bytes 1 sz img \<Longrightarrow> fst sz \<le> 2 ^ 15 \<Longrightarrow> snd sz \<le> 2 ^ 15 \<Longrightarrow>
       gives (bo_findContours cv img mode) (\<lambda>cs. \<forall>c \<in> set cs. contour_ok c)"
  using assms unfolding board_opencv_ok_def by blast+

lemma norm_ok: "board_opencv_ok cv bytes hom \<Longrightarrow> vec_ok (2 ^ 22) v \<Longrightarrow> d_in (wc_norm (bo_cv cv) v) 0 (2 ^ 24)"
  by (rule d_in_weaken, rule board_opencv_okD(7) [of cv bytes hom 22]) simp_all

subsection \<open>Corners\<close>

lemma f_int_in: "\<bar>x\<bar> \<le> 2 ^ 20 \<Longrightarrow> d_in (f_int x) (- (2 ^ 21)) (2 ^ 21)"
proof -
  assume x: "\<bar>x\<bar> \<le> 2 ^ 20"
  then have "- (2 ^ 21) \<le> x" "x \<le> 2 ^ 21" "\<bar>x\<bar> < 2 ^ 24" by auto
  then have "(of_int (- (2 ^ 21)) :: rat) \<le> of_int x" "(of_int x :: rat) \<le> of_int (2 ^ 21)" by (simp_all only: of_int_le_iff)
  with f_int_exact [OF \<open>\<bar>x\<bar> < 2 ^ 24\<close>] show ?thesis by simp
qed

lemma corner_of_ints: "\<bar>x\<bar> \<le> 2 ^ 20 \<Longrightarrow> \<bar>y\<bar> \<le> 2 ^ 20 \<Longrightarrow> corner_ok (f_int x, f_int y)"
  unfolding vec_ok_def fst_conv snd_conv by (intro conjI f_int_in)

lemma row_ok:
  assumes "board_stdlib_ok bs" "fst p \<noteq> NaN" "fst q \<noteq> NaN"
  shows "set (bs_sort_row bs [p, q]) = {p, q}" "length (bs_sort_row bs [p, q]) = 2"
proof -
  have "NaN \<notin> fst ` set [p, q]" using assms(2,3) by auto
  then have m: "mset (bs_sort_row bs [p, q]) = mset [p, q]" using assms(1) unfolding board_stdlib_ok_def by blast
  from mset_eq_setD [OF m] mset_eq_length [OF m] show "set (bs_sort_row bs [p, q]) = {p, q}" "length (bs_sort_row bs [p, q]) = 2" by simp_all
qed

lemma orderCorners_ok:
  assumes "board_stdlib_ok bs" "length quad = 4" "\<forall>p \<in> set quad. corner_ok p"
  shows "\<exists>r. orderCorners bs quad = Some r \<and> length r = 4 \<and> (\<forall>p \<in> set r. corner_ok p)"
proof (cases "distinct [first_min sum_less quad, first_min diff_less quad, first_max sum_less quad, first_max diff_less quad]")
  case True
  have less: "foldl (\<lambda>b i. if R i b then i else b) 0 [0..<length quad] < length quad" for R
    by (rule foldl_finds [where P = "\<lambda>b. b < length quad"]) (use assms(2) in auto)
  show ?thesis using True assms(2,3) less [of "\<lambda>i b. sum_less (quad ! i) (quad ! b)"] less [of "\<lambda>i b. diff_less (quad ! i) (quad ! b)"]
    less [of "\<lambda>i b. sum_less (quad ! b) (quad ! i)"] less [of "\<lambda>i b. diff_less (quad ! b) (quad ! i)"]
    by (simp add: orderCorners_def first_min_def first_max_def)
next
  case False
  define s where "s = sort_key (\<lambda>p. (snd p, fst p)) quad"
  have s: "set s = set quad" "length s = 4" using assms(2) by (simp_all add: s_def)
  have nan: "fst p \<noteq> NaN \<and> snd p \<noteq> NaN" if "p \<in> set quad" for p
    using assms(3) that by (auto simp: vec_ok_def dest: d_in_not_NaN)
  have at: "s ! i \<in> set quad" if "i < 4" for i using that s by (metis nth_mem)
  have mem: "\<forall>p \<in> set (bs_sort_row bs [s ! i, s ! j]). corner_ok p" "length (bs_sort_row bs [s ! i, s ! j]) = 2" if "i < 4" "j < 4" for i j
    using row_ok [OF assms(1), of "s ! i" "s ! j"] nan at [OF that(1)] at [OF that(2)] assms(3) by auto
  have el: "\<forall>k < 2. corner_ok (bs_sort_row bs [s ! i, s ! j] ! k)" if "i < 4" "j < 4" for i j
    using mem [OF that] by (metis nth_mem)
  have "\<not> (\<exists>p \<in> set quad. fst p = NaN \<or> snd p = NaN)" using nan by blast
  then show ?thesis using False assms(2) el [of 0 1] el [of 2 3]
    unfolding orderCorners_def corners_by_rows_def Let_def s_def [symmetric] if_not_P [OF False] by (simp del: distinct.simps)
qed

lemma eps_in:
  assumes "e \<in> set epsFactors" "d_in perimeter 0 (2 ^ 50)"
  shows "d_in (d_mul e perimeter) 0 (2 ^ 50)"
proof -
  have "d_in e 0 1" using assms(1) by (auto simp: epsFactors_def intro!: lit_in)
  then show ?thesis by (rule d_mul_in [OF _ assms(2)]) (simp_all add: fl64_num_power)
qed

lemma try_eps_ok:
  assumes "board_opencv_ok cv bytes hom" "board_stdlib_ok bs" "contour_ok c"
    and "set es \<subseteq> set epsFactors" "d_in perimeter 0 (2 ^ 50)"
  shows "\<exists>r. try_eps cv bs c perimeter es = Some r \<and> (\<forall>q. r = Some q \<longrightarrow> length q = 4 \<and> (\<forall>p \<in> set q. corner_ok p))"
  using assms(4)
proof (induction es)
  case (Cons e es)
  then have "d_in (d_mul e perimeter) 0 (2 ^ 50)" using eps_in assms(5) by simp
  from board_opencv_okD(4) [OF assms(1,3) this] obtain P where
    p: "bo_approxPolyDP cv c (d_mul e perimeter) = Some P" "contour_ok P" by (auto elim: givesE)
  then have "\<bar>x\<bar> \<le> 2 ^ 20 \<and> \<bar>y\<bar> \<le> 2 ^ 20" if "(x, y) \<in> set P" for x y using that by (fastforce simp: contour_ok_def)
  then have "\<forall>p \<in> set (map (\<lambda>(x, y). (f_int x, f_int y)) P). corner_ok p" using corner_of_ints by fastforce
  with orderCorners_ok [OF assms(2) _ this] Cons p(1) show ?case by (auto simp: Let_def)
qed simp

lemma contourToQuad_ok:
  assumes "board_opencv_ok cv bytes hom" "board_stdlib_ok bs" "contour_ok c"
  shows "\<exists>q. contourToQuad cv bs c = Some q \<and> length (qc_quad q) = 4 \<and> (\<forall>p \<in> set (qc_quad q). corner_ok p) \<and>
    d_in (qc_contourArea q) 0 (2 ^ 62)"
proof -
  from d_abs_in [OF board_opencv_okD(2) [OF assms(1,3)]] have area: "d_in (d_abs (bo_contourArea cv c)) 0 (2 ^ 62)" .
  from try_eps_ok [OF assms order_refl board_opencv_okD(3) [OF assms(1,3)]] obtain r where
    r: "contourToApproxQuad cv bs c = Some r" "\<And>q. r = Some q \<Longrightarrow> length q = 4 \<and> (\<forall>p \<in> set q. corner_ok p)"
    unfolding contourToApproxQuad_def by blast
  obtain p1 p2 p3 p4 where m: "bo_minAreaRect cv c = (p1, p2, p3, p4)" by (cases "bo_minAreaRect cv c")
  from board_opencv_okD(5) [OF assms(1,3) m] have "\<forall>p \<in> set [p1, p2, p3, p4]. corner_ok p" by simp
  from orderCorners_ok [OF assms(2) _ this] obtain o4 where
    "orderCorners bs [p1, p2, p3, p4] = Some o4" "length o4 = 4" "\<forall>p \<in> set o4. corner_ok p" by (auto simp del: set_simps)
  with r area m show ?thesis by (cases r) (simp_all add: contourToQuad_def)
qed

subsection \<open>The lines within a candidate\<close>

lemma angle64_loops_ok:
  assumes "d_in x (- 240) 240"
  shows "\<exists>b. angle64_up x = Some b \<and> d_in b (- 90) 240" "d_in x (- 90) 240 \<Longrightarrow> \<exists>b. angle64_down x = Some b \<and> d_in b (- 90) 90"
proof -
  show "\<exists>b. angle64_up x = Some b \<and> d_in b (- 90) 240"
  proof (cases "d_less x (Fin (- 90))")
    case True
    have "d_in x (- 240) (- 90)" using assms True by (auto simp: d_in_def)
    then have "d_in (d_add x (Fin 180)) (- 90) 90" by (intro d_add_in [of _ "- 240" "- 90" _ 180 180]) simp_all
    then show ?thesis using True by (auto simp: angle64_up.simps [of x] angle64_up.simps [of "d_add x (Fin 180)"] d_in_def)
  next
    case False
    with assms show ?thesis by (auto simp: angle64_up.simps [of x] d_in_def)
  qed
  show "\<exists>b. angle64_down x = Some b \<and> d_in b (- 90) 90" if x: "d_in x (- 90) 240"
  proof (cases "d_less (Fin 90) x")
    case True
    have "d_in x 90 240" using x True by (auto simp: d_in_def)
    then have "d_in (d_sub x (Fin 180)) (- 90) 90" by (intro d_sub_in [of _ 90 240 _ 180 180]) simp_all
    then show ?thesis using True by (auto simp: angle64_down.simps [of x] angle64_down.simps [of "d_sub x (Fin 180)"] d_in_def)
  next
    case False
    with x show ?thesis by (auto simp: angle64_down.simps [of x] d_in_def)
  qed
qed

lemma segment_angle64_ok:
  assumes "libm_ok lm" "segment_ok l"
  shows "\<exists>a. segment_angle64 lm l = Some a \<and> d_in a (- 90) 90"
proof -
  obtain x0 y0 x1 y1 where l: "l = (x0, y0, x1, y1)" by (cases l)
  let ?a = "libm_atan2 lm (d_int (y1 - y0)) (d_int (x1 - x0))"
  have d: "\<bar>x1 - x0\<bar> \<le> 2 ^ 15" "\<bar>y1 - y0\<bar> \<le> 2 ^ 15" using assms(2) by (auto simp: segment_ok_def l)
  then have "isfinite (d_int (y1 - y0))" "isfinite (d_int (x1 - x0))" by (simp_all add: d_int_in isfinite_def)
  with assms(1) have a: "d_in ?a (- 4) 4" by (simp add: libm_ok_def)
  have "d_in (d_mul ?a (Fin 180)) (- 720) 720" by (rule d_mul_abs [OF a, of _ 180]) simp_all
  then have i: "d_in (d_div (d_mul ?a (Fin 180)) d_pi) (- 240) 240"
    by (rule d_div_abs [where c = 3 and d = 4]) (simp_all add: d_pi_def)
  from angle64_loops_ok(1) [OF this] obtain b where
    b: "angle64_up (d_div (d_mul ?a (Fin 180)) d_pi) = Some b" "d_in b (- 90) 240" by blast
  from b(2) have "d_in b (- 240) 240" by (rule d_in_weaken) simp_all
  from angle64_loops_ok(2) [OF this b(2)] obtain c where "angle64_down b = Some c" "d_in c (- 90) 90" by blast
  with b d show ?thesis by (simp add: segment_angle64_def l int32_small)
qed

lemma add_lines_ok:
  assumes "libm_ok lm" "\<forall>l \<in> set ls. segment_ok l"
  shows "\<exists>v h. loopM (add_line lm) ls ([], []) = Some (v, h) \<and> (\<forall>l \<in> set v \<union> set h. line_ok l) \<and> length v + length h \<le> length ls"
proof -
  have "\<exists>s'. loopM (add_line lm) ls ([], []) = Some s' \<and>
    ((\<forall>l \<in> set (fst s') \<union> set (snd s'). line_ok l) \<and> length (fst s') + length (snd s') \<le> length ls)"
  proof (rule loopM_rule [where I = "\<lambda>done s. (\<forall>l \<in> set (fst s) \<union> set (snd s). line_ok l) \<and> length (fst s) + length (snd s) \<le> length done"])
    fix l :: segment and "done" :: "segment list" and s :: "line1d list \<times> line1d list"
    assume l: "l \<in> set ls" and I: "(\<forall>l \<in> set (fst s) \<union> set (snd s). line_ok l) \<and> length (fst s) + length (snd s) \<le> length done"
    have ok: "segment_ok l" using assms(2) l by blast
    from segment_angle64_ok [OF assms(1) ok] obtain a where a: "segment_angle64 lm l = Some a" by blast
    from lines_from_segments [OF ok] obtain v h where "vertical_line l = Some v" "line_ok v" "horizontal_line l = Some h" "line_ok h" by blast
    with a I show "\<exists>s'. add_line lm l s = Some s' \<and> (\<forall>l \<in> set (fst s') \<union> set (snd s'). line_ok l) \<and>
        length (fst s') + length (snd s') \<le> length (done @ [l])"
      by (cases s) (auto simp: add_line_def)
  qed simp
  then show ?thesis by auto
qed

lemma d_clamp_unit: "d_in x a b \<Longrightarrow> d_in (d_clamp x (Fin 0) (Fin 1)) 0 1"
  by (rule d_clamp_in) (auto dest: d_in_finite)

lemma lit_unit: "0 \<le> x \<Longrightarrow> x \<le> 1 \<Longrightarrow> d_in (lit x) 0 1"
  unfolding lit_def by (rule round64_in) simp_all

lemma d_int_bounds: "0 \<le> n \<Longrightarrow> n \<le> 2 ^ 31 \<Longrightarrow> d_in (d_int n) 0 (2 ^ 31)"
  using int_in [of 0 n "2 ^ 31"] by simp

lemma line_count_score_ok: "n \<le> 65536 \<Longrightarrow> d_in (boardLineCountScore (int n)) 0 1"
proof -
  assume n: "n \<le> 65536"
  let ?b = "min \<bar>int n - 9\<bar> (min \<bar>int n - 13\<bar> \<bar>int n - 19\<bar>)"
  have "0 \<le> ?b" "?b \<le> 2 ^ 31" using n by auto
  from d_int_bounds [OF this] have "d_in (d_div (d_int ?b) (Fin 8)) 0 (2 ^ 31)" by (rule d_div_in [where c = 8 and d = 8]) simp_all
  then have "d_in (d_sub (Fin 1) (d_div (d_int ?b) (Fin 8))) (- (2 ^ 31)) 1" by (rule d_sub_in [of _ 1 1, rotated]) simp_all
  then show ?thesis unfolding boardLineCountScore_def Let_def by (rule d_clamp_unit)
qed

lemma evidence_of_lines_ok:
  assumes "v + h < 2 ^ 31" "vc \<le> 65536" "hc \<le> 65536"
  shows "d_in (ge_score (evidence_of_lines v h vc hc)) 0 8"
proof -
  have "d_in (d_mul (boardLineCountScore (int vc)) (boardLineCountScore (int hc))) 0 (1 * 1)"
    by (rule d_mul_in [OF line_count_score_ok [OF assms(2)] line_count_score_ok [OF assms(3)]]) simp_all
  then have "d_in (d_sqrt (d_mul (boardLineCountScore (int vc)) (boardLineCountScore (int hc)))) 0 (2 * 1)" by (rule d_sqrt_in) simp
  from d_mul_in [of "Fin 2" 2 2, OF _ this, of 0 4]
  have p: "d_in (d_mul (Fin 2) (d_sqrt (d_mul (boardLineCountScore (int vc)) (boardLineCountScore (int hc))))) 0 4" by simp
  have "0 \<le> \<bar>int vc - int hc\<bar>" "\<bar>int vc - int hc\<bar> \<le> 2 ^ 31" using assms(2,3) by auto
  from d_int_bounds [OF this] have "d_in (d_div (d_int \<bar>int vc - int hc\<bar>) (Fin 12)) 0 (2 ^ 31)"
    by (rule d_div_in [where c = 12 and d = 12]) simp_all
  then have "d_in (d_sub (Fin 1) (d_div (d_int \<bar>int vc - int hc\<bar>) (Fin 12))) (- (2 ^ 31)) 1"
    by (rule d_sub_in [of _ 1 1, rotated]) simp_all
  note b = d_mul_in [OF lit_unit d_clamp_unit [OF this], of "8 / 10" 0 1]
  have "d_in (d_int (int v)) 0 (2 ^ 31)" "d_in (d_int (int h)) 0 (2 ^ 31)" 
    using assms(1) d_int_bounds [of "int v"] d_int_bounds [of "int h"] by simp_all
  then have "d_in (d_add (d_int (int v)) (d_int (int h))) 0 (2 ^ 32)" by (rule d_add_in) simp_all
  then have "d_in (d_div (d_add (d_int (int v)) (d_int (int h))) (Fin 220)) 0 (2 ^ 32)" by (rule d_div_in [where c = 220 and d = 220]) simp_all
  note s = d_mul_in [OF lit_unit d_clamp_unit [OF this], of "4 / 10" 0 1]
  have "d_in (d_add (d_mul (Fin 2) (d_sqrt (d_mul (boardLineCountScore (int vc)) (boardLineCountScore (int hc)))))
      (d_mul (lit (8 / 10)) (d_clamp (d_sub (Fin 1) (d_div (d_int \<bar>int vc - int hc\<bar>) (Fin 12))) (Fin 0) (Fin 1)))) 0 5"
    by (rule d_add_in [OF p b]) simp_all
  then show ?thesis unfolding evidence_of_lines_def Let_def grid_evidence.simps by (rule d_add_in [OF _ s]) simp_all
qed

lemma convertToGray_ok:
  assumes "board_opencv_ok cv bytes hom" "image_ok (bo_cv cv) bytes n sz img"
  shows "\<exists>r. convertToGray cv img = Some r \<and> (\<forall>gray. r = Some gray \<longrightarrow> image_ok (bo_cv cv) bytes 1 sz gray) \<and>
    (r = None \<longleftrightarrow> n \<notin> {1, 3, 4})"
proof -
  have n: "wc_channels (bo_cv cv) img = n" using assms(2) by (simp add: image_ok_def)
  have "n = 3 \<Longrightarrow> gives (wc_cvtGray (bo_cv cv) img) (image_ok (bo_cv cv) bytes 1 sz)"
    using warp_opencv_okD(2) [OF board_opencv_okD(1) [OF assms(1)] assms(2)] by simp
  moreover have "n = 4 \<Longrightarrow> gives (bo_cvtGrayA cv img) (image_ok (bo_cv cv) bytes 1 sz)" using image_callsD(1) [OF assms(1)] assms(2) by simp
  ultimately show ?thesis using assms(2) n by (auto simp: convertToGray_def gives_def)
qed

text \<open>The lines in the segments of a warped candidate.\<close>

lemma line_evidence_ok:
  assumes "stdlib_ok sl" "libm_ok lm" "\<forall>l \<in> set ls. segment_ok l" "length ls < 2 ^ 31"
  shows "\<exists>v h vc hc. loopM (add_line lm) ls ([], []) = Some (v, h) \<and> clusterWeighted1D sl v (Fin 15) = Some vc \<and>
      clusterWeighted1D sl h (Fin 15) = Some hc \<and> d_in (ge_score (evidence_of_lines (length v) (length h) (length vc) (length hc))) 0 8"
proof -
  from add_lines_ok [OF assms(2,3)] obtain v h where vh: "loopM (add_line lm) ls ([], []) = Some (v, h)"
    "\<forall>l \<in> set v. line_ok l" "\<forall>l \<in> set h. line_ok l" "length v + length h \<le> length ls" by blast
  have n: "length v < 2 ^ 31" "length h < 2 ^ 31" "length v + length h < 2 ^ 31" using vh(4) assms(4) by simp_all
  from clusterWeighted1D_ok [OF assms(1) vh(2) n(1)] clusterWeighted1D_ok [OF assms(1) vh(3) n(2)] obtain vc hc where
    c: "clusterWeighted1D sl v (Fin 15) = Some vc" "clusterWeighted1D sl h (Fin 15) = Some hc"
    "lines_ok vc" "lines_ok hc" by blast
  then have "length vc \<le> 65536" "length hc \<le> 65536" by (simp_all add: lines_ok_def)
  from evidence_of_lines_ok [OF n(3) this] vh(1) c(1,2) show ?thesis by blast
qed

lemma length_warp_dst [simp]: "length warp_dst = 4"
  by (simp add: warp_dst_def Let_def)

text \<open>The image warped to a quadrilateral, as the code does it for a candidate and for the best of them.\<close>

lemma warped_ok:
  assumes "warp_opencv_ok cv bytes hom" "image_ok cv bytes n sz img" "n \<le> 4" "fst sz < 32767" "snd sz < 32767" "length quad = 4"
  shows "\<exists>H warped. wc_getPerspectiveTransform cv quad warp_dst = Some H \<and> hom H \<and>
    wc_warpPerspective cv img H WARP_OUT_SIZE = Some warped \<and> image_ok cv bytes n (1000, 1000) warped"
proof -
  obtain H where H: "wc_getPerspectiveTransform cv quad warp_dst = Some H" "hom H"
    using warp_opencv_okD(10) [OF assms(1,6) length_warp_dst] by (auto elim: givesE)
  from warp_opencv_okD(7) [OF assms(1-5) H(2), of WARP_OUT_SIZE] H show ?thesis by (auto simp: WARP_OUT_SIZE_def elim: givesE)
qed

lemma evaluateGridEvidence_ok:
  assumes "board_opencv_ok cv bytes hom" "board_stdlib_ok bs" "libm_ok lm" "source_ok (bo_cv cv) bytes img"
  shows "\<exists>e. evaluateGridEvidence cv bs lm img quad = Some e \<and> d_in (ge_score e) 0 8"
proof -
  have wc: "warp_opencv_ok (bo_cv cv) bytes hom" by (rule board_opencv_okD(1) [OF assms(1)])
  have sl: "stdlib_ok (bs_stdlib bs)" using assms(2) by (simp add: board_stdlib_ok_def)
  have z: "d_in (ge_score no_evidence) 0 8" by (simp add: no_evidence_def)
  from assms(4) obtain n sz where img: "image_ok (bo_cv cv) bytes n sz img" "n \<le> 4" "fst sz < 32767" "snd sz < 32767"
    by (auto simp: source_ok_def)
  show ?thesis
  proof (cases "length quad = 4")
    case False
    with z show ?thesis by (simp add: evaluateGridEvidence_def)
  next
    case True
    from warped_ok [OF wc img True] obtain H warped where w: "wc_getPerspectiveTransform (bo_cv cv) quad warp_dst = Some H"
      "wc_warpPerspective (bo_cv cv) img H WARP_OUT_SIZE = Some warped" "image_ok (bo_cv cv) bytes n (1000, 1000) warped" by blast
    have ne: "\<not> wc_empty (bo_cv cv) img" "\<not> wc_empty (bo_cv cv) warped" using img(1) w(3) by (simp_all add: image_ok_def)
    from convertToGray_ok [OF assms(1) w(3)] obtain r where r: "convertToGray cv warped = Some r"
      "\<And>gray. r = Some gray \<Longrightarrow> image_ok (bo_cv cv) bytes 1 (1000, 1000) gray" by blast
    show ?thesis
    proof (cases r)
      case None
      with z ne True w(1,2) r(1) show ?thesis by (simp add: evaluateGridEvidence_def Let_def)
    next
      case (Some gray)
      from grey_segments [OF wc r(2) [OF Some]] obtain blur canny edges ls where
        e: "wc_GaussianBlur (bo_cv cv) gray 9 (lit (15 / 10)) = Some blur" "wc_Canny (bo_cv cv) blur (Fin 50) (Fin 120) = Some canny"
        "wc_dilate (bo_cv cv) canny = Some edges"
        "wc_HoughLinesP (bo_cv cv) edges (Fin 1) (d_div d_pi (Fin 180)) 80 (Fin 100) (Fin 20) = Some ls"
        and ls: "\<forall>l \<in> set ls. segment_ok l" "length ls < 2 ^ 31" by auto
      from line_evidence_ok [OF sl assms(3) ls] obtain v h vc hc where L: "loopM (add_line lm) ls ([], []) = Some (v, h)"
        "clusterWeighted1D (bs_stdlib bs) v (Fin 15) = Some vc" "clusterWeighted1D (bs_stdlib bs) h (Fin 15) = Some hc"
        "d_in (ge_score (evidence_of_lines (length v) (length h) (length vc) (length hc))) 0 8" by blast
      have "evaluateGridEvidence cv bs lm img quad = Some (if ls = [] then no_evidence
          else evidence_of_lines (length v) (length h) (length vc) (length hc))"
        using ne True w(1,2) r(1) Some unfolding evaluateGridEvidence_def Let_def
        by (simp add: L(1-3) e [simplified])
      with L(4) z show ?thesis by auto
    qed
  qed
qed

subsection \<open>The score of a candidate\<close>

lemma pt_add_ok: "vec_ok a p \<Longrightarrow> vec_ok b q \<Longrightarrow> fl32_num c \<Longrightarrow> a + b \<le> c \<Longrightarrow> vec_ok c (pt_add p q)"
  unfolding vec_ok_def pt_add_def fst_conv snd_conv
  by (elim conjE, intro conjI) (erule (1) f_add_in; simp add: fl32_num_minus)+

lemma pt_sub_in: "vec_ok a p \<Longrightarrow> vec_ok b q \<Longrightarrow> fl32_num c \<Longrightarrow> a + b \<le> c \<Longrightarrow> vec_ok c (pt_sub p q)"
  unfolding vec_ok_def pt_sub_def fst_conv snd_conv
  by (elim conjE, intro conjI) (erule (1) f_sub_in; simp add: fl32_num_minus)+

lemma pt_sub_ok: "corner_ok p \<Longrightarrow> corner_ok q \<Longrightarrow> vec_ok (2 ^ 22) (pt_sub p q)"
  by (erule (1) pt_sub_in) simp_all

lemma pt_dot_ok:
  assumes "vec_ok (2 ^ 22) v" "vec_ok (2 ^ 22) w"
  shows "d_in (pt_dot v w) (- (2 ^ 45)) (2 ^ 45)"
proof -
  have m: "d_in (f_mul x y) (- (2 ^ 44)) (2 ^ 44)" if "d_in x (- (2 ^ 22)) (2 ^ 22)" "d_in y (- (2 ^ 22)) (2 ^ 22)" for x y
    by (rule f_mul_abs [OF that]) (simp_all only: fl32_num_power, simp)
  have n: "fl32_num (- (2 ^ 45))" "fl32_num (2 ^ 45)" by (simp_all only: fl32_num_power fl32_num_minus)
  show ?thesis unfolding pt_dot_def using assms n
    by (intro f_add_in [of _ "- (2 ^ 44)" "2 ^ 44" _ "- (2 ^ 44)" "2 ^ 44"] m) (simp_all only: vec_ok_def, simp_all)
qed

lemma cosine_ok:
  assumes "vec_ok (2 ^ 22) v" "vec_ok (2 ^ 22) w" "d_in n (1 / 2 ^ 20) (2 ^ 24)" "d_in m (1 / 2 ^ 20) (2 ^ 24)"
  shows "d_in (d_abs (d_div (pt_dot v w) (d_mul n m))) 0 (2 ^ 85)"
proof -
  have "d_in (d_mul n m) (1 / 2 ^ 40) (2 ^ 48)"
    by (rule d_mul_in [OF assms(3,4)]) (simp_all only: fl64_num_small fl64_num_power, simp_all)
  then have "d_in (d_div (pt_dot v w) (d_mul n m)) (- (2 ^ 85)) (2 ^ 85)"
    by (rule d_div_abs [OF pt_dot_ok [OF assms(1,2)]]) (simp_all only: fl64_num_power, simp_all)
  then show ?thesis by (rule d_abs_in)
qed

lemma norm_above:
  assumes "d_in n 0 (2 ^ 24)" "\<not> d_le n (lit (1 / 10 ^ 6))"
  shows "d_in n (1 / 2 ^ 20) (2 ^ 24)"
proof -
  have "d_in (lit (1 / 10 ^ 6)) (1 / 2 ^ 20) 1" by (rule lit_in) (simp_all only: fl64_num_small fl64_num_simps, simp_all)
  with assms show ?thesis by (auto simp: d_in_def d_le_def)
qed

lemma parallelCosine_ok:
  assumes "board_opencv_ok cv bytes hom" "vec_ok (2 ^ 22) v" "vec_ok (2 ^ 22) w"
  shows "d_in (parallelCosine cv v w) 0 (2 ^ 85)"
  using cosine_ok [OF assms(2,3) norm_above [OF norm_ok [OF assms(1,2)]] norm_above [OF norm_ok [OF assms(1,3)]]]
  by (simp add: parallelCosine_def Let_def)

lemma cornerCosine_ok:
  assumes "board_opencv_ok cv bytes hom" "corner_ok p" "corner_ok q" "corner_ok r"
  shows "d_in (cornerCosine cv p q r) 0 (2 ^ 85)"
proof -
  note v = pt_sub_ok [OF assms(2,3)] and w = pt_sub_ok [OF assms(4,3)]
  show ?thesis
    using cosine_ok [OF v w norm_above [OF norm_ok [OF assms(1) v]] norm_above [OF norm_ok [OF assms(1) w]]]
    by (simp add: cornerCosine_def Let_def)
qed

lemma side_ok:
  assumes "board_opencv_ok cv bytes hom" "\<forall>p \<in> set quad. corner_ok p" "length quad = 4" "i < 4" "j < 4"
  shows "d_in (side cv quad i j) 0 (2 ^ 24)"
  unfolding side_def using assms by (intro norm_ok pt_sub_ok) simp_all

lemma max_cosine_ok:
  assumes "board_opencv_ok cv bytes hom" "\<forall>p \<in> set quad. corner_ok p" "length quad = 4"
  shows "d_in (max_cosine cv quad) 0 (2 ^ 85)"
proof -
  have c: "d_in (cornerCosine cv (quad ! i) (quad ! j) (quad ! k)) 0 (2 ^ 85)" if "i < 4" "j < 4" "k < 4" for i j k
    using assms that by (intro cornerCosine_ok) simp_all
  show ?thesis unfolding max_cosine_def Let_def by (intro max_element_in ballI) (use c in auto)
qed

lemma ratio_ok:
  assumes "d_in a (1 / 32) (2 ^ 24)" "d_in b (1 / 32) (2 ^ 24)"
  shows "d_in (ratio a b) 0 (2 ^ 29)"
proof -
  have m: "d_in (d_min a b) (1 / 32) (2 ^ 24)" "d_in (d_max a b) (1 / 32) (2 ^ 24)" using assms by (auto simp: d_min_def d_max_def)
  show ?thesis unfolding ratio_def
    by (rule d_div_in [OF m]) (simp_all only: fl64_num_power fl64_num_simps, simp_all)
qed

lemma estimate_ok:
  assumes "d_in a (1 / 32) (2 ^ 24)" "d_in b (1 / 32) (2 ^ 24)"
  shows "d_in (d_mul (lit (1 / 2)) (d_add a b)) (1 / 32) (2 ^ 24)"
proof -
  have s: "d_in (d_add a b) (1 / 16) (2 ^ 25)" by (rule d_add_in [OF assms]) (simp_all only: fl64_num_small fl64_num_power, simp_all)
  show ?thesis unfolding lit_half(1)
    by (rule d_mul_in [OF _ s, of "Fin (1 / 2)" "1 / 2" "1 / 2"]) (simp_all only: fl64_num_small fl64_num_power, simp_all)
qed

lemma d_sum_in:
  assumes "d_in a (- (2 ^ k)) (2 ^ k)" "d_in x (- (2 ^ k)) (2 ^ k)" "k < 900"
  shows "d_in (d_add a x) (- (2 ^ Suc k)) (2 ^ Suc k)"
proof -
  have "fl64_num (2 ^ Suc k)" using assms(3) by (intro fl64_num_power) simp
  moreover from this have "fl64_num (- (2 ^ Suc k))" by (rule fl64_num_minus)
  ultimately show ?thesis by (intro d_add_in [OF assms(1,2)]) simp_all
qed

lemma d_sums_in:
  assumes "d_in a (- (2 ^ k)) (2 ^ k)" "\<forall>x \<in> set xs. d_in x (- (2 ^ k)) (2 ^ k)" "k + length xs \<le> 900"
  shows "d_in (foldl d_add a xs) (- (2 ^ (k + length xs))) (2 ^ (k + length xs))"
  using assms
proof (induction xs arbitrary: a k)
  case (Cons x xs)
  have "\<forall>y \<in> set xs. d_in y (- (2 ^ Suc k)) (2 ^ Suc k)"
    using Cons.prems(2) by (auto elim!: d_in_weaken)
  from Cons.IH [OF d_sum_in this] Cons.prems show ?case by simp
qed simp

text \<open>The sides of what can be a board are not too short to divide by.\<close>

lemma d_min_element_le:
  assumes "d_in x a b" "\<forall>y \<in> set xs. d_in y a b" "\<not> d_less (d_min_element x xs) m" "d_in m c d"
  shows "\<forall>y \<in> insert x (set xs). d_in y c b"
proof -
  obtain r where r: "x = Fin r" "a \<le> r" "r \<le> b" using assms(1) by (elim d_inE)
  have "\<forall>y \<in> set xs. isfinite y" using assms(2) by (auto dest: d_in_finite)
  from min_element_least [OF this, of r] obtain l where
    l: "d_min_element x xs = Fin l" "l \<le> r" "\<And>v. Fin v \<in> set xs \<Longrightarrow> l \<le> v" unfolding r(1) by blast
  from assms(3,4) l(1) have "c \<le> l" by (auto simp: d_in_def)
  with assms(2) l(2,3) r show ?thesis by (fastforce simp: d_in_def)
qed

lemma plausible_sides:
  assumes "board_opencv_ok cv bytes hom" "\<forall>p \<in> set quad. corner_ok p" "isPlausibleBoardQuad cv quad (w, h)"
    and "1 \<le> w" "w \<le> 2 ^ 20" "1 \<le> h" "h \<le> 2 ^ 20"
  shows "length quad = 4" "d_in (side cv quad 1 0) (1 / 32) (2 ^ 24)" "d_in (side cv quad 2 1) (1 / 32) (2 ^ 24)"
    "d_in (side cv quad 2 3) (1 / 32) (2 ^ 24)" "d_in (side cv quad 3 0) (1 / 32) (2 ^ 24)"
proof -
  show len: "length quad = 4" using assms(3) by (auto simp: isPlausibleBoardQuad_def split: if_splits)
  have short: "\<not> d_less (d_min_element (side cv quad 1 0) [side cv quad 2 1, side cv quad 2 3, side cv quad 3 0])
      (d_mul (lit (5 / 100)) (d_int (min w h)))"
    using assms(3) by (simp add: isPlausibleBoardQuad_def len Let_def split: if_splits)
  have sides: "d_in (side cv quad i j) 0 (2 ^ 24)" if "i < 4" "j < 4" for i j using side_ok [OF assms(1,2) len that] .
  have m: "d_in (d_int (min w h)) (of_int 1) (of_int (2 ^ 20))" using assms(4-7) by (intro int_in) auto
  have "d_in (lit (5 / 100)) (1 / 32) 1" by (rule lit_in) (simp_all add: fl64_num_small)
  from d_mul_in [OF this m, of "1 / 32" "2 ^ 20"] have "d_in (d_mul (lit (5 / 100)) (d_int (min w h))) (1 / 32) (2 ^ 20)"
    using fl64_num_small(4) fl64_num_power [of 20] by simp
  from d_min_element_le [OF sides _ short this] sides show "d_in (side cv quad 1 0) (1 / 32) (2 ^ 24)" "d_in (side cv quad 2 1) (1 / 32) (2 ^ 24)"
    "d_in (side cv quad 2 3) (1 / 32) (2 ^ 24)" "d_in (side cv quad 3 0) (1 / 32) (2 ^ 24)" by auto
qed

text \<open>The distance of the centre from the centre of the image.\<close>

lemma centre_ok:
  assumes "\<forall>p \<in> set quad. corner_ok p" "length quad = 4" "1 \<le> w" "w \<le> 2 ^ 20" "1 \<le> h" "h \<le> 2 ^ 20"
    and tot: "tot = pt_add (pt_add (pt_add (quad ! 0) (quad ! 1)) (quad ! 2)) (quad ! 3)"
  shows "vec_ok (2 ^ 22) (pt_sub (f_mul (flit (1 / 4)) (fst tot), f_mul (flit (1 / 4)) (snd tot))
    (f_mul (flit (1 / 2)) (f_int (w - 1)), f_mul (flit (1 / 2)) (f_int (h - 1))))"
proof -
  have q: "corner_ok (quad ! i)" if "i < 4" for i using assms(1,2) that by simp
  have "vec_ok (2 ^ 22) (pt_add (quad ! 0) (quad ! 1))" by (rule pt_add_ok [OF q q]) simp_all
  then have "vec_ok 6291456 (pt_add (pt_add (quad ! 0) (quad ! 1)) (quad ! 2))" by (rule pt_add_ok [OF _ q]) simp_all
  then have t: "vec_ok (2 ^ 23) tot" unfolding tot by (rule pt_add_ok [OF _ q]) simp_all
  have "fl32_num (1 / 4)" using fl32_num_pow2 [of "-2"] by (simp add: power_int_def power2_eq_square)
  have "fl32_num (1 / 2)" using fl32_num_pow2 [of "-1"] by (simp add: power_int_def)
  have l: "d_in (flit (1 / 4)) (- (1 / 4)) (1 / 4)" using \<open>fl32_num (1 / 4)\<close> by (simp add: flit_def round32_exact)
  have c: "d_in (f_mul (flit (1 / 4)) x) (- (2 ^ 21)) (2 ^ 21)" if "d_in x (- (2 ^ 23)) (2 ^ 23)" for x
    by (rule f_mul_abs [OF l that]) simp_all
  have i: "d_in (f_mul (flit (1 / 2)) (f_int (n - 1))) 0 (2 ^ 20)" if n: "1 \<le> n" "n \<le> 2 ^ 20" for n
  proof -
    have "(of_int 0 :: rat) \<le> of_int (n - 1)" "(of_int (n - 1) :: rat) \<le> of_int (2 ^ 20)" using n by (simp_all only: of_int_le_iff)
    then have "d_in (f_int (n - 1)) 0 (2 ^ 20)" using n f_int_exact [of "n - 1"] by simp
    moreover have "d_in (flit (1 / 2)) (1 / 2) (1 / 2)" using \<open>fl32_num (1 / 2)\<close> by (simp add: flit_def round32_exact)
    ultimately show ?thesis by (intro f_mul_in [of _ "1 / 2" "1 / 2" _ 0 "2 ^ 20"]) simp_all
  qed
  have "vec_ok (2 ^ 21) (f_mul (flit (1 / 4)) (fst tot), f_mul (flit (1 / 4)) (snd tot))"
    using t c unfolding vec_ok_def fst_conv snd_conv by blast
  moreover have "vec_ok (2 ^ 20) (f_mul (flit (1 / 2)) (f_int (w - 1)), f_mul (flit (1 / 2)) (f_int (h - 1)))"
    using i [OF assms(3,4)] i [OF assms(5,6)] unfolding vec_ok_def fst_conv snd_conv by (auto elim!: d_in_weaken)
  ultimately show ?thesis by (rule pt_sub_in) simp_all
qed

lemma diagonal_ok:
  assumes "1 \<le> w" "w \<le> 2 ^ 20" "1 \<le> h" "h \<le> 2 ^ 20"
  shows "d_in (d_mul (lit (60 / 100)) (d_sqrt (d_add (d_mul (d_int w) (d_int w)) (d_mul (d_int h) (d_int h))))) (1 / 4) (2 ^ 22)"
proof -
  have sq: "1 \<le> n * n \<and> n * n \<le> 2 ^ 20 * 2 ^ 20" if "1 \<le> n" "n \<le> 2 ^ 20" for n :: int
    using mult_mono [of 1 n 1 n] mult_mono [of n "2 ^ 20" n "2 ^ 20"] that by simp
  have m: "d_mul (d_int n) (d_int n) = Fin (of_int (n * n))" if "1 \<le> n" "n \<le> 2 ^ 20" for n
    using sq [OF that] that round64_int [of "n * n"] by (simp add: d_int_in)
  let ?n = "w * w + h * h"
  have n: "2 \<le> ?n" "?n \<le> 2 ^ 41" using sq [OF assms(1,2)] sq [OF assms(3,4)] by simp_all
  then have s: "d_add (d_mul (d_int w) (d_int w)) (d_mul (d_int h) (d_int h)) = Fin (of_int ?n)"
    using round64_int [of ?n] by (simp add: m [OF assms(1,2)] m [OF assms(3,4)])
  have b: "(of_int ?n :: rat) \<le> of_int (2 ^ 41)" "(of_int 2 :: rat) \<le> of_int ?n" using n by (simp_all only: of_int_le_iff)
  have root: "d_in (d_sqrt (Fin r)) (1 / 2) (2 ^ 22)" if "2 \<le> r" "r \<le> 2 ^ 41" for r
  proof -
    have "1 - 1 / 2 \<le> fl64_sqrt r" by (rule fl64_sqrt_ge) (use that in simp_all)
    moreover have "fl64_sqrt r \<le> 2 * 2 ^ 21" by (rule fl64_sqrt_bounds(2)) (use that in simp_all)
    ultimately show ?thesis using that(1) by simp
  qed
  have d: "d_in (d_sqrt (Fin (of_int ?n))) (1 / 2) (2 ^ 22)" by (rule root) (use b in simp_all)
  have l: "d_in (lit (60 / 100)) (1 / 2) 1" by (rule lit_in) (simp_all add: fl64_num_small)
  show ?thesis unfolding s by (rule d_mul_in [OF l d]) (simp_all add: fl64_num_small fl64_num_power)
qed

lemma scaled_in:
  assumes "d_in x (- (2 ^ k)) (2 ^ k)" "0 \<le> c" "c \<le> 2" "k < 900"
  shows "d_in (d_mul (lit c) x) (- (2 ^ Suc k)) (2 ^ Suc k)"
proof -
  have "d_in (lit c) (- 2) 2" using assms(2,3) by (intro lit_in) (simp_all add: fl64_num_minus)
  then show ?thesis using assms(1,4) by (intro d_mul_abs [where a = 2 and b = "2 ^ k"] fl64_num_power) simp_all
qed

lemma d_in_wide: "d_in x 0 (2 ^ k) \<Longrightarrow> k \<le> n \<Longrightarrow> d_in x (- (2 ^ n)) (2 ^ n)"
proof (erule d_in_weaken)
  assume "k \<le> n"
  then have "(2 :: rat) ^ k \<le> 2 ^ n" by (intro power_increasing) simp_all
  then show "(2 :: rat) ^ k \<le> 2 ^ n" .
  show "- (2 ^ n) \<le> (0 :: rat)" by simp
qed

lemma boardQuadScore_ok:
  assumes "board_opencv_ok cv bytes hom" "\<forall>p \<in> set quad. corner_ok p" "isPlausibleBoardQuad cv quad (w, h)"
    and "1 \<le> w" "w \<le> 2 ^ 20" "1 \<le> h" "h \<le> 2 ^ 20"
  shows "d_in (boardQuadScore cv quad (w, h) fromApprox) (- (2 ^ 98)) (2 ^ 98)"
proof -
  note len = plausible_sides(1) [OF assms] and s = plausible_sides(2-5) [OF assms]
  have q: "corner_ok (quad ! i)" if "i < 4" for i using assms(2) len that by simp
  define areaFrac where "areaFrac = d_div (d_abs (bo_quadArea cv quad)) (d_mul (d_int w) (d_int h))"
  define squareness where "squareness = ratio (d_mul (lit (1 / 2)) (d_add (side cv quad 1 0) (side cv quad 2 3)))
    (d_mul (lit (1 / 2)) (d_add (side cv quad 3 0) (side cv quad 2 1)))"
  define balance where "balance = d_mul (ratio (side cv quad 1 0) (side cv quad 2 3)) (ratio (side cv quad 3 0) (side cv quad 2 1))"
  define par where "par = d_mul (lit (1 / 2)) (d_add (parallelCosine cv (pt_sub (quad ! 1) (quad ! 0)) (pt_sub (quad ! 2) (quad ! 3)))
            (parallelCosine cv (pt_sub (quad ! 2) (quad ! 1)) (pt_sub (quad ! 3) (quad ! 0))))"
  define rightness where "rightness = d_sub (Fin 1) (max_cosine cv quad)"
  define tot where "tot = pt_add (pt_add (pt_add (quad ! 0) (quad ! 1)) (quad ! 2)) (quad ! 3)"
  define dist where "dist = wc_norm (bo_cv cv) (pt_sub (f_mul (flit (1 / 4)) (fst tot), f_mul (flit (1 / 4)) (snd tot))
    (f_mul (flit (1 / 2)) (f_int (w - 1)), f_mul (flit (1 / 2)) (f_int (h - 1))))"
  define centre where "centre = d_clamp (d_sub (Fin 1) (d_div dist (d_mul (lit (60 / 100))
    (d_sqrt (d_add (d_mul (d_int w) (d_int w)) (d_mul (d_int h) (d_int h))))))) (Fin 0) (Fin 1)"
  define bonus where "bonus = (if fromApprox then lit (15 / 100) else Fin 0)"
  have score: "boardQuadScore cv quad (w, h) fromApprox = foldl d_add (d_mul (lit (12 / 10)) areaFrac)
    [d_mul (lit (13 / 10)) squareness, d_mul (lit (12 / 10)) balance, d_mul (lit (11 / 10)) par,
     d_mul (lit (6 / 10)) rightness, d_mul (lit (8 / 10)) centre, bonus]"
    unfolding boardQuadScore_def Let_def fst_conv snd_conv areaFrac_def squareness_def balance_def par_def rightness_def
      centre_def dist_def tot_def bonus_def by (rule refl)
  have wh: "d_in (d_int w) (of_int 1) (of_int (2 ^ 20))" "d_in (d_int h) (of_int 1) (of_int (2 ^ 20))"
    by (rule int_in; use assms(4-7) in simp)+
  have "d_in (d_mul (d_int w) (d_int h)) 1 (2 ^ 40)" by (rule d_mul_in [OF wh]) (simp_all add: fl64_num_power)
  then have 1: "d_in areaFrac 0 (2 ^ 44)" unfolding areaFrac_def
    by (rule d_div_in [OF d_abs_in [OF board_opencv_okD(6) [OF assms(1) len assms(2)]]]) (simp_all add: fl64_num_power)
  have 2: "d_in squareness 0 (2 ^ 29)" unfolding squareness_def by (intro ratio_ok estimate_ok s)
  have 3: "d_in balance 0 (2 ^ 58)" unfolding balance_def
    by (rule d_mul_in [OF ratio_ok [OF s(1,3)] ratio_ok [OF s(4,2)]]) (simp_all only: fl64_num_power fl64_num_simps, simp_all)
  have "d_in (d_add (parallelCosine cv (pt_sub (quad ! 1) (quad ! 0)) (pt_sub (quad ! 2) (quad ! 3)))
      (parallelCosine cv (pt_sub (quad ! 2) (quad ! 1)) (pt_sub (quad ! 3) (quad ! 0)))) 0 (2 ^ 86)"
    by (rule d_add_in [OF parallelCosine_ok [OF assms(1)] parallelCosine_ok [OF assms(1)]])
      (simp_all only: assms(1) pt_sub_ok q fl64_num_power fl64_num_simps, simp_all)
  from scaled_in [OF d_in_wide [OF this order_refl], of "1 / 2"] have 4: "d_in par (- (2 ^ 87)) (2 ^ 87)" by (simp add: par_def)
  have 5: "d_in rightness (- (2 ^ 85)) (2 ^ 85)" unfolding rightness_def
    by (rule d_sub_in [OF _ max_cosine_ok [OF assms(1,2) len], of _ 1 1], simp, intro fl64_num_minus fl64_num_power, simp,
      intro fl64_num_power, simp_all)
  have "d_in dist 0 (2 ^ 24)" unfolding dist_def
    by (rule norm_ok [OF assms(1) centre_ok [OF assms(2) len assms(4-7) tot_def]])
  then have "d_in (d_div dist (d_mul (lit (60 / 100)) (d_sqrt (d_add (d_mul (d_int w) (d_int w)) (d_mul (d_int h) (d_int h)))))) 0 (2 ^ 26)"
    by (rule d_div_in [OF _ diagonal_ok [OF assms(4-7)]]) (simp_all add: fl64_num_power)
  then have "d_in (d_sub (Fin 1) (d_div dist (d_mul (lit (60 / 100)) (d_sqrt (d_add (d_mul (d_int w) (d_int w)) (d_mul (d_int h) (d_int h)))))))
      (- (2 ^ 26)) 1"
    by (rule d_sub_in [of _ 1 1, rotated]) (simp_all add: fl64_num_power fl64_num_minus)
  then have 6: "d_in centre 0 (2 ^ 0)" unfolding centre_def power_0 by (rule d_clamp_unit)
  have 7: "d_in bonus 0 (2 ^ 0)" by (simp add: bonus_def lit_unit)
  have w: "d_in (d_mul (lit c) x) (- (2 ^ 92)) (2 ^ 92)" if "d_in x (- (2 ^ k)) (2 ^ k)" "0 \<le> c" "c \<le> 2" "k \<le> 91" for x c k
  proof -
    have "(2 :: rat) ^ k \<le> 2 ^ 91" using that(4) by (intro power_increasing) simp_all
    then have "d_in x (- (2 ^ 91)) (2 ^ 91)" using that(1) by (auto simp: d_in_def)
    from scaled_in [OF this that(2,3)] show ?thesis by simp
  qed
  have "d_in (foldl d_add (d_mul (lit (12 / 10)) areaFrac)
    [d_mul (lit (13 / 10)) squareness, d_mul (lit (12 / 10)) balance, d_mul (lit (11 / 10)) par,
     d_mul (lit (6 / 10)) rightness, d_mul (lit (8 / 10)) centre, bonus]) (- (2 ^ (92 + 6))) (2 ^ (92 + 6))"
    using d_sums_in [of "d_mul (lit (12 / 10)) areaFrac" 92 "[d_mul (lit (13 / 10)) squareness, d_mul (lit (12 / 10)) balance, d_mul (lit (11 / 10)) par,
     d_mul (lit (6 / 10)) rightness, d_mul (lit (8 / 10)) centre, bonus]"]
      w [OF d_in_wide [OF 1 order_refl]] w [OF d_in_wide [OF 2 order_refl]] w [OF d_in_wide [OF 3 order_refl]] w [OF 4] w [OF 5]
      w [OF d_in_wide [OF 6 order_refl]] d_in_wide [OF 7, of 92]
    by simp
  then show ?thesis unfolding score by simp
qed

subsection \<open>No fault\<close>

lemma candidate_of_defined:
  assumes "board_opencv_ok cv bytes hom" "board_stdlib_ok bs" "\<forall>c \<in> set contours. contour_ok c" "i < length contours"
    and "1 \<le> w" "w \<le> 2 ^ 20" "1 \<le> h" "h \<le> 2 ^ 20"
  shows "\<exists>r. candidate_of cv bs contours (w, h) i = Some r \<and> (\<forall>c. r = Some c \<longrightarrow> d_in (bc_score c) (- (2 ^ 100)) (2 ^ 100))"
proof -
  have "contour_ok (contours ! i)" using assms(3,4) by simp
  from contourToQuad_ok [OF assms(1,2) this] obtain q where q: "contourToQuad cv bs (contours ! i) = Some q"
    "\<forall>p \<in> set (qc_quad q). corner_ok p" "d_in (qc_contourArea q) 0 (2 ^ 62)" "length (qc_quad q) = 4" by blast
  have at: "vec_at contours i = Some (contours ! i)" using assms(4) by (simp add: vec_at_def)
  show ?thesis
  proof (cases "isPlausibleBoardQuad cv (qc_quad q) (w, h)")
    case False
    then show ?thesis by (simp add: candidate_of_def at q(1))
  next
    case True
    have "d_in (d_abs (bo_quadArea cv (qc_quad q))) 0 (2 ^ 44)" by (rule d_abs_in [OF board_opencv_okD(6) [OF assms(1) q(4,2)]])
    then have "d_in (d_max (Fin 1) (d_abs (bo_quadArea cv (qc_quad q)))) 1 (2 ^ 44)" by (rule d_max_in [of _ 1 1, rotated]) simp_all
    with q(3) have fill: "d_in (d_div (qc_contourArea q) (d_max (Fin 1) (d_abs (bo_quadArea cv (qc_quad q))))) 0 (2 ^ 62)"
      by (rule d_div_in) (use fl64_num_power [of 62] in simp_all)
    have "d_in (if qc_fromApprox q then lit (45 / 100) else Fin 0) 0 (2 ^ 0)" by (simp add: lit_unit)
    from d_sum_in [OF boardQuadScore_ok [OF assms(1) q(2) True assms(5-8)] d_in_wide [OF this]]
    have "d_in (d_add (boardQuadScore cv (qc_quad q) (w, h) (qc_fromApprox q)) (if qc_fromApprox q then lit (45 / 100) else Fin 0))
      (- (2 ^ 99)) (2 ^ 99)" by (simp del: power_Suc)
    moreover have "d_in (d_mul (lit (90 / 100)) (d_div (qc_contourArea q) (d_max (Fin 1) (d_abs (bo_quadArea cv (qc_quad q))))))
      (- (2 ^ Suc 98)) (2 ^ Suc 98)" by (rule scaled_in [OF d_in_wide [OF fill]]) simp_all
    then have "d_in (d_mul (lit (90 / 100)) (d_div (qc_contourArea q) (d_max (Fin 1) (d_abs (bo_quadArea cv (qc_quad q))))))
      (- (2 ^ 99)) (2 ^ 99)" by simp
    ultimately have "d_in (d_add (d_add (boardQuadScore cv (qc_quad q) (w, h) (qc_fromApprox q)) (if qc_fromApprox q then lit (45 / 100) else Fin 0))
      (d_mul (lit (90 / 100)) (d_div (qc_contourArea q) (d_max (Fin 1) (d_abs (bo_quadArea cv (qc_quad q))))))) (- (2 ^ Suc 99)) (2 ^ Suc 99)"
      by (intro d_sum_in) (assumption, assumption, simp)
    then have "d_in (d_add (d_add (boardQuadScore cv (qc_quad q) (w, h) (qc_fromApprox q)) (if qc_fromApprox q then lit (45 / 100) else Fin 0))
      (d_mul (lit (90 / 100)) (d_div (qc_contourArea q) (d_max (Fin 1) (d_abs (bo_quadArea cv (qc_quad q))))))) (- (2 ^ 100)) (2 ^ 100)" by simp
    then show ?thesis using True by (simp add: candidate_of_def at q(1) Let_def del: power_Suc)
  qed
qed

lemma final_score_finite:
  assumes "board_opencv_ok cv bytes hom" "board_stdlib_ok bs" "libm_ok lm" "source_ok (bo_cv cv) bytes img"
    and "d_in (bc_score c) (- (2 ^ 100)) (2 ^ 100)"
  shows "\<exists>t. final_score cv bs lm img c = Some (Fin t)"
proof -
  from evaluateGridEvidence_ok [OF assms(1-4)] obtain e where
    e: "evaluateGridEvidence cv bs lm img (bc_quad c) = Some e" "d_in (ge_score e) 0 8" by blast
  have "d_in GRID_SCORE_W 1 2" unfolding GRID_SCORE_W_def by (rule lit_in) simp_all
  from d_mul_in [OF this e(2), of 0 16] have "d_in (d_mul GRID_SCORE_W (ge_score e)) 0 (2 ^ 4)" by simp
  from d_sum_in [OF assms(5) d_in_wide [OF this]] have "isfinite (d_add (bc_score c) (d_mul GRID_SCORE_W (ge_score e)))"
    by (intro d_in_finite) (assumption | simp)+
  with e(1) show ?thesis by (auto simp: final_score_def isfinite_def split: double.splits)
qed

lemma refine_defined:
  assumes "board_opencv_ok cv bytes hom" "board_stdlib_ok bs" "libm_ok lm" "source_ok (bo_cv cv) bytes img"
  shows "\<exists>r. loopM (refine cv bs lm img) cs s = Some r"
proof (induction cs arbitrary: s)
  case (Cons c cs)
  obtain e where "evaluateGridEvidence cv bs lm img (bc_quad c) = Some e" using evaluateGridEvidence_ok [OF assms] by blast
  then obtain s' where "refine cv bs lm img c s = Some s'" by (simp add: refine_def Let_def)
  with Cons.IH show ?case by simp
qed simp

text \<open>What \<open>source_ok\<close> gives of the size of the image.\<close>

lemma source_size:
  assumes "board_opencv_ok cv bytes hom" "source_ok (bo_cv cv) bytes img" "bo_size cv img = (w, h)"
  shows "1 \<le> w" "w \<le> 2 ^ 20" "1 \<le> h" "h \<le> 2 ^ 20"
  using assms(2,3) warp_opencv_okD(1) [OF board_opencv_okD(1) [OF assms(1)]] by (fastforce simp: source_ok_def image_ok_def)+

lemma area_number:
  assumes "board_opencv_ok cv bytes hom" "\<forall>c \<in> set contours. contour_ok c"
  shows "NaN \<notin> (\<lambda>i. d_abs (bo_contourArea cv (contours ! i))) ` {..<length contours}"
proof -
  have "d_abs (bo_contourArea cv (contours ! i)) \<noteq> NaN" if "i < length contours" for i
    by (rule d_in_not_NaN [OF d_abs_in [OF board_opencv_okD(2) [OF assms(1)]]]) (use assms(2) that in simp)
  then show ?thesis by (auto simp: eq_commute [of NaN])
qed

lemma largest_contours_in:
  assumes "board_opencv_ok cv bytes hom" "board_stdlib_ok bs" "\<forall>c \<in> set contours. contour_ok c"
  shows "\<forall>i \<in> set (largest_contours cv bs contours). i < length contours"
proof -
  have "NaN \<notin> (\<lambda>i. d_abs (bo_contourArea cv (contours ! i))) ` set [0..<length contours]"
    using area_number [OF assms(1,3)] by (simp add: atLeast0LessThan)
  then have "mset (bs_sort_indices bs (\<lambda>i. d_abs (bo_contourArea cv (contours ! i))) [0..<length contours]) = mset [0..<length contours]"
    using assms(2) unfolding board_stdlib_ok_def by blast
  from mset_eq_setD [OF this] show ?thesis by (auto simp: largest_contours_def dest: in_set_takeD)
qed

lemma candidates_score:
  assumes "board_opencv_ok cv bytes hom" "board_stdlib_ok bs" "\<forall>c \<in> set contours. contour_ok c" "source_ok (bo_cv cv) bytes img"
    and "c \<in> board_candidates cv bs contours img"
  shows "d_in (bc_score c) (- (2 ^ 100)) (2 ^ 100)"
proof -
  obtain w h where sz: "bo_size cv img = (w, h)" by (rule prod.exhaust)
  from assms(5) obtain i where "i \<in> set (largest_contours cv bs contours)" "candidate_of cv bs contours (w, h) i = Some (Some c)"
    by (auto simp: board_candidates_def sz)
  with candidate_of_defined [OF assms(1-3) _ source_size [OF assms(1,4) sz]] largest_contours_in [OF assms(1-3)] show ?thesis by fastforce
qed

lemma selectBest_defined:
  assumes "board_opencv_ok cv bytes hom" "board_stdlib_ok bs" "libm_ok lm" "\<forall>c \<in> set contours. contour_ok c"
    and "source_ok (bo_cv cv) bytes img"
  shows "\<exists>r. selectBestBoardCandidate cv bs lm contours img = Some r"
proof -
  obtain w h where sz: "bo_size cv img = (w, h)" by (rule prod.exhaust)
  note nan = area_number [OF assms(1,4)]
  from candidate_of_defined [OF assms(1,2,4) _ source_size [OF assms(1,5) sz]] largest_contours_in [OF assms(1,2,4)]
  have "\<forall>i \<in> set (largest_contours cv bs contours). \<exists>r. candidate_of cv bs contours (w, h) i = Some r \<and>
    (\<forall>c. r = Some c \<longrightarrow> d_in (bc_score c) (- (2 ^ 100)) (2 ^ 100))" by blast
  from those_map_ok [of _ "candidate_of cv bs contours (w, h)" "\<lambda>r. \<forall>c. r = Some c \<longrightarrow> d_in (bc_score c) (- (2 ^ 100)) (2 ^ 100)", OF bspec [OF this]]
  obtain found where f: "those (map (candidate_of cv bs contours (w, h)) (largest_contours cv bs contours)) = Some found"
    "\<forall>r \<in> set found. \<forall>c. r = Some c \<longrightarrow> d_in (bc_score c) (- (2 ^ 100)) (2 ^ 100)" by blast
  define cands where "cands = List.map_filter id found"
  have "\<forall>c \<in> set cands. bc_score c \<noteq> NaN" using f(2) by (auto simp: cands_def set_map_filter_id dest: d_in_not_NaN)
  then have n: "NaN \<notin> bc_score ` set cands" by auto
  then have "mset (bs_sort_candidates bs cands) = mset cands" using assms(2) unfolding board_stdlib_ok_def by blast
  then have len: "length (bs_sort_candidates bs cands) = length cands" by (rule mset_eq_length)
  obtain r where "loopM (refine cv bs lm img) (take REFINED_CANDIDATES (bs_sort_candidates bs cands)) (bs_sort_candidates bs cands ! 0, MInf) = Some r"
    using refine_defined [OF assms(1-3,5)] by blast
  then show ?thesis using nan f(1) n len
    unfolding selectBestBoardCandidate_def Let_def sz largest_contours_def
    by (cases r) (simp add: vec_at_def flip: cands_def)
qed

subsection \<open>The whole search\<close>

lemma masks_ok:
  assumes "board_opencv_ok cv bytes hom" "image_ok (bo_cv cv) bytes 1 sz img" "fst sz < 2 ^ 31"
  shows "\<exists>edgeMask brightMask darkMask. buildCandidateMasks cv img (choosePreprocessSettings sz) = Some (edgeMask, brightMask, darkMask) \<and>
    image_ok (bo_cv cv) bytes 1 sz edgeMask \<and> image_ok (bo_cv cv) bytes 1 sz brightMask \<and> image_ok (bo_cv cv) bytes 1 sz darkMask"
proof -
  let ?s = "choosePreprocessSettings sz"
  note ps = preprocess_settings [OF assms(3)] and ic = image_callsD [OF assms(1)]
  have fin: "isfinite (ps_cannyLow ?s)" "isfinite (ps_cannyHigh ?s)" using ps(7,8) by (blast intro: d_in_finite)+
  have k: "0 < ps_closeKernelSize ?s" "0 < makeOddKernelSize (ps_closeKernelSize ?s + 4)"
    using ps(5) makeOdd(2) [of "ps_closeKernelSize ?s + 4"] by linarith+
  obtain edges where e: "wc_Canny (bo_cv cv) img (ps_cannyLow ?s) (ps_cannyHigh ?s) = Some edges" "image_ok (bo_cv cv) bytes 1 sz edges"
    using warp_opencv_okD(4) [OF board_opencv_okD(1) [OF assms(1)] assms(2) fin] by (auto elim: givesE)
  obtain edgeMask where em: "bo_close cv edges (ps_closeKernelSize ?s) = Some edgeMask" "image_ok (bo_cv cv) bytes 1 sz edgeMask"
    using ic(2) [OF e(2) k(1)] by (auto elim: givesE)
  obtain otsu where ot: "bo_otsu cv img = Some otsu" "image_ok (bo_cv cv) bytes 1 sz otsu" using ic(3) [OF assms(2)] by (auto elim: givesE)
  obtain bright where b: "bo_close cv otsu (makeOddKernelSize (ps_closeKernelSize ?s + 4)) = Some bright" "image_ok (bo_cv cv) bytes 1 sz bright"
    using ic(2) [OF ot(2) k(2)] by (auto elim: givesE)
  obtain inv where i: "bo_invert cv otsu = Some inv" "image_ok (bo_cv cv) bytes 1 sz inv" using ic(4) [OF ot(2)] by (auto elim: givesE)
  obtain dark where "bo_close cv inv (makeOddKernelSize (ps_closeKernelSize ?s + 4)) = Some dark" "image_ok (bo_cv cv) bytes 1 sz dark"
    using ic(2) [OF i(2) k(2)] by (auto elim: givesE)
  with e em ot b i show ?thesis by (simp add: buildCandidateMasks_def)
qed

lemma appendContours_ok:
  assumes "board_opencv_ok cv bytes hom" "image_ok (bo_cv cv) bytes 1 sz bin" "fst sz \<le> 2 ^ 15" "snd sz \<le> 2 ^ 15"
    and "\<forall>c \<in> set cs. contour_ok c"
  shows "\<exists>cs'. appendContours cv bin cs = Some cs' \<and> (\<forall>c \<in> set cs'. contour_ok c)"
  using image_callsD(5) [OF assms(1-4), of RETR_EXTERNAL] image_callsD(5) [OF assms(1-4), of RETR_TREE] assms(5)
  by (auto simp: appendContours_def gives_def)

lemma warpToBoard_ok:
  assumes "board_opencv_ok cv bytes hom" "board_stdlib_ok bs" "libm_ok lm" "source_ok (bo_cv cv) bytes img"
  shows "\<exists>r. warpToBoard cv bs lm img = Some r \<and>
    (\<forall>w. r = Some w \<longrightarrow> hom (wr_H w) \<and> image_ok (bo_cv cv) bytes (wc_channels (bo_cv cv) img) (1000, 1000) (wr_image w) \<and>
       wc_channels (bo_cv cv) img \<in> {1, 3, 4})"
proof -
  have wc: "warp_opencv_ok (bo_cv cv) bytes hom" by (rule board_opencv_okD(1) [OF assms(1)])
  from assms(4) obtain n sz where img: "image_ok (bo_cv cv) bytes n sz img" "n \<le> 4" "fst sz < 32767" "snd sz < 32767"
    by (auto simp: source_ok_def)
  then have i: "\<not> wc_empty (bo_cv cv) img" "wc_channels (bo_cv cv) img = n" "bo_size cv img = sz" by (simp_all add: image_ok_def)
  from convertToGray_ok [OF assms(1) img(1)] obtain c where c: "convertToGray cv img = Some c"
    "\<And>gray. c = Some gray \<Longrightarrow> image_ok (bo_cv cv) bytes 1 sz gray" "c = None \<longleftrightarrow> n \<notin> {1, 3, 4}" by blast
  show ?thesis
  proof (cases c)
    case None
    with i(1) c(1) show ?thesis by (simp add: warpToBoard_def Let_def)
  next
    case (Some gray)
    have s: "fst sz < 2 ^ 31" "fst sz \<le> 2 ^ 15" "snd sz \<le> 2 ^ 15" using img(3,4) by simp_all
    note ps = preprocess_settings [OF s(1)]
    have "d_in (lit (15 / 10)) 1 2" by (rule lit_in) simp_all
    then have f: "isfinite (lit (15 / 10))" by (rule d_in_finite)
    have k: "0 < ps_blurKernelSize (choosePreprocessSettings sz)" using ps(2) by linarith
    obtain blurred where b: "wc_GaussianBlur (bo_cv cv) gray (ps_blurKernelSize (choosePreprocessSettings sz)) (lit (15 / 10)) = Some blurred"
      "image_ok (bo_cv cv) bytes 1 sz blurred" using warp_opencv_okD(3) [OF wc c(2) [OF Some] ps(1) k f] by (auto elim: givesE)
    from masks_ok [OF assms(1) b(2) s(1)] obtain em bm dm where
      m: "buildCandidateMasks cv blurred (choosePreprocessSettings sz) = Some (em, bm, dm)" "image_ok (bo_cv cv) bytes 1 sz em"
      "image_ok (bo_cv cv) bytes 1 sz bm" "image_ok (bo_cv cv) bytes 1 sz dm" by blast
    obtain c1 where c1: "appendContours cv em [] = Some c1" "\<forall>c \<in> set c1. contour_ok c"
      using appendContours_ok [OF assms(1) m(2) s(2,3), of "[]"] by auto
    from appendContours_ok [OF assms(1) m(3) s(2,3) c1(2)] obtain c2 where c2: "appendContours cv bm c1 = Some c2" "\<forall>c \<in> set c2. contour_ok c" by blast
    from appendContours_ok [OF assms(1) m(4) s(2,3) c2(2)] obtain cs where cs: "appendContours cv dm c2 = Some cs" "\<forall>c \<in> set cs. contour_ok c" by blast
    from selectBest_defined [OF assms(1-3) cs(2) assms(4)] obtain best where best: "selectBestBoardCandidate cv bs lm cs img = Some best" by blast
    note steps = warpToBoard_def Let_def i c(1) Some b(1) [simplified] m(1) c1(1) c2(1) cs(1) best
    show ?thesis
    proof (cases "cs = [] \<or> best = None")
      case True
      then show ?thesis by (auto simp: steps)
    next
      case False
      then obtain bc where bc: "best = Some bc" "cs \<noteq> []" by auto
      with best have "selectBestBoardCandidate cv bs lm cs img = Some (Some bc)" by simp
      from selectBest_spec [OF assms(2) this] final_score_finite [OF assms(1-4)] candidates_score [OF assms(1,2) cs(2) assms(4)]
      obtain ranked j e t where r: "ranking cv bs cs img ranked" "j < length ranked" "bc = with_evidence (ranked ! j) e t"
        by (fastforce simp: best_of_def)
      then have "ranked ! j \<in> board_candidates cv bs cs img" unfolding ranking_def by (metis nth_mem)
      then have "isPlausibleBoardQuad cv (bc_quad bc) sz" using r(3) i(3)
        by (auto simp: board_candidates_def with_evidence_def candidate_ok_def dest!: candidate_of_ok)
      then have "length (bc_quad bc) = 4" by (auto simp: isPlausibleBoardQuad_def split: if_splits)
      from warped_ok [OF wc img this] obtain H warped where "wc_getPerspectiveTransform (bo_cv cv) (bc_quad bc) warp_dst = Some H" "hom H"
        "wc_warpPerspective (bo_cv cv) img H WARP_OUT_SIZE = Some warped" "image_ok (bo_cv cv) bytes n (1000, 1000) warped" by blast
      with bc c(3) Some show ?thesis by (simp add: steps)
    qed
  qed
qed

end
