(* ===== verification/Vision_Tuner.thy ===== *)
theory Vision_Tuner imports Board_Search_Bounds Stone_Classification begin

text \<open>
  \<open>tools/visionTuner/main.cpp\<close>: the recognition as a whole, from an image to the stones on the board in it. The board
  is searched in the image, its grid is rectified, and the stones on the grid are recognised.
\<close>

definition isValidBoardSize :: "u32 \<Rightarrow> bool" where
  "isValidBoardSize n \<longleftrightarrow> n = 9 \<or> n = 13 \<or> n = 19"

definition process :: "'i board_opencv \<Rightarrow> 'i opencv \<Rightarrow> board_stdlib \<Rightarrow> libm \<Rightarrow> 'i \<Rightarrow> bool option" where
  "process cv ocv bs lm img =
     do {
       warp \<leftarrow> warpToBoard cv bs lm img;
       case warp of
         None \<Rightarrow> Some False
       | Some warped \<Rightarrow>
           if wc_empty (bo_cv cv) (wr_image warped) \<or> wc_empty (bo_cv cv) (wr_H warped) then Some False
           else do {
             rectified \<leftarrow> rectifyImage (bo_cv cv) (bs_stdlib bs) lm img warped;
             case rectified of
               None \<Rightarrow> Some False
             | Some geometry \<Rightarrow>
                 if wc_empty (bo_cv cv) (bg_image geometry) \<or> wc_empty (bo_cv cv) (bg_H geometry) \<or>
                    \<not> isValidBoardSize (bg_boardSize geometry) \<or>
                    unat (bg_boardSize geometry * bg_boardSize geometry) \<noteq> length (bg_intersections geometry)
                 then Some False
                 else map_option sr_success (analyseBoard ocv geometry stone_config_default)
           }
     }"

text \<open>The overload for a file, which \<open>cv::imread\<close> reads.\<close>

definition process_path :: "'i board_opencv \<Rightarrow> 'i opencv \<Rightarrow> board_stdlib \<Rightarrow> libm \<Rightarrow> (string \<Rightarrow> 'i) \<Rightarrow> string \<Rightarrow> bool option" where
  "process_path cv ocv bs lm imread path =
     (let img = imread path
      in if wc_empty (bo_cv cv) img then Some False else process cv ocv bs lm img)"

subsection \<open>The spacing of the rectified grid\<close>

lemma median_in:
  assumes "\<forall>x \<in> set xs. d_in x 0 b" "median xs = Some m" "fl64_num b" "fl64_num (2 * b)"
  shows "d_in m 0 b"
proof -
  have at: "d_in x 0 b" if "nth_element xs k = Some x" for k x
    using that assms(1) by (auto simp: nth_element_def vec_at_def split: if_splits) (metis length_sort nth_mem set_sort)
  from assms(2) obtain y where y: "nth_element xs (length xs div 2) = Some y"
    "m = y \<or> (\<exists>l. nth_element xs (length xs div 2 - 1) = Some l \<and> m = d_mul (lit (1 / 2)) (d_add y l))"
    by (auto simp: median_def Let_def split: if_splits bind_splits)
  from y(2) show ?thesis
  proof
    assume "m = y"
    with at [OF y(1)] show ?thesis by simp
  next
    assume "\<exists>l. nth_element xs (length xs div 2 - 1) = Some l \<and> m = d_mul (lit (1 / 2)) (d_add y l)"
    then obtain l where l: "nth_element xs (length xs div 2 - 1) = Some l" "m = d_mul (lit (1 / 2)) (d_add y l)" by blast
    have "d_in (d_add y l) 0 (2 * b)" by (rule d_add_in [OF at [OF y(1)] at [OF l(1)]]) (use assms(4) in simp_all)
    from d_mul_in [of "Fin (1 / 2)" "1 / 2" "1 / 2", OF _ this, of 0 b] assms(3) show ?thesis by (simp add: l(2) lit_half(1))
  qed
qed

lemma samples_in:
  assumes "board_opencv_ok cv bytes hom" "\<forall>p \<in> set ps. vec_ok (2 ^ 17) p" "spacing_samples (bo_cv cv) N ps = Some ss"
  shows "\<forall>s \<in> set ss. d_in s 0 (2 ^ 19)"
proof -
  have d: "d_in s 0 (2 ^ 19)" if "point_distance (bo_cv cv) ps i j = Some s" for i j s
  proof -
    from that have p: "i < length ps" "j < length ps" "s = wc_norm (bo_cv cv) (pt_sub (ps ! i) (ps ! j))"
      by (auto simp: point_distance_def vec_at_def pt_sub_def split: if_splits)
    have "vec_ok (2 ^ 18) (pt_sub (ps ! i) (ps ! j))"
      by (rule pt_sub_in [of "2 ^ 17" _ "2 ^ 17"]) (use assms(2) p(1,2) in simp_all)
    from board_opencv_okD(7) [OF assms(1) _ this] show ?thesis by (simp add: p(3))
  qed
  show ?thesis
  proof (cases "N \<ge> 2 \<and> length ps = N * N")
    case False
    have "spacing_samples (bo_cv cv) N ps = Some []" unfolding spacing_samples_def by (rule if_not_P [OF False])
    with assms(3) show ?thesis by simp
  next
    case True
    let ?ds = "map (\<lambda>(x, y). point_distance (bo_cv cv) ps (x * N + (y + 1)) (x * N + y)) [(x, y). x \<leftarrow> [0..<N], y \<leftarrow> [0..<N - 1]] @
      map (\<lambda>(x, y). point_distance (bo_cv cv) ps ((x + 1) * N + y) (x * N + y)) [(x, y). x \<leftarrow> [0..<N - 1], y \<leftarrow> [0..<N]]"
    have "spacing_samples (bo_cv cv) N ps = map_option (filter (\<lambda>d. isfinite d \<and> d_less (Fin 0) d)) (those ?ds)"
      unfolding spacing_samples_def by (rule if_P [OF True])
    with assms(3) obtain ds where ds: "those ?ds = Some ds" "ss = filter (\<lambda>d. isfinite d \<and> d_less (Fin 0) d) ds" by auto
    have "\<forall>o' \<in> set ?ds. \<forall>s. o' = Some s \<longrightarrow> d_in s 0 (2 ^ 19)" using d by auto
    then have "\<forall>s \<in> set ds. d_in s 0 (2 ^ 19)" unfolding those_Some_set [OF ds(1)] by blast
    with ds(2) show ?thesis by simp
  qed
qed

lemma rectified_spacing:
  assumes "board_opencv_ok cv bytes hom" "rectifyImage (bo_cv cv) sl lm img input = Some (Some g)"
    and "\<forall>p \<in> set (bg_intersections g). vec_ok (2 ^ 17) p"
  shows "spacing_ok (bg_spacing g)"
proof -
  from assms(2) obtain v h where "warp_to_grid (bo_cv cv) img (wr_H input) v h = Some g"
    by (auto simp: rectifyImage_def split: if_splits bind_splits option.splits)
  then obtain N ss where s: "spacing_samples (bo_cv cv) N (bg_intersections g) = Some ss"
    "(if ss = [] then Some (Fin 0) else median ss) = Some (bg_spacing g)"
    by (auto simp: warp_to_grid_def Let_def split: if_splits bind_splits)
  have "d_in (bg_spacing g) 0 (2 ^ 19)"
  proof (cases "ss = []")
    case True
    with s(2) show ?thesis by (auto simp: eq_commute [of "Fin 0"])
  next
    case False
    with s(2) have "median ss = Some (bg_spacing g)" by simp
    from median_in [OF samples_in [OF assms(1,3) s(1)] this] show ?thesis using fl64_num_power [of 19] fl64_num_power [of 20] by simp
  qed
  then have "d_in (bg_spacing g) 0 (2 ^ 20)" by (rule d_in_weaken) simp_all
  then show ?thesis by (simp add: spacing_ok_def)
qed

end
