(* ===== verification/Debug_Visualizer.thy ===== *)
theory Debug_Visualizer imports Singles begin

text \<open>
  \<open>src/vision/core/debugVisualizer.cpp\<close>: the images of the stages of the recognition, and the picture of all of them,
  one column per stage. OpenCV is the record \<open>mosaic_opencv\<close>; a picture is its size and what is drawn on it. A part of a
  picture that does not lie within it is refused by OpenCV: \<open>None\<close>, as for the failed assertion of \<open>add\<close>.
\<close>

subsection \<open>Stages\<close>

record 'i debug_step =
  st_name :: string
  st_image :: 'i

record 'i debug_stage =
  sg_name :: string
  sg_images :: "'i debug_step list"

definition no_stage :: "'i debug_stage" where "no_stage = \<lparr>sg_name = '''', sg_images = []\<rparr>"

record 'i debug_visualizer =
  dv_interactive :: bool
  dv_displayTime :: nat
  dv_currentStage :: "'i debug_stage"
  dv_hasActiveStage :: bool
  dv_stages :: "'i debug_stage list"

definition debug_visualizer_new :: "'i debug_visualizer" where
  "debug_visualizer_new = \<lparr>dv_interactive = False, dv_displayTime = 0, dv_currentStage = no_stage, dv_hasActiveStage = False,
     dv_stages = []\<rparr>"

text \<open>What is left open of OpenCV; \<open>mc_stretch\<close> maps the values from the first number on by the factor.\<close>

record 'i mosaic_opencv =
  mc_cols :: "'i \<Rightarrow> int"
  mc_rows :: "'i \<Rightarrow> int"
  mc_empty :: "'i \<Rightarrow> bool"
  mc_is8U :: "'i \<Rightarrow> bool"
  mc_channels :: "'i \<Rightarrow> int"
  mc_minMaxLoc :: "'i \<Rightarrow> double \<times> double"
  mc_convertTo8U :: "'i \<Rightarrow> 'i"
  mc_stretch :: "'i \<Rightarrow> double \<Rightarrow> double \<Rightarrow> 'i"
  mc_gray2bgr :: "'i \<Rightarrow> 'i"
  mc_bgra2bgr :: "'i \<Rightarrow> 'i"
  mc_resize :: "'i \<Rightarrow> int \<Rightarrow> int \<Rightarrow> bool \<Rightarrow> 'i"

definition toBgr8U :: "'i mosaic_opencv \<Rightarrow> 'i \<Rightarrow> 'i" where
  "toBgr8U cv img =
     (let out = (if \<not> mc_is8U cv img
                 then let (minV, maxV) = mc_minMaxLoc cv img
                      in if d_less (d_sub maxV minV) (lit (1 / 10 ^ 9)) then mc_convertTo8U cv img
                         else mc_stretch cv img (f_of_d minV) (f_div (Fin 255) (f_of_d (d_sub maxV minV)))
                 else img)
      in if mc_channels cv out = 1 then mc_gray2bgr cv out
         else if mc_channels cv out = 4 then mc_bgra2bgr cv out
         else out)"

definition setInteractive :: "bool \<Rightarrow> nat \<Rightarrow> 'i debug_visualizer \<Rightarrow> 'i debug_visualizer" where
  "setInteractive interactive displayTimeMs dv = dv\<lparr>dv_interactive := interactive, dv_displayTime := displayTimeMs\<rparr>"

definition endStage :: "'i debug_visualizer \<Rightarrow> 'i debug_visualizer" where
  "endStage dv =
     (if \<not> dv_hasActiveStage dv then dv
      else dv\<lparr>dv_stages := dv_stages dv @ [dv_currentStage dv], dv_currentStage := no_stage, dv_hasActiveStage := False\<rparr>)"

definition beginStage :: "string \<Rightarrow> 'i debug_visualizer \<Rightarrow> 'i debug_visualizer" where
  "beginStage name dv =
     (let dv = (if dv_hasActiveStage dv then endStage dv else dv)
      in dv\<lparr>dv_hasActiveStage := True, dv_currentStage := (dv_currentStage dv)\<lparr>sg_name := name\<rparr>\<rparr>)"

text \<open>The second component is what is shown on the screen.\<close>

definition add_image :: "'i mosaic_opencv \<Rightarrow> string \<Rightarrow> 'i \<Rightarrow> 'i debug_visualizer \<Rightarrow> ('i debug_visualizer \<times> 'i list) option" where
  "add_image cv name img dv =
     (if \<not> dv_hasActiveStage dv then None
      else let stage = dv_currentStage dv;
               dv = dv\<lparr>dv_currentStage := stage\<lparr>sg_images := sg_images stage @ [\<lparr>st_name = name, st_image = img\<rparr>]\<rparr>\<rparr>
           in Some (dv, if dv_interactive dv then [toBgr8U cv img] else []))"

definition clear_stages :: "'i debug_visualizer \<Rightarrow> 'i debug_visualizer" where
  "clear_stages dv = dv\<lparr>dv_stages := [], dv_currentStage := no_stage, dv_hasActiveStage := False\<rparr>"

subsection \<open>The picture\<close>

type_synonym rect = "int \<times> int \<times> int \<times> int"

text \<open>The part \<open>m(cv::Rect(x, y, w, h))\<close> of a picture.\<close>

definition part :: "int \<Rightarrow> int \<Rightarrow> rect \<Rightarrow> rect option" where
  "part cols rows r =
     (let (x, y, w, h) = r in if 0 \<le> x \<and> 0 \<le> w \<and> x + w \<le> cols \<and> 0 \<le> y \<and> 0 \<le> h \<and> y + h \<le> rows then Some r else None)"

datatype 'i drawing =
    Bar rect
  | Text string int int
  | Paste 'i rect

record 'i mosaic =
  mo_width :: int
  mo_height :: int
  mo_drawings :: "'i drawing list"

definition DEFAULT_TILE_W :: int where "DEFAULT_TILE_W = 360"
definition STAGE_HEADER_H :: int where "STAGE_HEADER_H = 34"
definition TILE_LABEL_H :: int where "TILE_LABEL_H = 28"
definition TILE_PAD :: int where "TILE_PAD = 4"
definition MAX_MOSAIC_W :: int where "MAX_MOSAIC_W = 2000"
definition MAX_MOSAIC_H :: int where "MAX_MOSAIC_H = 3000"

lemmas mosaic_constants = DEFAULT_TILE_W_def STAGE_HEADER_H_def TILE_LABEL_H_def TILE_PAD_def MAX_MOSAIC_W_def MAX_MOSAIC_H_def

fun decimal :: "nat \<Rightarrow> string" where
  "decimal n = (if n < 10 then [char_of (48 + n)] else decimal (n div 10) @ [char_of (48 + n mod 10)])"

declare decimal.simps [simp del]

definition tile_width :: "int \<Rightarrow> int \<Rightarrow> int" where
  "tile_width cols maxSteps =
     (let tileW = min DEFAULT_TILE_W (max 1 (MAX_MOSAIC_W div max 1 cols))
      in min tileW (max 1 ((MAX_MOSAIC_H - STAGE_HEADER_H) div maxSteps)))"

text \<open>The header of column \<open>c\<close>.\<close>

definition header_text :: "nat \<Rightarrow> 'i debug_stage \<Rightarrow> string" where
  "header_text c stage =
     (if sg_name stage = '''' then ''Stage '' @ decimal (c + 1) else sg_name stage) @ '' ('' @ decimal (length (sg_images stage)) @ '')''"

definition draw_header :: "int \<Rightarrow> int \<Rightarrow> int \<Rightarrow> nat \<times> 'i debug_stage \<Rightarrow> 'i drawing list option" where
  "draw_header mosaicW mosaicH tileW cs =
     (let (c, stage) = cs
      in do {
           r \<leftarrow> part mosaicW mosaicH (int c * tileW, 0, tileW, STAGE_HEADER_H);
           Some [Bar r, Text (header_text c stage) (int c * tileW + 8) (STAGE_HEADER_H - 10)]
         })"

text \<open>The size of an image within the tile.\<close>

definition fit_image :: "int \<Rightarrow> int \<Rightarrow> int \<Rightarrow> int \<Rightarrow> (int \<times> int \<times> bool) option" where
  "fit_image availW availH cols rows =
     (let scale = d_min (d_div (d_int availW) (d_int cols)) (d_div (d_int availH) (d_int rows))
      in do {
           lw \<leftarrow> lround_int (d_mul (d_int cols) scale);
           lh \<leftarrow> lround_int (d_mul (d_int rows) scale);
           Some (max 1 (min availW lw), max 1 (min availH lh), d_less scale (Fin 1))
         })"

text \<open>The tile of step \<open>r\<close> of column \<open>c\<close>, if the stage has that step.\<close>

definition draw_tile :: "'i mosaic_opencv \<Rightarrow> int \<Rightarrow> int \<Rightarrow> int \<Rightarrow> nat \<Rightarrow> nat \<times> 'i debug_stage \<Rightarrow> 'i drawing list option" where
  "draw_tile cv mosaicW mosaicH tileW r cs =
     (let (c, stage) = cs; tileH = tileW; y = STAGE_HEADER_H + int r * tileH
      in if r \<ge> length (sg_images stage) then Some []
         else do {
           let step = sg_images stage ! r;
           (cx, cy, cw, ch) \<leftarrow> part mosaicW mosaicH (int c * tileW, y, tileW, tileH);
           let label = [Bar (cx, cy, cw, TILE_LABEL_H), Text (st_name step) (cx + TILE_PAD) (cy + 20)];
           if mc_empty cv (st_image step) \<or> mc_cols cv (st_image step) \<le> 0 \<or> mc_rows cv (st_image step) \<le> 0 then Some label
           else do {
             let availW = max 1 (tileW - 2 * TILE_PAD);
             let availH = max 1 (tileH - TILE_LABEL_H - 2 * TILE_PAD);
             let vis = toBgr8U cv (st_image step);
             (w, h, shrink) \<leftarrow> fit_image availW availH (mc_cols cv vis) (mc_rows cv vis);
             (px, py, pw, ph) \<leftarrow> part cw ch (TILE_PAD + (availW - w) div 2, TILE_LABEL_H + TILE_PAD + (availH - h) div 2, w, h);
             Some (label @ [Paste (mc_resize cv vis w h shrink) (cx + px, cy + py, pw, ph)])
           }
         })"

text \<open>\<open>Some None\<close> is the empty picture. The stage that is active ends.\<close>

definition draw_mosaic :: "'i mosaic_opencv \<Rightarrow> 'i debug_stage list \<Rightarrow> 'i mosaic option option" where
  "draw_mosaic cv stages =
     (let maxSteps = foldl (\<lambda>m s. max m (length (sg_images s))) 0 stages
      in if stages = [] \<or> maxSteps = 0 then Some None
         else do {
           let cols = int (length stages);
           let tileW = tile_width cols (int maxSteps);
           let mosaicW = tileW * cols;
           let mosaicH = STAGE_HEADER_H + int maxSteps * tileW;
           headers \<leftarrow> those (map (draw_header mosaicW mosaicH tileW) (enumerate 0 stages));
           tiles \<leftarrow> those (concat (map (\<lambda>r. map (draw_tile cv mosaicW mosaicH tileW r) (enumerate 0 stages)) [0..<maxSteps]));
           Some (Some \<lparr>mo_width = mosaicW, mo_height = mosaicH, mo_drawings = concat headers @ concat tiles\<rparr>)
         })"

definition buildMosaic :: "'i mosaic_opencv \<Rightarrow> 'i debug_visualizer \<Rightarrow> ('i debug_visualizer \<times> 'i mosaic option) option" where
  "buildMosaic cv dv =
     (let dv = (if dv_hasActiveStage dv then endStage dv else dv)
      in map_option (\<lambda>m. (dv, m)) (draw_mosaic cv (dv_stages dv)))"

text \<open>A copy of an image with a bar and a text on top.\<close>

definition labelTile :: "'i mosaic_opencv \<Rightarrow> 'i \<Rightarrow> string \<Rightarrow> 'i mosaic" where
  "labelTile cv tile txt =
     (let pad = 6; barH = 28; w = mc_cols cv tile; h = mc_rows cv tile
      in \<lparr>mo_width = w, mo_height = h, mo_drawings = [Paste tile (0, 0, w, h), Bar (0, 0, w, barH), Text txt pad 20]\<rparr>)"

subsection \<open>The tiles lie within the picture\<close>

text \<open>What is relied on of OpenCV: the conversions keep the size.\<close>

definition mosaic_opencv_ok :: "'i mosaic_opencv \<Rightarrow> bool" where
  "mosaic_opencv_ok cv \<longleftrightarrow>
     (\<forall>i. mc_cols cv i < 2 ^ 31 \<and> mc_rows cv i < 2 ^ 31) \<and>
     (\<forall>i. mc_cols cv (mc_convertTo8U cv i) = mc_cols cv i \<and> mc_rows cv (mc_convertTo8U cv i) = mc_rows cv i) \<and>
     (\<forall>i a b. mc_cols cv (mc_stretch cv i a b) = mc_cols cv i \<and> mc_rows cv (mc_stretch cv i a b) = mc_rows cv i) \<and>
     (\<forall>i. mc_cols cv (mc_gray2bgr cv i) = mc_cols cv i \<and> mc_rows cv (mc_gray2bgr cv i) = mc_rows cv i) \<and>
     (\<forall>i. mc_cols cv (mc_bgra2bgr cv i) = mc_cols cv i \<and> mc_rows cv (mc_bgra2bgr cv i) = mc_rows cv i)"

lemma toBgr8U_size: "mosaic_opencv_ok cv \<Longrightarrow> mc_cols cv (toBgr8U cv i) = mc_cols cv i \<and> mc_rows cv (toBgr8U cv i) = mc_rows cv i"
  by (simp add: mosaic_opencv_ok_def toBgr8U_def Let_def case_prod_beta)

lemma tile_width_bounds:
  assumes "1 \<le> cols" "1 \<le> steps"
  shows "1 \<le> tile_width cols steps" "tile_width cols steps \<le> 360"
    "cols \<le> 2000 \<Longrightarrow> tile_width cols steps * cols \<le> 2000" "steps \<le> 2966 \<Longrightarrow> steps * tile_width cols steps \<le> 2966"
    "cols \<le> 60 \<Longrightarrow> steps \<le> 89 \<Longrightarrow> 33 \<le> tile_width cols steps" "61 \<le> cols \<Longrightarrow> tile_width cols steps \<le> 32"
proof -
  let ?t = "tile_width cols steps"
  have t: "?t = min (min 360 (max 1 (2000 div cols))) (max 1 (2966 div steps))"
    using assms(1) by (simp add: tile_width_def mosaic_constants Let_def max_def)
  show "1 \<le> ?t" "?t \<le> 360" by (simp_all add: t)
  show "?t * cols \<le> 2000" if "cols \<le> 2000"
  proof -
    have "1 \<le> 2000 div cols" using assms(1) that by (simp add: pos_imp_zdiv_pos_iff int_one_le_iff_zero_less)
    then have "?t \<le> 2000 div cols" by (simp add: t)
    then have "?t * cols \<le> 2000 div cols * cols" using assms(1) by (intro mult_right_mono) simp_all
    also have "\<dots> \<le> 2000" using div_mult_mod_eq [of 2000 cols] pos_mod_sign [of cols 2000] assms(1) by linarith
    finally show ?thesis .
  qed
  show "steps * ?t \<le> 2966" if "steps \<le> 2966"
  proof -
    have "1 \<le> 2966 div steps" using assms(2) that by (simp add: pos_imp_zdiv_pos_iff int_one_le_iff_zero_less)
    then have "?t \<le> 2966 div steps" by (simp add: t)
    then have "?t * steps \<le> 2966 div steps * steps" using assms(2) by (intro mult_right_mono) simp_all
    also have "\<dots> \<le> 2966" using div_mult_mod_eq [of 2966 steps] pos_mod_sign [of steps 2966] assms(2) by linarith
    finally show ?thesis by (simp add: mult.commute)
  qed
  show "33 \<le> ?t" if "cols \<le> 60" "steps \<le> 89"
    using zdiv_mono2 [of 2000 cols 60] zdiv_mono2 [of 2966 steps 89] assms that by (simp add: t)
  show "?t \<le> 32" if "61 \<le> cols"
    using zdiv_mono2 [of 2000 61 cols] that by (simp add: t min_le_iff_disj)
qed

lemma fit_image_defined:
  assumes "1 \<le> aw" "aw \<le> 360" "1 \<le> ah" "ah \<le> 360" "1 \<le> c" "c < 2 ^ 31" "1 \<le> r" "r < 2 ^ 31"
  shows "\<exists>w h s. fit_image aw ah c r = Some (w, h, s) \<and> 1 \<le> w \<and> w \<le> aw \<and> 1 \<le> h \<and> h \<le> ah"
proof -
  have i: "d_in (d_int n) (of_int 1) (of_int (2 ^ 31))" if "1 \<le> n" "n < 2 ^ 31" for n
    by (rule int_in) (use that in simp_all)
  have a: "d_in (d_int n) (of_int 1) (of_int 360)" if "1 \<le> n" "n \<le> 360" for n
    by (rule int_in) (use that in simp_all)
  have q: "d_in (d_div (d_int n) (d_int m)) 0 360" if "1 \<le> n" "n \<le> 360" "1 \<le> m" "m < 2 ^ 31" for n m
    by (rule d_div_in [OF a [OF that(1,2)] i [OF that(3,4)]]) simp_all
  define s where "s = d_min (d_div (d_int aw) (d_int c)) (d_div (d_int ah) (d_int r))"
  have s: "d_in s 0 360" unfolding s_def d_min_def using q [OF assms(1,2,5,6)] q [OF assms(3,4,7,8)] by simp
  have m: "\<exists>k. lround_int (d_mul (d_int n) s) = Some k" if "1 \<le> n" "n < 2 ^ 31" for n
  proof -
    have "d_in (d_mul (d_int n) s) 0 (2 ^ 61)" by (rule d_mul_in [OF i [OF that] s]) simp_all
    then have "d_in (d_mul (d_int n) s) (- of_int (2 ^ 61)) (of_int (2 ^ 61))" by (rule d_in_weaken) simp_all
    from lround_int_defined [OF this] show ?thesis by auto
  qed
  from m [OF assms(5,6)] m [OF assms(7,8)] obtain k l where "lround_int (d_mul (d_int c) s) = Some k" "lround_int (d_mul (d_int r) s) = Some l"
    by blast
  with assms(1,3) show ?thesis by (simp add: fit_image_def Let_def flip: s_def)
qed

lemma draw_tile_defined:
  assumes "mosaic_opencv_ok cv" "1 \<le> cols" "cols \<le> 60" "1 \<le> steps" "steps \<le> 89" "int c < cols" "int r < steps"
  shows "\<exists>ds. draw_tile cv (tile_width cols steps * cols) (STAGE_HEADER_H + steps * tile_width cols steps) (tile_width cols steps) r (c, stage) = Some ds"
proof -
  let ?t = "tile_width cols steps"
  have t: "33 \<le> ?t" "?t \<le> 360" using tile_width_bounds [OF assms(2,4)] assms(3,5) by simp_all
  have "(int c + 1) * ?t \<le> cols * ?t" "(int r + 1) * ?t \<le> steps * ?t" using assms(6,7) t(1) by (intro mult_right_mono; simp)+
  then have cell: "int c * ?t + ?t \<le> ?t * cols" "STAGE_HEADER_H + int r * ?t + ?t \<le> STAGE_HEADER_H + steps * ?t"
    by (simp_all add: algebra_simps)
  have p: "part (?t * cols) (STAGE_HEADER_H + steps * ?t) (int c * ?t, STAGE_HEADER_H + int r * ?t, ?t, ?t) =
      Some (int c * ?t, STAGE_HEADER_H + int r * ?t, ?t, ?t)"
    using cell t(1) by (simp add: part_def) (simp add: mosaic_constants)
  show ?thesis
  proof (cases "r \<ge> length (sg_images stage)")
    case True
    then show ?thesis by (simp add: draw_tile_def)
  next
    case False
    define img where "img = st_image (sg_images stage ! r)"
    define aw where "aw = max 1 (?t - 2 * TILE_PAD)"
    define ah where "ah = max 1 (?t - TILE_LABEL_H - 2 * TILE_PAD)"
    show ?thesis
    proof (cases "mc_empty cv img \<or> mc_cols cv img \<le> 0 \<or> mc_rows cv img \<le> 0")
      case True
      with False p show ?thesis by (simp add: draw_tile_def Let_def flip: img_def)
    next
      case visible: False
      have a: "1 \<le> aw" "aw \<le> 360" "1 \<le> ah" "ah \<le> 360" "aw = ?t - 8" "32 + ah \<le> ?t" using t by (simp_all add: aw_def ah_def mosaic_constants)
      have sz: "1 \<le> mc_cols cv (toBgr8U cv img)" "mc_cols cv (toBgr8U cv img) < 2 ^ 31" "1 \<le> mc_rows cv (toBgr8U cv img)"
        "mc_rows cv (toBgr8U cv img) < 2 ^ 31"
        using visible toBgr8U_size [OF assms(1), of img] assms(1) by (auto simp: mosaic_opencv_ok_def)
      from fit_image_defined [OF a(1-4) sz] obtain w h s where
        f: "fit_image aw ah (mc_cols cv (toBgr8U cv img)) (mc_rows cv (toBgr8U cv img)) = Some (w, h, s)" "1 \<le> w" "w \<le> aw" "1 \<le> h" "h \<le> ah"
        by blast
      have "(aw - w) div 2 + w \<le> aw" "0 \<le> (aw - w) div 2" "(ah - h) div 2 + h \<le> ah" "0 \<le> (ah - h) div 2" using f(3,5) by auto
      then have "part ?t ?t (TILE_PAD + (aw - w) div 2, TILE_LABEL_H + TILE_PAD + (ah - h) div 2, w, h) =
          Some (TILE_PAD + (aw - w) div 2, TILE_LABEL_H + TILE_PAD + (ah - h) div 2, w, h)"
        using a(5,6) f(2,4) by (simp add: part_def mosaic_constants)
      with False p visible f(1) show ?thesis
        by (simp add: draw_tile_def Let_def flip: img_def aw_def ah_def)
    qed
  qed
qed

text \<open>The largest number of steps of a stage.\<close>

lemma max_steps:
  "foldl (\<lambda>m s. max m (length (sg_images s))) n stages \<le> k \<longleftrightarrow> n \<le> k \<and> (\<forall>s \<in> set stages. length (sg_images s) \<le> k)"
  by (induction stages arbitrary: n) auto

lemma draw_mosaic_fits:
  assumes "mosaic_opencv_ok cv" "length stages \<le> 60" "\<forall>s \<in> set stages. length (sg_images s) \<le> 89"
  shows "\<exists>r. draw_mosaic cv stages = Some r \<and> (\<forall>m. r = Some m \<longrightarrow> mo_width m \<le> MAX_MOSAIC_W \<and> mo_height m \<le> MAX_MOSAIC_H)"
proof -
  define steps where "steps = foldl (\<lambda>m s. max m (length (sg_images s))) 0 stages"
  show ?thesis
  proof (cases "stages = [] \<or> steps = 0")
    case True
    then show ?thesis by (simp add: draw_mosaic_def Let_def flip: steps_def)
  next
    case False
    let ?cols = "int (length stages)" and ?steps = "int steps"
    let ?t = "tile_width ?cols ?steps"
    have c: "1 \<le> ?cols" "?cols \<le> 60" using False assms(2) by (simp_all add: Suc_le_eq)
    have st: "1 \<le> ?steps" "?steps \<le> 89" using False assms(3) max_steps [of 0 stages 89] by (simp_all add: steps_def)
    note t = tile_width_bounds [OF c(1) st(1)]
    have "draw_header (?t * ?cols) (STAGE_HEADER_H + ?steps * ?t) ?t cs \<noteq> None" if cs: "cs \<in> set (enumerate 0 stages)" for cs
    proof -
      obtain k sg where "cs = (k, sg)" by (rule prod.exhaust)
      with cs have k: "cs = (k, sg)" "int k < ?cols" by (simp_all add: in_set_enumerate_eq)
      have "(int k + 1) * ?t \<le> ?cols * ?t" using k(2) t(1) by (intro mult_right_mono) simp_all
      then have "int k * ?t + ?t \<le> ?t * ?cols" by (simp add: algebra_simps)
      with t(1) st(1) show ?thesis by (simp add: draw_header_def part_def k(1)) (simp add: mosaic_constants)
    qed
    then have "\<forall>x \<in> set (map (draw_header (?t * ?cols) (STAGE_HEADER_H + ?steps * ?t) ?t) (enumerate 0 stages)). x \<noteq> None"
      by (simp only: set_map) blast
    from those_defined [OF this] obtain hs where
      hs: "those (map (draw_header (?t * ?cols) (STAGE_HEADER_H + ?steps * ?t) ?t) (enumerate 0 stages)) = Some hs" by blast
    have tile: "draw_tile cv (?t * ?cols) (STAGE_HEADER_H + ?steps * ?t) ?t r cs \<noteq> None"
      if r: "r \<in> set [0..<steps]" and cs: "cs \<in> set (enumerate 0 stages)" for r cs
    proof -
      obtain k sg where "cs = (k, sg)" by (rule prod.exhaust)
      with cs have k: "cs = (k, sg)" "int k < ?cols" by (simp_all add: in_set_enumerate_eq)
      have "int r < ?steps" using r by simp
      from draw_tile_defined [OF assms(1) c st k(2) this, of sg] show ?thesis by (auto simp: k(1))
    qed
    have "\<forall>x \<in> set (concat (map (\<lambda>r. map (draw_tile cv (?t * ?cols) (STAGE_HEADER_H + ?steps * ?t) ?t r) (enumerate 0 stages)) [0..<steps])). x \<noteq> None"
      using tile by (auto simp del: set_upt)
    from those_defined [OF this] obtain ts where
      ts: "those (concat (map (\<lambda>r. map (draw_tile cv (?t * ?cols) (STAGE_HEADER_H + ?steps * ?t) ?t r) (enumerate 0 stages)) [0..<steps])) = Some ts"
      by blast
    have "?t * ?cols \<le> MAX_MOSAIC_W" "STAGE_HEADER_H + ?steps * ?t \<le> MAX_MOSAIC_H" using t(3,4) c(2) st(2) by (simp_all add: mosaic_constants)
    with False hs ts show ?thesis by (simp add: draw_mosaic_def Let_def flip: steps_def)
  qed
qed

text \<open>A picture of 61 or more stages with an image fails: the tiles are too low for the label.\<close>

lemma draw_mosaic_too_many:
  assumes "61 \<le> length stages" "s \<in> set stages" "r < length (sg_images s)"
    and "\<not> mc_empty cv (st_image (sg_images s ! r))" "0 < mc_cols cv (st_image (sg_images s ! r))" "0 < mc_rows cv (st_image (sg_images s ! r))"
  shows "draw_mosaic cv stages = None"
proof -
  define steps where "steps = foldl (\<lambda>m s. max m (length (sg_images s))) 0 stages"
  let ?cols = "int (length stages)" and ?steps = "int steps"
  let ?t = "tile_width ?cols ?steps"
  have "length (sg_images s) \<le> steps" using max_steps [of 0 stages steps] assms(2) by (simp add: steps_def)
  then have r: "r < steps" using assms(3) by simp
  have "?t \<le> 32" using tile_width_bounds(6) [of ?cols ?steps] assms(1) r by simp
  then have ah: "max 1 (?t - TILE_LABEL_H - 2 * TILE_PAD) = 1" by (simp add: mosaic_constants)
  obtain k where k: "k < length stages" "stages ! k = s" using assms(2) by (auto simp: in_set_conv_nth)
  have "draw_tile cv (?t * ?cols) (STAGE_HEADER_H + ?steps * ?t) ?t r (k, s) = None"
  proof -
    have "part ?t ?t (x, TILE_LABEL_H + TILE_PAD + (1 - h) div 2, w, h) = None" if "fit_image aw 1 c q = Some (w, h, b)" for x w h aw c q b
    proof -
      have "h = 1" using that by (auto simp: fit_image_def Let_def split: bind_splits)
      then show ?thesis using \<open>?t \<le> 32\<close> by (simp add: part_def mosaic_constants)
    qed
    then have "(do { (w, h, shrink) \<leftarrow> fit_image aw 1 c q; (px, py, pw, ph) \<leftarrow> part ?t ?t (f w, TILE_LABEL_H + TILE_PAD + (1 - h) div 2, w, h);
        g w h shrink px py pw ph }) = None" for aw c q f and g :: "int \<Rightarrow> int \<Rightarrow> bool \<Rightarrow> int \<Rightarrow> int \<Rightarrow> int \<Rightarrow> int \<Rightarrow> 'a drawing list option"
      by (cases "fit_image aw 1 c q") auto
    then show ?thesis using assms(3-6) unfolding draw_tile_def Let_def prod.case ah
      by (simp add: part_def [of "_ * _"])
  qed
  moreover have "(k, s) \<in> set (enumerate 0 stages)" using k by (force simp: in_set_enumerate_eq)
  ultimately have "None \<in> set (concat (map (\<lambda>r. map (draw_tile cv (?t * ?cols) (STAGE_HEADER_H + ?steps * ?t) ?t r) (enumerate 0 stages)) [0..<steps]))"
    using r by (auto simp: image_iff intro!: bexI [of _ r] bexI [of _ "(k, s)"])
  moreover have "None \<in> set xs \<Longrightarrow> those xs = None" for xs :: "'b option list"
    by (induction xs) (auto split: option.splits)
  ultimately have "those (concat (map (\<lambda>r. map (draw_tile cv (?t * ?cols) (STAGE_HEADER_H + ?steps * ?t) ?t r) (enumerate 0 stages)) [0..<steps])) = None"
    by blast
  moreover have "stages \<noteq> []" "steps \<noteq> 0" using assms(1) r by auto
  ultimately show ?thesis by (simp add: draw_mosaic_def Let_def flip: steps_def)
qed

end
