(* ===== verification/Recognition_Properties.thy ===== *)
theory Recognition_Properties imports Vision_Tuner Debug_Visualizer Stone_Properties Vision_Properties begin



text \<open>The images that the recognition is given: empty, or of bytes in a number of channels that is not one.\<close>

definition photo_ok :: "'i warp_opencv \<Rightarrow> ('i \<Rightarrow> bool) \<Rightarrow> 'i \<Rightarrow> bool" where
  "photo_ok cv bytes img \<longleftrightarrow> wc_empty cv img \<or> source_ok cv bytes img \<and> wc_channels cv img \<noteq> 1"



text \<open>A grey image with a board in it is an exception: the search takes an image of one channel, and the rectification
  converts what it has found to grey once more.\<close>

lemma grey_image_throws:
  assumes "board_opencv_ok cv bytes hom" "board_stdlib_ok bs" "libm_ok lm" "source_ok (bo_cv cv) bytes img"
    and grey: "wc_channels (bo_cv cv) img = 1" "\<forall>i. wc_channels (bo_cv cv) i = 1 \<longrightarrow> wc_cvtGray (bo_cv cv) i = None"
    and found: "warpToBoard cv bs lm img = Some (Some warped)" "\<not> wc_empty (bo_cv cv) (wr_H warped)"
  shows "process cv ocv bs lm img = None"
proof -
  from warpToBoard_ok [OF assms(1-4)] found(1) grey(1) have i: "image_ok (bo_cv cv) bytes 1 (1000, 1000) (wr_image warped)" by auto
  then have e: "\<not> wc_empty (bo_cv cv) (wr_image warped)" and "wc_channels (bo_cv cv) (wr_image warped) = 1" by (simp_all add: image_ok_def)
  with grey(2) rectifyImage_unconverted [OF e found(2)] have "rectifyImage (bo_cv cv) sl lm img warped = None" for sl lm by blast
  with found e show ?thesis by (simp add: process_def)
qed

subsection \<open>Plain images\<close>

text \<open>A library over plain images, for the witnesses: it finds the 18 lines of a small board, and transforms points by
  cutting them off at the border.\<close>

definition ex_segments :: "segment list" where
  "ex_segments = map (\<lambda>i. (50 + 100 * i, 0, 50 + 100 * i, 900)) [0, 1, 2, 3, 4, 5, 6, 7, 8] @
     map (\<lambda>i. (0, 50 + 100 * i, 900, 50 + 100 * i)) [0, 1, 2, 3, 4, 5, 6, 7, 8]"

definition cut_off :: "double \<Rightarrow> double" where
  "cut_off x = (if x = NaN then Fin 0 else d_clamp x (Fin 0) (Fin 1000))"


definition plain_warp :: "plain_image warp_opencv" where
  "plain_warp = \<lparr>wc_empty = \<lambda>(r, c, n, v). r \<le> 0 \<or> c \<le> 0, wc_channels = \<lambda>(r, c, n, v). n, wc_size = \<lambda>(r, c, n, v). (c, r),
     wc_cvtGray = \<lambda>(r, c, n, v). if n = 3 \<or> n = 4 then Some (r, c, 1, v) else None,
     wc_GaussianBlur = \<lambda>i s x. Some i, wc_Canny = \<lambda>i a b. Some i, wc_dilate = \<lambda>i. Some i,
     wc_HoughLinesP = \<lambda>(r, c, n, v) a b m l g. Some (filter (segment_in (c, r)) ex_segments),
     wc_inv = \<lambda>i. Some i, wc_perspectiveTransform = \<lambda>ps H. Some (map (\<lambda>(x, y). (cut_off x, cut_off y)) ps),
     wc_getPerspectiveTransform = \<lambda>ps qs. Some (3, 3, 1, \<lambda>y x. 0),
     wc_warpPerspective = \<lambda>(r, c, n, v) H s. if r \<le> 0 \<or> c \<le> 0 then None else Some (s, s, n, v),
     wc_norm = \<lambda>(x, y). d_max (d_abs x) (d_abs y)\<rparr>"

lemma length_ex_segments: "length (filter P ex_segments) < 2 ^ 31"
  by (rule order.strict_trans1 [OF length_filter_le]) (simp add: ex_segments_def)

lemma plain_warp_ok: "warp_opencv_ok plain_warp (\<lambda>i. True) (\<lambda>H. True)"
  by (auto simp: warp_opencv_ok_def plain_warp_def image_ok_def gives_def intro: length_ex_segments [simplified])

text \<open>Sorting by a key, in either direction.\<close>

lemma sort_key_laws:
  fixes f :: "'a \<Rightarrow> double"
  shows "mset (sort_key f xs) = mset xs" "sorted_wrt (\<lambda>a b. \<not> d_less (f b) (f a)) (sort_key f xs)"
    "sorted_wrt (\<lambda>a b. \<not> d_less (f a) (f b)) (sort_key (\<lambda>x. d_neg (f x)) xs)"
proof -
  have "sorted (map f (sort_key f xs))" by simp
  then show "sorted_wrt (\<lambda>a b. \<not> d_less (f b) (f a)) (sort_key f xs)" unfolding sorted_wrt_map
    by (rule sorted_wrt_mono_rel [rotated]) (auto dest: d_less_imp_less)
  have neg: "d_less x y \<Longrightarrow> d_less (d_neg y) (d_neg x)" for x y by (cases x; cases y) auto
  have "sorted (map (\<lambda>x. d_neg (f x)) (sort_key (\<lambda>x. d_neg (f x)) xs))" by simp
  then show "sorted_wrt (\<lambda>a b. \<not> d_less (f a) (f b)) (sort_key (\<lambda>x. d_neg (f x)) xs)" unfolding sorted_wrt_map
    by (rule sorted_wrt_mono_rel [rotated]) (auto dest!: d_less_imp_less [OF neg])
qed simp

definition plain_stdlib :: stdlib where
  "plain_stdlib = \<lparr>sl_sort = sort_key ln_pos, sl_atan2f = \<lambda>y x. if d_less (d_abs y) (d_abs x) then Fin 0 else Fin (3 / 2)\<rparr>"

lemma plain_stdlib_ok: "stdlib_ok plain_stdlib"
  by (auto simp: stdlib_ok_def plain_stdlib_def intro: sort_key_laws)

definition ex_warped :: "plain_image warp_result" where
  "ex_warped = \<lparr>wr_image = (1000, 1000, 3, \<lambda>y x. 90), wr_H = (3, 3, 1, \<lambda>y x. 0)\<rparr>"

definition ex_contour :: contour where "ex_contour = [(250, 250), (750, 250), (750, 750), (250, 750)]"

definition plain_board :: "plain_image board_opencv" where
  "plain_board = \<lparr>bo_cv = plain_warp, bo_cvtGrayA = \<lambda>(r, c, n, v). if n = 4 then Some (r, c, 1, v) else None,
     bo_close = \<lambda>i k. Some i, bo_otsu = \<lambda>i. Some i, bo_invert = \<lambda>i. Some i, bo_findContours = \<lambda>i m. Some [ex_contour],
     bo_contourArea = \<lambda>c. Fin 250000, bo_quadArea = \<lambda>q. Fin 250000, bo_arcLength = \<lambda>c. Fin 2000,
     bo_approxPolyDP = \<lambda>c e. Some c, bo_isContourConvex = \<lambda>c. True,
     bo_minAreaRect = \<lambda>c. ((Fin 250, Fin 250), (Fin 750, Fin 250), (Fin 750, Fin 750), (Fin 250, Fin 750))\<rparr>"

lemma plain_board_ok: "board_opencv_ok plain_board (\<lambda>i. True) (\<lambda>H. True)"
proof -
  have "d_in (d_max (d_abs x) (d_abs y)) 0 (2 ^ (k + 1))" if "d_in x (- (2 ^ k)) (2 ^ k)" "d_in y (- (2 ^ k)) (2 ^ k)" for x y k
    by (rule d_max_in [OF d_abs_in [OF that(1)] d_abs_in [OF that(2)]]) simp_all
  moreover have "contour_ok ex_contour" by (simp add: contour_ok_def ex_contour_def)
  ultimately show ?thesis unfolding board_opencv_ok_def
    by (intro conjI) (auto simp: plain_board_def plain_warp_ok vec_ok_def gives_def image_ok_def, auto simp: plain_warp_def)
qed

text \<open>A photograph of a board, and what is found in it.\<close>

definition ex_photo :: plain_image where "ex_photo = (1000, 1000, 3, \<lambda>y x. 90)"

lemma ex_photo_ok:
  "source_ok plain_warp (\<lambda>i. True) ex_photo" "photo_ok plain_warp (\<lambda>i. True) ex_photo"
  "warp_result_ok plain_warp (\<lambda>i. True) (\<lambda>H. True) ex_warped"
proof -
  show s: "source_ok plain_warp (\<lambda>i. True) ex_photo" unfolding source_ok_def
    by (rule exI [of _ 3], rule exI [of _ "(1000, 1000)"]) (simp add: image_ok_def plain_warp_def ex_photo_def)
  then show "photo_ok plain_warp (\<lambda>i. True) ex_photo" by (simp add: photo_ok_def) (simp add: plain_warp_def ex_photo_def)
  have "\<exists>n sz. image_ok plain_warp (\<lambda>i. True) n sz (wr_image ex_warped) \<and> (n = 3 \<or> n = 4) \<and> fst sz \<le> 2 ^ 15 \<and> snd sz \<le> 2 ^ 15"
    by (rule exI [of _ 3], rule exI [of _ "(1000, 1000)"]) (simp add: image_ok_def plain_warp_def ex_warped_def)
  then show "warp_result_ok plain_warp (\<lambda>i. True) (\<lambda>H. True) ex_warped" by (simp add: warp_result_ok_def)
qed

definition plain_sorts :: board_stdlib where
  "plain_sorts = \<lparr>bs_stdlib = plain_stdlib, bs_sort_indices = \<lambda>key. sort_key (\<lambda>i. d_neg (key i)), bs_sort_row = sort_key fst,
     bs_sort_candidates = sort_key (\<lambda>c. d_neg (bc_score c))\<rparr>"

lemma plain_sorts_ok: "board_stdlib_ok plain_sorts"
  by (auto simp: board_stdlib_ok_def plain_sorts_def plain_stdlib_ok intro: sort_key_laws)

subsection \<open>The rectification\<close>

text \<open>C35: the rectification never runs into undefined behaviour, never throws and never fails an assertion, for an image of
  bytes of up to four channels and fewer than 32767 pixels a side and a warped image of three or four channels: every
  angle comes into range, the lines are sorted numbers, and each median is taken of numbers. It finds nothing, or an
  image of a thousand pixels a side, a size of a board, and the intersections of that board.\<close>

theorem rectify_never_faults:
  assumes "warp_opencv_ok cv bytes hom" "stdlib_ok sl" "libm_ok lm" "source_ok cv bytes originalImg" "warp_result_ok cv bytes hom input"
  shows "\<exists>r. rectifyImage cv sl lm originalImg input = Some r \<and>
    (\<forall>g. r = Some g \<longrightarrow> bytes (bg_image g) \<and> \<not> wc_empty cv (bg_image g) \<and> wc_size cv (bg_image g) = (1000, 1000) \<and>
       unat (bg_boardSize g) \<in> {9, 13, 19} \<and> length (bg_intersections g) = unat (bg_boardSize g) * unat (bg_boardSize g))"
  using rectifyImage_ok [OF assms] by (auto simp: geometry_ok_def isValidN_def outSize_def)

theorem rectify_never_faults_witness:
  "\<exists>r. rectifyImage plain_warp plain_stdlib constant_libm ex_photo ex_warped = Some r \<and>
    (\<forall>g. r = Some g \<longrightarrow> wc_size plain_warp (bg_image g) = (1000, 1000) \<and> unat (bg_boardSize g) \<in> {9, 13, 19})"
  using rectify_never_faults [OF plain_warp_ok plain_stdlib_ok constant_libm_ok ex_photo_ok(1,3)] by blast

subsection \<open>The search for the board\<close>

text \<open>C36: the corners of an upright rectangle do not come out in the order that is documented, top left, top right, bottom
  right, bottom left, but with the second and the fourth exchanged, in whatever order they are given: the board in the
  warped image is mirrored.\<close>

theorem corners_come_out_mirrored:
  assumes "l < r" "t < b" "\<bar>l\<bar> < 2 ^ 22" "\<bar>r\<bar> < 2 ^ 22" "\<bar>t\<bar> < 2 ^ 22" "\<bar>b\<bar> < 2 ^ 22"
    and "mset quad = mset [pixel l t, pixel r t, pixel r b, pixel l b]"
  shows "orderCorners bs quad = Some [pixel l t, pixel l b, pixel r b, pixel r t]"
  using assms by (intro rectangle_corners)

theorem corners_come_out_mirrored_witness:
  "orderCorners plain_sorts [pixel 10 20, pixel 90 20, pixel 90 80, pixel 10 80] = Some [pixel 10 20, pixel 10 80, pixel 90 80, pixel 90 20]"
  using corners_come_out_mirrored [of 10 90 20 80 "[pixel 10 20, pixel 90 20, pixel 90 80, pixel 10 80]" plain_sorts] by simp

text \<open>C37: the best candidate wins: the search never faults, and it finds a board just when one of the largest contours
  gives a candidate. What it finds is the quadrilateral of a contour that can be a board, with the counts of the lines
  within it and with its score by shape and lines together. It is the one with the highest such score among the six
  best by shape, the first of them when two are equal.\<close>

theorem best_candidate_wins:
  assumes "board_opencv_ok cv bytes hom" "board_stdlib_ok bs" "libm_ok lm" "\<forall>c \<in> set contours. contour_ok c"
    and "source_ok (bo_cv cv) bytes img"
  shows "\<exists>r. selectBestBoardCandidate cv bs lm contours img = Some r \<and>
    (r = None \<longleftrightarrow> board_candidates cv bs contours img = {}) \<and>
    (\<forall>best. r = Some best \<longrightarrow>
       (\<exists>q. contourToQuad cv bs (contours ! bc_contourIdx best) = Some q \<and> bc_quad best = qc_quad q) \<and>
       isPlausibleBoardQuad cv (bc_quad best) (bo_size cv img) \<and>
       (\<exists>ranked i e. ranking cv bs contours img ranked \<and>
          best_of cv bs lm img (take REFINED_CANDIDATES ranked) i (bc_score best) \<and>
          evaluateGridEvidence cv bs lm img (bc_quad best) = Some e \<and>
          best = with_evidence (ranked ! i) e (bc_score best)))"
proof -
  obtain r where r: "selectBestBoardCandidate cv bs lm contours img = Some r" using selectBest_defined [OF assms] by blast
  note n = selectBest_None [OF assms(2) r]
  show ?thesis
  proof (cases r)
    case None
    with r n show ?thesis by blast
  next
    case (Some best)
    have fin: "\<forall>c \<in> board_candidates cv bs contours img. \<exists>t. final_score cv bs lm img c = Some (Fin t)"
      using final_score_finite [OF assms(1-3,5)] candidates_score [OF assms(1,2,4,5)] by blast
    from Some r have b: "selectBestBoardCandidate cv bs lm contours img = Some (Some best)" by simp
    from selectBest_spec [OF assms(2) b fin] obtain ranked i e s where
      R: "ranking cv bs contours img ranked" "best_of cv bs lm img (take REFINED_CANDIDATES ranked) i s"
        "evaluateGridEvidence cv bs lm img (bc_quad (ranked ! i)) = Some e" "best = with_evidence (ranked ! i) e s" by blast
    then have "ranked ! i \<in> board_candidates cv bs contours img" unfolding ranking_def best_of_def by (metis length_take min_less_iff_conj nth_mem)
    then have c: "candidate_ok cv bs contours (bo_size cv img) (ranked ! i)" by (auto simp: board_candidates_def dest: candidate_of_ok)
    have w: "bc_quad best = bc_quad (ranked ! i)" "bc_contourIdx best = bc_contourIdx (ranked ! i)" "bc_score best = s"
      by (simp_all add: R(4) with_evidence_def)
    have "(\<exists>q. contourToQuad cv bs (contours ! bc_contourIdx best) = Some q \<and> bc_quad best = qc_quad q) \<and>
      isPlausibleBoardQuad cv (bc_quad best) (bo_size cv img)" using c by (simp add: w(1,2) candidate_ok_def)
    moreover have "\<exists>ranked i e. ranking cv bs contours img ranked \<and>
      best_of cv bs lm img (take REFINED_CANDIDATES ranked) i (bc_score best) \<and>
      evaluateGridEvidence cv bs lm img (bc_quad best) = Some e \<and> best = with_evidence (ranked ! i) e (bc_score best)"
      using R w by metis
    ultimately show ?thesis using r n Some by blast
  qed
qed

theorem best_candidate_wins_witness:
  "\<exists>r. selectBestBoardCandidate plain_board plain_sorts constant_libm [ex_contour] ex_photo = Some r \<and>
    (r = None \<longleftrightarrow> board_candidates plain_board plain_sorts [ex_contour] ex_photo = {}) \<and>
    (\<forall>best. r = Some best \<longrightarrow> isPlausibleBoardQuad plain_board (bc_quad best) (bo_size plain_board ex_photo))"
proof -
  have "\<forall>c \<in> set [ex_contour]. contour_ok c" by (simp add: ex_contour_def contour_ok_def)
  moreover have "source_ok (bo_cv plain_board) (\<lambda>i. True) ex_photo" using ex_photo_ok(1) by (simp add: plain_board_def)
  ultimately show ?thesis using best_candidate_wins [OF plain_board_ok plain_sorts_ok constant_libm_ok] by blast
qed

subsection \<open>The recognition as a whole\<close>



end
