(* ===== verification/Spec2Isabelle.thy ===== *)
theory Spec2Isabelle imports Game_Properties Net_Properties App_Properties Session_Properties View_Properties Vision_Properties Stone_Properties Recognition_Properties Sgf begin

text \<open>
  A model of the Go program \<^verbatim>\<open>tengen\<close> (C++, under \<^verbatim>\<open>src/src\<close>): the game core, the network library, the server and the
  client application, the user interface around them, and the image recognition, which finds a board in an image,
  fits its grid and tells its stones. The definitions follow the source operation by operation, keep its names and its order, and are
  executable; paths below are relative to \<^verbatim>\<open>src/src\<close>.

  \<^bold>\<open>How the program works.\<close> A user interface holds a session (\<^verbatim>\<open>apps/runtime/sessionManager.cpp\<close>), which connects a
  network client to a server, or starts a server application in the same process and connects to that. The server
  application (\<^verbatim>\<open>apps/runtime/gameServer.cpp\<close>) owns a network server and a game. Bytes arrive on connections, which
  cut them into messages; the network server queues them, gives every connection a session and a seat, parses the
  messages of seated players and calls the application; the application pushes events onto the queue of the game,
  whose loop checks the rules and tells its listeners a delta for every change; the application broadcasts the
  delta, and each client applies it to its own copy of the board.

  \<^bold>\<open>Conventions.\<close> \<^verbatim>\<open>unsigned\<close>, \<^verbatim>\<open>uint32_t\<close> and \<^verbatim>\<open>uint64_t\<close> are words; \<^verbatim>\<open>float\<close> and \<^verbatim>\<open>double\<close> are IEEE numbers over the rationals
  (\<^verbatim>\<open>Floats\<close>). A failed \<^verbatim>\<open>assert\<close>, an access out of range, any other undefined behaviour and an exception that leaves
  the operation are \<^term>\<open>None\<close>; an absent \<^verbatim>\<open>std::optional\<close> is a value. An operation returns its new state and the calls
  it makes to the outside, in order. An operation that holds a mutex, a handler that runs on a strand or on the
  only thread of its object, is one step; the step relations interleave these steps freely. Joining a thread cuts
  an operation in two, the second part being enabled once the thread has ended.

  \<^bold>\<open>The game core\<close> (\<^verbatim>\<open>game/\<close>).
  \<^item> \<^verbatim>\<open>Board_Model\<close>: \<^verbatim>\<open>game/model\<close>, coordinates, players, the checked accesses of \<^verbatim>\<open>Board\<close>. \<^verbatim>\<open>Zobrist\<close>: \<^verbatim>\<open>core/zobristHash.hpp\<close>, the
    table filled by a generator that is a parameter, and the contract \<^verbatim>\<open>zobrist_hash\<close> of its interface.
    \<^verbatim>\<open>Go_Position\<close>: \<^verbatim>\<open>core/position.cpp\<close>, with the hash a position should have.
  \<^item> \<^verbatim>\<open>Move_Checker\<close>: \<^verbatim>\<open>core/moveChecker.cpp\<close>, every loop of it. \<^verbatim>\<open>Group_Analysis\<close> shows that the flood fill computes the
    group and the liberties of the rules, \<^verbatim>\<open>Move_Rules\<close> that the checks decide the rules and that a simulated move gives the
    position they prescribe, \<^verbatim>\<open>Group_Life\<close> that legal play leaves no stone without a liberty.
  \<^item> \<^verbatim>\<open>Safe_Queue\<close> and \<^verbatim>\<open>Signal_Hub\<close> state the contracts of the two copies of the queue and of the two event hubs as locales
    and interpret them on the code; \<^verbatim>\<open>Core_Event_Hub\<close> is \<^verbatim>\<open>core/eventHub.cpp\<close>.
  \<^item> \<^verbatim>\<open>Game\<close>: \<^verbatim>\<open>core/game.cpp\<close>, the handlers and the loop, and the relation \<^verbatim>\<open>game_step\<close> of all threads. \<^verbatim>\<open>Game_Invariants\<close>: the
    invariant of every reachable game. \<^verbatim>\<open>Game_Runs\<close>: what listeners are told, and that a run ends or waits.
    \<^verbatim>\<open>Sample_Games\<close> is a short game for the witnesses, \<^verbatim>\<open>Game_Properties\<close> holds the properties. \<^verbatim>\<open>Sgf\<close>: \<^verbatim>\<open>core/sgfHandler.cpp\<close>.

  \<^bold>\<open>The network library\<close> (\<^verbatim>\<open>net/\<close>).
  \<^item> \<^verbatim>\<open>Protocol\<close>: \<^verbatim>\<open>core/protocol.hpp\<close>, the length header on machines of either byte order. \<^verbatim>\<open>Tcp_Connection\<close>, \<^verbatim>\<open>Tcp_Server\<close>,
    \<^verbatim>\<open>Tcp_Client\<close>: \<^verbatim>\<open>core/connection.cpp\<close>, \<^verbatim>\<open>tcpServer.cpp\<close>, \<^verbatim>\<open>tcpClient.cpp\<close>; asio is the environment of their step relations, or
    a record of its calls with the documented behaviour as named hypotheses.
  \<^item> \<^verbatim>\<open>Net_Types\<close>, \<^verbatim>\<open>Nw_Events\<close>: \<^verbatim>\<open>network/nwEvents.cpp\<close>, the JSON messages. The JSON library is the record \<^verbatim>\<open>json_api\<close>, its
    documentation the predicate \<^verbatim>\<open>json_laws\<close>; \<^verbatim>\<open>Json_Instance\<close> shows that a library with these laws exists.
  \<^item> \<^verbatim>\<open>Net_Session_Manager\<close>, \<^verbatim>\<open>Net_Server\<close>, \<^verbatim>\<open>Net_Client\<close>: \<^verbatim>\<open>network/sessionManager.cpp\<close>, \<^verbatim>\<open>server.cpp\<close>, \<^verbatim>\<open>client.cpp\<close>.
    \<^verbatim>\<open>Net_Properties\<close> holds the properties.

  \<^bold>\<open>The applications\<close> (\<^verbatim>\<open>apps/\<close>).
  \<^item> \<^verbatim>\<open>Game_Server\<close>: \<^verbatim>\<open>runtime/gameServer.cpp\<close> and the relation \<^verbatim>\<open>gs_step\<close> of the whole server process;
    \<^verbatim>\<open>Game_Server_Invariants\<close> its invariant. \<^verbatim>\<open>App_Event_Hub\<close>, \<^verbatim>\<open>App_Position\<close>, \<^verbatim>\<open>App_Session_Manager\<close>: the hub, the copy of the game and
    the session of the client; which boards fit into memory when the server asks for one is the parameter \<^verbatim>\<open>room\<close>, and a size that does not makes the
    reading thread throw (\<^verbatim>\<open>huge_board_throws\<close>). \<^verbatim>\<open>Session_Invariants\<close> is its invariant, \<^verbatim>\<open>Client_Replay\<close> that the deltas of a game carry a client
    along. \<^verbatim>\<open>Sample_Application\<close> drives the server application for the witnesses; \<^verbatim>\<open>App_Properties\<close> and
    \<^verbatim>\<open>Session_Properties\<close> hold the properties.
  \<^item> \<^verbatim>\<open>Board_View\<close>: \<^verbatim>\<open>tengen/boardRenderer.cpp\<close> and \<^verbatim>\<open>BoardWidget.cpp\<close>, the geometry of the painted board in \<^verbatim>\<open>unsigned\<close> and \<^verbatim>\<open>float\<close>
    arithmetic. \<^verbatim>\<open>Game_View\<close>: \<^verbatim>\<open>GameWidget.cpp\<close> and the dialogs. \<^verbatim>\<open>Game_Terminal\<close>: \<^verbatim>\<open>gameTerminal/main.cpp\<close>, with the words
    typed so far and whether the input has ended. \<^verbatim>\<open>View_Properties\<close> holds the properties.

  \<^bold>\<open>Image recognition\<close> (\<^verbatim>\<open>vision/core/\<close>).
  \<^item> \<^verbatim>\<open>Floats\<close>: rounding of binary floating point; \<^verbatim>\<open>Doubles\<close> and \<^verbatim>\<open>Singles\<close>: \<^verbatim>\<open>double\<close> and \<^verbatim>\<open>float\<close> with infinities and NaN,
    without the sign of zero, the conversions to integers, and bounds on the results of operations. The trigonometric
    functions of the standard library are the record \<^verbatim>\<open>libm\<close>; \<^verbatim>\<open>libm_ok\<close> says that their results are finite and in their range.
  \<^item> \<^verbatim>\<open>Lattice_Fit\<close> and \<^verbatim>\<open>Grid_Finder\<close>: \<^verbatim>\<open>gridFinder.cpp\<close>, which finds the lines of a board among the lines of an image.
    \<^verbatim>\<open>Grid_Bounds\<close> shows that spacing and phase are in range, \<^verbatim>\<open>Lattice_Scores\<close> what the score of a lattice means,
    \<^verbatim>\<open>Grid_Search\<close> that the search never faults and when it finds a grid, \<^verbatim>\<open>Regular_Lines\<close> what it finds for a perfect image.
    Images have at most 65536 pixels on a side and lines come in ascending order.
  \<^item> \<^verbatim>\<open>Statistics\<close>: \<^verbatim>\<open>statistics.cpp\<close>, with the median in the middle of the numbers. \<^verbatim>\<open>Vision_Properties\<close> holds the properties of
    the grid fitting.
  \<^item> \<^verbatim>\<open>Stone_Config\<close>, \<^verbatim>\<open>Stone_Sampling\<close>, \<^verbatim>\<open>Stone_Scoring\<close>, \<^verbatim>\<open>Stone_Decision\<close>, \<^verbatim>\<open>Stone_Finder\<close>: \<^verbatim>\<open>stoneFinder.cpp\<close>, the recognition of
    stones, namespace by namespace. OpenCV is the record \<^verbatim>\<open>opencv\<close> of the calls that are made, its documentation the predicate
    \<^verbatim>\<open>opencv_laws\<close>: for images of bytes that are not empty, with the channels and the blur that a call is documented for, the
    result is an image of bytes of the same size; any other call may throw, which is \<^term>\<open>None\<close>. \<^verbatim>\<open>Stone_Bounds\<close> and \<^verbatim>\<open>Stone_Analysis\<close> show that what is
    measured, the model and the scores are in range, \<^verbatim>\<open>Stone_Classification\<close> that nothing faults, and where a reported stone
    comes from; \<^verbatim>\<open>Stone_Report\<close> is the report on the error stream that \<^verbatim>\<open>GO_STONE_DEBUG\<close> asks for, which prints the result;
    \<^verbatim>\<open>Stone_Properties\<close> holds the properties. The parameters are arbitrary within \<^verbatim>\<open>stone_config_ok\<close>, which the
    defaults satisfy; it asks for bounds of the blur that are positive and in order, as \<^verbatim>\<open>std::clamp\<close> and OpenCV do.
  \<^item> \<^verbatim>\<open>Board_Geometry\<close> and \<^verbatim>\<open>Rectifier\<close>: \<^verbatim>\<open>rectifier.cpp\<close>, from the segments in the image of a board to its grid and the warped
    image. \<^verbatim>\<open>Line_Clusters\<close> shows that clustering gives ascending numbers, \<^verbatim>\<open>Rectifier_Bounds\<close> that nothing faults and what comes
    out. OpenCV is the record \<^verbatim>\<open>warp_opencv\<close>, whose calls may throw; \<^verbatim>\<open>warp_opencv_ok\<close> says when they do not and what they give:
    images of the channels documented, of fewer than 32767 pixels a side where they are warped, matrices, and segments inside the
    image. A conversion to grey is only promised for three or four channels, so a grey image may throw
    (\<^verbatim>\<open>grey_image_throws\<close>). \<^verbatim>\<open>stdlib\<close> is what \<^verbatim>\<open>std::sort\<close> and \<^verbatim>\<open>atan2\<close>
    leave open.
  \<^item> \<^verbatim>\<open>Board_Finder\<close>: \<^verbatim>\<open>boardFinder.cpp\<close>, the search for the board by its contours. \<^verbatim>\<open>Board_Search\<close> shows what the search finds and how it
    orders corners, \<^verbatim>\<open>Board_Search_Bounds\<close> that scores and angles are numbers and nothing faults, under \<^verbatim>\<open>board_opencv_ok\<close>: contours
    lie in the image, and lengths and areas are bounded by their points. The images given have up to four channels and fewer
    than 32767 pixels a side (\<^verbatim>\<open>source_ok\<close>).
  \<^item> \<^verbatim>\<open>Debug_Visualizer\<close>: \<^verbatim>\<open>debugVisualizer.cpp\<close>, the stages and the picture of them, which fits its bounds up to 60 stages of 89 steps.
  \<^item> \<^verbatim>\<open>Vision_Tuner\<close>: \<^verbatim>\<open>process\<close> of \<^verbatim>\<open>tools/visionTuner/main.cpp\<close>, the three steps one after the other. \<^verbatim>\<open>Recognition_Properties\<close> holds the
    properties of the search, the rectification and the whole.

  \<^bold>\<open>Across the components.\<close> The theorem \<^verbatim>\<open>client_shows_the_game\<close> below composes them: what the loop of the game
  announces, translated by the server application, serialised, parsed and applied, leaves a client with the board of
  the game.

  \<^bold>\<open>Bounds and termination.\<close> There is no fuel. Loops are structural recursions, or functions with a termination proof;
  the measure of the flood fill is the stack and the squares not yet visited. The search of \<^verbatim>\<open>generateSessionId\<close> for a
  free identifier may run for ever, and is a \<^verbatim>\<open>partial_function\<close>: it returns while an identifier is free, which the invariant of
  the server gives for fewer than \<open>2 ^ 32\<close> accepted connections. Counters that wrap at \<open>2 ^ 32\<close> (moves, connections,
  sessions, chat numbers) wrap in the model; the theorems that need them not to say so.

  \<^bold>\<open>Not modelled.\<close> The layout of the Qt widgets and the painting itself; logging; the start of the programs
  (\<^verbatim>\<open>apps/server/main.cpp\<close>, \<^verbatim>\<open>apps/tengen/main.cpp\<close>, the main program of \<^verbatim>\<open>tools/visionTuner\<close>) and the windows that it opens;
  memory that runs out, except for the boards above; the pictures that the steps of the recognition hand to the debug visualizer, and their messages. Inside a step the model
  has no interleaving: the data races of the program (the flag \<^verbatim>\<open>m_gameActive\<close> and the sessions are read on two threads
  without a lock) and a wake-up lost between \<^verbatim>\<open>Release\<close> and a waiting \<^verbatim>\<open>Pop\<close> are outside it.
\<close>

subsection \<open>Both ends together\<close>

text \<open>C39: the client shows the game: a run of the game loop from a state that the client shows, its deltas
  translated by the server application, serialised, parsed by the client and handed to the session, leaves the
  client with the board of the game, and, while the client waits for a move, with its move number and the player
  to move. The number of moves must not wrap.\<close>

theorem client_shows_the_game:
  assumes "game_reach mk draw n g hs" "run_loop g = Some (r, g', out)"
    and "count_list (eh_stateListeners (g_eventHub g)) self = 1" "mirrors (ss_position s) g"
    and "unat (gp_moveId (g_position g)) + length (sq_queue (g_eventQueue g)) < 2 ^ 32" "json_laws J utf8 fin"
  shows "\<exists>msgs s' news.
    map (\<lambda>d. toMessage_server J (ServerDelta (delta_to_net d))) (deltas_of out self) = map Some msgs \<and>
    session_calls room (concat (map (calls_of_message J) msgs)) s = Some (s', news) \<and>
    session_board s' = gp_board (g_position g') \<and> mirrors (ss_position s') g'"
proof -
  from game_reach_inv [OF assms(1)] have ok: "game_ok mk draw n g" by simp
  from assms(5) have "moves_left g" by (simp add: moves_left_def)
  from run_mirrors [OF assms(2) ok assms(4) this assms(3)] obtain p where
    p: "position_applies (map delta_to_net (deltas_of out self)) (ss_position s) = Some p" "mirrors p g'" by blast
  have "\<forall>d \<in> set (map delta_to_net (deltas_of out self)). delta_ok d"
    using run_deltas_ok [OF assms(2) ok] by auto
  from session_deltas [OF assms(6) this p(1), of room] p(2) show ?thesis
    by (auto simp: comp_def session_board_def position_getBoard_def mirrors_def)
qed

definition ex_session :: "unit session" where
  "ex_session = (session_new ())\<lparr>ss_position := ex_started\<rparr>"

theorem client_shows_the_game_witness:
  "\<exists>msgs s' news. length msgs = 5 \<and>
    session_calls (\<lambda>_. True) (concat (map (calls_of_message jv_api) msgs)) ex_session = Some (s', news) \<and>
    session_board s' = gp_board (g_position ex_final)"
proof -
  let ?g = "(ex_game ex_events)\<lparr>g_gameActive := True\<rparr>"
  from ex_run obtain r g' out where run: "game_run (ex_game ex_events) = Some (r, g', out)"
    "map gd_captures (deltas_of out 7) = [[], [], [Coord 0 0], [], []]" by auto
  then have l: "run_loop ?g = Some (r, g', out)" "g' = ex_final" "length (deltas_of out 7) = 5"
    by (auto simp: game_run_def ex_final_def dest: arg_cong [where f = length])
  obtain hs where reach: "game_reach ex_mk ex_draw 9 ?g hs"
    using game_reach_extends [OF ex_reach game_step.enter_run] by blast
  have c: "count_list (eh_stateListeners (g_eventHub ?g)) 7 = 1 \<and>
      unat (gp_moveId (g_position ?g)) + length (sq_queue (g_eventQueue ?g)) < 2 ^ 32 \<and>
      g_position ?g = game_position_new 9"
    by (simp add: ex_game_def ex_events_def game_subscribeState_def hub_subscribe_state_def event_hub_new_def
        game_pushEvent_def SafeQueue_Push_def SafeQueue_new_def game_position_new_def)
  then have "mirrors (ss_position ex_session) ?g"
    by (simp add: mirrors_def ex_session_def ex_started_def game_position_new_def)
  from client_shows_the_game [OF reach l(1) _ this _ jv_laws] c l(2,3) show ?thesis
    by (metis length_map)
qed

text \<open>C40: an SGF coordinate pair survives being read and written, and a coordinate of any board the game allows
  survives being written and read.\<close>

theorem sgf_round_trip:
  "map_option toSGF (fromSGF [a, b]) = Some [a, b] \<and>
   (n \<le> 19 \<and> on_board n c \<longrightarrow> fromSGF (toSGF c) = Some c)"
  using toSGF_fromSGF fromSGF_toSGF [of c] by (auto simp: on_board_def)

theorem sgf_round_trip_witness:
  "fromSGF (toSGF (Coord 18 18)) = Some (Coord 18 18)"
  using sgf_round_trip [of _ _ 19 "Coord 18 18"] by (simp add: on_board_def)

end
